(* ===== verification/Prelude.thy ===== *)
theory Prelude
  imports Main "HOL-Library.AList" "HOL-Library.List_Lexorder" "HOL-Library.Char_ord"
    "HOL-Library.Sublist"
begin

text \<open>
  Shared vocabulary of the development: the exception classes of the program and their
  subclass tests, results as sums, Python dictionaries as association lists in insertion
  order, and the string operations of the standard library that the program uses.

  A Python string is a \<^typ>\<open>string\<close>; a character is a code point below 256, so the
  string predicates below are Python's on that range. Dynamic type tests of the source
  (\<^verbatim>\<open>type(x) is not str\<close>) hold by typing and are left out.
\<close>

named_theorems exn_defs \<open>definitions of the subclass tests on exceptions\<close>
named_theorems dict_simps \<open>laws of insertion-ordered dictionaries\<close>
named_theorems op_defs \<open>definitions of the operations of a component\<close>

section \<open>Exceptions and results\<close>

text \<open>
  The exception classes the program raises. Classes whose handlers look at a code carry
  it; messages are not modelled.
\<close>

datatype exn =
    TypeError | ValueError | KeyError | IndexError | AttributeError | RuntimeError | IntegrityError
  | InvalidDomainValue
  | StaleFencingTokenError | LeaseExpiredError | StorageFullError | RecoveryRequired
  | PolicyResolutionError string
  | DocumentRejected | UncertainOutcome | ContractNotSupported
  | InvalidTransition | ItemLocked
  | WorkflowDenied string | WorkflowBlocked
  | CrmDenied | CrmNotFound | OverflowError | CsvError | BadZipFile
  | IsolationDenied | ImportRejected | InvalidManifest | InvalidOperation

text \<open>\<^verbatim>\<open>except ValueError\<close>: the class itself and its subclasses in the program.\<close>

definition is_value_error :: "exn \<Rightarrow> bool" where
  [exn_defs]: "is_value_error e = (case e of
      ValueError \<Rightarrow> True | InvalidDomainValue \<Rightarrow> True | PolicyResolutionError _ \<Rightarrow> True
    | WorkflowDenied _ \<Rightarrow> True | WorkflowBlocked \<Rightarrow> True | InvalidManifest \<Rightarrow> True | _ \<Rightarrow> False)"

text \<open>\<^verbatim>\<open>except RuntimeError\<close>.\<close>

definition is_runtime_error :: "exn \<Rightarrow> bool" where
  [exn_defs]: "is_runtime_error e = (case e of
      RuntimeError \<Rightarrow> True | StaleFencingTokenError \<Rightarrow> True | LeaseExpiredError \<Rightarrow> True
    | StorageFullError \<Rightarrow> True | RecoveryRequired \<Rightarrow> True | DocumentRejected \<Rightarrow> True
    | UncertainOutcome \<Rightarrow> True | ContractNotSupported \<Rightarrow> True | InvalidTransition \<Rightarrow> True
    | ItemLocked \<Rightarrow> True | CrmDenied \<Rightarrow> True | CrmNotFound \<Rightarrow> True | IsolationDenied \<Rightarrow> True
    | ImportRejected \<Rightarrow> True | _ \<Rightarrow> False)"

text \<open>\<^verbatim>\<open>except ProviderContractError\<close>: \<open>DocumentRejected\<close> is one of its subclasses.\<close>

definition is_provider_error :: "exn \<Rightarrow> bool" where
  [exn_defs]: "is_provider_error e = (case e of
      DocumentRejected \<Rightarrow> True | UncertainOutcome \<Rightarrow> True | ContractNotSupported \<Rightarrow> True
    | _ \<Rightarrow> False)"

type_synonym 'a res = "exn + 'a"

definition bind_res :: "'a res \<Rightarrow> ('a \<Rightarrow> 'b res) \<Rightarrow> 'b res" where
  "bind_res r f = (case r of Inl e \<Rightarrow> Inl e | Inr x \<Rightarrow> f x)"

lemma bind_res_simps [simp]:
  "bind_res (Inl e) f = Inl e" "bind_res (Inr x) f = f x"
  by (simp_all add: bind_res_def)

lemma bind_res_Inr: "bind_res r f = Inr y \<longleftrightarrow> (\<exists>x. r = Inr x \<and> f x = Inr y)"
  by (cases r) auto

text \<open>\<^verbatim>\<open>if not p: raise e\<close>, the guard most constructors are made of.\<close>

definition ensure :: "exn \<Rightarrow> bool \<Rightarrow> 'a res \<Rightarrow> 'a res" where
  "ensure e p r = (if p then r else Inl e)"

lemma ensure_Inr [simp]: "ensure e p r = Inr x \<longleftrightarrow> p \<and> r = Inr x"
  by (simp add: ensure_def)

lemma ensure_True [simp]: "ensure e True r = r"
  by (simp add: ensure_def)

lemma ensure_False [simp]: "ensure e False r = Inl e"
  by (simp add: ensure_def)

text \<open>A loop whose body may raise: the first exception ends it.\<close>

fun map_res :: "('a \<Rightarrow> 'b res) \<Rightarrow> 'a list \<Rightarrow> 'b list res" where
  "map_res f [] = Inr []"
| "map_res f (x # xs) =
     (case f x of Inl e \<Rightarrow> Inl e
      | Inr y \<Rightarrow> (case map_res f xs of Inl e \<Rightarrow> Inl e | Inr ys \<Rightarrow> Inr (y # ys)))"

lemma map_res_Inr:
  "map_res f xs = Inr ys \<Longrightarrow> list_all2 (\<lambda>x y. f x = Inr y) xs ys"
  by (induction xs arbitrary: ys) (auto split: sum.splits)

lemma map_res_total:
  "(\<And>x. x \<in> set xs \<Longrightarrow> \<exists>y. f x = Inr y) \<Longrightarrow> \<exists>ys. map_res f xs = Inr ys"
  by (induction xs) (fastforce split: sum.splits)+

section \<open>Dictionaries in insertion order\<close>

text \<open>
  A Python dict keeps its keys in insertion order and an assignment to a present key
  keeps its place: \<^const>\<open>AList.update\<close> on an association list. \<^verbatim>\<open>d.get(k)\<close> is
  \<^term>\<open>map_of d k\<close>.
\<close>

type_synonym ('k, 'v) dict = "('k \<times> 'v) list"

abbreviation dget :: "('k, 'v) dict \<Rightarrow> 'k \<Rightarrow> 'v option" where
  "dget d k \<equiv> map_of d k"

abbreviation dput :: "'k \<Rightarrow> 'v \<Rightarrow> ('k, 'v) dict \<Rightarrow> ('k, 'v) dict" where
  "dput k v d \<equiv> AList.update k v d"

abbreviation ddel :: "'k \<Rightarrow> ('k, 'v) dict \<Rightarrow> ('k, 'v) dict" where
  "ddel k d \<equiv> AList.delete k d"

definition dkeys :: "('k, 'v) dict \<Rightarrow> 'k list" where
  "dkeys d = map fst d"

definition dvals :: "('k, 'v) dict \<Rightarrow> 'v list" where
  "dvals d = map snd d"

text \<open>Well-formed: no key twice.\<close>

definition dict_ok :: "('k, 'v) dict \<Rightarrow> bool" where
  "dict_ok d = distinct (map fst d)"

lemma dict_ok_Nil [simp]: "dict_ok []"
  by (simp add: dict_ok_def)

lemma dict_ok_dput [simp]: "dict_ok d \<Longrightarrow> dict_ok (dput k v d)"
  by (simp add: dict_ok_def distinct_update)

lemma dict_ok_ddel [simp]: "dict_ok d \<Longrightarrow> dict_ok (ddel k d)"
  by (simp add: dict_ok_def distinct_delete)

lemma dget_dput [simp, dict_simps]:
  "dget (dput k v d) k' = (if k' = k then Some v else dget d k')"
  by (simp add: update_conv')

lemma dget_ddel [simp, dict_simps]:
  "dget (ddel k d) k' = (if k' = k then None else dget d k')"
  by (simp add: delete_conv')

lemma dput_fresh [dict_simps]: "dget d k = None \<Longrightarrow> dput k v d = d @ [(k, v)]"
  by (induction d) (auto simp: map_of_eq_None_iff)

lemma dvals_fresh: "dget d k = None \<Longrightarrow> dvals (dput k v d) = dvals d @ [v]"
  by (simp add: dput_fresh dvals_def)

lemma dict_ok_get: "dict_ok d \<Longrightarrow> (k, v) \<in> set d \<longleftrightarrow> dget d k = Some v"
  by (simp add: dict_ok_def)

lemma dict_ok_vals: "dict_ok d \<Longrightarrow> v \<in> set (dvals d) \<longleftrightarrow> (\<exists>k. dget d k = Some v)"
  by (force simp: dvals_def dict_ok_get [symmetric])

lemma dget_keys: "k \<in> set (dkeys d) \<longleftrightarrow> dget d k \<noteq> None"
  by (simp add: dkeys_def map_of_eq_None_iff)

lemma dkeys_dput: "set (dkeys (dput k v d)) = insert k (set (dkeys d))"
  unfolding set_eq_iff insert_iff dget_keys by simp

lemma length_dput:
  "length (dput k v d) = (if dget d k = None then Suc (length d) else length d)"
  by (induction d) auto

section \<open>Characters and strings\<close>

type_synonym str = string

definition is_upper :: "char \<Rightarrow> bool" where
  "is_upper c = (65 \<le> (of_char c :: nat) \<and> (of_char c :: nat) \<le> 90)"

definition is_lower :: "char \<Rightarrow> bool" where
  "is_lower c = (97 \<le> (of_char c :: nat) \<and> (of_char c :: nat) \<le> 122)"

definition is_digit :: "char \<Rightarrow> bool" where
  "is_digit c = (48 \<le> (of_char c :: nat) \<and> (of_char c :: nat) \<le> 57)"

definition upper_alnum :: "char \<Rightarrow> bool" where
  "upper_alnum c = (is_upper c \<or> is_digit c)"

text \<open>\<^verbatim>\<open>str.isspace\<close> on the code points below 256.\<close>

definition is_space :: "char \<Rightarrow> bool" where
  "is_space c = (let n = (of_char c :: nat) in
     (9 \<le> n \<and> n \<le> 13) \<or> (28 \<le> n \<and> n \<le> 32) \<or> n = 133 \<or> n = 160)"

definition strip :: "str \<Rightarrow> str" where
  "strip s = rev (dropWhile is_space (rev (dropWhile is_space s)))"

definition startswith :: "str \<Rightarrow> str \<Rightarrow> bool" where
  "startswith s p = prefix p s"

lemma strip_Nil_iff: "strip s = [] \<longleftrightarrow> (\<forall>c \<in> set s. is_space c)"
proof -
  have "strip s = [] \<longleftrightarrow> (\<forall>c \<in> set (dropWhile is_space s). is_space c)"
    by (simp add: strip_def)
  also have "\<dots> \<longleftrightarrow> (\<forall>c \<in> set s. is_space c)"
    by (induction s) auto
  finally show ?thesis .
qed

lemma upper_not_dash: "upper_alnum c \<Longrightarrow> c \<noteq> CHR ''-''"
  by (auto simp: upper_alnum_def is_upper_def is_digit_def)

subsection \<open>Opaque references\<close>

text \<open>
  The pattern \<^verbatim>\<open>^[A-Z][A-Z0-9]*(?:-[A-Z0-9]+)+$\<close> used with \<^verbatim>\<open>fullmatch\<close> by
  every module that handles references. \<open>dash_groups\<close> is its tail \<^verbatim>\<open>(?:-[A-Z0-9]+)+\<close>.
\<close>

function dash_groups :: "str \<Rightarrow> bool" where
  "dash_groups [] = False"
| "dash_groups (c # s) =
     (c = CHR ''-'' \<and> takeWhile upper_alnum s \<noteq> [] \<and>
      (dropWhile upper_alnum s = [] \<or> dash_groups (dropWhile upper_alnum s)))"
  by pat_completeness auto
termination
  by (relation "measure length") (auto simp: le_imp_less_Suc length_dropWhile_le)

definition opaque_ref :: "str \<Rightarrow> bool" where
  "opaque_ref s = (case s of [] \<Rightarrow> False
     | c # cs \<Rightarrow> is_upper c \<and> dash_groups (dropWhile upper_alnum cs))"

text \<open>\<^verbatim>\<open>^[A-Z]{3}$\<close>.\<close>

definition currency_code :: "str \<Rightarrow> bool" where
  "currency_code s = (length s = 3 \<and> (\<forall>c \<in> set s. is_upper c))"

lemma opaque_ref_nonempty: "opaque_ref s \<Longrightarrow> s \<noteq> []"
  by (auto simp: opaque_ref_def)

lemma dash_groups_chars:
  "dash_groups s \<Longrightarrow> c \<in> set s \<Longrightarrow> upper_alnum c \<or> c = CHR ''-''"
proof (induction s rule: dash_groups.induct)
  case (2 d s)
  show ?case
  proof (cases "c \<in> set (takeWhile upper_alnum s) \<or> c = d")
    case True
    with "2.prems" show ?thesis by (auto dest: set_takeWhileD)
  next
    case False
    with "2.prems"(2) have "c \<in> set (dropWhile upper_alnum s)"
      by (metis Un_iff set_ConsD set_append takeWhile_dropWhile_id)
    with "2.prems"(1) "2.IH" show ?thesis by (auto dest: set_dropWhileD)
  qed
qed simp

text \<open>Only capitals, digits and dashes: no separator of a rendered record occurs in one.\<close>

lemma opaque_ref_chars:
  "opaque_ref s \<Longrightarrow> c \<in> set s \<Longrightarrow> upper_alnum c \<or> c = CHR ''-''"
proof (cases s)
  case (Cons d cs)
  assume ref: "opaque_ref s" and c: "c \<in> set s"
  from ref Cons have d: "is_upper d" and g: "dash_groups (dropWhile upper_alnum cs)"
    by (auto simp: opaque_ref_def)
  show ?thesis
  proof (cases "c = d \<or> c \<in> set (takeWhile upper_alnum cs)")
    case True
    with d show ?thesis by (auto simp: upper_alnum_def dest: set_takeWhileD)
  next
    case False
    with c Cons have "c \<in> set (dropWhile upper_alnum cs)"
      by (metis Un_iff set_ConsD set_append takeWhile_dropWhile_id)
    with g show ?thesis by (rule dash_groups_chars)
  qed
qed (simp add: opaque_ref_def)

section \<open>Numbers in decimal\<close>

text \<open>\<^verbatim>\<open>str(n)\<close> of a natural number.\<close>

definition digit_char :: "nat \<Rightarrow> char" where
  "digit_char n = char_of (48 + n mod 10)"

definition char_digit :: "char \<Rightarrow> nat" where
  "char_digit c = of_char c - 48"

fun nat_str :: "nat \<Rightarrow> str" where
  "nat_str n = (if n < 10 then [digit_char n] else nat_str (n div 10) @ [digit_char n])"

declare nat_str.simps [simp del]

definition str_nat :: "str \<Rightarrow> nat" where
  "str_nat s = foldl (\<lambda>a c. a * 10 + char_digit c) 0 s"

lemma of_char_digit_char [simp]: "(of_char (digit_char n) :: nat) = 48 + n mod 10"
proof -
  have "(48 + n mod 10) mod 256 = 48 + n mod 10" by simp
  then show ?thesis by (simp only: digit_char_def of_char_of)
qed

lemma digit_char_numeral [simp]:
  "digit_char 0 = CHR ''0''" "digit_char 1 = CHR ''1''" "digit_char 2 = CHR ''2''"
  "digit_char 3 = CHR ''3''" "digit_char 4 = CHR ''4''" "digit_char 5 = CHR ''5''"
  "digit_char 6 = CHR ''6''" "digit_char 7 = CHR ''7''" "digit_char 8 = CHR ''8''"
  "digit_char 9 = CHR ''9''"
  by (simp_all add: digit_char_def char_of_def bit_0)

lemma is_digit_digit_char [simp]: "is_digit (digit_char n)"
proof -
  have "n mod 10 \<le> 9" by simp
  then show ?thesis unfolding is_digit_def of_char_digit_char by linarith
qed

lemma char_digit_digit_char [simp]: "char_digit (digit_char n) = n mod 10"
  by (simp add: char_digit_def)

lemma nat_str_nonempty [simp]: "nat_str n \<noteq> []"
  by (subst nat_str.simps) simp

lemma nat_str_digits: "c \<in> set (nat_str n) \<Longrightarrow> is_digit c"
proof (induction n rule: nat_str.induct)
  case (1 n)
  then show ?case by (subst (asm) nat_str.simps) (auto split: if_splits)
qed

lemma str_nat_snoc [simp]: "str_nat (s @ [c]) = str_nat s * 10 + char_digit c"
  by (simp add: str_nat_def)

lemma str_nat_nat_str [simp]: "str_nat (nat_str n) = n"
proof (induction n rule: nat_str.induct)
  case (1 n)
  show ?case
  proof (cases "n < 10")
    case True
    then show ?thesis by (subst nat_str.simps) (simp add: str_nat_def)
  next
    case False
    then have "nat_str n = nat_str (n div 10) @ [digit_char n]"
      by (subst nat_str.simps) simp
    with False "1" show ?thesis by simp
  qed
qed

lemma nat_str_inj [simp]: "nat_str m = nat_str n \<longleftrightarrow> m = n"
  by (metis str_nat_nat_str)

text \<open>Zero padding, as in the format specifications \<^verbatim>\<open>:04d\<close> and \<^verbatim>\<open>:06d\<close>.\<close>

definition pad_str :: "nat \<Rightarrow> nat \<Rightarrow> str" where
  "pad_str w n = (let s = nat_str n in replicate (w - length s) CHR ''0'' @ s)"

lemma str_nat_replicate0: "str_nat (replicate k CHR ''0'' @ s) = str_nat s"
proof (induction k)
  case (Suc k)
  then show ?case by (simp add: str_nat_def char_digit_def)
qed simp

lemma str_nat_pad [simp]: "str_nat (pad_str w n) = n"
  by (simp add: pad_str_def Let_def str_nat_replicate0)

lemma pad_str_inj [simp]: "pad_str w m = pad_str w n \<longleftrightarrow> m = n"
  by (metis str_nat_pad)

lemma pad_str_digits: "c \<in> set (pad_str w n) \<Longrightarrow> is_digit c"
  by (auto simp: pad_str_def Let_def is_digit_def dest: nat_str_digits split: if_splits)

text \<open>A numbered reference \<^verbatim>\<open>f"PREFIX-{n:06d}"\<close>.\<close>

definition ref_num :: "str \<Rightarrow> nat \<Rightarrow> nat \<Rightarrow> str" where
  "ref_num p w n = p @ CHR ''-'' # pad_str w n"

lemma ref_num_inj [simp]: "ref_num p w m = ref_num p w n \<longleftrightarrow> m = n"
  by (simp add: ref_num_def)

end
