(* ===== verification/Decimals.thy ===== *)
theory Decimals
  imports Prelude
begin

text \<open>
  The part of Python's \<^verbatim>\<open>decimal\<close> module the program uses, in the default context:
  28 significant digits, half-even rounding. A finite decimal is a sign, a coefficient and
  an exponent; \<open>-0\<close> and trailing zeros are distinct representations, as they are in
  Python. The exponent limits of the default context (\<open>\<plusminus>999999\<close>) are not modelled: an
  operand would need close to a million digits to reach them.

  \<open>dint e d\<close> is the value of \<open>d\<close> in units of \<open>10^e\<close>, an integer wherever \<open>e\<close> is at
  most the exponent of \<open>d\<close>; all comparisons and all exactness lemmas are stated with it.
\<close>

record decimal =
  d_neg :: bool
  d_coef :: nat
  d_exp :: int

definition scoef :: "decimal \<Rightarrow> int" where
  "scoef d = (if d_neg d then - int (d_coef d) else int (d_coef d))"

definition dint :: "int \<Rightarrow> decimal \<Rightarrow> int" where
  "dint e d = scoef d * 10 ^ nat (d_exp d - e)"

definition ndigits :: "nat \<Rightarrow> nat" where
  "ndigits c = length (nat_str c)"

section \<open>Rounding to the context\<close>

text \<open>The context precision \<^verbatim>\<open>getcontext().prec\<close>.\<close>

definition dprec :: nat where
  "dprec = 28"

text \<open>\<open>c / 10^k\<close> rounded half to even.\<close>

definition round_div :: "nat \<Rightarrow> nat \<Rightarrow> nat" where
  "round_div c k = (let q = c div 10 ^ k; r = c mod 10 ^ k in
     if 10 ^ k < 2 * r \<or> (2 * r = 10 ^ k \<and> odd q) then q + 1 else q)"

definition dfix :: "decimal \<Rightarrow> decimal" where
  "dfix d = (let k = ndigits (d_coef d) - dprec in
     if k = 0 then d
     else let q = round_div (d_coef d) k in
       if dprec < ndigits q
       then d\<lparr>d_coef := q div 10, d_exp := d_exp d + int k + 1\<rparr>
       else d\<lparr>d_coef := q, d_exp := d_exp d + int k\<rparr>)"

section \<open>Arithmetic and comparison\<close>

definition dzero :: decimal where
  "dzero = \<lparr>d_neg = False, d_coef = 0, d_exp = 0\<rparr>"

definition copy_negate :: "decimal \<Rightarrow> decimal" where
  "copy_negate d = d\<lparr>d_neg := \<not> d_neg d\<rparr>"

definition copy_abs :: "decimal \<Rightarrow> decimal" where
  "copy_abs d = d\<lparr>d_neg := False\<rparr>"

definition is_zero :: "decimal \<Rightarrow> bool" where
  "is_zero d = (d_coef d = 0)"

definition dadd :: "decimal \<Rightarrow> decimal \<Rightarrow> decimal" where
  "dadd a b = (let e = min (d_exp a) (d_exp b); n = dint e a + dint e b in
     dfix (if n = 0
           then \<lparr>d_neg = (is_zero a \<and> is_zero b \<and> d_neg a \<and> d_neg b), d_coef = 0, d_exp = e\<rparr>
           else \<lparr>d_neg = (n < 0), d_coef = nat \<bar>n\<bar>, d_exp = e\<rparr>))"

definition dsub :: "decimal \<Rightarrow> decimal \<Rightarrow> decimal" where
  "dsub a b = dadd a (copy_negate b)"

definition dneg :: "decimal \<Rightarrow> decimal" where
  "dneg d = dfix (if is_zero d then copy_abs d else copy_negate d)"

definition dmul :: "decimal \<Rightarrow> decimal \<Rightarrow> decimal" where
  "dmul a b = dfix \<lparr>d_neg = (d_neg a \<noteq> d_neg b), d_coef = d_coef a * d_coef b,
     d_exp = d_exp a + d_exp b\<rparr>"

definition dlt :: "decimal \<Rightarrow> decimal \<Rightarrow> bool" where
  "dlt a b = (let e = min (d_exp a) (d_exp b) in dint e a < dint e b)"

definition dle :: "decimal \<Rightarrow> decimal \<Rightarrow> bool" where
  "dle a b = (let e = min (d_exp a) (d_exp b) in dint e a \<le> dint e b)"

definition deq :: "decimal \<Rightarrow> decimal \<Rightarrow> bool" where
  "deq a b = (let e = min (d_exp a) (d_exp b) in dint e a = dint e b)"

section \<open>Text\<close>

text \<open>\<^verbatim>\<open>^-?(?:0|[1-9][0-9]*)(?:\.[0-9]+)?$\<close>, the pattern \<^verbatim>\<open>_DECIMAL_TEXT\<close> of the
  program's modules.\<close>

definition int_part_ok :: "str \<Rightarrow> bool" where
  "int_part_ok ip = (ip = ''0'' \<or> (ip \<noteq> [] \<and> hd ip \<noteq> CHR ''0''))"

definition strip_minus :: "str \<Rightarrow> bool \<times> str" where
  "strip_minus s = (case s of c # r \<Rightarrow> if c = CHR ''-'' then (True, r) else (False, s)
                              | [] \<Rightarrow> (False, []))"

definition decimal_text :: "str \<Rightarrow> bool" where
  "decimal_text s = (let b = snd (strip_minus s);
       ip = takeWhile is_digit b; r = dropWhile is_digit b in
     int_part_ok ip \<and>
     (case r of [] \<Rightarrow> True
      | c # fp \<Rightarrow> c = CHR ''.'' \<and> fp \<noteq> [] \<and> (\<forall>x \<in> set fp. is_digit x)))"

text \<open>The constructor \<^verbatim>\<open>Decimal(text)\<close> on a text of that form: exact, never rounded.\<close>

definition dec_of_text :: "str \<Rightarrow> decimal" where
  "dec_of_text s = (let b = snd (strip_minus s);
       ip = takeWhile is_digit b; fp = drop 1 (dropWhile is_digit b) in
     \<lparr>d_neg = fst (strip_minus s), d_coef = str_nat (ip @ fp), d_exp = - int (length fp)\<rparr>)"

text \<open>\<^verbatim>\<open>format(d, "f")\<close>.\<close>

definition format_f :: "decimal \<Rightarrow> str" where
  "format_f d0 = (let d = (if is_zero d0 \<and> 0 < d_exp d0 then d0\<lparr>d_exp := 0\<rparr> else d0);
       s = nat_str (d_coef d); p = int (length s) + d_exp d in
     (if d_neg d then ''-'' else '''') @
     (if p < 0 then ''0.'' @ replicate (nat (- p)) CHR ''0'' @ s
      else if int (length s) \<le> p then s @ replicate (nat (p - int (length s))) CHR ''0''
      else (if p = 0 then ''0'' else take (nat p) s) @ ''.'' @ drop (nat p) s))"

section \<open>Lemmas: scaled values\<close>

lemma scoef_simps [simp]:
  "scoef (copy_negate d) = - scoef d" "scoef dzero = 0"
  by (auto simp: scoef_def copy_negate_def dzero_def)

lemma dint_simps [simp]: "dint e (copy_negate d) = - dint e d" "dint e dzero = 0"
  by (simp_all add: dint_def) (simp add: copy_negate_def)

lemma exp_simps [simp]: "d_exp (copy_negate d) = d_exp d" "d_exp dzero = 0"
    "d_coef (copy_negate d) = d_coef d" "d_coef dzero = 0"
  by (simp_all add: copy_negate_def dzero_def)

lemma dint_shift:
  assumes "e' \<le> e" "e \<le> d_exp d"
  shows "dint e' d = dint e d * 10 ^ nat (e - e')"
proof -
  have "nat (d_exp d - e') = nat (d_exp d - e) + nat (e - e')"
    using assms by (simp add: nat_add_distrib [symmetric])
  then show ?thesis by (simp add: dint_def power_add)
qed

lemma dlt_iff: "e \<le> d_exp a \<Longrightarrow> e \<le> d_exp b \<Longrightarrow> dlt a b \<longleftrightarrow> dint e a < dint e b"
  by (simp add: dlt_def Let_def
      dint_shift [of e "min (d_exp a) (d_exp b)" a] dint_shift [of e "min (d_exp a) (d_exp b)" b])

lemma dle_iff: "e \<le> d_exp a \<Longrightarrow> e \<le> d_exp b \<Longrightarrow> dle a b \<longleftrightarrow> dint e a \<le> dint e b"
  by (simp add: dle_def Let_def
      dint_shift [of e "min (d_exp a) (d_exp b)" a] dint_shift [of e "min (d_exp a) (d_exp b)" b])

lemma deq_iff: "e \<le> d_exp a \<Longrightarrow> e \<le> d_exp b \<Longrightarrow> deq a b \<longleftrightarrow> dint e a = dint e b"
  by (simp add: deq_def Let_def
      dint_shift [of e "min (d_exp a) (d_exp b)" a] dint_shift [of e "min (d_exp a) (d_exp b)" b])

lemma dle_not_dlt: "dle a b \<longleftrightarrow> \<not> dlt b a"
  by (simp add: dle_def dlt_def Let_def min.commute not_less)

section \<open>Lemmas: exactness\<close>

lemma ndigits_step: "\<not> n < 10 \<Longrightarrow> ndigits n = Suc (ndigits (n div 10))"
  by (simp add: ndigits_def nat_str.simps [of n])

lemma ndigits_small: "n < 10 \<Longrightarrow> ndigits n = 1"
  by (simp add: ndigits_def nat_str.simps [of n])

lemma ndigits_le: "0 < k \<Longrightarrow> ndigits n \<le> k \<longleftrightarrow> n < 10 ^ k"
proof (induction k arbitrary: n)
  case (Suc k)
  show ?case
  proof (cases "n < 10")
    case True
    moreover have "(10::nat) \<le> 10 * 10 ^ k" by simp
    ultimately have "n < 10 ^ Suc k" by (simp only: power_Suc)
    with True show ?thesis by (simp add: ndigits_small)
  next
    case False
    then have n: "ndigits n = Suc (ndigits (n div 10))" by (rule ndigits_step)
    show ?thesis
    proof (cases "k = 0")
      case True
      have "ndigits (n div 10) \<noteq> 0" by (simp add: ndigits_def)
      with True False n show ?thesis by simp
    next
      case k: False
      with Suc.IH have "ndigits (n div 10) \<le> k \<longleftrightarrow> n div 10 < 10 ^ k" by simp
      also have "\<dots> \<longleftrightarrow> n < 10 ^ Suc k" by (simp add: div_less_iff_less_mult mult.commute)
      finally show ?thesis using n by simp
    qed
  qed
qed simp

lemma dfix_id: "d_coef d < 10 ^ dprec \<Longrightarrow> dfix d = d"
  using ndigits_le [of dprec "d_coef d"] by (simp add: dfix_def dprec_def Let_def)

text \<open>A sum whose exact value fits into 28 digits is exact.\<close>

lemma dadd_exact:
  assumes e: "e = min (d_exp a) (d_exp b)" and fits: "\<bar>dint e a + dint e b\<bar> < 10 ^ dprec"
  shows "dint e (dadd a b) = dint e a + dint e b" and "d_exp (dadd a b) = e"
    and "d_coef (dadd a b) < 10 ^ dprec"
proof -
  let ?n = "dint e a + dint e b"
  let ?d = "if ?n = 0
      then \<lparr>d_neg = (is_zero a \<and> is_zero b \<and> d_neg a \<and> d_neg b), d_coef = 0, d_exp = e\<rparr>
      else \<lparr>d_neg = (?n < 0), d_coef = nat \<bar>?n\<bar>, d_exp = e\<rparr>"
  have c: "d_coef ?d < 10 ^ dprec" using fits by (simp add: nat_less_iff)
  have "dadd a b = dfix ?d" by (simp add: dadd_def e Let_def)
  with c have d: "dadd a b = ?d" by (simp only: dfix_id)
  show "d_exp (dadd a b) = e" "d_coef (dadd a b) < 10 ^ dprec" using c d by (auto split: if_splits)
  show "dint e (dadd a b) = ?n" by (simp add: d dint_def scoef_def)
qed

text \<open>
  Amounts with at most \<open>s\<close> decimals whose value stays below \<open>10^(28 - s)\<close>: the range in
  which the program's sums are exact.
\<close>

definition fits :: "nat \<Rightarrow> decimal \<Rightarrow> bool" where
  "fits s d = (- int s \<le> d_exp d \<and> \<bar>dint (- int s) d\<bar> < 10 ^ dprec)"

lemma scaled_le:
  assumes "e' \<le> e" "e \<le> d_exp a" "e \<le> d_exp b" "\<bar>dint e' a + dint e' b\<bar> < (m::int)"
  shows "\<bar>dint e a + dint e b\<bar> < m"
proof -
  have "dint e' a + dint e' b = (dint e a + dint e b) * 10 ^ nat (e - e')"
    using assms by (simp add: dint_shift [of e' e] distrib_right)
  then have "\<bar>dint e' a + dint e' b\<bar> = \<bar>dint e a + dint e b\<bar> * 10 ^ nat (e - e')"
    by (simp add: abs_mult)
  moreover have "\<bar>dint e a + dint e b\<bar> * 1 \<le> \<bar>dint e a + dint e b\<bar> * 10 ^ nat (e - e')"
    by (rule mult_left_mono) simp_all
  ultimately have "\<bar>dint e a + dint e b\<bar> \<le> \<bar>dint e' a + dint e' b\<bar>" by simp
  then show ?thesis using assms(4) by (rule le_less_trans)
qed

lemma fits_dadd:
  assumes "fits s a" "fits s b" "\<bar>dint (- int s) a + dint (- int s) b\<bar> < 10 ^ dprec"
  shows "fits s (dadd a b)" "dint (- int s) (dadd a b) = dint (- int s) a + dint (- int s) b"
proof -
  define e where "e = min (d_exp a) (d_exp b)"
  have le: "- int s \<le> e" "e \<le> d_exp a" "e \<le> d_exp b" using assms(1,2) by (auto simp: fits_def e_def)
  have sm: "\<bar>dint e a + dint e b\<bar> < 10 ^ dprec" using le assms(3) by (rule scaled_le)
  note ex = dadd_exact [OF e_def sm]
  have "dint (- int s) (dadd a b) = dint e (dadd a b) * 10 ^ nat (e + int s)"
    using dint_shift [of "- int s" e "dadd a b"] le(1) ex(2) by simp
  also have "\<dots> = dint (- int s) a + dint (- int s) b"
    using dint_shift [OF le(1,2)] dint_shift [OF le(1,3)] ex(1) by (simp add: distrib_right)
  finally show eq: "dint (- int s) (dadd a b) = dint (- int s) a + dint (- int s) b" .
  show "fits s (dadd a b)" using assms(3) eq ex(2) le(1) by (simp add: fits_def)
qed

lemma fits_negate [simp]: "fits s (copy_negate d) = fits s d"
  by (simp add: fits_def)

lemma fits_dsub:
  assumes "fits s a" "fits s b" "\<bar>dint (- int s) a - dint (- int s) b\<bar> < 10 ^ dprec"
  shows "fits s (dsub a b)" "dint (- int s) (dsub a b) = dint (- int s) a - dint (- int s) b"
  using fits_dadd [of s a "copy_negate b"] assms by (simp_all add: dsub_def)

lemma fits_dzero [simp]: "fits s dzero"
  by (simp add: fits_def)

lemma fits_dlt: "fits s a \<Longrightarrow> fits s b \<Longrightarrow> dlt a b \<longleftrightarrow> dint (- int s) a < dint (- int s) b"
  by (rule dlt_iff) (simp_all add: fits_def)

lemma fits_deq: "fits s a \<Longrightarrow> fits s b \<Longrightarrow> deq a b \<longleftrightarrow> dint (- int s) a = dint (- int s) b"
  by (rule deq_iff) (simp_all add: fits_def)

lemma dlt_dzero: "dlt dzero d \<longleftrightarrow> 0 < scoef d"
  by (simp add: dlt_def Let_def dint_def zero_less_mult_iff)

lemma deq_dzero: "deq d dzero \<longleftrightarrow> d_coef d = 0"
  by (simp add: deq_def Let_def dint_def scoef_def)

section \<open>Lemmas: text\<close>

lemma hd_nat_str: "n \<noteq> 0 \<Longrightarrow> hd (nat_str n) \<noteq> CHR ''0''"
proof (induction n rule: nat_str.induct)
  case (1 n)
  show ?case
  proof (cases "n < 10")
    case True
    have "(of_char (digit_char n) :: nat) \<noteq> of_char CHR ''0''" using True "1.prems" by simp
    then have "digit_char n \<noteq> CHR ''0''" by metis
    with True show ?thesis by (subst nat_str.simps) simp
  next
    case False
    with "1.IH" have "hd (nat_str (n div 10)) \<noteq> CHR ''0''" by simp
    with False show ?thesis by (subst nat_str.simps) simp
  qed
qed

lemma nat_str_0 [simp]: "nat_str 0 = ''0''"
  by (subst nat_str.simps) simp

lemma not_digit [simp]: "\<not> is_digit CHR ''.''" "\<not> is_digit CHR ''-''"
  by (simp_all add: is_digit_def)

lemma digit0 [simp]: "is_digit CHR ''0''"
  by (simp add: is_digit_def)

text \<open>A sign, an integer part and a fraction, put together as the formatter does.\<close>

definition dec_parts :: "bool \<Rightarrow> str \<Rightarrow> str \<Rightarrow> str" where
  "dec_parts n ip fp =
     (if n then ''-'' else []) @ ip @ (if fp = [] then [] else CHR ''.'' # fp)"

lemma parts_body:
  assumes ip: "ip \<noteq> []" "\<forall>c \<in> set ip. is_digit c"
  shows "strip_minus (dec_parts n ip fp) = (n, ip @ (if fp = [] then [] else CHR ''.'' # fp))"
    and "takeWhile is_digit (ip @ (if fp = [] then [] else CHR ''.'' # fp)) = ip"
    and "dropWhile is_digit (ip @ (if fp = [] then [] else CHR ''.'' # fp))
         = (if fp = [] then [] else CHR ''.'' # fp)"
proof -
  from ip obtain c r where c: "ip = c # r" by (cases ip) auto
  with ip have "c \<noteq> CHR ''-''" by auto
  with c show "strip_minus (dec_parts n ip fp)
      = (n, ip @ (if fp = [] then [] else CHR ''.'' # fp))"
    by (simp add: strip_minus_def dec_parts_def)
  show "takeWhile is_digit (ip @ (if fp = [] then [] else CHR ''.'' # fp)) = ip"
    using ip by (auto simp: takeWhile_append2)
  show "dropWhile is_digit (ip @ (if fp = [] then [] else CHR ''.'' # fp))
      = (if fp = [] then [] else CHR ''.'' # fp)"
    using ip by (auto simp: dropWhile_append2)
qed

lemma parts_text:
  assumes "int_part_ok ip" "\<forall>c \<in> set ip. is_digit c" "\<forall>c \<in> set fp. is_digit c"
  shows "decimal_text (dec_parts n ip fp)"
    and "dec_of_text (dec_parts n ip fp)
         = \<lparr>d_neg = n, d_coef = str_nat (ip @ fp), d_exp = - int (length fp)\<rparr>"
proof -
  have ne: "ip \<noteq> []" using assms(1) by (auto simp: int_part_ok_def)
  note b = parts_body [OF ne assms(2)]
  show "decimal_text (dec_parts n ip fp)"
    using assms by (simp add: decimal_text_def b Let_def)
  show "dec_of_text (dec_parts n ip fp)
      = \<lparr>d_neg = n, d_coef = str_nat (ip @ fp), d_exp = - int (length fp)\<rparr>"
    by (simp add: dec_of_text_def b Let_def)
qed

text \<open>A decimal that carries no positive exponent prints as its digits with a point.\<close>

definition int_digits :: "decimal \<Rightarrow> str" where
  "int_digits d = (let s = nat_str (d_coef d); p = int (length s) + d_exp d in
     if p \<le> 0 then ''0'' else take (nat p) s)"

definition frac_digits :: "decimal \<Rightarrow> str" where
  "frac_digits d = (let s = nat_str (d_coef d); p = int (length s) + d_exp d in
     if p \<le> 0 then replicate (nat (- p)) CHR ''0'' @ s else drop (nat p) s)"

lemma format_f_parts:
  "d_exp d \<le> 0 \<Longrightarrow> format_f d = dec_parts (d_neg d) (int_digits d) (frac_digits d)"
  by (auto simp: format_f_def Let_def dec_parts_def int_digits_def frac_digits_def)

lemma digits_of_parts:
  assumes "d_exp d \<le> 0"
  shows "int_part_ok (int_digits d)" "\<forall>c \<in> set (int_digits d). is_digit c"
    "\<forall>c \<in> set (frac_digits d). is_digit c" "length (frac_digits d) = nat (- d_exp d)"
    "str_nat (int_digits d @ frac_digits d) = d_coef d"
proof -
  let ?s = "nat_str (d_coef d)" and ?p = "int (length (nat_str (d_coef d))) + d_exp d"
  show "int_part_ok (int_digits d)"
  proof (cases "?p \<le> 0 \<or> d_coef d = 0")
    case True
    have "take (Suc n) ''0'' = ''0''" for n :: nat by simp
    then have "0 < k \<Longrightarrow> take k ''0'' = ''0''" for k :: nat by (cases k) auto
    with True show ?thesis by (auto simp: int_digits_def Let_def int_part_ok_def)
  next
    case False
    then have "hd (take (nat ?p) ?s) \<noteq> CHR ''0''" by (simp add: hd_nat_str hd_take)
    with False show ?thesis by (simp add: int_digits_def Let_def int_part_ok_def)
  qed
  show "\<forall>c \<in> set (int_digits d). is_digit c" "\<forall>c \<in> set (frac_digits d). is_digit c"
    by (auto simp: int_digits_def frac_digits_def Let_def
        dest: in_set_takeD in_set_dropD nat_str_digits split: if_splits)
  show "length (frac_digits d) = nat (- d_exp d)"
    using assms by (auto simp: frac_digits_def Let_def)
  show "str_nat (int_digits d @ frac_digits d) = d_coef d"
  proof (cases "?p \<le> 0")
    case True
    have "''0'' @ replicate (nat (- ?p)) CHR ''0'' = replicate (Suc (nat (- ?p))) CHR ''0''"
      by simp
    then have "int_digits d @ frac_digits d = replicate (Suc (nat (- ?p))) CHR ''0'' @ ?s"
      using True by (simp add: int_digits_def frac_digits_def Let_def)
    then show ?thesis by (simp only: str_nat_replicate0 str_nat_nat_str)
  next
    case False
    then show ?thesis by (simp add: int_digits_def frac_digits_def Let_def)
  qed
qed

lemma format_f_text: "d_exp d \<le> 0 \<Longrightarrow> decimal_text (format_f d)"
  by (simp add: format_f_parts parts_text digits_of_parts)

lemma format_f_roundtrip: "d_exp d \<le> 0 \<Longrightarrow> dec_of_text (format_f d) = d"
  by (simp add: format_f_parts parts_text digits_of_parts)

lemma dec_of_text_exp: "d_exp (dec_of_text s) \<le> 0"
  by (simp add: dec_of_text_def Let_def)

end
