(* ===== verification/Domain.thy ===== *)
theory Domain
  imports Decimals
begin

text \<open>
  The value types of \<^verbatim>\<open>src/domain\<close>: the document state vectors of
  \<^verbatim>\<open>document_state.py\<close> and \<^verbatim>\<open>Money\<close> of \<^verbatim>\<open>money.py\<close> with its canonical rendering.
\<close>

section \<open>Document state\<close>

datatype posting_status =
    P_DRAFT | P_PENDING_REVIEW | P_REVIEWED | P_POSTING | P_POSTED | P_ABANDONED
  | P_CANCELLATION_PENDING | P_CANCELLED | P_AMENDMENT_REQUIRED

datatype delivery_status =
    D_NOT_READY | D_READY | D_QUEUED | D_SENT | D_FAILED_RETRYABLE | D_FAILED_TERMINAL

datatype receivable_status = R_NOT_APPLICABLE | R_OPEN | R_PARTIALLY_PAID | R_PAID

datatype recovery_status =
    V_NONE | V_RECOVERY_REQUIRED | V_RECONCILING | V_RESOLVED_PRESENT | V_RESOLVED_ABSENT
  | V_MANUAL_ESCALATION

record document_state =
  ds_posting :: posting_status
  ds_delivery :: delivery_status
  ds_receivable :: receivable_status
  ds_recovery :: recovery_status

text \<open>The \<^verbatim>\<open>.value\<close> of each enumeration.\<close>

fun posting_value :: "posting_status \<Rightarrow> str" where
  "posting_value P_DRAFT = ''DRAFT''"
| "posting_value P_PENDING_REVIEW = ''PENDING_REVIEW''"
| "posting_value P_REVIEWED = ''REVIEWED''"
| "posting_value P_POSTING = ''POSTING''"
| "posting_value P_POSTED = ''POSTED''"
| "posting_value P_ABANDONED = ''ABANDONED''"
| "posting_value P_CANCELLATION_PENDING = ''CANCELLATION_PENDING''"
| "posting_value P_CANCELLED = ''CANCELLED''"
| "posting_value P_AMENDMENT_REQUIRED = ''AMENDMENT_REQUIRED''"

fun delivery_value :: "delivery_status \<Rightarrow> str" where
  "delivery_value D_NOT_READY = ''NOT_READY''"
| "delivery_value D_READY = ''READY''"
| "delivery_value D_QUEUED = ''QUEUED''"
| "delivery_value D_SENT = ''SENT''"
| "delivery_value D_FAILED_RETRYABLE = ''FAILED_RETRYABLE''"
| "delivery_value D_FAILED_TERMINAL = ''FAILED_TERMINAL''"

fun receivable_value :: "receivable_status \<Rightarrow> str" where
  "receivable_value R_NOT_APPLICABLE = ''NOT_APPLICABLE''"
| "receivable_value R_OPEN = ''OPEN''"
| "receivable_value R_PARTIALLY_PAID = ''PARTIALLY_PAID''"
| "receivable_value R_PAID = ''PAID''"

fun recovery_value :: "recovery_status \<Rightarrow> str" where
  "recovery_value V_NONE = ''NONE''"
| "recovery_value V_RECOVERY_REQUIRED = ''RECOVERY_REQUIRED''"
| "recovery_value V_RECONCILING = ''RECONCILING''"
| "recovery_value V_RESOLVED_PRESENT = ''RESOLVED_PRESENT''"
| "recovery_value V_RESOLVED_ABSENT = ''RESOLVED_ABSENT''"
| "recovery_value V_MANUAL_ESCALATION = ''MANUAL_ESCALATION''"

definition document_payload :: "document_state \<Rightarrow> (str, str) dict" where
  "document_payload d =
    [(''delivery_status'', delivery_value (ds_delivery d)),
     (''posting_status'', posting_value (ds_posting d)),
     (''receivable_status'', receivable_value (ds_receivable d)),
     (''recovery_status'', recovery_value (ds_recovery d))]"

lemma posting_value_inj: "posting_value p = posting_value p' \<longleftrightarrow> p = p'"
  by (cases p; cases p'; simp)

lemma delivery_value_inj: "delivery_value d = delivery_value d' \<longleftrightarrow> d = d'"
  by (cases d; cases d'; simp)

lemma receivable_value_inj: "receivable_value r = receivable_value r' \<longleftrightarrow> r = r'"
  by (cases r; cases r'; simp)

lemma recovery_value_inj: "recovery_value v = recovery_value v' \<longleftrightarrow> v = v'"
  by (cases v; cases v'; simp)

lemmas status_values_inj =
  posting_value_inj delivery_value_inj receivable_value_inj recovery_value_inj

lemma document_payload_inj: "document_payload d = document_payload d' \<longleftrightarrow> d = d'"
  by (cases d; cases d') (auto simp: document_payload_def status_values_inj)

section \<open>Money\<close>

record money =
  mo_amount :: decimal
  mo_currency :: str

definition max_decimal_digits :: nat where "max_decimal_digits = 64"
definition max_decimal_exponent :: int where "max_decimal_exponent = 64"

text \<open>\<^verbatim>\<open>Money.__post_init__\<close>.\<close>

definition mk_money :: "decimal \<Rightarrow> str \<Rightarrow> money res" where
  "mk_money amount currency =
    (if max_decimal_digits < ndigits (d_coef amount) \<or> max_decimal_exponent < \<bar>d_exp amount\<bar>
     then Inl InvalidDomainValue
     else if \<not> currency_code currency then Inl ValueError
     else Inr \<lparr>mo_amount = amount, mo_currency = currency\<rparr>)"

definition from_decimal :: "str \<Rightarrow> str \<Rightarrow> money res" where
  "from_decimal amount currency =
    (if max_decimal_digits + 2 < length amount \<or> \<not> decimal_text amount
     then Inl InvalidDomainValue
     else mk_money (dec_of_text amount) currency)"

text \<open>\<^verbatim>\<open>str.partition(".")\<close>, \<^verbatim>\<open>rstrip("0")\<close> and \<^verbatim>\<open>ljust(2, "0")\<close>.\<close>

definition rstrip0 :: "str \<Rightarrow> str" where
  "rstrip0 s = rev (dropWhile (\<lambda>c. c = CHR ''0'') (rev s))"

definition ljust0 :: "nat \<Rightarrow> str \<Rightarrow> str" where
  "ljust0 n s = s @ replicate (n - length s) CHR ''0''"

definition canonical_amount :: "decimal \<Rightarrow> str" where
  "canonical_amount d =
    (let text = format_f (if is_zero d then copy_abs d else d);
         whole = takeWhile (\<lambda>c. c \<noteq> CHR ''.'') text;
         rest = dropWhile (\<lambda>c. c \<noteq> CHR ''.'') text;
         fraction = (if rest = [] then [] else rstrip0 (tl rest))
     in whole @ CHR ''.'' # ljust0 2 fraction)"

definition money_payload :: "money \<Rightarrow> (str, str) dict" where
  "money_payload m =
    [(''amount'', canonical_amount (mo_amount m)), (''currency'', mo_currency m)]"

subsection \<open>The canonical text\<close>

text \<open>The pieces of a decimal with its sign normalised: what the payload is built from.\<close>

definition abs_zero :: "decimal \<Rightarrow> decimal" where
  "abs_zero d = (if is_zero d then copy_abs d else d)"

lemma rstrip0_snoc [simp]: "rstrip0 (s @ ''0'') = rstrip0 s" "rstrip0 [] = []"
  by (simp_all add: rstrip0_def)

lemma rstrip0_zeros: "rstrip0 (s @ replicate k CHR ''0'') = rstrip0 s"
proof (induction k)
  case (Suc k)
  then show ?case
    by (simp add: replicate_append_same [symmetric] rstrip0_snoc(1)
        del: replicate_append_same flip: append_assoc)
qed simp

lemma int_digits_no_dot: "d_exp d \<le> 0 \<Longrightarrow> c \<in> set (int_digits d) \<Longrightarrow> c \<noteq> CHR ''.''"
  using digits_of_parts(2) [of d] by auto

lemma sign_no_dot: "c \<in> set (if n then ''-'' else []) \<Longrightarrow> c \<noteq> CHR ''.''"
  by (auto split: if_splits)

lemma split_at_dot:
  assumes "\<And>c. c \<in> set w \<Longrightarrow> c \<noteq> CHR ''.''"
  shows "takeWhile (\<lambda>c. c \<noteq> CHR ''.'') (w @ CHR ''.'' # f) = w"
    and "dropWhile (\<lambda>c. c \<noteq> CHR ''.'') (w @ CHR ''.'' # f) = CHR ''.'' # f"
    and "takeWhile (\<lambda>c. c \<noteq> CHR ''.'') w = w"
    and "dropWhile (\<lambda>c. c \<noteq> CHR ''.'') w = []"
  using assms by (auto simp: takeWhile_append2 dropWhile_append2 takeWhile_eq_all_conv
      dropWhile_eq_Nil_conv)

lemma canonical_parts:
  assumes "d_exp d \<le> 0"
  shows "canonical_amount d = (if d_neg (abs_zero d) then ''-'' else []) @ int_digits (abs_zero d)
    @ CHR ''.'' # ljust0 2 (rstrip0 (frac_digits (abs_zero d)))"
proof -
  let ?z = "abs_zero d"
  have z: "d_exp ?z \<le> 0" using assms by (simp add: abs_zero_def copy_abs_def)
  let ?w = "(if d_neg ?z then ''-'' else []) @ int_digits ?z"
  have w: "c \<in> set ?w \<Longrightarrow> c \<noteq> CHR ''.''" for c
    using int_digits_no_dot [OF z] sign_no_dot by fastforce
  define u where "u = ?w"
  have f: "format_f (if is_zero d then copy_abs d else d) =
      u @ (if frac_digits ?z = [] then [] else CHR ''.'' # frac_digits ?z)"
    using format_f_parts [OF z] by (simp add: abs_zero_def dec_parts_def u_def)
  have u: "c \<in> set u \<Longrightarrow> c \<noteq> CHR ''.''" for c
    unfolding u_def by (rule w)
  have "canonical_amount d = u @ CHR ''.'' # ljust0 2 (rstrip0 (frac_digits ?z))"
    unfolding canonical_amount_def f Let_def
    using split_at_dot [OF u] by (cases "frac_digits ?z = []") simp_all
  then show ?thesis by (simp add: u_def)
qed

subsection \<open>The payload is canonical\<close>

text \<open>Zeros at the end of the digits.\<close>

lemma str_nat_zeros: "str_nat (s @ replicate k CHR ''0'') = str_nat s * 10 ^ k"
proof (induction k)
  case (Suc k)
  have "s @ replicate (Suc k) CHR ''0'' = (s @ replicate k CHR ''0'') @ [CHR ''0'']"
    by (simp add: replicate_append_same)
  then show ?case using Suc by (simp only: str_nat_snoc) (simp add: char_digit_def)
qed simp

lemma nat_str_times10: "0 < n \<Longrightarrow> nat_str (n * 10) = nat_str n @ ''0''"
proof -
  assume "0 < n"
  then have "\<not> n * 10 < 10" by simp
  moreover have "digit_char (n * 10) = digit_char 0" by (simp only: digit_char_def) simp
  ultimately show ?thesis by (subst nat_str.simps) (simp del: One_nat_def)
qed

lemma rstrip0_Nil: "\<forall>c \<in> set s. c = CHR ''0'' \<Longrightarrow> rstrip0 s = []"
  by (simp add: rstrip0_def)

lemma nat_str_power: "0 < n \<Longrightarrow> nat_str (n * 10 ^ k) = nat_str n @ replicate k CHR ''0''"
proof (induction k)
  case (Suc k)
  then have "nat_str (n * 10 ^ k * 10) = nat_str (n * 10 ^ k) @ ''0''"
    by (intro nat_str_times10) simp
  with Suc show ?case by (simp add: mult.commute mult.left_commute replicate_append_same)
qed simp

definition rescale :: "nat \<Rightarrow> decimal \<Rightarrow> decimal" where
  "rescale k d = d\<lparr>d_coef := d_coef d * 10 ^ k, d_exp := d_exp d - int k\<rparr>"

lemma canonical_zero:
  assumes "d_exp d \<le> 0" "d_coef d = 0"
  shows "canonical_amount d = ''0.00''"
proof -
  have az: "abs_zero d = d\<lparr>d_neg := False\<rparr>"
    using assms by (simp add: abs_zero_def is_zero_def copy_abs_def)
  have "rstrip0 (frac_digits (abs_zero d)) = []"
    using assms az by (intro rstrip0_Nil) (auto simp: frac_digits_def Let_def dest: in_set_dropD)
  moreover have "int_digits (abs_zero d) = ''0''"
    using assms az by (auto simp: int_digits_def Let_def)
  ultimately show ?thesis
    using canonical_parts [OF assms(1)] az by (simp add: ljust0_def numeral_2_eq_2)
qed

lemma canonical_rescale:
  assumes "d_exp d \<le> 0"
  shows "canonical_amount (rescale k d) = canonical_amount d"
proof (cases "d_coef d = 0")
  case True
  with assms show ?thesis by (simp add: canonical_zero rescale_def)
next
  case False
  let ?r = "rescale k d"
  have r: "d_exp ?r \<le> 0" using assms by (simp add: rescale_def)
  have az: "abs_zero d = d" "abs_zero ?r = ?r" using False
    by (simp_all add: abs_zero_def is_zero_def rescale_def)
  have s: "nat_str (d_coef ?r) = nat_str (d_coef d) @ replicate k CHR ''0''"
    using False by (simp add: rescale_def nat_str_power)
  then have p: "int (length (nat_str (d_coef ?r))) + d_exp ?r
      = int (length (nat_str (d_coef d))) + d_exp d"
    by (simp add: rescale_def)
  have "int_digits ?r = int_digits d"
    using assms unfolding int_digits_def Let_def p by (simp add: s)
  moreover have "frac_digits ?r = frac_digits d @ replicate k CHR ''0''"
    using assms unfolding frac_digits_def Let_def p by (simp add: s)
  moreover have "d_neg ?r = d_neg d" by (simp add: rescale_def)
  ultimately show ?thesis
    unfolding canonical_parts [OF assms] canonical_parts [OF r] az by (simp add: rstrip0_zeros)
qed

lemma canonical_rescale_deq:
  assumes "d_exp a \<le> 0" "d_exp b \<le> 0" "deq a b"
  shows "canonical_amount a = canonical_amount b"
proof (cases "d_coef a = 0 \<or> d_coef b = 0")
  case True
  with assms have "d_coef a = 0" "d_coef b = 0"
    by (auto simp: deq_def Let_def dint_def scoef_def split: if_splits)
  with assms show ?thesis by (simp add: canonical_zero)
next
  case False
  define e where "e = min (d_exp a) (d_exp b)"
  define i where "i = nat (d_exp a - e)"
  define j where "j = nat (d_exp b - e)"
  have eq: "scoef a * 10 ^ i = scoef b * 10 ^ j"
    using assms(3) by (simp add: deq_def Let_def dint_def e_def i_def j_def)
  have pos: "0 < int (d_coef a) * 10 ^ i" "0 < int (d_coef b) * 10 ^ j" using False by simp_all
  have "int (d_coef a) * 10 ^ i = int (d_coef b) * 10 ^ j \<and> d_neg a = d_neg b"
    using eq pos by (simp add: scoef_def split: if_splits)
  then have "int (d_coef a * 10 ^ i) = int (d_coef b * 10 ^ j)" and s: "d_neg a = d_neg b" by simp_all
  then have c: "d_coef a * 10 ^ i = d_coef b * 10 ^ j" by (simp only: of_nat_eq_iff)
  have "d_exp a - int i = d_exp b - int j" by (simp add: i_def j_def e_def)
  with c s have "rescale i a = rescale j b"
    by (simp add: rescale_def)
  then show ?thesis using canonical_rescale [of a i] canonical_rescale [of b j] assms by simp
qed

text \<open>Amounts that are numerically equal, however many trailing zeros they were written
  with, have one canonical text: the payload hashes of idempotency and the financial
  fingerprints do not depend on how an amount was typed.\<close>

theorem canonical_amount_unique:
  assumes "d_exp a \<le> 0" "d_exp b \<le> 0" "deq a b"
  shows "money_payload \<lparr>mo_amount = a, mo_currency = c\<rparr>
    = money_payload \<lparr>mo_amount = b, mo_currency = c\<rparr>"
  using canonical_rescale_deq [OF assms] by (simp add: money_payload_def)

theorem canonical_amount_unique_witness:
  "money_payload \<lparr>mo_amount = \<lparr>d_neg = False, d_coef = 15, d_exp = -1\<rparr>, mo_currency = ''EUR''\<rparr>
   = money_payload \<lparr>mo_amount = \<lparr>d_neg = False, d_coef = 1500, d_exp = -3\<rparr>, mo_currency = ''EUR''\<rparr>"
  by (rule canonical_amount_unique) (simp_all add: deq_def dint_def scoef_def)

subsection \<open>Parsing the canonical text back\<close>

lemma rstrip0_split: "\<exists>k. s = rstrip0 s @ replicate k CHR ''0''"
proof -
  have "s = rev (dropWhile (\<lambda>c. c = CHR ''0'') (rev s))
      @ rev (takeWhile (\<lambda>c. c = CHR ''0'') (rev s))"
    by (metis rev_append rev_rev_ident takeWhile_dropWhile_id)
  moreover have "takeWhile (\<lambda>c. c = CHR ''0'') l
      = replicate (length (takeWhile (\<lambda>c. c = CHR ''0'') l)) CHR ''0''" for l
    by (induction l) auto
  ultimately show ?thesis unfolding rstrip0_def by (metis rev_replicate)
qed

lemma str_nat_less: "\<forall>c \<in> set s. is_digit c \<Longrightarrow> str_nat s < 10 ^ length s"
proof (induction s rule: rev_induct)
  case (snoc c s)
  have "char_digit c \<le> 9" using snoc.prems by (auto simp: is_digit_def char_digit_def)
  with snoc show ?case by simp
qed (simp add: str_nat_def)

lemma canonical_parse:
  assumes "d_exp d \<le> 0"
  defines "t \<equiv> canonical_amount d"
  shows "decimal_text t" and "deq (dec_of_text t) d"
    and "length t \<le> 65 \<Longrightarrow> ndigits (d_coef (dec_of_text t)) \<le> 64 \<and> - d_exp (dec_of_text t) \<le> 63"
proof -
  let ?z = "abs_zero d" and ?R = "rstrip0 (frac_digits (abs_zero d))"
  have z: "d_exp ?z \<le> 0" and coef: "d_coef ?z = d_coef d" and expz: "d_exp ?z = d_exp d"
    using assms by (simp_all add: abs_zero_def copy_abs_def)
  define F where "F = ljust0 2 ?R"
  obtain k where k: "frac_digits ?z = ?R @ replicate k CHR ''0''" using rstrip0_split by blast
  obtain j where j: "F = ?R @ replicate j CHR ''0''" by (auto simp: F_def ljust0_def)
  note dp = digits_of_parts [OF z]
  have Fd: "\<forall>c \<in> set F. is_digit c" using dp(3) k j by (metis Un_iff digit0 in_set_replicate set_append)
  have Fne: "F \<noteq> []" by (auto simp: F_def ljust0_def)
  have t: "t = dec_parts (d_neg ?z) (int_digits ?z) F"
    using canonical_parts [OF assms(1)] Fne by (simp add: t_def dec_parts_def F_def)
  show "decimal_text t" unfolding t by (rule parts_text(1) [OF dp(1,2) Fd])
  have p: "dec_of_text t
      = \<lparr>d_neg = d_neg ?z, d_coef = str_nat (int_digits ?z @ F), d_exp = - int (length F)\<rparr>"
    unfolding t by (rule parts_text(2) [OF dp(1,2) Fd])
  define N where "N = str_nat (int_digits ?z @ ?R)"
  have cN: "d_coef d = N * 10 ^ k"
    using dp(5) k coef str_nat_zeros [of "int_digits ?z @ ?R" k] by (simp add: N_def)
  have cF: "str_nat (int_digits ?z @ F) = N * 10 ^ j"
    using str_nat_zeros [of "int_digits ?z @ ?R" j] by (simp add: N_def j)
  have "length ?R + k = nat (- d_exp d)" using dp(4) arg_cong [OF k, of length] expz by simp
  then have lk: "d_exp d = - int (length ?R + k)" using assms(1) by linarith
  have sg: "d_neg ?z = d_neg d \<or> N = 0" by (auto simp: abs_zero_def copy_abs_def is_zero_def cN)
  define e where "e = - int (length ?R + k + j)"
  have "deq (dec_of_text t) d \<longleftrightarrow> dint e (dec_of_text t) = dint e d"
    by (rule deq_iff) (simp_all add: p e_def lk j)
  moreover have "dint e (dec_of_text t) = dint e d"
    using sg by (auto simp: dint_def p e_def lk j scoef_def cN cF [unfolded j] nat_add_distrib)
  ultimately show "deq (dec_of_text t) d" by simp
  assume "length t \<le> 65"
  moreover have "1 \<le> length (int_digits ?z)"
    using dp(1) by (cases "int_digits ?z") (auto simp: int_part_ok_def)
  moreover have "length t = (if d_neg ?z then 1 else 0) + (length (int_digits ?z) + (1 + length F))"
    using Fne by (simp add: t dec_parts_def)
  ultimately have l: "length (int_digits ?z @ F) \<le> 64" "length F \<le> 63"
    by (auto split: if_splits)
  have "str_nat (int_digits ?z @ F) < 10 ^ length (int_digits ?z @ F)"
    by (rule str_nat_less) (use dp(2) Fd in auto)
  also have "\<dots> \<le> 10 ^ 64" using l(1) by (intro power_increasing) simp_all
  finally show "ndigits (d_coef (dec_of_text t)) \<le> 64 \<and> - d_exp (dec_of_text t) \<le> 63"
    using l(2) by (simp add: p ndigits_le)
qed

text \<open>The canonical payload of a money value read from text is itself readable: parsing
  it gives a money value of the same currency and of numerically the same amount, as long
  as the canonical text has at most 65 characters.\<close>

theorem money_payload_roundtrip:
  assumes "from_decimal s c = Inr m" "length (canonical_amount (mo_amount m)) \<le> 65"
  shows "\<exists>m'. from_decimal (canonical_amount (mo_amount m)) (mo_currency m) = Inr m'
      \<and> deq (mo_amount m') (mo_amount m) \<and> mo_currency m' = c
      \<and> money_payload m' = money_payload m"
proof -
  from assms(1) have m: "mo_amount m = dec_of_text s" "mo_currency m = c" "currency_code c"
    by (auto simp: from_decimal_def mk_money_def split: if_splits)
  then have e: "d_exp (mo_amount m) \<le> 0" by (simp add: dec_of_text_exp)
  define t where "t = canonical_amount (mo_amount m)"
  note p = canonical_parse [OF e, folded t_def]
  have b: "ndigits (d_coef (dec_of_text t)) \<le> 64" "- d_exp (dec_of_text t) \<le> 63"
    using p(3) assms(2) by (auto simp: t_def)
  have "from_decimal t (mo_currency m) = Inr \<lparr>mo_amount = dec_of_text t, mo_currency = c\<rparr>"
    using b p(1) m assms(2) dec_of_text_exp [of t]
    by (simp add: from_decimal_def mk_money_def t_def max_decimal_digits_def max_decimal_exponent_def)
  moreover have "canonical_amount (dec_of_text t) = t"
    unfolding t_def
    by (rule canonical_rescale_deq) (use p(2) e dec_of_text_exp in \<open>simp_all add: t_def\<close>)
  ultimately show ?thesis using p(2) m by (simp add: t_def money_payload_def)
qed

theorem money_payload_roundtrip_witness:
  "\<exists>m. from_decimal ''12.340'' ''EUR'' = Inr m \<and> canonical_amount (mo_amount m) = ''12.34''
     \<and> (\<exists>m'. from_decimal (canonical_amount (mo_amount m)) (mo_currency m) = Inr m'
          \<and> deq (mo_amount m') (mo_amount m) \<and> mo_currency m' = ''EUR''
          \<and> money_payload m' = money_payload m)"
proof -
  define m where "m = \<lparr>mo_amount = \<lparr>d_neg = False, d_coef = 12340, d_exp = -3\<rparr>,
      mo_currency = ''EUR''\<rparr>"
  have f: "from_decimal ''12.340'' ''EUR'' = Inr m"
    by (simp add: m_def from_decimal_def mk_money_def decimal_text_def dec_of_text_def
        strip_minus_def int_part_ok_def is_digit_def str_nat_def char_digit_def ndigits_def
        nat_str.simps max_decimal_digits_def max_decimal_exponent_def currency_code_def
        is_upper_def)
  moreover have c: "canonical_amount (mo_amount m) = ''12.34''"
    using canonical_parts [of "mo_amount m"]
    by (simp add: m_def abs_zero_def is_zero_def int_digits_def frac_digits_def nat_str.simps
        ljust0_def rstrip0_def digit_char_def char_of_def bit_0)
  moreover note money_payload_roundtrip [OF f]
  ultimately show ?thesis by auto
qed

end
