(* ===== verification/Values.thy ===== *)
theory Values
  imports Prelude
begin

text \<open>
  The values of the standard library that several components hash, sign or compare:
  datetimes, JSON values with \<^verbatim>\<open>json.dumps\<close>, and the digest functions.

  A datetime is \<^term>\<open>Aware\<close> (microseconds since the epoch in UTC, with its UTC offset)
  or \<^term>\<open>Naive\<close>; comparing one with the other raises \<^verbatim>\<open>TypeError\<close>, as Python does.
  SHA-256, HMAC-SHA-256 and \<^verbatim>\<open>isoformat\<close> are arguments of the definitions that use
  them, gathered in the record \<open>libs\<close>: no theorem assumes anything of them but that a
  digest has 64 characters; where hashing is relied on, the statement exhibits the
  collision instead of assuming that there is none.
\<close>

section \<open>Datetimes\<close>

datatype datetime = Aware (utc_us: int) (offset_us: int) | Naive (local_us: int)

fun is_aware :: "datetime \<Rightarrow> bool" where
  "is_aware (Aware _ _) = True"
| "is_aware (Naive _) = False"

text \<open>\<^verbatim>\<open>a < b\<close> and \<^verbatim>\<open>a + timedelta\<close> (microseconds).\<close>

fun dt_less :: "datetime \<Rightarrow> datetime \<Rightarrow> bool res" where
  "dt_less (Aware a _) (Aware b _) = Inr (a < b)"
| "dt_less (Naive a) (Naive b) = Inr (a < b)"
| "dt_less _ _ = Inl TypeError"

fun dt_add :: "datetime \<Rightarrow> int \<Rightarrow> datetime" where
  "dt_add (Aware a z) d = Aware (a + d) z"
| "dt_add (Naive a) d = Naive (a + d)"

lemma is_aware_add [simp]: "is_aware (dt_add t d) = is_aware t"
  by (cases t) auto

lemma dt_less_aware: "is_aware a \<Longrightarrow> is_aware b \<Longrightarrow> dt_less a b = Inr (utc_us a < utc_us b)"
  by (cases a; cases b) auto

lemma utc_us_add: "is_aware t \<Longrightarrow> utc_us (dt_add t d) = utc_us t + d"
  by (cases t) auto

section \<open>The digest functions\<close>

record libs =
  l_sha256 :: "str \<Rightarrow> str"
  l_hmac :: "str \<Rightarrow> str \<Rightarrow> str"
  l_iso :: "datetime \<Rightarrow> str"

definition is_hex :: "char \<Rightarrow> bool" where
  "is_hex c = (is_digit c \<or> (97 \<le> (of_char c :: nat) \<and> (of_char c :: nat) \<le> 102))"

definition hex_digest :: "str \<Rightarrow> bool" where
  "hex_digest h = (length h = 64 \<and> (\<forall>c \<in> set h. is_hex c))"

definition libs_ok :: "libs \<Rightarrow> bool" where
  "libs_ok L = ((\<forall>s. hex_digest (l_sha256 L s)) \<and> (\<forall>k s. hex_digest (l_hmac L k s)))"

lemma libs_ok_length:
  "libs_ok L \<Longrightarrow> length (l_sha256 L s) = 64" "libs_ok L \<Longrightarrow> length (l_hmac L k s) = 64"
  by (auto simp: libs_ok_def hex_digest_def)

text \<open>An instance that computes, for witnesses: a digest is the beginning of the text with
  everything but digits replaced, filled up to 64 characters.\<close>

definition demo_digest :: "str \<Rightarrow> str" where
  "demo_digest s = take 64 (map (\<lambda>c. if is_hex c then c else CHR ''a'') s @ replicate 64 CHR ''0'')"

definition demo_libs :: libs where
  "demo_libs = \<lparr>
     l_sha256 = demo_digest,
     l_hmac = (\<lambda>k s. demo_digest (k @ s)),
     l_iso = (\<lambda>t. if is_aware t then nat_str (nat (utc_us t)) else ''naive'')\<rparr>"

lemma demo_libs_ok: "libs_ok demo_libs"
proof -
  have "is_hex CHR ''a''" "is_hex CHR ''0''" by (simp_all add: is_hex_def is_digit_def)
  then have "hex_digest (demo_digest s)" for s
    by (auto simp: hex_digest_def demo_digest_def min_def dest!: in_set_takeD)
  then show ?thesis by (simp add: libs_ok_def demo_libs_def)
qed

section \<open>JSON\<close>

datatype json =
    JNull | JBool bool | JInt int | JStr str | JArr "json list" | JObj "(str \<times> json) list"

definition int_str :: "int \<Rightarrow> str" where
  "int_str i = (if i < 0 then CHR ''-'' # nat_str (nat (- i)) else nat_str (nat i))"

lemma int_str_pos_inj: "0 \<le> i \<Longrightarrow> 0 \<le> j \<Longrightarrow> int_str i = int_str j \<longleftrightarrow> i = j"
  by (auto simp: int_str_def eq_nat_nat_iff)

lemma int_str_pos_digits: "0 \<le> i \<Longrightarrow> c \<in> set (int_str i) \<Longrightarrow> is_digit c"
  by (auto simp: int_str_def dest: nat_str_digits split: if_splits)

definition hex_digit :: "nat \<Rightarrow> char" where
  "hex_digit n = (if n < 10 then char_of (48 + n) else char_of (87 + n))"

text \<open>\<^verbatim>\<open>ensure_ascii\<close>: quotes, backslashes and everything outside the printable ASCII
  range are escaped.\<close>

definition json_char :: "char \<Rightarrow> str" where
  "json_char c = (let n = (of_char c :: nat) in
     if n = 34 then [CHR 0x5C, CHR 0x22] else if n = 92 then [CHR 0x5C, CHR 0x5C]
     else if n = 10 then [CHR 0x5C, CHR ''n''] else if n = 13 then [CHR 0x5C, CHR ''r'']
     else if n = 9 then [CHR 0x5C, CHR ''t''] else if n = 8 then [CHR 0x5C, CHR ''b'']
     else if n = 12 then [CHR 0x5C, CHR ''f'']
     else if 32 \<le> n \<and> n \<le> 126 then [c]
     else [CHR 0x5C, CHR ''u'', CHR ''0'', CHR ''0'', hex_digit (n div 16), hex_digit (n mod 16)])"

definition json_string :: "str \<Rightarrow> str" where
  "json_string s = CHR 0x22 # concat (map json_char s) @ [CHR 0x22]"

fun join :: "str \<Rightarrow> str list \<Rightarrow> str" where
  "join sep [] = []"
| "join sep [x] = x"
| "join sep (x # xs) = x @ sep @ join sep xs"

text \<open>\<^verbatim>\<open>repr\<close> of a string and of a tuple of at least two strings. A character that is
  printable stands for itself.\<close>

definition repr_char :: "char \<Rightarrow> char \<Rightarrow> str" where
  "repr_char q c = (let n = (of_char c :: nat) in
     if c = q \<or> n = 92 then [CHR 0x5C, c]
     else if n = 10 then [CHR 0x5C, CHR ''n''] else if n = 13 then [CHR 0x5C, CHR ''r'']
     else if n = 9 then [CHR 0x5C, CHR ''t'']
     else if (32 \<le> n \<and> n \<le> 126) \<or> (161 \<le> n \<and> n \<noteq> 173) then [c]
     else [CHR 0x5C, CHR ''x'', hex_digit (n div 16), hex_digit (n mod 16)])"

definition repr_str :: "str \<Rightarrow> str" where
  "repr_str s = (let q = (if CHR 0x27 \<in> set s \<and> CHR 0x22 \<notin> set s then CHR 0x22 else CHR 0x27) in
     q # concat (map (repr_char q) s) @ [q])"

definition repr_tuple :: "str list \<Rightarrow> str" where
  "repr_tuple xs = ''('' @ join '', '' (map repr_str xs) @ '')''"

text \<open>Joining is injective when the separator's first character occurs in no part.\<close>

lemma takeWhile_part:
  "c \<notin> set x \<Longrightarrow> takeWhile (\<lambda>d. d \<noteq> c) (x @ c # r) = x" "c \<notin> set x \<Longrightarrow> takeWhile (\<lambda>d. d \<noteq> c) x = x"
proof -
  assume "c \<notin> set x"
  then have "\<forall>d \<in> set x. d \<noteq> c" by blast
  then show "takeWhile (\<lambda>d. d \<noteq> c) (x @ c # r) = x" "takeWhile (\<lambda>d. d \<noteq> c) x = x"
    by (simp_all add: takeWhile_append2)
qed

lemma join_inj:
  assumes "\<And>x. x \<in> set xs \<union> set ys \<Longrightarrow> c \<notin> set x" "xs \<noteq> []" "ys \<noteq> []"
    "join (c # t) xs = join (c # t) ys"
  shows "xs = ys"
  using assms
proof (induction "c # t" xs arbitrary: ys rule: join.induct)
  case (2 x)
  have cx: "c \<notin> set x" using "2.prems"(1) by simp
  show ?case
  proof (cases ys)
    case (Cons y ys')
    show ?thesis
    proof (cases ys')
      case Nil
      with "2.prems"(4) Cons show ?thesis by simp
    next
      case (Cons z zs)
      with \<open>ys = y # ys'\<close> "2.prems"(4) have "c \<in> set x" by simp
      with cx show ?thesis by simp
    qed
  qed (use 2 in simp)
next
  case (3 x v va)
  have cx: "c \<notin> set x" using "3.prems"(1) by simp
  show ?case
  proof (cases ys)
    case (Cons y ys')
    have cy: "c \<notin> set y" using "3.prems"(1) Cons by simp
    show ?thesis
    proof (cases ys')
      case Nil
      with Cons "3.prems"(4) have "c \<in> set y" by (metis append_Cons in_set_conv_decomp join.simps(2,3))
      with cy show ?thesis by simp
    next
      case c2: (Cons z zs)
      have eq: "x @ c # (t @ join (c # t) (v # va)) = y @ c # (t @ join (c # t) ys')"
        using "3.prems"(4) Cons c2 by simp
      have xy: "x = y" using takeWhile_part(1) [OF cx] takeWhile_part(1) [OF cy] eq by metis
      with eq have "join (c # t) (v # va) = join (c # t) ys'" by simp
      moreover have "\<And>w. w \<in> set (v # va) \<union> set ys' \<Longrightarrow> c \<notin> set w"
        using "3.prems"(1) Cons by auto
      ultimately have "v # va = ys'" using "3.hyps" c2 by blast
      with xy Cons show ?thesis by simp
    qed
  qed (use 3 in simp)
qed simp

text \<open>\<^verbatim>\<open>json.dumps(v, sort_keys=True, separators=(sep, col))\<close>.\<close>

fun json_text :: "str \<Rightarrow> str \<Rightarrow> json \<Rightarrow> str" where
  "json_text sep col JNull = ''null''"
| "json_text sep col (JBool b) = (if b then ''true'' else ''false'')"
| "json_text sep col (JInt i) = int_str i"
| "json_text sep col (JStr s) = json_string s"
| "json_text sep col (JArr xs) = ''['' @ join sep (map (json_text sep col) xs) @ '']''"
| "json_text sep col (JObj kvs) =
     CHR ''{'' # join sep (map (\<lambda>(k, t). json_string k @ col @ t)
       (sort_key fst (map (\<lambda>(k, v). (k, json_text sep col v)) kvs))) @ ''}''"

definition dumps_default :: "(str, json) dict \<Rightarrow> str" where
  "dumps_default d = json_text '', '' '': '' (JObj d)"

definition dumps_compact :: "(str, json) dict \<Rightarrow> str" where
  "dumps_compact d = json_text '','' '':'' (JObj d)"

text \<open>The order in which the keys were inserted does not show in the text.\<close>

lemma json_text_perm:
  assumes "dict_ok d" "dict_ok d'" "set d = set d'"
  shows "json_text sep col (JObj d) = json_text sep col (JObj d')"
proof -
  let ?f = "\<lambda>(k, v). (k, json_text sep col v)"
  have ok: "distinct (map fst (map ?f x))" if "dict_ok x" for x :: "(str, json) dict"
    using that by (simp add: dict_ok_def comp_def case_prod_beta)
  have key: "distinct (map fst (sort_key fst y))" if "distinct (map fst y)"
    for y :: "(str \<times> str) list"
    using that by (simp add: distinct_map)
  have "sort_key fst (map ?f d) = sort_key fst (map ?f d')"
  proof (rule map_sorted_distinct_set_unique [where f = fst])
    show "inj_on fst (set (sort_key fst (map ?f d)) \<union> set (sort_key fst (map ?f d')))"
      using ok [OF assms(1)] assms(3) unfolding distinct_map by (simp only: set_sort set_map Un_absorb)
    show "sorted (map fst (sort_key fst (map ?f d)))" "sorted (map fst (sort_key fst (map ?f d')))"
      by simp_all
    show "distinct (map fst (sort_key fst (map ?f d)))" "distinct (map fst (sort_key fst (map ?f d')))"
      by (intro key ok assms)+
    show "set (sort_key fst (map ?f d)) = set (sort_key fst (map ?f d'))"
      using assms(3) by simp
  qed
  then show ?thesis by simp
qed

section \<open>Lower case\<close>

text \<open>\<^verbatim>\<open>str.lower\<close> on the code points below 256.\<close>

definition lower_char :: "char \<Rightarrow> char" where
  "lower_char c = (let n = (of_char c :: nat) in
     if is_upper c \<or> (192 \<le> n \<and> n \<le> 222 \<and> n \<noteq> 215) then char_of (n + 32) else c)"

definition lower :: "str \<Rightarrow> str" where
  "lower s = map lower_char s"

end
