(* ===== verification/AuditChain.thy ===== *)
theory AuditChain
  imports Values
begin

text \<open>
  The append-only audit log of \<^verbatim>\<open>src/audit/chain.py\<close>: records, their hash over the chain,
  \<open>append\<close> and \<open>verify\<close>; the interface \<open>audit_log\<close> that the clients of a log rely on; and
  what the chain of hashes is worth: two logs with the same head have the same hashed
  materials unless the hash function collides on two of them (\<open>AuditClaims\<close> says when the
  materials determine the entries).
\<close>

section \<open>Records\<close>

definition sensitive_keys :: "str set" where
  "sensitive_keys = {''password'', ''secret'', ''token'', ''key'', ''credential'', ''auth''}"

record audit_record =
  ar_seq :: int
  ar_prev :: str
  ar_event :: str
  ar_actor :: str
  ar_time :: datetime
  ar_payload :: "(str, json) dict"

definition redact :: "(str, json) dict \<Rightarrow> (str, json) dict" where
  "redact p = map (\<lambda>(k, v). (k, if lower k \<in> sensitive_keys then JStr ''[REDACTED]'' else v)) p"

definition sha_ref :: "str \<Rightarrow> bool" where
  "sha_ref h = (startswith h ''sha256:'' \<and> length h = 71)"

text \<open>\<^verbatim>\<open>AuditRecord.__post_init__\<close>.\<close>

definition mk_audit_record ::
  "int \<Rightarrow> str \<Rightarrow> str \<Rightarrow> str \<Rightarrow> datetime \<Rightarrow> (str, json) dict \<Rightarrow> audit_record res" where
  "mk_audit_record seq prev ev actor t p =
    (if seq \<le> 0 then Inl InvalidDomainValue
     else if prev = [] then Inl InvalidDomainValue
     else if \<not> sha_ref prev then Inl InvalidDomainValue
     else if \<not> is_aware t then Inl InvalidDomainValue
     else Inr \<lparr>ar_seq = seq, ar_prev = prev, ar_event = ev, ar_actor = actor, ar_time = t,
               ar_payload = redact p\<rparr>)"

definition material :: "libs \<Rightarrow> audit_record \<Rightarrow> str" where
  "material L r = int_str (ar_seq r) @ '':'' @ ar_prev r @ '':'' @ ar_event r @ '':''
     @ ar_actor r @ '':'' @ l_iso L (ar_time r) @ '':'' @ dumps_default (ar_payload r)"

definition compute_hash :: "libs \<Rightarrow> audit_record \<Rightarrow> str" where
  "compute_hash L r = ''sha256:'' @ l_sha256 L (material L r)"

section \<open>The chain\<close>

record audit_chain =
  ac_records :: "audit_record list"
  ac_hashes :: "str list"
  ac_fail :: bool

definition empty_chain :: audit_chain where
  "empty_chain = \<lparr>ac_records = [], ac_hashes = [], ac_fail = False\<rparr>"

definition genesis_hash :: str where
  "genesis_hash = ''sha256:'' @ replicate 64 CHR ''0''"

definition head_hash :: "audit_chain \<Rightarrow> str" where
  "head_hash c = (if ac_hashes c = [] then genesis_hash else last (ac_hashes c))"

definition append_record :: "libs \<Rightarrow> audit_record \<Rightarrow> audit_chain \<Rightarrow> str res \<times> audit_chain" where
  "append_record L r c =
    (if ac_fail c then (Inl RuntimeError, c\<lparr>ac_fail := False\<rparr>)
     else if ar_seq r \<noteq> int (length (ac_records c)) + 1 then (Inl InvalidDomainValue, c)
     else if ar_prev r \<noteq> head_hash c then (Inl InvalidDomainValue, c)
     else let h = compute_hash L r in
       (Inr h, c\<lparr>ac_records := ac_records c @ [r], ac_hashes := ac_hashes c @ [h]\<rparr>))"

text \<open>The loop of \<^verbatim>\<open>verify\<close>, with the previous hash that record \<open>i\<close> has to name.\<close>

fun verify_from :: "libs \<Rightarrow> int \<Rightarrow> str \<Rightarrow> audit_record list \<Rightarrow> str list \<Rightarrow> bool res" where
  "verify_from L i prev [] hs = Inr True"
| "verify_from L i prev (r # rs) hs =
    (if ar_seq r \<noteq> i + 1 then Inr False
     else if ar_prev r \<noteq> prev then Inr False
     else (case hs of [] \<Rightarrow> Inl IndexError
           | h # hs' \<Rightarrow> if compute_hash L r \<noteq> h then Inr False
                       else verify_from L (i + 1) h rs hs'))"

definition verify_chain :: "libs \<Rightarrow> audit_chain \<Rightarrow> bool res" where
  "verify_chain L c = verify_from L 0 genesis_hash (ac_records c) (ac_hashes c)"

text \<open>Building a record on the head and appending it, as every client of the chain does
  (\<^verbatim>\<open>_audit_event\<close>, \<^verbatim>\<open>_append_audit\<close>).\<close>

definition audit_event ::
  "libs \<Rightarrow> str \<Rightarrow> str \<Rightarrow> datetime \<Rightarrow> (str, json) dict \<Rightarrow> audit_chain \<Rightarrow> unit res \<times> audit_chain" where
  "audit_event L ev actor t p c =
    (case mk_audit_record (int (length (ac_records c)) + 1) (head_hash c) ev actor t p of
       Inl e \<Rightarrow> (Inl e, c)
     | Inr r \<Rightarrow> (case append_record L r c of
           (Inl e, c') \<Rightarrow> (Inl e, c')
         | (Inr _, c') \<Rightarrow> (Inr (), c')))"

section \<open>The interface of a log\<close>

text \<open>
  What a client relies on: an append that succeeds adds one entry at the end, one that
  raises leaves the entries as they are, and either way the log stays verifiable. The
  lemmas of the locale lift this to sequences of appends.
\<close>

locale audit_log =
  fixes log_append :: "'e \<Rightarrow> 's \<Rightarrow> 'a res \<times> 's"
    and log_ok :: "'s \<Rightarrow> bool"
    and log_entries :: "'s \<Rightarrow> 'r list"
  assumes append_ok: "log_ok s \<Longrightarrow> log_ok (snd (log_append e s))"
    and append_error: "log_append e s = (Inl x, s') \<Longrightarrow> log_entries s' = log_entries s"
    and append_grows: "log_append e s = (Inr a, s') \<Longrightarrow> \<exists>r. log_entries s' = log_entries s @ [r]"
begin

lemma append_prefix: "prefix (log_entries s) (log_entries (snd (log_append e s)))"
proof (cases "log_append e s")
  case (Pair r s')
  then show ?thesis
    by (cases r) (use append_error append_grows in \<open>fastforce intro: prefixI\<close>)+
qed

lemma append_length:
  "length (log_entries (snd (log_append e s)))
   = length (log_entries s) + (case fst (log_append e s) of Inl _ \<Rightarrow> 0 | Inr _ \<Rightarrow> 1)"
proof (cases "log_append e s")
  case (Pair r s')
  then show ?thesis
    by (cases r) (use append_error append_grows in fastforce)+
qed

text \<open>Any sequence of appends, the ones that raise included.\<close>

definition run_appends :: "'e list \<Rightarrow> 's \<Rightarrow> 's" where
  "run_appends es s = foldl (\<lambda>s e. snd (log_append e s)) s es"

lemma run_appends_ok: "log_ok s \<Longrightarrow> log_ok (run_appends es s)"
  unfolding run_appends_def by (induction es arbitrary: s) (auto intro: append_ok)

lemma run_appends_prefix: "prefix (log_entries s) (log_entries (run_appends es s))"
  unfolding run_appends_def
proof (induction es arbitrary: s)
  case (Cons e es)
  show ?case
    using append_prefix [of s e] Cons [of "snd (log_append e s)"]
    by (simp add: prefix_order.order_trans)
qed simp

end

section \<open>Verification and append\<close>

definition chain_ok :: "libs \<Rightarrow> audit_chain \<Rightarrow> bool" where
  "chain_ok L c = (verify_chain L c = Inr True \<and> length (ac_hashes c) = length (ac_records c))"

lemma empty_chain_ok [simp]: "chain_ok L empty_chain"
  by (simp add: chain_ok_def verify_chain_def empty_chain_def)

lemma empty_chain_simps [simp]: "\<not> ac_fail empty_chain" "ac_records empty_chain = []"
  by (simp_all add: empty_chain_def)

lemma verify_from_snoc:
  "length rs = length hs \<Longrightarrow>
   verify_from L i prev (rs @ [r]) (hs @ [h]) = Inr True \<longleftrightarrow>
   verify_from L i prev rs hs = Inr True \<and> ar_seq r = i + int (length rs) + 1
   \<and> ar_prev r = (if hs = [] then prev else last hs) \<and> h = compute_hash L r"
proof (induction rs hs arbitrary: i prev rule: list_induct2)
  case (Cons x xs y ys)
  then show ?case by (auto simp: algebra_simps)
qed auto

lemma append_chain_ok: "chain_ok L c \<Longrightarrow> chain_ok L (snd (append_record L r c))"
  by (auto simp: append_record_def chain_ok_def verify_chain_def Let_def verify_from_snoc
      head_hash_def)

lemma append_record_entries:
  "append_record L r c = (Inl e, c') \<Longrightarrow> ac_records c' = ac_records c"
  "append_record L r c = (Inr h, c') \<Longrightarrow> ac_records c' = ac_records c @ [r]"
  by (auto simp: append_record_def Let_def split: if_splits)

interpretation chain_log: audit_log "append_record L" "chain_ok L" ac_records for L
  by unfold_locales (auto simp: append_chain_ok dest: append_record_entries)

lemma audit_event_cases:
  "audit_event L ev actor t p c = (Inl e, c') \<Longrightarrow> ac_records c' = ac_records c"
  "audit_event L ev actor t p c = (Inr u, c') \<Longrightarrow>
     \<exists>r. ac_records c' = ac_records c @ [r] \<and> ar_event r = ev \<and> ar_actor r = actor
       \<and> ar_time r = t \<and> ar_payload r = redact p"
  by (auto simp: audit_event_def mk_audit_record_def append_record_def Let_def
      split: sum.splits prod.splits if_splits)

lemma audit_event_ok: "chain_ok L c \<Longrightarrow> chain_ok L (snd (audit_event L ev actor t p c))"
proof -
  have "snd (audit_event L ev actor t p c) = c
      \<or> (\<exists>r. snd (audit_event L ev actor t p c) = snd (append_record L r c))"
    by (auto simp: audit_event_def split: sum.splits prod.splits) (metis snd_conv)+
  then show "chain_ok L c \<Longrightarrow> chain_ok L (snd (audit_event L ev actor t p c))"
    by (auto intro: append_chain_ok)
qed

lemma verify_from_hashes:
  "verify_from L i prev rs hs = Inr True \<Longrightarrow> length hs = length rs \<Longrightarrow>
     hs = map (compute_hash L) rs
     \<and> (\<forall>k < length rs. ar_seq (rs ! k) = i + int k + 1
          \<and> ar_prev (rs ! k) = (if k = 0 then prev else compute_hash L (rs ! (k - 1))))"
proof (induction L i prev rs hs rule: verify_from.induct)
  case (2 L i prev r rs hs)
  from "2.prems" obtain h hs' where hs: "hs = h # hs'" by (cases hs) auto
  with "2.prems" have h: "h = compute_hash L r" "ar_seq r = i + 1" "ar_prev r = prev"
    and v: "verify_from L (i + 1) h rs hs' = Inr True" and l: "length hs' = length rs"
    by (auto split: if_splits)
  with "2.IH" hs have IH: "hs' = map (compute_hash L) rs
     \<and> (\<forall>k < length rs. ar_seq (rs ! k) = i + 1 + int k + 1
          \<and> ar_prev (rs ! k) = (if k = 0 then h else compute_hash L (rs ! (k - 1))))"
    by simp
  show ?case
  proof (intro conjI allI impI)
    fix k assume "k < length (r # rs)"
    with IH h show "ar_seq ((r # rs) ! k) = i + int k + 1"
      "ar_prev ((r # rs) ! k) = (if k = 0 then prev else compute_hash L ((r # rs) ! (k - 1)))"
      by (cases k; cases "k - 1"; simp)+
  qed (use IH hs h in simp)
qed simp

lemma chain_facts:
  assumes "chain_ok L c"
  shows "ac_hashes c = map (compute_hash L) (ac_records c)"
    and "k < length (ac_records c) \<Longrightarrow> ar_seq (ac_records c ! k) = int k + 1"
    and "k < length (ac_records c) \<Longrightarrow> ar_prev (ac_records c ! k)
          = (if k = 0 then genesis_hash else compute_hash L (ac_records c ! (k - 1)))"
  using verify_from_hashes [of L 0 genesis_hash "ac_records c" "ac_hashes c"] assms
  by (auto simp: chain_ok_def verify_chain_def)

lemma compute_hash_sha: "libs_ok L \<Longrightarrow> sha_ref (compute_hash L r)"
  by (simp add: sha_ref_def compute_hash_def libs_ok_length startswith_def)

lemma head_hash_sha: "chain_ok L c \<Longrightarrow> libs_ok L \<Longrightarrow> sha_ref (head_hash c)"
proof (cases "ac_records c")
  case Nil
  assume "chain_ok L c"
  with Nil show ?thesis
    by (simp add: chain_ok_def head_hash_def genesis_hash_def sha_ref_def startswith_def)
next
  case (Cons r rs)
  assume "chain_ok L c" and "libs_ok L"
  with Cons show ?thesis
    using chain_facts(1) [of L c] compute_hash_sha by (simp add: head_hash_def last_map)
qed

text \<open>An event with an aware time is recorded unless a failure was injected.\<close>

lemma audit_event_total:
  assumes "chain_ok L c" "libs_ok L" "is_aware t" "\<not> ac_fail c"
  shows "fst (audit_event L ev actor t p c) = Inr ()"
proof -
  have "sha_ref (head_hash c)" using assms by (rule_tac head_hash_sha)
  moreover from this have "head_hash c \<noteq> []" by (auto simp: sha_ref_def)
  ultimately show ?thesis
    using assms by (simp add: audit_event_def mk_audit_record_def append_record_def Let_def)
qed

lemma audit_event_fail: "ac_fail (snd (audit_event L ev actor t p c)) \<Longrightarrow> ac_fail c"
  by (auto simp: audit_event_def mk_audit_record_def append_record_def Let_def
      split: sum.splits prod.splits if_splits)

text \<open>The event a client appends: name, actor, time and payload.\<close>

interpretation event_log: audit_log
  "\<lambda>(ev, actor, t, p). audit_event L ev actor t p" "chain_ok L" ac_records for L
  by unfold_locales (auto simp: audit_event_ok dest: audit_event_cases)

text \<open>A state of the log that a sequence of events can lead to: what the clients' frame
  lemmas carry along.\<close>

definition log_ext :: "libs \<Rightarrow> audit_chain \<Rightarrow> audit_chain \<Rightarrow> bool" where
  "log_ext L c c' = ((chain_ok L c \<longrightarrow> chain_ok L c') \<and> prefix (ac_records c) (ac_records c'))"

lemma log_ext_refl [simp]: "log_ext L c c"
  by (simp add: log_ext_def)

lemma log_ext_trans [trans]: "log_ext L a b \<Longrightarrow> log_ext L b c \<Longrightarrow> log_ext L a c"
  by (auto simp: log_ext_def)

lemma log_ext_event: "audit_event L ev actor t p c = (r, c') \<Longrightarrow> log_ext L c c'"
  using event_log.append_prefix [of c L "(ev, actor, t, p)"] audit_event_ok [of L c ev actor t p]
  by (simp add: log_ext_def)

section \<open>What the chain guarantees\<close>

text \<open>Every state of a log that started empty verifies, whatever records were offered to it
  and whether or not they were accepted.\<close>

definition log_after :: "libs \<Rightarrow> audit_record list \<Rightarrow> audit_chain" where
  "log_after L rs = foldl (\<lambda>c r. snd (append_record L r c)) empty_chain rs"

text \<open>However records are offered to a chain, well formed or not, with injected failures
  or without, \<^verbatim>\<open>verify\<close> returns True on it, and its entries numbered from 1 are linked
  each to the hash of the one before.\<close>

theorem chain_always_verifies:
  "verify_chain L (log_after L rs) = Inr True
   \<and> (\<forall>k < length (ac_records (log_after L rs)).
        ar_seq (ac_records (log_after L rs) ! k) = int k + 1
        \<and> ar_prev (ac_records (log_after L rs) ! k)
          = (if k = 0 then genesis_hash else compute_hash L (ac_records (log_after L rs) ! (k - 1))))"
proof -
  have "chain_ok L (log_after L rs)"
    using chain_log.run_appends_ok [OF empty_chain_ok]
    by (simp add: chain_log.run_appends_def log_after_def)
  then show ?thesis using chain_facts by (auto simp: chain_ok_def)
qed

definition demo_record :: audit_record where
  "demo_record = \<lparr>ar_seq = 1, ar_prev = genesis_hash, ar_event = ''E'', ar_actor = ''a'',
     ar_time = Aware 0 0, ar_payload = []\<rparr>"

lemma demo_log: "ac_records (log_after demo_libs [demo_record]) = [demo_record]"
  by (simp add: log_after_def append_record_def empty_chain_def demo_record_def head_hash_def
      genesis_hash_def Let_def)

theorem chain_always_verifies_witness:
  "verify_chain demo_libs (log_after demo_libs [demo_record]) = Inr True
   \<and> ar_prev (ac_records (log_after demo_libs [demo_record]) ! 0) = genesis_hash"
  using chain_always_verifies [of demo_libs "[demo_record]"] by (auto simp: demo_log)

text \<open>A log is extended, never rewritten: after any number of offered records the
  entries that were there are still there, in their places.\<close>

theorem chain_append_only:
  "prefix (ac_records (log_after L rs)) (ac_records (log_after L (rs @ rs')))"
proof -
  have "log_after L (rs @ rs') = chain_log.run_appends L rs' (log_after L rs)"
    by (simp add: log_after_def chain_log.run_appends_def)
  then show ?thesis by (simp add: chain_log.run_appends_prefix)
qed

text \<open>No value stored under a sensitive key, in whatever case the key is written, reaches
  a record; the keys themselves and all other values are kept.\<close>

theorem audit_record_redacts:
  assumes "mk_audit_record seq prev ev actor t p = Inr r"
  shows "map fst (ar_payload r) = map fst p
    \<and> (\<forall>i < length p. snd (ar_payload r ! i)
         = (if lower (fst (p ! i)) \<in> sensitive_keys then JStr ''[REDACTED]'' else snd (p ! i)))"
  using assms by (auto simp: mk_audit_record_def redact_def case_prod_beta split: if_splits)

theorem audit_record_redacts_witness:
  "\<exists>r. mk_audit_record 1 genesis_hash ''E'' ''a'' (Aware 0 0)
         [(''Token'', JStr ''s3cret''), (''amount'', JStr ''1.00'')] = Inr r
     \<and> map fst (ar_payload r) = [''Token'', ''amount'']
     \<and> snd (ar_payload r ! 0) = JStr ''[REDACTED]'' \<and> snd (ar_payload r ! 1) = JStr ''1.00''"
proof -
  let ?p = "[(''Token'', JStr ''s3cret''), (''amount'', JStr ''1.00'')]"
  have r: "mk_audit_record 1 genesis_hash ''E'' ''a'' (Aware 0 0) ?p
      = Inr \<lparr>ar_seq = 1, ar_prev = genesis_hash, ar_event = ''E'', ar_actor = ''a'',
             ar_time = Aware 0 0, ar_payload = redact ?p\<rparr>"
    by (simp add: mk_audit_record_def genesis_hash_def sha_ref_def startswith_def)
  have l: "lower ''Token'' = ''token''" "lower ''amount'' = ''amount''"
    by (simp_all add: lower_def lower_char_def is_upper_def char_of_def bit_0)
  have k: "''token'' \<in> sensitive_keys" "''amount'' \<notin> sensitive_keys"
    by (simp_all add: sensitive_keys_def)
  show ?thesis
    using audit_record_redacts [OF r] r l k by (simp add: All_less_Suc numeral_2_eq_2)
qed

subsection \<open>Tampering shows or is a hash collision\<close>

lemma split_at_colon:
  assumes "\<forall>c \<in> set a. c \<noteq> CHR '':''" "\<forall>c \<in> set b. c \<noteq> CHR '':''"
    "a @ '':'' @ x = b @ '':'' @ y"
  shows "a = b \<and> x = y"
  using assms
proof (induction a arbitrary: b)
  case Nil
  then show ?case by (cases b) auto
next
  case (Cons c a)
  then show ?case by (cases b) auto
qed

lemma material_prefix:
  assumes "material L r = material L r'" "0 \<le> ar_seq r" "0 \<le> ar_seq r'"
    "length (ar_prev r) = length (ar_prev r')"
  shows "ar_seq r = ar_seq r'" "ar_prev r = ar_prev r'"
proof -
  have d: "\<forall>c \<in> set (int_str i). c \<noteq> CHR '':''" if "0 \<le> i" for i
  proof -
    have "\<not> is_digit CHR '':''" by (simp add: is_digit_def)
    then show ?thesis using int_str_pos_digits [OF that] by metis
  qed
  from split_at_colon [OF d [OF assms(2)] d [OF assms(3)]] assms(1)
  have s: "int_str (ar_seq r) = int_str (ar_seq r')"
    and rest: "ar_prev r @ '':'' @ ar_event r @ '':'' @ ar_actor r @ '':'' @ l_iso L (ar_time r)
        @ '':'' @ dumps_default (ar_payload r)
      = ar_prev r' @ '':'' @ ar_event r' @ '':'' @ ar_actor r' @ '':'' @ l_iso L (ar_time r')
        @ '':'' @ dumps_default (ar_payload r')"
    unfolding material_def by blast+
  from s assms(2,3) show "ar_seq r = ar_seq r'" by (simp add: int_str_pos_inj)
  from assms(4) rest show "ar_prev r = ar_prev r'"
    by (auto dest: append_eq_append_conv [THEN iffD1, OF disjI1])
qed

text \<open>Two records of the same digest but of different material.\<close>

definition collision :: "libs \<Rightarrow> audit_chain \<Rightarrow> audit_chain \<Rightarrow> bool" where
  "collision L c c' = (\<exists>r \<in> set (ac_records c). \<exists>r' \<in> set (ac_records c').
     material L r \<noteq> material L r' \<and> l_sha256 L (material L r) = l_sha256 L (material L r'))"

lemma no_collision:
  "\<not> collision L c c' \<Longrightarrow> r \<in> set (ac_records c) \<Longrightarrow> r' \<in> set (ac_records c') \<Longrightarrow>
   compute_hash L r = compute_hash L r' \<Longrightarrow> material L r = material L r'"
  by (auto simp: collision_def compute_hash_def)

lemma chain_prev_length:
  assumes "chain_ok L c" "libs_ok L" "k < length (ac_records c)"
  shows "length (ar_prev (ac_records c ! k)) = 71"
  using chain_facts(3) [OF assms(1,3)] compute_hash_sha [OF assms(2)]
  by (simp add: sha_ref_def genesis_hash_def split: if_splits)

lemma same_head_back:
  assumes ok: "chain_ok L c" "chain_ok L c'" "libs_ok L" and nc: "\<not> collision L c c'"
    and n: "length (ac_records c) = length (ac_records c')"
    and last: "material L (last (ac_records c)) = material L (last (ac_records c'))"
    and k: "k < length (ac_records c)"
  shows "material L (ac_records c ! (length (ac_records c) - 1 - k))
       = material L (ac_records c' ! (length (ac_records c) - 1 - k))"
  using k
proof (induction k)
  case 0
  then show ?case using last n by (metis diff_zero last_conv_nth length_0_conv less_zeroE)
next
  case (Suc k)
  define i where "i = length (ac_records c) - 1 - Suc k"
  have i: "Suc i < length (ac_records c)" "Suc i < length (ac_records c')"
    "i < length (ac_records c)" "i < length (ac_records c')"
    "length (ac_records c) - 1 - k = Suc i"
    using Suc.prems n by (auto simp: i_def)
  have m: "material L (ac_records c ! Suc i) = material L (ac_records c' ! Suc i)"
    using Suc i(5) by simp
  have "ar_prev (ac_records c ! Suc i) = ar_prev (ac_records c' ! Suc i)"
    using i ok by (intro material_prefix(2) [OF m])
      (simp_all add: chain_facts(2) chain_prev_length)
  then have "compute_hash L (ac_records c ! i) = compute_hash L (ac_records c' ! i)"
    using chain_facts(3) [OF ok(1) i(1)] chain_facts(3) [OF ok(2) i(2)] by simp
  then show ?case
    using no_collision [OF nc nth_mem [OF i(3)] nth_mem [OF i(4)]] unfolding i_def by blast
qed

text \<open>Two logs that verify and have the same head hash were computed from the same record
  materials, entry by entry, or the records exhibit a collision of the digest function.\<close>

lemma head_binds_material:
  assumes "chain_ok L c" "chain_ok L c'" "libs_ok L"
    "ac_records c \<noteq> []" "ac_records c' \<noteq> []" "head_hash c = head_hash c'"
  shows "map (material L) (ac_records c) = map (material L) (ac_records c') \<or> collision L c c'"
proof (cases "collision L c c'")
  case False
  have h: "compute_hash L (last (ac_records c)) = compute_hash L (last (ac_records c'))"
    using assms chain_facts(1) [OF assms(1)] chain_facts(1) [OF assms(2)]
    by (simp add: head_hash_def last_map)
  have m: "material L (last (ac_records c)) = material L (last (ac_records c'))"
    using no_collision [OF False _ _ h] assms(4,5) by simp
  have l: "last (ac_records c) = ac_records c ! (length (ac_records c) - 1)"
    "last (ac_records c') = ac_records c' ! (length (ac_records c') - 1)"
    using assms(4,5) by (simp_all add: last_conv_nth)
  have b: "length (ac_records c) - 1 < length (ac_records c)"
    "length (ac_records c') - 1 < length (ac_records c')"
    using assms(4,5) by simp_all
  have "ar_seq (last (ac_records c)) = ar_seq (last (ac_records c'))"
    using b by (intro material_prefix(1) [OF m])
      (simp_all add: l chain_facts(2) [OF assms(1)] chain_facts(2) [OF assms(2)]
        chain_prev_length [OF assms(1,3)] chain_prev_length [OF assms(2,3)])
  then have n: "length (ac_records c) = length (ac_records c')"
    using b by (simp add: l chain_facts(2) [OF assms(1)] chain_facts(2) [OF assms(2)])
  have "material L (ac_records c ! i) = material L (ac_records c' ! i)"
    if "i < length (ac_records c)" for i
    using same_head_back [OF assms(1-3) False n m, of "length (ac_records c) - 1 - i"] that by simp
  with n show ?thesis by (simp add: list_eq_iff_nth_eq)
qed simp

text \<open>The separators do not delimit the free-text fields of the material: a colon inside the
  event name moves into the actor, so two different records have one hash.\<close>

lemma material_ambiguous:
  "compute_hash L (demo_record\<lparr>ar_event := ''A:B'', ar_actor := ''C''\<rparr>)
   = compute_hash L (demo_record\<lparr>ar_event := ''A'', ar_actor := ''B:C''\<rparr>)"
  by (simp add: compute_hash_def material_def demo_record_def)

end
