(* ===== verification/JsonText.thy ===== *)
theory JsonText
  imports Values Decimals
begin

text \<open>
  \<^verbatim>\<open>json.loads\<close> of the standard library, as a recursive descent parser: strings with
  their escapes, numbers, the three literals and the three non-finite floats the module
  accepts, arrays and objects, with the later of two equal keys winning. A float is kept as
  \<^verbatim>\<open>float\<close> returns it (an argument of the parser). An escape beyond code point 255 is
  outside the characters of the model and is refused.

  The parser inverts \<^verbatim>\<open>json.dumps(value, sort_keys=True, separators=(",", ":"))\<close>
  (\<open>loads_dumps\<close>), so the text determines the value up to the order of the keys.
\<close>

section \<open>Decoded values\<close>

text \<open>A float: its integral part and its \<^verbatim>\<open>repr\<close>, an infinity (negative or not) or not a
  number.\<close>

datatype pyfloat = Finite int str | Infinite bool | NotANumber

datatype jval =
    VNull | VBool bool | VInt int | VFloat pyfloat | VStr str | VArr "jval list" | VObj "(str, jval) dict"

section \<open>Scanning\<close>

definition is_ws :: "char \<Rightarrow> bool" where
  "is_ws c = (c \<in> {CHR '' '', CHR 0x09, CHR 0x0A, CHR 0x0D})"

definition ws :: "str \<Rightarrow> str" where
  "ws s = dropWhile is_ws s"

definition hex_value :: "char \<Rightarrow> nat option" where
  "hex_value c = (let n = (of_char c :: nat) in
     if is_digit c then Some (n - 48) else if 97 \<le> n \<and> n \<le> 102 then Some (n - 87)
     else if 65 \<le> n \<and> n \<le> 70 then Some (n - 55) else None)"

fun hex_number :: "nat \<Rightarrow> str \<Rightarrow> nat option" where
  "hex_number a [] = Some a"
| "hex_number a (c # s) = (case hex_value c of None \<Rightarrow> None | Some d \<Rightarrow> hex_number (16 * a + d) s)"

definition escaped :: "char \<Rightarrow> char option" where
  "escaped e = map_of
     [(CHR 0x22, CHR 0x22), (CHR 0x5C, CHR 0x5C), (CHR ''/'', CHR ''/''), (CHR ''b'', CHR 0x08),
      (CHR ''f'', CHR 0x0C), (CHR ''n'', CHR 0x0A), (CHR ''r'', CHR 0x0D), (CHR ''t'', CHR 0x09)] e"

text \<open>An escape after its backslash, and a string after its opening quote.\<close>

definition unescape :: "str \<Rightarrow> (char \<times> str) option" where
  "unescape s = (case s of [] \<Rightarrow> None
     | e # t \<Rightarrow>
         if e \<noteq> CHR ''u'' then map_option (\<lambda>d. (d, t)) (escaped e)
         else if length t < 4 then None
         else (case hex_number 0 (take 4 t) of None \<Rightarrow> None
           | Some n \<Rightarrow> if n < 256 then Some (char_of n, drop 4 t) else None))"

lemma unescape_shorter: "unescape s = Some (d, t) \<Longrightarrow> length t < length s"
  by (auto simp: unescape_def split: list.splits if_splits option.splits)

function (sequential) scan_string :: "str \<Rightarrow> (str \<times> str) option" where
  "scan_string [] = None"
| "scan_string (c # s) =
     (if c = CHR 0x22 then Some ([], s)
      else if c = CHR 0x5C then
        (case unescape s of None \<Rightarrow> None | Some (d, t) \<Rightarrow> map_option (apfst (Cons d)) (scan_string t))
      else if (of_char c :: nat) < 32 then None
      else map_option (apfst (Cons c)) (scan_string s))"
  by pat_completeness auto
termination
  by (relation "measure length") (auto dest: unescape_shorter)

text \<open>\<^verbatim>\<open>(-?(?:0|[1-9][0-9]*))(\.[0-9]+)?([eE][-+]?[0-9]+)?\<close>.\<close>

definition split_sign :: "char set \<Rightarrow> str \<Rightarrow> str \<times> str" where
  "split_sign C s = (case s of [] \<Rightarrow> ([], []) | c # t \<Rightarrow> if c \<in> C then ([c], t) else ([], s))"

definition scan_int :: "str \<Rightarrow> (str \<times> str) option" where
  "scan_int s = (let (sg, t) = split_sign {CHR ''-''} s in
     case t of [] \<Rightarrow> None
     | c # q \<Rightarrow>
         if c = CHR ''0'' then Some (sg @ [c], q)
         else if is_digit c then Some (sg @ takeWhile is_digit t, dropWhile is_digit t) else None)"

definition scan_frac :: "str \<Rightarrow> str \<times> str" where
  "scan_frac s = (case s of
       c # t \<Rightarrow> if c = CHR ''.'' \<and> takeWhile is_digit t \<noteq> [] then (c # takeWhile is_digit t, dropWhile is_digit t) else ([], s)
     | [] \<Rightarrow> ([], s))"

definition scan_exp :: "str \<Rightarrow> str \<times> str" where
  "scan_exp s = (case s of
       c # t \<Rightarrow>
         (let (sg, d) = split_sign {CHR ''-'', CHR ''+''} t in
          if c \<in> {CHR ''e'', CHR ''E''} \<and> takeWhile is_digit d \<noteq> []
          then (c # sg @ takeWhile is_digit d, dropWhile is_digit d) else ([], s))
     | [] \<Rightarrow> ([], s))"

definition int_value :: "str \<Rightarrow> int" where
  "int_value s = (let (sg, d) = split_sign {CHR ''-''} s in if sg = [] then int (str_nat d) else - int (str_nat d))"

definition number :: "(str \<Rightarrow> pyfloat) \<Rightarrow> str \<Rightarrow> (jval \<times> str) option" where
  "number to_float s = (case scan_int s of None \<Rightarrow> None
     | Some (i, r) \<Rightarrow> (let (f, r1) = scan_frac r; (e, r2) = scan_exp r1 in
         Some (if f = [] \<and> e = [] then VInt (int_value i) else VFloat (to_float (i @ f @ e)), r2)))"

definition literals :: "(str \<times> jval) list" where
  "literals = [(''null'', VNull), (''true'', VBool True), (''false'', VBool False), (''NaN'', VFloat NotANumber),
     (''Infinity'', VFloat (Infinite False)), (''-Infinity'', VFloat (Infinite True))]"

definition scalar :: "(str \<Rightarrow> pyfloat) \<Rightarrow> str \<Rightarrow> (jval \<times> str) option" where
  "scalar to_float s = (case find (\<lambda>(w, v). prefix w s) literals of
       Some (w, v) \<Rightarrow> Some (v, drop (length w) s)
     | None \<Rightarrow> number to_float s)"

section \<open>Values\<close>

lemma length_ws: "length (ws s) \<le> length s"
  by (simp add: ws_def length_dropWhile_le)

lemma ws_Cons: "ws s = c # q \<Longrightarrow> length q < length s"
  using length_ws [of s] by simp

text \<open>
  The tests \<^term>\<open>length q < length s\<close> never fail (\<open>value_consumes\<close>); they make the recursion
  well-founded before that is proved.
\<close>

function (sequential)
  jvalue :: "(str \<Rightarrow> pyfloat) \<Rightarrow> str \<Rightarrow> (jval \<times> str) option" and
  elements :: "(str \<Rightarrow> pyfloat) \<Rightarrow> jval list \<Rightarrow> str \<Rightarrow> (jval \<times> str) option" and
  members :: "(str \<Rightarrow> pyfloat) \<Rightarrow> (str, jval) dict \<Rightarrow> str \<Rightarrow> (jval \<times> str) option"
where
  "jvalue tf [] = None"
| "jvalue tf (c # r) =
     (if c = CHR 0x22 then map_option (apfst VStr) (scan_string r)
      else if c = CHR ''{'' then
        (case ws r of [] \<Rightarrow> None | d # q \<Rightarrow> if d = CHR ''}'' then Some (VObj [], q) else members tf [] (ws r))
      else if c = CHR ''['' then
        (case ws r of [] \<Rightarrow> None | d # q \<Rightarrow> if d = CHR '']'' then Some (VArr [], q) else elements tf [] (ws r))
      else scalar tf (c # r))"
| "elements tf acc s =
     (case jvalue tf s of None \<Rightarrow> None
      | Some (v, r) \<Rightarrow>
          (case ws r of [] \<Rightarrow> None
           | d # q \<Rightarrow>
               if d = CHR '']'' then Some (VArr (acc @ [v]), q)
               else if d = CHR '','' \<and> length q < length s then elements tf (acc @ [v]) (ws q) else None))"
| "members tf acc [] = None"
| "members tf acc (c # s) =
     (if c \<noteq> CHR 0x22 then None else
      case scan_string s of None \<Rightarrow> None
      | Some (k, r1) \<Rightarrow>
          (case ws r1 of [] \<Rightarrow> None
           | d1 # r2 \<Rightarrow>
               if d1 = CHR '':'' \<and> length r2 < length s then
                 (case jvalue tf (ws r2) of None \<Rightarrow> None
                  | Some (v, r3) \<Rightarrow>
                      (case ws r3 of [] \<Rightarrow> None
                       | d # q \<Rightarrow>
                           if d = CHR ''}'' then Some (VObj (dput k v acc), q)
                           else if d = CHR '','' \<and> length q < length s then members tf (dput k v acc) (ws q)
                           else None))
               else None))"
  by pat_completeness auto

termination
  by (relation "measure (\<lambda>x. case x of Inl (_, s) \<Rightarrow> 2 * length s | Inr (Inl (_, _, s)) \<Rightarrow> 2 * length s + 1
      | Inr (Inr (_, _, s)) \<Rightarrow> 2 * length s + 1)")
    (auto dest: ws_Cons intro: le_less_trans [OF length_ws] le_less_trans [OF mult_le_mono2 [OF length_ws]])

text \<open>\<^verbatim>\<open>json.loads\<close>; \<^term>\<open>None\<close> is \<^verbatim>\<open>JSONDecodeError\<close>.\<close>

definition loads :: "(str \<Rightarrow> pyfloat) \<Rightarrow> str \<Rightarrow> jval option" where
  "loads tf s = (case jvalue tf (ws s) of None \<Rightarrow> None | Some (v, r) \<Rightarrow> if ws r = [] then Some v else None)"


section \<open>Every step consumes input\<close>

lemma scan_string_shorter: "scan_string s = Some (v, r) \<Longrightarrow> length r < length s"
  by (induction s arbitrary: v rule: scan_string.induct)
    (fastforce split: if_splits option.splits dest: unescape_shorter)+

lemma split_sign_le: "split_sign C s = (sg, t) \<Longrightarrow> length t \<le> length s"
  by (auto simp: split_sign_def split: list.splits if_splits)

lemma scan_int_shorter: "scan_int s = Some (v, r) \<Longrightarrow> length r < length s"
proof -
  assume s: "scan_int s = Some (v, r)"
  obtain sg t where t: "split_sign {CHR ''-''} s = (sg, t)" by fastforce
  with s obtain c q where "t = c # q" and r: "r = q \<or> r = dropWhile is_digit q"
    by (auto simp: scan_int_def split: list.splits if_splits)
  then have "length r < length t" by (auto simp: length_dropWhile_le le_imp_less_Suc)
  with split_sign_le [OF t] show ?thesis by simp
qed

lemma scan_frac_le: "length (snd (scan_frac s)) \<le> length s"
  by (auto simp: scan_frac_def length_dropWhile_le le_SucI split: list.splits)

lemma scan_exp_le: "length (snd (scan_exp s)) \<le> length s"
  by (auto simp: scan_exp_def length_dropWhile_le le_SucI dest!: split_sign_le split: list.splits prod.splits
      intro: le_trans [OF length_dropWhile_le])

lemma number_shorter: "number tf s = Some (v, r) \<Longrightarrow> length r < length s"
proof -
  assume "number tf s = Some (v, r)"
  then obtain i q where i: "scan_int s = Some (i, q)" and r: "r = snd (scan_exp (snd (scan_frac q)))"
    by (auto simp: number_def Let_def split: option.splits prod.splits)
  have "length r \<le> length q" unfolding r using scan_exp_le scan_frac_le le_trans by blast
  with scan_int_shorter [OF i] show ?thesis by simp
qed

lemma scalar_shorter: "scalar tf s = Some (v, r) \<Longrightarrow> length r < length s"
  by (auto simp: scalar_def literals_def prefix_def dest: number_shorter split: option.splits if_splits)

declare elements.simps [simp del]

lemma value_consumes:
  "jvalue tf s = Some (v, r) \<Longrightarrow> length r < length s"
  "elements tf acc s = Some (v, r) \<Longrightarrow> length r < length s"
  "members tf m s = Some (v, r) \<Longrightarrow> length r < length s"
proof (induction tf s and tf acc s and tf m s arbitrary: v r and v r and v r rule: jvalue_elements_members.induct)
  case (2 tf c q)
  then show ?case
    by (fastforce split: if_splits list.splits dest: ws_Cons scan_string_shorter scalar_shorter)
next
  case (3 tf acc s)
  obtain x q d u where q: "jvalue tf s = Some (x, q)" "ws q = d # u" and
    r: "d = CHR '']'' \<and> r = u \<or> d = CHR '','' \<and> length u < length s \<and> elements tf (acc @ [x]) (ws u) = Some (v, r)"
    using "3.prems" by (subst (asm) elements.simps) (auto split: option.splits list.splits if_splits)
  have u: "length u < length s" using "3.IH"(1) [OF q(1)] ws_Cons [OF q(2)] by simp
  from r show ?case
  proof
    assume e: "d = CHR '','' \<and> length u < length s \<and> elements tf (acc @ [x]) (ws u) = Some (v, r)"
    then have "length r < length (ws u)" using "3.IH"(2) [OF q(1) refl q(2)] by simp
    with u length_ws [of u] show ?thesis by simp
  qed (use u in simp)
next
  case (5 tf acc c s)
  obtain k r1 r2 x r3 d u where q: "c = CHR 0x22" "scan_string s = Some (k, r1)" "ws r1 = CHR '':'' # r2" "length r2 < length s"
      "jvalue tf (ws r2) = Some (x, r3)" "ws r3 = d # u" and
    r: "d = CHR ''}'' \<and> r = u \<or> d = CHR '','' \<and> length u < length s \<and> members tf (dput k x acc) (ws u) = Some (v, r)"
    using "5.prems" by (auto split: option.splits list.splits if_splits)
  have "length r3 < length (ws r2)" using "5.IH"(1) q by simp
  then have u: "length u < length s" using length_ws [of r2] ws_Cons [OF q(6)] q(4) by simp
  from r show ?case
  proof
    assume e: "d = CHR '','' \<and> length u < length s \<and> members tf (dput k x acc) (ws u) = Some (v, r)"
    then have "length r < length (ws u)" using "5.IH"(2) q by simp
    with u length_ws [of u] show ?thesis by simp
  qed (use u in simp)
qed (simp_all)

section \<open>What \<^verbatim>\<open>json.dumps\<close> writes is read back\<close>

lemma of_char_hex_digit: "n < 16 \<Longrightarrow> hex_value (hex_digit n) = Some n"
  by (auto simp: hex_digit_def hex_value_def is_digit_def Let_def)

lemma hex_pair: "hex_number 0 [CHR ''0'', CHR ''0'', hex_digit (of_char c div 16), hex_digit (of_char c mod 16)] = Some (of_char c)"
  for c :: char
proof -
  have "(of_char c :: nat) div 16 < 16"
  proof -
    have "(of_char c :: nat) < 256" by simp
    then show ?thesis by linarith
  qed
  moreover have "hex_value CHR ''0'' = Some 0" by (simp add: hex_value_def is_digit_def)
  ultimately show ?thesis by (simp add: of_char_hex_digit)
qed

lemma of_char_is:
  "(of_char c = (8 :: nat)) = (c = CHR 0x08)" "(of_char c = (9 :: nat)) = (c = CHR 0x09)" "(of_char c = (10 :: nat)) = (c = CHR 0x0A)"
  "(of_char c = (12 :: nat)) = (c = CHR 0x0C)" "(of_char c = (13 :: nat)) = (c = CHR 0x0D)" "(of_char c = (34 :: nat)) = (c = CHR 0x22)"
  "(of_char c = (92 :: nat)) = (c = CHR 0x5C)"
  using of_char_eq_iff [of c "CHR 0x08", where 'a = nat] of_char_eq_iff [of c "CHR 0x09", where 'a = nat]
    of_char_eq_iff [of c "CHR 0x0A", where 'a = nat] of_char_eq_iff [of c "CHR 0x0C", where 'a = nat]
    of_char_eq_iff [of c "CHR 0x0D", where 'a = nat] of_char_eq_iff [of c "CHR 0x22", where 'a = nat]
    of_char_eq_iff [of c "CHR 0x5C", where 'a = nat] by simp_all

lemma scan_json_char: "scan_string (json_char c @ s) = map_option (apfst (Cons c)) (scan_string s)"
proof -
  have "hex_number 0 [CHR ''0'', CHR ''0'', hex_digit (of_char c div 16), hex_digit (of_char c mod 16)] = Some (of_char c)"
    by (rule hex_pair)
  then show ?thesis by (auto simp: json_char_def Let_def escaped_def unescape_def of_char_is simp del: hex_number.simps)
qed

lemma scan_json_string: "scan_string (concat (map json_char s) @ CHR 0x22 # r) = Some (s, r)"
  by (induction s) (simp_all add: scan_json_char)

subsection \<open>Integers\<close>

definition follows :: "str \<Rightarrow> bool" where
  "follows r = (r = [] \<or> \<not> is_digit (hd r) \<and> hd r \<notin> {CHR ''.'', CHR ''e'', CHR ''E''})"

lemma follows_simps [simp]:
  "follows []" "follows (CHR '','' # r)" "follows (CHR '']'' # r)" "follows (CHR ''}'' # r)"
  by (simp_all add: follows_def is_digit_def)

lemma digits_taken:
  assumes "follows r"
  shows "takeWhile is_digit (nat_str n @ r) = nat_str n" "dropWhile is_digit (nat_str n @ r) = r"
proof -
  have d: "takeWhile is_digit r = []" "dropWhile is_digit r = r"
    using assms by (cases r; simp add: follows_def)+
  then show "takeWhile is_digit (nat_str n @ r) = nat_str n" "dropWhile is_digit (nat_str n @ r) = r"
    using nat_str_digits [of _ n] by (simp_all add: takeWhile_append2 dropWhile_append2)
qed

lemma nat_str_start:
  obtains c t where "nat_str n = c # t" "is_digit c" "c = CHR ''0'' \<longleftrightarrow> n = 0" "n = 0 \<longrightarrow> t = []"
proof -
  obtain c t where s: "nat_str n = c # t" by (cases "nat_str n") auto
  moreover have "is_digit c" using nat_str_digits [of c n] s by simp
  moreover have "c = CHR ''0'' \<longleftrightarrow> n = 0" using hd_nat_str [of n] s by (cases "n = 0") auto
  moreover have "n = 0 \<longrightarrow> t = []" using s by auto
  ultimately show thesis by (rule that)
qed

text \<open>An optional minus and the digits of a natural number.\<close>

lemma int_str_cases:
  obtains sg n c t where "int_str i = sg @ nat_str n" "sg = [] \<and> i = int n \<or> sg = ''-'' \<and> i = - int n"
    "nat_str n = c # t" "is_digit c" "c \<noteq> CHR ''-''" "c = CHR ''0'' \<longleftrightarrow> n = 0" "n = 0 \<longrightarrow> t = []"
proof -
  obtain c t where n: "nat_str (nat \<bar>i\<bar>) = c # t" "is_digit c" "c = CHR ''0'' \<longleftrightarrow> nat \<bar>i\<bar> = 0" "nat \<bar>i\<bar> = 0 \<longrightarrow> t = []"
    by (rule nat_str_start)
  show thesis by (rule that [of "if i < 0 then ''-'' else []" "nat \<bar>i\<bar>", OF _ _ n(1,2) _ n(3,4)])
      (use n(2) in \<open>auto simp: int_str_def\<close>)
qed

lemma scan_int_str:
  assumes "follows r"
  shows "scan_int (int_str i @ r) = Some (int_str i, r)" "int_value (int_str i) = i"
proof -
  obtain sg n c t where i: "int_str i = sg @ nat_str n" "sg = [] \<and> i = int n \<or> sg = ''-'' \<and> i = - int n"
    and n: "nat_str n = c # t" "is_digit c" "c \<noteq> CHR ''-''" "c = CHR ''0'' \<longleftrightarrow> n = 0" "n = 0 \<longrightarrow> t = []"
    by (rule int_str_cases)
  have sg: "split_sign {CHR ''-''} (int_str i @ q) = (sg, nat_str n @ q)" for q
    using i(2) n(3) unfolding i(1) n(1) by (auto simp: split_sign_def)
  have "takeWhile is_digit (c # t @ r) = c # t" "dropWhile is_digit (c # t @ r) = r"
    using digits_taken [OF assms, of n] n(1) by simp_all
  with n show "scan_int (int_str i @ r) = Some (int_str i, r)"
    unfolding scan_int_def sg by (auto simp: i(1))
  have v: "str_nat (nat_str n) = n" by simp
  show "int_value (int_str i) = i" using sg [of "[]"] i(2) unfolding n(1) v [unfolded n(1)]
    by (auto simp: int_value_def v [unfolded n(1)])
qed

lemma number_int_str: "follows r \<Longrightarrow> number tf (int_str i @ r) = Some (VInt i, r)"
proof -
  assume f: "follows r"
  then have "scan_frac r = ([], r)" "scan_exp r = ([], r)"
    by (auto simp: scan_frac_def scan_exp_def follows_def split: list.splits prod.splits)
  then show ?thesis by (simp add: number_def scan_int_str [OF f])
qed

subsection \<open>All values\<close>

abbreviation compact :: "json \<Rightarrow> str" where
  "compact \<equiv> json_text '','' '':''"

text \<open>Both forms of \<^verbatim>\<open>json.dumps\<close> at once: the white space \<open>w\<close> follows each comma and colon.\<close>

definition spaced :: "str \<Rightarrow> json \<Rightarrow> str" where
  "spaced w = json_text (CHR '','' # w) (CHR '':'' # w)"

lemma spaced_simps [simp]:
  "spaced w JNull = ''null''" "spaced w (JBool b) = (if b then ''true'' else ''false'')" "spaced w (JInt i) = int_str i"
  "spaced w (JStr t) = json_string t" "spaced w (JArr xs) = ''['' @ join (CHR '','' # w) (map (spaced w) xs) @ '']''"
  "spaced w (JObj kvs) = CHR ''{'' # join (CHR '','' # w) (map (\<lambda>(k, t). json_string k @ CHR '':'' # w @ t)
     (sort_key fst (map (\<lambda>(k, v). (k, spaced w v)) kvs))) @ ''}''"
  by (simp_all add: spaced_def)

text \<open>What is read back: objects list their keys in order.\<close>

fun loaded :: "json \<Rightarrow> jval" where
  "loaded JNull = VNull"
| "loaded (JBool b) = VBool b"
| "loaded (JInt i) = VInt i"
| "loaded (JStr s) = VStr s"
| "loaded (JArr xs) = VArr (map loaded xs)"
| "loaded (JObj kvs) = VObj (sort_key fst (map (\<lambda>(k, v). (k, loaded v)) kvs))"

fun keys_ok :: "json \<Rightarrow> bool" where
  "keys_ok (JArr xs) = list_all keys_ok xs"
| "keys_ok (JObj kvs) = (distinct (map fst kvs) \<and> list_all (\<lambda>(k, v). keys_ok v) kvs)"
| "keys_ok _ = True"

lemma spaced_opens: "\<exists>c t. spaced w x = c # t \<and> \<not> is_ws c \<and> c \<noteq> CHR '']'' \<and> c \<noteq> CHR ''}''"
proof (cases x)
  case (JInt i)
  obtain c t where "nat_str (nat \<bar>i\<bar>) = c # t" "is_digit c" by (rule nat_str_start)
  then show ?thesis unfolding JInt by (auto simp: int_str_def is_ws_def is_digit_def)
qed (auto simp: json_string_def is_ws_def)

lemma ws_white [simp]: "list_all is_ws w \<Longrightarrow> ws (w @ r) = ws r"
  by (induction w) (simp_all add: ws_def)

lemma ws_id: "\<not> is_ws c \<Longrightarrow> ws (c # t) = c # t"
  by (simp add: ws_def)

lemma ws_marks [simp]:
  "ws (CHR '','' # r) = CHR '','' # r" "ws (CHR '']'' # r) = CHR '']'' # r" "ws (CHR ''}'' # r) = CHR ''}'' # r"
  "ws (CHR '':'' # r) = CHR '':'' # r" "ws (CHR 0x22 # r) = CHR 0x22 # r" "ws [] = []"
  by (simp_all add: ws_def is_ws_def)

lemma ws_spaced [simp]: "ws (spaced w x @ r) = spaced w x @ r"
  using spaced_opens [of w x] by (auto simp: ws_id)

lemma value_int: "follows r \<Longrightarrow> jvalue tf (int_str i @ r) = Some (VInt i, r)"
proof -
  assume f: "follows r"
  obtain sg n c t where i: "int_str i = sg @ nat_str n" "sg = [] \<and> i = int n \<or> sg = ''-'' \<and> i = - int n"
    and n: "nat_str n = c # t" "is_digit c" by (rule int_str_cases)
  have c: "c \<noteq> CHR 0x22" "c \<noteq> CHR ''{''" "c \<noteq> CHR ''[''" "c \<noteq> CHR ''n''" "c \<noteq> CHR ''t''" "c \<noteq> CHR ''f''" "c \<noteq> CHR ''N''"
      "c \<noteq> CHR ''I''" "c \<noteq> CHR ''-''"
    using n(2) by (auto simp: is_digit_def)
  have "jvalue tf (int_str i @ r) = scalar tf (int_str i @ r)"
    using i(2) c unfolding i(1) n(1) by (elim disjE conjE) simp_all
  also have "\<dots> = number tf (int_str i @ r)"
    using i(2) c unfolding i(1) n(1) by (elim disjE conjE) (simp_all add: scalar_def literals_def)
  finally show ?thesis using number_int_str [OF f] by simp
qed

text \<open>The parts of an array and of an object, when each is read back.\<close>

definition reads :: "(str \<Rightarrow> pyfloat) \<Rightarrow> str \<Rightarrow> json \<Rightarrow> bool" where
  "reads tf w x = (\<forall>r. follows r \<longrightarrow> jvalue tf (spaced w x @ r) = Some (loaded x, r))"

lemma join_comma: "join (CHR '','' # w) (e # es) = e @ concat (map (\<lambda>d. CHR '','' # w @ d) es)"
  by (induction es arbitrary: e) simp_all

lemma elements_read:
  "list_all is_ws w \<Longrightarrow> reads tf w x \<Longrightarrow> list_all (reads tf w) xs \<Longrightarrow>
   elements tf acc (spaced w x @ concat (map (\<lambda>y. CHR '','' # w @ spaced w y) xs) @ CHR '']'' # r)
     = Some (VArr (acc @ loaded x # map loaded xs), r)"
proof (induction xs arbitrary: x acc)
  case Nil
  then show ?case by (simp add: elements.simps reads_def)
next
  case (Cons y xs)
  let ?t = "concat (map (\<lambda>y. CHR '','' # w @ spaced w y) xs) @ CHR '']'' # r"
  have "elements tf acc (spaced w x @ CHR '','' # w @ spaced w y @ ?t) = elements tf (acc @ [loaded x]) (spaced w y @ ?t)"
    using Cons.prems(1,2) by (subst elements.simps) (simp add: reads_def)
  with Cons show ?case by simp
qed

definition member :: "str \<Rightarrow> str \<times> json \<Rightarrow> str" where
  "member w = (\<lambda>(k, v). json_string k @ CHR '':'' # w @ spaced w v)"

lemma members_read:
  "list_all is_ws w \<Longrightarrow> reads tf w v \<Longrightarrow> list_all (\<lambda>(k, v). reads tf w v) kvs \<Longrightarrow> distinct (map fst acc @ k # map fst kvs) \<Longrightarrow>
   members tf acc (member w (k, v) @ concat (map (\<lambda>y. CHR '','' # w @ member w y) kvs) @ CHR ''}'' # r)
     = Some (VObj (acc @ (k, loaded v) # map (\<lambda>(k, v). (k, loaded v)) kvs), r)"
proof (induction kvs arbitrary: k v acc)
  case Nil
  then have "dput k (loaded v) acc = acc @ [(k, loaded v)]"
    by (intro dput_fresh) (auto simp: map_of_eq_None_iff)
  with Nil show ?case by (simp add: reads_def member_def json_string_def scan_json_string)
next
  case (Cons y kvs)
  obtain l u where y: "y = (l, u)" by fastforce
  let ?t = "concat (map (\<lambda>y. CHR '','' # w @ member w y) kvs) @ CHR ''}'' # r"
  have put: "dput k (loaded v) acc = acc @ [(k, loaded v)]"
    using Cons.prems(4) by (intro dput_fresh) (auto simp: map_of_eq_None_iff)
  have "members tf acc (member w (k, v) @ CHR '','' # w @ member w (l, u) @ ?t) = members tf (acc @ [(k, loaded v)]) (member w (l, u) @ ?t)"
    using Cons.prems(1,2) put by (simp add: reads_def member_def json_string_def scan_json_string)
  with Cons.IH [of u "acc @ [(k, loaded v)]" l] Cons.prems y show ?case by simp
qed

lemma insort_key_apsnd: "insort_key fst (k, f v) (map (apsnd f) xs) = map (apsnd f) (insort_key fst (k, v) xs)"
  by (induction xs) auto

lemma sort_key_apsnd: "sort_key fst (map (apsnd f) kvs) = map (apsnd f) (sort_key fst kvs)"
  by (induction kvs) (auto simp: insort_key_apsnd)

lemma value_reads:
  assumes w: "list_all is_ws w"
  shows "keys_ok x \<Longrightarrow> reads tf w x"
proof (induction x)
  case (JInt i)
  then show ?case by (simp add: reads_def value_int)
next
  case (JStr s)
  then show ?case by (simp add: reads_def json_string_def scan_json_string)
next
  case (JArr xs)
  then have l: "list_all (reads tf w) xs" by (simp add: list_all_iff)
  show ?case
  proof (cases xs)
    case (Cons y ys)
    have o: "\<exists>c t. spaced w y @ q = c # t \<and> c \<noteq> CHR '']''" for q using spaced_opens [of w y] by auto
    { fix r
      let ?s = "spaced w y @ concat (map (\<lambda>y. CHR '','' # w @ spaced w y) ys) @ CHR '']'' # r"
      obtain c t where s: "?s = c # t" "c \<noteq> CHR '']''" using o by blast
      have "jvalue tf (spaced w (JArr xs) @ r) = elements tf [] ?s"
        using ws_spaced [of w y "concat (map (\<lambda>y. CHR '','' # w @ spaced w y) ys) @ CHR '']'' # r"] s w
        by (simp add: Cons join_comma comp_def)
      also have "\<dots> = Some (loaded (JArr xs), r)"
        using elements_read [OF w, of tf y ys "[]" r] l by (simp add: Cons)
      finally have "jvalue tf (spaced w (JArr xs) @ r) = Some (loaded (JArr xs), r)" . }
    then show ?thesis by (simp only: reads_def simp_thms)
  qed (simp add: reads_def)
next
  case (JObj kvs)
  let ?s = "sort_key fst kvs"
  have ok: "list_all (\<lambda>(k, v). reads tf w v) ?s" "distinct (map fst ?s)"
  proof -
    show "list_all (\<lambda>(k, v). reads tf w v) ?s" using JObj by (fastforce simp: list_all_iff)
    show "distinct (map fst ?s)" using JObj.prems by (simp add: distinct_map)
  qed
  have shown: "spaced w (JObj kvs) = CHR ''{'' # join (CHR '','' # w) (map (member w) ?s) @ ''}''"
    using sort_key_apsnd [of "spaced w" kvs] by (simp add: apsnd_def map_prod_def member_def comp_def case_prod_beta')
  have decoded: "loaded (JObj kvs) = VObj (map (\<lambda>(k, v). (k, loaded v)) ?s)"
    using sort_key_apsnd [of loaded kvs] by (simp add: apsnd_def map_prod_def comp_def case_prod_beta)
  show ?case
  proof (cases ?s)
    case (Cons e es)
    obtain k v where e: "e = (k, v)" by fastforce
    { fix r
      let ?t = "member w (k, v) @ concat (map (\<lambda>y. CHR '','' # w @ member w y) es) @ CHR ''}'' # r"
      have "jvalue tf (spaced w (JObj kvs) @ r) = members tf [] ?t"
        unfolding shown by (simp add: Cons e join_comma comp_def member_def json_string_def)
      also have "\<dots> = Some (loaded (JObj kvs), r)"
        using members_read [OF w, of tf v es "[]" k r] ok unfolding decoded by (simp add: Cons e)
      finally have "jvalue tf (spaced w (JObj kvs) @ r) = Some (loaded (JObj kvs), r)" . }
    then show ?thesis by (simp only: reads_def simp_thms)
  next
    case Nil
    then show ?thesis unfolding reads_def shown decoded by simp
  qed
qed (simp_all add: reads_def scalar_def literals_def)

lemma loads_spaced: "list_all is_ws w \<Longrightarrow> keys_ok x \<Longrightarrow> loads tf (spaced w x) = Some (loaded x)"
  using value_reads [of w x tf] ws_spaced [of w x "[]"] by (auto simp: loads_def reads_def dest: spec [of _ "[]"])

lemma loads_dumps: "keys_ok x \<Longrightarrow> loads tf (compact x) = Some (loaded x)"
  using loads_spaced [of "[]" x tf] by (simp add: spaced_def)

text \<open>The text of a payload determines it as a JSON value, the order of the keys apart.\<close>

lemma dumps_default_inj:
  assumes "keys_ok (JObj d)" "keys_ok (JObj d')" "dumps_default d = dumps_default d'"
  shows "loaded (JObj d) = loaded (JObj d')"
proof -
  have "list_all is_ws '' ''" by (simp add: is_ws_def)
  from loads_spaced [OF this assms(1)] loads_spaced [OF this assms(2)] assms(3) show ?thesis
    by (metis dumps_default_def option.inject spaced_def)
qed

text \<open>Values whose objects list their keys in order are determined by their text.\<close>

fun in_order :: "json \<Rightarrow> bool" where
  "in_order (JArr xs) = list_all in_order xs"
| "in_order (JObj kvs) = (sorted (map fst kvs) \<and> distinct (map fst kvs) \<and> list_all (\<lambda>(k, v). in_order v) kvs)"
| "in_order _ = True"

lemma in_order_keys_ok: "in_order x \<Longrightarrow> keys_ok x"
  by (induction x) (fastforce simp: list_all_iff)+

lemma loaded_inj: "in_order x \<Longrightarrow> in_order y \<Longrightarrow> loaded x = loaded y \<Longrightarrow> x = y"
proof (induction x arbitrary: y)
  case (JArr xs)
  then obtain ys where y: "y = JArr ys" by (cases y) auto
  have "xs = ys"
    by (rule list.inj_map_strong [where f = loaded and fa = loaded])
      (use JArr y in \<open>auto simp: list_all_iff\<close>)
  with y show ?case by simp
next
  case (JObj kvs)
  then obtain lws where y: "y = JObj lws" by (cases y) auto
  let ?f = "\<lambda>(k, v). (k, loaded v)"
  have key: "map fst (map ?f zs) = map fst zs" for zs by (simp add: comp_def case_prod_beta)
  have s: "sort_key fst (map ?f kvs) = map ?f kvs" "sort_key fst (map ?f lws) = map ?f lws"
    using JObj.prems(1,2) y by (intro sort_key_id_if_sorted; simp only: key in_order.simps)+
  have "kvs = lws"
  proof (rule list.inj_map_strong [where f = ?f and fa = ?f])
    show "map ?f kvs = map ?f lws" using JObj.prems(3) s unfolding y by simp
    fix a b assume ab: "a \<in> set kvs" "b \<in> set lws" "?f a = ?f b"
    then have "snd a = snd b"
      by (intro JObj.IH [of a "snd a"]) (use JObj.prems(1,2) y in \<open>auto simp: list_all_iff split: prod.splits\<close>)
    with ab show "a = b" by (simp add: case_prod_beta prod_eq_iff)
  qed
  with y show ?case by simp
qed (case_tac y; simp)+

lemma compact_inj: "in_order x \<Longrightarrow> in_order y \<Longrightarrow> compact x = compact y \<Longrightarrow> x = y"
  using loads_dumps [of x] loads_dumps [of y] by (metis in_order_keys_ok loaded_inj option.inject)

end
