(* ===== verification/AuditClaims.thy ===== *)
theory AuditClaims
  imports AuditChain JsonText
begin

text \<open>
  What the head hash of the audit chain is worth to a reader of the log. The hashed material
  of a record (\<open>AuditChain.material\<close>) joins its fields with colons, so it determines the
  record only where the event name and the actor hold no colon (\<open>material_ambiguous\<close> is the
  counterexample) and where \<^verbatim>\<open>isoformat\<close> tells the recorded times apart; the payload is
  determined as a JSON value, its keys in any order (\<open>dumps_default_inj\<close>).
\<close>

section \<open>The fields of a material\<close>

lemma split_at:
  assumes "d \<notin> set a" "d \<notin> set b" "a @ d # x = b @ d # y"
  shows "a = b \<and> x = y"
  using assms
proof (induction a arbitrary: b)
  case Nil
  then show ?case by (cases b) auto
next
  case (Cons c a)
  then show ?case by (cases b) auto
qed

text \<open>A record whose fields can be told apart in its material.\<close>

definition plain :: "libs \<Rightarrow> audit_record \<Rightarrow> bool" where
  "plain L r = (CHR '':'' \<notin> set (ar_event r) \<and> CHR '':'' \<notin> set (ar_actor r)
     \<and> CHR ''{'' \<notin> set (l_iso L (ar_time r)) \<and> keys_ok (JObj (ar_payload r)))"

text \<open>Equal as log entries: all fields, the payload as a JSON value.\<close>

definition same_entry :: "audit_record \<Rightarrow> audit_record \<Rightarrow> bool" where
  "same_entry r r' = (ar_seq r = ar_seq r' \<and> ar_prev r = ar_prev r' \<and> ar_event r = ar_event r'
     \<and> ar_actor r = ar_actor r' \<and> ar_time r = ar_time r'
     \<and> loaded (JObj (ar_payload r)) = loaded (JObj (ar_payload r')))"

lemma dumps_opens: "\<exists>t. dumps_default d = CHR ''{'' # t"
  by (simp add: dumps_default_def)

lemma material_entry:
  assumes m: "material L r = material L r'" and p: "plain L r" "plain L r'"
    and s: "0 \<le> ar_seq r" "0 \<le> ar_seq r'" "length (ar_prev r) = length (ar_prev r')"
    and i: "inj_on (l_iso L) {ar_time r, ar_time r'}"
  shows "same_entry r r'"
proof -
  note pre = material_prefix [OF m s]
  let ?p = "\<lambda>r. dumps_default (ar_payload r)"
  have clean: "CHR '':'' \<notin> set (ar_event r)" "CHR '':'' \<notin> set (ar_event r')" "CHR '':'' \<notin> set (ar_actor r)"
    "CHR '':'' \<notin> set (ar_actor r')" "CHR ''{'' \<notin> set (l_iso L (ar_time r) @ '':'')"
    "CHR ''{'' \<notin> set (l_iso L (ar_time r') @ '':'')"
    using p by (simp_all add: plain_def)
  have "ar_event r @ CHR '':'' # ar_actor r @ CHR '':'' # l_iso L (ar_time r) @ CHR '':'' # ?p r
      = ar_event r' @ CHR '':'' # ar_actor r' @ CHR '':'' # l_iso L (ar_time r') @ CHR '':'' # ?p r'"
    using m pre by (simp add: material_def)
  note e = split_at [OF clean(1,2) this]
  note a = split_at [OF clean(3,4) conjunct2 [OF e]]
  obtain u v where o: "?p r = CHR ''{'' # u" "?p r' = CHR ''{'' # v" using dumps_opens by metis
  have "(l_iso L (ar_time r) @ '':'') @ CHR ''{'' # u = (l_iso L (ar_time r') @ '':'') @ CHR ''{'' # v"
    using conjunct2 [OF a] by (simp only: o append.assoc append.simps)
  from split_at [OF clean(5,6) this] have iso: "l_iso L (ar_time r) = l_iso L (ar_time r')" and "?p r = ?p r'"
    by (simp_all add: o)
  with p have "loaded (JObj (ar_payload r)) = loaded (JObj (ar_payload r'))"
    by (intro dumps_default_inj) (simp_all only: plain_def)
  moreover have "ar_time r = ar_time r'" using inj_onD [OF i iso] by blast
  ultimately show ?thesis using conjunct1 [OF e] conjunct1 [OF a] pre unfolding same_entry_def by blast
qed

section \<open>The head hash\<close>

text \<open>C35. The head hash pins down the whole history: two logs that both verify and have the
  same head hash hold the same entries, one by one - number, link, event, actor, time and
  payload (as a JSON value) - or the records exhibit a collision of the digest function. The
  event names and actors are free of colons and the recorded times have distinct
  \<^verbatim>\<open>isoformat\<close> texts, free of braces; without the first the claim is false
  (\<open>material_ambiguous\<close>).\<close>

theorem head_binds_history:
  assumes "chain_ok L c" "chain_ok L c'" "libs_ok L"
    "ac_records c \<noteq> []" "ac_records c' \<noteq> []" "head_hash c = head_hash c'"
    and p: "list_all (plain L) (ac_records c @ ac_records c')"
    and i: "inj_on (l_iso L) (ar_time ` set (ac_records c @ ac_records c'))"
  shows "list_all2 same_entry (ac_records c) (ac_records c') \<or> collision L c c'"
proof (cases "collision L c c'")
  case False
  let ?r = "ac_records c" and ?s = "ac_records c'"
  have m: "map (material L) ?r = map (material L) ?s"
    using head_binds_material [OF assms(1-6)] False by simp
  then have n: "length ?r = length ?s" by (rule map_eq_imp_length_eq)
  have pl: "plain L x" if "x \<in> set ?r \<union> set ?s" for x using p that by (auto simp: list_all_iff)
  have "same_entry (?r ! k) (?s ! k)" if k: "k < length ?r" for k
  proof (rule material_entry [of L])
    show "material L (?r ! k) = material L (?s ! k)" using m k n by (metis nth_map)
    show "inj_on (l_iso L) {ar_time (?r ! k), ar_time (?s ! k)}"
      using k n by (intro inj_on_subset [OF i]) auto
  qed (use k n assms(1-3) in \<open>auto simp: chain_facts(2) chain_prev_length intro!: pl\<close>)
  with n show ?thesis by (simp add: list_all2_conv_all_nth)
qed simp

text \<open>Two logs of one head that are not equal as objects: the payload was built in another order.\<close>

definition demo_pair :: "audit_record \<times> audit_record" where
  "demo_pair = (demo_record\<lparr>ar_payload := [(''a'', JInt 1), (''b'', JNull)]\<rparr>,
     demo_record\<lparr>ar_payload := [(''b'', JNull), (''a'', JInt 1)]\<rparr>)"

theorem head_binds_history_witness:
  "\<exists>c c'. c = log_after demo_libs [fst demo_pair] \<and> c' = log_after demo_libs [snd demo_pair]
     \<and> chain_ok demo_libs c \<and> chain_ok demo_libs c' \<and> head_hash c = head_hash c' \<and> c \<noteq> c'
     \<and> length (ac_records c) = 1
     \<and> (list_all2 same_entry (ac_records c) (ac_records c') \<or> collision demo_libs c c')"
proof -
  let ?c = "log_after demo_libs [fst demo_pair]" and ?d = "log_after demo_libs [snd demo_pair]"
  have ok: "chain_ok demo_libs ?c" "chain_ok demo_libs ?d"
    using append_chain_ok [OF empty_chain_ok] by (simp_all add: log_after_def)
  have r: "ac_records ?c = [fst demo_pair]" "ac_records ?d = [snd demo_pair]"
    by (simp_all add: log_after_def append_record_def empty_chain_def demo_pair_def demo_record_def
        head_hash_def genesis_hash_def Let_def)
  have d: "fst demo_pair \<noteq> snd demo_pair" by (simp add: demo_pair_def demo_record_def)
  have "compute_hash demo_libs (fst demo_pair) = compute_hash demo_libs (snd demo_pair)"
    by (simp add: compute_hash_def material_def demo_pair_def demo_record_def dumps_default_def)
  then have h: "head_hash ?c = head_hash ?d"
    using chain_facts(1) [OF ok(1)] chain_facts(1) [OF ok(2)] r by (simp add: head_hash_def)
  have p: "list_all (plain demo_libs) (ac_records ?c @ ac_records ?d)"
    unfolding r by (simp add: plain_def demo_pair_def demo_record_def demo_libs_def nat_str.simps)
  have i: "inj_on (l_iso demo_libs) (ar_time ` set (ac_records ?c @ ac_records ?d))"
    unfolding r by (simp add: demo_pair_def demo_record_def)
  have "list_all2 same_entry (ac_records ?c) (ac_records ?d) \<or> collision demo_libs ?c ?d"
    by (rule head_binds_history [OF ok demo_libs_ok _ _ h p i]) (simp_all add: r)
  moreover have "?c \<noteq> ?d" using r d by fastforce
  moreover have "length (ac_records ?c) = 1" by (simp add: r)
  ultimately show ?thesis using ok h by blast
qed

end
