(* ===== verification/Lease.thy ===== *)
theory Lease
  imports Values
begin

text \<open>
  Leases with fencing tokens (\<^verbatim>\<open>src/mutations/lease.py\<close>) and idempotency keys
  (\<^verbatim>\<open>src/mutations/idempotency.py\<close>), and the contract \<open>at_most_once\<close> that the stores
  built on them satisfy.
\<close>

section \<open>Leases\<close>

record mutation_lease =
  ml_key :: str
  ml_token :: int
  ml_claimed :: datetime
  ml_ttl :: int

definition mk_lease :: "str \<Rightarrow> int \<Rightarrow> datetime \<Rightarrow> int \<Rightarrow> mutation_lease res" where
  "mk_lease key token at ttl =
    (if token \<le> 0 then Inl InvalidDomainValue
     else if \<not> is_aware at then Inl InvalidDomainValue
     else if ttl \<le> 0 then Inl InvalidDomainValue
     else Inr \<lparr>ml_key = key, ml_token = token, ml_claimed = at, ml_ttl = ttl\<rparr>)"

definition expires_at :: "mutation_lease \<Rightarrow> datetime" where
  "expires_at l = dt_add (ml_claimed l) (ml_ttl l)"

definition is_expired :: "mutation_lease \<Rightarrow> datetime \<Rightarrow> bool res" where
  "is_expired l at = map_sum id Not (dt_less at (expires_at l))"

definition assert_fresh :: "mutation_lease \<Rightarrow> int \<Rightarrow> datetime \<Rightarrow> unit res" where
  "assert_fresh l token at =
    (if token \<noteq> ml_token l then Inl StaleFencingTokenError
     else (case is_expired l at of
         Inl e \<Rightarrow> Inl e
       | Inr b \<Rightarrow> if b then Inl LeaseExpiredError else Inr ()))"

text \<open>\<^verbatim>\<open>MutationLease.claim\<close>: the module's token counter is consumed even when the
  constructor raises.\<close>

definition lease_claim :: "str \<Rightarrow> datetime \<Rightarrow> int \<Rightarrow> int \<Rightarrow> mutation_lease res \<times> int" where
  "lease_claim key at ttl counter = (mk_lease key counter at ttl, counter + 1)"

definition lease_ok :: "mutation_lease \<Rightarrow> bool" where
  "lease_ok l = (0 < ml_token l \<and> is_aware (ml_claimed l) \<and> 0 < ml_ttl l)"

lemma mk_lease_Inr:
  "mk_lease key token at ttl = Inr l \<longleftrightarrow>
   l = \<lparr>ml_key = key, ml_token = token, ml_claimed = at, ml_ttl = ttl\<rparr> \<and> lease_ok l"
  by (auto simp: mk_lease_def lease_ok_def)

lemma assert_fresh_Inr:
  "lease_ok l \<Longrightarrow> assert_fresh l token at = Inr u \<longleftrightarrow>
   token = ml_token l \<and> is_aware at \<and> utc_us at < utc_us (expires_at l)"
  by (cases at; cases "ml_claimed l")
     (auto simp: assert_fresh_def is_expired_def expires_at_def lease_ok_def split: sum.splits)

text \<open>The leases handed out by a process, in order.\<close>

fun claim_leases :: "(str \<times> datetime \<times> int) list \<Rightarrow> int \<Rightarrow> mutation_lease res list" where
  "claim_leases [] counter = []"
| "claim_leases ((key, at, ttl) # cs) counter =
     (let (l, counter') = lease_claim key at ttl counter in l # claim_leases cs counter')"

lemma claim_leases_tokens:
  "i < length cs \<Longrightarrow> claim_leases cs counter ! i = Inr l \<Longrightarrow> ml_token l = counter + int i"
proof (induction cs counter arbitrary: i rule: claim_leases.induct)
  case (2 key at ttl cs counter)
  then show ?case
    by (cases i) (auto simp: lease_claim_def mk_lease_Inr)
qed simp

text \<open>The fencing tokens a process issues are positive and strictly increase in the order
  the leases were claimed, whatever their keys, and an issued lease is fresh for its own
  token exactly from before its expiry.\<close>

theorem lease_tokens_increase:
  assumes "i < j" "j < length cs" "0 < counter"
    "claim_leases cs counter ! i = Inr l" "claim_leases cs counter ! j = Inr l'"
  shows "0 < ml_token l \<and> ml_token l < ml_token l'
    \<and> (\<forall>at. assert_fresh l (ml_token l') at = Inl StaleFencingTokenError)
    \<and> (\<forall>t z. assert_fresh l (ml_token l) (Aware t z) = Inr () \<longleftrightarrow> t < utc_us (expires_at l))"
proof -
  have len: "length (claim_leases cs c) = length cs" for c
    by (induction cs c rule: claim_leases.induct) (auto simp: lease_claim_def)
  have t: "ml_token l = counter + int i" "ml_token l' = counter + int j"
    using assms claim_leases_tokens [of i cs counter l] claim_leases_tokens [of j cs counter l'] by auto
  have "Inr l \<in> set (claim_leases cs counter)"
    using assms len by (metis nth_mem order.strict_trans)
  moreover have "Inr l \<in> set (claim_leases cs c) \<Longrightarrow> lease_ok l" for c
    by (induction cs c rule: claim_leases.induct)
      (auto simp: lease_claim_def dest: mk_lease_Inr [THEN iffD1, OF sym])
  ultimately have "lease_ok l" by blast
  then show ?thesis
    using t assms by (auto simp: assert_fresh_Inr) (simp add: assert_fresh_def)
qed

theorem lease_tokens_increase_witness:
  "\<exists>l l'. claim_leases [(''k'', Aware 0 0, 10), (''k'', Aware 5 0, 10)] 1 = [Inr l, Inr l']
     \<and> ml_token l < ml_token l'"
proof -
  define cs where "cs = [(''k'', Aware 0 0, 10), (''k'', Aware 5 0, 10 :: int)]"
  obtain l l' where l: "claim_leases cs 1 = [Inr l, Inr l']"
    by (simp add: cs_def lease_claim_def mk_lease_def)
  have "ml_token l < ml_token l'"
    using lease_tokens_increase [of 0 1 cs 1 l l'] l by (simp add: cs_def)
  with l show ?thesis by (auto simp: cs_def)
qed

section \<open>Idempotency keys\<close>

definition key_char :: "char \<Rightarrow> bool" where
  "key_char c = (is_upper c \<or> is_lower c \<or> is_digit c \<or> c = CHR ''_'' \<or> c = CHR ''-'')"

text \<open>\<^verbatim>\<open>^[a-zA-Z0-9_\-]+:[a-zA-Z0-9_\-]+$\<close>.\<close>

definition key_pattern :: "str \<Rightarrow> bool" where
  "key_pattern s = (takeWhile key_char s \<noteq> [] \<and>
     (case dropWhile key_char s of [] \<Rightarrow> False
      | c # h \<Rightarrow> c = CHR '':'' \<and> h \<noteq> [] \<and> (\<forall>x \<in> set h. key_char x)))"

definition is_control :: "char \<Rightarrow> bool" where
  "is_control c = ((of_char c :: nat) < 32 \<or> (of_char c :: nat) = 127)"

definition credential_prefixes :: "str list" where
  "credential_prefixes =
    [''sk-'', ''pk-'', ''api-'', ''key-'', ''secret-'', ''token-'', ''pass-'']"

text \<open>\<^verbatim>\<open>IdempotencyKey.__post_init__\<close>; a key is its value.\<close>

definition mk_idempotency_key :: "str \<Rightarrow> str res" where
  "mk_idempotency_key v =
    (if \<exists>c \<in> set v. is_control c then Inl InvalidDomainValue
     else if \<not> key_pattern v then Inl InvalidDomainValue
     else (let hash_part = lower (tl (dropWhile (\<lambda>c. c \<noteq> CHR '':'') v)) in
       if \<exists>p \<in> set credential_prefixes. startswith hash_part p then Inl InvalidDomainValue
       else Inr v))"

definition key_material :: "int \<Rightarrow> str \<Rightarrow> str \<Rightarrow> (str, json) dict \<Rightarrow> str" where
  "key_material version ns action payload =
     CHR ''v'' # int_str version @ '':'' @ ns @ '':'' @ action @ '':'' @ dumps_compact payload"

definition derive ::
  "libs \<Rightarrow> str \<Rightarrow> str \<Rightarrow> (str, json) dict \<Rightarrow> int \<Rightarrow> str res" where
  "derive L ns action payload version =
    (if version \<le> 0 then Inl InvalidDomainValue
     else mk_idempotency_key (''sha256:'' @ l_sha256 L (key_material version ns action payload)))"

lemma hex_key_char: "is_hex c \<Longrightarrow> key_char c"
  by (auto simp: is_hex_def key_char_def is_lower_def)

lemma hex_lower: "is_hex c \<Longrightarrow> lower_char c = c"
  by (auto simp: is_hex_def lower_char_def is_upper_def is_digit_def Let_def)

text \<open>A digest is accepted as the hash part: it has no dash, so no credential prefix.\<close>

lemma digest_is_key:
  assumes "hex_digest h"
  shows "mk_idempotency_key (''sha256:'' @ h) = Inr (''sha256:'' @ h)"
proof -
  have hex: "\<forall>c \<in> set h. is_hex c" and ne: "h \<noteq> []" using assms by (auto simp: hex_digest_def)
  have low: "lower h = h" using hex by (simp add: lower_def map_idI hex_lower)
  have nodash: "\<not> is_hex CHR ''-''" by (simp add: is_hex_def is_digit_def)
  have nc: "\<not> is_control c" if "is_hex c" for c
    using that by (auto simp: is_control_def is_hex_def is_digit_def)
  have pre: "\<not> startswith h p" if "p \<in> set credential_prefixes" for p
  proof
    assume "startswith h p"
    moreover have "CHR ''-'' \<in> set p" using that by (auto simp: credential_prefixes_def)
    ultimately have "CHR ''-'' \<in> set h" by (auto simp: startswith_def dest: set_mono_prefix)
    with hex nodash show False by blast
  qed
  have k: "key_char CHR ''s''" "key_char CHR ''h''" "key_char CHR ''a''" "key_char CHR ''2''"
    "key_char CHR ''5''" "key_char CHR ''6''" "\<not> key_char CHR '':''"
    by (simp_all add: key_char_def is_upper_def is_lower_def is_digit_def)
  have "key_pattern (''sha256:'' @ h)"
    using k ne hex hex_key_char by (auto simp: key_pattern_def)
  moreover have "\<not> (\<exists>c \<in> set (''sha256:'' @ h). is_control c)"
    using hex nc by (auto simp: is_control_def)
  ultimately show ?thesis using pre low by (simp add: mk_idempotency_key_def)
qed

lemma derive_eq:
  "libs_ok L \<Longrightarrow> 0 < version \<Longrightarrow>
   derive L ns action payload version
   = Inr (''sha256:'' @ l_sha256 L (key_material version ns action payload))"
  using digest_is_key by (auto simp: derive_def libs_ok_def)

lemma derive_Inr:
  "derive L ns action payload version = Inr k \<Longrightarrow>
   k = ''sha256:'' @ l_sha256 L (key_material version ns action payload) \<and> 0 < version"
  by (auto simp: derive_def mk_idempotency_key_def Let_def split: if_splits)

lemma key_material_version:
  assumes "0 < v" "0 < v'" "key_material v ns a p = key_material v' ns' a' p'"
  shows "v = v'"
proof -
  have nc: "\<not> is_digit CHR '':''" by (simp add: is_digit_def)
  have d: "\<forall>c \<in> set (int_str i). c \<noteq> CHR '':''" if "0 < i" for i
    using int_str_pos_digits [of i] that nc by (metis less_imp_le)
  have "takeWhile (\<lambda>c. c \<noteq> CHR '':'') (int_str i @ '':'' @ r) = int_str i" if "0 < i" for i r
    using d [OF that] by (simp add: takeWhile_append2)
  then have "int_str v = int_str v'"
    using assms unfolding key_material_def by (metis list.inject)
  then show ?thesis using assms by (simp add: int_str_pos_inj)
qed

text \<open>The order in which a payload was built does not change its key, and bumping the
  canonicalization version changes every derived key: keys of two versions agree only if
  the digest function collides on the two materials.\<close>

theorem derived_keys:
  assumes "libs_ok L" "dict_ok p" "dict_ok p'" "set p = set p'" "0 < v"
  shows "(\<exists>k. derive L ns a p v = Inr k \<and> derive L ns a p' v = Inr k)
    \<and> (\<forall>v' ns' a' q. derive L ns a p v = derive L ns' a' q v' \<and> v \<noteq> v' \<longrightarrow>
         key_material v ns a p \<noteq> key_material v' ns' a' q
         \<and> l_sha256 L (key_material v ns a p) = l_sha256 L (key_material v' ns' a' q))"
proof (intro conjI allI impI)
  have "dumps_compact p = dumps_compact p'"
    unfolding dumps_compact_def using assms by (intro json_text_perm)
  then show "\<exists>k. derive L ns a p v = Inr k \<and> derive L ns a p' v = Inr k"
    using assms by (simp add: derive_eq key_material_def)
next
  fix v' ns' a' q
  assume eq: "derive L ns a p v = derive L ns' a' q v' \<and> v \<noteq> v'"
  then obtain k where k: "derive L ns a p v = Inr k" "derive L ns' a' q v' = Inr k"
    using derive_eq [OF assms(1,5), of ns a p] by metis
  then have "0 < v'" "l_sha256 L (key_material v ns a p) = l_sha256 L (key_material v' ns' a' q)"
    by (auto dest!: derive_Inr)
  then show "key_material v ns a p \<noteq> key_material v' ns' a' q"
    "l_sha256 L (key_material v ns a p) = l_sha256 L (key_material v' ns' a' q)"
    using key_material_version assms(5) eq by blast+
qed

theorem derived_keys_witness:
  "\<exists>k. derive demo_libs ''erp'' ''POST'' [(''a'', JInt 1), (''b'', JNull)] 1 = Inr k
     \<and> derive demo_libs ''erp'' ''POST'' [(''b'', JNull), (''a'', JInt 1)] 1 = Inr k"
  using derived_keys [OF demo_libs_ok, of "[(''a'', JInt 1), (''b'', JNull)]"
      "[(''b'', JNull), (''a'', JInt 1)]" 1 "''erp''" "''POST''"]
  by (auto simp: dict_ok_def)

text \<open>The material does not delimit namespace and action, so a colon in either moves across:
  two different requests have one key.\<close>

lemma derive_ambiguous: "derive L ''a:b'' ''c'' p v = derive L ''a'' ''b:c'' p v"
  by (simp add: derive_def key_material_def)

section \<open>At most once\<close>

text \<open>
  The contract of a store that hands out the right to an effect: a step may perform
  effects, each named by a key; it performs one only for a key the store does not hold yet,
  holds the key afterwards, and no step ever lets go of a held key. Then no sequence of
  steps performs an effect twice.
\<close>

locale at_most_once =
  fixes step :: "'o \<Rightarrow> 's \<Rightarrow> 's \<times> 'k list" and holds :: "'s \<Rightarrow> 'k \<Rightarrow> bool"
  assumes fresh: "step x s = (s', ks) \<Longrightarrow> k \<in> set ks \<Longrightarrow> \<not> holds s k \<and> holds s' k"
    and once: "step x s = (s', ks) \<Longrightarrow> distinct ks"
    and keep: "step x s = (s', ks) \<Longrightarrow> holds s k \<Longrightarrow> holds s' k"
begin

fun run :: "'o list \<Rightarrow> 's \<Rightarrow> 's \<times> 'k list" where
  "run [] s = (s, [])"
| "run (x # xs) s = (let (s1, ks) = step x s; (s2, ks') = run xs s1 in (s2, ks @ ks'))"

lemma run_effects:
  "run xs s = (s', ks) \<Longrightarrow>
     distinct ks \<and> (\<forall>k \<in> set ks. \<not> holds s k \<and> holds s' k) \<and> (\<forall>k. holds s k \<longrightarrow> holds s' k)"
proof (induction xs arbitrary: s s' ks)
  case (Cons x xs)
  obtain s1 k1 where 1: "step x s = (s1, k1)" by fastforce
  obtain k2 where 2: "run xs s1 = (s', k2)" and ks: "ks = k1 @ k2"
    using Cons.prems 1 by (auto split: prod.splits)
  show ?case
    using Cons.IH [OF 2] fresh [OF 1] once [OF 1] keep [OF 1] ks by auto
qed simp

lemma run_distinct: "distinct (snd (run xs s))"
  using run_effects by (metis prod.collapse)

lemma run_holds: "holds s k \<Longrightarrow> k \<notin> set (snd (run xs s))"
  using run_effects by (metis prod.collapse)

end

end
