(* ===== verification/MutationStore.thy ===== *)
theory MutationStore
  imports Lease
begin

text \<open>
  The in-memory mutation store of \<^verbatim>\<open>src/mutations/store.py\<close>: its state, every operation
  with the state each leaves behind when it raises, and what the store guarantees.
\<close>

datatype mutation_status =
    M_PENDING | M_FAILED_NO_MUTATION | M_UNCERTAIN | M_RESOLVED_PRESENT | M_RESOLVED_ABSENT
  | M_CONFLICT

record mutation_outcome =
  oc_key :: str
  oc_status :: mutation_status
  oc_payload :: str
  oc_extref :: "str option"
  oc_result :: "str option"
  oc_created :: bool

record mutation_store =
  ms_data :: "(str, mutation_outcome) dict"
  ms_refs :: "(str, str) dict"
  ms_fencing :: "(str, int) dict"
  ms_capacity :: nat
  ms_fail :: bool
  ms_writes :: nat

definition empty_store :: "nat \<Rightarrow> mutation_store" where
  "empty_store cap = \<lparr>ms_data = [], ms_refs = [], ms_fencing = [], ms_capacity = cap,
     ms_fail = False, ms_writes = 0\<rparr>"

definition check_capacity :: "mutation_store \<Rightarrow> bool \<Rightarrow> unit res" where
  "check_capacity s for_update =
    (if for_update then Inr ()
     else if ms_capacity s \<le> length (ms_data s) then Inl StorageFullError else Inr ())"

definition store_get :: "mutation_store \<Rightarrow> str \<Rightarrow> mutation_outcome option" where
  "store_get s key = dget (ms_data s) key"

definition store_claim :: "str \<Rightarrow> str \<Rightarrow> mutation_store \<Rightarrow> mutation_outcome res \<times> mutation_store" where
  "store_claim key ph s =
    (case check_capacity s False of
       Inl e \<Rightarrow> (Inl e, s)
     | Inr _ \<Rightarrow> (case dget (ms_data s) key of
         Some existing \<Rightarrow>
           if oc_payload existing \<noteq> ph then (Inl ValueError, s)
           else if oc_created existing
             then let existing = existing\<lparr>oc_created := False\<rparr> in
               (Inr existing, s\<lparr>ms_data := dput key existing (ms_data s)\<rparr>)
           else (Inr existing, s)
       | None \<Rightarrow>
           let fresh = \<lparr>oc_key = key, oc_status = M_PENDING, oc_payload = ph, oc_extref = None,
                        oc_result = None, oc_created = True\<rparr> in
           (Inr fresh, s\<lparr>ms_data := dput key fresh (ms_data s)\<rparr>)))"

definition write_success ::
  "str \<Rightarrow> str \<Rightarrow> str option \<Rightarrow> mutation_store \<Rightarrow> mutation_outcome res \<times> mutation_store" where
  "write_success key ext result s =
    (if ms_fail s
     then let s = s\<lparr>ms_fail := False\<rparr> in
       (case dget (ms_data s) key of
          None \<Rightarrow> (Inl KeyError, s)
        | Some o' \<Rightarrow>
            let oc = \<lparr>oc_key = key, oc_status = M_UNCERTAIN, oc_payload = oc_payload o',
                     oc_extref = Some ext, oc_result = None, oc_created = False\<rparr> in
            (Inl RuntimeError, s\<lparr>ms_data := dput key oc (ms_data s),
                                 ms_refs := dput ext key (ms_refs s)\<rparr>))
     else if (case dget (ms_refs s) ext of None \<Rightarrow> False | Some k \<Rightarrow> k \<noteq> key)
       then (Inl ValueError, s)
     else let s = s\<lparr>ms_refs := dput ext key (ms_refs s)\<rparr> in
       (case dget (ms_data s) key of
          None \<Rightarrow> (Inl KeyError, s)
        | Some o' \<Rightarrow>
            let oc = \<lparr>oc_key = key, oc_status = M_RESOLVED_PRESENT, oc_payload = oc_payload o',
                     oc_extref = Some ext, oc_result = result, oc_created = False\<rparr> in
            (Inr oc, s\<lparr>ms_data := dput key oc (ms_data s), ms_writes := Suc (ms_writes s)\<rparr>)))"

definition rollback_claim :: "str \<Rightarrow> mutation_store \<Rightarrow> mutation_store" where
  "rollback_claim key s =
    (case dget (ms_data s) key of
       None \<Rightarrow> s
     | Some o' \<Rightarrow> if oc_status o' = M_PENDING then s\<lparr>ms_data := ddel key (ms_data s)\<rparr> else s)"

definition write_failure ::
  "str \<Rightarrow> mutation_status \<Rightarrow> mutation_store \<Rightarrow> mutation_outcome res \<times> mutation_store" where
  "write_failure key st s =
    (case check_capacity s False of
       Inl e \<Rightarrow> (Inl e, s)
     | Inr _ \<Rightarrow> (case dget (ms_data s) key of
         None \<Rightarrow> (Inl KeyError, s)
       | Some o' \<Rightarrow>
           let oc = \<lparr>oc_key = key, oc_status = st, oc_payload = oc_payload o', oc_extref = None,
                    oc_result = None, oc_created = False\<rparr> in
           (Inr oc, s\<lparr>ms_data := dput key oc (ms_data s)\<rparr>)))"

definition resolve ::
  "str \<Rightarrow> mutation_status \<Rightarrow> str option \<Rightarrow> mutation_store
   \<Rightarrow> mutation_outcome res \<times> mutation_store" where
  "resolve key st ext s =
    (case check_capacity s False of
       Inl e \<Rightarrow> (Inl e, s)
     | Inr _ \<Rightarrow> (case dget (ms_data s) key of
         None \<Rightarrow> (Inl KeyError, s)
       | Some o' \<Rightarrow>
           let oc = \<lparr>oc_key = key, oc_status = st, oc_payload = oc_payload o', oc_extref = ext,
                    oc_result = None, oc_created = False\<rparr>;
               s = s\<lparr>ms_data := dput key oc (ms_data s)\<rparr> in
           (Inr oc, case ext of None \<Rightarrow> s | Some r \<Rightarrow> s\<lparr>ms_refs := dput r key (ms_refs s)\<rparr>)))"

definition register_fencing :: "str \<Rightarrow> int \<Rightarrow> mutation_store \<Rightarrow> mutation_store" where
  "register_fencing key token s =
    (let current = (case dget (ms_fencing s) key of None \<Rightarrow> 0 | Some t \<Rightarrow> t) in
     if current < token then s\<lparr>ms_fencing := dput key token (ms_fencing s)\<rparr> else s)"

definition current_token :: "mutation_store \<Rightarrow> str \<Rightarrow> int" where
  "current_token s key = (case dget (ms_fencing s) key of None \<Rightarrow> 0 | Some t \<Rightarrow> t)"

section \<open>What each operation does to the rows\<close>

definition has_key :: "mutation_store \<Rightarrow> str \<Rightarrow> bool" where
  "has_key s key = (dget (ms_data s) key \<noteq> None)"

lemmas store_defs = store_claim_def write_success_def rollback_claim_def write_failure_def
  resolve_def register_fencing_def check_capacity_def Let_def

lemma has_key_claim:
  "store_claim key ph s = (r, s') \<Longrightarrow> has_key s k \<Longrightarrow> has_key s' k"
  by (auto simp: has_key_def store_defs split: if_splits option.splits)

lemma claim_created:
  "store_claim key ph s = (Inr oc, s') \<Longrightarrow> oc_created oc \<Longrightarrow>
     \<not> has_key s key \<and> has_key s' key \<and> oc_status oc = M_PENDING
     \<and> dget (ms_data s') key = Some oc \<and> ms_data s' = ms_data s @ [(key, oc)]"
  by (auto simp: has_key_def store_defs dput_fresh map_add_def split: if_splits option.splits)

lemma has_key_updates [simp]:
  "has_key (snd (write_success key ext res s)) k = has_key s k"
  "has_key (snd (write_failure key st s)) k = has_key s k"
  "has_key (snd (resolve key st x s)) k = has_key s k"
  "has_key (register_fencing key t s) k = has_key s k"
  by (auto simp: has_key_def store_defs split: option.splits)

lemma has_key_rollback: "k \<noteq> key \<Longrightarrow> has_key (rollback_claim key s) k = has_key s k"
  by (auto simp: has_key_def store_defs split: option.splits)

lemma register_fencing_data [simp]:
  "ms_data (register_fencing key t s) = ms_data s" "ms_refs (register_fencing key t s) = ms_refs s"
  "ms_capacity (register_fencing key t s) = ms_capacity s"
  "ms_fail (register_fencing key t s) = ms_fail s"
  by (auto simp: register_fencing_def Let_def)

lemma current_token_mono: "current_token s k \<le> current_token (register_fencing key t s) k"
  by (auto simp: current_token_def register_fencing_def Let_def split: option.splits)

lemma current_token_register: "t \<le> current_token (register_fencing key t s) key"
  by (auto simp: current_token_def register_fencing_def Let_def split: option.splits)

lemma current_token_ops [simp]:
  "current_token (snd (store_claim key ph s)) k = current_token s k"
  "current_token (snd (write_success key ext res s)) k = current_token s k"
  "current_token (snd (write_failure key st s)) k = current_token s k"
  "current_token (snd (resolve key st x s)) k = current_token s k"
  "current_token (rollback_claim key s) k = current_token s k"
  by (auto simp: current_token_def store_defs split: option.splits)

end
