(* ===== verification/Executor.thy ===== *)
theory Executor
  imports AuditChain MutationStore
begin

text \<open>
  The crash-safe mutation executor of \<^verbatim>\<open>src/mutations/executor.py\<close>. Its state is the store,
  the audit chain and the world of the provider, which is a function argument: it gets the
  payload and the world and returns a reference or raises, changing the world either way.
  Every \<^verbatim>\<open>except\<close> clause is a case distinction, so the state that each exception leaves
  behind is part of the result.
\<close>

section \<open>State and audit payloads\<close>

record 'w exec_state =
  ex_store :: mutation_store
  ex_audit :: audit_chain
  ex_world :: 'w

type_synonym 'w provider = "(str, json) dict \<Rightarrow> 'w \<Rightarrow> str res \<times> 'w"

definition payload_hash :: "libs \<Rightarrow> (str, json) dict \<Rightarrow> str" where
  "payload_hash L p = l_sha256 L (dumps_compact p)"

definition terminal_status :: "mutation_status \<Rightarrow> bool" where
  "terminal_status st = (st \<in> {M_RESOLVED_PRESENT, M_RESOLVED_ABSENT, M_FAILED_NO_MUTATION})"

definition ev_pre :: "str \<Rightarrow> int \<Rightarrow> (str, json) dict" where
  "ev_pre key token = [(''key'', JStr key), (''action'', JStr ''pre_mutation''),
     (''fencing_token'', JInt token)]"

definition ev_provider_failed :: "str \<Rightarrow> (str, json) dict" where
  "ev_provider_failed key = [(''key'', JStr key), (''action'', JStr ''provider_failed''),
     (''error'', JStr ''provider_error'')]"

definition ev_external :: "str \<Rightarrow> str \<Rightarrow> str \<Rightarrow> str \<Rightarrow> (str, json) dict" where
  "ev_external key action ext status = [(''key'', JStr key), (''action'', JStr action),
     (''external_reference'', JStr ext), (''status'', JStr status)]"

definition ev_recovered_absent :: "str \<Rightarrow> (str, json) dict" where
  "ev_recovered_absent key = [(''key'', JStr key), (''action'', JStr ''recovered''),
     (''status'', JStr ''resolved_absent'')]"

definition ev_recovered_present :: "str \<Rightarrow> str \<Rightarrow> (str, json) dict" where
  "ev_recovered_present key ext = [(''key'', JStr key), (''action'', JStr ''recovered''),
     (''status'', JStr ''resolved_present''), (''external_reference'', JStr ext)]"

section \<open>execute\<close>

text \<open>The handler of an exception the provider raised: a \<^verbatim>\<open>RuntimeError\<close> is recorded as
  \<^verbatim>\<open>FAILED_NO_MUTATION\<close> and raised again, everything else passes through.\<close>

definition provider_failed ::
  "libs \<Rightarrow> str \<Rightarrow> str \<Rightarrow> datetime \<Rightarrow> str \<Rightarrow> exn \<Rightarrow> 'w exec_state
   \<Rightarrow> mutation_outcome res \<times> 'w exec_state" where
  "provider_failed L key ev at actor e st =
    (if \<not> is_runtime_error e then (Inl e, st)
     else (case write_failure key M_FAILED_NO_MUTATION (ex_store st) of
         (Inl e2, s) \<Rightarrow> (Inl e2, st\<lparr>ex_store := s\<rparr>)
       | (Inr _, s) \<Rightarrow>
           (case audit_event L ev actor at (ev_provider_failed key) (ex_audit st) of
              (Inl e3, c) \<Rightarrow> (Inl e3, st\<lparr>ex_store := s, ex_audit := c\<rparr>)
            | (Inr _, c) \<Rightarrow> (Inl e, st\<lparr>ex_store := s, ex_audit := c\<rparr>))))"

text \<open>The terminal success audit; if it fails the outcome is downgraded to \<^verbatim>\<open>UNCERTAIN\<close>.\<close>

definition audit_success ::
  "libs \<Rightarrow> str \<Rightarrow> str \<Rightarrow> datetime \<Rightarrow> str \<Rightarrow> str \<Rightarrow> mutation_outcome \<Rightarrow> 'w exec_state
   \<Rightarrow> mutation_outcome res \<times> 'w exec_state" where
  "audit_success L key ev at actor ext result st =
    (case audit_event L ev actor at (ev_external key ''post_mutation'' ext ''success'')
            (ex_audit st) of
       (Inr _, c) \<Rightarrow> (Inr result, st\<lparr>ex_audit := c\<rparr>)
     | (Inl e, c) \<Rightarrow>
         if \<not> is_runtime_error e then (Inl e, st\<lparr>ex_audit := c\<rparr>)
         else (case resolve key M_UNCERTAIN (Some ext) (ex_store st) of
             (Inl e2, s) \<Rightarrow> (Inl e2, st\<lparr>ex_store := s, ex_audit := c\<rparr>)
           | (Inr _, s) \<Rightarrow>
               (case audit_event L ev actor at
                       (ev_external key ''terminal_audit_failed'' ext ''uncertain'') c of
                  (Inl e3, c') \<Rightarrow>
                    (Inl (if is_runtime_error e3 then RuntimeError else e3),
                     st\<lparr>ex_store := s, ex_audit := c'\<rparr>)
                | (Inr _, c') \<Rightarrow> (Inl RuntimeError, st\<lparr>ex_store := s, ex_audit := c'\<rparr>))))"

definition record_success ::
  "libs \<Rightarrow> str \<Rightarrow> str \<Rightarrow> datetime \<Rightarrow> str \<Rightarrow> str \<Rightarrow> 'w exec_state
   \<Rightarrow> mutation_outcome res \<times> 'w exec_state" where
  "record_success L key ev at actor ext st =
    (case write_success key ext (Some ext) (ex_store st) of
       (Inr result, s) \<Rightarrow> audit_success L key ev at actor ext result (st\<lparr>ex_store := s\<rparr>)
     | (Inl e, s) \<Rightarrow>
         if \<not> is_runtime_error e then (Inl e, st\<lparr>ex_store := s\<rparr>)
         else (case audit_event L ev actor at
                      (ev_external key ''local_write_failed'' ext ''uncertain'') (ex_audit st) of
             (Inl e2, c) \<Rightarrow> (Inl e2, st\<lparr>ex_store := s, ex_audit := c\<rparr>)
           | (Inr _, c) \<Rightarrow> (Inl e, st\<lparr>ex_store := s, ex_audit := c\<rparr>)))"

text \<open>From a freshly created claim on: audit, provider, local write, audit.\<close>

definition run_claimed ::
  "libs \<Rightarrow> 'w provider \<Rightarrow> str \<Rightarrow> str \<Rightarrow> (str, json) dict \<Rightarrow> datetime \<Rightarrow> str \<Rightarrow> mutation_lease
   \<Rightarrow> 'w exec_state \<Rightarrow> mutation_outcome res \<times> 'w exec_state" where
  "run_claimed L prov key ev payload at actor lease st =
    (case audit_event L ev actor at (ev_pre key (ml_token lease)) (ex_audit st) of
       (Inl e, c) \<Rightarrow>
         if is_runtime_error e
         then (Inl RuntimeError,
               st\<lparr>ex_store := rollback_claim key (ex_store st), ex_audit := c\<rparr>)
         else (Inl e, st\<lparr>ex_audit := c\<rparr>)
     | (Inr _, c) \<Rightarrow>
         (case prov payload (ex_world st) of
            (Inl e, w) \<Rightarrow>
              provider_failed L key ev at actor e (st\<lparr>ex_audit := c, ex_world := w\<rparr>)
          | (Inr ext, w) \<Rightarrow>
              record_success L key ev at actor ext (st\<lparr>ex_audit := c, ex_world := w\<rparr>)))"

definition check_derived ::
  "libs \<Rightarrow> str option \<Rightarrow> str \<Rightarrow> (str, json) dict \<Rightarrow> int \<Rightarrow> str \<Rightarrow> unit res" where
  "check_derived L ns ev payload version key =
    (case ns of None \<Rightarrow> Inr ()
     | Some n \<Rightarrow> (case derive L n ev payload version of
         Inl e \<Rightarrow> Inl e
       | Inr d \<Rightarrow> if d \<noteq> key then Inl ValueError else Inr ()))"

definition execute ::
  "libs \<Rightarrow> 'w provider \<Rightarrow> str \<Rightarrow> str \<Rightarrow> (str, json) dict \<Rightarrow> datetime \<Rightarrow> str \<Rightarrow> mutation_lease
   \<Rightarrow> int \<Rightarrow> str option \<Rightarrow> int \<Rightarrow> 'w exec_state \<Rightarrow> mutation_outcome res \<times> 'w exec_state" where
  "execute L prov key ev payload at actor lease token ns version st =
    (case assert_fresh lease token at of
       Inl e \<Rightarrow> (Inl e, st)
     | Inr _ \<Rightarrow> (case check_derived L ns ev payload version key of
         Inl e \<Rightarrow> (Inl e, st)
       | Inr _ \<Rightarrow>
         (case store_claim key (payload_hash L payload)
                 (register_fencing key (ml_token lease) (ex_store st)) of
            (Inl e, s) \<Rightarrow> (Inl e, st\<lparr>ex_store := s\<rparr>)
          | (Inr oc, s) \<Rightarrow>
              if terminal_status (oc_status oc) then (Inr oc, st\<lparr>ex_store := s\<rparr>)
              else if \<not> oc_created oc then (Inl RecoveryRequired, st\<lparr>ex_store := s\<rparr>)
              else run_claimed L prov key ev payload at actor lease (st\<lparr>ex_store := s\<rparr>))))"

section \<open>recover\<close>

definition recover ::
  "libs \<Rightarrow> str \<Rightarrow> datetime \<Rightarrow> str \<Rightarrow> mutation_lease \<Rightarrow> int \<Rightarrow> 'w exec_state
   \<Rightarrow> mutation_outcome res \<times> 'w exec_state" where
  "recover L key at actor lease token st =
    (case assert_fresh lease token at of
       Inl e \<Rightarrow> (Inl e, st)
     | Inr _ \<Rightarrow>
       if ml_key lease \<noteq> key then (Inl ValueError, st)
       else let recorded = current_token (ex_store st) key in
       if recorded \<noteq> 0 \<and> ml_token lease \<noteq> recorded then (Inl StaleFencingTokenError, st)
       else (case store_get (ex_store st) key of
           None \<Rightarrow> (Inl ValueError, st)
         | Some oc \<Rightarrow>
           if oc_status oc \<noteq> M_UNCERTAIN then (Inr oc, st)
           else (case oc_extref oc of
               Some (c # cs) \<Rightarrow>
                 (case resolve key M_RESOLVED_PRESENT (Some (c # cs)) (ex_store st) of
                    (Inl e, s) \<Rightarrow> (Inl e, st\<lparr>ex_store := s\<rparr>)
                  | (Inr r, s) \<Rightarrow>
                      (case audit_event L ''RECOVERY'' actor at
                              (ev_recovered_present key (c # cs)) (ex_audit st) of
                         (Inl e, a) \<Rightarrow> (Inl e, st\<lparr>ex_store := s, ex_audit := a\<rparr>)
                       | (Inr _, a) \<Rightarrow> (Inr r, st\<lparr>ex_store := s, ex_audit := a\<rparr>)))
             | _ \<Rightarrow>
                 (case resolve key M_RESOLVED_ABSENT None (ex_store st) of
                    (Inl e, s) \<Rightarrow> (Inl e, st\<lparr>ex_store := s\<rparr>)
                  | (Inr r, s) \<Rightarrow>
                      (case audit_event L ''RECOVERY'' actor at
                              (ev_recovered_absent key) (ex_audit st) of
                         (Inl e, a) \<Rightarrow> (Inl e, st\<lparr>ex_store := s, ex_audit := a\<rparr>)
                       | (Inr _, a) \<Rightarrow> (Inr r, st\<lparr>ex_store := s, ex_audit := a\<rparr>)))) ))"

section \<open>The provider runs at most once per key\<close>

text \<open>Everything an operator or a fault can do to an executor; providers are arbitrary and may
  differ from call to call.\<close>

datatype 'w exec_op =
    Execute "'w provider" str str "(str, json) dict" datetime str mutation_lease int "str option" int
  | Recover str datetime str mutation_lease int
  | FailNextWrite | FailNextAppend

text \<open>The provider of one request, writing the request's key into a log when it is called.\<close>

definition logged :: "str \<Rightarrow> 'w provider \<Rightarrow> ('w \<times> str list) provider" where
  "logged key prov p = (\<lambda>(w, log). let (r, w') = prov p w in (r, (w', log @ [key])))"

fun exec_step :: "libs \<Rightarrow> 'w exec_op \<Rightarrow> 'w exec_state \<Rightarrow> 'w exec_state \<times> str list" where
  "exec_step L (Execute prov key ev payload at actor lease token ns version) st =
     (let st' = snd (execute L (logged key prov) key ev payload at actor lease token ns version
            \<lparr>ex_store = ex_store st, ex_audit = ex_audit st, ex_world = (ex_world st, [])\<rparr>)
      in (\<lparr>ex_store = ex_store st', ex_audit = ex_audit st', ex_world = fst (ex_world st')\<rparr>,
          snd (ex_world st')))"
| "exec_step L (Recover key at actor lease token) st =
     (snd (recover L key at actor lease token st), [])"
| "exec_step L FailNextWrite st = (st\<lparr>ex_store := (ex_store st)\<lparr>ms_fail := True\<rparr>\<rparr>, [])"
| "exec_step L FailNextAppend st = (st\<lparr>ex_audit := (ex_audit st)\<lparr>ac_fail := True\<rparr>\<rparr>, [])"

fun exec_run :: "libs \<Rightarrow> 'w exec_op list \<Rightarrow> 'w exec_state \<Rightarrow> 'w exec_state \<times> str list" where
  "exec_run L [] st = (st, [])"
| "exec_run L (x # xs) st =
     (let (s1, ks) = exec_step L x st; (s2, ks') = exec_run L xs s1 in (s2, ks @ ks'))"

definition exec_init :: "nat \<Rightarrow> 'w \<Rightarrow> 'w exec_state" where
  "exec_init cap w = \<lparr>ex_store = empty_store cap, ex_audit = empty_chain, ex_world = w\<rparr>"

text \<open>After the provider has returned, no handler calls it again and no row disappears.\<close>

lemma ms_updates_has:
  "write_failure key st s = (r, s') \<Longrightarrow> has_key s' = has_key s"
  "write_success key ext res s = (r', s') \<Longrightarrow> has_key s' = has_key s"
  "resolve key st x s = (r'', s') \<Longrightarrow> has_key s' = has_key s"
  by (simp_all add: fun_eq_iff) (metis has_key_updates snd_conv)+

lemma provider_failed_frame:
  "provider_failed L key ev at actor e st = (r, st') \<Longrightarrow>
     ex_world st' = ex_world st \<and> has_key (ex_store st') = has_key (ex_store st)"
  by (auto simp: provider_failed_def dest!: ms_updates_has split: if_splits prod.splits sum.splits)

lemma audit_success_frame:
  "audit_success L key ev at actor ext res st = (r, st') \<Longrightarrow>
     ex_world st' = ex_world st \<and> has_key (ex_store st') = has_key (ex_store st)"
  by (auto simp: audit_success_def dest!: ms_updates_has split: if_splits prod.splits sum.splits)

lemma record_success_frame:
  "record_success L key ev at actor ext st = (r, st') \<Longrightarrow>
     ex_world st' = ex_world st \<and> has_key (ex_store st') = has_key (ex_store st)"
  by (auto simp: record_success_def dest!: ms_updates_has audit_success_frame
      split: if_splits prod.splits sum.splits)

lemma run_claimed_frame:
  "run_claimed L prov key ev payload at actor lease st = (r, st') \<Longrightarrow>
     (ex_world st' = ex_world st \<and> (\<forall>k. k \<noteq> key \<longrightarrow> has_key (ex_store st') k = has_key (ex_store st) k))
   \<or> (ex_world st' = snd (prov payload (ex_world st))
        \<and> has_key (ex_store st') = has_key (ex_store st))"
  by (auto simp: run_claimed_def has_key_rollback
      dest!: provider_failed_frame record_success_frame
      split: if_splits prod.splits sum.splits)

lemma execute_frame:
  assumes "execute L prov key ev payload at actor lease token ns version st = (r, st')"
  shows "(\<forall>k. has_key (ex_store st) k \<longrightarrow> has_key (ex_store st') k)
    \<and> (ex_world st' = ex_world st
       \<or> (ex_world st' = snd (prov payload (ex_world st))
          \<and> \<not> has_key (ex_store st) key \<and> has_key (ex_store st') key))"
proof -
  obtain q s where c: "store_claim key (payload_hash L payload)
      (register_fencing key (ml_token lease) (ex_store st)) = (q, s)" by fastforce
  have keep: "has_key (ex_store st) k \<Longrightarrow> has_key s k" for k
    using has_key_claim [OF c] by simp
  from assms consider "st' = st" | "st' = st\<lparr>ex_store := s\<rparr>"
    | oc where "q = Inr oc" "oc_created oc"
        "run_claimed L prov key ev payload at actor lease (st\<lparr>ex_store := s\<rparr>) = (r, st')"
    unfolding execute_def c by (auto split: sum.splits if_splits)
  then show ?thesis
  proof cases
    case (3 oc)
    from claim_created [OF c [unfolded 3(1)] 3(2)]
    have cr: "\<not> has_key (ex_store st) key" "has_key s key"
      by (simp_all add: has_key_def)
    from run_claimed_frame [OF 3(3)] cr keep show ?thesis by auto metis
  qed (use keep in simp_all)
qed

lemma recover_frame:
  "recover L key at actor lease token st = (r, st') \<Longrightarrow>
     ex_world st' = ex_world st \<and> has_key (ex_store st') = has_key (ex_store st)"
  by (auto simp: recover_def Let_def dest!: ms_updates_has
      split: if_splits prod.splits sum.splits option.splits list.splits)

lemma exec_step_frame:
  assumes "exec_step L x st = (st', ks)"
  shows "(\<forall>k. has_key (ex_store st) k \<longrightarrow> has_key (ex_store st') k)
    \<and> (ks = [] \<or> (\<exists>key. ks = [key] \<and> \<not> has_key (ex_store st) key \<and> has_key (ex_store st') key))"
proof (cases x)
  case (Execute prov key ev payload at actor lease token ns version)
  let ?st = "\<lparr>ex_store = ex_store st, ex_audit = ex_audit st, ex_world = (ex_world st, [] :: str list)\<rparr>"
  obtain r t where e: "execute L (logged key prov) key ev payload at actor lease token ns version ?st
      = (r, t)" by fastforce
  from execute_frame [OF e] assms Execute e show ?thesis
    by (auto simp: logged_def split: prod.splits)
next
  case (Recover key at actor lease token)
  with assms recover_frame [of L key at actor lease token st] show ?thesis
    by (cases "recover L key at actor lease token st") auto
qed (use assms in \<open>auto simp: has_key_def\<close>)

interpretation exec_once: at_most_once "exec_step L" "\<lambda>st. has_key (ex_store st)"
  for L :: libs
  by unfold_locales (use exec_step_frame in fastforce)+

lemma exec_run_eq: "exec_run L xs st = exec_once.run L xs st"
  by (induction xs arbitrary: st) (auto split: prod.splits)

text \<open>C1. For any sequence of requests and recoveries, with any payloads, leases, tokens,
  providers and injected write or audit failures, the provider is invoked at most once for
  each mutation key.\<close>

theorem provider_at_most_once: "distinct (snd (exec_run L ops (exec_init cap w)))"
  by (simp add: exec_run_eq exec_once.run_distinct)

section \<open>The audit trail\<close>

lemma provider_failed_log:
  "provider_failed L key ev at actor e st = (r, st') \<Longrightarrow> log_ext L (ex_audit st) (ex_audit st')"
  by (auto simp: provider_failed_def dest!: log_ext_event split: if_splits prod.splits sum.splits)

lemma audit_success_log:
  "audit_success L key ev at actor ext res st = (r, st') \<Longrightarrow> log_ext L (ex_audit st) (ex_audit st')"
  by (auto simp: audit_success_def dest!: log_ext_event intro: log_ext_trans
      split: if_splits prod.splits sum.splits)

lemma record_success_log:
  "record_success L key ev at actor ext st = (r, st') \<Longrightarrow> log_ext L (ex_audit st) (ex_audit st')"
  by (auto simp: record_success_def dest!: log_ext_event audit_success_log
      split: if_splits prod.splits sum.splits)

text \<open>The provider runs only behind a recorded pre-mutation event.\<close>

definition pre_recorded ::
  "str \<Rightarrow> str \<Rightarrow> datetime \<Rightarrow> str \<Rightarrow> int \<Rightarrow> audit_chain \<Rightarrow> audit_chain \<Rightarrow> bool" where
  "pre_recorded key ev at actor token c c' =
    (\<exists>r. prefix (ac_records c @ [r]) (ac_records c') \<and> ar_event r = ev \<and> ar_actor r = actor
       \<and> ar_time r = at \<and> ar_payload r = redact (ev_pre key token))"

lemma run_claimed_log:
  assumes "run_claimed L prov key ev payload at actor lease st = (r, st')"
  shows "log_ext L (ex_audit st) (ex_audit st')
    \<and> (ex_world st' = ex_world st
       \<or> pre_recorded key ev at actor (ml_token lease) (ex_audit st) (ex_audit st'))"
proof -
  obtain q c where e: "audit_event L ev actor at (ev_pre key (ml_token lease)) (ex_audit st) = (q, c)"
    by fastforce
  note l = log_ext_event [OF e]
  show ?thesis
  proof (cases q)
    case (Inl x)
    with assms e l show ?thesis by (auto simp: run_claimed_def split: if_splits)
  next
    case (Inr u)
    have s: "log_ext L c (ex_audit st')"
      using assms e Inr
      by (auto simp: run_claimed_def dest!: provider_failed_log record_success_log
          split: prod.splits sum.splits)
    obtain p where p: "ac_records c = ac_records (ex_audit st) @ [p]" "ar_event p = ev"
      "ar_actor p = actor" "ar_time p = at" "ar_payload p = redact (ev_pre key (ml_token lease))"
      using audit_event_cases(2) [OF e [unfolded Inr]] by blast
    with s have "pre_recorded key ev at actor (ml_token lease) (ex_audit st) (ex_audit st')"
      by (auto simp: pre_recorded_def log_ext_def)
    with l s show ?thesis by (blast intro: log_ext_trans)
  qed
qed

lemma execute_cases:
  assumes "execute L prov key ev payload at actor lease token ns version st = (r, st')"
  obtains "st' = st" "\<exists>e. r = Inl e"
  | q s where "st' = st\<lparr>ex_store := s\<rparr>"
      "store_claim key (payload_hash L payload)
         (register_fencing key (ml_token lease) (ex_store st)) = (q, s)"
  | oc s where "assert_fresh lease token at = Inr ()"
      "check_derived L ns ev payload version key = Inr ()"
      "store_claim key (payload_hash L payload)
         (register_fencing key (ml_token lease) (ex_store st)) = (Inr oc, s)" "oc_created oc"
      "run_claimed L prov key ev payload at actor lease (st\<lparr>ex_store := s\<rparr>) = (r, st')"
  using assms that
  by (auto simp: execute_def split: sum.splits prod.splits if_splits)

lemma execute_log:
  "execute L prov key ev payload at actor lease token ns version st = (r, st') \<Longrightarrow>
   log_ext L (ex_audit st) (ex_audit st')"
  by (erule execute_cases) (auto dest!: run_claimed_log)

lemma recover_log:
  "recover L key at actor lease token st = (r, st') \<Longrightarrow> log_ext L (ex_audit st) (ex_audit st')"
  by (auto simp: recover_def Let_def dest!: log_ext_event
      split: if_splits prod.splits sum.splits option.splits list.splits)

lemma exec_step_log: "exec_step L x st = (st', ks) \<Longrightarrow> chain_ok L (ex_audit st) \<Longrightarrow> chain_ok L (ex_audit st')"
proof (induction L x st rule: exec_step.induct)
  case (1 L prov key ev payload at actor lease token ns version st)
  let ?st = "\<lparr>ex_store = ex_store st, ex_audit = ex_audit st, ex_world = (ex_world st, [] :: str list)\<rparr>"
  obtain r t where e: "execute L (logged key prov) key ev payload at actor lease token ns version ?st
      = (r, t)" by fastforce
  from execute_log [OF e] e 1 show ?case by (auto simp: log_ext_def)
next
  case (2 L key at actor lease token st)
  with recover_log [of L key at actor lease token st] show ?case
    by (cases "recover L key at actor lease token st") (auto simp: log_ext_def)
qed (auto simp: chain_ok_def verify_chain_def)

lemma exec_run_log:
  "chain_ok L (ex_audit st) \<Longrightarrow> chain_ok L (ex_audit (fst (exec_run L xs st)))"
proof (induction xs arbitrary: st)
  case (Cons x xs)
  then show ?case using exec_step_log [of L x st] by (auto split: prod.splits) (metis fst_conv)
qed simp

text \<open>The executor never breaks its audit chain: after any sequence of requests,
  recoveries and injected failures \<^verbatim>\<open>verify\<close> returns True.\<close>

theorem executor_audit_verifies:
  "verify_chain L (ex_audit (fst (exec_run L ops (exec_init cap w)))) = Inr True"
proof -
  have "chain_ok L (ex_audit (exec_init cap w))" by (simp add: exec_init_def)
  then have "chain_ok L (ex_audit (fst (exec_run L ops (exec_init cap w))))" by (rule exec_run_log)
  then show ?thesis by (simp add: chain_ok_def)
qed

text \<open>C24. The provider is never reached unguarded: if its world has changed, then the
  presented token was the lease's, the lease had not expired, the store held no row for the
  key before and holds one afterwards, a pre-mutation event with this actor and time stands in
  the audit log, and the provider was called once with this payload. Where the caller supplies
  a namespace the key is the one derived from namespace, event, payload and version; where it
  supplies none (the default of \<^verbatim>\<open>execute\<close>) the key is the caller's own and is not derived.\<close>

theorem provider_guarded:
  assumes "execute L prov key ev payload at actor lease token ns version st = (r, st')"
    "lease_ok lease" "ex_world st' \<noteq> ex_world st"
  shows "token = ml_token lease \<and> is_aware at \<and> utc_us at < utc_us (expires_at lease)
    \<and> (\<forall>n. ns = Some n \<longrightarrow> derive L n ev payload version = Inr key)
    \<and> \<not> has_key (ex_store st) key \<and> has_key (ex_store st') key
    \<and> pre_recorded key ev at actor token (ex_audit st) (ex_audit st')
    \<and> ex_world st' = snd (prov payload (ex_world st))"
proof -
  have f: "ex_world st' = snd (prov payload (ex_world st))"
    "\<not> has_key (ex_store st) key" "has_key (ex_store st') key"
    using execute_frame [OF assms(1)] assms(3) by auto
  from assms(1) show ?thesis
  proof (cases rule: execute_cases)
    case (3 oc s)
    then have "token = ml_token lease \<and> is_aware at \<and> utc_us at < utc_us (expires_at lease)"
      using assert_fresh_Inr [OF assms(2)] by blast
    moreover have "ns = Some n \<Longrightarrow> derive L n ev payload version = Inr key" for n
      using 3(2) by (auto simp: check_derived_def split: sum.splits if_splits)
    ultimately show ?thesis using f run_claimed_log [OF 3(5)] assms(3) by auto
  qed (use assms(3) in simp_all)
qed

section \<open>The success path and the retry\<close>

text \<open>What a fresh request needs to go through.\<close>

definition ready ::
  "libs \<Rightarrow> str \<Rightarrow> (str, json) dict \<Rightarrow> datetime \<Rightarrow> mutation_lease \<Rightarrow> 'w exec_state \<Rightarrow> bool" where
  "ready L key payload at lease st =
    (libs_ok L \<and> chain_ok L (ex_audit st) \<and> lease_ok lease
     \<and> is_aware at \<and> utc_us at < utc_us (expires_at lease)
     \<and> \<not> ms_fail (ex_store st) \<and> \<not> ac_fail (ex_audit st)
     \<and> length (ms_data (ex_store st)) < ms_capacity (ex_store st))"

lemma event_succeeds:
  assumes "chain_ok L c" "libs_ok L" "is_aware t" "\<not> ac_fail c"
  obtains c' r where "audit_event L ev actor t p c = (Inr (), c')" "chain_ok L c'" "\<not> ac_fail c'"
    "ac_records c' = ac_records c @ [r]" "ar_payload r = redact p"
proof -
  obtain q c' where e: "audit_event L ev actor t p c = (q, c')" by fastforce
  with audit_event_total [OF assms] have q: "q = Inr ()" by (metis fst_conv)
  show ?thesis
    using that [of c'] e q audit_event_cases(2) [OF e [unfolded q]]
      audit_event_ok [OF assms(1)] audit_event_fail assms(4) by (metis snd_conv)
qed

lemma claim_fresh:
  assumes "\<not> has_key s key" "length (ms_data s) < ms_capacity s"
  shows "\<exists>oc. store_claim key ph s = (Inr oc, s\<lparr>ms_data := dput key oc (ms_data s)\<rparr>)
    \<and> oc = \<lparr>oc_key = key, oc_status = M_PENDING, oc_payload = ph, oc_extref = None,
            oc_result = None, oc_created = True\<rparr>"
  using assms by (simp add: store_claim_def check_capacity_def has_key_def Let_def)

lemma claim_existing:
  assumes "dget (ms_data s) key = Some oc" "oc_payload oc = ph" "\<not> oc_created oc"
    "length (ms_data s) < ms_capacity s"
  shows "store_claim key ph s = (Inr oc, s)"
  using assms by (simp add: store_claim_def check_capacity_def)

lemma run_claimed_success:
  assumes "chain_ok L (ex_audit st)" "libs_ok L" "is_aware at" "\<not> ac_fail (ex_audit st)"
    "prov payload (ex_world st) = (Inr ext, w)"
    "write_success key ext (Some ext) (ex_store st) = (Inr oc, s)"
  shows "\<exists>c r1 r2. run_claimed L prov key ev payload at actor lease st
        = (Inr oc, \<lparr>ex_store = s, ex_audit = c, ex_world = w\<rparr>)
      \<and> ac_records c = ac_records (ex_audit st) @ [r1, r2]
      \<and> ar_payload r1 = redact (ev_pre key (ml_token lease))
      \<and> ar_payload r2 = redact (ev_external key ''post_mutation'' ext ''success'')"
proof -
  obtain c1 r1 where e1: "audit_event L ev actor at (ev_pre key (ml_token lease)) (ex_audit st) = (Inr (), c1)"
    "chain_ok L c1" "\<not> ac_fail c1" "ac_records c1 = ac_records (ex_audit st) @ [r1]"
    "ar_payload r1 = redact (ev_pre key (ml_token lease))"
    using event_succeeds [OF assms(1-4)] by metis
  obtain c2 r2 where e2: "audit_event L ev actor at
        (ev_external key ''post_mutation'' ext ''success'') c1 = (Inr (), c2)"
    "ac_records c2 = ac_records c1 @ [r2]"
    "ar_payload r2 = redact (ev_external key ''post_mutation'' ext ''success'')"
    using event_succeeds [OF e1(2) assms(2,3) e1(3)] by metis
  have "run_claimed L prov key ev payload at actor lease st
      = (Inr oc, \<lparr>ex_store = s, ex_audit = c2, ex_world = w\<rparr>)"
    using assms(5,6) e1(1) e2(1)
    by (simp add: run_claimed_def record_success_def audit_success_def)
  with e1(4,5) e2(2,3) show ?thesis by auto
qed

lemma execute_success:
  assumes "ready L key payload at lease st" "\<not> has_key (ex_store st) key"
    "check_derived L ns ev payload version key = Inr ()"
    "prov payload (ex_world st) = (Inr ext, w)"
    "dget (ms_refs (ex_store st)) ext = None"
  defines "oc \<equiv> \<lparr>oc_key = key, oc_status = M_RESOLVED_PRESENT, oc_payload = payload_hash L payload,
      oc_extref = Some ext, oc_result = Some ext, oc_created = False\<rparr>"
  shows "\<exists>s c r1 r2.
      execute L prov key ev payload at actor lease (ml_token lease) ns version st
        = (Inr oc, \<lparr>ex_store = s, ex_audit = c, ex_world = w\<rparr>)
      \<and> dget (ms_data s) key = Some oc
      \<and> ac_records c = ac_records (ex_audit st) @ [r1, r2]
      \<and> ar_payload r1 = redact (ev_pre key (ml_token lease))
      \<and> ar_payload r2 = redact (ev_external key ''post_mutation'' ext ''success'')"
proof -
  let ?ph = "payload_hash L payload"
  define s0 where "s0 = register_fencing key (ml_token lease) (ex_store st)"
  note rd = assms(1) [unfolded ready_def]
  obtain oc1 where c: "store_claim key ?ph s0 = (Inr oc1, s0\<lparr>ms_data := dput key oc1 (ms_data s0)\<rparr>)"
    and oc1: "oc_status oc1 = M_PENDING" "oc_created oc1" "oc_payload oc1 = ?ph"
    using claim_fresh [of s0 key ?ph] assms(2) rd by (auto simp: s0_def)
  define s1 where "s1 = s0\<lparr>ms_data := dput key oc1 (ms_data s0)\<rparr>"
  define s2 where "s2 = s1\<lparr>ms_refs := dput ext key (ms_refs s1),
      ms_data := dput key oc (ms_data s1), ms_writes := Suc (ms_writes s1)\<rparr>"
  have w: "write_success key ext (Some ext) s1 = (Inr oc, s2)"
    using rd assms(5) oc1 by (simp add: write_success_def s1_def s0_def oc_def s2_def Let_def)
  obtain c2 r1 r2 where rc: "run_claimed L prov key ev payload at actor lease (st\<lparr>ex_store := s1\<rparr>)
        = (Inr oc, \<lparr>ex_store = s2, ex_audit = c2, ex_world = w\<rparr>)"
    and rec: "ac_records c2 = ac_records (ex_audit st) @ [r1, r2]"
      "ar_payload r1 = redact (ev_pre key (ml_token lease))"
      "ar_payload r2 = redact (ev_external key ''post_mutation'' ext ''success'')"
    using run_claimed_success [where st = "st\<lparr>ex_store := s1\<rparr>" and L = L and at = at
        and prov = prov and payload = payload and w = w and ext = ext and key = key and oc = oc
        and s = s2 and ev = ev and actor = actor and lease = lease] rd assms(4) w by auto
  have fr: "assert_fresh lease (ml_token lease) at = Inr ()" using rd assert_fresh_Inr by blast
  have ex: "execute L prov key ev payload at actor lease (ml_token lease) ns version st
      = (Inr oc, \<lparr>ex_store = s2, ex_audit = c2, ex_world = w\<rparr>)"
    using fr assms(3) c [folded s1_def] rc oc1
    by (simp add: execute_def s0_def [symmetric] terminal_status_def)
  have row: "dget (ms_data s2) key = Some oc" by (simp add: s2_def)
  show ?thesis using ex rec row by blast
qed

text \<open>A fresh request whose provider succeeds is recorded as \<^verbatim>\<open>RESOLVED_PRESENT\<close> with
  the provider's reference, its audit trail grows by exactly the pre-mutation and the
  post-mutation event, and every retry of the same payload under a fresh lease, as long as
  the store is not full, returns the recorded outcome without calling the provider.\<close>

theorem execute_then_retry:
  assumes "ready L key payload at lease st" "\<not> has_key (ex_store st) key"
    "check_derived L ns ev payload version key = Inr ()"
    "prov payload (ex_world st) = (Inr ext, w)"
    "dget (ms_refs (ex_store st)) ext = None"
  shows "\<exists>oc st' r1 r2.
      execute L prov key ev payload at actor lease (ml_token lease) ns version st = (Inr oc, st')
      \<and> oc_status oc = M_RESOLVED_PRESENT \<and> oc_extref oc = Some ext
      \<and> store_get (ex_store st') key = Some oc \<and> ex_world st' = w
      \<and> ac_records (ex_audit st') = ac_records (ex_audit st) @ [r1, r2]
      \<and> ar_payload r1 = redact (ev_pre key (ml_token lease))
      \<and> ar_payload r2 = redact (ev_external key ''post_mutation'' ext ''success'')
      \<and> (\<forall>prov' at' actor' lease'. ready L key payload at' lease' st' \<longrightarrow>
           (\<exists>st''. execute L prov' key ev payload at' actor' lease' (ml_token lease') ns version st'
                = (Inr oc, st'') \<and> ex_world st'' = w))"
proof -
  define oc where "oc = \<lparr>oc_key = key, oc_status = M_RESOLVED_PRESENT,
      oc_payload = payload_hash L payload, oc_extref = Some ext, oc_result = Some ext, oc_created = False\<rparr>"
  obtain s c r1 r2 where ex: "execute L prov key ev payload at actor lease (ml_token lease) ns version st
        = (Inr oc, \<lparr>ex_store = s, ex_audit = c, ex_world = w\<rparr>)"
      "dget (ms_data s) key = Some oc" "ac_records c = ac_records (ex_audit st) @ [r1, r2]"
      "ar_payload r1 = redact (ev_pre key (ml_token lease))"
      "ar_payload r2 = redact (ev_external key ''post_mutation'' ext ''success'')"
    using execute_success [where prov = prov and actor = actor, OF assms, folded oc_def] by blast
  have "\<exists>st''. execute L prov' key ev payload at' actor' lease' (ml_token lease') ns version
        \<lparr>ex_store = s, ex_audit = c, ex_world = w\<rparr> = (Inr oc, st'') \<and> ex_world st'' = w"
    if rd: "ready L key payload at' lease' \<lparr>ex_store = s, ex_audit = c, ex_world = w\<rparr>"
    for prov' at' actor' lease'
  proof -
    have "assert_fresh lease' (ml_token lease') at' = Inr ()"
      using rd assert_fresh_Inr unfolding ready_def by blast
    moreover have "store_claim key (payload_hash L payload) (register_fencing key (ml_token lease') s)
        = (Inr oc, register_fencing key (ml_token lease') s)"
      using rd ex(2) by (intro claim_existing) (simp_all add: ready_def oc_def)
    ultimately show ?thesis
      using assms(3) by (simp add: execute_def terminal_status_def oc_def)
  qed
  note retry = this
  define st' where "st' = \<lparr>ex_store = s, ex_audit = c, ex_world = w\<rparr>"
  have "execute L prov key ev payload at actor lease (ml_token lease) ns version st = (Inr oc, st')
      \<and> oc_status oc = M_RESOLVED_PRESENT \<and> oc_extref oc = Some ext
      \<and> store_get (ex_store st') key = Some oc \<and> ex_world st' = w
      \<and> ac_records (ex_audit st') = ac_records (ex_audit st) @ [r1, r2]"
    using ex(1-3) by (simp add: st'_def store_get_def) (simp add: oc_def)
  then show ?thesis using ex(4,5) retry [folded st'_def] by blast
qed

definition demo_lease :: mutation_lease where
  "demo_lease = \<lparr>ml_key = ''erp:1'', ml_token = 1, ml_claimed = Aware 0 0, ml_ttl = 10\<rparr>"

lemma demo_ready: "ready demo_libs ''erp:1'' [] (Aware 5 0) demo_lease (exec_init 5 (0 :: nat))"
  by (simp add: ready_def demo_libs_ok exec_init_def empty_store_def lease_ok_def expires_at_def
      demo_lease_def)

lemma demo_fresh:
  "\<not> has_key (ex_store (exec_init 5 (0 :: nat))) ''erp:1''"
  "dget (ms_refs (ex_store (exec_init 5 (0 :: nat)))) ''EXT-1'' = None"
  "check_derived demo_libs None ''POST'' [] 1 ''erp:1'' = Inr ()"
  "ex_world (exec_init 5 (0 :: nat)) = 0"
  by (simp_all add: has_key_def exec_init_def empty_store_def check_derived_def)

theorem execute_then_retry_witness:
  "\<exists>oc st'. execute demo_libs (\<lambda>p n. (Inr ''EXT-1'', Suc n)) ''erp:1'' ''POST'' [] (Aware 5 0) ''w''
       demo_lease (ml_token demo_lease) None 1 (exec_init 5 (0 :: nat)) = (Inr oc, st')
     \<and> oc_status oc = M_RESOLVED_PRESENT \<and> ex_world st' = 1"
  using execute_then_retry [OF demo_ready demo_fresh(1) demo_fresh(3) _ demo_fresh(2),
      where prov = "\<lambda>p n. (Inr ''EXT-1'', Suc n)" and w = 1 and actor = "''w''"]
  by (simp add: demo_fresh(4)) blast

text \<open>A request with a namespace, under its derived key.\<close>

definition demo_key :: str where
  "demo_key = ''sha256:'' @ l_sha256 demo_libs (key_material 1 ''erp'' ''POST'' [(''a'', JInt 1)])"

lemma demo_derived: "check_derived demo_libs (Some ''erp'') ''POST'' [(''a'', JInt 1)] 1 demo_key = Inr ()"
  by (simp add: check_derived_def derive_eq demo_libs_ok demo_key_def)

theorem provider_guarded_witness:
  "\<exists>r st'. execute demo_libs (\<lambda>p n. (Inr ''EXT-1'', Suc n)) demo_key ''POST'' [(''a'', JInt 1)] (Aware 5 0) ''w''
       demo_lease 1 (Some ''erp'') 1 (exec_init 5 (0 :: nat)) = (r, st')
     \<and> derive demo_libs ''erp'' ''POST'' [(''a'', JInt 1)] 1 = Inr demo_key
     \<and> ex_world st' = 1 \<and> has_key (ex_store st') demo_key
     \<and> pre_recorded demo_key ''POST'' (Aware 5 0) ''w'' 1 empty_chain (ex_audit st')"
proof -
  have rd: "ready demo_libs demo_key [(''a'', JInt 1)] (Aware 5 0) demo_lease (exec_init 5 (0 :: nat))"
    using demo_ready by (simp add: ready_def)
  have "\<not> has_key (ex_store (exec_init 5 (0 :: nat))) demo_key"
    by (simp add: has_key_def exec_init_def empty_store_def)
  from execute_success [OF rd this demo_derived _ demo_fresh(2),
      where prov = "\<lambda>p n. (Inr ''EXT-1'', Suc n)" and w = 1 and actor = "''w''"]
  obtain oc st' where e: "execute demo_libs (\<lambda>p n. (Inr ''EXT-1'', Suc n)) demo_key ''POST'' [(''a'', JInt 1)]
       (Aware 5 0) ''w'' demo_lease 1 (Some ''erp'') 1 (exec_init 5 (0 :: nat)) = (Inr oc, st')"
    and w: "ex_world st' = 1"
    by (fastforce simp: demo_fresh(4) demo_lease_def)
  have "lease_ok demo_lease" by (simp add: lease_ok_def demo_lease_def)
  moreover have "ex_world st' \<noteq> ex_world (exec_init 5 (0 :: nat))" using w by (simp add: exec_init_def)
  ultimately have "derive demo_libs ''erp'' ''POST'' [(''a'', JInt 1)] 1 = Inr demo_key
     \<and> has_key (ex_store st') demo_key
     \<and> pre_recorded demo_key ''POST'' (Aware 5 0) ''w'' 1 (ex_audit (exec_init 5 (0 :: nat))) (ex_audit st')"
    using provider_guarded [OF e] by (simp add: demo_lease_def)
  with e w show ?thesis by (auto simp: exec_init_def)
qed

section \<open>Recovery\<close>

text \<open>Recovery never reaches the provider and changes no row but its own, and that only
  from \<^verbatim>\<open>UNCERTAIN\<close> to \<^verbatim>\<open>RESOLVED_PRESENT\<close> when a reference was kept and to
  \<^verbatim>\<open>RESOLVED_ABSENT\<close> otherwise; a worker whose token is not the highest one registered for
  the key changes nothing.\<close>

theorem recover_only_uncertain:
  assumes "recover L key at actor lease token st = (r, st')" "lease_ok lease"
  shows "ex_world st' = ex_world st
    \<and> (\<forall>k. store_get (ex_store st') k \<noteq> store_get (ex_store st) k \<longrightarrow>
         k = key \<and> ml_key lease = key \<and> token = ml_token lease
         \<and> is_aware at \<and> utc_us at < utc_us (expires_at lease)
         \<and> (current_token (ex_store st) key = 0 \<or> current_token (ex_store st) key = token)
         \<and> (\<exists>oc oc'. store_get (ex_store st) key = Some oc \<and> oc_status oc = M_UNCERTAIN
              \<and> store_get (ex_store st') key = Some oc' \<and> oc_payload oc' = oc_payload oc
              \<and> oc_status oc' = (if oc_extref oc \<in> {None, Some []} then M_RESOLVED_ABSENT
                                else M_RESOLVED_PRESENT)))"
proof (cases "st' = st")
  case False
  from assms False obtain oc where
    g: "assert_fresh lease token at = Inr ()" "ml_key lease = key"
      "current_token (ex_store st) key = 0 \<or> ml_token lease = current_token (ex_store st) key"
      "store_get (ex_store st) key = Some oc" "oc_status oc = M_UNCERTAIN"
    by (auto simp: recover_def Let_def split: sum.splits if_splits option.splits)
  have fr: "token = ml_token lease \<and> is_aware at \<and> utc_us at < utc_us (expires_at lease)"
    using g(1) assert_fresh_Inr [OF assms(2)] by blast
  let ?new = "if oc_extref oc \<in> {None, Some []} then M_RESOLVED_ABSENT else M_RESOLVED_PRESENT"
  let ?ext = "if oc_extref oc \<in> {None, Some []} then None else oc_extref oc"
  obtain q s where q: "resolve key ?new ?ext (ex_store st) = (q, s)" by fastforce
  have s: "ex_store st' = s"
    using assms(1) g q
    by (auto simp: recover_def Let_def split: sum.splits if_splits option.splits list.splits prod.splits)
  have "store_get s k = store_get (ex_store st) k
      \<or> k = key \<and> (\<exists>oc'. store_get s k = Some oc' \<and> oc_payload oc' = oc_payload oc \<and> oc_status oc' = ?new)" for k
    using q g(4) by (auto simp: resolve_def store_get_def Let_def check_capacity_def
        split: option.splits sum.splits if_splits)
  then show ?thesis using recover_frame [OF assms(1)] g fr s by metis
qed (use recover_frame [OF assms(1)] in simp)

theorem recover_only_uncertain_witness:
  "\<exists>r st'. recover demo_libs ''erp:1'' (Aware 5 0) ''w'' demo_lease 1
       \<lparr>ex_store = (empty_store 5)\<lparr>ms_data := [(''erp:1'', \<lparr>oc_key = ''erp:1'',
          oc_status = M_UNCERTAIN, oc_payload = ''h'', oc_extref = Some ''EXT-1'', oc_result = None,
          oc_created = False\<rparr>)]\<rparr>, ex_audit = empty_chain, ex_world = ()\<rparr> = (r, st')
     \<and> map_option oc_status (store_get (ex_store st') ''erp:1'') = Some M_RESOLVED_PRESENT
     \<and> ex_world st' = ()"
proof -
  define oc where "oc = \<lparr>oc_key = ''erp:1'', oc_status = M_UNCERTAIN, oc_payload = ''h'',
      oc_extref = Some ''EXT-1'', oc_result = None, oc_created = False\<rparr>"
  define st where "st = \<lparr>ex_store = (empty_store 5)\<lparr>ms_data := [(''erp:1'', oc)]\<rparr>,
      ex_audit = empty_chain, ex_world = ()\<rparr>"
  define oc' where "oc' = oc\<lparr>oc_status := M_RESOLVED_PRESENT\<rparr>"
  define s where "s = snd (resolve ''erp:1'' M_RESOLVED_PRESENT (Some ''EXT-1'') (ex_store st))"
  have s: "resolve ''erp:1'' M_RESOLVED_PRESENT (Some ''EXT-1'') (ex_store st) = (Inr oc', s)"
    and row: "store_get s ''erp:1'' = Some oc'"
    by (simp_all add: s_def resolve_def check_capacity_def st_def oc_def oc'_def empty_store_def
        store_get_def Let_def)
  obtain a where a: "audit_event demo_libs ''RECOVERY'' (''w'') (Aware 5 0)
      (ev_recovered_present ''erp:1'' ''EXT-1'') (ex_audit st) = (Inr (), a)"
    by (rule event_succeeds [OF empty_chain_ok demo_libs_ok, of "Aware 5 0" "''RECOVERY''" "''w''"
        "ev_recovered_present ''erp:1'' ''EXT-1''"]) (simp_all add: st_def)
  have lk: "lease_ok demo_lease" by (simp add: lease_ok_def demo_lease_def)
  have "assert_fresh demo_lease 1 (Aware 5 0) = Inr ()"
    by (simp add: assert_fresh_Inr [OF lk]) (simp add: demo_lease_def expires_at_def)
  moreover have "store_get (ex_store st) ''erp:1'' = Some oc" "current_token (ex_store st) ''erp:1'' = 0"
    by (simp_all add: st_def store_get_def current_token_def empty_store_def)
  ultimately have e: "recover demo_libs ''erp:1'' (Aware 5 0) ''w'' demo_lease 1 st
      = (Inr oc', st\<lparr>ex_store := s, ex_audit := a\<rparr>)"
    using s a by (simp add: recover_def demo_lease_def) (simp add: oc_def)
  have "store_get s ''erp:1'' \<noteq> store_get (ex_store st) ''erp:1''"
    unfolding row by (simp add: st_def store_get_def oc_def oc'_def)
  then have "\<exists>x. store_get s ''erp:1'' = Some x \<and> oc_status x = M_RESOLVED_PRESENT"
    using recover_only_uncertain [OF e lk, THEN conjunct2, rule_format, of "''erp:1''"]
      \<open>store_get (ex_store st) ''erp:1'' = Some oc\<close>
    by (auto simp: oc_def)
  then have "map_option oc_status (store_get s ''erp:1'') = Some M_RESOLVED_PRESENT" by auto
  with e show ?thesis
    unfolding oc_def [symmetric] st_def [symmetric]
    by (intro exI [of _ "Inr oc'"] exI [of _ "st\<lparr>ex_store := s, ex_audit := a\<rparr>"] conjI) simp_all
qed

section \<open>Claims that were left pending\<close>

text \<open>Rows of other keys are never touched.\<close>

definition other_rows :: "str \<Rightarrow> mutation_store \<Rightarrow> mutation_store \<Rightarrow> bool" where
  "other_rows key s s' = (\<forall>k. k \<noteq> key \<longrightarrow> dget (ms_data s') k = dget (ms_data s) k)"

lemma other_rows_refl [simp]: "other_rows key s s"
  by (simp add: other_rows_def)

lemma other_rows_trans: "other_rows key a b \<Longrightarrow> other_rows key b c \<Longrightarrow> other_rows key a c"
  by (simp add: other_rows_def)

lemma other_rows_ops:
  "write_failure key st s = (r, s') \<Longrightarrow> other_rows key s s'"
  "write_success key ext res s = (r, s') \<Longrightarrow> other_rows key s s'"
  "resolve key st x s = (r, s') \<Longrightarrow> other_rows key s s'"
  "store_claim key ph s = (r, s') \<Longrightarrow> other_rows key s s'"
  by (auto simp: other_rows_def store_defs split: option.splits if_splits)

lemma other_rows_rollback: "other_rows key s (rollback_claim key s)"
  by (auto simp: other_rows_def rollback_claim_def split: option.splits)

lemma provider_failed_rows:
  "provider_failed L key ev at actor e st = (r, st') \<Longrightarrow> other_rows key (ex_store st) (ex_store st')"
  by (auto simp: provider_failed_def dest!: other_rows_ops split: if_splits prod.splits sum.splits)

lemma audit_success_rows:
  "audit_success L key ev at actor ext res st = (r, st') \<Longrightarrow> other_rows key (ex_store st) (ex_store st')"
  by (auto simp: audit_success_def dest!: other_rows_ops split: if_splits prod.splits sum.splits)

lemma run_claimed_rows:
  "run_claimed L prov key ev payload at actor lease st = (r, st') \<Longrightarrow>
   other_rows key (ex_store st) (ex_store st')"
  by (auto simp: run_claimed_def record_success_def other_rows_rollback
      dest!: other_rows_ops provider_failed_rows audit_success_rows intro: other_rows_trans
      split: if_splits prod.splits sum.splits)

lemma execute_rows:
  assumes "execute L prov key ev payload at actor lease token ns version st = (r, st')"
  shows "other_rows key (ex_store st) (ex_store st')"
  using assms
proof (cases rule: execute_cases)
  case (2 q s)
  then show ?thesis using other_rows_ops(4) [OF 2(2)] by (simp add: other_rows_def)
next
  case (3 oc s)
  then show ?thesis using other_rows_ops(4) [OF 3(3)] run_claimed_rows [OF 3(5)]
    by (simp add: other_rows_def)
qed simp

definition is_pending :: "str \<Rightarrow> 'w exec_state \<Rightarrow> bool" where
  "is_pending key st =
    (\<exists>oc. store_get (ex_store st) key = Some oc \<and> oc_status oc = M_PENDING)"

lemma execute_pending:
  assumes "is_pending k st"
    "execute L prov key ev payload at actor lease token ns version st = (r, st')"
  shows "is_pending k st' \<and> (key = k \<longrightarrow> (\<exists>e. r = Inl e))"
proof (cases "key = k")
  case False
  with execute_rows [OF assms(2)] assms(1) show ?thesis
    by (auto simp: is_pending_def store_get_def other_rows_def)
next
  case True
  obtain oc where oc: "dget (ms_data (ex_store st)) key = Some oc" "oc_status oc = M_PENDING"
    using assms(1) True by (auto simp: is_pending_def store_get_def)
  obtain q s where c: "store_claim key (payload_hash L payload)
      (register_fencing key (ml_token lease) (ex_store st)) = (q, s)" by fastforce
  have "(q = Inl ValueError \<or> q = Inl StorageFullError
         \<or> (\<exists>o'. q = Inr o' \<and> oc_status o' = M_PENDING \<and> \<not> oc_created o'))
      \<and> (\<exists>o'. dget (ms_data s) key = Some o' \<and> oc_status o' = M_PENDING)"
    using c oc by (auto simp: store_claim_def check_capacity_def Let_def split: if_splits)
  then show ?thesis
    using assms(2) c oc True
    by (auto simp: execute_def is_pending_def store_get_def terminal_status_def
        split: sum.splits if_splits)
qed

lemma recover_pending:
  assumes "is_pending k st" "recover L key at actor lease token st = (r, st')"
  shows "is_pending k st' \<and> (key = k \<longrightarrow> st' = st)"
proof (cases "key = k")
  case True
  with assms show ?thesis
    by (auto simp: recover_def is_pending_def Let_def split: sum.splits if_splits option.splits)
next
  case False
  have "other_rows key (ex_store st) (ex_store st')"
    using assms(2) by (auto simp: recover_def Let_def dest!: other_rows_ops
        split: if_splits prod.splits sum.splits option.splits list.splits)
  with False assms(1) show ?thesis by (auto simp: is_pending_def store_get_def other_rows_def)
qed

lemma exec_step_pending: "is_pending k st \<Longrightarrow> exec_step L x st = (st', ks) \<Longrightarrow> is_pending k st'"
proof (induction L x st rule: exec_step.induct)
  case (1 L prov key ev payload at actor lease token ns version st)
  let ?st = "\<lparr>ex_store = ex_store st, ex_audit = ex_audit st, ex_world = (ex_world st, [] :: str list)\<rparr>"
  obtain r t where e: "execute L (logged key prov) key ev payload at actor lease token ns version ?st
      = (r, t)" by fastforce
  have "is_pending k ?st" using 1(1) by (simp add: is_pending_def)
  from execute_pending [OF this e] e 1 show ?case by (auto simp: is_pending_def)
next
  case (2 L key at actor lease token st)
  with recover_pending [of k st L key at actor lease token] show ?case
    by (cases "recover L key at actor lease token st") auto
qed (auto simp: is_pending_def store_get_def)

lemma exec_run_pending: "is_pending k st \<Longrightarrow> is_pending k (fst (exec_run L xs st))"
proof (induction xs arbitrary: st)
  case (Cons x xs)
  then show ?case using exec_step_pending [of k st L x] by (auto split: prod.splits) (metis fst_conv)
qed simp

text \<open>A claim that a crash left \<^verbatim>\<open>PENDING\<close> is never replayed and never classified: no
  sequence of requests and recoveries, whatever their leases and tokens, moves it out of
  \<^verbatim>\<open>PENDING\<close>, although \<^verbatim>\<open>RecoveryRequired\<close> asks for a recovery pass.\<close>

theorem pending_claim_stuck:
  assumes "is_pending k st"
  shows "is_pending k (fst (exec_run L ops st)) \<and> k \<notin> set (snd (exec_run L ops st))"
  using assms exec_run_pending [OF assms]
    exec_once.run_holds [of st k L ops]
  by (auto simp: exec_run_eq is_pending_def store_get_def has_key_def)

text \<open>A provider that raises anything but a \<^verbatim>\<open>RuntimeError\<close> leaves such a claim.\<close>

theorem pending_claim_stuck_witness:
  "is_pending ''erp:1'' (fst (exec_run demo_libs
     [Recover ''erp:1'' (Aware 6 0) ''w'' demo_lease 1]
     ((exec_init 5 ())\<lparr>ex_store := snd (store_claim ''erp:1'' ''h'' (empty_store 5))\<rparr>)))"
proof -
  have "is_pending ''erp:1'' ((exec_init 5 ())\<lparr>ex_store :=
      snd (store_claim ''erp:1'' ''h'' (empty_store 5))\<rparr>)"
    by (simp add: is_pending_def store_get_def store_claim_def check_capacity_def empty_store_def
        exec_init_def Let_def)
  from pending_claim_stuck [OF this] show ?thesis by blast
qed

text \<open>The capacity test of \<^verbatim>\<open>write_failure\<close> counts rows although it adds none: with the last
  slot taken by the claim itself, a provider failure is never recorded.\<close>

lemma failure_at_capacity:
  "ms_capacity s \<le> length (ms_data s) \<Longrightarrow> write_failure key st s = (Inl StorageFullError, s)"
  by (simp add: write_failure_def check_capacity_def)

lemma claim_at_capacity:
  "ms_capacity s \<le> length (ms_data s) \<Longrightarrow> store_claim key ph s = (Inl StorageFullError, s)"
  by (simp add: store_claim_def check_capacity_def)

end
