(* ===== verification/DurableStore.thy ===== *)
theory DurableStore
  imports MutationStore
begin

text \<open>
  The durable claim store of \<^verbatim>\<open>src/mutations/durable_store.py\<close> with the result type of
  \<^verbatim>\<open>claim_store.py\<close>. A table of rows stands for the SQLite table, with the constraints
  of its schema that an insert can violate; \<^verbatim>\<open>BEGIN IMMEDIATE\<close> makes a claim atomic, so
  any interleaving of connections is a sequence of claims. Expiry times are kept as values:
  \<^verbatim>\<open>fromisoformat\<close> inverts \<^verbatim>\<open>isoformat\<close>.
\<close>

section \<open>Rows and results\<close>

datatype claim_status =
    C_ACQUIRED | C_CLAIM_HELD | C_ALREADY_RESOLVED | C_PAYLOAD_CONFLICT | C_STALE_FENCING
  | C_LEASE_EXPIRED

record claim_result =
  cr_status :: claim_status
  cr_outcome :: "mutation_outcome option"

record durable_row =
  dr_status :: mutation_status
  dr_payload :: str
  dr_version :: int
  dr_token :: int
  dr_expires :: datetime
  dr_extref :: "str option"
  dr_result :: "str option"
  dr_created :: datetime
  dr_updated :: datetime

record durable_store =
  db_rows :: "(str, durable_row) dict"
  db_capacity :: nat

definition row_outcome :: "str \<Rightarrow> durable_row \<Rightarrow> mutation_outcome" where
  "row_outcome key r = \<lparr>oc_key = key, oc_status = dr_status r, oc_payload = dr_payload r,
     oc_extref = dr_extref r, oc_result = dr_result r, oc_created = False\<rparr>"

definition db_get :: "durable_store \<Rightarrow> str \<Rightarrow> mutation_outcome option" where
  "db_get s key = map_option (row_outcome key) (dget (db_rows s) key)"

definition db_current_token :: "durable_store \<Rightarrow> str \<Rightarrow> int" where
  "db_current_token s key = (case dget (db_rows s) key of None \<Rightarrow> 0 | Some r \<Rightarrow> dr_token r)"

definition db_len :: "durable_store \<Rightarrow> nat" where
  "db_len s = length (db_rows s)"

definition db_terminal :: "mutation_status \<Rightarrow> bool" where
  "db_terminal st = (st \<in> {M_RESOLVED_PRESENT, M_RESOLVED_ABSENT, M_FAILED_NO_MUTATION})"

section \<open>The claim\<close>

text \<open>The branch of an existing row. The update is conditional on the token read before, which
  the transaction keeps.\<close>

definition claim_existing_row ::
  "str \<Rightarrow> str \<Rightarrow> int \<Rightarrow> mutation_lease \<Rightarrow> int \<Rightarrow> datetime \<Rightarrow> durable_row \<Rightarrow> durable_store
   \<Rightarrow> claim_result res \<times> durable_store" where
  "claim_existing_row key ph version lease token at r s =
    (if dr_payload r \<noteq> ph \<or> dr_version r \<noteq> version
     then (Inr \<lparr>cr_status = C_PAYLOAD_CONFLICT, cr_outcome = None\<rparr>, s)
     else let oc = row_outcome key r in
     if db_terminal (oc_status oc)
     then (Inr \<lparr>cr_status = C_ALREADY_RESOLVED, cr_outcome = Some oc\<rparr>, s)
     else if token < dr_token r
     then (Inr \<lparr>cr_status = C_STALE_FENCING, cr_outcome = Some oc\<rparr>, s)
     else if token = dr_token r
     then (Inr \<lparr>cr_status = C_CLAIM_HELD, cr_outcome = Some oc\<rparr>, s)
     else (case dt_less at (dr_expires r) of
         Inl e \<Rightarrow> (Inl e, s)
       | Inr True \<Rightarrow> (Inr \<lparr>cr_status = C_STALE_FENCING, cr_outcome = Some oc\<rparr>, s)
       | Inr False \<Rightarrow>
           (Inr \<lparr>cr_status = C_ACQUIRED, cr_outcome = Some oc\<rparr>,
            s\<lparr>db_rows := dput key (r\<lparr>dr_token := token, dr_expires := expires_at lease,
                                     dr_updated := at\<rparr>) (db_rows s)\<rparr>)))"

text \<open>The insert; \<^verbatim>\<open>CHECK (canonicalization_version > 0)\<close> and
  \<^verbatim>\<open>CHECK (fencing_token > 0)\<close> are the constraints it can violate.\<close>

definition claim_insert ::
  "str \<Rightarrow> str \<Rightarrow> int \<Rightarrow> mutation_lease \<Rightarrow> datetime \<Rightarrow> durable_store
   \<Rightarrow> claim_result res \<times> durable_store" where
  "claim_insert key ph version lease at s =
    (if db_capacity s \<le> length (db_rows s) then (Inl StorageFullError, s)
     else if version \<le> 0 \<or> ml_token lease \<le> 0 then
       (case db_get s key of
          None \<Rightarrow> (Inl IntegrityError, s)
        | Some existing \<Rightarrow>
            if oc_payload existing \<noteq> ph
            then (Inr \<lparr>cr_status = C_PAYLOAD_CONFLICT, cr_outcome = None\<rparr>, s)
            else (Inr \<lparr>cr_status = C_CLAIM_HELD, cr_outcome = Some existing\<rparr>, s))
     else
       (Inr \<lparr>cr_status = C_ACQUIRED,
             cr_outcome = Some \<lparr>oc_key = key, oc_status = M_PENDING, oc_payload = ph,
               oc_extref = None, oc_result = None, oc_created = True\<rparr>\<rparr>,
        s\<lparr>db_rows := dput key
            \<lparr>dr_status = M_PENDING, dr_payload = ph, dr_version = version,
             dr_token = ml_token lease, dr_expires = expires_at lease, dr_extref = None,
             dr_result = None, dr_created = at, dr_updated = at\<rparr> (db_rows s)\<rparr>))"

definition db_claim ::
  "str \<Rightarrow> str \<Rightarrow> int \<Rightarrow> mutation_lease \<Rightarrow> int \<Rightarrow> datetime \<Rightarrow> durable_store
   \<Rightarrow> claim_result res \<times> durable_store" where
  "db_claim key ph version lease token at s =
    (case assert_fresh lease token at of
       Inl e \<Rightarrow> (Inl e, s)
     | Inr _ \<Rightarrow> (case dget (db_rows s) key of
         Some r \<Rightarrow> claim_existing_row key ph version lease token at r s
       | None \<Rightarrow> claim_insert key ph version lease at s))"

section \<open>What a claim does to the table\<close>

lemmas db_claim_defs = db_claim_def claim_existing_row_def claim_insert_def

lemma db_claim_cases:
  assumes "db_claim key ph version lease token at s = (r, s')"
  obtains "s' = s" "\<And>c. r = Inr c \<Longrightarrow> cr_status c \<noteq> C_ACQUIRED"
  | row oc where "dget (db_rows s) key = Some row" "dr_payload row = ph" "dr_version row = version"
      "\<not> db_terminal (dr_status row)" "dr_token row < token"
      "dt_less at (dr_expires row) = Inr False" "assert_fresh lease token at = Inr ()"
      "r = Inr \<lparr>cr_status = C_ACQUIRED, cr_outcome = Some (row_outcome key row)\<rparr>"
      "s' = s\<lparr>db_rows := dput key (row\<lparr>dr_token := token, dr_expires := expires_at lease,
                                     dr_updated := at\<rparr>) (db_rows s)\<rparr>"
  | oc row where "dget (db_rows s) key = None" "assert_fresh lease token at = Inr ()"
      "length (db_rows s) < db_capacity s" "0 < version" "0 < ml_token lease"
      "r = Inr \<lparr>cr_status = C_ACQUIRED, cr_outcome = Some oc\<rparr>" "oc_created oc"
      "row = \<lparr>dr_status = M_PENDING, dr_payload = ph, dr_version = version,
             dr_token = ml_token lease, dr_expires = expires_at lease, dr_extref = None,
             dr_result = None, dr_created = at, dr_updated = at\<rparr>"
      "s' = s\<lparr>db_rows := dput key row (db_rows s)\<rparr>"
  using assms that
  by (auto simp: db_claim_defs Let_def row_outcome_def not_le
      split: sum.splits option.splits if_splits bool.splits)

definition demo_row :: durable_row where
  "demo_row = \<lparr>dr_status = M_PENDING, dr_payload = ''h'', dr_version = 1, dr_token = 1,
     dr_expires = Aware 10 0, dr_extref = None, dr_result = None, dr_created = Aware 0 0,
     dr_updated = Aware 0 0\<rparr>"

text \<open>A claim of a key: what the workers of any number of connections send.\<close>

record claim_req =
  cq_key :: str
  cq_payload :: str
  cq_version :: int
  cq_lease :: mutation_lease
  cq_token :: int
  cq_at :: datetime

definition do_claim :: "claim_req \<Rightarrow> durable_store \<Rightarrow> claim_result res \<times> durable_store" where
  "do_claim q s = db_claim (cq_key q) (cq_payload q) (cq_version q) (cq_lease q) (cq_token q)
     (cq_at q) s"

fun run_claims :: "claim_req list \<Rightarrow> durable_store \<Rightarrow> claim_result res list \<times> durable_store" where
  "run_claims [] s = ([], s)"
| "run_claims (q # qs) s =
     (let (r, s1) = do_claim q s; (rs, s2) = run_claims qs s1 in (r # rs, s2))"

text \<open>Rows only change in their token, expiry and time stamp.\<close>

lemma claim_row_step:
  assumes "do_claim q s = (r, s')" "dget (db_rows s) k = Some row"
  shows "\<exists>row'. dget (db_rows s') k = Some row' \<and> dr_token row \<le> dr_token row'
    \<and> dr_payload row' = dr_payload row \<and> dr_version row' = dr_version row
    \<and> dr_status row' = dr_status row
    \<and> (dr_token row' = dr_token row \<longrightarrow> row' = row)"
  using assms(1) unfolding do_claim_def
  by (cases rule: db_claim_cases) (use assms(2) in \<open>auto\<close>)

lemma run_claims_row:
  "run_claims qs s = (rs, s') \<Longrightarrow> dget (db_rows s) k = Some row \<Longrightarrow>
   \<exists>row'. dget (db_rows s') k = Some row' \<and> dr_token row \<le> dr_token row'
    \<and> dr_payload row' = dr_payload row \<and> dr_version row' = dr_version row
    \<and> dr_status row' = dr_status row"
proof (induction qs arbitrary: s rs row)
  case (Cons q qs)
  obtain r s1 where 1: "do_claim q s = (r, s1)" by fastforce
  obtain rs1 where 2: "run_claims qs s1 = (rs1, s')" using Cons.prems(1) 1 by (auto split: prod.splits)
  from claim_row_step [OF 1 Cons.prems(2)] obtain row1 where
    "dget (db_rows s1) k = Some row1" "dr_token row \<le> dr_token row1"
    "dr_payload row1 = dr_payload row" "dr_version row1 = dr_version row" "dr_status row1 = dr_status row"
    by blast
  with Cons.IH [OF 2] show ?case by fastforce
qed simp

text \<open>Fencing in the durable store is monotonic and a key is bound to its first payload:
  along any sequence of claims a stored token never decreases and payload hash,
  canonicalization version and status of a row never change, and a claim with another
  payload or version that is fresh gets \<^verbatim>\<open>PAYLOAD_CONFLICT\<close> and changes nothing.\<close>

theorem durable_rows_monotone:
  assumes "run_claims qs s = (rs, s')" "dget (db_rows s) k = Some row"
  shows "(\<exists>row'. dget (db_rows s') k = Some row' \<and> dr_token row \<le> dr_token row'
      \<and> dr_payload row' = dr_payload row \<and> dr_version row' = dr_version row
      \<and> dr_status row' = dr_status row)
    \<and> db_current_token s k \<le> db_current_token s' k
    \<and> (\<forall>ph version lease token at. assert_fresh lease token at = Inr () \<and>
         (ph \<noteq> dr_payload row \<or> version \<noteq> dr_version row) \<longrightarrow>
         db_claim k ph version lease token at s'
           = (Inr \<lparr>cr_status = C_PAYLOAD_CONFLICT, cr_outcome = None\<rparr>, s'))"
proof -
  obtain row' where "dget (db_rows s') k = Some row'" "dr_token row \<le> dr_token row'"
    "dr_payload row' = dr_payload row" "dr_version row' = dr_version row" "dr_status row' = dr_status row"
    using run_claims_row [OF assms] by blast
  then show ?thesis using assms(2)
    by (auto simp: db_current_token_def db_claim_def claim_existing_row_def)
qed

theorem durable_rows_monotone_witness:
  "\<exists>rs s'. run_claims [\<lparr>cq_key = ''k'', cq_payload = ''h'', cq_version = 1,
       cq_lease = \<lparr>ml_key = ''k'', ml_token = 2, ml_claimed = Aware 20 0, ml_ttl = 10\<rparr>,
       cq_token = 2, cq_at = Aware 20 0\<rparr>]
      \<lparr>db_rows = [(''k'', demo_row)], db_capacity = 5\<rparr> = (rs, s')
    \<and> (\<exists>row'. dget (db_rows s') ''k'' = Some row' \<and> 1 \<le> dr_token row' \<and> dr_payload row' = ''h'')"
proof -
  let ?s = "\<lparr>db_rows = [(''k'', demo_row)], db_capacity = 5\<rparr>"
  obtain rs s' where r: "run_claims [\<lparr>cq_key = ''k'', cq_payload = ''h'', cq_version = 1,
       cq_lease = \<lparr>ml_key = ''k'', ml_token = 2, ml_claimed = Aware 20 0, ml_ttl = 10\<rparr>,
       cq_token = 2, cq_at = Aware 20 0\<rparr>] ?s = (rs, s')" by fastforce
  have "dget (db_rows ?s) ''k'' = Some demo_row" by simp
  from durable_rows_monotone [OF r this] r show ?thesis by (auto simp: demo_row_def)
qed

section \<open>One owner at a time\<close>

text \<open>The row as the owner left it.\<close>

definition owned_by :: "str \<Rightarrow> int \<Rightarrow> datetime \<Rightarrow> durable_store \<Rightarrow> bool" where
  "owned_by key token expiry s =
    (\<exists>row. dget (db_rows s) key = Some row \<and> dr_token row = token \<and> dr_expires row = expiry)"

lemma acquired_owned:
  assumes "do_claim q s = (Inr c, s')" "cr_status c = C_ACQUIRED" "lease_ok (cq_lease q)"
  shows "owned_by (cq_key q) (cq_token q) (expires_at (cq_lease q)) s'"
  using assms(1) unfolding do_claim_def
proof (cases rule: db_claim_cases)
  case (3 oc row)
  then have "cq_token q = ml_token (cq_lease q)" using assert_fresh_Inr [OF assms(3)] by blast
  with 3 show ?thesis by (simp add: owned_by_def)
qed (use assms(2) in \<open>auto simp: owned_by_def\<close>)

lemma owned_step:
  assumes "do_claim q s = (r, s')" "owned_by k token expiry s" "is_aware expiry"
    "is_aware (cq_at q)" "utc_us (cq_at q) < utc_us expiry"
  shows "owned_by k token expiry s'"
    and "cq_key q = k \<Longrightarrow> r = Inr c \<Longrightarrow>
           cr_status c \<noteq> C_ACQUIRED \<and> (cr_status c = C_CLAIM_HELD \<longrightarrow> cq_token q = token)"
proof -
  have less: "dt_less (cq_at q) expiry = Inr True" using assms(3-5) by (simp add: dt_less_aware)
  from assms(1) have c: "db_claim (cq_key q) (cq_payload q) (cq_version q) (cq_lease q)
      (cq_token q) (cq_at q) s = (r, s')" by (simp add: do_claim_def)
  show "owned_by k token expiry s'"
    using c by (cases rule: db_claim_cases) (use assms(2) less in \<open>auto simp: owned_by_def\<close>)
  show "cr_status c \<noteq> C_ACQUIRED \<and> (cr_status c = C_CLAIM_HELD \<longrightarrow> cq_token q = token)"
    if "cq_key q = k" "r = Inr c"
    using c assms(2) less that
    by (auto simp: db_claim_defs owned_by_def Let_def split: sum.splits if_splits bool.splits)
qed

lemma owned_run:
  assumes "owned_by k token expiry s" "is_aware expiry" "run_claims qs s = (rs, s')"
    "list_all (\<lambda>q. is_aware (cq_at q) \<and> utc_us (cq_at q) < utc_us expiry) qs"
  shows "owned_by k token expiry s'
    \<and> (\<forall>i < length qs. cq_key (qs ! i) = k \<longrightarrow> (\<forall>c. rs ! i = Inr c \<longrightarrow>
         cr_status c \<noteq> C_ACQUIRED \<and> (cr_status c = C_CLAIM_HELD \<longrightarrow> cq_token (qs ! i) = token)))"
  using assms
proof (induction qs arbitrary: s rs)
  case (Cons q qs)
  obtain r s1 where 1: "do_claim q s = (r, s1)" by fastforce
  obtain rs1 where 2: "run_claims qs s1 = (rs1, s')" and rs: "rs = r # rs1"
    using Cons.prems(3) 1 by (auto split: prod.splits)
  have q: "is_aware (cq_at q)" "utc_us (cq_at q) < utc_us expiry" using Cons.prems(4) by simp_all
  note st = owned_step [OF 1 Cons.prems(1,2) q]
  from Cons.IH [OF st(1) Cons.prems(2) 2] Cons.prems(4) st(2) rs
  show ?case by (auto simp: nth_Cons split: nat.splits)
qed simp

text \<open>C16. After a claim was acquired and until its lease expires, no other claim of the key
  is acquired, whatever tokens and payloads the other workers present and whatever they do
  to other keys; a claim that is told \<^verbatim>\<open>CLAIM_HELD\<close> presented the owner's token.\<close>

theorem durable_single_owner:
  assumes "do_claim q s = (Inr c, s1)" "cr_status c = C_ACQUIRED" "lease_ok (cq_lease q)"
    "run_claims qs s1 = (rs, s')" "i < length qs" "cq_key (qs ! i) = cq_key q" "rs ! i = Inr c'"
    "list_all (\<lambda>q'. is_aware (cq_at q') \<and> utc_us (cq_at q') < utc_us (expires_at (cq_lease q))) qs"
  shows "cr_status c' \<noteq> C_ACQUIRED
    \<and> (cr_status c' = C_CLAIM_HELD \<longrightarrow> cq_token (qs ! i) = cq_token q)"
proof -
  have "is_aware (expires_at (cq_lease q))" using assms(3) by (simp add: lease_ok_def expires_at_def)
  from owned_run [OF acquired_owned [OF assms(1-3)] this assms(4,8)] assms(5-7)
  show ?thesis by blast
qed

definition demo_claim :: "int \<Rightarrow> int \<Rightarrow> claim_req" where
  "demo_claim token t = \<lparr>cq_key = ''k'', cq_payload = ''h'', cq_version = 1,
     cq_lease = \<lparr>ml_key = ''k'', ml_token = token, ml_claimed = Aware t 0, ml_ttl = 10\<rparr>,
     cq_token = token, cq_at = Aware t 0\<rparr>"

lemmas demo_claim_defs = demo_claim_def do_claim_def db_claim_defs assert_fresh_def is_expired_def
  expires_at_def row_outcome_def db_terminal_def Let_def

theorem durable_single_owner_witness:
  "\<exists>c1 c2 s'. fst (do_claim (demo_claim 1 0) \<lparr>db_rows = [], db_capacity = 5\<rparr>) = Inr c1
     \<and> cr_status c1 = C_ACQUIRED
     \<and> run_claims [demo_claim 2 5] (snd (do_claim (demo_claim 1 0) \<lparr>db_rows = [], db_capacity = 5\<rparr>))
         = ([Inr c2], s') \<and> cr_status c2 \<noteq> C_ACQUIRED"
proof -
  obtain c1 s1 where 1: "do_claim (demo_claim 1 0) \<lparr>db_rows = [], db_capacity = 5\<rparr> = (Inr c1, s1)"
    and a: "cr_status c1 = C_ACQUIRED"
    by (simp add: demo_claim_defs)
  obtain c2 s' where 2: "run_claims [demo_claim 2 5] s1 = ([Inr c2], s')"
    using 1 by (auto simp: demo_claim_defs)
  have "cr_status c2 \<noteq> C_ACQUIRED"
    using durable_single_owner [OF 1 a _ 2, of 0 c2]
    by (simp add: demo_claim_def lease_ok_def expires_at_def)
  with 1 2 a show ?thesis by simp
qed

text \<open>Takeover is possible exactly when it should be: once the stored lease has expired,
  a fresh claim with a newer token and the same payload acquires a non-terminal row, and the
  row is then owned by the new lease.\<close>

theorem durable_takeover:
  assumes "dget (db_rows s) (cq_key q) = Some row" "\<not> db_terminal (dr_status row)"
    "dr_payload row = cq_payload q" "dr_version row = cq_version q" "dr_token row < cq_token q"
    "lease_ok (cq_lease q)" "assert_fresh (cq_lease q) (cq_token q) (cq_at q) = Inr ()"
    "is_aware (dr_expires row)" "utc_us (dr_expires row) \<le> utc_us (cq_at q)"
  shows "\<exists>c s'. do_claim q s = (Inr c, s') \<and> cr_status c = C_ACQUIRED
    \<and> owned_by (cq_key q) (cq_token q) (expires_at (cq_lease q)) s'"
proof -
  have "is_aware (cq_at q)" using assms(6,7) assert_fresh_Inr by blast
  then have "dt_less (cq_at q) (dr_expires row) = Inr False" using assms by (simp add: dt_less_aware)
  then have "\<exists>c s'. do_claim q s = (Inr c, s') \<and> cr_status c = C_ACQUIRED"
    using assms by (simp add: do_claim_def db_claim_defs row_outcome_def)
  then show ?thesis using acquired_owned assms(6) by blast
qed

theorem durable_takeover_witness:
  "\<exists>c s'. do_claim (demo_claim 2 20) \<lparr>db_rows = [(''k'', demo_row)], db_capacity = 5\<rparr> = (Inr c, s')
     \<and> cr_status c = C_ACQUIRED"
  using durable_takeover [of "\<lparr>db_rows = [(''k'', demo_row)], db_capacity = 5\<rparr>" "demo_claim 2 20" demo_row]
  by (auto simp: demo_claim_def demo_row_def db_terminal_def lease_ok_def assert_fresh_def
      is_expired_def expires_at_def)

section \<open>A row is created once\<close>

definition claim_effects :: "claim_req \<Rightarrow> durable_store \<Rightarrow> durable_store \<times> str list" where
  "claim_effects q s = (case do_claim q s of (r, s') \<Rightarrow>
     (s', case r of Inr c \<Rightarrow> (case cr_outcome c of Some oc \<Rightarrow> if oc_created oc then [cq_key q] else []
                              | None \<Rightarrow> []) | Inl _ \<Rightarrow> []))"

interpretation durable_once: at_most_once claim_effects "\<lambda>s k. dget (db_rows s) k \<noteq> None"
proof
  fix q s s' ks
  assume e: "claim_effects q s = (s', ks)"
  obtain r where r: "do_claim q s = (r, s')" using e by (auto simp: claim_effects_def split: prod.splits)
  have k: "ks = [] \<or> ks = [cq_key q] \<and> dget (db_rows s) (cq_key q) = None
      \<and> dget (db_rows s') (cq_key q) \<noteq> None"
    using e r [unfolded do_claim_def]
    by (auto simp: claim_effects_def do_claim_def db_claim_defs row_outcome_def db_get_def Let_def
        split: sum.splits option.splits if_splits bool.splits)
  then show "distinct ks" by auto
  from k show "x \<in> set ks \<Longrightarrow> \<not> dget (db_rows s) x \<noteq> None \<and> dget (db_rows s') x \<noteq> None" for x
    by auto
  show "dget (db_rows s) x \<noteq> None \<Longrightarrow> dget (db_rows s') x \<noteq> None" for x
    using claim_row_step [OF r] by fastforce
qed

text \<open>The token is all that names the owner: another worker with an equal token, as a second
  process that counts from 1 again produces, is told that it holds the claim.\<close>

lemma same_token_holds:
  "\<exists>s c. fst (do_claim (demo_claim 1 0) \<lparr>db_rows = [], db_capacity = 5\<rparr>) = Inr c \<and> cr_status c = C_ACQUIRED
     \<and> s = snd (do_claim (demo_claim 1 0) \<lparr>db_rows = [], db_capacity = 5\<rparr>)
     \<and> (\<exists>c'. fst (do_claim (demo_claim 1 5) s) = Inr c' \<and> cr_status c' = C_CLAIM_HELD)"
  by (simp add: demo_claim_defs)

end
