(* ===== verification/ReconQueue.thy ===== *)
theory ReconQueue
  imports AuditChain
begin

text \<open>
  The operator queue of \<^verbatim>\<open>src/reconciliation/queue.py\<close> with the types of
  \<^verbatim>\<open>src/contracts/reconciliation.py\<close>. Every operation holds the queue's lock, so an
  operation is one atomic step. The two clock readings of an operation (the item's time
  stamp and the audit record's) are its arguments; both are in UTC.
\<close>

section \<open>Items\<close>

datatype recon_class = RC_PRESENT | RC_ABSENT | RC_AMBIGUOUS | RC_UNAVAILABLE

datatype item_status =
    Q_PENDING | Q_CLASSIFYING | Q_SAFE_RETRYABLE | Q_ESCALATED | Q_RESOLVED | Q_ABANDONED

record queue_item =
  qi_id :: str
  qi_intent :: str
  qi_kind :: str
  qi_draft :: str
  qi_status :: item_status
  qi_attempts :: nat
  qi_token :: int
  qi_class :: "recon_class option"
  qi_resolution :: "str option"
  qi_reason :: "str option"
  qi_escalated_from :: "recon_class option"
  qi_enqueued :: "datetime option"
  qi_updated :: "datetime option"

fun class_value :: "recon_class \<Rightarrow> str" where
  "class_value RC_PRESENT = ''PRESENT''"
| "class_value RC_ABSENT = ''ABSENT''"
| "class_value RC_AMBIGUOUS = ''AMBIGUOUS''"
| "class_value RC_UNAVAILABLE = ''UNAVAILABLE''"

fun status_value :: "item_status \<Rightarrow> str" where
  "status_value Q_PENDING = ''PENDING''"
| "status_value Q_CLASSIFYING = ''CLASSIFYING''"
| "status_value Q_SAFE_RETRYABLE = ''SAFE_RETRYABLE''"
| "status_value Q_ESCALATED = ''ESCALATED''"
| "status_value Q_RESOLVED = ''RESOLVED''"
| "status_value Q_ABANDONED = ''ABANDONED''"

text \<open>\<^verbatim>\<open>_ALLOWED\<close>, \<^verbatim>\<open>_ACTIVE\<close> and \<^verbatim>\<open>_CLASSIFY_EVENTS\<close>; the last has no entry for
  two statuses, which \<^verbatim>\<open>_ALLOWED\<close> never lets through.\<close>

fun allowed :: "item_status \<Rightarrow> item_status set" where
  "allowed Q_PENDING = {Q_CLASSIFYING}"
| "allowed Q_CLASSIFYING = {Q_RESOLVED, Q_SAFE_RETRYABLE, Q_ESCALATED, Q_PENDING}"
| "allowed Q_SAFE_RETRYABLE = {Q_RESOLVED, Q_CLASSIFYING}"
| "allowed Q_ESCALATED = {Q_ABANDONED, Q_CLASSIFYING}"
| "allowed Q_RESOLVED = {}"
| "allowed Q_ABANDONED = {}"

definition active :: "item_status \<Rightarrow> bool" where
  "active st = (st \<in> {Q_PENDING, Q_CLASSIFYING, Q_SAFE_RETRYABLE, Q_ESCALATED})"

fun classify_event :: "item_status \<Rightarrow> str option" where
  "classify_event Q_RESOLVED = Some ''REC_CLASSIFY_RESOLVED''"
| "classify_event Q_SAFE_RETRYABLE = Some ''REC_CLASSIFY_SAFE_RETRYABLE''"
| "classify_event Q_ESCALATED = Some ''REC_CLASSIFY_ESCALATED''"
| "classify_event Q_PENDING = Some ''REC_CLASSIFY_REQUEUED''"
| "classify_event _ = None"

section \<open>The queue\<close>

record op_queue =
  oq_items :: "(str, queue_item) dict"
  oq_intents :: "(str, str) dict"
  oq_seq :: nat
  oq_audit :: audit_chain
  oq_log :: "queue_item list"

definition empty_queue :: op_queue where
  "empty_queue = \<lparr>oq_items = [], oq_intents = [], oq_seq = 1, oq_audit = empty_chain, oq_log = []\<rparr>"

type_synonym clock = "int \<times> int"

definition item_now :: "clock \<Rightarrow> datetime" where
  "item_now clk = Aware (fst clk) 0"

definition emit ::
  "libs \<Rightarrow> clock \<Rightarrow> str \<Rightarrow> queue_item \<Rightarrow> (str, json) dict \<Rightarrow> op_queue \<Rightarrow> unit res \<times> op_queue" where
  "emit L clk ev item extra q =
    (let payload = foldl (\<lambda>d (k, v). dput k v d)
           [(''item_id'', JStr (qi_id item)), (''intent_key'', JStr (qi_intent item)),
            (''status'', JStr (status_value (qi_status item)))] extra;
         (r, a) = audit_event L ev ''reconciliation-queue'' (Aware (snd clk) 0) payload (oq_audit q)
     in (r, q\<lparr>oq_audit := a\<rparr>))"

text \<open>Storing the new snapshot of an item, logging it, and emitting its event: the end of
  every transition.\<close>

definition commit ::
  "libs \<Rightarrow> clock \<Rightarrow> str \<Rightarrow> (str, json) dict \<Rightarrow> str \<Rightarrow> queue_item \<Rightarrow> op_queue
   \<Rightarrow> queue_item res \<times> op_queue" where
  "commit L clk ev extra item_id item q =
    (case emit L clk ev item extra
            (q\<lparr>oq_items := dput item_id item (oq_items q), oq_log := oq_log q @ [item]\<rparr>) of
       (Inl e, q') \<Rightarrow> (Inl e, q')
     | (Inr _, q') \<Rightarrow> (Inr item, q'))"

definition verify_audit :: "libs \<Rightarrow> op_queue \<Rightarrow> bool res" where
  "verify_audit L q = verify_chain L (oq_audit q)"

subsection \<open>Replay\<close>

text \<open>Audit records are not replayed: the new queue starts an empty chain.\<close>

definition replay_snapshot :: "op_queue \<Rightarrow> queue_item \<Rightarrow> op_queue" where
  "replay_snapshot q i =
    (let digits = filter is_digit (qi_id i) in
     q\<lparr>oq_items := dput (qi_id i) i (oq_items q),
       oq_intents := dput (qi_intent i) (qi_id i) (oq_intents q),
       oq_seq := (if digits \<noteq> [] then str_nat digits + 1 else oq_seq q)\<rparr>)"

definition replay :: "queue_item list \<Rightarrow> op_queue" where
  "replay log = foldl replay_snapshot empty_queue log"

subsection \<open>Enqueue and claims\<close>

definition enqueue ::
  "libs \<Rightarrow> clock \<Rightarrow> str \<Rightarrow> str \<Rightarrow> str \<Rightarrow> op_queue \<Rightarrow> queue_item res \<times> op_queue" where
  "enqueue L clk intent kind draft q =
    (case dget (oq_intents q) intent of
       Some existing_id \<Rightarrow>
         (case dget (oq_items q) existing_id of
            None \<Rightarrow> (Inl KeyError, q)
          | Some existing \<Rightarrow>
              if qi_draft existing \<noteq> draft \<or> qi_kind existing \<noteq> kind
              then (Inl InvalidTransition, q) else (Inr existing, q))
     | None \<Rightarrow>
         let item = \<lparr>qi_id = ref_num ''REC'' 6 (oq_seq q), qi_intent = intent, qi_kind = kind,
               qi_draft = draft, qi_status = Q_PENDING, qi_attempts = 0, qi_token = 0,
               qi_class = None, qi_resolution = None, qi_reason = None, qi_escalated_from = None,
               qi_enqueued = Some (item_now clk), qi_updated = Some (item_now clk)\<rparr> in
         commit L clk ''REC_ENQUEUE'' [(''kind'', JStr kind)] (qi_id item) item
           (q\<lparr>oq_seq := Suc (oq_seq q), oq_intents := dput intent (qi_id item) (oq_intents q)\<rparr>))"

definition sorted_items :: "op_queue \<Rightarrow> queue_item list" where
  "sorted_items q = sort_key qi_id (dvals (oq_items q))"

definition claim_next ::
  "libs \<Rightarrow> clock \<Rightarrow> int \<Rightarrow> op_queue \<Rightarrow> queue_item option res \<times> op_queue" where
  "claim_next L clk token q =
    (case find (\<lambda>i. qi_status i = Q_PENDING) (sorted_items q) of
       None \<Rightarrow> (Inr None, q)
     | Some item \<Rightarrow>
         (case commit L clk ''REC_CLAIM'' [(''fencing_token'', JInt token)] (qi_id item)
                 (item\<lparr>qi_status := Q_CLASSIFYING, qi_token := token,
                       qi_updated := Some (item_now clk)\<rparr>) q of
            (Inl e, q') \<Rightarrow> (Inl e, q')
          | (Inr i, q') \<Rightarrow> (Inr (Some i), q')))"

definition queue_get :: "op_queue \<Rightarrow> str \<Rightarrow> queue_item res" where
  "queue_get q item_id = (case dget (oq_items q) item_id of
     None \<Rightarrow> Inl InvalidTransition | Some i \<Rightarrow> Inr i)"

definition claim_item ::
  "libs \<Rightarrow> clock \<Rightarrow> str \<Rightarrow> int \<Rightarrow> op_queue \<Rightarrow> queue_item res \<times> op_queue" where
  "claim_item L clk item_id token q =
    (case queue_get q item_id of
       Inl e \<Rightarrow> (Inl e, q)
     | Inr item \<Rightarrow>
         if qi_status item \<in> {Q_RESOLVED, Q_ABANDONED} then (Inl InvalidTransition, q)
         else if qi_status item = Q_PENDING then (Inl InvalidTransition, q)
         else if token \<le> qi_token item then (Inl ItemLocked, q)
         else commit L clk ''REC_CLAIM''
                [(''fencing_token'', JInt token), (''override'', JStr ''claim_item'')] item_id
                (item\<lparr>qi_status := Q_CLASSIFYING, qi_token := token,
                      qi_updated := Some (item_now clk)\<rparr>) q)"

definition assert_owner :: "queue_item \<Rightarrow> int \<Rightarrow> unit res" where
  "assert_owner item token =
    (if qi_token item \<noteq> token \<or> token \<le> 0 then Inl ItemLocked else Inr ())"

subsection \<open>Transitions\<close>

definition json_opt :: "str option \<Rightarrow> json" where
  "json_opt x = (case x of None \<Rightarrow> JNull | Some s \<Rightarrow> JStr s)"

definition complete_classification ::
  "libs \<Rightarrow> clock \<Rightarrow> str \<Rightarrow> int \<Rightarrow> recon_class \<Rightarrow> item_status \<Rightarrow> str option \<Rightarrow> str option
   \<Rightarrow> op_queue \<Rightarrow> queue_item res \<times> op_queue" where
  "complete_classification L clk item_id token cl next_status resolution reason q =
    (case queue_get q item_id of
       Inl e \<Rightarrow> (Inl e, q)
     | Inr item \<Rightarrow>
       (case assert_owner item token of
          Inl e \<Rightarrow> (Inl e, q)
        | Inr _ \<Rightarrow>
          if next_status \<notin> allowed (qi_status item) then (Inl InvalidTransition, q)
          else if next_status = Q_RESOLVED \<and> cl \<in> {RC_ABSENT, RC_UNAVAILABLE}
          then (Inl InvalidTransition, q)
          else if next_status = Q_SAFE_RETRYABLE \<and> qi_escalated_from item = Some RC_AMBIGUOUS
          then (Inl InvalidTransition, q)
          else
            let updated = item\<lparr>qi_status := next_status, qi_attempts := qi_attempts item + 1,
                  qi_token := 0, qi_class := Some cl,
                  qi_resolution := (case resolution of Some r \<Rightarrow> Some r | None \<Rightarrow> qi_resolution item),
                  qi_reason := reason,
                  qi_escalated_from := (if next_status = Q_ESCALATED then Some cl
                                        else qi_escalated_from item),
                  qi_updated := Some (item_now clk)\<rparr> in
            (case classify_event next_status of
               None \<Rightarrow> (Inl KeyError, q\<lparr>oq_items := dput item_id updated (oq_items q),
                                        oq_log := oq_log q @ [updated]\<rparr>)
             | Some ev \<Rightarrow>
                 commit L clk ev [(''classification'', JStr (class_value cl)),
                   (''resolution_ref'', json_opt resolution)] item_id updated q)))"

definition mark_retried ::
  "libs \<Rightarrow> clock \<Rightarrow> str \<Rightarrow> str option \<Rightarrow> op_queue \<Rightarrow> queue_item res \<times> op_queue" where
  "mark_retried L clk item_id resolution q =
    (case queue_get q item_id of
       Inl e \<Rightarrow> (Inl e, q)
     | Inr item \<Rightarrow>
         if qi_status item \<noteq> Q_SAFE_RETRYABLE then (Inl InvalidTransition, q)
         else commit L clk ''REC_RETRIED'' [(''resolution_ref'', json_opt resolution)] item_id
                (item\<lparr>qi_status := Q_RESOLVED, qi_resolution := resolution,
                      qi_updated := Some (item_now clk)\<rparr>) q)"

definition abandon ::
  "libs \<Rightarrow> clock \<Rightarrow> str \<Rightarrow> str \<Rightarrow> op_queue \<Rightarrow> queue_item res \<times> op_queue" where
  "abandon L clk item_id reason q =
    (case queue_get q item_id of
       Inl e \<Rightarrow> (Inl e, q)
     | Inr item \<Rightarrow>
         if reason = [] \<or> strip reason = [] then (Inl InvalidTransition, q)
         else if qi_status item \<noteq> Q_ESCALATED then (Inl InvalidTransition, q)
         else commit L clk ''REC_ABANDONED'' [(''operator_reason'', JStr reason)] item_id
                (item\<lparr>qi_status := Q_ABANDONED, qi_reason := Some reason,
                      qi_updated := Some (item_now clk)\<rparr>) q)"

subsection \<open>Introspection\<close>

definition depth :: "op_queue \<Rightarrow> bool \<Rightarrow> nat" where
  "depth q include_terminal =
    (if include_terminal then length (oq_items q)
     else length (filter (\<lambda>i. active (qi_status i)) (dvals (oq_items q))))"

definition stuck_items :: "op_queue \<Rightarrow> queue_item list" where
  "stuck_items q = filter (\<lambda>i. qi_status i = Q_ESCALATED) (sorted_items q)"

definition pending_items :: "op_queue \<Rightarrow> queue_item list" where
  "pending_items q = filter (\<lambda>i. qi_status i = Q_PENDING) (sorted_items q)"

text \<open>Ages in microseconds; the time stamps are the queue's own, hence aware.\<close>

definition overdue_items :: "op_queue \<Rightarrow> int \<Rightarrow> int \<Rightarrow> queue_item list" where
  "overdue_items q now max_age =
    filter (\<lambda>i. active (qi_status i) \<and>
      (case qi_updated i of None \<Rightarrow> False | Some t \<Rightarrow> max_age < now - utc_us t)) (sorted_items q)"

section \<open>The state machine\<close>

text \<open>The abstract machine of one item: what its life may look like. A claim sets the token,
  completing a classification retires it.\<close>

inductive item_step :: "queue_item \<Rightarrow> queue_item \<Rightarrow> bool" where
  claim: "qi_status i = Q_PENDING \<Longrightarrow>
    item_step i (i\<lparr>qi_status := Q_CLASSIFYING, qi_token := token, qi_updated := t\<rparr>)"
| reclaim: "qi_status i \<in> {Q_CLASSIFYING, Q_SAFE_RETRYABLE, Q_ESCALATED} \<Longrightarrow> qi_token i < token \<Longrightarrow>
    item_step i (i\<lparr>qi_status := Q_CLASSIFYING, qi_token := token, qi_updated := t\<rparr>)"
| complete: "qi_token i = token \<Longrightarrow> 0 < token \<Longrightarrow> st \<in> allowed (qi_status i) \<Longrightarrow>
    \<not> (st = Q_RESOLVED \<and> cl \<in> {RC_ABSENT, RC_UNAVAILABLE}) \<Longrightarrow>
    \<not> (st = Q_SAFE_RETRYABLE \<and> qi_escalated_from i = Some RC_AMBIGUOUS) \<Longrightarrow>
    item_step i (i\<lparr>qi_status := st, qi_attempts := qi_attempts i + 1, qi_token := 0,
      qi_class := Some cl, qi_resolution := res, qi_reason := reason,
      qi_escalated_from := (if st = Q_ESCALATED then Some cl else qi_escalated_from i),
      qi_updated := t\<rparr>)"
| retried: "qi_status i = Q_SAFE_RETRYABLE \<Longrightarrow>
    item_step i (i\<lparr>qi_status := Q_RESOLVED, qi_resolution := res, qi_updated := t\<rparr>)"
| abandoned: "qi_status i = Q_ESCALATED \<Longrightarrow>
    item_step i (i\<lparr>qi_status := Q_ABANDONED, qi_reason := reason, qi_updated := t\<rparr>)"

inductive_cases item_stepE: "item_step i i'"

text \<open>The operations as steps of the queue.\<close>

datatype queue_op =
    Enqueue clock str str str
  | ClaimNext clock int
  | ClaimItem clock str int
  | Complete clock str int recon_class item_status "str option" "str option"
  | MarkRetried clock str "str option"
  | Abandon clock str str

fun queue_apply :: "libs \<Rightarrow> queue_op \<Rightarrow> op_queue \<Rightarrow> op_queue" where
  "queue_apply L (Enqueue clk k kd d) q = snd (enqueue L clk k kd d q)"
| "queue_apply L (ClaimNext clk t) q = snd (claim_next L clk t q)"
| "queue_apply L (ClaimItem clk i t) q = snd (claim_item L clk i t q)"
| "queue_apply L (Complete clk i t cl st res why) q =
     snd (complete_classification L clk i t cl st res why q)"
| "queue_apply L (MarkRetried clk i res) q = snd (mark_retried L clk i res q)"
| "queue_apply L (Abandon clk i why) q = snd (abandon L clk i why q)"

inductive queue_reach :: "libs \<Rightarrow> op_queue \<Rightarrow> op_queue \<Rightarrow> bool" for L q0 where
  refl: "queue_reach L q0 q0"
| step: "queue_reach L q0 q \<Longrightarrow> queue_reach L q0 (queue_apply L x q)"

lemma queue_reach_trans: "queue_reach L q1 q2 \<Longrightarrow> queue_reach L q0 q1 \<Longrightarrow> queue_reach L q0 q2"
  by (induction rule: queue_reach.induct) (auto intro: queue_reach.step)

section \<open>The invariant\<close>

definition audit_matches :: "audit_record \<Rightarrow> queue_item \<Rightarrow> bool" where
  "audit_matches r i =
    (dget (ar_payload r) ''item_id'' = Some (JStr (qi_id i))
     \<and> dget (ar_payload r) ''intent_key'' = Some (JStr (qi_intent i))
     \<and> dget (ar_payload r) ''status'' = Some (JStr (status_value (qi_status i))))"

definition items_of :: "queue_item list \<Rightarrow> (str, queue_item) dict" where
  "items_of log = foldl (\<lambda>d i. dput (qi_id i) i d) [] log"

definition intents_of :: "queue_item list \<Rightarrow> (str, str) dict" where
  "intents_of log = foldl (\<lambda>d i. dput (qi_intent i) (qi_id i) d) [] log"

definition item_ok :: "op_queue \<Rightarrow> str \<Rightarrow> queue_item \<Rightarrow> bool" where
  "item_ok q k i =
    (qi_id i = k \<and> dget (oq_intents q) (qi_intent i) = Some k
     \<and> (\<exists>n. 1 \<le> n \<and> n < oq_seq q \<and> k = ref_num ''REC'' 6 n)
     \<and> (qi_status i \<noteq> Q_CLASSIFYING \<longrightarrow> qi_token i = 0))"

definition rows_ok :: "op_queue \<Rightarrow> bool" where
  "rows_ok q =
    (dict_ok (oq_items q) \<and> dict_ok (oq_intents q) \<and> 1 \<le> oq_seq q
     \<and> (\<forall>k i. dget (oq_items q) k = Some i \<longrightarrow> item_ok q k i)
     \<and> (\<forall>key k. dget (oq_intents q) key = Some k \<longrightarrow>
          (\<exists>i. dget (oq_items q) k = Some i \<and> qi_intent i = key)))"

definition trail_ok :: "libs \<Rightarrow> op_queue \<Rightarrow> bool" where
  "trail_ok L q =
    (chain_ok L (oq_audit q) \<and> \<not> ac_fail (oq_audit q)
     \<and> list_all2 audit_matches (ac_records (oq_audit q)) (oq_log q))"

definition log_ok :: "op_queue \<Rightarrow> bool" where
  "log_ok q = (oq_items q = items_of (oq_log q) \<and> oq_intents q = intents_of (oq_log q))"

definition queue_ok :: "libs \<Rightarrow> op_queue \<Rightarrow> bool" where
  "queue_ok L q = (rows_ok q \<and> trail_ok L q \<and> log_ok q)"

lemma empty_queue_ok: "queue_ok L empty_queue"
  by (simp add: queue_ok_def rows_ok_def trail_ok_def log_ok_def empty_queue_def items_of_def
      intents_of_def)

lemma queue_okD:
  assumes "queue_ok L q"
  shows "chain_ok L (oq_audit q)" "\<not> ac_fail (oq_audit q)" "dict_ok (oq_items q)"
    "dget (oq_items q) k = Some i \<Longrightarrow> item_ok q k i"
    "dget (oq_intents q) key = Some k \<Longrightarrow> \<exists>i. dget (oq_items q) k = Some i \<and> qi_intent i = key"
  using assms by (simp_all add: queue_ok_def rows_ok_def trail_ok_def)

text \<open>The payload of an event: item, intent and status are never overwritten by the extras the
  queue passes, nor redacted.\<close>

lemma dget_redact:
  "dget (redact p) k = map_option (\<lambda>v. if lower k \<in> sensitive_keys then JStr ''[REDACTED]'' else v)
     (dget p k)"
  by (induction p) (auto simp: redact_def)

lemma dget_foldl_dput:
  "k \<notin> fst ` set xs \<Longrightarrow> dget (foldl (\<lambda>d (k, v). dput k v d) d xs) k = dget d k"
  by (induction xs arbitrary: d) auto

definition extras_ok :: "(str, json) dict \<Rightarrow> bool" where
  "extras_ok xs = ({''item_id'', ''intent_key'', ''status''} \<inter> fst ` set xs = {})"

lemma plain_keys: "lower ''item_id'' \<notin> sensitive_keys" "lower ''intent_key'' \<notin> sensitive_keys"
  "lower ''status'' \<notin> sensitive_keys"
proof -
  have "lower s = s" if "list_all (\<lambda>c. (of_char c :: nat) < 192 \<and> \<not> is_upper c) s" for s
    using that by (induction s) (auto simp: lower_def lower_char_def Let_def)
  then have "lower ''item_id'' = ''item_id''" "lower ''intent_key'' = ''intent_key''"
    "lower ''status'' = ''status''"
    by (simp_all add: is_upper_def)
  then show "lower ''item_id'' \<notin> sensitive_keys" "lower ''intent_key'' \<notin> sensitive_keys"
    "lower ''status'' \<notin> sensitive_keys"
    by (simp_all add: sensitive_keys_def)
qed

lemma emit_ok:
  assumes "chain_ok L (oq_audit q)" "\<not> ac_fail (oq_audit q)" "libs_ok L" "extras_ok extra"
  shows "\<exists>a r. emit L clk ev item extra q = (Inr (), q\<lparr>oq_audit := a\<rparr>) \<and> chain_ok L a \<and> \<not> ac_fail a
    \<and> ac_records a = ac_records (oq_audit q) @ [r] \<and> audit_matches r item"
proof -
  define p where "p = foldl (\<lambda>d (k, v). dput k v d)
           [(''item_id'', JStr (qi_id item)), (''intent_key'', JStr (qi_intent item)),
            (''status'', JStr (status_value (qi_status item)))] extra"
  obtain u a where e: "audit_event L ev ''reconciliation-queue'' (Aware (snd clk) 0) p (oq_audit q)
      = (u, a)" by fastforce
  have u: "u = Inr ()"
    using audit_event_total [OF assms(1,3) _ assms(2), of "Aware (snd clk) 0"] e by (metis fst_conv is_aware.simps(1))
  obtain r where r: "ac_records a = ac_records (oq_audit q) @ [r]" "ar_payload r = redact p"
    using audit_event_cases(2) [OF e [unfolded u]] by blast
  have "audit_matches r item"
    using assms(4) plain_keys
    by (simp add: audit_matches_def r(2) dget_redact p_def dget_foldl_dput extras_ok_def)
  moreover have "emit L clk ev item extra q = (Inr (), q\<lparr>oq_audit := a\<rparr>)"
    using e u by (simp add: emit_def p_def)
  moreover have "chain_ok L a" "\<not> ac_fail a"
    using audit_event_ok [OF assms(1)] audit_event_fail assms(2) e by (metis snd_conv)+
  ultimately show ?thesis using r(1) by blast
qed

section \<open>Refinement: every operation is one step of one item\<close>

lemma commit_ok:
  assumes "chain_ok L (oq_audit q)" "\<not> ac_fail (oq_audit q)" "libs_ok L" "extras_ok extra"
  shows "\<exists>a r. commit L clk ev extra k item q
      = (Inr item, q\<lparr>oq_items := dput k item (oq_items q), oq_log := oq_log q @ [item], oq_audit := a\<rparr>)
    \<and> chain_ok L a \<and> \<not> ac_fail a
    \<and> ac_records a = ac_records (oq_audit q) @ [r] \<and> audit_matches r item"
  using emit_ok [of L "q\<lparr>oq_items := dput k item (oq_items q), oq_log := oq_log q @ [item]\<rparr>" extra clk ev item]
    assms by (auto simp: commit_def)

definition moved :: "libs \<Rightarrow> op_queue \<Rightarrow> str \<Rightarrow> queue_item \<Rightarrow> queue_item \<Rightarrow> op_queue \<Rightarrow> bool" where
  "moved L q k i i' q' =
    (dget (oq_items q) k = Some i \<and> item_step i i'
     \<and> (\<exists>a r. q' = q\<lparr>oq_items := dput k i' (oq_items q), oq_log := oq_log q @ [i'], oq_audit := a\<rparr>
          \<and> chain_ok L a \<and> \<not> ac_fail a
          \<and> ac_records a = ac_records (oq_audit q) @ [r] \<and> audit_matches r i'))"

definition added :: "libs \<Rightarrow> op_queue \<Rightarrow> queue_item \<Rightarrow> op_queue \<Rightarrow> bool" where
  "added L q i q' =
    (dget (oq_intents q) (qi_intent i) = None \<and> qi_id i = ref_num ''REC'' 6 (oq_seq q)
     \<and> qi_status i = Q_PENDING \<and> qi_token i = 0 \<and> qi_attempts i = 0 \<and> qi_escalated_from i = None
     \<and> (\<exists>a r. q' = q\<lparr>oq_seq := Suc (oq_seq q), oq_intents := dput (qi_intent i) (qi_id i) (oq_intents q),
            oq_items := dput (qi_id i) i (oq_items q), oq_log := oq_log q @ [i], oq_audit := a\<rparr>
          \<and> chain_ok L a \<and> \<not> ac_fail a
          \<and> ac_records a = ac_records (oq_audit q) @ [r] \<and> audit_matches r i))"

lemma moved_commit:
  assumes "queue_ok L q" "libs_ok L" "extras_ok extra" "dget (oq_items q) k = Some i" "item_step i i'"
  shows "moved L q k i i' (snd (commit L clk ev extra k i' q))
    \<and> fst (commit L clk ev extra k i' q) = Inr i'"
proof -
  from commit_ok [OF queue_okD(1,2) [OF assms(1)] assms(2,3), of clk ev k i'] assms(4,5)
  show ?thesis unfolding moved_def by auto
qed

lemma sorted_items_mem:
  "queue_ok L q \<Longrightarrow> i \<in> set (sorted_items q) \<longleftrightarrow> dget (oq_items q) (qi_id i) = Some i"
  using queue_okD(4) [of L q] by (auto simp: sorted_items_def queue_okD(3) dict_ok_vals item_ok_def)

lemma enqueue_cases:
  assumes "queue_ok L q" "libs_ok L"
  shows "(enqueue L clk intent kind draft q = (Inl InvalidTransition, q))
    \<or> (\<exists>i. enqueue L clk intent kind draft q = (Inr i, q) \<and> qi_draft i = draft \<and> qi_kind i = kind
         \<and> qi_intent i = intent \<and> dget (oq_items q) (qi_id i) = Some i)
    \<or> (\<exists>i q'. enqueue L clk intent kind draft q = (Inr i, q') \<and> added L q i q'
         \<and> qi_draft i = draft \<and> qi_kind i = kind \<and> qi_intent i = intent)"
proof (cases "dget (oq_intents q) intent")
  case (Some k)
  with assms(1) obtain i where "dget (oq_items q) k = Some i" "qi_intent i = intent" "qi_id i = k"
    using queue_okD(4,5) [OF assms(1)] unfolding item_ok_def by metis
  with Some show ?thesis by (simp add: enqueue_def)
next
  case None
  define i where "i = \<lparr>qi_id = ref_num ''REC'' 6 (oq_seq q), qi_intent = intent, qi_kind = kind,
               qi_draft = draft, qi_status = Q_PENDING, qi_attempts = 0, qi_token = 0,
               qi_class = None, qi_resolution = None, qi_reason = None, qi_escalated_from = None,
               qi_enqueued = Some (item_now clk), qi_updated = Some (item_now clk)\<rparr>"
  let ?q = "q\<lparr>oq_seq := Suc (oq_seq q), oq_intents := dput intent (qi_id i) (oq_intents q)\<rparr>"
  have e: "enqueue L clk intent kind draft q
      = commit L clk ''REC_ENQUEUE'' [(''kind'', JStr kind)] (qi_id i) i ?q"
    using None by (simp add: enqueue_def i_def [symmetric])
  have "chain_ok L (oq_audit ?q)" "\<not> ac_fail (oq_audit ?q)" using queue_okD(1,2) [OF assms(1)] by simp_all
  from commit_ok [OF this assms(2), of "[(''kind'', JStr kind)]" clk "''REC_ENQUEUE''" "qi_id i" i]
  obtain q' where "enqueue L clk intent kind draft q = (Inr i, q')" "added L q i q'"
    unfolding e added_def using None by (auto simp: extras_ok_def i_def)
  then show ?thesis by (auto simp: i_def)
qed

lemma claim_next_cases:
  assumes "queue_ok L q" "libs_ok L"
  shows "(claim_next L clk token q = (Inr None, q) \<and> (\<forall>i \<in> set (sorted_items q). qi_status i \<noteq> Q_PENDING))
    \<or> (\<exists>i i' q'. claim_next L clk token q = (Inr (Some i'), q') \<and> moved L q (qi_id i) i i' q'
         \<and> qi_status i = Q_PENDING \<and> qi_status i' = Q_CLASSIFYING \<and> qi_token i' = token
         \<and> find (\<lambda>i. qi_status i = Q_PENDING) (sorted_items q) = Some i)"
proof (cases "find (\<lambda>i. qi_status i = Q_PENDING) (sorted_items q)")
  case None
  then have "\<forall>i \<in> set (sorted_items q). qi_status i \<noteq> Q_PENDING" by (auto simp: find_None_iff)
  with None show ?thesis by (simp add: claim_next_def)
next
  case (Some i)
  then have "i \<in> set (sorted_items q) \<and> qi_status i = Q_PENDING" by (auto simp: find_Some_iff)
  then have i: "qi_status i = Q_PENDING" "dget (oq_items q) (qi_id i) = Some i"
    using sorted_items_mem [OF assms(1)] by simp_all
  let ?i = "i\<lparr>qi_status := Q_CLASSIFYING, qi_token := token, qi_updated := Some (item_now clk)\<rparr>"
  from moved_commit [OF assms, of "[(''fencing_token'', JInt token)]", OF _ i(2)
      item_step.claim [OF i(1), of "Some (item_now clk)" token], where clk = clk and ev = "''REC_CLAIM''"]
  have "moved L q (qi_id i) i ?i (snd (claim_next L clk token q))
      \<and> fst (claim_next L clk token q) = Inr (Some ?i)"
    unfolding claim_next_def Some by (auto simp: extras_ok_def split: prod.splits sum.splits)
  with i Some show ?thesis
    by (intro disjI2 exI [of _ i] exI [of _ ?i] exI [of _ "snd (claim_next L clk token q)"])
      (simp add: prod_eq_iff)
qed

text \<open>The other operations either raise and leave the queue as it is, or move the item they
  name.\<close>

definition raises_or_moves ::
  "libs \<Rightarrow> op_queue \<Rightarrow> str \<Rightarrow> queue_item res \<times> op_queue \<Rightarrow> bool" where
  "raises_or_moves L q k res =
    ((\<exists>e. res = (Inl e, q)) \<or> (\<exists>i i'. fst res = Inr i' \<and> moved L q k i i' (snd res)))"

lemma commit_moves:
  assumes "queue_ok L q" "libs_ok L" "extras_ok extra" "dget (oq_items q) k = Some i" "item_step i i'"
  shows "raises_or_moves L q k (commit L clk ev extra k i' q)"
  using moved_commit [OF assms, of clk ev] unfolding raises_or_moves_def by blast

lemma claim_item_cases:
  assumes "queue_ok L q" "libs_ok L"
  shows "raises_or_moves L q k (claim_item L clk k token q)"
proof (cases "dget (oq_items q) k")
  case (Some i)
  have e: "extras_ok [(''fencing_token'', JInt token), (''override'', JStr ''claim_item'')]"
    by (simp add: extras_ok_def)
  show ?thesis
  proof (cases "qi_status i \<in> {Q_CLASSIFYING, Q_SAFE_RETRYABLE, Q_ESCALATED} \<and> qi_token i < token")
    case True
    then have "item_step i (i\<lparr>qi_status := Q_CLASSIFYING, qi_token := token,
        qi_updated := Some (item_now clk)\<rparr>)" by (intro item_step.reclaim) simp_all
    from commit_moves [OF assms e Some this] True Some show ?thesis
      by (auto simp: claim_item_def queue_get_def)
  next
    case False
    then show ?thesis using Some
      by (cases "qi_status i") (auto simp: claim_item_def queue_get_def raises_or_moves_def)
  qed
qed (simp add: claim_item_def queue_get_def raises_or_moves_def)

lemma allowed_event:
  "0 < qi_token i \<Longrightarrow> item_ok q k i \<Longrightarrow> st \<in> allowed (qi_status i) \<Longrightarrow> \<exists>ev. classify_event st = Some ev"
  by (cases "qi_status i") (auto simp: item_ok_def)

lemma complete_cases:
  assumes "queue_ok L q" "libs_ok L"
  shows "raises_or_moves L q k (complete_classification L clk k token cl st res why q)"
proof (cases "dget (oq_items q) k")
  case (Some i)
  have ok: "item_ok q k i" using queue_okD(4) [OF assms(1) Some] .
  have e: "extras_ok [(''classification'', JStr (class_value cl)), (''resolution_ref'', json_opt res)]"
    by (simp add: extras_ok_def)
  define i' where "i' = i\<lparr>qi_status := st, qi_attempts := qi_attempts i + 1,
      qi_token := 0, qi_class := Some cl,
      qi_resolution := (case res of Some r \<Rightarrow> Some r | None \<Rightarrow> qi_resolution i), qi_reason := why,
      qi_escalated_from := (if st = Q_ESCALATED then Some cl else qi_escalated_from i),
      qi_updated := Some (item_now clk)\<rparr>"
  show ?thesis
  proof (cases "assert_owner i token = Inr () \<and> st \<in> allowed (qi_status i)
      \<and> \<not> (st = Q_RESOLVED \<and> cl \<in> {RC_ABSENT, RC_UNAVAILABLE})
      \<and> \<not> (st = Q_SAFE_RETRYABLE \<and> qi_escalated_from i = Some RC_AMBIGUOUS)")
    case True
    then have t: "qi_token i = token" "0 < token" by (auto simp: assert_owner_def split: if_splits)
    obtain ev where ev: "classify_event st = Some ev" using allowed_event [OF _ ok] True t by blast
    have "item_step i i'" unfolding i'_def using t True by (intro item_step.complete) auto
    from commit_moves [OF assms e Some this] have
      "raises_or_moves L q k (commit L clk ev [(''classification'', JStr (class_value cl)),
          (''resolution_ref'', json_opt res)] k i' q)" .
    moreover have "complete_classification L clk k token cl st res why q
        = commit L clk ev [(''classification'', JStr (class_value cl)),
          (''resolution_ref'', json_opt res)] k i' q"
      using True Some ev by (auto simp: complete_classification_def queue_get_def i'_def Let_def)
    ultimately show ?thesis by simp
  next
    case False
    then show ?thesis using Some
      by (auto simp: complete_classification_def queue_get_def raises_or_moves_def assert_owner_def
          split: if_splits)
  qed
qed (simp add: complete_classification_def queue_get_def raises_or_moves_def)

lemma retried_cases:
  assumes "queue_ok L q" "libs_ok L"
  shows "raises_or_moves L q k (mark_retried L clk k res q)"
proof (cases "dget (oq_items q) k")
  case (Some i)
  have e: "extras_ok [(''resolution_ref'', json_opt res)]" by (simp add: extras_ok_def)
  show ?thesis
  proof (cases "qi_status i = Q_SAFE_RETRYABLE")
    case True
    from commit_moves [OF assms e Some item_step.retried [OF True]] True Some show ?thesis
      by (simp add: mark_retried_def queue_get_def)
  qed (simp add: mark_retried_def queue_get_def raises_or_moves_def Some)
qed (simp add: mark_retried_def queue_get_def raises_or_moves_def)

lemma abandon_cases:
  assumes "queue_ok L q" "libs_ok L"
  shows "raises_or_moves L q k (abandon L clk k why q)"
proof (cases "dget (oq_items q) k")
  case (Some i)
  have e: "extras_ok [(''operator_reason'', JStr why)]" by (simp add: extras_ok_def)
  show ?thesis
  proof (cases "qi_status i = Q_ESCALATED")
    case True
    from commit_moves [OF assms e Some item_step.abandoned [OF True]] True Some show ?thesis
      by (simp add: abandon_def queue_get_def) (simp add: raises_or_moves_def)
  qed (simp add: abandon_def queue_get_def raises_or_moves_def Some)
qed (simp add: abandon_def queue_get_def raises_or_moves_def)

text \<open>Put together: the queue refines the machine of its items.\<close>

lemma queue_apply_cases:
  assumes "queue_ok L q" "libs_ok L"
  obtains "queue_apply L x q = q"
  | i where "added L q i (queue_apply L x q)"
  | k i i' where "moved L q k i i' (queue_apply L x q)"
proof (cases x)
  case (Enqueue clk k kd d)
  with enqueue_cases [OF assms, of clk k kd d] that show thesis by fastforce
next
  case (ClaimNext clk t)
  with claim_next_cases [OF assms, of clk t] that show thesis by fastforce
next
  case (ClaimItem clk k t)
  with claim_item_cases [OF assms, of k clk t] that show thesis by (auto simp: raises_or_moves_def)
next
  case (Complete clk k t cl st res why)
  with complete_cases [OF assms, of k clk t cl st res why] that show thesis
    by (auto simp: raises_or_moves_def)
next
  case (MarkRetried clk k res)
  with retried_cases [OF assms, of k clk res] that show thesis by (auto simp: raises_or_moves_def)
next
  case (Abandon clk k why)
  with abandon_cases [OF assms, of k clk why] that show thesis by (auto simp: raises_or_moves_def)
qed

section \<open>The invariant is kept\<close>

lemma item_step_frame:
  "item_step i i' \<Longrightarrow> qi_id i' = qi_id i \<and> qi_intent i' = qi_intent i \<and> qi_kind i' = qi_kind i
     \<and> qi_draft i' = qi_draft i \<and> qi_enqueued i' = qi_enqueued i"
  by (induction rule: item_step.induct) simp_all

lemma item_step_token:
  "item_step i i' \<Longrightarrow> (qi_status i \<noteq> Q_CLASSIFYING \<longrightarrow> qi_token i = 0) \<Longrightarrow>
   (qi_status i' \<noteq> Q_CLASSIFYING \<longrightarrow> qi_token i' = 0)"
  by (induction rule: item_step.induct) auto

lemma moved_ok:
  assumes "queue_ok L q" "moved L q k i i' q'"
  shows "queue_ok L q'"
proof -
  from assms(2) obtain a r where i: "dget (oq_items q) k = Some i" "item_step i i'"
    and q': "q' = q\<lparr>oq_items := dput k i' (oq_items q), oq_log := oq_log q @ [i'], oq_audit := a\<rparr>"
    and a: "chain_ok L a" "\<not> ac_fail a" "ac_records a = ac_records (oq_audit q) @ [r]" "audit_matches r i'"
    by (auto simp: moved_def)
  have ok: "item_ok q k i" using queue_okD(4) [OF assms(1) i(1)] .
  note fr = item_step_frame [OF i(2)]
  have ok': "item_ok q k i'" using ok fr item_step_token [OF i(2)] by (auto simp: item_ok_def)
  have same: "item_ok q' k2 j = item_ok q k2 j" for k2 j by (simp add: item_ok_def q')
  have rows: "rows_ok q" "trail_ok L q" "log_ok q" using assms(1) by (simp_all add: queue_ok_def)
  have "rows_ok q'"
    using rows(1) ok' i(1) fr unfolding rows_ok_def same by (auto simp: q') (metis option.inject)
  moreover have "trail_ok L q'"
    using rows(2) a by (simp add: trail_ok_def q' list_all2_appendI)
  moreover have "intents_of (oq_log q @ [i']) = oq_intents q"
  proof -
    have "intents_of (oq_log q @ [i']) = dput (qi_intent i') (qi_id i') (oq_intents q)"
      using rows(3) by (simp add: intents_of_def log_ok_def)
    also have "\<dots> = oq_intents q"
      using ok' by (intro update_triv) (simp add: item_ok_def)
    finally show ?thesis .
  qed
  then have "log_ok q'"
    using rows(3) ok' by (simp add: log_ok_def q' items_of_def item_ok_def)
  ultimately show ?thesis by (simp add: queue_ok_def)
qed

lemma added_ok:
  assumes "queue_ok L q" "added L q i q'"
  shows "queue_ok L q'"
proof -
  from assms(2) obtain a r where n: "dget (oq_intents q) (qi_intent i) = None"
      "qi_id i = ref_num ''REC'' 6 (oq_seq q)" "qi_status i = Q_PENDING" "qi_token i = 0"
    and q': "q' = q\<lparr>oq_seq := Suc (oq_seq q), oq_intents := dput (qi_intent i) (qi_id i) (oq_intents q),
            oq_items := dput (qi_id i) i (oq_items q), oq_log := oq_log q @ [i], oq_audit := a\<rparr>"
    and a: "chain_ok L a" "\<not> ac_fail a" "ac_records a = ac_records (oq_audit q) @ [r]" "audit_matches r i"
    by (auto simp: added_def)
  have old: "item_ok q k j" if "dget (oq_items q) k = Some j" for k j
    by (rule queue_okD(4) [OF assms(1) that])
  have rows: "rows_ok q" "trail_ok L q" "log_ok q" using assms(1) by (simp_all add: queue_ok_def)
  have fresh: "dget (oq_items q) (qi_id i) = None"
  proof (rule ccontr)
    assume "dget (oq_items q) (qi_id i) \<noteq> None"
    then obtain j where "item_ok q (qi_id i) j" using old by blast
    then show False using n(2) by (auto simp: item_ok_def)
  qed
  have "item_ok q' k j" if "dget (oq_items q') k = Some j" for k j
  proof (cases "k = qi_id i")
    case True
    with that q' have "j = i" by simp
    with True n rows(1) show ?thesis by (auto simp: item_ok_def q' rows_ok_def intro!: exI [of _ "oq_seq q"])
  next
    case False
    with that q' have "item_ok q k j" by (intro old) simp
    moreover from this n(1) have "qi_intent j \<noteq> qi_intent i" by (auto simp: item_ok_def)
    ultimately show ?thesis by (auto simp: item_ok_def q' less_SucI)
  qed
  moreover have "\<exists>j. dget (oq_items q') k = Some j \<and> qi_intent j = key"
    if "dget (oq_intents q') key = Some k" for key k
  proof (cases "key = qi_intent i")
    case False
    with that q' obtain j where "dget (oq_items q) k = Some j" "qi_intent j = key"
      using queue_okD(5) [OF assms(1), of key k] by auto
    with fresh q' show ?thesis by auto
  qed (use that q' in auto)
  ultimately have "rows_ok q'"
    using rows(1) unfolding rows_ok_def by (simp add: q')
  moreover have "trail_ok L q'" using rows(2) a by (simp add: trail_ok_def q' list_all2_appendI)
  moreover have "log_ok q'" using rows(3) by (simp add: log_ok_def q' items_of_def intents_of_def)
  ultimately show ?thesis by (simp add: queue_ok_def)
qed

lemma queue_apply_ok: "queue_ok L q \<Longrightarrow> libs_ok L \<Longrightarrow> queue_ok L (queue_apply L x q)"
  by (rule queue_apply_cases [of L q x]) (auto intro: moved_ok added_ok)

lemma queue_reach_ok: "queue_reach L q q' \<Longrightarrow> libs_ok L \<Longrightarrow> queue_ok L q \<Longrightarrow> queue_ok L q'"
  by (induction rule: queue_reach.induct) (auto intro: queue_apply_ok)

section \<open>What the queue guarantees\<close>

lemma replay_items:
  "oq_items (foldl replay_snapshot q log) = foldl (\<lambda>d i. dput (qi_id i) i d) (oq_items q) log
   \<and> oq_intents (foldl replay_snapshot q log)
       = foldl (\<lambda>d i. dput (qi_intent i) (qi_id i) d) (oq_intents q) log"
  by (induction log arbitrary: q) (auto simp: replay_snapshot_def Let_def)

text \<open>C25. In every state a queue can reach its audit chain verifies, holds exactly one record
  per logged transition, naming that item, its intent and its new status, and replaying the
  transition log after a restart restores every item and every intent binding.\<close>

theorem queue_trail:
  assumes "libs_ok L" "queue_reach L empty_queue q"
  shows "verify_audit L q = Inr True
    \<and> list_all2 audit_matches (ac_records (oq_audit q)) (oq_log q)
    \<and> oq_items (replay (oq_log q)) = oq_items q \<and> oq_intents (replay (oq_log q)) = oq_intents q"
proof -
  have "queue_ok L q" using queue_reach_ok [OF assms(2,1) empty_queue_ok] .
  then show ?thesis
    using replay_items [of empty_queue "oq_log q"]
    by (simp add: queue_ok_def trail_ok_def log_ok_def chain_ok_def verify_audit_def replay_def
        empty_queue_def items_of_def intents_of_def)
qed

definition demo_op :: queue_op where
  "demo_op = Enqueue (0, 0) ''sha256:1'' ''INVOICE_POST'' ''D-1''"

lemma demo_reach: "queue_reach demo_libs empty_queue (queue_apply demo_libs demo_op empty_queue)"
  by (intro queue_reach.step queue_reach.refl)

theorem queue_trail_witness:
  "verify_audit demo_libs (queue_apply demo_libs demo_op empty_queue) = Inr True"
  using queue_trail [OF demo_libs_ok demo_reach] by blast

text \<open>C26. The queue implements the state machine of its items: an operation, from any state it
  can reach, leaves everything as it was, or adds one fresh \<^verbatim>\<open>PENDING\<close> item for an intent
  that had none, or moves the one item it names by one step of the machine, appending that
  snapshot to the log and leaving every other item alone.\<close>

theorem queue_refines_machine:
  assumes "libs_ok L" "queue_reach L empty_queue q"
  shows "queue_apply L x q = q
    \<or> (\<exists>i. added L q i (queue_apply L x q))
    \<or> (\<exists>k i i'. moved L q k i i' (queue_apply L x q))"
  using queue_apply_cases [OF queue_reach_ok [OF assms(2,1) empty_queue_ok] assms(1)] by metis

theorem queue_refines_machine_witness:
  "queue_apply demo_libs (Abandon (1, 1) ''REC-000001'' ''why'') empty_queue = empty_queue
   \<or> (\<exists>i. added demo_libs empty_queue i
         (queue_apply demo_libs (Abandon (1, 1) ''REC-000001'' ''why'') empty_queue))
   \<or> (\<exists>k i i'. moved demo_libs empty_queue k i i'
         (queue_apply demo_libs (Abandon (1, 1) ''REC-000001'' ''why'') empty_queue))"
  by (rule queue_refines_machine [OF demo_libs_ok queue_reach.refl])

lemma terminal_no_step:
  "item_step i i' \<Longrightarrow> qi_status i \<in> {Q_RESOLVED, Q_ABANDONED} \<Longrightarrow> False"
  by (induction rule: item_step.induct) auto

lemma terminal_apply:
  assumes "queue_ok L q" "libs_ok L" "dget (oq_items q) k = Some i"
    "qi_status i \<in> {Q_RESOLVED, Q_ABANDONED}"
  shows "dget (oq_items (queue_apply L x q)) k = Some i"
proof (rule queue_apply_cases [OF assms(1,2), of x])
  fix j assume a: "added L q j (queue_apply L x q)"
  then obtain s where s: "oq_items (queue_apply L x q) = dput (qi_id j) j (oq_items q)"
    "dget (oq_intents q) (qi_intent j) = None" "qi_id j = ref_num ''REC'' 6 (oq_seq q)"
    by (auto simp: added_def)
  have "k \<noteq> qi_id j" using queue_okD(4) [OF assms(1,3)] s(3) by (auto simp: item_ok_def)
  with s(1) assms(3) show ?thesis by simp
next
  fix k' j j' assume m: "moved L q k' j j' (queue_apply L x q)"
  then have "item_step j j'" "dget (oq_items q) k' = Some j" by (simp_all add: moved_def)
  then have "k' \<noteq> k" using terminal_no_step [of j j'] assms(3,4) by force
  with m assms(3) show ?thesis by (auto simp: moved_def)
qed (use assms(3) in simp)

text \<open>A resolved or abandoned item is final: no operation with any token changes it or
  removes it.\<close>

theorem queue_terminal_frozen:
  assumes "libs_ok L" "queue_reach L empty_queue q" "queue_reach L q q'"
    "dget (oq_items q) k = Some i" "qi_status i \<in> {Q_RESOLVED, Q_ABANDONED}"
  shows "dget (oq_items q') k = Some i"
  using assms(3)
proof (induction rule: queue_reach.induct)
  case (step q1 x)
  have "queue_ok L q1"
    using queue_reach_ok [OF queue_reach_trans [OF step.hyps assms(2)] assms(1) empty_queue_ok] .
  then show ?case using terminal_apply [OF _ assms(1) step.IH assms(5)] by blast
qed (rule assms(4))

text \<open>A classification that resolves: PRESENT or AMBIGUOUS, or after a verified retry.\<close>

definition resolved_ok :: "op_queue \<Rightarrow> bool" where
  "resolved_ok q = (\<forall>i \<in> set (oq_log q). qi_status i = Q_RESOLVED \<longrightarrow>
     qi_class i \<in> {Some RC_PRESENT, Some RC_AMBIGUOUS}
     \<or> (\<exists>j \<in> set (oq_log q). qi_id j = qi_id i \<and> qi_status j = Q_SAFE_RETRYABLE))"

lemma items_logged: "log_ok q \<Longrightarrow> dget (oq_items q) k = Some i \<Longrightarrow> i \<in> set (oq_log q)"
proof -
  have "dget (foldl (\<lambda>d i. dput (qi_id i) i d) d log) k = Some i \<Longrightarrow> i \<in> set log \<or> dget d k = Some i"
    for d log
    by (induction log arbitrary: d) (fastforce split: if_splits)+
  from this [of "[]" "oq_log q"] show "log_ok q \<Longrightarrow> dget (oq_items q) k = Some i \<Longrightarrow> i \<in> set (oq_log q)"
    by (simp add: log_ok_def items_of_def)
qed

lemma item_step_resolved:
  "item_step i i' \<Longrightarrow> qi_status i' = Q_RESOLVED \<Longrightarrow>
   qi_status i = Q_SAFE_RETRYABLE \<or> qi_class i' \<in> {Some RC_PRESENT, Some RC_AMBIGUOUS}"
proof (induction rule: item_step.induct)
  case (complete i token st cl res reason t)
  then show ?case by (cases cl) auto
qed auto

lemma resolved_apply:
  assumes "queue_ok L q" "libs_ok L" "resolved_ok q"
  shows "resolved_ok (queue_apply L x q)"
proof (rule queue_apply_cases [OF assms(1,2), of x])
  fix j assume "added L q j (queue_apply L x q)"
  then show ?thesis using assms(3) by (auto simp: added_def resolved_ok_def)
next
  fix k j j' assume m: "moved L q k j j' (queue_apply L x q)"
  then have l: "oq_log (queue_apply L x q) = oq_log q @ [j']" "item_step j j'" "dget (oq_items q) k = Some j"
    by (auto simp: moved_def)
  have "j \<in> set (oq_log q)" using items_logged l(3) assms(1) by (auto simp: queue_ok_def)
  moreover have "qi_id j' = qi_id j" using item_step_frame [OF l(2)] by simp
  ultimately show ?thesis
    using assms(3) item_step_resolved [OF l(2)] unfolding resolved_ok_def l(1) by auto
qed (use assms(3) in simp)

text \<open>Nothing is resolved on an ABSENT or UNAVAILABLE answer: an item of a reachable queue
  that is \<^verbatim>\<open>RESOLVED\<close> was classified PRESENT or AMBIGUOUS, or it stood in the verified
  retry lane \<^verbatim>\<open>SAFE_RETRYABLE\<close> before.\<close>

theorem queue_resolution_guard:
  assumes "libs_ok L" "queue_reach L empty_queue q" "dget (oq_items q) k = Some i"
    "qi_status i = Q_RESOLVED"
  shows "qi_class i \<in> {Some RC_PRESENT, Some RC_AMBIGUOUS}
    \<or> (\<exists>j \<in> set (oq_log q). qi_id j = k \<and> qi_status j = Q_SAFE_RETRYABLE)"
proof -
  have "queue_ok L q \<and> resolved_ok q"
    using assms(2)
  proof (induction rule: queue_reach.induct)
    case refl
    show ?case by (simp add: empty_queue_ok resolved_ok_def) (simp add: empty_queue_def)
  next
    case (step q x)
    then show ?case using queue_apply_ok resolved_apply assms(1) by blast
  qed
  moreover from this have "qi_id i = k" using queue_okD(4) assms(3) by (auto simp: item_ok_def)
  ultimately show ?thesis
    using items_logged [of q k i] assms(3,4) by (auto simp: queue_ok_def resolved_ok_def)
qed

section \<open>A queue at work\<close>

lemma commit_state [simp]:
  "oq_items (snd (commit L clk ev extra k i q)) = dput k i (oq_items q)"
  "oq_log (snd (commit L clk ev extra k i q)) = oq_log q @ [i]"
  "oq_intents (snd (commit L clk ev extra k i q)) = oq_intents q"
  "oq_seq (snd (commit L clk ev extra k i q)) = oq_seq q"
  by (simp_all add: commit_def emit_def Let_def split: prod.splits sum.splits)

lemma commit_eq:
  "commit L clk ev extra k i q = (r, q') \<Longrightarrow>
     oq_items q' = dput k i (oq_items q) \<and> oq_log q' = oq_log q @ [i]
     \<and> oq_intents q' = oq_intents q \<and> oq_seq q' = oq_seq q"
  using commit_state by (metis snd_conv)

lemma claim_next_state:
  "snd (claim_next L clk token q) =
    (case find (\<lambda>i. qi_status i = Q_PENDING) (sorted_items q) of None \<Rightarrow> q
     | Some item \<Rightarrow> snd (commit L clk ''REC_CLAIM'' [(''fencing_token'', JInt token)] (qi_id item)
                 (item\<lparr>qi_status := Q_CLASSIFYING, qi_token := token,
                       qi_updated := Some (item_now clk)\<rparr>) q))"
  by (simp add: claim_next_def split: option.splits prod.splits sum.splits)

definition demo_id :: str where "demo_id = ref_num ''REC'' 6 1"

definition demo_item :: queue_item where
  "demo_item = \<lparr>qi_id = demo_id, qi_intent = ''sha256:1'', qi_kind = ''INVOICE_POST'',
     qi_draft = ''D-1'', qi_status = Q_PENDING, qi_attempts = 0, qi_token = 0, qi_class = None,
     qi_resolution = None, qi_reason = None, qi_escalated_from = None,
     qi_enqueued = Some (Aware 0 0), qi_updated = Some (Aware 0 0)\<rparr>"

definition demo_claimed :: op_queue where
  "demo_claimed = queue_apply demo_libs (ClaimNext (0, 0) 5)
     (queue_apply demo_libs demo_op empty_queue)"

lemma demo_claimed_items:
  "oq_items demo_claimed = [(demo_id, demo_item\<lparr>qi_status := Q_CLASSIFYING, qi_token := 5\<rparr>)]"
proof -
  have 1: "oq_items (queue_apply demo_libs demo_op empty_queue) = [(demo_id, demo_item)]"
    by (simp add: demo_op_def enqueue_def empty_queue_def demo_item_def demo_id_def item_now_def)
  then show ?thesis
    by (simp add: demo_claimed_def claim_next_state sorted_items_def dvals_def)
      (simp add: demo_item_def item_now_def)
qed

lemma demo_claimed_reach: "queue_reach demo_libs empty_queue demo_claimed"
  unfolding demo_claimed_def by (intro queue_reach.step queue_reach.refl)

definition demo_done :: op_queue where
  "demo_done = queue_apply demo_libs
     (Complete (0, 0) demo_id 5 RC_PRESENT Q_RESOLVED (Some ''INV-1'') None) demo_claimed"

lemma demo_done_item:
  "\<exists>i. dget (oq_items demo_done) demo_id = Some i \<and> qi_status i = Q_RESOLVED
     \<and> qi_class i = Some RC_PRESENT"
  by (simp add: demo_done_def complete_classification_def queue_get_def demo_claimed_items
      assert_owner_def Let_def)

lemma demo_done_reach: "queue_reach demo_libs empty_queue demo_done"
  unfolding demo_done_def by (intro queue_reach.step demo_claimed_reach)

theorem queue_terminal_frozen_witness:
  "\<exists>i. qi_status i = Q_RESOLVED \<and> dget (oq_items demo_done) demo_id = Some i
     \<and> dget (oq_items (queue_apply demo_libs (ClaimItem (1, 1) demo_id 9) demo_done)) demo_id = Some i"
proof -
  obtain i where i: "dget (oq_items demo_done) demo_id = Some i" "qi_status i = Q_RESOLVED"
    using demo_done_item by blast
  have "queue_reach demo_libs demo_done (queue_apply demo_libs (ClaimItem (1, 1) demo_id 9) demo_done)"
    by (intro queue_reach.step queue_reach.refl)
  from queue_terminal_frozen [OF demo_libs_ok demo_done_reach this i(1)] i show ?thesis by simp
qed

theorem queue_resolution_guard_witness:
  "\<exists>i. dget (oq_items demo_done) demo_id = Some i \<and> qi_status i = Q_RESOLVED
     \<and> (qi_class i \<in> {Some RC_PRESENT, Some RC_AMBIGUOUS}
        \<or> (\<exists>j \<in> set (oq_log demo_done). qi_id j = demo_id \<and> qi_status j = Q_SAFE_RETRYABLE))"
  using queue_resolution_guard [OF demo_libs_ok demo_done_reach] demo_done_item by metis

text \<open>Only the worker whose positive token the item carries completes a classification,
  and only from \<^verbatim>\<open>CLASSIFYING\<close>; completing retires the token, so that no token whatever
  completes the item again before it is claimed anew.\<close>

theorem queue_owner_completes:
  assumes "libs_ok L" "queue_reach L empty_queue q"
    "complete_classification L clk k token cl st res why q = (Inr i', q')"
  shows "(\<exists>i. dget (oq_items q) k = Some i \<and> qi_status i = Q_CLASSIFYING \<and> qi_token i = token)
    \<and> 0 < token \<and> dget (oq_items q') k = Some i' \<and> qi_token i' = 0
    \<and> (\<forall>clk2 token2 cl2 st2 res2 why2.
         complete_classification L clk2 k token2 cl2 st2 res2 why2 q' = (Inl ItemLocked, q'))"
proof -
  have ok: "queue_ok L q" using queue_reach_ok [OF assms(2,1) empty_queue_ok] .
  from complete_cases [OF ok assms(1), of k clk token cl st res why] assms(3)
  obtain i where m: "moved L q k i i' q'" by (auto simp: raises_or_moves_def)
  then have i: "dget (oq_items q) k = Some i" "dget (oq_items q') k = Some i'"
    by (auto simp: moved_def)
  from assms(3) i(1) have t: "qi_token i = token" "0 < token"
    by (auto simp: complete_classification_def queue_get_def assert_owner_def split: if_splits)
  have "qi_status i = Q_CLASSIFYING" using queue_okD(4) [OF ok i(1)] t by (auto simp: item_ok_def)
  have new: "oq_items q' = dput k (i\<lparr>qi_status := st, qi_attempts := qi_attempts i + 1,
      qi_token := 0, qi_class := Some cl,
      qi_resolution := (case res of Some r \<Rightarrow> Some r | None \<Rightarrow> qi_resolution i), qi_reason := why,
      qi_escalated_from := (if st = Q_ESCALATED then Some cl else qi_escalated_from i),
      qi_updated := Some (item_now clk)\<rparr>) (oq_items q)"
    using assms(3) i(1)
    by (auto simp: complete_classification_def queue_get_def Let_def dest!: commit_eq
        split: if_splits sum.splits option.splits)
  then have "qi_token i' = 0" using i(2) by auto
  then show ?thesis
    using i t \<open>qi_status i = Q_CLASSIFYING\<close>
    by (auto simp: complete_classification_def queue_get_def assert_owner_def)
qed

theorem queue_owner_completes_witness:
  "\<exists>i' q'. complete_classification demo_libs (0, 0) demo_id 5 RC_PRESENT Q_RESOLVED (Some ''INV-1'') None
      demo_claimed = (Inr i', q') \<and> qi_token i' = 0"
proof -
  have "queue_ok demo_libs demo_claimed"
    using queue_reach_ok [OF demo_claimed_reach demo_libs_ok empty_queue_ok] .
  from complete_cases [OF this demo_libs_ok, of demo_id "(0, 0)" 5 RC_PRESENT Q_RESOLVED "Some ''INV-1''" None]
  obtain i' q' where c: "complete_classification demo_libs (0, 0) demo_id 5 RC_PRESENT Q_RESOLVED
      (Some ''INV-1'') None demo_claimed = (Inr i', q')"
    using demo_done_item
    by (auto simp: raises_or_moves_def demo_done_def demo_claimed_items) (metis prod.collapse)
  from queue_owner_completes [OF demo_libs_ok demo_claimed_reach c] c show ?thesis by blast
qed

section \<open>Three gaps\<close>

text \<open>A second escalation overwrites what the first one recorded: an item that was escalated as
  AMBIGUOUS, escalated again as UNAVAILABLE and claimed again, is let into the retry lane.\<close>

lemma ambiguous_guard_lost:
  "\<exists>i. dget (oq_items (foldl (\<lambda>q x. queue_apply demo_libs x q) demo_claimed
      [Complete (0, 0) demo_id 5 RC_AMBIGUOUS Q_ESCALATED None None,
       ClaimItem (0, 0) demo_id 6, Complete (0, 0) demo_id 6 RC_UNAVAILABLE Q_ESCALATED None None,
       ClaimItem (0, 0) demo_id 7, Complete (0, 0) demo_id 7 RC_ABSENT Q_SAFE_RETRYABLE None None]))
      demo_id = Some i \<and> qi_status i = Q_SAFE_RETRYABLE"
  by (simp add: complete_classification_def claim_item_def queue_get_def demo_claimed_items
      assert_owner_def Let_def)

text \<open>Completing resets the token to 0, so the token that was retired is again strictly greater
  than the recorded one: the worker that escalated an item can claim it back.\<close>

lemma retired_token_returns:
  "\<exists>i. dget (oq_items (foldl (\<lambda>q x. queue_apply demo_libs x q) demo_claimed
      [Complete (0, 0) demo_id 5 RC_AMBIGUOUS Q_ESCALATED None None, ClaimItem (0, 0) demo_id 5]))
      demo_id = Some i \<and> qi_status i = Q_CLASSIFYING \<and> qi_token i = 5"
  by (simp add: complete_classification_def claim_item_def queue_get_def demo_claimed_items
      assert_owner_def Let_def)

text \<open>Replay counts on from the last snapshot, not from the highest number: after a log that
  ends with an older item, the next number is one that is taken, and the enqueue of a new
  intent overwrites that item.\<close>

lemma replay_reuses_number:
  defines "two \<equiv> demo_item\<lparr>qi_id := ref_num ''REC'' 6 2, qi_intent := ''sha256:2''\<rparr>"
  defines "q \<equiv> replay [demo_item, two, demo_item]"
  shows "dget (oq_items q) (ref_num ''REC'' 6 2) = Some two \<and> oq_seq q = 2
    \<and> (\<exists>i. dget (oq_items (queue_apply L (Enqueue (0, 0) ''sha256:3'' ''K'' ''D-3'') q))
             (ref_num ''REC'' 6 2) = Some i \<and> qi_intent i = ''sha256:3'')"
proof -
  have d: "filter is_digit (ref_num ''REC'' 6 n) = pad_str 6 n" for n
  proof -
    have "filter is_digit (pad_str 6 n) = pad_str 6 n" using pad_str_digits by (intro filter_True) auto
    then show ?thesis by (simp add: ref_num_def is_digit_def)
  qed
  have ne: "pad_str 6 n \<noteq> []" for n by (simp add: pad_str_def Let_def)
  have "ref_num ''REC'' 6 2 \<noteq> demo_id" by (simp add: demo_id_def)
  then have q: "oq_items q = [(demo_id, demo_item), (ref_num ''REC'' 6 2, two)]" "oq_seq q = 2"
    "oq_intents q = [(''sha256:1'', demo_id), (''sha256:2'', ref_num ''REC'' 6 2)]"
    by (simp_all add: q_def replay_def replay_snapshot_def d ne two_def demo_item_def demo_id_def
        empty_queue_def Let_def)
  then show ?thesis
    by (simp add: enqueue_def demo_id_def)
qed

end
