(* ===== verification/ErpPort.thy ===== *)
theory ErpPort
  imports Decimals Values
begin

text \<open>
  The provider-neutral contract: the financial identity of a document
  (\<^verbatim>\<open>src/contracts/financial_identity.py\<close>), commands, read-back records and the port
  itself (\<^verbatim>\<open>src/contracts/erp_port.py\<close>), with the parsing of dates that its
  implementations share. The \<^verbatim>\<open>ErpPort\<close> protocol is a record of operations on a world
  \<^typ>\<open>'w\<close>; its clients take one as an argument. The laws of its read-back operations that
  reconciliation relies on are the locale \<open>readback_port\<close>.
\<close>

section \<open>Financial identity\<close>

record financial_identity =
  fi_unit :: str
  fi_issuer :: str
  fi_tax :: str
  fi_series :: str
  fi_ledger :: str
  fi_account :: str

text \<open>\<^verbatim>\<open>asdict\<close>: the fields in the order of their declaration.\<close>

definition identity_fields :: "financial_identity \<Rightarrow> (str, str) dict" where
  "identity_fields i =
    [(''operating_unit_ref'', fi_unit i), (''legal_issuer_ref'', fi_issuer i),
     (''tax_profile_ref'', fi_tax i), (''invoice_series_ref'', fi_series i),
     (''receivable_ledger_ref'', fi_ledger i), (''destination_account_alias'', fi_account i)]"

definition field_prefixes :: "(str, str) dict" where
  "field_prefixes =
    [(''operating_unit_ref'', ''UNIT-''), (''legal_issuer_ref'', ''ISSUER-''),
     (''tax_profile_ref'', ''TAX-''), (''invoice_series_ref'', ''SERIES-''),
     (''receivable_ledger_ref'', ''LEDGER-''), (''destination_account_alias'', ''ACC-'')]"

definition field_ok :: "str \<times> str \<Rightarrow> bool" where
  "field_ok f = (opaque_ref (snd f) \<and>
     (case dget field_prefixes (fst f) of None \<Rightarrow> False | Some p \<Rightarrow> startswith (snd f) p))"

definition account_suffix :: "str \<Rightarrow> str" where
  "account_suffix alias = (if startswith alias ''ACC-'' then drop 4 alias else alias)"

text \<open>\<^verbatim>\<open>isalpha\<close> on the characters of an opaque reference, which is checked first.\<close>

definition mk_identity :: "financial_identity \<Rightarrow> financial_identity res" where
  "mk_identity i =
    (if \<not> list_all field_ok (identity_fields i) then Inl ValueError
     else let suffix = account_suffix (fi_account i) in
     if \<not> (\<exists>c \<in> set suffix. is_upper c \<or> is_lower c) then Inl ValueError
     else if 10 \<le> length (filter is_digit suffix) then Inl ValueError
     else Inr i)"

text \<open>\<^verbatim>\<open>dict(sorted(asdict(self).items()))\<close>.\<close>

definition identity_payload :: "financial_identity \<Rightarrow> (str, str) dict" where
  "identity_payload i = sort_key fst (identity_fields i)"

definition redacted_descriptor :: "financial_identity \<Rightarrow> (str, str) dict" where
  "redacted_descriptor i =
    dput ''destination_account_alias'' ''ACC-[REDACTED]'' (identity_payload i)"

lemma identity_payload_eq:
  "identity_payload i =
    [(''destination_account_alias'', fi_account i), (''invoice_series_ref'', fi_series i),
     (''legal_issuer_ref'', fi_issuer i), (''operating_unit_ref'', fi_unit i),
     (''receivable_ledger_ref'', fi_ledger i), (''tax_profile_ref'', fi_tax i)]"
  by (simp add: identity_payload_def identity_fields_def insort_key_def less_eq_char_def less_char_def)

lemma identity_payload_inj: "identity_payload i = identity_payload j \<longleftrightarrow> i = j"
  by (cases i; cases j) (auto simp: identity_payload_eq)

section \<open>Calendar dates\<close>

datatype date = Date (da_year: nat) (da_month: nat) (da_day: nat)

definition leap_year :: "nat \<Rightarrow> bool" where
  "leap_year y = (y mod 4 = 0 \<and> (y mod 100 \<noteq> 0 \<or> y mod 400 = 0))"

definition days_in_month :: "nat \<Rightarrow> nat \<Rightarrow> nat" where
  "days_in_month y m = (if m = 2 then (if leap_year y then 29 else 28)
     else if m \<in> {4, 6, 9, 11} then 30 else 31)"

text \<open>\<^verbatim>\<open>^\d{4}-\d{2}-\d{2}$\<close> and \<^verbatim>\<open>date.fromisoformat\<close> on such a text.\<close>

definition iso_date_text :: "str \<Rightarrow> bool" where
  "iso_date_text s = (length s = 10 \<and> s ! 4 = CHR ''-'' \<and> s ! 7 = CHR ''-''
     \<and> (\<forall>c \<in> set (take 4 s @ take 2 (drop 5 s) @ drop 8 s). is_digit c))"

definition date_of_iso :: "str \<Rightarrow> date option" where
  "date_of_iso s =
    (let y = str_nat (take 4 s); m = str_nat (take 2 (drop 5 s)); d = str_nat (drop 8 s) in
     if 1 \<le> y \<and> 1 \<le> m \<and> m \<le> 12 \<and> 1 \<le> d \<and> d \<le> days_in_month y m then Some (Date y m d) else None)"

fun date_less :: "date \<Rightarrow> date \<Rightarrow> bool" where
  "date_less (Date y m d) (Date y' m' d') =
    (y < y' \<or> (y = y' \<and> (m < m' \<or> (m = m' \<and> d < d'))))"

section \<open>Commands and records\<close>

record invoice_line =
  il_service :: str
  il_description :: str
  il_quantity :: str
  il_price :: str
  il_currency :: str

record draft_invoice_command =
  dc_customer :: str
  dc_identity :: financial_identity
  dc_lines :: "invoice_line list"
  dc_issued :: str
  dc_due :: str

record draft_payment_command =
  pc_invoice :: str
  pc_amount :: str
  pc_currency :: str
  pc_evidence :: str
  pc_account :: str

record reversal_command =
  rc_payment :: str
  rc_reason :: str

datatype posting_outcome = O_POSTED | O_REJECTED | O_UNCERTAIN

record invoice_record =
  ir_reference :: str
  ir_status :: str
  ir_total :: str
  ir_currency :: str
  ir_open :: str
  ir_issued :: str
  ir_due :: str
  ir_payload :: "(str, json) dict"

record payment_record =
  pr_reference :: str
  pr_invoice :: str
  pr_amount :: str
  pr_currency :: str
  pr_evidence :: str
  pr_account :: str
  pr_reversal_of :: "str option"

record query_result =
  qr_kind :: str
  qr_references :: "str list"
  qr_scoped :: bool
  qr_total :: nat

record posting_result =
  po_outcome :: posting_outcome
  po_reference :: "str option"
  po_reason :: "str option"

section \<open>The port\<close>

record 'w erp_port =
  port_create :: "draft_invoice_command \<Rightarrow> 'w \<Rightarrow> str res \<times> 'w"
  port_read :: "str \<Rightarrow> 'w \<Rightarrow> invoice_record res \<times> 'w"
  port_post :: "str \<Rightarrow> 'w \<Rightarrow> posting_result res \<times> 'w"
  port_pay :: "draft_payment_command \<Rightarrow> 'w \<Rightarrow> str res \<times> 'w"
  port_read_payment :: "str \<Rightarrow> 'w \<Rightarrow> payment_record res \<times> 'w"
  port_reverse :: "reversal_command \<Rightarrow> 'w \<Rightarrow> str res \<times> 'w"
  port_cancel :: "str \<Rightarrow> 'w \<Rightarrow> unit res \<times> 'w"
  port_query :: "str option \<Rightarrow> str option \<Rightarrow> str option \<Rightarrow> 'w \<Rightarrow> query_result res \<times> 'w"
  port_ping :: "'w \<Rightarrow> bool \<times> 'w"
  port_reconcile_post :: "str \<Rightarrow> 'w \<Rightarrow> posting_result res \<times> 'w"
  port_reconcile_payment :: "str \<Rightarrow> 'w \<Rightarrow> payment_record res \<times> 'w"
  port_known_drafts :: "'w \<Rightarrow> str set"
  port_evidence_index :: "'w \<Rightarrow> (str \<times> str) list"

text \<open>
  The contract of the read-back. \<open>posted w d\<close> is the official reference of the posted
  document that the handle \<open>d\<close> stands for, \<open>paid w e\<close> the payment recorded with the
  evidence \<open>e\<close>. Reading back tells the truth about both and changes neither.
\<close>

locale readback_port =
  fixes P :: "'w erp_port" and inv :: "'w \<Rightarrow> bool"
    and posted :: "'w \<Rightarrow> str \<Rightarrow> str option" and paid :: "'w \<Rightarrow> str \<Rightarrow> str option"
  assumes post_frame: "inv w \<Longrightarrow> port_reconcile_post P d w = (r, w') \<Longrightarrow>
      inv w' \<and> posted w' = posted w \<and> paid w' = paid w"
    and post_answer: "inv w \<Longrightarrow> port_reconcile_post P d w = (Inr res, w') \<Longrightarrow>
      posted w d = (if po_outcome res = O_POSTED then po_reference res else None)"
    and query_frame: "inv w \<Longrightarrow> port_query P st u c w = (rq, w') \<Longrightarrow>
      inv w' \<and> posted w' = posted w \<and> paid w' = paid w"
    and pay_frame: "inv w \<Longrightarrow> port_reconcile_payment P e w = (rp, w') \<Longrightarrow>
      inv w' \<and> posted w' = posted w \<and> paid w' = paid w"
    and pay_answer: "inv w \<Longrightarrow> port_reconcile_payment P e w = (Inr pay, w') \<Longrightarrow>
      paid w e = Some (pr_reference pay)"
    and pay_absent: "inv w \<Longrightarrow> port_reconcile_payment P e w = (Inl DocumentRejected, w') \<Longrightarrow>
      paid w e = None"
    and ping_frame: "inv w \<Longrightarrow> port_ping P w = (b, w') \<Longrightarrow>
      inv w' \<and> posted w' = posted w \<and> paid w' = paid w"
begin

lemmas frames = post_frame query_frame pay_frame ping_frame

end

end
