(* ===== verification/FixtureErp.thy ===== *)
theory FixtureErp
  imports ErpPort
begin

text \<open>
  The deterministic provider of \<^verbatim>\<open>src/adapters/fixture/erp.py\<close>, complete with its failure
  injection. Invoices are mutable objects that two handles share once they are posted: the
  objects live in a store keyed by their draft reference, which is unique, and the
  dictionary of handles maps each handle to its object. Every operation holds the
  adapter's lock and is one atomic step that returns the state even when it raises.
\<close>

section \<open>Parsing\<close>

definition parse_money :: "str \<Rightarrow> decimal res" where
  "parse_money s = (if decimal_text s then Inr (dec_of_text s) else Inl DocumentRejected)"

definition parse_currency :: "str \<Rightarrow> str res" where
  "parse_currency c = (if currency_code c then Inr c else Inl DocumentRejected)"

definition parse_date :: "str \<Rightarrow> date res" where
  "parse_date s = (if \<not> iso_date_text s then Inl DocumentRejected
     else (case date_of_iso s of None \<Rightarrow> Inl DocumentRejected | Some d \<Rightarrow> Inr d))"

section \<open>State\<close>

record delivery_record =
  dl_reference :: str
  dl_document :: str
  dl_channel :: str
  dl_status :: str

record invoice_state =
  iv_draft :: str
  iv_official :: "str option"
  iv_status :: str
  iv_total :: decimal
  iv_open :: decimal
  iv_currency :: str
  iv_issued :: str
  iv_due :: str
  iv_payload :: "(str, json) dict"
  iv_uncertain :: bool
  iv_paid :: bool

record payment_state =
  py_reference :: str
  py_invoice :: str
  py_amount :: decimal
  py_currency :: str
  py_evidence :: str
  py_account :: str
  py_reversal_of :: "str option"
  py_reversed :: bool
  py_uncertain :: bool

record fixture_erp =
  fe_prefix :: str
  fe_seq :: nat
  fe_draft_seq :: nat
  fe_pay_seq :: nat
  fe_out_seq :: nat
  fe_objs :: "(str, invoice_state) dict"
  fe_handles :: "(str, str) dict"
  fe_payments :: "(str, payment_state) dict"
  fe_evidence :: "str set"
  fe_deliveries :: "(str \<times> str, delivery_record) dict"
  fe_dropped :: "str set"
  fe_fail_post :: "str option"
  fe_fail_payment :: "str option"
  fe_fail_delivery :: bool
  fe_outage :: bool

text \<open>\<^verbatim>\<open>[A-Z][A-Z0-9]*\<close>.\<close>

definition series_token :: "str \<Rightarrow> bool" where
  "series_token p = (case p of [] \<Rightarrow> False | c # cs \<Rightarrow> is_upper c \<and> list_all upper_alnum cs)"

definition mk_fixture :: "str \<Rightarrow> int \<Rightarrow> fixture_erp res" where
  "mk_fixture pfx next_seq =
    (if \<not> series_token pfx then Inl ValueError
     else if next_seq \<le> 0 then Inl ValueError
     else Inr \<lparr>fe_prefix = pfx, fe_seq = nat next_seq, fe_draft_seq = 1, fe_pay_seq = 1,
       fe_out_seq = 1, fe_objs = [], fe_handles = [], fe_payments = [], fe_evidence = {},
       fe_deliveries = [], fe_dropped = {}, fe_fail_post = None, fe_fail_payment = None,
       fe_fail_delivery = False, fe_outage = False\<rparr>)"

definition handle_of :: "invoice_state \<Rightarrow> str" where
  "handle_of i = (case iv_official i of Some r \<Rightarrow> if r = [] then iv_draft i else r
                  | None \<Rightarrow> iv_draft i)"

text \<open>\<^verbatim>\<open>self._invoices.get(ref)\<close>: the object a handle stands for.\<close>

definition find_invoice :: "fixture_erp \<Rightarrow> str \<Rightarrow> invoice_state option" where
  "find_invoice s ref = Option.bind (dget (fe_handles s) ref) (dget (fe_objs s))"

text \<open>Assigning to the attributes of an object.\<close>

definition store_invoice :: "invoice_state \<Rightarrow> fixture_erp \<Rightarrow> fixture_erp" where
  "store_invoice i s = s\<lparr>fe_objs := dput (iv_draft i) i (fe_objs s)\<rparr>"

definition lookup_invoice :: "fixture_erp \<Rightarrow> str \<Rightarrow> invoice_state res" where
  "lookup_invoice s ref =
    (case find_invoice s ref of None \<Rightarrow> Inl DocumentRejected | Some i \<Rightarrow> Inr i)"

text \<open>\<^verbatim>\<open>self._invoices.values()\<close>: an object once per handle.\<close>

definition handle_objects :: "fixture_erp \<Rightarrow> invoice_state list" where
  "handle_objects s = List.map_filter (dget (fe_objs s)) (dvals (fe_handles s))"

section \<open>Failure injection\<close>

definition fail_next_post :: "str \<Rightarrow> fixture_erp \<Rightarrow> unit res \<times> fixture_erp" where
  "fail_next_post mode s =
    (if mode \<notin> {''REJECTED'', ''UNCERTAIN'', ''UNCERTAIN_DROP''} then (Inl ValueError, s)
     else (Inr (), s\<lparr>fe_fail_post := Some mode\<rparr>))"

definition fail_next_payment :: "str \<Rightarrow> fixture_erp \<Rightarrow> unit res \<times> fixture_erp" where
  "fail_next_payment mode s =
    (if mode \<notin> {''REJECTED'', ''UNCERTAIN''} then (Inl ValueError, s)
     else (Inr (), s\<lparr>fe_fail_payment := Some mode\<rparr>))"

definition fail_next_delivery :: "fixture_erp \<Rightarrow> fixture_erp" where
  "fail_next_delivery s = s\<lparr>fe_fail_delivery := True\<rparr>"

definition simulate_outage :: "bool \<Rightarrow> fixture_erp \<Rightarrow> fixture_erp" where
  "simulate_outage b s = s\<lparr>fe_outage := b\<rparr>"

definition corrupt_index_drop :: "str \<Rightarrow> fixture_erp \<Rightarrow> unit res \<times> fixture_erp" where
  "corrupt_index_drop ref s =
    (case lookup_invoice s ref of
       Inl e \<Rightarrow> (Inl e, s)
     | Inr i \<Rightarrow>
         (Inr (), s\<lparr>fe_dropped := insert (case iv_official i of
            Some r \<Rightarrow> if r = [] then ref else r | None \<Rightarrow> ref) (fe_dropped s)\<rparr>))"

section \<open>Drafts\<close>

text \<open>The loop over the lines, with the total and the normalised lines so far.\<close>

definition line_json :: "invoice_line \<Rightarrow> decimal \<Rightarrow> decimal \<Rightarrow> json" where
  "line_json l q p = JObj [(''service_ref'', JStr (il_service l)),
     (''description'', JStr (il_description l)), (''quantity'', JStr (format_f q)),
     (''unit_price_amount'', JStr (format_f p))]"

fun add_lines :: "str \<Rightarrow> invoice_line list \<Rightarrow> decimal \<Rightarrow> json list \<Rightarrow> (decimal \<times> json list) res" where
  "add_lines cur [] tot acc = Inr (tot, acc)"
| "add_lines cur (l # ls) tot acc =
    (case parse_money (il_quantity l) of
       Inl e \<Rightarrow> Inl e
     | Inr q \<Rightarrow> (case parse_money (il_price l) of
         Inl e \<Rightarrow> Inl e
       | Inr p \<Rightarrow>
           if dle q dzero then Inl DocumentRejected
           else if dle p dzero then Inl DocumentRejected
           else (case parse_currency (il_currency l) of
               Inl e \<Rightarrow> Inl e
             | Inr c \<Rightarrow>
                 if c \<noteq> cur then Inl DocumentRejected
                 else add_lines cur ls (dadd tot (dmul q p)) (acc @ [line_json l q p]))))"

definition new_invoice ::
  "draft_invoice_command \<Rightarrow> str \<Rightarrow> str \<Rightarrow> decimal \<Rightarrow> json list \<Rightarrow> invoice_state" where
  "new_invoice c draft_ref cur tot lines =
    \<lparr>iv_draft = draft_ref, iv_official = None, iv_status = ''DRAFT'', iv_total = tot,
     iv_open = tot, iv_currency = cur, iv_issued = dc_issued c, iv_due = dc_due c,
     iv_payload = [(''customer_ref'', JStr (dc_customer c)),
       (''identity'', JObj (map (\<lambda>(k, v). (k, JStr v)) (identity_payload (dc_identity c)))),
       (''lines'', JArr lines), (''draft_ref'', JStr draft_ref)],
     iv_uncertain = False, iv_paid = False\<rparr>"

definition create_draft_invoice ::
  "draft_invoice_command \<Rightarrow> fixture_erp \<Rightarrow> str res \<times> fixture_erp" where
  "create_draft_invoice c s =
    (if fe_outage s then (Inl DocumentRejected, s)
     else (case dc_lines c of
       [] \<Rightarrow> (Inl DocumentRejected, s)
     | l # ls \<Rightarrow>
       (case parse_date (dc_issued c) of
          Inl e \<Rightarrow> (Inl e, s)
        | Inr issued \<Rightarrow> (case parse_date (dc_due c) of
            Inl e \<Rightarrow> (Inl e, s)
          | Inr due \<Rightarrow>
            if date_less due issued then (Inl DocumentRejected, s)
            else (case parse_currency (il_currency l) of
                Inl e \<Rightarrow> (Inl e, s)
              | Inr cur \<Rightarrow> (case add_lines cur (l # ls) dzero [] of
                  Inl e \<Rightarrow> (Inl e, s)
                | Inr (tot, lines) \<Rightarrow>
                    let draft_ref = ref_num ''DRAFT'' 6 (fe_draft_seq s) in
                    (Inr draft_ref,
                     s\<lparr>fe_draft_seq := Suc (fe_draft_seq s),
                       fe_objs := dput draft_ref (new_invoice c draft_ref cur tot lines) (fe_objs s),
                       fe_handles := dput draft_ref draft_ref (fe_handles s)\<rparr>)))))))"

definition to_record :: "invoice_state \<Rightarrow> invoice_record" where
  "to_record i = \<lparr>ir_reference = handle_of i, ir_status = iv_status i,
     ir_total = format_f (iv_total i), ir_currency = iv_currency i,
     ir_open = format_f (iv_open i), ir_issued = iv_issued i, ir_due = iv_due i,
     ir_payload = iv_payload i\<rparr>"

definition read_invoice :: "str \<Rightarrow> fixture_erp \<Rightarrow> invoice_record res" where
  "read_invoice ref s = (if fe_outage s then Inl DocumentRejected
     else (case lookup_invoice s ref of Inl e \<Rightarrow> Inl e | Inr i \<Rightarrow> Inr (to_record i)))"

section \<open>Posting\<close>

definition posting :: "posting_outcome \<Rightarrow> str option \<Rightarrow> str option \<Rightarrow> posting_result" where
  "posting oc ref why = \<lparr>po_outcome = oc, po_reference = ref, po_reason = why\<rparr>"

definition assign_official :: "invoice_state \<Rightarrow> fixture_erp \<Rightarrow> str \<times> fixture_erp" where
  "assign_official i s =
    (let official = ref_num (fe_prefix s) 6 (fe_seq s);
         i' = i\<lparr>iv_official := Some official, iv_status := ''POSTED''\<rparr> in
     (official, store_invoice i' (s\<lparr>fe_seq := Suc (fe_seq s),
        fe_handles := dput official (iv_draft i) (fe_handles s)\<rparr>)))"

definition set_uncertain :: "str \<Rightarrow> bool \<Rightarrow> fixture_erp \<Rightarrow> fixture_erp" where
  "set_uncertain k b s = (case dget (fe_objs s) k of None \<Rightarrow> s
     | Some i \<Rightarrow> store_invoice (i\<lparr>iv_uncertain := b\<rparr>) s)"

text \<open>The object to post: by handle, else the first one with that official reference.\<close>

definition post_target :: "fixture_erp \<Rightarrow> str \<Rightarrow> invoice_state option" where
  "post_target s ref = (case find_invoice s ref of Some i \<Rightarrow> Some i
     | None \<Rightarrow> find (\<lambda>i. iv_official i = Some ref) (handle_objects s))"

definition post_invoice :: "str \<Rightarrow> fixture_erp \<Rightarrow> posting_result res \<times> fixture_erp" where
  "post_invoice ref s =
    (if fe_outage s then (Inl DocumentRejected, s)
     else (case post_target s ref of
       None \<Rightarrow> (Inl DocumentRejected, s)
     | Some i \<Rightarrow>
       if iv_uncertain i then (Inl UncertainOutcome, s)
       else if iv_status i = ''POSTED'' then (Inr (posting O_POSTED (iv_official i) None), s)
       else if iv_status i = ''CANCELLED'' then (Inl DocumentRejected, s)
       else
         let failure = fe_fail_post s; s = s\<lparr>fe_fail_post := None\<rparr> in
         if failure = Some ''REJECTED''
         then (Inr (posting O_REJECTED None (Some ''provider rejected post'')), s)
         else if failure = Some ''UNCERTAIN''
         then (Inr (posting O_UNCERTAIN None (Some ''outcome unknown'')),
               set_uncertain (iv_draft i) True (snd (assign_official i s)))
         else if failure = Some ''UNCERTAIN_DROP''
         then (Inr (posting O_UNCERTAIN None (Some ''outcome unknown'')),
               set_uncertain (iv_draft i) True s)
         else (let (official, s') = assign_official i s in
               (Inr (posting O_POSTED (Some official) None), s'))))"

definition reconcile_post :: "str \<Rightarrow> fixture_erp \<Rightarrow> posting_result res \<times> fixture_erp" where
  "reconcile_post ref s =
    (case find_invoice s ref of
       None \<Rightarrow> (Inl DocumentRejected, s)
     | Some i \<Rightarrow>
       if \<not> iv_uncertain i then
         (if iv_status i = ''POSTED'' then (Inr (posting O_POSTED (iv_official i) None), s)
          else (Inr (posting O_REJECTED None (Some ''not pending reconciliation'')), s))
       else let s = set_uncertain (iv_draft i) False s in
         (if iv_status i = ''POSTED'' \<and> iv_official i \<noteq> None
          then (Inr (posting O_POSTED (iv_official i) None), s)
          else (Inr (posting O_REJECTED None (Some ''provider has no such document'')), s)))"

section \<open>Payments\<close>

definition apply_payment ::
  "invoice_state \<Rightarrow> draft_payment_command \<Rightarrow> decimal \<Rightarrow> str option \<Rightarrow> fixture_erp \<Rightarrow> str \<times> fixture_erp" where
  "apply_payment i c amount reversal_of s =
    (let ref = ref_num ''PAY'' 6 (fe_pay_seq s);
         open' = dsub (iv_open i) amount;
         i' = i\<lparr>iv_open := open', iv_paid := (if deq open' dzero then True else iv_paid i)\<rparr> in
     (ref, store_invoice i' (s\<lparr>fe_pay_seq := Suc (fe_pay_seq s),
        fe_payments := dput ref \<lparr>py_reference = ref, py_invoice = handle_of i, py_amount = amount,
          py_currency = pc_currency c, py_evidence = pc_evidence c, py_account = pc_account c,
          py_reversal_of = reversal_of, py_reversed = False, py_uncertain = False\<rparr> (fe_payments s),
        fe_evidence := insert (pc_evidence c) (fe_evidence s)\<rparr>)))"

definition mark_payment_uncertain :: "str \<Rightarrow> bool \<Rightarrow> fixture_erp \<Rightarrow> fixture_erp" where
  "mark_payment_uncertain ref b s = (case dget (fe_payments s) ref of None \<Rightarrow> s
     | Some p \<Rightarrow> s\<lparr>fe_payments := dput ref (p\<lparr>py_uncertain := b\<rparr>) (fe_payments s)\<rparr>)"

definition record_payment ::
  "draft_payment_command \<Rightarrow> fixture_erp \<Rightarrow> str res \<times> fixture_erp" where
  "record_payment c s =
    (if fe_outage s then (Inl DocumentRejected, s)
     else if pc_evidence c = [] \<or> strip (pc_evidence c) = [] then (Inl DocumentRejected, s)
     else (case parse_currency (pc_currency c) of
       Inl e \<Rightarrow> (Inl e, s)
     | Inr _ \<Rightarrow>
       if startswith (pc_evidence c) ''EVI-REV-'' then (Inl DocumentRejected, s)
       else if pc_evidence c \<in> fe_evidence s then (Inl DocumentRejected, s)
       else (case find_invoice s (pc_invoice c) of
         None \<Rightarrow> (Inl DocumentRejected, s)
       | Some i \<Rightarrow>
         if iv_status i \<noteq> ''POSTED'' then (Inl DocumentRejected, s)
         else (case parse_money (pc_amount c) of
           Inl e \<Rightarrow> (Inl e, s)
         | Inr amount \<Rightarrow>
           if dle amount dzero then (Inl DocumentRejected, s)
           else if pc_currency c \<noteq> iv_currency i then (Inl DocumentRejected, s)
           else if dlt (iv_open i) amount then (Inl DocumentRejected, s)
           else
             let failure = fe_fail_payment s; s = s\<lparr>fe_fail_payment := None\<rparr> in
             if failure = Some ''REJECTED'' then (Inl DocumentRejected, s)
             else (let (ref, s') = apply_payment i c amount None s in
               if failure = Some ''UNCERTAIN''
               then (Inl UncertainOutcome, mark_payment_uncertain ref True s')
               else (Inr ref, s'))))))"

definition to_payment_record :: "payment_state \<Rightarrow> payment_record" where
  "to_payment_record p = \<lparr>pr_reference = py_reference p, pr_invoice = py_invoice p,
     pr_amount = format_f (py_amount p), pr_currency = py_currency p,
     pr_evidence = py_evidence p, pr_account = py_account p, pr_reversal_of = py_reversal_of p\<rparr>"

definition read_payment :: "str \<Rightarrow> fixture_erp \<Rightarrow> payment_record res" where
  "read_payment ref s = (if fe_outage s then Inl DocumentRejected
     else (case dget (fe_payments s) ref of None \<Rightarrow> Inl DocumentRejected
           | Some p \<Rightarrow> Inr (to_payment_record p)))"

definition reconcile_payment :: "str \<Rightarrow> fixture_erp \<Rightarrow> payment_record res \<times> fixture_erp" where
  "reconcile_payment evidence s =
    (if evidence \<notin> fe_evidence s then (Inl DocumentRejected, s)
     else (case find (\<lambda>(r, p). py_evidence p = evidence) (fe_payments s) of
         None \<Rightarrow> (Inl DocumentRejected, s)
       | Some (r, p) \<Rightarrow>
           (Inr (to_payment_record p),
            s\<lparr>fe_payments := dput r (p\<lparr>py_uncertain := False\<rparr>) (fe_payments s)\<rparr>)))"

section \<open>Reversal and cancellation\<close>

definition reverse_payment :: "reversal_command \<Rightarrow> fixture_erp \<Rightarrow> str res \<times> fixture_erp" where
  "reverse_payment c s =
    (if fe_outage s then (Inl DocumentRejected, s)
     else if rc_reason c = [] \<or> strip (rc_reason c) = [] then (Inl DocumentRejected, s)
     else (case dget (fe_payments s) (rc_payment c) of
       None \<Rightarrow> (Inl DocumentRejected, s)
     | Some p \<Rightarrow>
       if py_reversal_of p \<noteq> None then (Inl DocumentRejected, s)
       else if py_reversed p then (Inl DocumentRejected, s)
       else (case find_invoice s (py_invoice p) of
         None \<Rightarrow> (Inl DocumentRejected, s)
       | Some i \<Rightarrow>
         if iv_status i = ''CANCELLED'' then (Inl DocumentRejected, s)
         else
           let ref = ref_num ''PAY'' 6 (fe_pay_seq s);
               evidence = ''EVI-REV-'' @ py_reference p;
               rev = \<lparr>py_reference = ref, py_invoice = py_invoice p, py_amount = dneg (py_amount p),
                 py_currency = py_currency p, py_evidence = evidence, py_account = py_account p,
                 py_reversal_of = Some (py_reference p), py_reversed = False, py_uncertain = False\<rparr>;
               i' = i\<lparr>iv_open := dadd (iv_open i) (py_amount p), iv_paid := False\<rparr> in
           (Inr ref, store_invoice i' (s\<lparr>fe_pay_seq := Suc (fe_pay_seq s),
              fe_payments := dput (rc_payment c) (p\<lparr>py_reversed := True\<rparr>)
                (dput ref rev (fe_payments s)),
              fe_evidence := insert evidence (fe_evidence s)\<rparr>)))))"

text \<open>The payments on an invoice that are neither reversals nor reversed.\<close>

definition outstanding :: "fixture_erp \<Rightarrow> invoice_state \<Rightarrow> payment_state list" where
  "outstanding s i = filter (\<lambda>p. Some (py_invoice p) = iv_official i \<and> py_reversal_of p = None
     \<and> \<not> py_reversed p) (dvals (fe_payments s))"

definition cancel_invoice :: "str \<Rightarrow> fixture_erp \<Rightarrow> unit res \<times> fixture_erp" where
  "cancel_invoice ref s =
    (if fe_outage s then (Inl DocumentRejected, s)
     else (case lookup_invoice s ref of
       Inl e \<Rightarrow> (Inl e, s)
     | Inr i \<Rightarrow>
       if iv_status i = ''CANCELLED'' then (Inr (), s)
       else if iv_status i = ''DRAFT''
       then (Inr (), store_invoice (i\<lparr>iv_status := ''CANCELLED'', iv_open := dzero\<rparr>) s)
       else if outstanding s i \<noteq> [] then (Inl DocumentRejected, s)
       else (Inr (), store_invoice (i\<lparr>iv_status := ''CANCELLED'', iv_open := dzero\<rparr>) s)))"

section \<open>Queries\<close>

text \<open>\<^verbatim>\<open>payload["identity"]["operating_unit_ref"]\<close> and \<^verbatim>\<open>payload["customer_ref"]\<close>.\<close>

definition payload_unit :: "invoice_state \<Rightarrow> json option" where
  "payload_unit i = (case dget (iv_payload i) ''identity'' of
     Some (JObj kvs) \<Rightarrow> map_of kvs ''operating_unit_ref'' | _ \<Rightarrow> None)"

definition payload_customer :: "invoice_state \<Rightarrow> json option" where
  "payload_customer i = dget (iv_payload i) ''customer_ref''"

definition matches_query ::
  "fixture_erp \<Rightarrow> str option \<Rightarrow> str option \<Rightarrow> str option \<Rightarrow> invoice_state \<Rightarrow> bool" where
  "matches_query s status unit customer i =
    (handle_of i \<notin> fe_dropped s
     \<and> (case status of None \<Rightarrow> True | Some x \<Rightarrow> iv_status i = x)
     \<and> (case unit of None \<Rightarrow> True | Some u \<Rightarrow> payload_unit i = Some (JStr u))
     \<and> (case customer of None \<Rightarrow> True | Some c \<Rightarrow> payload_customer i = Some (JStr c)))"

text \<open>The loop over the handles with \<^verbatim>\<open>seen\<close> and the references so far.\<close>

fun collect_refs ::
  "(invoice_state \<Rightarrow> bool) \<Rightarrow> invoice_state list \<Rightarrow> str list \<Rightarrow> str list" where
  "collect_refs ok [] refs = refs"
| "collect_refs ok (i # is) refs =
    (if handle_of i \<in> set refs then collect_refs ok is refs
     else if \<not> ok i then collect_refs ok is refs
     else collect_refs ok is (refs @ [handle_of i]))"

definition query_invoices ::
  "str option \<Rightarrow> str option \<Rightarrow> str option \<Rightarrow> fixture_erp \<Rightarrow> query_result res" where
  "query_invoices status unit customer s =
    (if fe_outage s then Inl DocumentRejected
     else let refs = sort (collect_refs (matches_query s status unit customer) (handle_objects s) []) in
       Inr \<lparr>qr_kind = ''INVOICE'', qr_references = refs, qr_scoped = (unit \<noteq> None),
            qr_total = length refs\<rparr>)"

section \<open>Delivery outbox\<close>

definition put_delivery :: "str \<times> str \<Rightarrow> delivery_record \<Rightarrow> fixture_erp \<Rightarrow> fixture_erp" where
  "put_delivery k d s = s\<lparr>fe_deliveries := dput k d (fe_deliveries s)\<rparr>"

definition new_delivery :: "str \<times> str \<Rightarrow> str \<Rightarrow> fixture_erp \<Rightarrow> delivery_record res \<times> fixture_erp" where
  "new_delivery key channel s =
    (let ref = ref_num ''OUT'' 6 (fe_out_seq s); s = s\<lparr>fe_out_seq := Suc (fe_out_seq s)\<rparr>;
         status = (if fe_fail_delivery s then ''FAILED_RETRYABLE'' else ''SENT'');
         rec = \<lparr>dl_reference = ref, dl_document = fst key, dl_channel = channel, dl_status = status\<rparr>
     in (Inr rec, put_delivery key rec (s\<lparr>fe_fail_delivery := False\<rparr>)))"

definition enqueue_delivery ::
  "str \<Rightarrow> str \<Rightarrow> fixture_erp \<Rightarrow> delivery_record res \<times> fixture_erp" where
  "enqueue_delivery doc channel s =
    (if fe_outage s then (Inl DocumentRejected, s)
     else (case lookup_invoice s doc of
       Inl e \<Rightarrow> (Inl e, s)
     | Inr i \<Rightarrow>
       if iv_status i \<noteq> ''POSTED'' then (Inl DocumentRejected, s)
       else let key = (handle_of i, channel) in
       (case dget (fe_deliveries s) key of
          Some d \<Rightarrow>
            if dl_status d = ''SENT'' then (Inr d, s)
            else if dl_status d = ''FAILED_RETRYABLE'' then
              (if fe_fail_delivery s then (Inr d, s\<lparr>fe_fail_delivery := False\<rparr>)
               else let d' = \<lparr>dl_reference = dl_reference d, dl_document = dl_document d,
                     dl_channel = channel, dl_status = ''SENT''\<rparr> in
                 (Inr d', put_delivery key d' s))
            else new_delivery key channel s
        | None \<Rightarrow> new_delivery key channel s)))"

section \<open>Liveness and reconciliation support\<close>

definition ping :: "fixture_erp \<Rightarrow> bool" where
  "ping s = (\<not> fe_outage s)"

definition known_draft_refs :: "fixture_erp \<Rightarrow> str set" where
  "known_draft_refs s = set (map iv_draft (handle_objects s))"

definition payment_evidence_index :: "fixture_erp \<Rightarrow> (str \<times> str) list" where
  "payment_evidence_index s =
    sort_key fst (sort_key snd (map (\<lambda>p. (py_reference p, py_evidence p)) (dvals (fe_payments s))))"

definition fixture_port :: "fixture_erp erp_port" where
  "fixture_port = \<lparr>port_create = create_draft_invoice, port_read = (\<lambda>r s. (read_invoice r s, s)),
     port_post = post_invoice, port_pay = record_payment,
     port_read_payment = (\<lambda>r s. (read_payment r s, s)), port_reverse = reverse_payment,
     port_cancel = cancel_invoice, port_query = (\<lambda>st u c s. (query_invoices st u c s, s)),
     port_ping = (\<lambda>s. (ping s, s)), port_reconcile_post = reconcile_post,
     port_reconcile_payment = reconcile_payment, port_known_drafts = known_draft_refs,
     port_evidence_index = payment_evidence_index\<rparr>"

text \<open>Everything that changes the adapter's state.\<close>

datatype erp_op =
    CreateDraft draft_invoice_command
  | Post str | ReconcilePost str
  | Pay draft_payment_command | ReconcilePay str | Reverse reversal_command | Cancel str
  | Deliver str str
  | FailPost str | FailPayment str | FailDelivery | Outage bool | DropIndex str

fun erp_step :: "erp_op \<Rightarrow> fixture_erp \<Rightarrow> fixture_erp" where
  "erp_step (CreateDraft c) s = snd (create_draft_invoice c s)"
| "erp_step (Post r) s = snd (post_invoice r s)"
| "erp_step (ReconcilePost r) s = snd (reconcile_post r s)"
| "erp_step (Pay c) s = snd (record_payment c s)"
| "erp_step (ReconcilePay e) s = snd (reconcile_payment e s)"
| "erp_step (Reverse c) s = snd (reverse_payment c s)"
| "erp_step (Cancel r) s = snd (cancel_invoice r s)"
| "erp_step (Deliver d ch) s = snd (enqueue_delivery d ch s)"
| "erp_step (FailPost m) s = snd (fail_next_post m s)"
| "erp_step (FailPayment m) s = snd (fail_next_payment m s)"
| "erp_step FailDelivery s = fail_next_delivery s"
| "erp_step (Outage b) s = simulate_outage b s"
| "erp_step (DropIndex r) s = snd (corrupt_index_drop r s)"

definition erp_run :: "erp_op list \<Rightarrow> fixture_erp \<Rightarrow> fixture_erp" where
  "erp_run xs s = foldl (\<lambda>s x. erp_step x s) s xs"

end
