(* ===== verification/FixtureErpProps.thy ===== *)
theory FixtureErpProps
  imports FixtureErp Lease
begin

text \<open>
  What the fixture provider guarantees. Its operations are first shown to be transitions of
  a smaller machine, \<open>erp_trans\<close>, that keeps only what the invariants are about; the
  invariant \<open>fe_ok\<close> and the properties are then proved over that machine.
\<close>

section \<open>The machine of invoices and payments\<close>

text \<open>The state without the outbox, the query index and the failure switches.\<close>

definition core :: "fixture_erp \<Rightarrow> fixture_erp" where
  "core s = s\<lparr>fe_out_seq := 0, fe_deliveries := [], fe_dropped := {}, fe_fail_post := None,
     fe_fail_payment := None, fe_fail_delivery := False, fe_outage := False\<rparr>"

lemma core_eqD:
  "core a = core b \<Longrightarrow> fe_objs a = fe_objs b \<and> fe_handles a = fe_handles b
     \<and> fe_payments a = fe_payments b \<and> fe_evidence a = fe_evidence b \<and> fe_seq a = fe_seq b
     \<and> fe_draft_seq a = fe_draft_seq b \<and> fe_pay_seq a = fe_pay_seq b \<and> fe_prefix a = fe_prefix b"
  by (cases a; cases b) (simp add: core_def)

definition payment_of ::
  "str \<Rightarrow> str \<Rightarrow> decimal \<Rightarrow> draft_payment_command \<Rightarrow> bool \<Rightarrow> payment_state" where
  "payment_of ref h amount c unc = \<lparr>py_reference = ref, py_invoice = h, py_amount = amount,
     py_currency = pc_currency c, py_evidence = pc_evidence c, py_account = pc_account c,
     py_reversal_of = None, py_reversed = False, py_uncertain = unc\<rparr>"

definition reversal_for :: "str \<Rightarrow> payment_state \<Rightarrow> payment_state" where
  "reversal_for ref p = \<lparr>py_reference = ref, py_invoice = py_invoice p,
     py_amount = dneg (py_amount p), py_currency = py_currency p,
     py_evidence = ''EVI-REV-'' @ py_reference p, py_account = py_account p,
     py_reversal_of = Some (py_reference p), py_reversed = False, py_uncertain = False\<rparr>"

inductive erp_trans :: "fixture_erp \<Rightarrow> fixture_erp \<Rightarrow> bool" where
  same: "core s' = core s \<Longrightarrow> erp_trans s s'"
| draft: "iv_draft i = ref_num ''DRAFT'' 6 (fe_draft_seq s) \<Longrightarrow> iv_official i = None \<Longrightarrow>
    iv_status i = ''DRAFT'' \<Longrightarrow> iv_open i = iv_total i \<Longrightarrow> \<not> d_neg (iv_total i) \<Longrightarrow>
    core s' = core (s\<lparr>fe_draft_seq := Suc (fe_draft_seq s), fe_objs := dput (iv_draft i) i (fe_objs s),
                      fe_handles := dput (iv_draft i) (iv_draft i) (fe_handles s)\<rparr>) \<Longrightarrow>
    erp_trans s s'"
| flag: "dget (fe_objs s) k = Some i \<Longrightarrow>
    core s' = core (s\<lparr>fe_objs := dput k (i\<lparr>iv_uncertain := b\<rparr>) (fe_objs s)\<rparr>) \<Longrightarrow> erp_trans s s'"
| cancel: "dget (fe_objs s) k = Some i \<Longrightarrow>
    iv_status i = ''DRAFT'' \<or> iv_status i = ''POSTED'' \<and> outstanding s i = [] \<Longrightarrow>
    core s' = core (s\<lparr>fe_objs := dput k (i\<lparr>iv_status := ''CANCELLED'', iv_open := dzero\<rparr>) (fe_objs s)\<rparr>)
    \<Longrightarrow> erp_trans s s'"
| post: "dget (fe_objs s) k = Some i \<Longrightarrow> iv_status i = ''DRAFT'' \<Longrightarrow>
    ref = ref_num (fe_prefix s) 6 (fe_seq s) \<Longrightarrow>
    core s' = core (s\<lparr>fe_seq := Suc (fe_seq s), fe_handles := dput ref k (fe_handles s),
        fe_objs := dput k (i\<lparr>iv_official := Some ref, iv_status := ''POSTED'', iv_uncertain := b\<rparr>)
          (fe_objs s)\<rparr>) \<Longrightarrow> erp_trans s s'"
| pay: "dget (fe_objs s) k = Some i \<Longrightarrow> iv_status i = ''POSTED'' \<Longrightarrow> iv_official i = Some h \<Longrightarrow>
    dlt dzero amount \<Longrightarrow> dle amount (iv_open i) \<Longrightarrow>
    pc_evidence c \<notin> fe_evidence s \<Longrightarrow> \<not> startswith (pc_evidence c) ''EVI-REV-'' \<Longrightarrow>
    decimal_text (pc_amount c) \<Longrightarrow> amount = dec_of_text (pc_amount c) \<Longrightarrow>
    ref = ref_num ''PAY'' 6 (fe_pay_seq s) \<Longrightarrow>
    core s' = core (s\<lparr>fe_pay_seq := Suc (fe_pay_seq s),
        fe_objs := dput k (i\<lparr>iv_open := dsub (iv_open i) amount, iv_paid := paid\<rparr>) (fe_objs s),
        fe_payments := dput ref (payment_of ref h amount c unc) (fe_payments s),
        fe_evidence := insert (pc_evidence c) (fe_evidence s)\<rparr>) \<Longrightarrow> erp_trans s s'"
| reverse: "dget (fe_payments s) r = Some p \<Longrightarrow> py_reversal_of p = None \<Longrightarrow> \<not> py_reversed p \<Longrightarrow>
    dget (fe_objs s) k = Some i \<Longrightarrow> iv_status i \<noteq> ''CANCELLED'' \<Longrightarrow>
    iv_official i = Some (py_invoice p) \<Longrightarrow> py_reference p = r \<Longrightarrow>
    ref = ref_num ''PAY'' 6 (fe_pay_seq s) \<Longrightarrow>
    core s' = core (s\<lparr>fe_pay_seq := Suc (fe_pay_seq s),
        fe_objs := dput k (i\<lparr>iv_open := dadd (iv_open i) (py_amount p), iv_paid := False\<rparr>) (fe_objs s),
        fe_payments := dput r (p\<lparr>py_reversed := True\<rparr>) (dput ref (reversal_for ref p) (fe_payments s)),
        fe_evidence := insert (''EVI-REV-'' @ r) (fe_evidence s)\<rparr>) \<Longrightarrow> erp_trans s s'"
| payflag: "dget (fe_payments s) r = Some p \<Longrightarrow>
    core s' = core (s\<lparr>fe_payments := dput r (p\<lparr>py_uncertain := b\<rparr>) (fe_payments s)\<rparr>) \<Longrightarrow>
    erp_trans s s'"

section \<open>The invariant\<close>

definition invoice_ok :: "fixture_erp \<Rightarrow> str \<Rightarrow> invoice_state \<Rightarrow> bool" where
  "invoice_ok s k i =
    (iv_draft i = k \<and> (\<exists>n. 1 \<le> n \<and> n < fe_draft_seq s \<and> k = ref_num ''DRAFT'' 6 n)
     \<and> dget (fe_handles s) k = Some k
     \<and> (iv_official i = None \<longrightarrow> iv_status i = ''DRAFT'' \<or> iv_status i = ''CANCELLED'')
     \<and> (\<forall>h. iv_official i = Some h \<longrightarrow> (iv_status i = ''POSTED'' \<or> iv_status i = ''CANCELLED'')
            \<and> dget (fe_handles s) h = Some k
            \<and> (\<exists>n < fe_seq s. h = ref_num (fe_prefix s) 6 n)))"

definition handles_ok :: "fixture_erp \<Rightarrow> bool" where
  "handles_ok s = (\<forall>h k. dget (fe_handles s) h = Some k \<longrightarrow>
     (\<exists>i. dget (fe_objs s) k = Some i \<and> (h = k \<or> iv_official i = Some h)))"

definition payment_ok :: "fixture_erp \<Rightarrow> str \<Rightarrow> payment_state \<Rightarrow> bool" where
  "payment_ok s r p =
    (py_reference p = r \<and> (\<exists>n. 1 \<le> n \<and> n < fe_pay_seq s \<and> r = ref_num ''PAY'' 6 n)
     \<and> py_evidence p \<in> fe_evidence s
     \<and> (\<exists>k i. dget (fe_objs s) k = Some i \<and> iv_official i = Some (py_invoice p))
     \<and> (py_reversal_of p = None \<longrightarrow> \<not> startswith (py_evidence p) ''EVI-REV-'')
     \<and> (\<forall>r0. py_reversal_of p = Some r0 \<longrightarrow> py_evidence p = ''EVI-REV-'' @ r0
            \<and> (\<exists>p0. dget (fe_payments s) r0 = Some p0 \<and> py_reversed p0)))"

definition evidence_ok :: "fixture_erp \<Rightarrow> bool" where
  "evidence_ok s = ((\<forall>r p r' p'. dget (fe_payments s) r = Some p \<and> dget (fe_payments s) r' = Some p'
       \<and> py_evidence p = py_evidence p' \<longrightarrow> r = r')
     \<and> (\<forall>e \<in> fe_evidence s. \<exists>r p. dget (fe_payments s) r = Some p \<and> py_evidence p = e))"

definition fe_ok :: "fixture_erp \<Rightarrow> bool" where
  "fe_ok s = (dict_ok (fe_objs s) \<and> dict_ok (fe_handles s) \<and> dict_ok (fe_payments s)
     \<and> 1 \<le> fe_draft_seq s \<and> 1 \<le> fe_pay_seq s \<and> fe_prefix s \<noteq> ''DRAFT'' \<and> series_token (fe_prefix s)
     \<and> (\<forall>k i. dget (fe_objs s) k = Some i \<longrightarrow> invoice_ok s k i) \<and> handles_ok s
     \<and> (\<forall>r p. dget (fe_payments s) r = Some p \<longrightarrow> payment_ok s r p) \<and> evidence_ok s)"

lemma fe_okD:
  assumes "fe_ok s"
  shows "dget (fe_objs s) k = Some i \<Longrightarrow> invoice_ok s k i"
    and "dget (fe_payments s) r = Some p \<Longrightarrow> payment_ok s r p"
    and "dget (fe_handles s) h = Some k \<Longrightarrow>
      \<exists>i. dget (fe_objs s) k = Some i \<and> (h = k \<or> iv_official i = Some h)"
  using assms by (simp_all add: fe_ok_def handles_ok_def)

lemma mk_fixture_ok: "mk_fixture pfx n = Inr s \<Longrightarrow> pfx \<noteq> ''DRAFT'' \<Longrightarrow> fe_ok s"
  by (auto simp: mk_fixture_def fe_ok_def handles_ok_def evidence_ok_def split: if_splits)

section \<open>Every operation is a transition\<close>

lemma find_invoice_obj:
  assumes "fe_ok s" "find_invoice s ref = Some i"
  shows "dget (fe_objs s) (iv_draft i) = Some i"
  using assms fe_okD(1) [OF assms(1)]
  by (auto simp: find_invoice_def invoice_ok_def split: bind_splits)

lemma store_invoice_core: "core (store_invoice i s) = core (s\<lparr>fe_objs := dput (iv_draft i) i (fe_objs s)\<rparr>)"
  by (simp add: store_invoice_def)

lemma handle_of_official: "iv_official i = Some h \<Longrightarrow> h \<noteq> [] \<Longrightarrow> handle_of i = h"
  by (simp add: handle_of_def)

lemma official_nonempty: "fe_ok s \<Longrightarrow> dget (fe_objs s) k = Some i \<Longrightarrow> iv_official i = Some h \<Longrightarrow> h \<noteq> []"
  using fe_okD(1) [of s k i] by (auto simp: invoice_ok_def ref_num_def)

lemma trans_refl [simp]: "erp_trans s s"
  by (rule erp_trans.same) simp

text \<open>The total of a draft is never negative.\<close>

lemma dfix_neg [simp]: "d_neg (dfix d) = d_neg d"
  by (simp add: dfix_def Let_def)

lemma dint_nonneg: "\<not> d_neg d \<Longrightarrow> 0 \<le> dint e d"
  by (simp add: dint_def scoef_def)

lemma dadd_nonneg: "\<not> d_neg a \<Longrightarrow> \<not> d_neg b \<Longrightarrow> \<not> d_neg (dadd a b)"
  using dint_nonneg [of a] dint_nonneg [of b]
  by (auto simp: dadd_def Let_def add_nonneg_nonneg not_less)

lemma not_dle_dzero: "\<not> dle d dzero \<Longrightarrow> \<not> d_neg d"
  by (auto simp: dle_not_dlt dlt_dzero scoef_def split: if_splits)

lemma add_lines_nonneg:
  "add_lines cur ls tot acc = Inr (tot', acc') \<Longrightarrow> \<not> d_neg tot \<Longrightarrow> \<not> d_neg tot'"
proof (induction cur ls tot acc rule: add_lines.induct)
  case (2 cur l ls tot acc)
  then obtain q p where qp: "parse_money (il_quantity l) = Inr q" "parse_money (il_price l) = Inr p"
    "\<not> dle q dzero" "\<not> dle p dzero" by (auto split: sum.splits if_splits)
  have "\<not> d_neg (dadd tot (dmul q p))"
    using not_dle_dzero [OF qp(3)] not_dle_dzero [OF qp(4)] "2.prems"(2)
    by (intro dadd_nonneg) (simp_all add: dmul_def)
  with 2 qp show ?case by (auto split: sum.splits if_splits)
qed simp

lemma create_cases:
  "snd (create_draft_invoice c s) = s
   \<or> (\<exists>cur tot ls i. \<not> d_neg tot \<and> i = new_invoice c (ref_num ''DRAFT'' 6 (fe_draft_seq s)) cur tot ls
       \<and> snd (create_draft_invoice c s) = s\<lparr>fe_draft_seq := Suc (fe_draft_seq s),
           fe_objs := dput (ref_num ''DRAFT'' 6 (fe_draft_seq s)) i (fe_objs s),
           fe_handles := dput (ref_num ''DRAFT'' 6 (fe_draft_seq s))
             (ref_num ''DRAFT'' 6 (fe_draft_seq s)) (fe_handles s)\<rparr>)"
proof -
  have "\<not> d_neg tot" if "add_lines cur ls dzero [] = Inr (tot, acc)" for cur ls tot acc
    using add_lines_nonneg [OF that] by (simp add: dzero_def)
  then show ?thesis
    by (simp add: create_draft_invoice_def Let_def del: add_lines.simps
        split: list.splits sum.splits prod.splits) blast
qed

lemma create_trans: "erp_trans s (snd (create_draft_invoice c s))"
proof -
  consider "snd (create_draft_invoice c s) = s"
    | cur tot ls i where "i = new_invoice c (ref_num ''DRAFT'' 6 (fe_draft_seq s)) cur tot ls" "\<not> d_neg tot"
      "snd (create_draft_invoice c s) = s\<lparr>fe_draft_seq := Suc (fe_draft_seq s),
           fe_objs := dput (ref_num ''DRAFT'' 6 (fe_draft_seq s)) i (fe_objs s),
           fe_handles := dput (ref_num ''DRAFT'' 6 (fe_draft_seq s))
             (ref_num ''DRAFT'' 6 (fe_draft_seq s)) (fe_handles s)\<rparr>"
    using create_cases [of c s] by blast
  then show ?thesis
  proof cases
    case (2 cur tot ls i)
    have f: "iv_draft i = ref_num ''DRAFT'' 6 (fe_draft_seq s)" "iv_official i = None"
      "iv_status i = ''DRAFT''" "iv_open i = iv_total i" "\<not> d_neg (iv_total i)"
      using 2(2) by (simp_all add: 2(1) new_invoice_def)
    show ?thesis by (rule erp_trans.draft [OF f]) (simp add: 2(3) f(1))
  qed simp
qed

text \<open>Assigning an attribute through a handle.\<close>

lemma set_uncertain_trans:
  "dget (fe_objs s) k = Some i \<Longrightarrow> iv_draft i = k \<Longrightarrow> erp_trans s (set_uncertain k b s)"
  by (rule erp_trans.flag [where k = k and i = i and b = b])
    (simp_all add: set_uncertain_def store_invoice_def)

lemma post_target_obj:
  assumes "fe_ok s" "post_target s ref = Some i"
  shows "dget (fe_objs s) (iv_draft i) = Some i"
proof (cases "find_invoice s ref")
  case None
  with assms(2) have "find (\<lambda>i. iv_official i = Some ref) (handle_objects s) = Some i"
    by (simp add: post_target_def)
  then have "i \<in> set (handle_objects s)" by (auto simp: find_Some_iff)
  then obtain k where "dget (fe_objs s) k = Some i"
    by (auto simp: handle_objects_def map_filter_def)
  with fe_okD(1) [OF assms(1) this] show ?thesis by (simp add: invoice_ok_def)
next
  case (Some j)
  with assms find_invoice_obj [OF assms(1) Some] show ?thesis by (simp add: post_target_def)
qed

lemma post_trans:
  assumes "fe_ok s"
  shows "erp_trans s (snd (post_invoice ref s))"
proof (cases "\<not> fe_outage s \<and> (\<exists>i. post_target s ref = Some i \<and> \<not> iv_uncertain i
    \<and> iv_status i \<noteq> ''POSTED'' \<and> iv_status i \<noteq> ''CANCELLED'')")
  case False
  then show ?thesis by (auto simp: post_invoice_def split: option.splits)
next
  case True
  then obtain i where i: "post_target s ref = Some i" "\<not> iv_uncertain i"
    "iv_status i \<noteq> ''POSTED''" "iv_status i \<noteq> ''CANCELLED''" and up: "\<not> fe_outage s" by blast
  have o: "dget (fe_objs s) (iv_draft i) = Some i" by (rule post_target_obj [OF assms i(1)])
  have d: "iv_status i = ''DRAFT''"
    using fe_okD(1) [OF assms o] i(3,4) by (cases "iv_official i") (auto simp: invoice_ok_def)
  let ?r = "ref_num (fe_prefix s) 6 (fe_seq s)"
  have posted: "erp_trans s s'" if "core s' = core (s\<lparr>fe_seq := Suc (fe_seq s),
        fe_handles := dput ?r (iv_draft i) (fe_handles s),
        fe_objs := dput (iv_draft i) (i\<lparr>iv_official := Some ?r, iv_status := ''POSTED'',
          iv_uncertain := b\<rparr>) (fe_objs s)\<rparr>)" for s' b
    by (rule erp_trans.post [OF o d refl that])
  have flagged: "erp_trans s s'" if "core s' = core (s\<lparr>fe_objs := dput (iv_draft i)
      (i\<lparr>iv_uncertain := True\<rparr>) (fe_objs s)\<rparr>)" for s'
    by (rule erp_trans.flag [OF o that])
  have core0: "core (s\<lparr>fe_fail_post := None\<rparr>) = core s" by (simp add: core_def)
  consider "fe_fail_post s = Some ''REJECTED''" | "fe_fail_post s = Some ''UNCERTAIN''"
    | "fe_fail_post s = Some ''UNCERTAIN_DROP''"
    | "fe_fail_post s \<notin> {Some ''REJECTED'', Some ''UNCERTAIN'', Some ''UNCERTAIN_DROP''}" by blast
  then show ?thesis
  proof cases
    case 1
    then show ?thesis using up i
      by (auto simp: post_invoice_def Let_def intro!: erp_trans.same core0)
  next
    case 2
    then show ?thesis using up i
      by (auto simp: post_invoice_def Let_def assign_official_def set_uncertain_def store_invoice_def
          core_def intro!: posted [where b = True])
  next
    case 3
    then show ?thesis using up i o
      by (auto simp: post_invoice_def Let_def set_uncertain_def store_invoice_def core_def
          intro!: flagged)
  next
    case 4
    then have "snd (post_invoice ref s) = snd (assign_official i (s\<lparr>fe_fail_post := None\<rparr>))"
      using up i by (simp add: post_invoice_def Let_def assign_official_def)
    then show ?thesis
      by (intro posted [where b = "iv_uncertain i"])
        (simp add: assign_official_def store_invoice_def core_def Let_def)
  qed
qed

lemma reconcile_post_trans:
  assumes "fe_ok s"
  shows "erp_trans s (snd (reconcile_post ref s))"
proof (cases "find_invoice s ref")
  case (Some i)
  from set_uncertain_trans [OF find_invoice_obj [OF assms Some] refl] Some show ?thesis
    by (simp add: reconcile_post_def Let_def)
qed (simp add: reconcile_post_def)

lemma record_payment_state:
  assumes "find_invoice s (pc_invoice c) = Some i"
  defines "t \<equiv> s\<lparr>fe_fail_payment := None\<rparr>"
  shows "snd (record_payment c s) = s \<or> snd (record_payment c s) = t
    \<or> (\<exists>unc amount. iv_status i = ''POSTED'' \<and> \<not> dle amount dzero \<and> \<not> dlt (iv_open i) amount
        \<and> pc_evidence c \<notin> fe_evidence s \<and> \<not> startswith (pc_evidence c) ''EVI-REV-''
        \<and> parse_money (pc_amount c) = Inr amount
        \<and> snd (record_payment c s) = (if unc
             then mark_payment_uncertain (fst (apply_payment i c amount None t)) True
                    (snd (apply_payment i c amount None t))
             else snd (apply_payment i c amount None t)))"
proof (cases "\<not> fe_outage s \<and> \<not> (pc_evidence c = [] \<or> strip (pc_evidence c) = [])
    \<and> (\<exists>x. parse_currency (pc_currency c) = Inr x)
    \<and> \<not> startswith (pc_evidence c) ''EVI-REV-'' \<and> pc_evidence c \<notin> fe_evidence s
    \<and> iv_status i = ''POSTED'' \<and> (\<exists>a. parse_money (pc_amount c) = Inr a \<and> \<not> dle a dzero
         \<and> \<not> dlt (iv_open i) a) \<and> pc_currency c = iv_currency i")
  case True
  then obtain a x where a: "parse_money (pc_amount c) = Inr a" "\<not> dle a dzero" "\<not> dlt (iv_open i) a"
    "parse_currency (pc_currency c) = Inr x" by blast
  obtain ref s' where p: "apply_payment i c a None t = (ref, s')" by fastforce
  have r: "record_payment c s = (if fe_fail_payment s = Some ''REJECTED'' then (Inl DocumentRejected, t)
      else if fe_fail_payment s = Some ''UNCERTAIN''
      then (Inl UncertainOutcome, mark_payment_uncertain ref True s') else (Inr ref, s'))"
    using True a p assms(1) by (simp add: record_payment_def Let_def t_def)
  have "snd (record_payment c s) = t \<or> snd (record_payment c s)
      = (if fe_fail_payment s = Some ''UNCERTAIN'' then mark_payment_uncertain ref True s' else s')"
    by (simp add: r)
  then show ?thesis using True a p by (metis fst_conv snd_conv)
next
  case False
  then show ?thesis using assms(1) by (auto simp: record_payment_def split: sum.splits)
qed

lemma record_payment_trans:
  assumes "fe_ok s"
  shows "erp_trans s (snd (record_payment c s))"
proof (cases "find_invoice s (pc_invoice c)")
  case (Some i)
  note o = find_invoice_obj [OF assms Some]
  let ?ref = "ref_num ''PAY'' 6 (fe_pay_seq s)"
  have core0: "core (s\<lparr>fe_fail_payment := None\<rparr>) = core s" by (simp add: core_def)
  consider "snd (record_payment c s) = s" | "snd (record_payment c s) = s\<lparr>fe_fail_payment := None\<rparr>"
    | unc amount where "iv_status i = ''POSTED''" "\<not> dle amount dzero" "\<not> dlt (iv_open i) amount"
      "pc_evidence c \<notin> fe_evidence s" "\<not> startswith (pc_evidence c) ''EVI-REV-''"
      "parse_money (pc_amount c) = Inr amount"
      "snd (record_payment c s) = (if unc
         then mark_payment_uncertain (fst (apply_payment i c amount None (s\<lparr>fe_fail_payment := None\<rparr>)))
                True (snd (apply_payment i c amount None (s\<lparr>fe_fail_payment := None\<rparr>)))
         else snd (apply_payment i c amount None (s\<lparr>fe_fail_payment := None\<rparr>)))"
    using record_payment_state [OF Some] by blast
  then show ?thesis
  proof cases
    case 1
    then show ?thesis by simp
  next
    case 2
    then show ?thesis by (auto intro!: erp_trans.same core0)
  next
    case (3 unc amount)
    obtain h where h: "iv_official i = Some h"
      using fe_okD(1) [OF assms o] 3(1) by (cases "iv_official i") (auto simp: invoice_ok_def)
    have hd: "handle_of i = h" using handle_of_official [OF h official_nonempty [OF assms o h]] .
    have am: "decimal_text (pc_amount c)" "amount = dec_of_text (pc_amount c)"
      using 3(6) by (auto simp: parse_money_def split: if_splits)
    have pos: "dlt dzero amount" "dle amount (iv_open i)"
      using 3(2,3) by (simp_all add: dle_not_dlt)
    show ?thesis
      by (rule erp_trans.pay [OF o 3(1) h pos 3(4,5) am refl, where unc = unc
            and paid = "if deq (dsub (iv_open i) amount) dzero then True else iv_paid i"])
        (use 3(7) in \<open>simp add: apply_payment_def mark_payment_uncertain_def store_invoice_def
          Let_def core_def payment_of_def hd\<close>)
  qed
qed (auto simp: record_payment_def parse_currency_def)

lemma reconcile_payment_trans:
  assumes "fe_ok s"
  shows "erp_trans s (snd (reconcile_payment e s))"
proof (cases "find (\<lambda>(r, p). py_evidence p = e) (fe_payments s)")
  case (Some rp)
  obtain r p where rp: "rp = (r, p)" by fastforce
  then have "(r, p) \<in> set (fe_payments s)" using Some by (auto simp: find_Some_iff in_set_conv_nth)
  then have "dget (fe_payments s) r = Some p"
    using assms dict_ok_get by (fastforce simp: fe_ok_def)
  with Some rp show ?thesis
    by (auto simp: reconcile_payment_def intro!: erp_trans.payflag [where b = False])
qed (simp add: reconcile_payment_def)

lemma reverse_state:
  "snd (reverse_payment c s) = s
   \<or> (\<exists>p i. dget (fe_payments s) (rc_payment c) = Some p \<and> py_reversal_of p = None
      \<and> \<not> py_reversed p \<and> find_invoice s (py_invoice p) = Some i \<and> iv_status i \<noteq> ''CANCELLED''
      \<and> snd (reverse_payment c s) = store_invoice
         (i\<lparr>iv_open := dadd (iv_open i) (py_amount p), iv_paid := False\<rparr>)
         (s\<lparr>fe_pay_seq := Suc (fe_pay_seq s),
            fe_payments := dput (rc_payment c) (p\<lparr>py_reversed := True\<rparr>)
              (dput (ref_num ''PAY'' 6 (fe_pay_seq s))
                (reversal_for (ref_num ''PAY'' 6 (fe_pay_seq s)) p) (fe_payments s)),
            fe_evidence := insert (''EVI-REV-'' @ py_reference p) (fe_evidence s)\<rparr>))"
proof (cases "\<not> fe_outage s \<and> \<not> (rc_reason c = [] \<or> strip (rc_reason c) = [])
    \<and> (\<exists>p i. dget (fe_payments s) (rc_payment c) = Some p \<and> py_reversal_of p = None
      \<and> \<not> py_reversed p \<and> find_invoice s (py_invoice p) = Some i \<and> iv_status i \<noteq> ''CANCELLED'')")
  case True
  then obtain p i where "dget (fe_payments s) (rc_payment c) = Some p" "py_reversal_of p = None"
    "\<not> py_reversed p" "find_invoice s (py_invoice p) = Some i" "iv_status i \<noteq> ''CANCELLED''" by blast
  with True show ?thesis
    by (intro disjI2 exI [of _ p] exI [of _ i]) (simp add: reverse_payment_def Let_def reversal_for_def)
next
  case False
  then show ?thesis by (auto simp: reverse_payment_def split: option.splits)
qed

lemma reverse_trans:
  assumes "fe_ok s"
  shows "erp_trans s (snd (reverse_payment c s))"
proof -
  consider "snd (reverse_payment c s) = s"
    | p i where "dget (fe_payments s) (rc_payment c) = Some p" "py_reversal_of p = None"
      "\<not> py_reversed p" "find_invoice s (py_invoice p) = Some i" "iv_status i \<noteq> ''CANCELLED''"
      "snd (reverse_payment c s) = store_invoice
         (i\<lparr>iv_open := dadd (iv_open i) (py_amount p), iv_paid := False\<rparr>)
         (s\<lparr>fe_pay_seq := Suc (fe_pay_seq s),
            fe_payments := dput (rc_payment c) (p\<lparr>py_reversed := True\<rparr>)
              (dput (ref_num ''PAY'' 6 (fe_pay_seq s))
                (reversal_for (ref_num ''PAY'' 6 (fe_pay_seq s)) p) (fe_payments s)),
            fe_evidence := insert (''EVI-REV-'' @ py_reference p) (fe_evidence s)\<rparr>)"
    using reverse_state [of c s] by blast
  then show ?thesis
  proof cases
    case (2 p i)
    note o = find_invoice_obj [OF assms 2(4)]
    have pk: "payment_ok s (rc_payment c) p" by (rule fe_okD(2) [OF assms 2(1)])
    then obtain k j where j: "dget (fe_objs s) k = Some j" "iv_official j = Some (py_invoice p)"
      and ref: "py_reference p = rc_payment c" by (auto simp: payment_ok_def)
    have "dget (fe_handles s) (py_invoice p) = Some k" "iv_draft j = k"
      using fe_okD(1) [OF assms j(1)] j(2) by (simp_all add: invoice_ok_def)
    with 2(4) j have "i = j" by (simp add: find_invoice_def)
    with j(2) have off: "iv_official i = Some (py_invoice p)" by simp
    show ?thesis
      by (rule erp_trans.reverse [OF 2(1,2,3) o 2(5) off ref refl])
        (simp add: 2(6) store_invoice_core ref core_def store_invoice_def)
  qed simp
qed

lemma cancel_trans:
  assumes "fe_ok s"
  shows "erp_trans s (snd (cancel_invoice ref s))"
proof (cases "find_invoice s ref")
  case (Some i)
  note o = find_invoice_obj [OF assms Some]
  have st: "iv_status i \<in> {''DRAFT'', ''POSTED'', ''CANCELLED''}"
    using fe_okD(1) [OF assms o] by (cases "iv_official i") (auto simp: invoice_ok_def)
  consider "snd (cancel_invoice ref s) = s"
    | "iv_status i = ''DRAFT'' \<or> iv_status i = ''POSTED'' \<and> outstanding s i = []"
      "snd (cancel_invoice ref s) = store_invoice (i\<lparr>iv_status := ''CANCELLED'', iv_open := dzero\<rparr>) s"
  proof -
    have "snd (cancel_invoice ref s) = s
      \<or> ((iv_status i = ''DRAFT'' \<or> iv_status i = ''POSTED'' \<and> outstanding s i = [])
        \<and> snd (cancel_invoice ref s) = store_invoice (i\<lparr>iv_status := ''CANCELLED'', iv_open := dzero\<rparr>) s)"
      using Some st by (auto simp: cancel_invoice_def lookup_invoice_def)
    with that show thesis by blast
  qed
  then show ?thesis
  proof cases
    case 2
    then show ?thesis by (intro erp_trans.cancel [OF o 2(1)]) (simp add: store_invoice_core)
  qed simp
qed (simp add: cancel_invoice_def lookup_invoice_def)

lemma delivery_core: "core (snd (enqueue_delivery d ch s)) = core s"
  by (simp add: enqueue_delivery_def new_delivery_def put_delivery_def core_def Let_def
      split: sum.splits option.splits)

lemma erp_step_trans: "fe_ok s \<Longrightarrow> erp_trans s (erp_step x s)"
proof (cases x)
  case (Deliver d ch)
  then show ?thesis by (simp add: erp_trans.same delivery_core)
next
  case (FailPost m)
  then show ?thesis by (auto simp: fail_next_post_def core_def intro!: erp_trans.same)
next
  case (FailPayment m)
  then show ?thesis by (auto simp: fail_next_payment_def core_def intro!: erp_trans.same)
next
  case (DropIndex r)
  then show ?thesis
    by (auto simp: corrupt_index_drop_def core_def intro!: erp_trans.same split: sum.splits)
qed (auto simp: create_trans post_trans reconcile_post_trans record_payment_trans
    reconcile_payment_trans reverse_trans cancel_trans fail_next_delivery_def simulate_outage_def
    core_def intro!: erp_trans.same)

section \<open>The invariant is kept\<close>

lemma fe_ok_core: "core s' = core s \<Longrightarrow> fe_ok s' = fe_ok s"
  by (drule core_eqD)
    (simp add: fe_ok_def handles_ok_def evidence_ok_def invoice_ok_def payment_ok_def)

lemma fe_ok_via: "core s' = core a \<Longrightarrow> fe_ok b \<Longrightarrow> core a = core b \<Longrightarrow> fe_ok s'"
  using fe_ok_core by metis

lemma update_invoice_ok:
  assumes ok: "fe_ok s" and i: "dget (fe_objs s) k = Some i"
    and i': "iv_draft i' = iv_draft i" "iv_official i' = iv_official i"
      "iv_status i' = iv_status i \<or> iv_status i' = ''CANCELLED''"
  shows "fe_ok (s\<lparr>fe_objs := dput k i' (fe_objs s)\<rparr>)"
proof -
  let ?t = "s\<lparr>fe_objs := dput k i' (fe_objs s)\<rparr>"
  have same: "invoice_ok ?t k2 j = invoice_ok s k2 j" for k2 j
    by (simp add: invoice_ok_def)
  have "invoice_ok s k i'"
    using fe_okD(1) [OF ok i] i' by (auto simp: invoice_ok_def)
  then have "\<forall>k2 j. dget (fe_objs ?t) k2 = Some j \<longrightarrow> invoice_ok ?t k2 j"
    using fe_okD(1) [OF ok] unfolding same by simp
  moreover have "handles_ok ?t"
    using fe_okD(3) [OF ok] i i'(2) unfolding handles_ok_def by fastforce
  moreover have "payment_ok ?t r p" if "payment_ok s r p" for r p
  proof -
    from that obtain k2 j where j: "dget (fe_objs s) k2 = Some j" "iv_official j = Some (py_invoice p)"
      by (auto simp: payment_ok_def)
    then have "\<exists>k2 j. dget (fe_objs ?t) k2 = Some j \<and> iv_official j = Some (py_invoice p)"
      using i i'(2) by (cases "k2 = k") auto
    with that show ?thesis by (simp add: payment_ok_def)
  qed
  moreover have "evidence_ok ?t = evidence_ok s" by (simp add: evidence_ok_def)
  ultimately show ?thesis
    using ok by (simp add: fe_ok_def)
qed

lemma evidence_unique:
  "evidence_ok s \<Longrightarrow> dget (fe_payments s) r = Some p \<Longrightarrow> dget (fe_payments s) r' = Some p' \<Longrightarrow>
     py_evidence p = py_evidence p' \<Longrightarrow> r = r'"
  unfolding evidence_ok_def by blast

lemma evidence_used:
  "evidence_ok s \<Longrightarrow> e \<in> fe_evidence s \<Longrightarrow> \<exists>r p. dget (fe_payments s) r = Some p \<and> py_evidence p = e"
  unfolding evidence_ok_def by blast

lemma evidence_okI:
  "(\<And>r p r' p'. dget (fe_payments s) r = Some p \<Longrightarrow> dget (fe_payments s) r' = Some p' \<Longrightarrow>
     py_evidence p = py_evidence p' \<Longrightarrow> r = r') \<Longrightarrow>
   (\<And>e. e \<in> fe_evidence s \<Longrightarrow> \<exists>r p. dget (fe_payments s) r = Some p \<and> py_evidence p = e) \<Longrightarrow>
   evidence_ok s"
  unfolding evidence_ok_def by blast

lemma update_payment_ok:
  assumes ok: "fe_ok s" and p: "dget (fe_payments s) r = Some p"
    and p': "py_reference p' = py_reference p" "py_evidence p' = py_evidence p"
      "py_invoice p' = py_invoice p" "py_reversal_of p' = py_reversal_of p"
      "py_reversed p \<longrightarrow> py_reversed p'"
  shows "fe_ok (s\<lparr>fe_payments := dput r p' (fe_payments s)\<rparr>)"
proof -
  let ?t = "s\<lparr>fe_payments := dput r p' (fe_payments s)\<rparr>"
  have "payment_ok ?t r2 q" if "payment_ok s r2 q" for r2 q
    using that p p'(5) by (auto simp: payment_ok_def)
  moreover have "payment_ok s r p'"
    using fe_okD(2) [OF ok p] p' by (auto simp: payment_ok_def)
  moreover have "evidence_ok ?t"
  proof -
    have ev: "evidence_ok s" using ok by (simp add: fe_ok_def)
    have orig: "\<exists>q0. dget (fe_payments s) r2 = Some q0 \<and> py_evidence q0 = py_evidence q"
      if "dget (fe_payments ?t) r2 = Some q" for r2 q
      using that p p'(2) by (cases "r2 = r") auto
    show ?thesis
    proof (rule evidence_okI)
      fix e assume "e \<in> fe_evidence ?t"
      then have "e \<in> fe_evidence s" by simp
      from evidence_used [OF ev this] obtain r2 q
        where "dget (fe_payments s) r2 = Some q" "py_evidence q = e" by blast
      with p p'(2) show "\<exists>r p. dget (fe_payments ?t) r = Some p \<and> py_evidence p = e"
        by (cases "r2 = r") auto
    next
      fix r1 q1 r2 q2
      assume "dget (fe_payments ?t) r1 = Some q1" "dget (fe_payments ?t) r2 = Some q2"
        "py_evidence q1 = py_evidence q2"
      with orig [of r1 q1] orig [of r2 q2] evidence_unique [OF ev] show "r1 = r2" by metis
    qed
  qed
  ultimately show ?thesis
    using ok by (auto simp: fe_ok_def handles_ok_def invoice_ok_def)
qed

lemma fresh_payment: "fe_ok s \<Longrightarrow> dget (fe_payments s) (ref_num ''PAY'' 6 (fe_pay_seq s)) = None"
proof (rule ccontr)
  assume ok: "fe_ok s" and "dget (fe_payments s) (ref_num ''PAY'' 6 (fe_pay_seq s)) \<noteq> None"
  then obtain p where "payment_ok s (ref_num ''PAY'' 6 (fe_pay_seq s)) p" using fe_okD(2) by blast
  then show False by (auto simp: payment_ok_def)
qed

lemma add_payment_ok:
  assumes ok: "fe_ok s"
    and i: "dget (fe_objs s) k = Some i" "iv_official i = Some (py_invoice p)"
    and p: "py_reference p = ref_num ''PAY'' 6 (fe_pay_seq s)" "py_evidence p \<notin> fe_evidence s"
      "py_reversal_of p = None \<Longrightarrow> \<not> startswith (py_evidence p) ''EVI-REV-''"
      "\<And>r0. py_reversal_of p = Some r0 \<Longrightarrow> py_evidence p = ''EVI-REV-'' @ r0
            \<and> (\<exists>p0. dget (fe_payments s) r0 = Some p0 \<and> py_reversed p0)"
  shows "fe_ok (s\<lparr>fe_pay_seq := Suc (fe_pay_seq s),
      fe_payments := dput (py_reference p) p (fe_payments s),
      fe_evidence := insert (py_evidence p) (fe_evidence s)\<rparr>)"
proof -
  let ?t = "s\<lparr>fe_pay_seq := Suc (fe_pay_seq s),
      fe_payments := dput (py_reference p) p (fe_payments s),
      fe_evidence := insert (py_evidence p) (fe_evidence s)\<rparr>"
  have fr: "dget (fe_payments s) (py_reference p) = None" using fresh_payment [OF ok] p(1) by simp
  have keep: "dget (fe_payments ?t) r = Some q" if "dget (fe_payments s) r = Some q" for r q
    using that fr by auto
  have "payment_ok ?t r2 q" if "payment_ok s r2 q" for r2 q
  proof -
    have "\<exists>p0. dget (fe_payments ?t) r0 = Some p0 \<and> py_reversed p0"
      if "dget (fe_payments s) r0 = Some p0" "py_reversed p0" for r0 p0
      using keep [OF that(1)] that(2) by blast
    with that show ?thesis
      by (fastforce simp: payment_ok_def less_SucI)
  qed
  moreover have "payment_ok ?t (py_reference p) p"
  proof -
    have "1 \<le> fe_pay_seq s" using ok by (simp add: fe_ok_def)
    moreover have "py_evidence p = ''EVI-REV-'' @ r0
        \<and> (\<exists>p0. dget (fe_payments ?t) r0 = Some p0 \<and> py_reversed p0)"
      if "py_reversal_of p = Some r0" for r0
      using p(4) [OF that] keep by blast
    ultimately show ?thesis using i p(1,3) by (auto simp: payment_ok_def)
  qed
  moreover have "evidence_ok ?t"
  proof -
    have "py_evidence q \<noteq> py_evidence p" if "dget (fe_payments s) r = Some q" for r q
      using fe_okD(2) [OF ok that] p(2) by (auto simp: payment_ok_def)
    note ne = this this [symmetric]
    have ev: "evidence_ok s" using ok by (simp add: fe_ok_def)
    have "\<exists>r q. dget (fe_payments ?t) r = Some q \<and> py_evidence q = e" if "e \<in> fe_evidence ?t" for e
    proof (cases "e = py_evidence p")
      case False
      with that obtain r q where "dget (fe_payments s) r = Some q" "py_evidence q = e"
        using ev unfolding evidence_ok_def by auto
      then show ?thesis using keep by blast
    qed auto
    moreover have "r1 = r2" if "dget (fe_payments ?t) r1 = Some q1" "dget (fe_payments ?t) r2 = Some q2"
      "py_evidence q1 = py_evidence q2" for r1 q1 r2 q2
      using that ev ne unfolding evidence_ok_def by (auto split: if_splits)
    ultimately show ?thesis unfolding evidence_ok_def by blast
  qed
  ultimately show ?thesis
    using ok by (auto simp: fe_ok_def handles_ok_def invoice_ok_def)
qed

lemma fresh_draft: "fe_ok s \<Longrightarrow> dget (fe_objs s) (ref_num ''DRAFT'' 6 (fe_draft_seq s)) = None"
proof (rule ccontr)
  assume ok: "fe_ok s" and "dget (fe_objs s) (ref_num ''DRAFT'' 6 (fe_draft_seq s)) \<noteq> None"
  then obtain i where "invoice_ok s (ref_num ''DRAFT'' 6 (fe_draft_seq s)) i" using fe_okD(1) by blast
  then show False by (auto simp: invoice_ok_def)
qed

text \<open>Handles of drafts and of posted documents never coincide.\<close>

lemma series_not_draft:
  assumes "fe_prefix s \<noteq> ''DRAFT''" "series_token (fe_prefix s)"
  shows "ref_num (fe_prefix s) 6 n \<noteq> ref_num ''DRAFT'' 6 m"
proof
  assume eq: "ref_num (fe_prefix s) 6 n = ref_num ''DRAFT'' 6 m"
  have nd: "\<forall>c \<in> set (fe_prefix s). c \<noteq> CHR ''-''"
    using assms(2) upper_not_dash
    by (cases "fe_prefix s") (auto simp: series_token_def list_all_iff upper_alnum_def)
  have "takeWhile (\<lambda>c. c \<noteq> CHR ''-'') (ref_num (fe_prefix s) 6 n) = fe_prefix s"
    using nd by (simp add: ref_num_def)
  moreover have "takeWhile (\<lambda>c. c \<noteq> CHR ''-'') (ref_num ''DRAFT'' 6 m) = ''DRAFT''"
    by (simp add: ref_num_def)
  ultimately show False using eq assms(1) by simp
qed

lemma add_draft_ok:
  assumes ok: "fe_ok s" and i: "iv_draft i = ref_num ''DRAFT'' 6 (fe_draft_seq s)"
    "iv_official i = None" "iv_status i = ''DRAFT''"
  shows "fe_ok (s\<lparr>fe_draft_seq := Suc (fe_draft_seq s), fe_objs := dput (iv_draft i) i (fe_objs s),
                   fe_handles := dput (iv_draft i) (iv_draft i) (fe_handles s)\<rparr>)"
proof -
  let ?t = "s\<lparr>fe_draft_seq := Suc (fe_draft_seq s), fe_objs := dput (iv_draft i) i (fe_objs s),
                   fe_handles := dput (iv_draft i) (iv_draft i) (fe_handles s)\<rparr>"
  have fr: "dget (fe_objs s) (iv_draft i) = None" using fresh_draft [OF ok] i(1) by simp
  have nh: "h \<noteq> iv_draft i" if "dget (fe_objs s) k = Some j" "iv_official j = Some h" for k j h
    using fe_okD(1) [OF ok that(1)] that(2) i(1) series_not_draft [of s] ok
    by (auto simp: invoice_ok_def fe_ok_def)
  have "invoice_ok ?t k j" if "dget (fe_objs s) k = Some j" for k j
    using fe_okD(1) [OF ok that] nh [OF that] fr that by (fastforce simp: invoice_ok_def less_SucI)
  moreover have "invoice_ok ?t (iv_draft i) i"
    using i ok by (auto simp: invoice_ok_def fe_ok_def)
  ultimately have "\<forall>k j. dget (fe_objs ?t) k = Some j \<longrightarrow> invoice_ok ?t k j" by auto
  moreover have "handles_ok ?t"
    unfolding handles_ok_def
  proof (intro allI impI)
    fix h k assume h: "dget (fe_handles ?t) h = Some k"
    show "\<exists>j. dget (fe_objs ?t) k = Some j \<and> (h = k \<or> iv_official j = Some h)"
    proof (cases "h = iv_draft i")
      case False
      with h obtain j where "dget (fe_objs s) k = Some j" "h = k \<or> iv_official j = Some h"
        using fe_okD(3) [OF ok, of h k] by auto
      moreover from this(1) fr have "k \<noteq> iv_draft i" by auto
      ultimately show ?thesis by simp
    qed (use h in auto)
  qed
  moreover have "payment_ok ?t r p" if "payment_ok s r p" for r p
  proof -
    from that obtain k j where "dget (fe_objs s) k = Some j" "iv_official j = Some (py_invoice p)"
      by (auto simp: payment_ok_def)
    moreover from this fr have "dget (fe_objs ?t) k = Some j" by auto
    ultimately have "\<exists>k j. dget (fe_objs ?t) k = Some j \<and> iv_official j = Some (py_invoice p)" by blast
    with that show ?thesis by (simp add: payment_ok_def)
  qed
  moreover have "evidence_ok ?t = evidence_ok s" by (simp add: evidence_ok_def)
  ultimately show ?thesis using ok by (simp add: fe_ok_def)
qed

lemma post_ok:
  assumes ok: "fe_ok s" and i: "dget (fe_objs s) k = Some i" "iv_status i = ''DRAFT''"
  defines "ref \<equiv> ref_num (fe_prefix s) 6 (fe_seq s)"
  shows "fe_ok (s\<lparr>fe_seq := Suc (fe_seq s), fe_handles := dput ref k (fe_handles s),
        fe_objs := dput k (i\<lparr>iv_official := Some ref, iv_status := ''POSTED'', iv_uncertain := b\<rparr>)
          (fe_objs s)\<rparr>)"
proof -
  let ?i = "i\<lparr>iv_official := Some ref, iv_status := ''POSTED'', iv_uncertain := b\<rparr>"
  let ?t = "s\<lparr>fe_seq := Suc (fe_seq s), fe_handles := dput ref k (fe_handles s),
        fe_objs := dput k ?i (fe_objs s)\<rparr>"
  have oi: "invoice_ok s k i" by (rule fe_okD(1) [OF ok i(1)])
  have none: "iv_official i = None" using oi i(2) by (auto simp: invoice_ok_def)
  have nd: "ref \<noteq> ref_num ''DRAFT'' 6 m" for m
    using ok series_not_draft [of s] by (simp add: ref_def fe_ok_def)
  have no: "iv_official j \<noteq> Some ref" if "dget (fe_objs s) k2 = Some j" for k2 j
    using fe_okD(1) [OF ok that] by (auto simp: invoice_ok_def ref_def)
  have "invoice_ok ?t k2 j" if "dget (fe_objs s) k2 = Some j" for k2 j
    using fe_okD(1) [OF ok that] nd no [OF that] by (fastforce simp: invoice_ok_def less_SucI)
  moreover have "invoice_ok ?t k ?i"
    using oi nd by (auto simp: invoice_ok_def ref_def)
  ultimately have "\<forall>k2 j. dget (fe_objs ?t) k2 = Some j \<longrightarrow> invoice_ok ?t k2 j" by auto
  moreover have "handles_ok ?t"
    unfolding handles_ok_def
  proof (intro allI impI)
    fix h k2 assume h: "dget (fe_handles ?t) h = Some k2"
    show "\<exists>j. dget (fe_objs ?t) k2 = Some j \<and> (h = k2 \<or> iv_official j = Some h)"
    proof (cases "h = ref")
      case False
      with h obtain j where "dget (fe_objs s) k2 = Some j" "h = k2 \<or> iv_official j = Some h"
        using fe_okD(3) [OF ok, of h k2] by auto
      with i(1) none show ?thesis by (cases "k2 = k") auto
    qed (use h in auto)
  qed
  moreover have "payment_ok ?t r p" if "payment_ok s r p" for r p
  proof -
    from that obtain k2 j where j: "dget (fe_objs s) k2 = Some j" "iv_official j = Some (py_invoice p)"
      by (auto simp: payment_ok_def)
    with i(1) none have "k2 \<noteq> k" by auto
    with j have "\<exists>k2 j. dget (fe_objs ?t) k2 = Some j \<and> iv_official j = Some (py_invoice p)" by auto
    with that show ?thesis by (simp add: payment_ok_def)
  qed
  moreover have "evidence_ok ?t = evidence_ok s" by (simp add: evidence_ok_def)
  ultimately show ?thesis using ok by (simp add: fe_ok_def)
qed

lemma dput_append: "dget d k \<noteq> None \<Longrightarrow> dput k v (d @ e) = dput k v d @ e"
  by (induction d) auto

lemma fe_ok_trans: "erp_trans s s' \<Longrightarrow> fe_ok s \<Longrightarrow> fe_ok s'"
proof (induction rule: erp_trans.induct)
  case (same s' s)
  with fe_ok_core [of s' s] show ?case by blast
next
  case (draft i s s')
  from add_draft_ok [OF draft.prems draft.hyps(1-3)] show ?case by (simp only: fe_ok_core [OF draft.hyps(6)])
next
  case (flag s k i s' b)
  from update_invoice_ok [OF flag.prems flag.hyps(1), of "i\<lparr>iv_uncertain := b\<rparr>"] show ?case
    by (simp add: fe_ok_core [OF flag.hyps(2)])
next
  case (cancel s k i s')
  from update_invoice_ok [OF cancel.prems cancel.hyps(1), of "i\<lparr>iv_status := ''CANCELLED'', iv_open := dzero\<rparr>"]
  show ?case by (simp add: fe_ok_core [OF cancel.hyps(3)])
next
  case (post s k i ref s' b)
  from post_ok [OF post.prems post.hyps(1,2), of b] show ?case
    by (simp add: fe_ok_core [OF post.hyps(4)] post.hyps(3))
next
  case (pay s k i h amount c ref s' unc paid)
  let ?p = "payment_of ref h amount c unc"
  have "fe_ok (s\<lparr>fe_pay_seq := Suc (fe_pay_seq s),
      fe_payments := dput (py_reference ?p) ?p (fe_payments s),
      fe_evidence := insert (py_evidence ?p) (fe_evidence s)\<rparr>)"
    using pay.hyps pay.prems by (intro add_payment_ok [where k = k and i = i]) (simp_all add: payment_of_def)
  from update_invoice_ok [OF this, of k i "i\<lparr>iv_open := dsub (iv_open i) amount, iv_paid := paid\<rparr>"] pay.hyps(1)
  have ok: "fe_ok (s\<lparr>fe_pay_seq := Suc (fe_pay_seq s),
      fe_payments := dput (py_reference ?p) ?p (fe_payments s),
      fe_evidence := insert (py_evidence ?p) (fe_evidence s),
      fe_objs := dput k (i\<lparr>iv_open := dsub (iv_open i) amount, iv_paid := paid\<rparr>) (fe_objs s)\<rparr>)" by simp
  show ?case by (rule fe_ok_via [OF pay.hyps(11) ok]) (simp add: payment_of_def core_def)
next
  case (reverse s r p k i ref s')
  let ?q = "reversal_for ref p" and ?p = "p\<lparr>py_reversed := True\<rparr>"
  let ?s1 = "s\<lparr>fe_payments := dput r ?p (fe_payments s)\<rparr>"
  have ne: "ref \<noteq> r" using fresh_payment [OF reverse.prems] reverse.hyps(1,8) by auto
  have 1: "fe_ok ?s1" using update_payment_ok [OF reverse.prems reverse.hyps(1)] by simp
  have nev: "''EVI-REV-'' @ r \<notin> fe_evidence s"
  proof
    assume "''EVI-REV-'' @ r \<in> fe_evidence s"
    then obtain r2 q where q: "dget (fe_payments s) r2 = Some q" "py_evidence q = ''EVI-REV-'' @ r"
      using reverse.prems unfolding fe_ok_def evidence_ok_def by blast
    have "py_reversal_of q = Some r"
      using fe_okD(2) [OF reverse.prems q(1)] q(2)
      by (cases "py_reversal_of q") (auto simp: payment_ok_def startswith_def)
    then have "py_reversed p"
      using fe_okD(2) [OF reverse.prems q(1)] reverse.hyps(1) by (auto simp: payment_ok_def)
    with reverse.hyps(3) show False by simp
  qed
  have "fe_ok (?s1\<lparr>fe_pay_seq := Suc (fe_pay_seq ?s1),
      fe_payments := dput (py_reference ?q) ?q (fe_payments ?s1),
      fe_evidence := insert (py_evidence ?q) (fe_evidence ?s1)\<rparr>)"
    using reverse.hyps nev by (intro add_payment_ok [OF 1, where k = k and i = i]) (simp_all add: reversal_for_def)
  moreover have "dput ref ?q (dput r ?p (fe_payments s)) = dput r ?p (dput ref ?q (fe_payments s))"
    using reverse.hyps(1,8) fresh_payment [OF reverse.prems] ne
    by (simp add: dput_fresh dput_append)
  ultimately have 2: "fe_ok (s\<lparr>fe_pay_seq := Suc (fe_pay_seq s),
      fe_payments := dput r ?p (dput ref ?q (fe_payments s)),
      fe_evidence := insert (''EVI-REV-'' @ r) (fe_evidence s)\<rparr>)"
    using reverse.hyps(7) by (simp add: reversal_for_def)
  from update_invoice_ok [OF this, of k i "i\<lparr>iv_open := dadd (iv_open i) (py_amount p), iv_paid := False\<rparr>"]
    reverse.hyps(4)
  have ok: "fe_ok (s\<lparr>fe_pay_seq := Suc (fe_pay_seq s),
      fe_payments := dput r ?p (dput ref ?q (fe_payments s)),
      fe_evidence := insert (''EVI-REV-'' @ r) (fe_evidence s),
      fe_objs := dput k (i\<lparr>iv_open := dadd (iv_open i) (py_amount p), iv_paid := False\<rparr>) (fe_objs s)\<rparr>)"
    by simp
  show ?case by (rule fe_ok_via [OF reverse.hyps(9) ok]) (simp add: core_def)
next
  case (payflag s r p s' b)
  from update_payment_ok [OF payflag.prems payflag.hyps(1), of "p\<lparr>py_uncertain := b\<rparr>"] show ?case
    by (simp add: fe_ok_core [OF payflag.hyps(2)])
qed

lemma erp_run_simps: "erp_run [] s = s" "erp_run (x # xs) s = erp_run xs (erp_step x s)"
  by (simp_all add: erp_run_def)

lemma fe_ok_run: "fe_ok s \<Longrightarrow> fe_ok (erp_run xs s)"
  by (induction xs arbitrary: s) (simp_all add: erp_run_simps fe_ok_trans [OF erp_step_trans])

text \<open>The states a provider can get into whose series is not the drafts' own.\<close>

definition erp_from :: "str \<Rightarrow> fixture_erp \<Rightarrow> bool" where
  "erp_from pfx s = (pfx \<noteq> ''DRAFT'' \<and> (\<exists>n xs s0. mk_fixture pfx n = Inr s0 \<and> s = erp_run xs s0))"

lemma erp_from_ok: "erp_from pfx s \<Longrightarrow> fe_ok s"
  by (auto simp: erp_from_def intro: fe_ok_run mk_fixture_ok)

text \<open>A property of initial states that every transition keeps holds in every such state.\<close>

lemma erp_from_inv:
  assumes "erp_from pfx s" "\<And>n s0. mk_fixture pfx n = Inr s0 \<Longrightarrow> P s0"
    "\<And>s s'. fe_ok s \<Longrightarrow> P s \<Longrightarrow> erp_trans s s' \<Longrightarrow> P s'"
  shows "P s"
proof -
  from assms(1) obtain n xs s0 where s: "mk_fixture pfx n = Inr s0" "s = erp_run xs s0" "pfx \<noteq> ''DRAFT''"
    by (auto simp: erp_from_def)
  have "fe_ok a \<Longrightarrow> P a \<Longrightarrow> P (erp_run xs a)" for a
    by (induction xs arbitrary: a)
      (simp_all add: erp_run_simps fe_ok_trans [OF erp_step_trans] assms(3) [OF _ _ erp_step_trans])
  with s mk_fixture_ok assms(2) show ?thesis by blast
qed

section \<open>What is permanent\<close>

text \<open>What no operation ever undoes: an assigned official reference, the content of an
  invoice, the move out of DRAFT and into CANCELLED, a recorded payment, its reversal, and
  the use of an evidence reference.\<close>

definition invoice_keeps :: "invoice_state \<Rightarrow> invoice_state \<Rightarrow> bool" where
  "invoice_keeps i i' = (iv_draft i' = iv_draft i \<and> iv_total i' = iv_total i
     \<and> iv_currency i' = iv_currency i \<and> iv_issued i' = iv_issued i \<and> iv_due i' = iv_due i
     \<and> iv_payload i' = iv_payload i
     \<and> (iv_official i = None \<or> iv_official i' = iv_official i)
     \<and> (iv_status i = ''DRAFT'' \<or> iv_status i' \<noteq> ''DRAFT'')
     \<and> (iv_status i \<noteq> ''CANCELLED'' \<or> iv_status i' = ''CANCELLED''))"

definition payment_keeps :: "payment_state \<Rightarrow> payment_state \<Rightarrow> bool" where
  "payment_keeps p p' = (p' = p\<lparr>py_reversed := py_reversed p', py_uncertain := py_uncertain p'\<rparr>
     \<and> (py_reversed p \<longrightarrow> py_reversed p'))"

definition dict_keeps :: "('v \<Rightarrow> 'v \<Rightarrow> bool) \<Rightarrow> (str, 'v) dict \<Rightarrow> (str, 'v) dict \<Rightarrow> bool" where
  "dict_keeps R d d' = (\<forall>k v. dget d k = Some v \<longrightarrow> (\<exists>v'. dget d' k = Some v' \<and> R v v'))"

definition erp_keeps :: "fixture_erp \<Rightarrow> fixture_erp \<Rightarrow> bool" where
  "erp_keeps s s' = (dict_keeps invoice_keeps (fe_objs s) (fe_objs s')
     \<and> dict_keeps payment_keeps (fe_payments s) (fe_payments s') \<and> fe_evidence s \<subseteq> fe_evidence s')"

lemma keeps_refl [simp]: "invoice_keeps i i" "payment_keeps p p"
  by (simp_all add: invoice_keeps_def payment_keeps_def)

lemma keeps_trans:
  "invoice_keeps i j \<Longrightarrow> invoice_keeps j k \<Longrightarrow> invoice_keeps i k"
  "payment_keeps p q \<Longrightarrow> payment_keeps q r \<Longrightarrow> payment_keeps p r"
proof -
  show "payment_keeps p q \<Longrightarrow> payment_keeps q r \<Longrightarrow> payment_keeps p r"
    by (cases p; cases q; cases r) (auto simp: payment_keeps_def)
qed (auto simp: invoice_keeps_def)

lemma dict_keeps_refl: "(\<And>v. R v v) \<Longrightarrow> dict_keeps R d d"
  by (simp add: dict_keeps_def)

lemma dict_keeps_trans:
  "(\<And>a b c. R a b \<Longrightarrow> R b c \<Longrightarrow> R a c) \<Longrightarrow> dict_keeps R d e \<Longrightarrow> dict_keeps R e f \<Longrightarrow> dict_keeps R d f"
  unfolding dict_keeps_def by blast

lemma dict_keeps_dput:
  "(\<And>v. R v v) \<Longrightarrow> (\<And>v0. dget d k = Some v0 \<Longrightarrow> R v0 v) \<Longrightarrow> dict_keeps R d (dput k v d)"
  by (simp add: dict_keeps_def)

lemma erp_keeps_refl [simp]: "erp_keeps s s"
  by (simp add: erp_keeps_def dict_keeps_refl)

lemma erp_keeps_trans: "erp_keeps a b \<Longrightarrow> erp_keeps b c \<Longrightarrow> erp_keeps a c"
  unfolding erp_keeps_def
  using dict_keeps_trans [of invoice_keeps] dict_keeps_trans [of payment_keeps] keeps_trans by blast

lemma erp_trans_keeps:
  assumes "erp_trans s s'" "fe_ok s"
  shows "erp_keeps s s'"
  using assms
proof (induction rule: erp_trans.induct)
  case (same s' s)
  from core_eqD [OF same(1)] show ?case by (simp add: erp_keeps_def dict_keeps_refl)
next
  case (draft i s s')
  from core_eqD [OF draft.hyps(6)] show ?case
    using fresh_draft [OF draft.prems] draft.hyps(1)
    by (auto simp: erp_keeps_def intro!: dict_keeps_refl dict_keeps_dput)
next
  case (flag s k i s' b)
  from core_eqD [OF flag.hyps(2)] flag.hyps(1) show ?case
    by (auto simp: erp_keeps_def invoice_keeps_def intro!: dict_keeps_refl dict_keeps_dput)
next
  case (cancel s k i s')
  from core_eqD [OF cancel.hyps(3)] cancel.hyps(1) show ?case
    by (auto simp: erp_keeps_def invoice_keeps_def intro!: dict_keeps_refl dict_keeps_dput)
next
  case (post s k i ref s' b)
  have "iv_official i = None"
    using fe_okD(1) [OF post.prems post.hyps(1)] post.hyps(2) by (auto simp: invoice_ok_def)
  with core_eqD [OF post.hyps(4)] post.hyps(1,2) show ?case
    by (auto simp: erp_keeps_def invoice_keeps_def intro!: dict_keeps_refl dict_keeps_dput)
next
  case (pay s k i h amount c ref s' unc paid)
  have "dict_keeps payment_keeps (fe_payments s) (dput ref (payment_of ref h amount c unc) (fe_payments s))"
    using fresh_payment [OF pay.prems] pay.hyps(10) by (auto intro!: dict_keeps_dput)
  with core_eqD [OF pay.hyps(11)] pay.hyps(1,2) show ?case
    by (auto simp: erp_keeps_def invoice_keeps_def intro!: dict_keeps_refl dict_keeps_dput)
next
  case (reverse s r p k i ref s')
  have "dict_keeps payment_keeps (fe_payments s)
      (dput r (p\<lparr>py_reversed := True\<rparr>) (dput ref (reversal_for ref p) (fe_payments s)))"
    using fresh_payment [OF reverse.prems] reverse.hyps(1,8)
    by (auto simp: dict_keeps_def payment_keeps_def)
  with core_eqD [OF reverse.hyps(9)] reverse.hyps(4,5) show ?case
    by (auto simp: erp_keeps_def invoice_keeps_def intro!: dict_keeps_refl dict_keeps_dput)
next
  case (payflag s r p s' b)
  from core_eqD [OF payflag.hyps(2)] payflag.hyps(1) show ?case
    by (auto simp: erp_keeps_def payment_keeps_def intro!: dict_keeps_refl dict_keeps_dput)
qed

lemma erp_run_keeps: "fe_ok s \<Longrightarrow> erp_keeps s (erp_run xs s)"
proof (induction xs arbitrary: s)
  case (Cons x xs)
  have "fe_ok (erp_step x s)" by (rule fe_ok_trans [OF erp_step_trans [OF Cons.prems] Cons.prems])
  from erp_keeps_trans [OF erp_trans_keeps [OF erp_step_trans Cons.prems] Cons.IH [OF this]] Cons.prems
  show ?case by (simp add: erp_run_simps)
qed (simp add: erp_run_simps)

section \<open>The open balance\<close>

text \<open>A payment that counts against the invoice \<open>h\<close>, and the sum of those, in units of
  \<open>10^-sc\<close>.\<close>

definition counted :: "str \<Rightarrow> payment_state \<Rightarrow> bool" where
  "counted h p = (py_invoice p = h \<and> py_reversal_of p = None \<and> \<not> py_reversed p)"

definition paid_value :: "nat \<Rightarrow> str \<Rightarrow> payment_state \<Rightarrow> int" where
  "paid_value sc h p = (if counted h p then dint (- int sc) (py_amount p) else 0)"

definition paid_sum :: "nat \<Rightarrow> str \<Rightarrow> (str, payment_state) dict \<Rightarrow> int" where
  "paid_sum sc h d = sum_list (map (paid_value sc h) (dvals d))"

lemma outstanding_sum:
  "iv_official i = Some h \<Longrightarrow>
     (\<Sum>p \<leftarrow> outstanding s i. dint (- int sc) (py_amount p)) = paid_sum sc h (fe_payments s)"
proof -
  assume h: "iv_official i = Some h"
  have "(\<Sum>p \<leftarrow> filter (counted h) ps. dint (- int sc) (py_amount p))
      = sum_list (map (paid_value sc h) ps)" for ps
    by (induction ps) (simp_all add: paid_value_def)
  moreover have "outstanding s i = filter (counted h) (dvals (fe_payments s))"
    using h unfolding outstanding_def counted_def by (intro filter_cong) auto
  ultimately show ?thesis by (simp add: paid_sum_def)
qed

lemma paid_sum_fresh:
  "dget d k = None \<Longrightarrow> paid_sum sc h (dput k p d) = paid_sum sc h d + paid_value sc h p"
  by (simp add: paid_sum_def dvals_fresh)

lemma paid_sum_update:
  "dict_ok d \<Longrightarrow> dget d k = Some q \<Longrightarrow>
     paid_sum sc h (dput k p d) = paid_sum sc h d - paid_value sc h q + paid_value sc h p"
proof (induction d)
  case (Cons x d)
  then show ?case
    by (cases x; cases "fst x = k") (auto simp: paid_sum_def dvals_def dict_ok_def)
qed simp

text \<open>The amounts of the payments on \<open>h\<close>, and the total, are exact in \<open>sc\<close> decimals.\<close>

definition all_fit :: "nat \<Rightarrow> str \<Rightarrow> (str, payment_state) dict \<Rightarrow> bool" where
  "all_fit sc h d = (\<forall>p \<in> set (dvals d). py_invoice p = h \<and> py_reversal_of p = None \<longrightarrow> fits sc (py_amount p))"

definition balanced :: "nat \<Rightarrow> fixture_erp \<Rightarrow> invoice_state \<Rightarrow> str \<Rightarrow> bool" where
  "balanced sc s i h = (fits sc (iv_open i) \<and> 0 \<le> dint (- int sc) (iv_open i)
     \<and> dint (- int sc) (iv_open i) + paid_sum sc h (fe_payments s) = dint (- int sc) (iv_total i))"

definition bal_ok :: "nat \<Rightarrow> fixture_erp \<Rightarrow> bool" where
  "bal_ok sc s = ((\<forall>k i. dget (fe_objs s) k = Some i \<longrightarrow> \<not> d_neg (iv_total i)
       \<and> (iv_status i = ''DRAFT'' \<longrightarrow> iv_open i = iv_total i)
       \<and> (\<forall>h. iv_status i = ''POSTED'' \<and> iv_official i = Some h \<and> fits sc (iv_total i)
            \<and> all_fit sc h (fe_payments s) \<longrightarrow> balanced sc s i h))
     \<and> (\<forall>r p. dget (fe_payments s) r = Some p \<and> py_reversal_of p = None \<longrightarrow> 0 < scoef (py_amount p)))"

lemma all_fit_get:
  "dict_ok d \<Longrightarrow> all_fit sc h d \<longleftrightarrow>
     (\<forall>r p. dget d r = Some p \<and> py_invoice p = h \<and> py_reversal_of p = None \<longrightarrow> fits sc (py_amount p))"
  by (auto simp: all_fit_def dict_ok_vals)

lemma all_fitD:
  "dict_ok d \<Longrightarrow> all_fit sc h d \<Longrightarrow> dget d r = Some p \<Longrightarrow> py_invoice p = h \<Longrightarrow>
     py_reversal_of p = None \<Longrightarrow> fits sc (py_amount p)"
  by (auto simp: all_fit_def dict_ok_vals)

text \<open>Payments are only added, so amounts that are exact later are exact now.\<close>

lemma all_fit_back:
  assumes "dict_keeps payment_keeps d d'" "dict_ok d" "dict_ok d'" "all_fit sc h d'"
  shows "all_fit sc h d"
proof -
  have "fits sc (py_amount p)" if p: "dget d r = Some p" "py_invoice p = h" "py_reversal_of p = None" for r p
  proof -
    from assms(1) p(1) obtain p' where p': "dget d' r = Some p'" "payment_keeps p p'"
      unfolding dict_keeps_def by blast
    then have e: "py_invoice p' = py_invoice p" "py_reversal_of p' = py_reversal_of p" "py_amount p' = py_amount p"
      by (cases p; cases p'; simp add: payment_keeps_def)+
    with p p'(1) have "dget d' r = Some p' \<and> py_invoice p' = h \<and> py_reversal_of p' = None" by simp
    with assms(4) [unfolded all_fit_get [OF assms(3)]] have "fits sc (py_amount p')" by blast
    with e(3) show ?thesis by simp
  qed
  then show ?thesis unfolding all_fit_get [OF assms(2)] by blast
qed

lemma paid_sum_zero:
  "(\<And>p. p \<in> set (dvals d) \<Longrightarrow> py_invoice p \<noteq> h) \<Longrightarrow> paid_sum sc h d = 0"
  by (simp add: paid_sum_def paid_value_def counted_def map_idI sum_list_0 cong: map_cong)

lemma paid_sum_nonneg:
  assumes "dict_ok d" "\<And>r p. dget d r = Some p \<Longrightarrow> py_reversal_of p = None \<Longrightarrow> 0 < scoef (py_amount p)"
  shows "0 \<le> paid_sum sc h d"
proof -
  have "0 \<le> paid_value sc h p" if "p \<in> set (dvals d)" for p
    using that assms by (auto simp: dict_ok_vals paid_value_def counted_def dint_def order_less_imp_le)
  then show ?thesis unfolding paid_sum_def by (intro sum_list_nonneg) auto
qed

lemma bal_okD:
  assumes "bal_ok sc s" "dget (fe_objs s) k = Some i"
  shows "\<not> d_neg (iv_total i)" "iv_status i = ''DRAFT'' \<Longrightarrow> iv_open i = iv_total i"
    "iv_status i = ''POSTED'' \<Longrightarrow> iv_official i = Some h \<Longrightarrow> fits sc (iv_total i) \<Longrightarrow>
       all_fit sc h (fe_payments s) \<Longrightarrow> balanced sc s i h"
  using assms by (auto simp: bal_ok_def)

lemma bal_okP: "bal_ok sc s \<Longrightarrow> dget (fe_payments s) r = Some p \<Longrightarrow> py_reversal_of p = None \<Longrightarrow>
    0 < scoef (py_amount p)"
  by (simp add: bal_ok_def)

lemma bal_ok_cong:
  "fe_objs s' = fe_objs s \<Longrightarrow> fe_payments s' = fe_payments s \<Longrightarrow> bal_ok sc s' = bal_ok sc s"
  by (simp add: bal_ok_def balanced_def)

lemma official_unique:
  assumes "fe_ok s" "dget (fe_objs s) k = Some i" "dget (fe_objs s) k' = Some i'"
    "iv_official i = Some h" "iv_official i' = Some h"
  shows "k = k'"
  using fe_okD(1) [OF assms(1,2)] fe_okD(1) [OF assms(1,3)] assms(4,5) by (simp add: invoice_ok_def)

text \<open>Changing one invoice: its own obligations are what remains.\<close>

lemma bal_update_invoice:
  assumes "bal_ok sc s" "fe_payments s' = fe_payments s" "fe_objs s' = dput k i (fe_objs s)"
    and "\<not> d_neg (iv_total i)" "iv_status i = ''DRAFT'' \<Longrightarrow> iv_open i = iv_total i"
      "\<And>h. iv_status i = ''POSTED'' \<Longrightarrow> iv_official i = Some h \<Longrightarrow> fits sc (iv_total i) \<Longrightarrow>
         all_fit sc h (fe_payments s) \<Longrightarrow> balanced sc s i h"
  shows "bal_ok sc s'"
proof -
  have "balanced sc s' j h = balanced sc s j h" for j h by (simp add: balanced_def assms(2))
  with assms show ?thesis by (auto simp: bal_ok_def)
qed

lemma bal_post:
  assumes "bal_ok sc s" "fe_ok s" "dget (fe_objs s) k = Some i" "iv_status i = ''DRAFT''"
    and "fe_payments s' = fe_payments s"
      "fe_objs s' = dput k (i\<lparr>iv_official := Some (ref_num (fe_prefix s) 6 (fe_seq s)),
         iv_status := ''POSTED'', iv_uncertain := b\<rparr>) (fe_objs s)"
  shows "bal_ok sc s'"
proof (rule bal_update_invoice [OF assms(1,5,6)])
  fix h
  let ?ref = "ref_num (fe_prefix s) 6 (fe_seq s)"
  let ?i = "i\<lparr>iv_official := Some ?ref, iv_status := ''POSTED'', iv_uncertain := b\<rparr>"
  assume h: "iv_official ?i = Some h" and f: "fits sc (iv_total ?i)"
  have d: "dict_ok (fe_payments s)" using assms(2) by (simp add: fe_ok_def)
  have "py_invoice p \<noteq> ?ref" if p: "p \<in> set (dvals (fe_payments s))" for p
  proof -
    from p d obtain r where "dget (fe_payments s) r = Some p" by (auto simp: dict_ok_vals)
    from fe_okD(2) [OF assms(2) this] obtain k2 j
      where "dget (fe_objs s) k2 = Some j" "iv_official j = Some (py_invoice p)"
      by (auto simp: payment_ok_def)
    with fe_okD(1) [OF assms(2) this(1)] show ?thesis by (auto simp: invoice_ok_def)
  qed
  then have "paid_sum sc ?ref (fe_payments s) = 0" by (rule paid_sum_zero)
  with h f bal_okD(1,2) [OF assms(1,3)] assms(4) show "balanced sc s ?i h"
    by (auto simp: balanced_def dint_nonneg)
qed (use bal_okD(1) [OF assms(1,3)] in simp_all)

text \<open>Changing the payments: an invoice none of them is about keeps its balance.\<close>

lemma bal_ok_payments:
  assumes s: "bal_ok sc s" "fe_ok s" "fe_ok s'" "dict_keeps payment_keeps (fe_payments s) (fe_payments s')"
    and i: "dget (fe_objs s) k = Some i" "iv_official i = Some h" "iv_status i = ''POSTED''"
    and i': "iv_official i' = Some h" "iv_status i' = ''POSTED''" "iv_total i' = iv_total i"
      "fe_objs s' = dput k i' (fe_objs s)"
    and other: "\<And>g. g \<noteq> h \<Longrightarrow> paid_sum sc g (fe_payments s') = paid_sum sc g (fe_payments s)"
    and bal: "fits sc (iv_total i) \<Longrightarrow> all_fit sc h (fe_payments s') \<Longrightarrow> balanced sc s i h \<Longrightarrow>
      balanced sc s' i' h"
    and pos: "\<And>r p. dget (fe_payments s') r = Some p \<Longrightarrow> py_reversal_of p = None \<Longrightarrow> 0 < scoef (py_amount p)"
  shows "bal_ok sc s'"
proof -
  have d: "dict_ok (fe_payments s)" "dict_ok (fe_payments s')" using s(2,3) by (simp_all add: fe_ok_def)
  have "balanced sc s' j g" if j: "dget (fe_objs s') k2 = Some j" "iv_status j = ''POSTED''"
    "iv_official j = Some g" "fits sc (iv_total j)" "all_fit sc g (fe_payments s')" for k2 j g
  proof (cases "k2 = k")
    case True
    with j i' have "j = i'" "g = h" by auto
    with j i i' bal bal_okD(3) [OF s(1) i(1) i(3,2)] all_fit_back [OF s(4) d j(5)] show ?thesis by simp
  next
    case False
    with j i'(4) have j0: "dget (fe_objs s) k2 = Some j" by simp
    have "g \<noteq> h" using official_unique [OF s(2) j0 i(1) j(3)] i(2) False by auto
    with other bal_okD(3) [OF s(1) j0 j(2,3,4)] all_fit_back [OF s(4) d j(5)] show ?thesis
      by (simp add: balanced_def)
  qed
  moreover have "\<not> d_neg (iv_total j) \<and> (iv_status j = ''DRAFT'' \<longrightarrow> iv_open j = iv_total j)"
    if "dget (fe_objs s') k2 = Some j" for k2 j
    using that i' i bal_okD(1,2) [OF s(1)] by (auto split: if_splits)
  ultimately show ?thesis using pos unfolding bal_ok_def by blast
qed

lemma fits_le_total:
  "fits sc a \<Longrightarrow> - int sc \<le> d_exp b \<Longrightarrow> 0 \<le> dint (- int sc) b \<Longrightarrow>
     dint (- int sc) b \<le> dint (- int sc) a \<Longrightarrow> fits sc b"
  by (simp add: fits_def)

lemma balanced_pay:
  assumes "balanced sc s i h" "fits sc (iv_total i)" "fits sc amount" "dlt dzero amount"
    "dle amount (iv_open i)" "dget (fe_payments s) ref = None"
    "fe_payments s' = dput ref p (fe_payments s)" "counted h p" "py_amount p = amount"
    "iv_open i' = dsub (iv_open i) amount" "iv_total i' = iv_total i"
  shows "balanced sc s' i' h"
proof -
  let ?v = "dint (- int sc)"
  have f: "fits sc (iv_open i)" "0 \<le> ?v (iv_open i)"
    "?v (iv_open i) + paid_sum sc h (fe_payments s) = ?v (iv_total i)"
    using assms(1) by (simp_all add: balanced_def)
  have "?v amount \<le> ?v (iv_open i)"
    using assms(5) dle_iff [of "- int sc" amount "iv_open i"] assms(3) f(1) by (simp add: fits_def)
  moreover have "0 < ?v amount" using fits_dlt [OF fits_dzero assms(3)] assms(4) by simp
  ultimately have "\<bar>?v (iv_open i) - ?v amount\<bar> < 10 ^ dprec" "0 \<le> ?v (iv_open i) - ?v amount"
    using f(1) by (simp_all add: fits_def)
  with fits_dsub [OF f(1) assms(3)] f(3) assms(6-11) show ?thesis
    by (simp add: balanced_def paid_sum_fresh paid_value_def)
qed

lemma bal_pay:
  assumes ok: "bal_ok sc s" "fe_ok s" "fe_ok s'"
    and i: "dget (fe_objs s) k = Some i" "iv_status i = ''POSTED''" "iv_official i = Some h"
    and a: "dlt dzero amount" "dle amount (iv_open i)"
    and ref: "ref = ref_num ''PAY'' 6 (fe_pay_seq s)"
    and s': "fe_objs s' = dput k (i\<lparr>iv_open := dsub (iv_open i) amount, iv_paid := paid\<rparr>) (fe_objs s)"
      "fe_payments s' = dput ref (payment_of ref h amount c unc) (fe_payments s)"
  shows "bal_ok sc s'"
proof -
  let ?p = "payment_of ref h amount c unc"
  have fr: "dget (fe_payments s) ref = None" using fresh_payment [OF ok(2)] ref by simp
  have p: "counted h ?p" "py_amount ?p = amount" "py_invoice ?p = h" "py_reversal_of ?p = None"
    by (simp_all add: payment_of_def counted_def)
  have keep: "dict_keeps payment_keeps (fe_payments s) (fe_payments s')"
    using fr unfolding s'(2) by (auto intro!: dict_keeps_dput)
  show ?thesis
  proof (rule bal_ok_payments [OF ok keep i(1,3,2) _ _ _ s'(1)])
    show "paid_sum sc g (fe_payments s') = paid_sum sc g (fe_payments s)" if "g \<noteq> h" for g
      using that p(3) by (simp add: s'(2) paid_sum_fresh [OF fr] paid_value_def counted_def)
    show "balanced sc s' (i\<lparr>iv_open := dsub (iv_open i) amount, iv_paid := paid\<rparr>) h"
      if "fits sc (iv_total i)" "all_fit sc h (fe_payments s')" "balanced sc s i h"
    proof -
      have "dict_ok (fe_payments s')" using ok(3) by (simp add: fe_ok_def)
      from all_fitD [OF this that(2), of ref ?p] p s'(2) have "fits sc amount" by simp
      then show ?thesis by (intro balanced_pay [OF that(3,1) _ a fr s'(2) p(1,2)]) simp_all
    qed
    show "0 < scoef (py_amount q)" if "dget (fe_payments s') r = Some q" "py_reversal_of q = None" for r q
      using that bal_okP [OF ok(1)] a(1) p(2) by (auto simp: s'(2) dlt_dzero split: if_splits)
  qed (use i in simp_all)
qed

lemma bal_reverse:
  assumes ok: "bal_ok sc s" "fe_ok s" "fe_ok s'" "dict_keeps payment_keeps (fe_payments s) (fe_payments s')"
    and p: "dget (fe_payments s) r = Some p" "py_reversal_of p = None" "\<not> py_reversed p"
    and i: "dget (fe_objs s) k = Some i" "iv_status i \<noteq> ''CANCELLED''" "iv_official i = Some (py_invoice p)"
    and ref: "ref = ref_num ''PAY'' 6 (fe_pay_seq s)"
    and s': "fe_objs s' = dput k (i\<lparr>iv_open := dadd (iv_open i) (py_amount p), iv_paid := False\<rparr>) (fe_objs s)"
      "fe_payments s' = dput r (p\<lparr>py_reversed := True\<rparr>) (dput ref (reversal_for ref p) (fe_payments s))"
  shows "bal_ok sc s'"
proof -
  let ?q = "reversal_for ref p" and ?v = "dint (- int sc)" and ?h = "py_invoice p"
  let ?i = "i\<lparr>iv_open := dadd (iv_open i) (py_amount p), iv_paid := False\<rparr>"
  have fr: "dget (fe_payments s) ref = None" using fresh_payment [OF ok(2)] ref by simp
  have d: "dict_ok (fe_payments s)" "dict_ok (fe_payments s')" using ok(2,3) by (simp_all add: fe_ok_def)
  have posted: "iv_status i = ''POSTED''" using fe_okD(1) [OF ok(2) i(1)] i(2,3) by (auto simp: invoice_ok_def)
  have sum: "paid_sum sc g (fe_payments s') = paid_sum sc g (fe_payments s) - paid_value sc g p" for g
  proof -
    have ne: "r \<noteq> ref" using p(1) fr by auto
    have "paid_value sc g ?q = 0" "paid_value sc g (p\<lparr>py_reversed := True\<rparr>) = 0"
      by (simp_all add: paid_value_def counted_def reversal_for_def)
    then show ?thesis
      using paid_sum_update [of "dput ref ?q (fe_payments s)" r p sc g "p\<lparr>py_reversed := True\<rparr>"]
        d(1) p(1) ne paid_sum_fresh [OF fr, of sc g ?q] by (simp add: s'(2))
  qed
  have pos: "0 < scoef (py_amount q)" if "dget (fe_payments s') r2 = Some q" "py_reversal_of q = None" for r2 q
    using that bal_okP [OF ok(1)] p by (auto simp: s'(2) reversal_for_def split: if_splits)
  have vp: "paid_value sc ?h p = ?v (py_amount p)" using p by (simp add: paid_value_def counted_def)
  show ?thesis
  proof (rule bal_ok_payments [OF ok i(1,3) posted _ _ _ s'(1)])
    show "paid_sum sc g (fe_payments s') = paid_sum sc g (fe_payments s)" if "g \<noteq> ?h" for g
      using that by (simp add: sum paid_value_def counted_def)
    show "balanced sc s' ?i ?h"
      if b: "fits sc (iv_total i)" "all_fit sc ?h (fe_payments s')" "balanced sc s i ?h"
    proof -
      have fp: "fits sc (py_amount p)" by (rule all_fitD [OF d(1) all_fit_back [OF ok(4) d b(2)] p(1) refl p(2)])
      have f: "fits sc (iv_open i)" "0 \<le> ?v (iv_open i)"
        "?v (iv_open i) + paid_sum sc ?h (fe_payments s) = ?v (iv_total i)"
        using b(3) by (simp_all add: balanced_def)
      have nn: "0 \<le> paid_sum sc ?h (fe_payments s')" by (rule paid_sum_nonneg [OF d(2) pos])
      have vpos: "0 < ?v (py_amount p)" using bal_okP [OF ok(1) p(1,2)] by (simp add: dint_def)
      have "\<bar>?v (iv_open i) + ?v (py_amount p)\<bar> < 10 ^ dprec"
        using nn f vpos b(1) sum [of ?h] vp by (simp add: fits_def)
      from fits_dadd [OF f(1) fp this] f vpos sum [of ?h] vp show ?thesis by (simp add: balanced_def)
    qed
  qed (use i posted pos in simp_all)
qed

lemma bal_payflag:
  assumes ok: "bal_ok sc s" "fe_ok s" "fe_ok s'" "dict_keeps payment_keeps (fe_payments s) (fe_payments s')"
    and p: "dget (fe_payments s) r = Some p" "fe_objs s' = fe_objs s"
      "fe_payments s' = dput r (p\<lparr>py_uncertain := b\<rparr>) (fe_payments s)"
  shows "bal_ok sc s'"
proof -
  have d: "dict_ok (fe_payments s)" "dict_ok (fe_payments s')" using ok(2,3) by (simp_all add: fe_ok_def)
  have "paid_sum sc g (fe_payments s') = paid_sum sc g (fe_payments s)" for g
    using paid_sum_update [OF d(1) p(1)] by (simp add: p(3) paid_value_def counted_def)
  then have "balanced sc s' j g = balanced sc s j g" for j g by (simp add: balanced_def)
  moreover have "0 < scoef (py_amount q)" if "dget (fe_payments s') r2 = Some q" "py_reversal_of q = None" for r2 q
    using that bal_okP [OF ok(1)] p by (auto split: if_splits)
  ultimately show ?thesis
    using ok(1) all_fit_back [OF ok(4) d] unfolding bal_ok_def p(2) by blast
qed

lemma bal_ok_trans:
  assumes "erp_trans s s'" "fe_ok s" "bal_ok sc s"
  shows "bal_ok sc s'"
proof -
  have ok': "fe_ok s'" and keep: "dict_keeps payment_keeps (fe_payments s) (fe_payments s')"
    using fe_ok_trans erp_trans_keeps assms(1,2) by (blast, simp add: erp_keeps_def)
  from assms(1) show ?thesis
  proof cases
    case same
    from core_eqD [OF same(1)] assms(3) show ?thesis by (simp add: bal_ok_cong [of s' s])
  next
    case (draft i)
    from core_eqD [OF draft(6)] draft(2-5) show ?thesis
      by (intro bal_update_invoice [OF assms(3), where k = "iv_draft i" and i = i]) auto
  next
    case (flag k i b)
    from core_eqD [OF flag(2)] bal_okD [OF assms(3) flag(1)] show ?thesis
      by (intro bal_update_invoice [OF assms(3), where k = k and i = "i\<lparr>iv_uncertain := b\<rparr>"])
        (auto simp: balanced_def)
  next
    case (cancel k i)
    from core_eqD [OF cancel(3)] bal_okD [OF assms(3) cancel(1)] show ?thesis
      by (intro bal_update_invoice [OF assms(3), where k = k
            and i = "i\<lparr>iv_status := ''CANCELLED'', iv_open := dzero\<rparr>"]) auto
  next
    case (post k i ref b)
    from core_eqD [OF post(4)] post(3) show ?thesis
      by (intro bal_post [OF assms(3,2) post(1,2)]) auto
  next
    case (pay k i h amount c ref unc paid)
    from core_eqD [OF pay(11)] show ?thesis
      by (intro bal_pay [OF assms(3,2) ok' pay(1,2,3,4,5,10)]) auto
  next
    case (reverse r p k i ref)
    from core_eqD [OF reverse(9)] show ?thesis
      by (intro bal_reverse [OF assms(3,2) ok' keep reverse(1,2,3,4,5,6,8)]) auto
  next
    case (payflag r p b)
    from core_eqD [OF payflag(2)] show ?thesis
      by (intro bal_payflag [OF assms(3,2) ok' keep payflag(1)]) auto
  qed
qed

section \<open>The read-back contract\<close>

definition fixture_posted :: "fixture_erp \<Rightarrow> str \<Rightarrow> str option" where
  "fixture_posted s d = (case find_invoice s d of None \<Rightarrow> None
     | Some i \<Rightarrow> if iv_status i = ''POSTED'' then iv_official i else None)"

definition fixture_paid :: "fixture_erp \<Rightarrow> str \<Rightarrow> str option" where
  "fixture_paid s e = map_option fst (find (\<lambda>(r, p). py_evidence p = e) (fe_payments s))"

lemma find_dput:
  "dget d r = Some p \<Longrightarrow> py_evidence p' = py_evidence p \<Longrightarrow>
     map_option fst (find (\<lambda>(r, p). py_evidence p = e) (dput r p' d))
     = map_option fst (find (\<lambda>(r, p). py_evidence p = e) d)"
  by (induction d) (auto split: if_splits)

lemma fixture_posted_flag:
  assumes "fe_ok s" "find_invoice s d = Some i"
  shows "fixture_posted (set_uncertain (iv_draft i) b s) = fixture_posted s"
proof
  fix x
  have o: "dget (fe_objs s) (iv_draft i) = Some i" by (rule find_invoice_obj [OF assms])
  then show "fixture_posted (set_uncertain (iv_draft i) b s) x = fixture_posted s x"
    by (cases "dget (fe_handles s) x")
      (auto simp: fixture_posted_def find_invoice_def set_uncertain_def store_invoice_def split: option.splits)
qed

lemma reconcile_post_frame:
  assumes "fe_ok s" "reconcile_post d s = (r, s')"
  shows "fe_ok s' \<and> fixture_posted s' = fixture_posted s \<and> fixture_paid s' = fixture_paid s"
proof -
  have ok: "fe_ok s'" using fe_ok_trans [OF reconcile_post_trans [OF assms(1), of d] assms(1)] assms(2) by simp
  have "s' = s \<or> (\<exists>i b. find_invoice s d = Some i \<and> s' = set_uncertain (iv_draft i) b s)"
    using assms(2) by (auto simp: reconcile_post_def Let_def split: option.splits if_splits)
  moreover have "fe_payments (set_uncertain k b s) = fe_payments s" for k b
    by (simp add: set_uncertain_def store_invoice_def split: option.splits)
  ultimately show ?thesis using ok fixture_posted_flag [OF assms(1)] by (auto simp: fixture_paid_def fun_eq_iff)
qed

lemma reconcile_post_answer:
  assumes "fe_ok s" "reconcile_post d s = (Inr res, s')"
  shows "fixture_posted s d = (if po_outcome res = O_POSTED then po_reference res else None)"
proof -
  obtain i where i: "find_invoice s d = Some i"
    using assms(2) by (auto simp: reconcile_post_def split: option.splits)
  have "iv_status i = ''POSTED'' \<longrightarrow> iv_official i \<noteq> None"
    using fe_okD(1) [OF assms(1) find_invoice_obj [OF assms(1) i]] by (auto simp: invoice_ok_def)
  with i assms(2) show ?thesis
    by (auto simp: reconcile_post_def fixture_posted_def posting_def Let_def split: if_splits)
qed

lemma reconcile_payment_frame:
  assumes "fe_ok s" "reconcile_payment e s = (r, s')"
  shows "fe_ok s' \<and> fixture_posted s' = fixture_posted s \<and> fixture_paid s' = fixture_paid s"
proof -
  have ok: "fe_ok s'" using fe_ok_trans [OF reconcile_payment_trans [OF assms(1), of e] assms(1)] assms(2) by simp
  have "s' = s \<or> (\<exists>r p. dget (fe_payments s) r = Some p
      \<and> s' = s\<lparr>fe_payments := dput r (p\<lparr>py_uncertain := False\<rparr>) (fe_payments s)\<rparr>)"
  proof (cases "find (\<lambda>(r, p). py_evidence p = e) (fe_payments s)")
    case (Some rp)
    then have "rp \<in> set (fe_payments s)" by (auto simp: find_Some_iff in_set_conv_nth)
    with assms(1) have "dget (fe_payments s) (fst rp) = Some (snd rp)"
      using dict_ok_get [of "fe_payments s" "fst rp" "snd rp"] by (simp add: fe_ok_def)
    with Some assms(2) show ?thesis
      by (cases rp) (auto simp: reconcile_payment_def split: if_splits)
  qed (use assms(2) in \<open>simp add: reconcile_payment_def split: if_splits\<close>)
  then show ?thesis
    using ok by (auto simp: fixture_paid_def fixture_posted_def find_invoice_def find_dput fun_eq_iff)
qed

lemma reconcile_payment_answer:
  assumes ok: "fe_ok w" and p: "reconcile_payment e w = (Inr pay, w')"
  shows "fixture_paid w e = Some (pr_reference pay)"
proof -
  obtain r q where f: "find (\<lambda>(r, p). py_evidence p = e) (fe_payments w) = Some (r, q)"
    and q: "pay = to_payment_record q"
    using p by (auto simp: reconcile_payment_def split: if_splits option.splits)
  have "(r, q) \<in> set (fe_payments w)" using f by (auto simp: find_Some_iff in_set_conv_nth)
  then have "dget (fe_payments w) r = Some q" using ok dict_ok_get by (fastforce simp: fe_ok_def)
  then have "py_reference q = r" using fe_okD(2) [OF ok] by (auto simp: payment_ok_def)
  with f q show ?thesis by (simp add: fixture_paid_def to_payment_record_def)
qed

lemma reconcile_payment_absent:
  assumes ok: "fe_ok w" and p: "reconcile_payment e w = (Inl x, w')"
  shows "fixture_paid w e = None"
proof -
  have "py_evidence q \<noteq> e" if "e \<notin> fe_evidence w" "(r, q) \<in> set (fe_payments w)" for r q
  proof -
    from that(2) have "dget (fe_payments w) r = Some q" using ok dict_ok_get by (fastforce simp: fe_ok_def)
    from fe_okD(2) [OF ok this] that(1) show ?thesis by (auto simp: payment_ok_def)
  qed
  then have "e \<notin> fe_evidence w \<Longrightarrow> find (\<lambda>(r, p). py_evidence p = e) (fe_payments w) = None"
    by (auto simp: find_None_iff)
  with p show ?thesis
    by (cases "find (\<lambda>(r, p). py_evidence p = e) (fe_payments w)")
      (auto simp: reconcile_payment_def fixture_paid_def split: if_splits)
qed

lemma fixture_port_simps [simp]:
  "port_reconcile_post fixture_port = reconcile_post"
  "port_reconcile_payment fixture_port = reconcile_payment"
  "port_query fixture_port = (\<lambda>st u c s. (query_invoices st u c s, s))"
  "port_ping fixture_port = (\<lambda>s. (ping s, s))"
  "port_read fixture_port = (\<lambda>r s. (read_invoice r s, s))"
  "port_evidence_index fixture_port = payment_evidence_index"
  by (simp_all add: fixture_port_def)

interpretation fixture_readback: readback_port fixture_port fe_ok fixture_posted fixture_paid
proof (unfold_locales, unfold fixture_port_simps)
  fix w w' :: fixture_erp and d r res rp pay
  assume ok: "fe_ok w"
  show "reconcile_post d w = (r, w') \<Longrightarrow>
      fe_ok w' \<and> fixture_posted w' = fixture_posted w \<and> fixture_paid w' = fixture_paid w"
    by (rule reconcile_post_frame [OF ok])
  show "reconcile_post d w = (Inr res, w') \<Longrightarrow>
      fixture_posted w d = (if po_outcome res = O_POSTED then po_reference res else None)"
    by (rule reconcile_post_answer [OF ok])
  show "reconcile_payment d w = (rp, w') \<Longrightarrow>
      fe_ok w' \<and> fixture_posted w' = fixture_posted w \<and> fixture_paid w' = fixture_paid w"
    by (rule reconcile_payment_frame [OF ok])
  show "reconcile_payment d w = (Inr pay, w') \<Longrightarrow> fixture_paid w d = Some (pr_reference pay)"
    by (rule reconcile_payment_answer [OF ok])
  show "reconcile_payment d w = (Inl DocumentRejected, w') \<Longrightarrow> fixture_paid w d = None"
    by (rule reconcile_payment_absent [OF ok])
qed auto

end
