(* ===== verification/FixtureClaims.thy ===== *)
theory FixtureClaims
  imports FixtureErpProps
begin

text \<open>
  What clients of the fixture provider may rely on, whatever sequence of operations, failures
  and outages came before: permanent official references, evidence used once, reversal at
  most once, the conservation of an invoice's balance, guarded cancellation, the truth of a
  reconciliation after an uncertain posting, and complete queries.
\<close>

section \<open>A provider to evaluate\<close>

definition demo_identity :: financial_identity where
  "demo_identity = \<lparr>fi_unit = ''UNIT-A'', fi_issuer = ''ISSUER-A'', fi_tax = ''TAX-A'',
     fi_series = ''SERIES-A'', fi_ledger = ''LEDGER-A'', fi_account = ''ACC-A''\<rparr>"

definition demo_draft :: draft_invoice_command where
  "demo_draft = \<lparr>dc_customer = ''CUST-1'', dc_identity = demo_identity,
     dc_lines = [\<lparr>il_service = ''SVC-1'', il_description = ''work'', il_quantity = ''2'',
       il_price = ''1.50'', il_currency = ''EUR''\<rparr>],
     dc_issued = ''0004-01-31'', dc_due = ''0004-02-29''\<rparr>"

definition demo_pay :: "str \<Rightarrow> str \<Rightarrow> draft_payment_command" where
  "demo_pay amount ev = \<lparr>pc_invoice = ''INV-000001'', pc_amount = amount, pc_currency = ''EUR'',
     pc_evidence = ev, pc_account = ''ACC-A''\<rparr>"

definition demo_fixture :: fixture_erp where
  "demo_fixture = \<lparr>fe_prefix = ''INV'', fe_seq = 1, fe_draft_seq = 1, fe_pay_seq = 1,
       fe_out_seq = 1, fe_objs = [], fe_handles = [], fe_payments = [], fe_evidence = {},
       fe_deliveries = [], fe_dropped = {}, fe_fail_post = None, fe_fail_payment = None,
       fe_fail_delivery = False, fe_outage = False\<rparr>"

definition demo_posted :: fixture_erp where
  "demo_posted = erp_run [CreateDraft demo_draft, Post ''DRAFT-000001''] demo_fixture"

definition demo_paid :: fixture_erp where
  "demo_paid = erp_run [Pay (demo_pay ''1.5'' ''EVI-1'')] demo_posted"

lemma demo_fixture_made: "mk_fixture ''INV'' 1 = Inr demo_fixture"
  by code_simp

lemma erp_run_append: "erp_run (xs @ ys) s = erp_run ys (erp_run xs s)"
  by (simp add: erp_run_def)

lemma erp_from_run: "erp_from pfx s \<Longrightarrow> erp_from pfx (erp_run xs s)"
  unfolding erp_from_def by (metis erp_run_append)

lemma demo_from: "erp_from ''INV'' demo_fixture" "erp_from ''INV'' demo_posted" "erp_from ''INV'' demo_paid"
proof -
  show 0: "erp_from ''INV'' demo_fixture"
  proof -
    have "demo_fixture = erp_run [] demo_fixture" by (simp add: erp_run_simps)
    with demo_fixture_made show ?thesis unfolding erp_from_def by blast
  qed
  show 1: "erp_from ''INV'' demo_posted" unfolding demo_posted_def by (rule erp_from_run [OF 0])
  show "erp_from ''INV'' demo_paid" unfolding demo_paid_def by (rule erp_from_run [OF 1])
qed

lemma demo_invoice:
  "\<exists>i. dget (fe_objs demo_posted) ''DRAFT-000001'' = Some i \<and> iv_official i = Some ''INV-000001''
     \<and> iv_status i = ''POSTED''"
proof -
  have "(case dget (fe_objs demo_posted) ''DRAFT-000001'' of None \<Rightarrow> False
      | Some i \<Rightarrow> iv_official i = Some ''INV-000001'' \<and> iv_status i = ''POSTED'')" by code_simp
  then show ?thesis by (auto split: option.splits)
qed

lemma demo_payment:
  "\<exists>p. dget (fe_payments demo_paid) ''PAY-000001'' = Some p \<and> py_evidence p = ''EVI-1''"
proof -
  have "(case dget (fe_payments demo_paid) ''PAY-000001'' of None \<Rightarrow> False
      | Some p \<Rightarrow> py_evidence p = ''EVI-1'')" by code_simp
  then show ?thesis by (auto split: option.splits)
qed

section \<open>Official references\<close>

lemma keeps_invoice:
  assumes "fe_ok s" "dget (fe_objs s) k = Some i"
  shows "\<exists>i'. dget (fe_objs (erp_run xs s)) k = Some i' \<and> invoice_keeps i i'"
  using erp_run_keeps [OF assms(1), of xs] assms(2) unfolding erp_keeps_def dict_keeps_def by blast

lemma keeps_payment:
  assumes "fe_ok s" "dget (fe_payments s) r = Some p"
  shows "\<exists>p'. dget (fe_payments (erp_run xs s)) r = Some p' \<and> payment_keeps p p'"
  using erp_run_keeps [OF assms(1), of xs] assms(2) unfolding erp_keeps_def dict_keeps_def by blast

lemma official_found:
  assumes "fe_ok s" "dget (fe_objs s) k = Some i" "iv_official i = Some h"
  shows "find_invoice s h = Some i"
  using fe_okD(1) [OF assms(1,2)] assms(2,3) by (simp add: find_invoice_def invoice_ok_def)

text \<open>C22. An official reference, once given to a document, stands for that document for ever:
  after any further operations, failures and outages it still resolves to the same document
  with the same total and payload, that document is POSTED or CANCELLED, and no other
  document carries the reference.\<close>

theorem official_permanent:
  assumes "erp_from pfx s" "dget (fe_objs s) k = Some i" "iv_official i = Some h"
  shows "(\<exists>i'. find_invoice (erp_run xs s) h = Some i' \<and> iv_draft i' = k \<and> iv_total i' = iv_total i
      \<and> iv_payload i' = iv_payload i \<and> iv_status i' \<in> {''POSTED'', ''CANCELLED''})
    \<and> (\<forall>k' j. dget (fe_objs (erp_run xs s)) k' = Some j \<and> iv_official j = Some h \<longrightarrow> k' = k)"
proof -
  note ok = erp_from_ok [OF assms(1)] and ok' = fe_ok_run [OF erp_from_ok [OF assms(1)], of xs]
  obtain i' where i': "dget (fe_objs (erp_run xs s)) k = Some i'" "invoice_keeps i i'"
    using keeps_invoice [OF ok assms(2)] by blast
  have o: "iv_official i' = Some h" using i'(2) assms(3) by (simp add: invoice_keeps_def)
  have "iv_draft i' = k" "iv_status i' \<in> {''POSTED'', ''CANCELLED''}"
    using fe_okD(1) [OF ok' i'(1)] o by (simp_all add: invoice_ok_def)
  with official_found [OF ok' i'(1) o] i'(2) have "\<exists>i'. find_invoice (erp_run xs s) h = Some i'
      \<and> iv_draft i' = k \<and> iv_total i' = iv_total i \<and> iv_payload i' = iv_payload i
      \<and> iv_status i' \<in> {''POSTED'', ''CANCELLED''}"
    unfolding invoice_keeps_def by blast
  then show ?thesis using official_unique [OF ok' _ i'(1) _ o] by blast
qed

theorem official_permanent_witness:
  "\<exists>i'. find_invoice (erp_run [Pay (demo_pay ''1.5'' ''EVI-1'')] demo_posted) ''INV-000001'' = Some i'
     \<and> iv_draft i' = ''DRAFT-000001''"
proof -
  obtain i where "dget (fe_objs demo_posted) ''DRAFT-000001'' = Some i" "iv_official i = Some ''INV-000001''"
    using demo_invoice by blast
  from official_permanent [OF demo_from(2) this] show ?thesis by blast
qed

text \<open>A payment is never changed or forgotten, and the evidence it was recorded with is
  spent: no other payment carries it, and a later attempt to record a payment with the same
  evidence is rejected and changes nothing.\<close>

theorem evidence_spent:
  assumes "erp_from pfx s" "dget (fe_payments s) r = Some p" "pc_evidence c = py_evidence p"
  shows "record_payment c (erp_run xs s) = (Inl DocumentRejected, erp_run xs s)
    \<and> (\<exists>p'. dget (fe_payments (erp_run xs s)) r = Some p' \<and> payment_keeps p p')
    \<and> (\<forall>r' q. dget (fe_payments (erp_run xs s)) r' = Some q \<and> py_evidence q = py_evidence p \<longrightarrow> r' = r)"
proof -
  note ok = erp_from_ok [OF assms(1)] and ok' = fe_ok_run [OF erp_from_ok [OF assms(1)], of xs]
  obtain p' where p': "dget (fe_payments (erp_run xs s)) r = Some p'" "payment_keeps p p'"
    using keeps_payment [OF ok assms(2)] by blast
  have e: "py_evidence p' = py_evidence p"
    using p'(2) by (cases p; cases p') (simp add: payment_keeps_def)
  have "py_evidence p' \<in> fe_evidence (erp_run xs s)"
    using fe_okD(2) [OF ok' p'(1)] by (simp add: payment_ok_def)
  then have "record_payment c (erp_run xs s) = (Inl DocumentRejected, erp_run xs s)"
    by (auto simp: record_payment_def parse_currency_def e assms(3))
  moreover have "evidence_ok (erp_run xs s)" using ok' by (simp add: fe_ok_def)
  ultimately show ?thesis using p' e evidence_unique by metis
qed

theorem evidence_spent_witness:
  "record_payment (demo_pay ''1'' ''EVI-1'') (erp_run [Reverse \<lparr>rc_payment = ''PAY-000001'', rc_reason = ''x''\<rparr>] demo_paid)
     = (Inl DocumentRejected, erp_run [Reverse \<lparr>rc_payment = ''PAY-000001'', rc_reason = ''x''\<rparr>] demo_paid)"
proof -
  obtain p where "dget (fe_payments demo_paid) ''PAY-000001'' = Some p" "py_evidence p = ''EVI-1''"
    using demo_payment by blast
  then show ?thesis using evidence_spent [OF demo_from(3)] by (simp add: demo_pay_def)
qed

section \<open>Reversal\<close>

text \<open>A payment is reversed at most once: after a successful reversal, whatever happens
  next, reversing the same payment is rejected, and so is reversing the reversal.\<close>

theorem reversed_once:
  assumes "erp_from pfx s" "reverse_payment c s = (Inr ref, s')" "rc_payment c' \<in> {rc_payment c, ref}"
  shows "reverse_payment c' (erp_run xs s') = (Inl DocumentRejected, erp_run xs s')"
proof -
  have ok: "fe_ok s'" using fe_ok_trans [OF reverse_trans] erp_from_ok [OF assms(1)] assms(2) by (metis snd_conv)
  obtain p where p: "dget (fe_payments s) (rc_payment c) = Some p" "py_reversal_of p = None"
    "dget (fe_payments s') (rc_payment c) = Some (p\<lparr>py_reversed := True\<rparr>)"
    "ref \<noteq> rc_payment c \<longrightarrow> dget (fe_payments s') ref = Some (reversal_for ref p)"
    using assms(2) by (auto simp: reverse_payment_def reversal_for_def store_invoice_def Let_def
        split: if_splits option.splits)
  obtain q where q: "dget (fe_payments s') (rc_payment c') = Some q" "py_reversal_of q \<noteq> None \<or> py_reversed q"
    using assms(3) p by (cases "ref = rc_payment c") (auto simp: reversal_for_def)
  obtain q' where q': "dget (fe_payments (erp_run xs s')) (rc_payment c') = Some q'" "payment_keeps q q'"
    using keeps_payment [OF ok q(1)] by blast
  have "py_reversal_of q' \<noteq> None \<or> py_reversed q'"
    using q(2) q'(2) by (cases q; cases q') (auto simp: payment_keeps_def)
  with q'(1) show ?thesis by (auto simp: reverse_payment_def)
qed

definition demo_reversal :: "str \<Rightarrow> reversal_command" where
  "demo_reversal r = \<lparr>rc_payment = r, rc_reason = ''bounced''\<rparr>"

theorem reversed_once_witness:
  "fst (reverse_payment (demo_reversal ''PAY-000002'')
      (erp_run [Cancel ''INV-000001''] (snd (reverse_payment (demo_reversal ''PAY-000001'') demo_paid))))
    = Inl DocumentRejected"
proof -
  have "fst (reverse_payment (demo_reversal ''PAY-000001'') demo_paid) = Inr ''PAY-000002''" by code_simp
  then have "reverse_payment (demo_reversal ''PAY-000001'') demo_paid
      = (Inr ''PAY-000002'', snd (reverse_payment (demo_reversal ''PAY-000001'') demo_paid))"
    by (metis prod.collapse)
  from reversed_once [OF demo_from(3) this, of "demo_reversal ''PAY-000002''"] show ?thesis
    by (simp add: demo_reversal_def)
qed

section \<open>Balances\<close>

lemma bal_ok_from: "erp_from pfx s \<Longrightarrow> bal_ok sc s"
proof (rule erp_from_inv [where P = "bal_ok sc" and pfx = pfx])
  show "mk_fixture pfx n = Inr s0 \<Longrightarrow> bal_ok sc s0" for n s0
    by (auto simp: mk_fixture_def bal_ok_def split: if_splits)
qed (use bal_ok_trans in blast)+

text \<open>C2. Conservation: on a posted invoice the open amount plus the payments that are neither
  reversals nor reversed is exactly the total, and the open amount is never negative. The
  amounts are exact decimals in units of \<open>10^-sc\<close>; the hypotheses say that the total and the
  payments on this invoice have at most \<open>sc\<close> decimals and stay below \<open>10^28\<close> units, the
  range of the default decimal context.\<close>

theorem open_balance:
  assumes "erp_from pfx s" "dget (fe_objs s) k = Some i" "iv_status i = ''POSTED''"
    and "iv_official i = Some h" "fits sc (iv_total i)"
    and "\<And>p. p \<in> set (dvals (fe_payments s)) \<Longrightarrow> py_invoice p = h \<Longrightarrow> py_reversal_of p = None \<Longrightarrow>
           fits sc (py_amount p)"
  shows "dint (- int sc) (iv_open i) + (\<Sum>p \<leftarrow> outstanding s i. dint (- int sc) (py_amount p))
      = dint (- int sc) (iv_total i) \<and> 0 \<le> dint (- int sc) (iv_open i)"
proof -
  have "balanced sc s i h"
    using assms(6) by (intro bal_okD(3) [OF bal_ok_from [OF assms(1)] assms(2-5)]) (simp add: all_fit_def)
  then show ?thesis by (simp add: balanced_def outstanding_sum [OF assms(4)])
qed

theorem open_balance_witness:
  "\<exists>i. dget (fe_objs demo_paid) ''DRAFT-000001'' = Some i
     \<and> dint (-2) (iv_open i) + (\<Sum>p \<leftarrow> outstanding demo_paid i. dint (-2) (py_amount p)) = 300"
proof -
  have "(case dget (fe_objs demo_paid) ''DRAFT-000001'' of None \<Rightarrow> False
      | Some i \<Rightarrow> iv_status i = ''POSTED'' \<and> iv_official i = Some ''INV-000001''
          \<and> fits 2 (iv_total i) \<and> dint (-2) (iv_total i) = 300)" by code_simp
  then obtain i where i: "dget (fe_objs demo_paid) ''DRAFT-000001'' = Some i" "iv_status i = ''POSTED''"
    "iv_official i = Some ''INV-000001''" "fits 2 (iv_total i)" "dint (-2) (iv_total i) = 300"
    by (auto split: option.splits)
  have "list_all (\<lambda>p. fits 2 (py_amount p)) (dvals (fe_payments demo_paid))" by code_simp
  then have "fits 2 (py_amount p)" if "p \<in> set (dvals (fe_payments demo_paid))" for p
    using that by (simp add: list_all_iff)
  with open_balance [OF demo_from(3) i(1-4)] i show ?thesis by auto
qed

section \<open>Cancellation\<close>

text \<open>C39. Cancelling a posted invoice is refused, without any effect, exactly while a payment
  on it is outstanding; otherwise it succeeds, and the document keeps its official
  reference, has nothing open, and stays CANCELLED under every later operation.\<close>

theorem cancel_guarded:
  assumes "erp_from pfx s" "\<not> fe_outage s" "dget (fe_objs s) k = Some i" "iv_status i = ''POSTED''"
    and "iv_official i = Some h"
  shows "if \<exists>r p. dget (fe_payments s) r = Some p \<and> py_invoice p = h \<and> py_reversal_of p = None \<and> \<not> py_reversed p
    then cancel_invoice h s = (Inl DocumentRejected, s)
    else fst (cancel_invoice h s) = Inr () \<and>
      (\<exists>j. find_invoice (snd (cancel_invoice h s)) h = Some j \<and> iv_status j = ''CANCELLED''
           \<and> iv_open j = dzero \<and> iv_official j = Some h)
      \<and> (\<forall>xs. \<exists>j. dget (fe_objs (erp_run xs (snd (cancel_invoice h s)))) k = Some j
           \<and> iv_status j = ''CANCELLED'' \<and> iv_official j = Some h)"
proof -
  note ok = erp_from_ok [OF assms(1)]
  let ?i = "i\<lparr>iv_status := ''CANCELLED'', iv_open := dzero\<rparr>"
  have f: "find_invoice s h = Some i" by (rule official_found [OF ok assms(3,5)])
  have k: "iv_draft i = k" using fe_okD(1) [OF ok assms(3)] by (simp add: invoice_ok_def)
  have d: "dict_ok (fe_payments s)" using ok by (simp add: fe_ok_def)
  have out: "outstanding s i \<noteq> [] \<longleftrightarrow> (\<exists>r p. dget (fe_payments s) r = Some p \<and> py_invoice p = h
      \<and> py_reversal_of p = None \<and> \<not> py_reversed p)"
  proof -
    have "outstanding s i \<noteq> [] \<longleftrightarrow> (\<exists>p \<in> set (dvals (fe_payments s)). h = py_invoice p
        \<and> py_reversal_of p = None \<and> \<not> py_reversed p)"
      using assms(5) by (auto simp: outstanding_def filter_empty_conv)
    then show ?thesis using dict_ok_vals [OF d] by blast
  qed
  show ?thesis
  proof (cases "outstanding s i = []")
    case True
    have c: "cancel_invoice h s = (Inr (), store_invoice ?i s)"
      using True assms f by (simp add: cancel_invoice_def lookup_invoice_def)
    let ?t = "store_invoice ?i s"
    have t: "dget (fe_objs ?t) k = Some ?i" by (simp add: store_invoice_def k)
    have ok': "fe_ok ?t" using fe_ok_trans [OF cancel_trans [OF ok, of h] ok] by (simp add: c)
    have all: "\<exists>j. dget (fe_objs (erp_run xs ?t)) k = Some j \<and> iv_status j = ''CANCELLED''
        \<and> iv_official j = Some h" for xs
      using keeps_invoice [OF ok' t, of xs] assms(5) by (auto simp: invoice_keeps_def)
    have "find_invoice ?t h = Some ?i"
      using official_found [OF ok' t] assms(5) by simp
    with True out c all assms(5) show ?thesis by auto
  next
    case False
    then have "cancel_invoice h s = (Inl DocumentRejected, s)"
      using assms f by (simp add: cancel_invoice_def lookup_invoice_def)
    with False out show ?thesis by simp
  qed
qed

theorem cancel_guarded_witness:
  "cancel_invoice ''INV-000001'' demo_paid = (Inl DocumentRejected, demo_paid)"
proof -
  have "(case dget (fe_objs demo_paid) ''DRAFT-000001'' of None \<Rightarrow> False
      | Some i \<Rightarrow> iv_status i = ''POSTED'' \<and> iv_official i = Some ''INV-000001'')
    \<and> \<not> fe_outage demo_paid" by code_simp
  then obtain i where i: "dget (fe_objs demo_paid) ''DRAFT-000001'' = Some i" "iv_status i = ''POSTED''"
    "iv_official i = Some ''INV-000001''" "\<not> fe_outage demo_paid"
    by (auto split: option.splits)
  have "(case dget (fe_payments demo_paid) ''PAY-000001'' of None \<Rightarrow> False
      | Some p \<Rightarrow> py_invoice p = ''INV-000001'' \<and> py_reversal_of p = None \<and> \<not> py_reversed p)" by code_simp
  then obtain p where p: "dget (fe_payments demo_paid) ''PAY-000001'' = Some p" "py_invoice p = ''INV-000001''"
      "py_reversal_of p = None" "\<not> py_reversed p"
    by (auto split: option.splits)
  from p have ex: "\<exists>r p. dget (fe_payments demo_paid) r = Some p \<and> py_invoice p = ''INV-000001''
      \<and> py_reversal_of p = None \<and> \<not> py_reversed p" by blast
  from cancel_guarded [OF demo_from(3) i(4,1,2,3)] show ?thesis unfolding if_P [OF ex] .
qed

section \<open>Uncertain postings\<close>

lemmas post_defs = post_invoice_def post_target_def Let_def assign_official_def set_uncertain_def
  store_invoice_def find_invoice_def

text \<open>When the outcome of a posting is lost, the port says UNCERTAIN, refuses to post the
  same document again, and a reconciliation tells the truth: POSTED with the official
  reference when the document had reached the provider, REJECTED when it had not. Posting
  again after the reconciliation yields that one reference either way, so an official
  number is used up at most once.\<close>

theorem uncertain_post_resolves:
  assumes "erp_from pfx s" "\<not> fe_outage s" "find_invoice s ref = Some i" "iv_status i = ''DRAFT''"
    and "\<not> iv_uncertain i" "fe_fail_post s = Some mode" "mode \<in> {''UNCERTAIN'', ''UNCERTAIN_DROP''}"
    and "post_invoice ref s = (r, s1)" "reconcile_post ref s1 = (r2, s2)" "post_invoice ref s2 = (r3, s3)"
  defines "official \<equiv> ref_num pfx 6 (fe_seq s)"
  shows "r = Inr (posting O_UNCERTAIN None (Some ''outcome unknown''))
    \<and> post_invoice ref s1 = (Inl UncertainOutcome, s1)
    \<and> r2 = Inr (if mode = ''UNCERTAIN'' then posting O_POSTED (Some official) None
                else posting O_REJECTED None (Some ''provider has no such document''))
    \<and> r3 = Inr (posting O_POSTED (Some official) None) \<and> fe_seq s3 = Suc (fe_seq s)"
proof -
  note ok = erp_from_ok [OF assms(1)]
  have pfx: "fe_prefix s = pfx"
  proof (rule erp_from_inv [OF assms(1), where P = "\<lambda>s. fe_prefix s = pfx"])
    show "mk_fixture pfx n = Inr s0 \<Longrightarrow> fe_prefix s0 = pfx" for n s0
      by (auto simp: mk_fixture_def split: if_splits)
    show "fe_prefix a = pfx \<Longrightarrow> erp_trans a b \<Longrightarrow> fe_prefix b = pfx" for a b
      by (erule erp_trans.cases) (auto dest!: core_eqD)
  qed
  have h: "dget (fe_handles s) ref = Some (iv_draft i)" and o: "dget (fe_objs s) (iv_draft i) = Some i"
  proof -
    show o: "dget (fe_objs s) (iv_draft i) = Some i" by (rule find_invoice_obj [OF ok assms(3)])
    from assms(3) obtain k where k: "dget (fe_handles s) ref = Some k" "dget (fe_objs s) k = Some i"
      by (auto simp: find_invoice_def split: bind_splits)
    with fe_okD(1) [OF ok k(2)] show "dget (fe_handles s) ref = Some (iv_draft i)"
      by (simp add: invoice_ok_def)
  qed
  have none: "iv_official i = None" using fe_okD(1) [OF ok o] assms(4) by (auto simp: invoice_ok_def)
  show ?thesis
  proof (cases "mode = ''UNCERTAIN''")
    case True
    let ?i = "i\<lparr>iv_official := Some official, iv_status := ''POSTED'', iv_uncertain := True\<rparr>"
    have p: "r = Inr (posting O_UNCERTAIN None (Some ''outcome unknown''))"
      "dget (fe_handles s1) ref = Some (iv_draft i)" "dget (fe_objs s1) (iv_draft i) = Some ?i"
      "fe_outage s1 = False" "fe_seq s1 = Suc (fe_seq s)"
      using assms(2-6,8) True h o pfx by (auto simp: post_defs official_def split: if_splits)
    have q: "r2 = Inr (posting O_POSTED (Some official) None)"
      "dget (fe_handles s2) ref = Some (iv_draft i)" "dget (fe_objs s2) (iv_draft i) = Some (?i\<lparr>iv_uncertain := False\<rparr>)"
      "fe_outage s2 = False" "fe_seq s2 = Suc (fe_seq s)"
      using assms(9) p by (auto simp: reconcile_post_def post_defs)
    have "r3 = Inr (posting O_POSTED (Some official) None)" "fe_seq s3 = Suc (fe_seq s)"
      using assms(10) q by (auto simp: post_defs)
    moreover have "post_invoice ref s1 = (Inl UncertainOutcome, s1)" using p by (simp add: post_defs)
    ultimately show ?thesis using p(1) q(1) True by simp
  next
    case False
    with assms(7) have m: "mode = ''UNCERTAIN_DROP''" by simp
    have p: "r = Inr (posting O_UNCERTAIN None (Some ''outcome unknown''))"
      "dget (fe_handles s1) ref = Some (iv_draft i)"
      "dget (fe_objs s1) (iv_draft i) = Some (i\<lparr>iv_uncertain := True\<rparr>)" "fe_fail_post s1 = None"
      "fe_outage s1 = False" "fe_seq s1 = fe_seq s" "fe_prefix s1 = pfx"
      using assms(2-6,8) m h o pfx by (auto simp: post_defs split: if_splits)
    have q: "r2 = Inr (posting O_REJECTED None (Some ''provider has no such document''))"
      "dget (fe_handles s2) ref = Some (iv_draft i)" "dget (fe_objs s2) (iv_draft i) = Some (i\<lparr>iv_uncertain := False\<rparr>)"
      "fe_outage s2 = False" "fe_seq s2 = fe_seq s" "fe_prefix s2 = pfx" "fe_fail_post s2 = None"
      using assms(4,9) p none by (auto simp: reconcile_post_def post_defs)
    have "r3 = Inr (posting O_POSTED (Some official) None)" "fe_seq s3 = Suc (fe_seq s)"
      using assms(4,10) q by (auto simp: post_defs official_def)
    moreover have "post_invoice ref s1 = (Inl UncertainOutcome, s1)" using p by (simp add: post_defs)
    ultimately show ?thesis using p(1) q(1) m by simp
  qed
qed

definition demo_lost :: fixture_erp where
  "demo_lost = erp_run [CreateDraft demo_draft, FailPost ''UNCERTAIN_DROP''] demo_fixture"

theorem uncertain_post_resolves_witness:
  "fst (post_invoice ''DRAFT-000001'' (snd (reconcile_post ''DRAFT-000001'' (snd (post_invoice ''DRAFT-000001'' demo_lost)))))
    = Inr (posting O_POSTED (Some (ref_num ''INV'' 6 1)) None)"
proof -
  let ?r = "''DRAFT-000001''"
  have from0: "erp_from ''INV'' demo_lost" unfolding demo_lost_def by (rule erp_from_run [OF demo_from(1)])
  have "(case find_invoice demo_lost ?r of None \<Rightarrow> False
      | Some i \<Rightarrow> iv_status i = ''DRAFT'' \<and> \<not> iv_uncertain i)
    \<and> \<not> fe_outage demo_lost \<and> fe_seq demo_lost = 1" by code_simp
  then obtain i where i: "\<not> fe_outage demo_lost" "find_invoice demo_lost ?r = Some i"
    "iv_status i = ''DRAFT''" "\<not> iv_uncertain i" "fe_seq demo_lost = 1"
    by (auto split: option.splits)
  have m: "fe_fail_post demo_lost = Some ''UNCERTAIN_DROP''" by code_simp
  obtain r s1 where 1: "post_invoice ?r demo_lost = (r, s1)" by fastforce
  obtain r2 s2 where 2: "reconcile_post ?r s1 = (r2, s2)" by fastforce
  obtain r3 s3 where 3: "post_invoice ?r s2 = (r3, s3)" by fastforce
  from uncertain_post_resolves [OF from0 i(1-4) m _ 1 2 3] i(5) 1 2 3 show ?thesis by simp
qed

section \<open>Queries\<close>

lemma collect_refs_set:
  "set (collect_refs P is refs) = set refs \<union> handle_of ` {i \<in> set is. P i}"
  by (induction P "is" refs rule: collect_refs.induct) auto

lemma collect_refs_distinct: "distinct refs \<Longrightarrow> distinct (collect_refs P is refs)"
  by (induction P "is" refs rule: collect_refs.induct) auto

lemma handle_objects_set:
  assumes "fe_ok s"
  shows "set (handle_objects s) = {i. \<exists>k. dget (fe_objs s) k = Some i}"
proof -
  have "i \<in> set (handle_objects s)" if "dget (fe_objs s) k = Some i" for i k
  proof -
    have "dget (fe_handles s) k = Some k" using fe_okD(1) [OF assms that] by (simp add: invoice_ok_def)
    then have "k \<in> set (dvals (fe_handles s))"
      using assms dict_ok_vals [of "fe_handles s" k] unfolding fe_ok_def by blast
    with that show ?thesis by (force simp: handle_objects_def map_filter_def)
  qed
  then show ?thesis by (auto simp: handle_objects_def map_filter_def)
qed

text \<open>A query returns, sorted and without repetition, exactly the references of the
  documents that satisfy every given filter and are not missing from the index: a document
  with two handles counts once, an unfiltered query returns every document, and the total is
  the number of references.\<close>

theorem query_complete:
  assumes "erp_from pfx s" "\<not> fe_outage s"
  shows "\<exists>q. query_invoices status unit customer s = Inr q
    \<and> set (qr_references q) = handle_of ` {i. (\<exists>k. dget (fe_objs s) k = Some i)
         \<and> matches_query s status unit customer i}
    \<and> sorted (qr_references q) \<and> distinct (qr_references q) \<and> qr_total q = length (qr_references q)
    \<and> (qr_scoped q \<longleftrightarrow> unit \<noteq> None)"
proof -
  let ?refs = "collect_refs (matches_query s status unit customer) (handle_objects s) []"
  have "set ?refs = handle_of ` {i. (\<exists>k. dget (fe_objs s) k = Some i) \<and> matches_query s status unit customer i}"
    unfolding collect_refs_set handle_objects_set [OF erp_from_ok [OF assms(1)]] by simp
  with assms(2) show ?thesis
    by (auto simp: query_invoices_def Let_def collect_refs_distinct)
qed

theorem query_complete_witness:
  "\<exists>q. query_invoices (Some ''POSTED'') (Some ''UNIT-A'') None demo_paid = Inr q
    \<and> set (qr_references q) = handle_of ` {i. (\<exists>k. dget (fe_objs demo_paid) k = Some i)
         \<and> matches_query demo_paid (Some ''POSTED'') (Some ''UNIT-A'') None i}"
proof -
  have "\<not> fe_outage demo_paid" by code_simp
  from query_complete [OF demo_from(3) this] show ?thesis by blast
qed

end
