(* ===== verification/ReconEngine.thy ===== *)
theory ReconEngine
  imports ReconQueue FixtureClaims
begin

text \<open>
  The classifier of \<^verbatim>\<open>src/reconciliation/engine.py\<close> over an arbitrary provider port and the
  operator queue. What it concludes from the port's answers is proved in the locale
  \<open>readback_port\<close>, once for every provider that keeps that contract; the theorems apply it
  to the fixture provider.
\<close>

section \<open>Read-back\<close>

definition classify_post ::
  "'w erp_port \<Rightarrow> str \<Rightarrow> 'w \<Rightarrow> (recon_class \<times> str option) res \<times> 'w" where
  "classify_post P draft_ref w =
    (case port_reconcile_post P draft_ref w of
       (Inl e, w) \<Rightarrow> (Inl e, w)
     | (Inr result, w) \<Rightarrow>
         (case po_reference result of
            None \<Rightarrow> (Inr (RC_ABSENT, None), w)
          | Some reference \<Rightarrow>
              if po_outcome result = O_POSTED \<and> reference \<noteq> [] then
                (case port_query P (Some ''POSTED'') None None w of
                   (Inl e, w) \<Rightarrow> (Inl e, w)
                 | (Inr index, w) \<Rightarrow>
                     if reference \<notin> set (qr_references index) then (Inr (RC_AMBIGUOUS, None), w)
                     else (Inr (RC_PRESENT, Some reference), w))
              else (Inr (RC_ABSENT, None), w)))"

definition classify_payment ::
  "'w erp_port \<Rightarrow> str \<Rightarrow> 'w \<Rightarrow> (recon_class \<times> str option) res \<times> 'w" where
  "classify_payment P evidence_ref w =
    (case port_reconcile_payment P evidence_ref w of
       (Inl e, w) \<Rightarrow> (if e = DocumentRejected then Inr (RC_ABSENT, None) else Inl e, w)
     | (Inr pay, w) \<Rightarrow> (Inr (RC_PRESENT, Some (pr_reference pay)), w))"

definition classify ::
  "'w erp_port \<Rightarrow> queue_item \<Rightarrow> 'w \<Rightarrow> (recon_class \<times> str option) res \<times> 'w" where
  "classify P item w =
    (if qi_kind item = ''INVOICE_POST'' then classify_post P (qi_draft item) w
     else if qi_kind item = ''PAYMENT_RECORD'' then classify_payment P (qi_draft item) w
     else (Inl InvalidTransition, w))"

section \<open>Classifying an item\<close>

text \<open>The completion that a classification leads to; \<open>why\<close> texts are the program's.\<close>

definition settle ::
  "libs \<Rightarrow> int \<Rightarrow> clock \<Rightarrow> str \<Rightarrow> int \<Rightarrow> queue_item \<Rightarrow> recon_class \<times> str option \<Rightarrow> op_queue
   \<Rightarrow> queue_item res \<times> op_queue" where
  "settle L max_attempts clk item_id token item cr q =
    (case cr of
       (RC_PRESENT, ref) \<Rightarrow> complete_classification L clk item_id token RC_PRESENT Q_RESOLVED ref None q
     | (RC_ABSENT, _) \<Rightarrow> complete_classification L clk item_id token RC_ABSENT Q_SAFE_RETRYABLE None None q
     | (RC_AMBIGUOUS, _) \<Rightarrow> complete_classification L clk item_id token RC_AMBIGUOUS Q_ESCALATED None
         (Some ''provider state contradicts itself; operator review required'') q
     | (RC_UNAVAILABLE, _) \<Rightarrow>
         (if int (qi_attempts item) + 1 < max_attempts
          then complete_classification L clk item_id token RC_UNAVAILABLE Q_PENDING None None q
          else complete_classification L clk item_id token RC_UNAVAILABLE Q_ESCALATED None
            (Some (''provider unavailable after '' @ int_str max_attempts @ '' attempts'')) q))"

definition classify_item ::
  "libs \<Rightarrow> 'w erp_port \<Rightarrow> int \<Rightarrow> clock \<Rightarrow> str \<Rightarrow> int \<Rightarrow> op_queue \<Rightarrow> 'w
   \<Rightarrow> queue_item res \<times> op_queue \<times> 'w" where
  "classify_item L P max_attempts clk item_id token q w =
    (case queue_get q item_id of
       Inl e \<Rightarrow> (Inl e, q, w)
     | Inr item \<Rightarrow>
         (case classify P item w of
            (Inl e, w) \<Rightarrow>
              (if e \<noteq> DocumentRejected then (Inl e, q, w)
               else let (up, w) = port_ping P w;
                   (r, q) = (if up
                     then complete_classification L clk item_id token RC_AMBIGUOUS Q_ESCALATED None
                       (Some ''read-back rejected by reachable provider; operator review required'') q
                     else settle L max_attempts clk item_id token item (RC_UNAVAILABLE, None) q)
               in (r, q, w))
          | (Inr cr, w) \<Rightarrow>
              (let (r, q) = settle L max_attempts clk item_id token item cr q in (r, q, w))))"

definition classify_next ::
  "libs \<Rightarrow> 'w erp_port \<Rightarrow> int \<Rightarrow> clock \<Rightarrow> clock \<Rightarrow> int \<Rightarrow> op_queue \<Rightarrow> 'w
   \<Rightarrow> queue_item option res \<times> op_queue \<times> 'w" where
  "classify_next L P max_attempts clk1 clk2 token q w =
    (case claim_next L clk1 token q of
       (Inl e, q) \<Rightarrow> (Inl e, q, w)
     | (Inr None, q) \<Rightarrow> (Inr None, q, w)
     | (Inr (Some claim), q) \<Rightarrow>
         (case classify_item L P max_attempts clk2 (qi_id claim) token q w of
            (Inl e, q, w) \<Rightarrow> (Inl e, q, w)
          | (Inr i, q, w) \<Rightarrow> (Inr (Some i), q, w)))"

definition enqueue_uncertain_post ::
  "libs \<Rightarrow> clock \<Rightarrow> str \<Rightarrow> str \<Rightarrow> op_queue \<Rightarrow> queue_item res \<times> op_queue" where
  "enqueue_uncertain_post L clk intent draft q = enqueue L clk intent ''INVOICE_POST'' draft q"

definition enqueue_uncertain_payment ::
  "libs \<Rightarrow> clock \<Rightarrow> str \<Rightarrow> str \<Rightarrow> op_queue \<Rightarrow> queue_item res \<times> op_queue" where
  "enqueue_uncertain_payment L clk intent evidence q = enqueue L clk intent ''PAYMENT_RECORD'' evidence q"

text \<open>\<^verbatim>\<open>max_attempts\<close> must be positive.\<close>

definition mk_engine :: "int \<Rightarrow> int res" where
  "mk_engine max_attempts = (if max_attempts \<le> 0 then Inl ValueError else Inr max_attempts)"

section \<open>Orphans\<close>

record orphan_findings =
  or_erp :: "str list"
  or_payment :: "str list"
  or_unresolved :: "str list"

fun find_orphans ::
  "'w erp_port \<Rightarrow> str set \<Rightarrow> str list \<Rightarrow> str list \<Rightarrow> 'w \<Rightarrow> str list res \<times> 'w" where
  "find_orphans P known [] acc w = (Inr acc, w)"
| "find_orphans P known (r # rs) acc w =
    (case port_read P r w of
       (Inl e, w) \<Rightarrow> (Inl e, w)
     | (Inr rec, w) \<Rightarrow>
         find_orphans P known rs
           (if (case dget (ir_payload rec) ''draft_ref'' of Some (JStr d) \<Rightarrow> d \<in> known | _ \<Rightarrow> False)
            then acc else acc @ [r]) w)"

definition orphan_report ::
  "'w erp_port \<Rightarrow> str set \<Rightarrow> str set option \<Rightarrow> op_queue \<Rightarrow> 'w \<Rightarrow> orphan_findings res \<times> 'w" where
  "orphan_report P known_drafts known_evidence q w =
    (case port_query P (Some ''POSTED'') None None w of
       (Inl e, w) \<Rightarrow> (Inl e, w)
     | (Inr ix, w) \<Rightarrow>
         (case find_orphans P known_drafts (qr_references ix) [] w of
            (Inl e, w) \<Rightarrow> (Inl e, w)
          | (Inr orphans, w) \<Rightarrow>
              (Inr \<lparr>or_erp = sort orphans,
                 or_payment = sort (case known_evidence of None \<Rightarrow> []
                   | Some ev \<Rightarrow> map fst (filter (\<lambda>(r, e). e \<notin> ev) (port_evidence_index P w))),
                 or_unresolved = map qi_id (stuck_items q)\<rparr>, w)))"

section \<open>What a classification establishes\<close>

text \<open>What the class says about the provider, for an item of either kind.\<close>

definition class_true ::
  "(str \<Rightarrow> str option) \<Rightarrow> (str \<Rightarrow> str option) \<Rightarrow> queue_item \<Rightarrow> recon_class \<Rightarrow> str option \<Rightarrow> bool" where
  "class_true posted paid item cl ref =
    (let truth = (if qi_kind item = ''INVOICE_POST'' then posted (qi_draft item) else paid (qi_draft item)) in
     (cl = RC_PRESENT \<longrightarrow> ref \<noteq> None \<and> truth = ref) \<and> (cl = RC_ABSENT \<longrightarrow> truth = None \<or> truth = Some []))"

context readback_port
begin

lemma classify_post_sound:
  assumes "inv w" "classify_post P d w = (r, w')"
  shows "inv w' \<and> posted w' = posted w \<and> paid w' = paid w
    \<and> (\<forall>ref. r = Inr (RC_PRESENT, ref) \<longrightarrow> ref \<noteq> None \<and> posted w d = ref)
    \<and> (\<forall>ref. r = Inr (RC_ABSENT, ref) \<longrightarrow> posted w d = None \<or> posted w d = Some [])"
proof -
  obtain a w1 where a: "port_reconcile_post P d w = (a, w1)" by fastforce
  note f = post_frame [OF assms(1) a]
  obtain b w2 where b: "port_query P (Some ''POSTED'') None None w1 = (b, w2)" by fastforce
  note g = query_frame [OF _ b]
  show ?thesis
    using assms(2) f g a b post_answer [OF assms(1), of d]
    by (auto simp: classify_post_def split: sum.splits option.splits if_splits)
qed

lemma classify_payment_sound:
  assumes "inv w" "classify_payment P e w = (r, w')"
  shows "inv w' \<and> posted w' = posted w \<and> paid w' = paid w
    \<and> (\<forall>ref. r = Inr (RC_PRESENT, ref) \<longrightarrow> ref \<noteq> None \<and> paid w e = ref)
    \<and> (\<forall>ref. r = Inr (RC_ABSENT, ref) \<longrightarrow> paid w e = None)"
proof -
  obtain a w1 where a: "port_reconcile_payment P e w = (a, w1)" by fastforce
  show ?thesis
    using assms(2) a pay_frame [OF assms(1) a] pay_answer [OF assms(1), of e] pay_absent [OF assms(1), of e]
    by (auto simp: classify_payment_def split: sum.splits if_splits)
qed

lemma classify_sound:
  assumes "inv w" "classify P item w = (r, w')"
  shows "inv w' \<and> posted w' = posted w \<and> paid w' = paid w
    \<and> (\<forall>cl ref. r = Inr (cl, ref) \<longrightarrow> class_true (posted w) (paid w) item cl ref)"
  using assms classify_post_sound [OF assms(1)] classify_payment_sound [OF assms(1)]
  by (auto simp: classify_def class_true_def Let_def split: if_splits)

text \<open>Classifying reads back and nothing else: the provider's documents are untouched.\<close>

lemma classify_item_frame:
  assumes "inv w" "classify_item L P mx clk k token q w = (r, q', w')"
  shows "inv w' \<and> posted w' = posted w \<and> paid w' = paid w"
proof (cases "queue_get q k")
  case (Inr item)
  obtain a w1 where a: "classify P item w = (a, w1)" by fastforce
  obtain up w2 where p: "port_ping P w1 = (up, w2)" by fastforce
  note f = classify_sound [OF assms(1) a] and g = ping_frame [OF _ p]
  show ?thesis using assms(2) Inr a p f g
    by (auto simp: classify_item_def Let_def split: sum.splits if_splits prod.splits)
qed (use assms in \<open>simp add: classify_item_def\<close>)

end

section \<open>Every classification ends\<close>

definition completed ::
  "clock \<Rightarrow> recon_class \<Rightarrow> item_status \<Rightarrow> str option \<Rightarrow> str option \<Rightarrow> queue_item \<Rightarrow> queue_item" where
  "completed clk cl st res why i = i\<lparr>qi_status := st, qi_attempts := qi_attempts i + 1,
      qi_token := 0, qi_class := Some cl,
      qi_resolution := (case res of Some r \<Rightarrow> Some r | None \<Rightarrow> qi_resolution i), qi_reason := why,
      qi_escalated_from := (if st = Q_ESCALATED then Some cl else qi_escalated_from i),
      qi_updated := Some (item_now clk)\<rparr>"

lemma completed_simps [simp]:
  "qi_status (completed clk cl st res why i) = st"
  "qi_attempts (completed clk cl st res why i) = Suc (qi_attempts i)"
  "qi_class (completed clk cl st res why i) = Some cl"
  "qi_resolution (completed clk cl st res why i) = (case res of Some r \<Rightarrow> Some r | None \<Rightarrow> qi_resolution i)"
  "qi_id (completed clk cl st res why i) = qi_id i"
  "qi_kind (completed clk cl st res why i) = qi_kind i"
  "qi_draft (completed clk cl st res why i) = qi_draft i"
  by (simp_all add: completed_def)

lemma complete_ok:
  assumes "queue_ok L q" "libs_ok L" "dget (oq_items q) k = Some i" "qi_status i = Q_CLASSIFYING"
    "qi_token i = token" "0 < token" "st \<in> allowed Q_CLASSIFYING"
    "\<not> (st = Q_RESOLVED \<and> cl \<in> {RC_ABSENT, RC_UNAVAILABLE})"
    "\<not> (st = Q_SAFE_RETRYABLE \<and> qi_escalated_from i = Some RC_AMBIGUOUS)"
  shows "fst (complete_classification L clk k token cl st res why q) = Inr (completed clk cl st res why i)"
    and "dget (oq_items (snd (complete_classification L clk k token cl st res why q))) k = Some (completed clk cl st res why i)"
proof -
  have e: "extras_ok [(''classification'', JStr (class_value cl)), (''resolution_ref'', json_opt res)]"
    by (simp add: extras_ok_def)
  obtain ev where ev: "classify_event st = Some ev"
    using assms(7) by (cases st) auto
  have c: "complete_classification L clk k token cl st res why q
      = commit L clk ev [(''classification'', JStr (class_value cl)),
          (''resolution_ref'', json_opt res)] k (completed clk cl st res why i) q"
    using assms(3-9) ev
    by (auto simp: complete_classification_def queue_get_def assert_owner_def completed_def Let_def)
  then show "fst (complete_classification L clk k token cl st res why q) = Inr (completed clk cl st res why i)"
    using commit_ok [OF queue_okD(1,2) [OF assms(1)] assms(2) e, of clk ev k "completed clk cl st res why i"] by auto
  show "dget (oq_items (snd (complete_classification L clk k token cl st res why q))) k = Some (completed clk cl st res why i)"
    by (simp add: c)
qed

text \<open>The statuses the classifier chooses, and what each says.\<close>

definition ends_well :: "int \<Rightarrow> queue_item \<Rightarrow> queue_item \<Rightarrow> bool" where
  "ends_well max_attempts i i' =
    (qi_id i' = qi_id i \<and> qi_attempts i' = Suc (qi_attempts i)
     \<and> qi_status i' \<in> {Q_RESOLVED, Q_SAFE_RETRYABLE, Q_ESCALATED, Q_PENDING}
     \<and> (qi_status i' = Q_PENDING \<longrightarrow> int (qi_attempts i') < max_attempts)
     \<and> (qi_status i' = Q_RESOLVED \<longleftrightarrow> qi_class i' = Some RC_PRESENT)
     \<and> (qi_status i' = Q_SAFE_RETRYABLE \<longleftrightarrow> qi_class i' = Some RC_ABSENT))"

text \<open>The outcome of a completion: the item, which the queue now holds.\<close>

definition ends_as :: "int \<Rightarrow> str \<Rightarrow> queue_item \<Rightarrow> queue_item res \<times> op_queue \<Rightarrow> queue_item \<Rightarrow> bool" where
  "ends_as mx k i x c = (fst x = Inr c \<and> dget (oq_items (snd x)) k = Some c \<and> ends_well mx i c)"

lemma settle_ends:
  assumes q: "queue_ok L q" "libs_ok L" "dget (oq_items q) k = Some i" "qi_status i = Q_CLASSIFYING"
    "qi_token i = token" "0 < token"
  shows "(\<exists>st why. ends_as mx k i (settle L mx clk k token i (cl, ref) q)
      (completed clk cl st (if cl = RC_PRESENT then ref else None) why i))
    \<or> cl = RC_ABSENT \<and> qi_escalated_from i = Some RC_AMBIGUOUS
       \<and> settle L mx clk k token i (cl, ref) q = (Inl InvalidTransition, q)"
proof (cases "cl = RC_ABSENT \<and> qi_escalated_from i = Some RC_AMBIGUOUS")
  case True
  then show ?thesis
    using q(3-6) by (simp add: settle_def complete_classification_def queue_get_def assert_owner_def)
next
  case False
  then have "\<exists>st why. ends_as mx k i (settle L mx clk k token i (cl, ref) q)
      (completed clk cl st (if cl = RC_PRESENT then ref else None) why i)"
    by (cases cl) (auto simp: settle_def complete_ok [OF q] ends_well_def ends_as_def)
  then show ?thesis ..
qed

lemma classify_known_kind:
  assumes "qi_kind i \<in> {''INVOICE_POST'', ''PAYMENT_RECORD''}"
  shows "fst (classify fixture_port i w) = Inl DocumentRejected \<or> (\<exists>cr. fst (classify fixture_port i w) = Inr cr)"
proof -
  have p: "e = DocumentRejected" if "reconcile_post d w = (Inl e, w')" for d e w'
    using that by (simp add: reconcile_post_def Let_def split: option.splits if_splits)
  have y: "e = DocumentRejected" if "reconcile_payment d w = (Inl e, w')" for d e w'
    using that by (simp add: reconcile_payment_def split: option.splits if_splits prod.splits)
  have u: "e = DocumentRejected" if "query_invoices st un c v = Inl e" for st un c v e
    using that by (simp add: query_invoices_def Let_def split: if_splits)
  have "fst (classify_post fixture_port d w) = Inl DocumentRejected
      \<or> (\<exists>cr. fst (classify_post fixture_port d w) = Inr cr)" for d
    using p u by (cases "reconcile_post d w"; cases "fst (reconcile_post d w)")
      (auto simp: classify_post_def split: option.splits sum.splits)
  moreover have "fst (classify_payment fixture_port d w) = Inl DocumentRejected
      \<or> (\<exists>cr. fst (classify_payment fixture_port d w) = Inr cr)" for d
    using y by (cases "reconcile_payment d w"; cases "fst (reconcile_payment d w)")
      (auto simp: classify_payment_def)
  ultimately show ?thesis using assms by (auto simp: classify_def)
qed

lemma classify_item_ends:
  assumes q: "queue_ok L q" "libs_ok L" "dget (oq_items q) k = Some i" "qi_status i = Q_CLASSIFYING"
    "qi_token i = token" "0 < token"
    and kind: "qi_kind i \<in> {''INVOICE_POST'', ''PAYMENT_RECORD''}"
    and w: "fe_ok w" and r: "classify_item L fixture_port mx clk k token q w = (r, q', w')"
  shows "(\<exists>cl st res why. ends_as mx k i (r, q') (completed clk cl st res why i)
      \<and> (cl \<in> {RC_PRESENT, RC_ABSENT} \<longrightarrow> class_true (fixture_posted w) (fixture_paid w) i cl res))
    \<or> r = Inl InvalidTransition \<and> q' = q \<and> qi_escalated_from i = Some RC_AMBIGUOUS
       \<and> class_true (fixture_posted w) (fixture_paid w) i RC_ABSENT None"
proof -
  obtain a w1 where a: "classify fixture_port i w = (a, w1)" by fastforce
  note sound = fixture_readback.classify_sound [OF w a]
  consider "a = Inl DocumentRejected" | cl ref where "a = Inr (cl, ref)"
    using classify_known_kind [OF kind, of w] a by force
  then show ?thesis
  proof cases
    case 1
    show ?thesis
    proof (cases "ping w1")
      case True
      have "(r, q') = complete_classification L clk k token RC_AMBIGUOUS Q_ESCALATED None
          (Some ''read-back rejected by reachable provider; operator review required'') q"
        using r a 1 True q(3) by (auto simp: classify_item_def queue_get_def Let_def split: prod.splits)
      then have "ends_as mx k i (r, q') (completed clk RC_AMBIGUOUS Q_ESCALATED None
          (Some ''read-back rejected by reachable provider; operator review required'') i)"
        using complete_ok [OF q] by (simp add: ends_as_def ends_well_def)
      then show ?thesis by blast
    next
      case False
      have "(r, q') = settle L mx clk k token i (RC_UNAVAILABLE, None) q"
        using r a 1 False q(3) by (auto simp: classify_item_def queue_get_def Let_def split: prod.splits)
      with settle_ends [OF q, of mx clk RC_UNAVAILABLE None] show ?thesis by fastforce
    qed
  next
    case (2 cl ref)
    let ?res = "if cl = RC_PRESENT then ref else None"
    have s: "(r, q') = settle L mx clk k token i (cl, ref) q"
      using r a 2 q(3) by (auto simp: classify_item_def queue_get_def Let_def split: prod.splits)
    have t: "class_true (fixture_posted w) (fixture_paid w) i cl ?res" if "cl \<in> {RC_PRESENT, RC_ABSENT}"
      using sound 2 that by (auto simp: class_true_def)
    from settle_ends [OF q, of mx clk cl ref] show ?thesis
      unfolding s [symmetric] using t by fastforce
  qed
qed

lemma claim_next_item:
  "claim_next L clk token q = (Inr (Some i'), q') \<Longrightarrow>
   find (\<lambda>i. qi_status i = Q_PENDING) (sorted_items q) = Some i \<Longrightarrow>
   i' = i\<lparr>qi_status := Q_CLASSIFYING, qi_token := token, qi_updated := Some (item_now clk)\<rparr>"
  by (auto simp: claim_next_def commit_def split: sum.splits prod.splits)

lemma fixture_truth_nonempty:
  assumes "fe_ok w"
  shows "fixture_posted w d \<noteq> Some []" "fixture_paid w d \<noteq> Some []"
proof -
  have "iv_official i \<noteq> Some []" if "find_invoice w d = Some i" for i
    using official_nonempty [OF assms find_invoice_obj [OF assms that]] by auto
  then show "fixture_posted w d \<noteq> Some []" by (auto simp: fixture_posted_def split: option.splits)
  show "fixture_paid w d \<noteq> Some []"
  proof
    assume "fixture_paid w d = Some []"
    then obtain p where "find (\<lambda>(r, p). py_evidence p = d) (fe_payments w) = Some ([], p)"
      by (auto simp: fixture_paid_def)
    then have "([], p) \<in> set (fe_payments w)" by (auto simp: find_Some_iff in_set_conv_nth)
    then have "dget (fe_payments w) [] = Some p" using assms dict_ok_get by (fastforce simp: fe_ok_def)
    then show False using fe_okD(2) [OF assms] by (fastforce simp: payment_ok_def ref_num_def)
  qed
qed

text \<open>What the provider holds for the intent of an item.\<close>

definition provider_truth :: "fixture_erp \<Rightarrow> queue_item \<Rightarrow> str option" where
  "provider_truth w i = (if qi_kind i = ''INVOICE_POST'' then fixture_posted w (qi_draft i)
     else fixture_paid w (qi_draft i))"

subsection \<open>What reconciliation leaves at the provider\<close>

text \<open>The provider's whole state but for the marks of uncertain outcomes.\<close>

definition settled_view :: "fixture_erp \<Rightarrow> fixture_erp" where
  "settled_view w = w\<lparr>fe_objs := map (\<lambda>(k, i). (k, i\<lparr>iv_uncertain := False\<rparr>)) (fe_objs w),
     fe_payments := map (\<lambda>(k, p). (k, p\<lparr>py_uncertain := False\<rparr>)) (fe_payments w)\<rparr>"

lemma map_dput_same:
  "dget d k = Some v \<Longrightarrow> f v' = f v \<Longrightarrow> map (\<lambda>(k, v). (k, f v)) (dput k v' d) = map (\<lambda>(k, v). (k, f v)) d"
  by (induction d) auto

lemma settled_uncertain:
  "fe_ok w \<Longrightarrow> settled_view (set_uncertain k b w) = settled_view w"
proof (cases "dget (fe_objs w) k")
  case (Some i)
  assume "fe_ok w"
  with Some have "iv_draft i = k" using fe_okD(1) by (fastforce simp: invoice_ok_def)
  with Some show ?thesis
    by (simp add: settled_view_def set_uncertain_def store_invoice_def
        map_dput_same [where f = "\<lambda>i. i\<lparr>iv_uncertain := False\<rparr>"])
qed (simp add: set_uncertain_def)

lemma settled_reconcile_post: "fe_ok w \<Longrightarrow> settled_view (snd (reconcile_post d w)) = settled_view w"
  by (simp add: reconcile_post_def settled_uncertain Let_def split: option.split)

lemma settled_reconcile_payment: "fe_ok w \<Longrightarrow> settled_view (snd (reconcile_payment e w)) = settled_view w"
proof -
  assume w: "fe_ok w"
  have "dget (fe_payments w) r = Some p" if "find (\<lambda>(r, p). py_evidence p = e) (fe_payments w) = Some (r, p)" for r p
  proof -
    from that have "(r, p) \<in> set (fe_payments w)" by (auto simp: find_Some_iff in_set_conv_nth)
    then show ?thesis using w dict_ok_get by (fastforce simp: fe_ok_def)
  qed
  then show ?thesis
    by (auto simp: reconcile_payment_def settled_view_def map_dput_same [where f = "\<lambda>p. p\<lparr>py_uncertain := False\<rparr>"]
        split: option.split)
qed

lemma settled_classify: "fe_ok w \<Longrightarrow> settled_view (snd (classify fixture_port i w)) = settled_view w"
  using settled_reconcile_post [of w "qi_draft i"] settled_reconcile_payment [of w "qi_draft i"]
  by (auto simp: classify_def classify_post_def classify_payment_def split: prod.split sum.split option.split)

lemma settled_classify_item:
  "fe_ok w \<Longrightarrow> classify_item L fixture_port mx clk k token q w = (r, q', w') \<Longrightarrow> settled_view w' = settled_view w"
  using settled_classify [of w]
  by (auto simp: classify_item_def Let_def split: sum.splits prod.splits if_splits) (metis snd_conv)+

text \<open>C21. Classifying the first pending item of a queue ends in the truth. Unless the item was
  once escalated as AMBIGUOUS, it leaves \<^verbatim>\<open>CLASSIFYING\<close>, in the result and in the queue: it
  is RESOLVED only with the reference the provider really holds for the intent,
  SAFE_RETRYABLE only if the provider holds none, and PENDING again only while its attempts
  are below the bound. An item that was escalated as AMBIGUOUS ends so too, with one exception:
  when the provider holds nothing for it, the engine raises and the item stays in
  \<^verbatim>\<open>CLASSIFYING\<close> under its token. In every case the provider's state is what it was but
  for the marks of uncertain outcomes, which the read-back clears.\<close>

theorem classify_next_truthful:
  assumes "libs_ok L" "queue_reach L empty_queue q" "erp_from pfx w" "0 < token"
    and "find (\<lambda>i. qi_status i = Q_PENDING) (sorted_items q) = Some i0"
    and "qi_kind i0 \<in> {''INVOICE_POST'', ''PAYMENT_RECORD''}"
    and "classify_next L fixture_port mx clk1 clk2 token q w = (r, q', w')"
  shows "((\<exists>i. r = Inr (Some i) \<and> dget (oq_items q') (qi_id i0) = Some i \<and> ends_well mx i0 i
        \<and> (qi_status i = Q_RESOLVED \<longrightarrow> provider_truth w i0 \<noteq> None \<and> qi_resolution i = provider_truth w i0)
        \<and> (qi_status i = Q_SAFE_RETRYABLE \<longrightarrow> provider_truth w i0 = None))
      \<or> (qi_escalated_from i0 = Some RC_AMBIGUOUS \<and> provider_truth w i0 = None \<and> r = Inl InvalidTransition
         \<and> (\<exists>i. dget (oq_items q') (qi_id i0) = Some i \<and> qi_status i = Q_CLASSIFYING \<and> qi_token i = token)))
    \<and> settled_view w' = settled_view w \<and> fixture_posted w' = fixture_posted w \<and> fixture_paid w' = fixture_paid w"
proof -
  have ok: "queue_ok L q" by (rule queue_reach_ok [OF assms(2,1) empty_queue_ok])
  have w: "fe_ok w" by (rule erp_from_ok [OF assms(3)])
  define i1 where "i1 = i0\<lparr>qi_status := Q_CLASSIFYING, qi_token := token, qi_updated := Some (item_now clk1)\<rparr>"
  obtain q1 where c: "claim_next L clk1 token q = (Inr (Some i1), q1)" and m: "moved L q (qi_id i0) i0 i1 q1"
  proof -
    from assms(5) have "i0 \<in> set (sorted_items q)" "qi_status i0 = Q_PENDING"
      by (auto simp: find_Some_iff)
    with claim_next_cases [OF ok assms(1), of clk1 token] obtain i i' q' where
      x: "claim_next L clk1 token q = (Inr (Some i'), q')" "moved L q (qi_id i) i i' q'"
      "find (\<lambda>i. qi_status i = Q_PENDING) (sorted_items q) = Some i" by blast
    from claim_next_item [OF x(1,3)] x assms(5) that show thesis unfolding i1_def by simp
  qed
  have ok1: "queue_ok L q1" by (rule moved_ok [OF ok m])
  have g: "dget (oq_items q1) (qi_id i0) = Some i1" using m by (auto simp: moved_def)
  obtain r1 q2 w2 where d: "classify_item L fixture_port mx clk2 (qi_id i0) token q1 w = (r1, q2, w2)"
    using prod_cases3 by blast
  have i1: "qi_status i1 = Q_CLASSIFYING" "qi_token i1 = token" "qi_kind i1 \<in> {''INVOICE_POST'', ''PAYMENT_RECORD''}"
    "qi_id i1 = qi_id i0" "qi_kind i1 = qi_kind i0" "qi_draft i1 = qi_draft i0" "qi_attempts i1 = qi_attempts i0"
    "qi_escalated_from i1 = qi_escalated_from i0"
    using assms(6) by (simp_all add: i1_def)
  have fr: "settled_view w2 = settled_view w" "fixture_posted w2 = fixture_posted w" "fixture_paid w2 = fixture_paid w"
    using fixture_readback.classify_item_frame [OF w d] settled_classify_item [OF w d] by simp_all
  have n: "q' = q2" "w' = w2" "r = map_sum id Some r1"
    using assms(7) c d i1(4) by (auto simp: classify_next_def split: sum.splits)
  note truth = fixture_truth_nonempty [OF w] class_true_def provider_truth_def
  from classify_item_ends [OF ok1 assms(1) g i1(1,2) assms(4) i1(3) w d] show ?thesis
  proof (elim disjE exE conjE)
    fix cl st res why
    assume e: "ends_as mx (qi_id i0) i1 (r1, q2) (completed clk2 cl st res why i1)"
      "cl \<in> {RC_PRESENT, RC_ABSENT} \<longrightarrow> class_true (fixture_posted w) (fixture_paid w) i1 cl res"
    then have "ends_well mx i0 (completed clk2 cl st res why i1)"
      using i1(4,7) by (auto simp: ends_well_def ends_as_def)
    moreover have "st = Q_RESOLVED \<longrightarrow> provider_truth w i0 \<noteq> None \<and> res = provider_truth w i0"
      "st = Q_SAFE_RETRYABLE \<longrightarrow> provider_truth w i0 = None"
      using e i1(5,6) by (auto simp: truth ends_well_def ends_as_def Let_def split: if_splits)
    ultimately show ?thesis using e(1) fr n by (auto simp: ends_as_def split: option.splits)
  next
    assume "r1 = Inl InvalidTransition" "q2 = q1" "qi_escalated_from i1 = Some RC_AMBIGUOUS"
      "class_true (fixture_posted w) (fixture_paid w) i1 RC_ABSENT None"
    moreover from this have "provider_truth w i0 = None"
      using i1(5,6) by (auto simp: truth Let_def split: if_splits)
    ultimately show ?thesis using fr n g i1 by simp
  qed
qed

definition demo_intent :: queue_item where
  "demo_intent = demo_item\<lparr>qi_draft := ''DRAFT-000001''\<rparr>"

definition demo_intent_queue :: op_queue where
  "demo_intent_queue = queue_apply demo_libs
     (Enqueue (0, 0) ''sha256:1'' ''INVOICE_POST'' ''DRAFT-000001'') empty_queue"

lemma demo_intent_queue_items: "oq_items demo_intent_queue = [(demo_id, demo_intent)]"
  by (simp add: demo_intent_queue_def enqueue_def empty_queue_def commit_state [simplified] Let_def
      demo_intent_def demo_item_def demo_id_def item_now_def)

theorem classify_next_truthful_witness:
  "\<exists>i. fst (classify_next demo_libs fixture_port 3 (1, 1) (2, 2) 5 demo_intent_queue demo_posted) = Inr (Some i)
     \<and> ends_well 3 demo_intent i
     \<and> settled_view (snd (snd (classify_next demo_libs fixture_port 3 (1, 1) (2, 2) 5 demo_intent_queue demo_posted)))
         = settled_view demo_posted"
proof -
  have q: "queue_reach demo_libs empty_queue demo_intent_queue"
    unfolding demo_intent_queue_def by (intro queue_reach.step queue_reach.refl)
  have f: "find (\<lambda>i. qi_status i = Q_PENDING) (sorted_items demo_intent_queue) = Some demo_intent"
    by (simp add: sorted_items_def demo_intent_queue_items dvals_def demo_intent_def demo_item_def)
  obtain r q' w' where c: "classify_next demo_libs fixture_port 3 (1, 1) (2, 2) 5 demo_intent_queue demo_posted
      = (r, q', w')" using prod_cases3 by blast
  have e: "qi_escalated_from demo_intent \<noteq> Some RC_AMBIGUOUS" "qi_kind demo_intent \<in> {''INVOICE_POST'', ''PAYMENT_RECORD''}"
    by (simp_all add: demo_intent_def demo_item_def)
  from classify_next_truthful [OF demo_libs_ok q demo_from(2) _ f e(2) c] e(1) c show ?thesis by auto
qed

text \<open>An item that was escalated as AMBIGUOUS may not become SAFE_RETRYABLE; if a later
  classification answers ABSENT, the engine raises and the item stays in
  \<^verbatim>\<open>CLASSIFYING\<close> with its token.\<close>

lemma absent_after_ambiguous:
  assumes "dget (oq_items q) k = Some i" "qi_status i = Q_CLASSIFYING" "qi_token i = token" "0 < token"
    "qi_escalated_from i = Some RC_AMBIGUOUS" "classify P i w = (Inr (RC_ABSENT, ref), w')"
  shows "classify_item L P mx clk k token q w = (Inl InvalidTransition, q, w')"
  using assms
  by (simp add: classify_item_def queue_get_def settle_def complete_classification_def assert_owner_def)

section \<open>The orphan report\<close>

definition known_draft :: "str set \<Rightarrow> invoice_state \<Rightarrow> bool" where
  "known_draft known i = (case dget (iv_payload i) ''draft_ref'' of Some (JStr d) \<Rightarrow> d \<in> known | _ \<Rightarrow> False)"

lemma find_orphans_fixture:
  assumes "\<And>r. r \<in> set rs \<Longrightarrow> read_invoice r w = Inr (to_record (obj r))"
  shows "find_orphans fixture_port known rs acc w
    = (Inr (acc @ filter (\<lambda>r. \<not> known_draft known (obj r)) rs), w)"
  using assms
  by (induction rs arbitrary: acc) (auto simp: known_draft_def to_record_def)

lemma image_pairs_filter: "fst ` {x \<in> (\<lambda>p. (f p, g p)) ` A. snd x \<notin> B} = f ` {p \<in> A. g p \<notin> B}"
  by force

text \<open>The orphan report is exact: it lists, sorted, precisely the indexed posted documents
  whose draft is not known, precisely the payments whose evidence is not known, and the
  items that are escalated; it never fails while the provider answers, and it changes
  nothing.\<close>

theorem orphans_exact:
  assumes "erp_from pfx w" "\<not> fe_outage w"
  shows "\<exists>rep. orphan_report fixture_port known (Some evidence) q w = (Inr rep, w)
    \<and> set (or_erp rep) = {h. \<exists>k i. dget (fe_objs w) k = Some i \<and> iv_status i = ''POSTED''
         \<and> iv_official i = Some h \<and> h \<notin> fe_dropped w \<and> \<not> known_draft known i}
    \<and> set (or_payment rep) = {r. \<exists>p. dget (fe_payments w) r = Some p \<and> py_evidence p \<notin> evidence}
    \<and> sorted (or_erp rep) \<and> sorted (or_payment rep) \<and> or_unresolved rep = map qi_id (stuck_items q)"
proof -
  note ok = erp_from_ok [OF assms(1)]
  define refs where "refs = sort (collect_refs (matches_query w (Some ''POSTED'') None None) (handle_objects w) [])"
  have qr: "query_invoices (Some ''POSTED'') None None w
      = Inr \<lparr>qr_kind = ''INVOICE'', qr_references = refs, qr_scoped = False, qr_total = length refs\<rparr>"
    using assms(2) by (simp add: query_invoices_def refs_def Let_def)
  have posted: "iv_official i = Some (handle_of i) \<and> find_invoice w (handle_of i) = Some i"
    if i: "dget (fe_objs w) k = Some i" "iv_status i = ''POSTED''" for k i
  proof -
    obtain h where h: "iv_official i = Some h"
      using fe_okD(1) [OF ok i(1)] i(2) by (cases "iv_official i") (auto simp: invoice_ok_def)
    with handle_of_official [OF h official_nonempty [OF ok i(1) h]] official_found [OF ok i(1) h]
    show ?thesis by simp
  qed
  have set_refs: "set refs = handle_of ` {i. (\<exists>k. dget (fe_objs w) k = Some i) \<and> iv_status i = ''POSTED''
      \<and> handle_of i \<notin> fe_dropped w}"
    unfolding refs_def set_sort collect_refs_set handle_objects_set [OF ok] by (auto simp: matches_query_def)
  have read: "read_invoice r w = Inr (to_record (the (find_invoice w r)))" if r: "r \<in> set refs" for r
    using r posted assms(2) unfolding set_refs by (auto simp: read_invoice_def lookup_invoice_def)
  have fo: "find_orphans fixture_port known refs [] w
      = (Inr (filter (\<lambda>r. \<not> known_draft known (the (find_invoice w r))) refs), w)"
    using find_orphans_fixture [OF read] by simp
  have "set (filter (\<lambda>r. \<not> known_draft known (the (find_invoice w r))) refs)
      = {h. \<exists>k i. dget (fe_objs w) k = Some i \<and> iv_status i = ''POSTED''
         \<and> iv_official i = Some h \<and> h \<notin> fe_dropped w \<and> \<not> known_draft known i}"
    using posted unfolding set_filter set_refs by force
  moreover have "fst ` {x \<in> set (payment_evidence_index w). snd x \<notin> evidence}
      = {r. \<exists>p. dget (fe_payments w) r = Some p \<and> py_evidence p \<notin> evidence}"
  proof -
    have d: "dict_ok (fe_payments w)" using ok by (simp add: fe_ok_def)
    have ref: "py_reference p = r" if "dget (fe_payments w) r = Some p" for r p
      using fe_okD(2) [OF ok that] by (simp add: payment_ok_def)
    have "set (payment_evidence_index w) = (\<lambda>p. (py_reference p, py_evidence p)) ` set (dvals (fe_payments w))"
      by (simp add: payment_evidence_index_def)
    then have "fst ` {x \<in> set (payment_evidence_index w). snd x \<notin> evidence}
        = py_reference ` {p \<in> set (dvals (fe_payments w)). py_evidence p \<notin> evidence}"
      by (simp only: image_pairs_filter)
    also have "\<dots> = {r. \<exists>p. dget (fe_payments w) r = Some p \<and> py_evidence p \<notin> evidence}"
    proof (intro equalityI subsetI)
      fix r assume "r \<in> py_reference ` {p \<in> set (dvals (fe_payments w)). py_evidence p \<notin> evidence}"
      then obtain p k where "dget (fe_payments w) k = Some p" "py_evidence p \<notin> evidence" "r = py_reference p"
        using dict_ok_vals [OF d] by blast
      with ref show "r \<in> {r. \<exists>p. dget (fe_payments w) r = Some p \<and> py_evidence p \<notin> evidence}" by auto
    next
      fix r assume "r \<in> {r. \<exists>p. dget (fe_payments w) r = Some p \<and> py_evidence p \<notin> evidence}"
      then obtain p where "dget (fe_payments w) r = Some p" "py_evidence p \<notin> evidence" by blast
      moreover from this(1) have "p \<in> set (dvals (fe_payments w))" using dict_ok_vals [OF d] by blast
      ultimately show "r \<in> py_reference ` {p \<in> set (dvals (fe_payments w)). py_evidence p \<notin> evidence}"
        using ref by force
    qed
    finally show ?thesis .
  qed
  ultimately show ?thesis
    by (simp add: orphan_report_def qr fo case_prod_unfold)
qed

theorem orphans_exact_witness:
  "\<exists>rep. orphan_report fixture_port {} (Some {}) empty_queue demo_paid = (Inr rep, demo_paid)
    \<and> set (or_payment rep) = {r. \<exists>p. dget (fe_payments demo_paid) r = Some p \<and> py_evidence p \<notin> {}}"
proof -
  have "\<not> fe_outage demo_paid" by code_simp
  from orphans_exact [OF demo_from(3) this, of "{}" "{}" empty_queue] obtain rep where
    "orphan_report fixture_port {} (Some {}) empty_queue demo_paid = (Inr rep, demo_paid)"
    "set (or_payment rep) = {r. \<exists>p. dget (fe_payments demo_paid) r = Some p \<and> py_evidence p \<notin> {}}"
    by (elim exE conjE) (rule that)
  then show ?thesis by (intro exI conjI)
qed

end
