(* ===== verification/Authz.thy ===== *)
theory Authz
  imports Values
begin

text \<open>
  Role-based access decisions of \<^verbatim>\<open>src/authz/access.py\<close>: the canonical forms of
  requests, bindings and assignments with the checks of their constructors, and
  \<^verbatim>\<open>authorize\<close>. Every datetime the model can build converts to UTC, so the two handlers
  for failing \<^verbatim>\<open>tzinfo\<close> objects have no counterpart.
\<close>

section \<open>Roles, actions and references\<close>

definition registered_actions :: "str set" where
  "registered_actions = {''LEAD-READ'', ''LEAD-WRITE'', ''QUOTATION-DRAFT'', ''INVOICE_PREVIEW'',
     ''INVOICE_POST'', ''PAYMENT_RECORD'', ''QUERY_RECEIVABLE''}"

definition role_actions :: "str \<Rightarrow> str set" where
  "role_actions r =
    (if r = ''UNIT-SALES'' then {''LEAD-READ'', ''LEAD-WRITE'', ''QUOTATION-DRAFT''}
     else if r = ''FINANCE-REQUESTER'' then {''QUOTATION-DRAFT'', ''INVOICE_PREVIEW'', ''PAYMENT_RECORD''}
     else if r = ''FINANCE-REVIEWER'' then {''LEAD-READ'', ''QUOTATION-DRAFT'', ''INVOICE_PREVIEW'',
       ''PAYMENT_RECORD'', ''QUERY_RECEIVABLE''}
     else if r = ''FINANCE-POSTER'' then {''INVOICE_POST''}
     else if r = ''OWNER'' then {''LEAD-READ'', ''LEAD-WRITE'', ''QUOTATION-DRAFT'', ''INVOICE_PREVIEW'',
       ''PAYMENT_RECORD'', ''QUERY_RECEIVABLE''}
     else {})"

definition denial_codes :: "str set" where
  "denial_codes = {''IDENTITY_UNVERIFIED'', ''INVALID_INPUT'', ''PERMISSION_DENIED'', ''STALE_CONTEXT'',
     ''STALE_PREVIEW'', ''UNIT_CONTEXT_REQUIRED''}"

definition denial_message :: str where
  "denial_message = ''Request cannot be authorized.''"

text \<open>\<^verbatim>\<open>[A-Z][A-Z0-9]*(?:-[A-Z0-9]+)*\<close>.\<close>

definition role_name :: "str \<Rightarrow> bool" where
  "role_name s = (case s of [] \<Rightarrow> False
     | c # cs \<Rightarrow> is_upper c \<and>
         (dropWhile upper_alnum cs = [] \<or> dash_groups (dropWhile upper_alnum cs)))"

text \<open>\<^verbatim>\<open>[A-Z][A-Z0-9]*(?:[-_][A-Z0-9]+)+\<close>.\<close>

function action_groups :: "str \<Rightarrow> bool" where
  "action_groups [] = False"
| "action_groups (c # s) =
     (c \<in> {CHR ''-'', CHR ''_''} \<and> takeWhile upper_alnum s \<noteq> [] \<and>
      (dropWhile upper_alnum s = [] \<or> action_groups (dropWhile upper_alnum s)))"
  by pat_completeness auto
termination
  by (relation "measure length") (auto simp: le_imp_less_Suc length_dropWhile_le)

definition action_name :: "str \<Rightarrow> bool" where
  "action_name s = (case s of [] \<Rightarrow> False
     | c # cs \<Rightarrow> is_upper c \<and> action_groups (dropWhile upper_alnum cs))"

definition ref_with :: "str \<Rightarrow> str \<Rightarrow> bool" where
  "ref_with p s = (opaque_ref s \<and> startswith s p)"

definition as_utc :: "datetime \<Rightarrow> int res" where
  "as_utc t = (case t of Aware u _ \<Rightarrow> Inr u | Naive _ \<Rightarrow> Inl ValueError)"

definition utc_opt :: "datetime option \<Rightarrow> int option res" where
  "utc_opt t = (case t of None \<Rightarrow> Inr None
     | Some d \<Rightarrow> (case as_utc d of Inl e \<Rightarrow> Inl e | Inr u \<Rightarrow> Inr (Some u)))"

section \<open>Requests, bindings, assignments, decisions\<close>

record preview_binding =
  pb_unit :: str
  pb_assignment :: str
  pb_revision :: int

record auth_request =
  aq_actor :: str
  aq_channel :: str
  aq_action :: str
  aq_unit :: "str option"
  aq_at :: "datetime option"
  aq_revision :: "int option"
  aq_preview :: "preview_binding option"

record identity_binding =
  ib_actor :: str
  ib_channel :: str
  ib_active :: bool

record assignment =
  as_actor :: str
  as_unit :: str
  as_roles :: "str list"
  as_active :: bool
  as_ref :: str
  as_revision :: int
  as_from :: "datetime option"
  as_until :: "datetime option"

record access_decision =
  ad_allowed :: bool
  ad_code :: str
  ad_message :: str
  ad_unit :: "str option"

definition mk_request :: "auth_request \<Rightarrow> auth_request res" where
  "mk_request r =
    ensure ValueError (ref_with ''ACTOR-'' (aq_actor r)) (
    ensure ValueError (ref_with ''CHANNEL-'' (aq_channel r)) (
    ensure ValueError (case aq_unit r of None \<Rightarrow> True | Some u \<Rightarrow> ref_with ''UNIT-'' u) (
    ensure ValueError (action_name (aq_action r)) (
    bind_res (utc_opt (aq_at r)) (\<lambda>_.
    ensure ValueError (case aq_revision r of None \<Rightarrow> True | Some n \<Rightarrow> 1 \<le> n) (Inr r))))))"

definition mk_binding :: "identity_binding \<Rightarrow> identity_binding res" where
  "mk_binding b =
    ensure ValueError (ref_with ''ACTOR-'' (ib_actor b)) (
    ensure ValueError (ref_with ''CHANNEL-'' (ib_channel b)) (Inr b))"

definition mk_assignment :: "assignment \<Rightarrow> assignment res" where
  "mk_assignment a =
    ensure ValueError (ref_with ''ACTOR-'' (as_actor a)) (
    ensure ValueError (ref_with ''UNIT-'' (as_unit a)) (
    ensure ValueError (ref_with ''ASSIGNMENT-'' (as_ref a)) (
    ensure ValueError (as_roles a \<noteq> [] \<and> list_all role_name (as_roles a)) (
    ensure ValueError (1 \<le> as_revision a) (
    bind_res (utc_opt (as_from a)) (\<lambda>f.
    bind_res (utc_opt (as_until a)) (\<lambda>u.
    ensure ValueError (case (f, u) of (Some x, Some y) \<Rightarrow> x < y | _ \<Rightarrow> True) (Inr a))))))))"

definition mk_preview :: "preview_binding \<Rightarrow> preview_binding res" where
  "mk_preview p =
    ensure ValueError (ref_with ''UNIT-'' (pb_unit p)) (
    ensure ValueError (ref_with ''ASSIGNMENT-'' (pb_assignment p)) (
    ensure ValueError (1 \<le> pb_revision p) (Inr p)))"

definition mk_decision :: "access_decision \<Rightarrow> access_decision res" where
  "mk_decision d =
    (if ad_allowed d then
       ensure ValueError (ad_code d = ''ALLOWED'' \<and> ad_message d = ''Allowed.'') (
       case ad_unit d of None \<Rightarrow> Inl ValueError
       | Some u \<Rightarrow> ensure ValueError (ref_with ''UNIT-'' u) (Inr d))
     else
       ensure ValueError (ad_code d \<in> denial_codes \<and> ad_message d = denial_message) (
       ensure ValueError (ad_unit d = None) (Inr d)))"

definition denied :: "str \<Rightarrow> access_decision res" where
  "denied code = mk_decision \<lparr>ad_allowed = False, ad_code = code, ad_message = denial_message, ad_unit = None\<rparr>"

section \<open>The decision\<close>

definition is_effective :: "assignment \<Rightarrow> auth_request \<Rightarrow> bool res" where
  "is_effective a r =
    (if \<not> as_active a \<or> as_actor a \<noteq> aq_actor r then Inr False
     else (case aq_at r of
       None \<Rightarrow> Inr (as_from a = None \<and> as_until a = None)
     | Some t \<Rightarrow>
         bind_res (as_utc t) (\<lambda>now.
         bind_res (utc_opt (as_from a)) (\<lambda>f.
         if (case f of Some x \<Rightarrow> now < x | None \<Rightarrow> False) then Inr False
         else bind_res (utc_opt (as_until a)) (\<lambda>u.
           Inr (\<not> (case u of Some y \<Rightarrow> y \<le> now | None \<Rightarrow> False)))))))"

fun filter_effective :: "auth_request \<Rightarrow> assignment list \<Rightarrow> assignment list res" where
  "filter_effective r [] = Inr []"
| "filter_effective r (a # as) =
     bind_res (is_effective a r) (\<lambda>b.
     bind_res (filter_effective r as) (\<lambda>ys. Inr (if b then a # ys else ys)))"

definition granted :: "assignment \<Rightarrow> str set" where
  "granted a = (\<Union>r \<in> set (as_roles a). role_actions r)"

text \<open>The checks on the selected assignment.\<close>

definition decide :: "auth_request \<Rightarrow> assignment \<Rightarrow> access_decision res" where
  "decide r a =
    (if (case aq_revision r of Some n \<Rightarrow> as_revision a \<noteq> n | None \<Rightarrow> False) then denied ''STALE_CONTEXT''
     else if (case aq_preview r of None \<Rightarrow> False
        | Some p \<Rightarrow> pb_unit p \<noteq> as_unit a \<or> pb_assignment p \<noteq> as_ref a \<or> pb_revision p \<noteq> as_revision a)
     then denied ''STALE_PREVIEW''
     else if aq_action r \<notin> registered_actions \<or> aq_action r \<notin> granted a then denied ''PERMISSION_DENIED''
     else mk_decision \<lparr>ad_allowed = True, ad_code = ''ALLOWED'', ad_message = ''Allowed.'',
            ad_unit = Some (as_unit a)\<rparr>)"

definition authorize ::
  "auth_request \<Rightarrow> identity_binding option \<Rightarrow> assignment list \<Rightarrow> access_decision res" where
  "authorize r binding as =
    (if (case binding of None \<Rightarrow> True
         | Some b \<Rightarrow> \<not> ib_active b \<or> ib_actor b \<noteq> aq_actor r \<or> ib_channel b \<noteq> aq_channel r)
     then denied ''IDENTITY_UNVERIFIED''
     else bind_res (filter_effective r as) (\<lambda>active.
       case aq_unit r of
         Some u \<Rightarrow>
           (case filter (\<lambda>a. as_unit a = u) active of
              [a] \<Rightarrow> decide r a
            | _ \<Rightarrow> denied ''PERMISSION_DENIED'')
       | None \<Rightarrow>
           (case active of
              [] \<Rightarrow> denied ''PERMISSION_DENIED''
            | [a] \<Rightarrow> decide r a
            | _ \<Rightarrow> denied ''UNIT_CONTEXT_REQUIRED'')))"

section \<open>What a decision means\<close>

text \<open>Values that went through their constructors.\<close>

definition request_ok :: "auth_request \<Rightarrow> bool" where
  "request_ok r = (mk_request r = Inr r)"

definition assignment_ok :: "assignment \<Rightarrow> bool" where
  "assignment_ok a = (mk_assignment a = Inr a)"

text \<open>Being in force at the time of the request, without errors.\<close>

definition in_force :: "auth_request \<Rightarrow> assignment \<Rightarrow> bool" where
  "in_force r a = (as_active a \<and> as_actor a = aq_actor r \<and>
     (case aq_at r of None \<Rightarrow> as_from a = None \<and> as_until a = None
      | Some t \<Rightarrow> (case as_from a of None \<Rightarrow> True | Some f \<Rightarrow> utc_us f \<le> utc_us t)
                \<and> (case as_until a of None \<Rightarrow> True | Some u \<Rightarrow> utc_us t < utc_us u)))"

text \<open>The specification: the one assignment in force that the request selects.\<close>

definition chosen :: "auth_request \<Rightarrow> assignment list \<Rightarrow> assignment \<Rightarrow> bool" where
  "chosen r as a = (filter (\<lambda>x. in_force r x \<and> (aq_unit r = None \<or> aq_unit r = Some (as_unit x))) as = [a])"

definition up_to_date :: "auth_request \<Rightarrow> assignment \<Rightarrow> bool" where
  "up_to_date r a =
    ((\<forall>n. aq_revision r = Some n \<longrightarrow> as_revision a = n)
     \<and> (\<forall>p. aq_preview r = Some p \<longrightarrow>
          pb_unit p = as_unit a \<and> pb_assignment p = as_ref a \<and> pb_revision p = as_revision a))"

definition bound_to :: "auth_request \<Rightarrow> identity_binding option \<Rightarrow> bool" where
  "bound_to r binding = (\<exists>b. binding = Some b \<and> ib_active b \<and> ib_actor b = aq_actor r \<and> ib_channel b = aq_channel r)"

lemma utc_opt_ok: "utc_opt t = Inr u \<Longrightarrow> u = map_option utc_us t"
  by (auto simp: utc_opt_def as_utc_def split: option.splits datetime.splits)

lemma assignment_okD:
  assumes "assignment_ok a"
  shows "ref_with ''UNIT-'' (as_unit a)" "utc_opt (as_from a) = Inr (map_option utc_us (as_from a))"
    "utc_opt (as_until a) = Inr (map_option utc_us (as_until a))"
  using assms utc_opt_ok
  by (force simp: assignment_ok_def mk_assignment_def bind_res_Inr)+

lemma is_effective_ok:
  assumes "request_ok r" "assignment_ok a"
  shows "is_effective a r = Inr (in_force r a)"
proof -
  have "aq_at r = Some t \<Longrightarrow> as_utc t = Inr (utc_us t)" for t
    using assms(1) utc_opt_ok [of "Some t"]
    by (auto simp: request_ok_def mk_request_def bind_res_Inr utc_opt_def split: sum.splits)
  then show ?thesis
    by (auto simp: is_effective_def in_force_def assignment_okD [OF assms(2)] split: option.splits)
qed

lemma filter_effective_ok:
  "request_ok r \<Longrightarrow> list_all assignment_ok as \<Longrightarrow> filter_effective r as = Inr (filter (in_force r) as)"
  by (induction as) (simp_all add: is_effective_ok)

lemma denied_ok: "c \<in> denial_codes \<Longrightarrow> denied c
    = Inr \<lparr>ad_allowed = False, ad_code = c, ad_message = denial_message, ad_unit = None\<rparr>"
  by (simp add: denied_def mk_decision_def)

lemma codes: "''IDENTITY_UNVERIFIED'' \<in> denial_codes" "''PERMISSION_DENIED'' \<in> denial_codes"
  "''UNIT_CONTEXT_REQUIRED'' \<in> denial_codes" "''STALE_CONTEXT'' \<in> denial_codes"
  "''STALE_PREVIEW'' \<in> denial_codes"
  by (simp_all add: denial_codes_def)

text \<open>A decision that grants the unit of \<open>a\<close>, or one that denies and discloses nothing.\<close>

definition grants :: "access_decision res \<Rightarrow> assignment \<Rightarrow> bool" where
  "grants d a = (d = Inr \<lparr>ad_allowed = True, ad_code = ''ALLOWED'', ad_message = ''Allowed.'', ad_unit = Some (as_unit a)\<rparr>)"

definition denies :: "access_decision res \<Rightarrow> bool" where
  "denies d = (\<exists>c \<in> denial_codes. d = Inr \<lparr>ad_allowed = False, ad_code = c, ad_message = denial_message, ad_unit = None\<rparr>)"

lemma denies_denied: "c \<in> denial_codes \<Longrightarrow> denies (denied c)"
  by (auto simp: denies_def denied_ok)

lemma denies_not_grants: "denies d \<Longrightarrow> \<not> grants d a"
  by (auto simp: denies_def grants_def)

lemma decide_spec:
  assumes "assignment_ok a"
  shows "if up_to_date r a \<and> aq_action r \<in> registered_actions \<inter> granted a then grants (decide r a) a
    else denies (decide r a)"
proof -
  have "mk_decision \<lparr>ad_allowed = True, ad_code = ''ALLOWED'', ad_message = ''Allowed.'', ad_unit = Some (as_unit a)\<rparr>
      = Inr \<lparr>ad_allowed = True, ad_code = ''ALLOWED'', ad_message = ''Allowed.'', ad_unit = Some (as_unit a)\<rparr>"
    using assignment_okD(1) [OF assms] by (simp add: mk_decision_def)
  then show ?thesis
    using denies_denied [OF codes(4)] denies_denied [OF codes(5)] denies_denied [OF codes(2)]
    by (auto simp: decide_def up_to_date_def grants_def split: option.splits)
qed

lemma authorize_cases:
  assumes "request_ok r" "list_all assignment_ok as"
  shows "(\<exists>a. bound_to r binding \<and> chosen r as a \<and> authorize r binding as = decide r a)
    \<or> (\<not> (bound_to r binding \<and> (\<exists>a. chosen r as a)) \<and> denies (authorize r binding as))"
proof (cases "bound_to r binding")
  case False
  then have "authorize r binding as = denied ''IDENTITY_UNVERIFIED''"
    by (auto simp: authorize_def bound_to_def split: option.splits)
  with False denies_denied [OF codes(1)] show ?thesis by simp
next
  case True
  then have "authorize r binding as = (case aq_unit r of
         Some u \<Rightarrow> (case filter (\<lambda>a. as_unit a = u) (filter (in_force r) as) of
              [a] \<Rightarrow> decide r a | _ \<Rightarrow> denied ''PERMISSION_DENIED'')
       | None \<Rightarrow> (case filter (in_force r) as of
              [] \<Rightarrow> denied ''PERMISSION_DENIED'' | [a] \<Rightarrow> decide r a
            | _ \<Rightarrow> denied ''UNIT_CONTEXT_REQUIRED''))"
    by (auto simp: authorize_def bound_to_def filter_effective_ok [OF assms])
  moreover have "filter (\<lambda>a. as_unit a = u) (filter (in_force r) as)
      = filter (\<lambda>x. in_force r x \<and> (aq_unit r = None \<or> aq_unit r = Some (as_unit x))) as"
    if "aq_unit r = Some u" for u
    using that by (auto intro!: filter_cong)
  ultimately show ?thesis
    using True denies_denied [OF codes(2)] denies_denied [OF codes(3)]
    by (cases "aq_unit r") (auto simp: chosen_def split: list.splits)
qed

text \<open>C23. An access decision is granted exactly when it should be: the actor is bound to the
  channel, exactly one assignment of the actor is in force for the selected unit (or at all,
  when none is selected), the revisions the request and its preview name are current, and a
  role of that assignment grants the registered action. The decision then names that
  assignment's unit; every other decision is a denial that names no unit; nothing raises.\<close>

theorem authorize_iff:
  assumes "request_ok r" "list_all assignment_ok as"
  shows "if bound_to r binding \<and> (\<exists>a. chosen r as a \<and> up_to_date r a
        \<and> aq_action r \<in> registered_actions \<inter> granted a)
    then \<exists>a. chosen r as a \<and> grants (authorize r binding as) a
    else denies (authorize r binding as)"
proof -
  have unique: "a = b" if "chosen r as a" "chosen r as b" for a b using that by (simp add: chosen_def)
  have ok: "assignment_ok a" if "chosen r as a" for a
  proof -
    have "a \<in> set (filter (\<lambda>x. in_force r x \<and> (aq_unit r = None \<or> aq_unit r = Some (as_unit x))) as)"
      using that by (simp add: chosen_def)
    with assms(2) show ?thesis by (simp add: list_all_iff)
  qed
  from authorize_cases [OF assms, of binding] show ?thesis
  proof (elim disjE exE conjE)
    fix a assume a: "bound_to r binding" "chosen r as a" "authorize r binding as = decide r a"
    show ?thesis
    proof (cases "up_to_date r a \<and> aq_action r \<in> registered_actions \<inter> granted a")
      case True
      with decide_spec [OF ok [OF a(2)], of r] have "grants (decide r a) a" by (simp only: if_True)
      with True a show ?thesis by (metis (no_types, lifting))
    next
      case False
      with decide_spec [OF ok [OF a(2)], of r] have "denies (decide r a)" by (simp only: if_False)
      moreover have "\<not> (\<exists>a. chosen r as a \<and> up_to_date r a \<and> aq_action r \<in> registered_actions \<inter> granted a)"
        using False unique [OF a(2)] by blast
      ultimately show ?thesis using a(3) by (simp only: if_False simp_thms)
    qed
  next
    assume d: "\<not> (bound_to r binding \<and> (\<exists>a. chosen r as a))" "denies (authorize r binding as)"
    then have "\<not> (bound_to r binding \<and> (\<exists>a. chosen r as a \<and> up_to_date r a
        \<and> aq_action r \<in> registered_actions \<inter> granted a))" by blast
    with d(2) show ?thesis by (simp only: if_False)
  qed
qed

definition demo_request :: "str \<Rightarrow> auth_request" where
  "demo_request act = \<lparr>aq_actor = ''ACTOR-1'', aq_channel = ''CHANNEL-1'', aq_action = act,
     aq_unit = Some ''UNIT-A'', aq_at = Some (Aware 50 0), aq_revision = Some 2, aq_preview = None\<rparr>"

definition demo_binding :: identity_binding where
  "demo_binding = \<lparr>ib_actor = ''ACTOR-1'', ib_channel = ''CHANNEL-1'', ib_active = True\<rparr>"

definition demo_assignment :: "str \<Rightarrow> str \<Rightarrow> assignment" where
  "demo_assignment u role = \<lparr>as_actor = ''ACTOR-1'', as_unit = u, as_roles = [role], as_active = True,
     as_ref = ''ASSIGNMENT-1'', as_revision = 2, as_from = Some (Aware 0 0), as_until = Some (Aware 100 0)\<rparr>"

lemma demo_auth_ok:
  "request_ok (demo_request ''INVOICE_POST'')"
  "list_all assignment_ok [demo_assignment ''UNIT-A'' ''FINANCE-POSTER'', demo_assignment ''UNIT-B'' ''OWNER'']"
proof -
  show "request_ok (demo_request ''INVOICE_POST'')"
    unfolding request_ok_def by code_simp
  show "list_all assignment_ok [demo_assignment ''UNIT-A'' ''FINANCE-POSTER'', demo_assignment ''UNIT-B'' ''OWNER'']"
    unfolding assignment_ok_def by code_simp
qed

theorem authorize_iff_witness:
  "\<exists>a. grants (authorize (demo_request ''INVOICE_POST'') (Some demo_binding)
      [demo_assignment ''UNIT-A'' ''FINANCE-POSTER'', demo_assignment ''UNIT-B'' ''OWNER'']) a"
proof -
  let ?as = "[demo_assignment ''UNIT-A'' ''FINANCE-POSTER'', demo_assignment ''UNIT-B'' ''OWNER'']"
  let ?r = "demo_request ''INVOICE_POST''" and ?a = "demo_assignment ''UNIT-A'' ''FINANCE-POSTER''"
  have "chosen ?r ?as ?a" unfolding chosen_def by code_simp
  moreover have "up_to_date ?r ?a" by (simp add: up_to_date_def demo_request_def demo_assignment_def)
  moreover have "aq_action ?r \<in> registered_actions \<inter> granted ?a" by code_simp
  moreover have "bound_to ?r (Some demo_binding)" by (simp add: bound_to_def demo_request_def demo_binding_def)
  ultimately have c: "bound_to ?r (Some demo_binding) \<and> (\<exists>a. chosen ?r ?as a \<and> up_to_date ?r a
      \<and> aq_action ?r \<in> registered_actions \<inter> granted a)" by blast
  from authorize_iff [OF demo_auth_ok, of "Some demo_binding", unfolded if_P [OF c]] show ?thesis by blast
qed

section \<open>Consequences\<close>

lemma post_only_poster: "''INVOICE_POST'' \<in> role_actions role \<longleftrightarrow> role = ''FINANCE-POSTER''"
  by (simp add: role_actions_def)

text \<open>Only a poster posts: whatever else the actor may be, in this unit or in another, a
  request to post an invoice is granted only through an assignment in force for the granted
  unit that has the role FINANCE-POSTER; in particular an OWNER cannot post. And what other
  actors, inactive or expired assignments contribute to the list makes no difference.\<close>

theorem only_posters_post:
  assumes "request_ok r" "list_all assignment_ok as"
  shows "authorize r binding as = authorize r binding (filter (in_force r) as)
    \<and> (\<forall>d. aq_action r = ''INVOICE_POST'' \<and> authorize r binding as = Inr d \<and> ad_allowed d \<longrightarrow>
         (\<exists>a \<in> set as. in_force r a \<and> ''FINANCE-POSTER'' \<in> set (as_roles a) \<and> ad_unit d = Some (as_unit a)))"
proof
  have "list_all assignment_ok (filter (in_force r) as)" using assms(2) by (simp add: list_all_iff)
  from filter_effective_ok [OF assms(1) this] filter_effective_ok [OF assms]
  show "authorize r binding as = authorize r binding (filter (in_force r) as)"
    by (simp add: authorize_def)
next
  show "\<forall>d. aq_action r = ''INVOICE_POST'' \<and> authorize r binding as = Inr d \<and> ad_allowed d \<longrightarrow>
         (\<exists>a \<in> set as. in_force r a \<and> ''FINANCE-POSTER'' \<in> set (as_roles a) \<and> ad_unit d = Some (as_unit a))"
  proof (intro allI impI, elim conjE)
    fix d assume d: "aq_action r = ''INVOICE_POST''" "authorize r binding as = Inr d" "ad_allowed d"
    with authorize_cases [OF assms, of binding] obtain a where a: "chosen r as a" "authorize r binding as = decide r a"
      by (auto simp: denies_def)
    have "a \<in> set (filter (\<lambda>x. in_force r x \<and> (aq_unit r = None \<or> aq_unit r = Some (as_unit x))) as)"
      using a(1) by (simp add: chosen_def)
    then have mem: "a \<in> set as" "in_force r a" by auto
    with assms(2) have "assignment_ok a" by (simp add: list_all_iff)
    from decide_spec [OF this, of r] a(2) d have "grants (decide r a) a \<and> aq_action r \<in> granted a"
      by (auto simp: denies_def split: if_splits)
    then have "ad_unit d = Some (as_unit a)" "''FINANCE-POSTER'' \<in> set (as_roles a)"
      using a(2) d by (auto simp: grants_def granted_def post_only_poster)
    with mem show "\<exists>a \<in> set as. in_force r a \<and> ''FINANCE-POSTER'' \<in> set (as_roles a) \<and> ad_unit d = Some (as_unit a)"
      by blast
  qed
qed

theorem only_posters_post_witness:
  "\<not> (\<exists>d. authorize (demo_request ''INVOICE_POST'') (Some demo_binding) [demo_assignment ''UNIT-A'' ''OWNER''] = Inr d
      \<and> ad_allowed d)"
proof -
  have ok: "list_all assignment_ok [demo_assignment ''UNIT-A'' ''OWNER'']"
    unfolding assignment_ok_def by code_simp
  let ?r = "demo_request ''INVOICE_POST''" and ?a = "demo_assignment ''UNIT-A'' ''OWNER''"
  have n: "\<not> (\<exists>a \<in> set [?a]. in_force ?r a \<and> ''FINANCE-POSTER'' \<in> set (as_roles a) \<and> ad_unit d = Some (as_unit a))" for d
    by (simp add: demo_assignment_def)
  have "aq_action ?r = ''INVOICE_POST''" by (simp add: demo_request_def)
  with conjunct2 [OF only_posters_post [OF demo_auth_ok(1) ok, of "Some demo_binding"]] n show ?thesis by blast
qed

end
