(* ===== verification/FinPolicy.thy ===== *)
theory FinPolicy
  imports ErpPort "HOL-Library.Multiset"
begin

text \<open>
  Financial identity policies (\<^verbatim>\<open>src/policy/financial_identity.py\<close>): trusted issuers that
  sign catalogs of approved identities and overrides with an HMAC, effective-dated policies,
  and the resolver that picks the one policy in force. The text that is signed is built as
  the program builds it, \<^verbatim>\<open>repr\<close> of the identity's fields included; its UTF-8
  encoding is not modelled. Datetimes are aware, which every constructor checks.
\<close>

section \<open>Checks\<close>

definition blocked :: "bool \<Rightarrow> 'a res \<Rightarrow> 'a res" where
  "blocked c r = (if c then Inl (PolicyResolutionError ''BLOCKED_CONFIGURATION'') else r)"

lemma blocked_Inr [simp]: "blocked c r = Inr x \<longleftrightarrow> \<not> c \<and> r = Inr x"
  by (simp add: blocked_def)

definition opaque_with :: "str \<Rightarrow> str \<Rightarrow> bool" where
  "opaque_with p s = (startswith s p \<and> opaque_ref s)"

text \<open>\<^verbatim>\<open>ISSUER-AUTH-[A-Z0-9]+(?:-[A-Z0-9]+)*\<close> and \<^verbatim>\<open>[0-9a-f]{64}\<close>.\<close>

definition issuer_ref_ok :: "str \<Rightarrow> bool" where
  "issuer_ref_ok s = (startswith s ''ISSUER-AUTH'' \<and> dash_groups (drop 11 s))"

definition signature_ok :: "str \<Rightarrow> bool" where
  "signature_ok s = hex_digest s"

text \<open>\<^verbatim>\<open>except (TypeError, ValueError)\<close> around the constructor of an identity.\<close>

definition identity_or_blocked :: "financial_identity \<Rightarrow> financial_identity res" where
  "identity_or_blocked i = (case mk_identity i of
     Inl e \<Rightarrow> Inl (PolicyResolutionError ''BLOCKED_CONFIGURATION'') | Inr j \<Rightarrow> Inr j)"

section \<open>What is signed\<close>

definition canonical_identity :: "financial_identity \<Rightarrow> str list" where
  "canonical_identity i = map snd (identity_payload i)"

definition catalog_signing_payload ::
  "str \<Rightarrow> int \<Rightarrow> str \<Rightarrow> financial_identity list \<Rightarrow> str" where
  "catalog_signing_payload cref version evidence ids =
     join ''|'' ([cref, int_str version, evidence] @ map (\<lambda>i. repr_tuple (canonical_identity i)) ids)"

definition override_signing_payload :: "str \<Rightarrow> str \<Rightarrow> int \<Rightarrow> str" where
  "override_signing_payload reason evidence version = join ''|'' [reason, evidence, int_str version]"

section \<open>Catalogs, overrides, issuers\<close>

record catalog =
  ca_ref :: str
  ca_version :: int
  ca_evidence :: str
  ca_identities :: "financial_identity list"
  ca_issuer :: str
  ca_signature :: str

record override_auth =
  ov_authorized :: bool
  ov_reason :: str
  ov_evidence :: str
  ov_version :: int
  ov_issuer :: str
  ov_signature :: str

record trusted_issuer =
  ti_ref :: str
  ti_key :: str

definition mk_catalog :: "catalog \<Rightarrow> catalog res" where
  "mk_catalog c =
    blocked (\<not> opaque_with ''CATALOG-'' (ca_ref c)) (
    blocked (ca_version c < 1) (
    blocked (\<not> opaque_with ''EVIDENCE-'' (ca_evidence c)) (
    blocked (ca_identities c = []) (
    blocked (\<not> distinct (ca_identities c)) (
    blocked ((ca_issuer c \<noteq> []) \<noteq> (ca_signature c \<noteq> [])) (
    blocked (ca_signature c \<noteq> [] \<and> \<not> signature_ok (ca_signature c)) (Inr c)))))))"

definition mk_override :: "override_auth \<Rightarrow> override_auth res" where
  "mk_override o' =
    blocked (\<not> ov_authorized o') (
    blocked (ov_version o' < 1) (
    blocked (\<not> opaque_with ''REASON-'' (ov_reason o')) (
    blocked (\<not> opaque_with ''EVIDENCE-'' (ov_evidence o')) (
    blocked ((ov_issuer o' \<noteq> []) \<noteq> (ov_signature o' \<noteq> [])) (
    blocked (ov_signature o' \<noteq> [] \<and> \<not> signature_ok (ov_signature o')) (Inr o'))))))"

definition mk_issuer :: "trusted_issuer \<Rightarrow> trusted_issuer res" where
  "mk_issuer i =
    blocked (\<not> issuer_ref_ok (ti_ref i)) (
    blocked (length (ti_key i) < 16) (Inr i))"

definition issue_catalog ::
  "libs \<Rightarrow> trusted_issuer \<Rightarrow> str \<Rightarrow> int \<Rightarrow> str \<Rightarrow> financial_identity list \<Rightarrow> catalog res" where
  "issue_catalog L i cref version evidence ids =
     mk_catalog \<lparr>ca_ref = cref, ca_version = version, ca_evidence = evidence, ca_identities = ids,
       ca_issuer = ti_ref i,
       ca_signature = l_hmac L (ti_key i) (catalog_signing_payload cref version evidence ids)\<rparr>"

definition issue_override ::
  "libs \<Rightarrow> trusted_issuer \<Rightarrow> str \<Rightarrow> str \<Rightarrow> int \<Rightarrow> override_auth res" where
  "issue_override L i reason evidence version =
     mk_override \<lparr>ov_authorized = True, ov_reason = reason, ov_evidence = evidence, ov_version = version,
       ov_issuer = ti_ref i,
       ov_signature = l_hmac L (ti_key i) (override_signing_payload reason evidence version)\<rparr>"

text \<open>The registry: issuers by reference.\<close>

type_synonym issuer_registry = "(str, trusted_issuer) dict"

definition mk_registry :: "trusted_issuer list \<Rightarrow> issuer_registry res" where
  "mk_registry is =
    blocked (is = []) (
    blocked (\<not> distinct (map ti_ref is)) (Inr (map (\<lambda>i. (ti_ref i, i)) is)))"

definition verify_catalog :: "libs \<Rightarrow> issuer_registry \<Rightarrow> catalog \<Rightarrow> bool" where
  "verify_catalog L reg c = (case dget reg (ca_issuer c) of None \<Rightarrow> False
     | Some i \<Rightarrow> l_hmac L (ti_key i) (catalog_signing_payload (ca_ref c) (ca_version c) (ca_evidence c)
         (ca_identities c)) = ca_signature c)"

definition verify_override :: "libs \<Rightarrow> issuer_registry \<Rightarrow> override_auth \<Rightarrow> bool" where
  "verify_override L reg o' = (case dget reg (ov_issuer o') of None \<Rightarrow> False
     | Some i \<Rightarrow> l_hmac L (ti_key i) (override_signing_payload (ov_reason o') (ov_evidence o') (ov_version o'))
         = ov_signature o')"

section \<open>Policies and requests\<close>

record requested_identity =
  ri_issuer :: str
  ri_tax :: str
  ri_series :: str
  ri_ledger :: str
  ri_account :: str

definition for_unit :: "requested_identity \<Rightarrow> str \<Rightarrow> financial_identity res" where
  "for_unit r unit = identity_or_blocked \<lparr>fi_unit = unit, fi_issuer = ri_issuer r, fi_tax = ri_tax r,
     fi_series = ri_series r, fi_ledger = ri_ledger r, fi_account = ri_account r\<rparr>"

record policy_request =
  rq_unit :: str
  rq_currency :: str
  rq_at :: datetime
  rq_requested :: "requested_identity option"
  rq_override :: "override_auth option"

definition mk_policy_request :: "policy_request \<Rightarrow> policy_request res" where
  "mk_policy_request r =
    blocked (\<not> opaque_with ''UNIT-'' (rq_unit r)) (
    blocked (\<not> currency_code (rq_currency r)) (
    blocked (\<not> is_aware (rq_at r)) (
    blocked (rq_requested r = None \<and> rq_override r \<noteq> None) (Inr r))))"

record fin_policy =
  fp_ref :: str
  fp_version :: int
  fp_unit :: str
  fp_issuer :: str
  fp_tax :: str
  fp_series :: str
  fp_ledger :: str
  fp_account :: str
  fp_currency :: str
  fp_from :: datetime
  fp_until :: "datetime option"
  fp_active :: bool

definition policy_identity :: "fin_policy \<Rightarrow> financial_identity" where
  "policy_identity p = \<lparr>fi_unit = fp_unit p, fi_issuer = fp_issuer p, fi_tax = fp_tax p,
     fi_series = fp_series p, fi_ledger = fp_ledger p, fi_account = fp_account p\<rparr>"

definition mk_fin_policy :: "fin_policy \<Rightarrow> fin_policy res" where
  "mk_fin_policy p =
    blocked (\<not> opaque_with ''POLICY-'' (fp_ref p)) (
    blocked (fp_version p < 1) (
    blocked (\<not> currency_code (fp_currency p)) (
    blocked (\<not> is_aware (fp_from p)) (
    blocked (case fp_until p of None \<Rightarrow> False | Some u \<Rightarrow> \<not> is_aware u) (
    blocked (case fp_until p of None \<Rightarrow> False | Some u \<Rightarrow> utc_us u \<le> utc_us (fp_from p)) (
    bind_res (identity_or_blocked (policy_identity p)) (\<lambda>_. Inr p)))))))"

record posted_snapshot =
  sn_policy :: str
  sn_version :: int
  sn_identity :: financial_identity
  sn_currency :: str
  sn_catalog :: str
  sn_catalog_version :: int
  sn_catalog_evidence :: str

definition mk_snapshot :: "posted_snapshot \<Rightarrow> posted_snapshot res" where
  "mk_snapshot s =
    blocked (\<not> opaque_with ''POLICY-'' (sn_policy s)) (
    blocked (sn_version s < 1) (
    blocked (\<not> currency_code (sn_currency s)) (
    blocked (sn_catalog_version s < 0) (
    blocked ((sn_catalog s \<noteq> []) \<noteq> (sn_catalog_version s \<noteq> 0)) (
    blocked ((sn_catalog s \<noteq> []) \<noteq> (sn_catalog_evidence s \<noteq> [])) (
    blocked (sn_catalog s \<noteq> [] \<and> \<not> opaque_ref (sn_catalog s)) (Inr s)))))))"

definition json_dict :: "(str, str) dict \<Rightarrow> json" where
  "json_dict d = JObj (map (\<lambda>(k, v). (k, JStr v)) d)"

definition snapshot_payload :: "posted_snapshot \<Rightarrow> (str, json) dict" where
  "snapshot_payload s =
    [(''currency'', JStr (sn_currency s)), (''identity'', json_dict (identity_payload (sn_identity s))),
     (''policy_ref'', JStr (sn_policy s)), (''policy_version'', JInt (sn_version s))]
    @ (if sn_catalog s \<noteq> [] then [(''catalog_ref'', JStr (sn_catalog s)),
         (''catalog_version'', JInt (sn_catalog_version s)),
         (''catalog_evidence_ref'', JStr (sn_catalog_evidence s))] else [])"

record resolved_policy =
  rp_ref :: str
  rp_version :: int
  rp_identity :: financial_identity
  rp_currency :: str
  rp_override :: "override_auth option"
  rp_catalog :: "catalog option"

definition resolved_descriptor :: "resolved_policy \<Rightarrow> (str, json) dict" where
  "resolved_descriptor p =
    [(''currency'', JStr (rp_currency p)), (''identity'', json_dict (redacted_descriptor (rp_identity p))),
     (''policy_ref'', JStr (rp_ref p)), (''policy_version'', JInt (rp_version p))]
    @ (case rp_catalog p of None \<Rightarrow> [] | Some c \<Rightarrow> [(''catalog_ref'', JStr (ca_ref c)),
         (''catalog_version'', JInt (ca_version c)), (''catalog_evidence_ref'', JStr (ca_evidence c))])
    @ (case rp_override p of None \<Rightarrow> [] | Some o' \<Rightarrow> [(''override'',
         JObj [(''evidence_ref'', JStr (ov_evidence o')), (''reason_ref'', JStr (ov_reason o'))])])"

definition posted_snapshot_of :: "resolved_policy \<Rightarrow> posted_snapshot res" where
  "posted_snapshot_of p = (case rp_catalog p of
     None \<Rightarrow> mk_snapshot \<lparr>sn_policy = rp_ref p, sn_version = rp_version p, sn_identity = rp_identity p,
       sn_currency = rp_currency p, sn_catalog = [], sn_catalog_version = 0, sn_catalog_evidence = []\<rparr>
   | Some c \<Rightarrow> mk_snapshot \<lparr>sn_policy = rp_ref p, sn_version = rp_version p, sn_identity = rp_identity p,
       sn_currency = rp_currency p, sn_catalog = ca_ref c, sn_catalog_version = ca_version c,
       sn_catalog_evidence = ca_evidence c\<rparr>)"

section \<open>The resolver\<close>

record resolver =
  rs_policies :: "fin_policy list"
  rs_catalog :: catalog
  rs_issuers :: "issuer_registry option"

definition mk_resolver :: "libs \<Rightarrow> fin_policy list \<Rightarrow> catalog \<Rightarrow> issuer_registry option \<Rightarrow> resolver res" where
  "mk_resolver L ps c reg =
    (if (case reg of None \<Rightarrow> False | Some r \<Rightarrow> \<not> verify_catalog L r c)
     then Inl (PolicyResolutionError ''UNTRUSTED_CATALOG'')
     else Inr \<lparr>rs_policies = ps, rs_catalog = c, rs_issuers = reg\<rparr>)"

definition policy_matches :: "policy_request \<Rightarrow> financial_identity option \<Rightarrow> fin_policy \<Rightarrow> bool" where
  "policy_matches r requested p =
    (fp_active p \<and> fp_unit p = rq_unit r \<and> fp_currency p = rq_currency r
     \<and> utc_us (fp_from p) \<le> utc_us (rq_at r)
     \<and> (case fp_until p of None \<Rightarrow> True | Some u \<Rightarrow> utc_us (rq_at r) < utc_us u)
     \<and> (case requested of None \<Rightarrow> True | Some i \<Rightarrow> policy_identity p = i))"

definition select_policy ::
  "resolver \<Rightarrow> policy_request \<Rightarrow> financial_identity option \<Rightarrow> resolved_policy res" where
  "select_policy rs r requested =
    (case filter (policy_matches r requested) (rs_policies rs) of
       [] \<Rightarrow> Inl (PolicyResolutionError ''POLICY_NOT_FOUND'')
     | [p] \<Rightarrow>
         if policy_identity p \<notin> set (ca_identities (rs_catalog rs))
         then Inl (PolicyResolutionError ''BLOCKED_CONFIGURATION'')
         else if (case rq_override r of None \<Rightarrow> False | Some o' \<Rightarrow> ov_version o' \<noteq> fp_version p)
         then Inl (PolicyResolutionError ''OVERRIDE_POLICY_VERSION_MISMATCH'')
         else Inr \<lparr>rp_ref = fp_ref p, rp_version = fp_version p, rp_identity = policy_identity p,
           rp_currency = fp_currency p, rp_override = rq_override r, rp_catalog = Some (rs_catalog rs)\<rparr>
     | _ \<Rightarrow> Inl (PolicyResolutionError ''POLICY_AMBIGUOUS''))"

definition resolve :: "libs \<Rightarrow> resolver \<Rightarrow> policy_request \<Rightarrow> resolved_policy res" where
  "resolve L rs r =
    bind_res (case rq_requested r of None \<Rightarrow> Inr None
              | Some q \<Rightarrow> (case for_unit q (rq_unit r) of Inl e \<Rightarrow> Inl e | Inr i \<Rightarrow> Inr (Some i)))
      (\<lambda>requested.
        if rq_requested r \<noteq> None \<and> rq_override r = None
        then Inl (PolicyResolutionError ''OVERRIDE_AUTHORIZATION_REQUIRED'')
        else if (case (rq_override r, rs_issuers rs) of
                   (Some o', Some reg) \<Rightarrow> \<not> verify_override L reg o' | _ \<Rightarrow> False)
        then Inl (PolicyResolutionError ''UNTRUSTED_OVERRIDE'')
        else select_policy rs r requested)"

section \<open>What a resolution guarantees\<close>

lemma filter_single_perm:
  assumes "mset xs = mset ys" "filter P xs = [p]"
  shows "filter P ys = [p]"
proof -
  have "mset (filter P ys) = mset (filter P xs)" using assms(1) by simp
  with assms(2) have "mset (filter P ys) = {#p#}" by simp
  then show ?thesis by (simp only: mset_single_iff)
qed

lemma select_policy_perm:
  assumes "mset (rs_policies rs) = mset ps"
  shows "select_policy (rs\<lparr>rs_policies := ps\<rparr>) r requested = select_policy rs r requested"
proof -
  let ?P = "policy_matches r requested"
  have m: "mset (filter ?P ps) = mset (filter ?P (rs_policies rs))" using assms by (simp add: mset_filter)
  then have len: "length (filter ?P ps) = length (filter ?P (rs_policies rs))" by (metis size_mset)
  show ?thesis
  proof (cases "length (filter ?P ps) = 1")
    case True
    then obtain p where p: "filter ?P ps = [p]" by (auto simp: length_Suc_conv)
    have "filter ?P (rs_policies rs) = [p]" using filter_single_perm [OF assms [symmetric] p] .
    with p show ?thesis by (simp add: select_policy_def)
  next
    case False
    with len show ?thesis
      by (auto simp: select_policy_def split: list.splits)
  qed
qed

definition in_window :: "fin_policy \<Rightarrow> datetime \<Rightarrow> bool" where
  "in_window p t = (utc_us (fp_from p) \<le> utc_us t
     \<and> (\<forall>u. fp_until p = Some u \<longrightarrow> utc_us t < utc_us u))"

lemma filter_singleton_unique: "filter P xs = [p] \<Longrightarrow> p \<in> set xs \<and> P p \<and> (\<forall>q \<in> set xs. P q \<longrightarrow> q = p)"
proof -
  assume f: "filter P xs = [p]"
  have "q \<in> set xs \<and> P q \<longleftrightarrow> q \<in> set (filter P xs)" for q by simp
  then show ?thesis unfolding f by auto
qed

text \<open>C33. What a resolved identity is: approved by the catalog, for the requested unit and
  currency, and the identity of a policy that is active and in force at the time of the
  request. If no identity was requested, that policy is the only active one in force for this
  unit and currency; if one was, the result is that identity, the policy is the only such one
  of this identity (other identities may have their own), and an override for exactly this
  policy version was presented. The signature of the override is verified when the resolver
  has trusted issuers; with \<^verbatim>\<open>trusted_issuers=None\<close>, the default, no signature is checked.
  And the order in which the policies are listed does not matter, for successes and for
  errors.\<close>

theorem resolve_sound:
  "(mset (rs_policies rs) = mset ps \<longrightarrow> resolve L (rs\<lparr>rs_policies := ps\<rparr>) r = resolve L rs r)
   \<and> (\<forall>res. resolve L rs r = Inr res \<longrightarrow>
       fi_unit (rp_identity res) = rq_unit r \<and> rp_currency res = rq_currency r
       \<and> rp_identity res \<in> set (ca_identities (rs_catalog rs))
       \<and> (\<exists>p \<in> set (rs_policies rs). fp_active p \<and> in_window p (rq_at r) \<and> fp_ref p = rp_ref res
            \<and> fp_version p = rp_version res \<and> policy_identity p = rp_identity res
            \<and> (\<forall>q \<in> set (rs_policies rs). fp_active q \<and> in_window q (rq_at r) \<and> fp_unit q = rq_unit r
                 \<and> fp_currency q = rq_currency r \<and> (rq_requested r = None \<or> policy_identity q = rp_identity res)
                 \<longrightarrow> q = p))
       \<and> (\<forall>q. rq_requested r = Some q \<longrightarrow> for_unit q (rq_unit r) = Inr (rp_identity res)
            \<and> (\<exists>o'. rq_override r = Some o' \<and> ov_version o' = rp_version res
                 \<and> (\<forall>reg. rs_issuers rs = Some reg \<longrightarrow> verify_override L reg o'))))"
proof (intro conjI impI allI)
  assume "mset (rs_policies rs) = mset ps"
  note perm = select_policy_perm [OF this]
  have "rs_issuers (rs\<lparr>rs_policies := ps\<rparr>) = rs_issuers rs" by simp
  then show "resolve L (rs\<lparr>rs_policies := ps\<rparr>) r = resolve L rs r"
    by (simp only: resolve_def perm)
next
  fix res assume res: "resolve L rs r = Inr res"
  obtain requested where q: "(case rq_requested r of None \<Rightarrow> Inr None
      | Some q \<Rightarrow> (case for_unit q (rq_unit r) of Inl e \<Rightarrow> Inl e | Inr i \<Rightarrow> Inr (Some i))) = Inr requested"
    and auth: "\<not> (rq_requested r \<noteq> None \<and> rq_override r = None)"
      "\<not> (case (rq_override r, rs_issuers rs) of (Some o', Some reg) \<Rightarrow> \<not> verify_override L reg o' | _ \<Rightarrow> False)"
    and sel: "select_policy rs r requested = Inr res"
    using res by (auto simp: resolve_def bind_res_Inr split: if_splits)
  obtain p where p: "filter (policy_matches r requested) (rs_policies rs) = [p]"
    and ok: "policy_identity p \<in> set (ca_identities (rs_catalog rs))"
      "\<forall>o'. rq_override r = Some o' \<longrightarrow> ov_version o' = fp_version p"
    and r: "res = \<lparr>rp_ref = fp_ref p, rp_version = fp_version p, rp_identity = policy_identity p,
           rp_currency = fp_currency p, rp_override = rq_override r, rp_catalog = Some (rs_catalog rs)\<rparr>"
    using sel by (auto simp: select_policy_def split: list.splits if_splits option.splits)
  note u = filter_singleton_unique [OF p]
  have m: "policy_matches r requested q \<longleftrightarrow> fp_active q \<and> in_window q (rq_at r) \<and> fp_unit q = rq_unit r
      \<and> fp_currency q = rq_currency r \<and> (requested = None \<or> requested = Some (policy_identity q))" for q
    by (auto simp: policy_matches_def in_window_def split: option.splits)
  have rqn: "requested = None \<longleftrightarrow> rq_requested r = None"
    using q by (auto split: option.splits sum.splits)
  have pm: "policy_matches r requested p" using u by blast
  have rid: "rp_identity res = policy_identity p" using r by simp
  show "fi_unit (rp_identity res) = rq_unit r" "rp_currency res = rq_currency r"
    "rp_identity res \<in> set (ca_identities (rs_catalog rs))"
    using pm [unfolded m] ok r by (auto simp: policy_identity_def)
  show "\<exists>p \<in> set (rs_policies rs). fp_active p \<and> in_window p (rq_at r) \<and> fp_ref p = rp_ref res
            \<and> fp_version p = rp_version res \<and> policy_identity p = rp_identity res
            \<and> (\<forall>q \<in> set (rs_policies rs). fp_active q \<and> in_window q (rq_at r) \<and> fp_unit q = rq_unit r
                 \<and> fp_currency q = rq_currency r \<and> (rq_requested r = None \<or> policy_identity q = rp_identity res)
                 \<longrightarrow> q = p)"
  proof (intro bexI [of _ p] conjI ballI impI)
    fix q assume "q \<in> set (rs_policies rs)" "fp_active q \<and> in_window q (rq_at r) \<and> fp_unit q = rq_unit r
      \<and> fp_currency q = rq_currency r \<and> (rq_requested r = None \<or> policy_identity q = rp_identity res)"
    moreover have "requested = None \<or> requested = Some (policy_identity p)" using pm unfolding m by blast
    ultimately have "policy_matches r requested q" unfolding m using rqn rid by metis
    then show "q = p" using u \<open>q \<in> set (rs_policies rs)\<close> by blast
  qed (use pm [unfolded m] u rid r in simp_all)
  fix qq assume qq: "rq_requested r = Some qq"
  have "requested = Some (policy_identity p)" using pm [unfolded m] rqn qq by auto
  with q qq r show "for_unit qq (rq_unit r) = Inr (rp_identity res)" by (auto split: sum.splits)
  from auth qq ok(2) r show "\<exists>o'. rq_override r = Some o' \<and> ov_version o' = rp_version res
      \<and> (\<forall>reg. rs_issuers rs = Some reg \<longrightarrow> verify_override L reg o')"
    by (cases "rq_override r") (auto split: option.splits)
qed

section \<open>What a signature binds\<close>

definition identity_ok :: "financial_identity \<Rightarrow> bool" where
  "identity_ok i = (mk_identity i = Inr i)"

definition catalog_ok :: "catalog \<Rightarrow> bool" where
  "catalog_ok c = (mk_catalog c = Inr c \<and> list_all identity_ok (ca_identities c))"

text \<open>References are quoted as they are.\<close>

lemma plain_char:
  assumes "upper_alnum c \<or> c = CHR ''-''"
  shows "repr_char CHR 0x27 c = [c]" "c \<noteq> CHR 0x27" "c \<noteq> CHR '',''" "c \<noteq> CHR ''|''"
proof -
  have "c = CHR ''-'' \<or> (65 \<le> (of_char c :: nat) \<and> (of_char c :: nat) \<le> 90)
      \<or> (48 \<le> (of_char c :: nat) \<and> (of_char c :: nat) \<le> 57)"
    using assms by (auto simp: upper_alnum_def is_upper_def is_digit_def)
  then show ne: "c \<noteq> CHR 0x27" and "c \<noteq> CHR '',''" "c \<noteq> CHR ''|''" by auto
  from assms have "32 \<le> (of_char c :: nat) \<and> (of_char c :: nat) \<le> 126 \<and> (of_char c :: nat) \<noteq> 92"
    by (auto simp: upper_alnum_def is_upper_def is_digit_def)
  with ne show "repr_char CHR 0x27 c = [c]" by (simp add: repr_char_def Let_def)
qed

lemma repr_ref: "opaque_ref s \<Longrightarrow> repr_str s = CHR 0x27 # s @ [CHR 0x27]"
proof -
  assume s: "opaque_ref s"
  have "CHR 0x27 \<notin> set s" using plain_char(2) opaque_ref_chars [OF s] by blast
  moreover have "map (repr_char CHR 0x27) s = map (\<lambda>c. [c]) s"
    using plain_char(1) opaque_ref_chars [OF s] by (intro map_cong) auto
  moreover have "concat (map (\<lambda>c. [c]) s) = s" by (induction s) auto
  ultimately have "concat (map (repr_char CHR 0x27) s) = s" by (simp only:)
  with \<open>CHR 0x27 \<notin> set s\<close> show ?thesis by (simp add: repr_str_def Let_def)
qed

lemma identity_refs: "identity_ok i \<Longrightarrow> s \<in> set (canonical_identity i) \<Longrightarrow> opaque_ref s"
  by (auto simp: identity_ok_def mk_identity_def canonical_identity_def identity_payload_eq
      identity_fields_def field_ok_def split: if_splits)

lemma canonical_identity_inj: "canonical_identity i = canonical_identity j \<Longrightarrow> i = j"
  by (cases i; cases j) (simp add: canonical_identity_def identity_payload_eq)

lemma canonical_identity_ne: "canonical_identity i \<noteq> []"
  by (simp add: canonical_identity_def identity_payload_eq)

lemma repr_identity_inj:
  assumes "identity_ok i" "identity_ok j"
    "repr_tuple (canonical_identity i) = repr_tuple (canonical_identity j)"
  shows "i = j"
proof -
  have c: "CHR '','' \<notin> set x" if "x \<in> set (map repr_str (canonical_identity k))" "identity_ok k" for x k
    using that repr_ref identity_refs [OF that(2)] plain_char(3) opaque_ref_chars by fastforce
  have "join ('','' @ '' '') (map repr_str (canonical_identity i)) = join ('','' @ '' '') (map repr_str (canonical_identity j))"
    using assms(3) by (simp add: repr_tuple_def)
  then have "map repr_str (canonical_identity i) = map repr_str (canonical_identity j)"
    using c assms(1,2) canonical_identity_ne by (intro join_inj [where c = "CHR '',''" and t = "'' ''"]) auto
  moreover have "inj_on repr_str (set (canonical_identity i) \<union> set (canonical_identity j))"
    using repr_ref identity_refs assms(1,2) by (auto simp: inj_on_def)
  ultimately have "canonical_identity i = canonical_identity j" by (rule map_inj_on)
  then show ?thesis by (rule canonical_identity_inj)
qed

lemma repr_identity_bar:
  assumes "identity_ok i" shows "CHR ''|'' \<notin> set (repr_tuple (canonical_identity i))"
proof -
  have "CHR ''|'' \<notin> set (join sep xs)" if "CHR ''|'' \<notin> set sep" "\<forall>x \<in> set xs. CHR ''|'' \<notin> set x" for sep xs
    using that by (induction sep xs rule: join.induct) auto
  moreover have "CHR ''|'' \<notin> set (repr_str s)" if "s \<in> set (canonical_identity i)" for s
    using repr_ref [OF identity_refs [OF assms that]] plain_char(4)
      opaque_ref_chars [OF identity_refs [OF assms that]] by auto
  ultimately show ?thesis by (simp add: repr_tuple_def)
qed

text \<open>The signed text determines a catalog's content.\<close>

lemma catalog_payload_inj:
  assumes "catalog_ok c" "catalog_ok d"
    "catalog_signing_payload (ca_ref c) (ca_version c) (ca_evidence c) (ca_identities c)
     = catalog_signing_payload (ca_ref d) (ca_version d) (ca_evidence d) (ca_identities d)"
  shows "ca_ref c = ca_ref d \<and> ca_version c = ca_version d \<and> ca_evidence c = ca_evidence d
    \<and> ca_identities c = ca_identities d"
proof -
  let ?f = "\<lambda>i. repr_tuple (canonical_identity i)"
  let ?p = "\<lambda>c. [ca_ref c, int_str (ca_version c), ca_evidence c] @ map ?f (ca_identities c)"
  have bar: "CHR ''|'' \<notin> set x" if "catalog_ok e" "x \<in> set (?p e)" for e x
  proof -
    have v: "0 \<le> ca_version e" "opaque_ref (ca_ref e)" "opaque_ref (ca_evidence e)"
      "\<forall>i \<in> set (ca_identities e). identity_ok i"
      using that(1) by (auto simp: catalog_ok_def mk_catalog_def opaque_with_def list_all_iff)
    have "is_digit CHR ''|'' = False" by (simp add: is_digit_def)
    with v(1) int_str_pos_digits have "CHR ''|'' \<notin> set (int_str (ca_version e))" by blast
    moreover have "CHR ''|'' \<notin> set (ca_ref e)" "CHR ''|'' \<notin> set (ca_evidence e)"
      using v(2,3) opaque_ref_chars plain_char(4) by blast+
    ultimately show ?thesis using that(2) v(4) repr_identity_bar by auto
  qed
  have "?p c = ?p d"
    using assms(3) bar [OF assms(1)] bar [OF assms(2)]
    by (intro join_inj [where c = "CHR ''|''" and t = "[]"]) (auto simp: catalog_signing_payload_def)
  then have e: "ca_ref c = ca_ref d" "int_str (ca_version c) = int_str (ca_version d)"
    "ca_evidence c = ca_evidence d" "map ?f (ca_identities c) = map ?f (ca_identities d)" by simp_all
  have "0 \<le> ca_version c" "0 \<le> ca_version d"
    using assms(1,2) by (auto simp: catalog_ok_def mk_catalog_def)
  with e(2) have "ca_version c = ca_version d" by (simp add: int_str_pos_inj)
  moreover have "ca_identities c = ca_identities d"
    using e(4) assms(1,2) repr_identity_inj
    by (intro map_inj_on [OF e(4)] inj_onI) (auto simp: catalog_ok_def list_all_iff)
  ultimately show ?thesis using e(1,3) by simp
qed

text \<open>A signature vouches for one content only: if two catalogs are both accepted as signed
  by the same issuer with the same signature, they agree in reference, version, evidence
  and the whole list of identities, or the HMAC has a collision, which is exhibited. And a
  resolver that trusts issuers exists only for a catalog that verifies.\<close>

theorem catalog_signature_binds:
  assumes "catalog_ok c" "catalog_ok d" "mk_resolver L ps c (Some reg) = Inr rs"
    "mk_resolver L ps d (Some reg) = Inr rs'" "ca_issuer c = ca_issuer d" "ca_signature c = ca_signature d"
  shows "(ca_ref c = ca_ref d \<and> ca_version c = ca_version d \<and> ca_evidence c = ca_evidence d
      \<and> ca_identities c = ca_identities d)
    \<or> (\<exists>k m m'. m \<noteq> m' \<and> l_hmac L k m = l_hmac L k m')"
proof -
  let ?pay = "\<lambda>c. catalog_signing_payload (ca_ref c) (ca_version c) (ca_evidence c) (ca_identities c)"
  obtain i where "dget reg (ca_issuer c) = Some i" "l_hmac L (ti_key i) (?pay c) = ca_signature c"
    "l_hmac L (ti_key i) (?pay d) = ca_signature d"
    using assms(3-5) by (auto simp: mk_resolver_def verify_catalog_def split: if_splits option.splits)
  with assms(6) have "?pay c = ?pay d \<or> (\<exists>k m m'. m \<noteq> m' \<and> l_hmac L k m = l_hmac L k m')" by metis
  then show ?thesis using catalog_payload_inj [OF assms(1,2)] by blast
qed

text \<open>What an override is signed for does not include the identity it is used for.\<close>

lemma override_not_bound:
  "verify_override L reg o' \<Longrightarrow> rq_override r = Some o' \<Longrightarrow> rs_issuers rs = Some reg \<Longrightarrow>
   rq_requested r = Some q \<Longrightarrow> for_unit q (rq_unit r) = Inr i \<Longrightarrow>
   filter (policy_matches r (Some i)) (rs_policies rs) = [p] \<Longrightarrow> fp_version p = ov_version o' \<Longrightarrow>
   i \<in> set (ca_identities (rs_catalog rs)) \<Longrightarrow> \<exists>res. resolve L rs r = Inr res \<and> rp_identity res = i"
  using filter_singleton_unique [of "policy_matches r (Some i)" "rs_policies rs" p]
  by (auto simp: resolve_def select_policy_def policy_matches_def)

section \<open>A resolver to evaluate\<close>

definition demo_fin_identity :: financial_identity where
  "demo_fin_identity = \<lparr>fi_unit = ''UNIT-A'', fi_issuer = ''ISSUER-A'', fi_tax = ''TAX-A'',
     fi_series = ''SERIES-A'', fi_ledger = ''LEDGER-A'', fi_account = ''ACC-A''\<rparr>"

definition demo_policy :: fin_policy where
  "demo_policy = \<lparr>fp_ref = ''POLICY-1'', fp_version = 3, fp_unit = ''UNIT-A'', fp_issuer = ''ISSUER-A'',
     fp_tax = ''TAX-A'', fp_series = ''SERIES-A'', fp_ledger = ''LEDGER-A'', fp_account = ''ACC-A'',
     fp_currency = ''EUR'', fp_from = Aware 0 0, fp_until = Some (Aware 100 0), fp_active = True\<rparr>"

definition demo_issuer :: trusted_issuer where
  "demo_issuer = \<lparr>ti_ref = ''ISSUER-AUTH-1'', ti_key = ''0123456789abcdef''\<rparr>"

definition demo_catalog :: catalog where
  "demo_catalog = \<lparr>ca_ref = ''CATALOG-1'', ca_version = 1, ca_evidence = ''EVIDENCE-1'',
     ca_identities = [demo_fin_identity], ca_issuer = ''ISSUER-AUTH-1'',
     ca_signature = l_hmac demo_libs (ti_key demo_issuer)
       (catalog_signing_payload ''CATALOG-1'' 1 ''EVIDENCE-1'' [demo_fin_identity])\<rparr>"

definition demo_resolver :: resolver where
  "demo_resolver = \<lparr>rs_policies = [demo_policy\<lparr>fp_active := False\<rparr>, demo_policy], rs_catalog = demo_catalog,
     rs_issuers = Some [(''ISSUER-AUTH-1'', demo_issuer)]\<rparr>"

definition demo_policy_request :: policy_request where
  "demo_policy_request = \<lparr>rq_unit = ''UNIT-A'', rq_currency = ''EUR'', rq_at = Aware 99 0,
     rq_requested = None, rq_override = None\<rparr>"

text \<open>An identity that is requested, under a signed override of version 3.\<close>

definition demo_requested :: requested_identity where
  "demo_requested = \<lparr>ri_issuer = ''ISSUER-A'', ri_tax = ''TAX-A'', ri_series = ''SERIES-A'',
     ri_ledger = ''LEDGER-A'', ri_account = ''ACC-A''\<rparr>"

definition demo_override :: override_auth where
  "demo_override = \<lparr>ov_authorized = True, ov_reason = ''REASON-1'', ov_evidence = ''EVIDENCE-1'',
     ov_version = 3, ov_issuer = ''ISSUER-AUTH-1'',
     ov_signature = l_hmac demo_libs (ti_key demo_issuer) (override_signing_payload ''REASON-1'' ''EVIDENCE-1'' 3)\<rparr>"

definition demo_override_request :: policy_request where
  "demo_override_request = demo_policy_request\<lparr>rq_requested := Some demo_requested, rq_override := Some demo_override\<rparr>"

theorem resolve_sound_witness:
  "\<exists>res res'. resolve demo_libs demo_resolver demo_policy_request = Inr res \<and> fi_unit (rp_identity res) = ''UNIT-A''
     \<and> resolve demo_libs demo_resolver demo_override_request = Inr res'
     \<and> for_unit demo_requested ''UNIT-A'' = Inr (rp_identity res') \<and> rp_version res' = 3
     \<and> verify_override demo_libs [(''ISSUER-AUTH-1'', demo_issuer)] demo_override"
proof -
  have "(case resolve demo_libs demo_resolver demo_policy_request of Inl e \<Rightarrow> False | Inr res \<Rightarrow> True)"
    "(case resolve demo_libs demo_resolver demo_override_request of Inl e \<Rightarrow> False | Inr res \<Rightarrow> True)"
    by code_simp+
  then obtain res res' where r: "resolve demo_libs demo_resolver demo_policy_request = Inr res"
    and r': "resolve demo_libs demo_resolver demo_override_request = Inr res'"
    by (auto split: sum.splits)
  have "fi_unit (rp_identity res) = rq_unit demo_policy_request"
    using conjunct2 [OF resolve_sound [of demo_resolver "[]" demo_libs demo_policy_request]] r by blast
  moreover have "for_unit demo_requested (rq_unit demo_override_request) = Inr (rp_identity res')
     \<and> (\<exists>o'. rq_override demo_override_request = Some o' \<and> ov_version o' = rp_version res'
          \<and> verify_override demo_libs [(''ISSUER-AUTH-1'', demo_issuer)] o')"
    using conjunct2 [OF resolve_sound [of demo_resolver "[]" demo_libs demo_override_request]] r'
    by (fastforce simp: demo_override_request_def demo_resolver_def)
  ultimately show ?thesis
    using r r' by (auto simp: demo_override_request_def demo_policy_request_def demo_override_def)
qed

theorem catalog_signature_binds_witness:
  "\<exists>rs. mk_resolver demo_libs [demo_policy] demo_catalog (Some [(''ISSUER-AUTH-1'', demo_issuer)]) = Inr rs
    \<and> (ca_identities demo_catalog = ca_identities demo_catalog
       \<or> (\<exists>k m m'. m \<noteq> m' \<and> l_hmac demo_libs k m = l_hmac demo_libs k m'))"
proof -
  have c: "catalog_ok demo_catalog" unfolding catalog_ok_def identity_ok_def by code_simp
  have "(case mk_resolver demo_libs [demo_policy] demo_catalog (Some [(''ISSUER-AUTH-1'', demo_issuer)]) of
      Inl e \<Rightarrow> False | Inr rs \<Rightarrow> True)" by code_simp
  then obtain rs where r: "mk_resolver demo_libs [demo_policy] demo_catalog
      (Some [(''ISSUER-AUTH-1'', demo_issuer)]) = Inr rs" by (auto split: sum.splits)
  from catalog_signature_binds [OF c c r r refl refl] r show ?thesis by blast
qed

end
