(* ===== verification/UnitRegistry.thy ===== *)
theory UnitRegistry
  imports Values
begin

text \<open>
  The registry of operating units (\<^verbatim>\<open>src/units/registry.py\<close>): unit specifications with
  their checks, the registry's rules on codes, tax issuers and shared account aliases, and
  the strict parser of the unit catalog. Reading the catalog file is not modelled; its text
  is an argument.
\<close>

section \<open>Unit specifications\<close>

text \<open>\<^verbatim>\<open>[A-Z][A-Z0-9_]{1,31}\<close> and \<^verbatim>\<open>acct_[a-z0-9_]{2,40}\<close>.\<close>

definition unit_code_ok :: "str \<Rightarrow> bool" where
  "unit_code_ok s = (case s of [] \<Rightarrow> False
     | c # cs \<Rightarrow> is_upper c \<and> 1 \<le> length cs \<and> length cs \<le> 31
         \<and> list_all (\<lambda>d. upper_alnum d \<or> d = CHR ''_'') cs)"

definition alias_ok :: "str \<Rightarrow> bool" where
  "alias_ok s = (startswith s ''acct_'' \<and> (let t = drop 5 s in 2 \<le> length t \<and> length t \<le> 40
     \<and> list_all (\<lambda>d. is_lower d \<or> is_digit d \<or> d = CHR ''_'') t))"

record unit_spec =
  us_code :: str
  us_name :: str
  us_alias :: str
  us_ppn :: bool
  us_categories :: "str list"
  us_shared :: "str list"

definition mk_unit_spec :: "unit_spec \<Rightarrow> unit_spec res" where
  "mk_unit_spec s =
    ensure InvalidDomainValue (unit_code_ok (us_code s)) (
    ensure InvalidDomainValue (us_name s \<noteq> [] \<and> strip (us_name s) \<noteq> []) (
    ensure InvalidDomainValue (alias_ok (us_alias s)) (
    ensure InvalidDomainValue (us_categories s \<noteq> []) (Inr s))))"

definition unit_id :: "libs \<Rightarrow> unit_spec \<Rightarrow> str" where
  "unit_id L s = ''unit_'' @ take 16 (l_sha256 L (''unit:'' @ us_code s))"

section \<open>The registry\<close>

type_synonym unit_registry = "(str, unit_spec) dict"

text \<open>\<^verbatim>\<open>alias_to_codes\<close>, in the order in which the aliases first occur.\<close>

definition alias_codes :: "unit_spec list \<Rightarrow> (str, str list) dict" where
  "alias_codes specs = foldl (\<lambda>d s. dput (us_alias s)
     ((case dget d (us_alias s) of None \<Rightarrow> [] | Some cs \<Rightarrow> cs) @ [us_code s]) d) [] specs"

text \<open>\<^verbatim>\<open>next(s for s in specs if s.code == code)\<close>; the code is always there.\<close>

definition declares :: "unit_spec list \<Rightarrow> str list \<Rightarrow> str \<Rightarrow> bool" where
  "declares specs owners code = (case find (\<lambda>s. us_code s = code) specs of
     None \<Rightarrow> False | Some s \<Rightarrow> set owners - {code} \<subseteq> set (us_shared s))"

definition mk_unit_registry :: "unit_spec list \<Rightarrow> unit_registry res" where
  "mk_unit_registry specs =
    (if \<not> distinct (map us_code specs) then Inl InvalidDomainValue
     else if 1 < length (filter us_ppn specs) then Inl InvalidDomainValue
     else if list_ex (\<lambda>(a, owners). 1 < length owners \<and> \<not> list_all (declares specs owners) owners)
               (alias_codes specs) then Inl InvalidDomainValue
     else Inr (map (\<lambda>s. (us_code s, s)) specs))"

definition registry_all :: "unit_registry \<Rightarrow> unit_spec list" where
  "registry_all r = dvals r"

definition registry_get :: "unit_registry \<Rightarrow> str \<Rightarrow> unit_spec res" where
  "registry_get r code = (case dget r code of None \<Rightarrow> Inl InvalidDomainValue | Some s \<Rightarrow> Inr s)"

definition with_unit :: "unit_registry \<Rightarrow> unit_spec \<Rightarrow> unit_registry res" where
  "with_unit r s = (if dget r (us_code s) \<noteq> None then Inl InvalidDomainValue
     else mk_unit_registry (dvals r @ [s]))"

section \<open>The catalog parser\<close>

text \<open>\<^verbatim>\<open>str.splitlines()\<close> on code points below 256: a carriage return and a line feed
  end one line together; \<open>cr\<close> says that the previous character was a carriage return.\<close>

definition is_linebreak :: "char \<Rightarrow> bool" where
  "is_linebreak c = (let n = (of_char c :: nat) in (10 \<le> n \<and> n \<le> 13) \<or> (28 \<le> n \<and> n \<le> 30) \<or> n = 133)"

fun split_lines :: "bool \<Rightarrow> str \<Rightarrow> str \<Rightarrow> str list" where
  "split_lines cr acc [] = (if acc = [] then [] else [acc])"
| "split_lines cr acc (c # s) =
    (if cr \<and> (of_char c :: nat) = 10 then split_lines False acc s
     else if is_linebreak c then acc # split_lines ((of_char c :: nat) = 13) [] s
     else split_lines False (acc @ [c]) s)"

definition rstrip :: "str \<Rightarrow> str" where
  "rstrip s = rev (dropWhile is_space (rev s))"

text \<open>\<^verbatim>\<open>s.partition(":")\<close>, without the separator, and \<^verbatim>\<open>s.split(",")\<close>.\<close>

definition partition_colon :: "str \<Rightarrow> str \<times> str" where
  "partition_colon s = (takeWhile (\<lambda>c. c \<noteq> CHR '':'') s, drop 1 (dropWhile (\<lambda>c. c \<noteq> CHR '':'') s))"

fun split_comma :: "str \<Rightarrow> str \<Rightarrow> str list" where
  "split_comma acc [] = [acc]"
| "split_comma acc (c # s) = (if c = CHR '','' then acc # split_comma [] s else split_comma (acc @ [c]) s)"

datatype cat_value = CTuple "str list" | CBool bool | CText str

definition known_keys :: "str set" where
  "known_keys = {''code'', ''display_name'', ''account_alias'', ''issues_ppn'', ''service_categories'', ''shared_with''}"

definition endswith :: "str \<Rightarrow> str \<Rightarrow> bool" where
  "endswith s p = suffix p s"

definition parse_value :: "str \<Rightarrow> str \<Rightarrow> cat_value res" where
  "parse_value key raw =
    (if key \<notin> known_keys then Inl InvalidDomainValue
     else if startswith raw ''['' \<and> endswith raw '']'' then
       Inr (CTuple (filter (\<lambda>p. p \<noteq> []) (map strip (split_comma [] (strip (butlast (tl raw)))))))
     else if key = ''issues_ppn'' then
       (if raw = ''true'' then Inr (CBool True) else if raw = ''false'' then Inr (CBool False)
        else Inl InvalidDomainValue)
     else if raw \<in> {''true'', ''false''} then Inr (CBool (raw = ''true''))
     else Inr (CText raw))"

text \<open>\<^verbatim>\<open>str(v)\<close>.\<close>

fun cat_str :: "cat_value \<Rightarrow> str" where
  "cat_str (CText s) = s"
| "cat_str (CBool b) = (if b then ''True'' else ''False'')"
| "cat_str (CTuple xs) = (case xs of [x] \<Rightarrow> ''('' @ repr_str x @ '',)'' | _ \<Rightarrow> repr_tuple xs)"

type_synonym cat_row = "(str, cat_value) dict"

definition to_spec :: "cat_row \<Rightarrow> unit_spec res" where
  "to_spec d =
    (case dget d ''service_categories'' of
       None \<Rightarrow> Inl InvalidDomainValue
     | Some (CTuple cats) \<Rightarrow>
        (case (case dget d ''shared_with'' of None \<Rightarrow> Some [] | Some (CTuple xs) \<Rightarrow> Some xs
               | Some (CText t) \<Rightarrow> if t = [] then Some [] else None
               | Some (CBool b) \<Rightarrow> if b then None else Some []) of
           None \<Rightarrow> Inl InvalidDomainValue
         | Some shared \<Rightarrow>
            (case (dget d ''code'', dget d ''display_name'', dget d ''account_alias'', dget d ''issues_ppn'') of
               (Some code, Some name, Some acct, Some ppn) \<Rightarrow>
                 bind_res (mk_unit_spec \<lparr>us_code = cat_str code, us_name = cat_str name, us_alias = cat_str acct,
                     us_ppn = (ppn = CBool True), us_categories = cats, us_shared = shared\<rparr>)
                   (\<lambda>s. ensure InvalidDomainValue (case ppn of CBool _ \<Rightarrow> True | _ \<Rightarrow> False) (Inr s))
             | _ \<Rightarrow> Inl InvalidDomainValue))
     | Some _ \<Rightarrow> Inl InvalidDomainValue)"

text \<open>One line, in the state \<open>(specs, current)\<close>.\<close>

definition put_field :: "str \<Rightarrow> cat_row \<Rightarrow> cat_row res" where
  "put_field s row = (let (k, v) = partition_colon s in
     bind_res (parse_value (strip k) (strip v)) (\<lambda>x. Inr (dput (strip k) x row)))"

definition catalog_line ::
  "str \<Rightarrow> unit_spec list \<times> cat_row option \<Rightarrow> (unit_spec list \<times> cat_row option) res" where
  "catalog_line raw st =
    (let line = rstrip (takeWhile (\<lambda>c. c \<noteq> CHR ''#'') raw); stripped = strip line in
     if stripped = [] \<or> stripped = ''units:'' then Inr st
     else if startswith stripped ''- '' then
       bind_res (case snd st of None \<Rightarrow> Inr (fst st)
                 | Some row \<Rightarrow> bind_res (to_spec row) (\<lambda>s. Inr (fst st @ [s]))) (\<lambda>specs.
       let rest = strip (drop 2 stripped) in
       if rest = [] then Inr (specs, Some [])
       else bind_res (put_field rest []) (\<lambda>row. Inr (specs, Some row)))
     else (case snd st of
         Some row \<Rightarrow>
           (if CHR '':'' \<in> set stripped
            then bind_res (put_field stripped row) (\<lambda>row'. Inr (fst st, Some row'))
            else Inl InvalidDomainValue)
       | None \<Rightarrow> Inl InvalidDomainValue))"

fun catalog_lines ::
  "str list \<Rightarrow> unit_spec list \<times> cat_row option \<Rightarrow> (unit_spec list \<times> cat_row option) res" where
  "catalog_lines [] st = Inr st"
| "catalog_lines (l # ls) st = bind_res (catalog_line l st) (catalog_lines ls)"

definition load_catalog :: "str \<Rightarrow> unit_spec list res" where
  "load_catalog text = bind_res (catalog_lines (split_lines False [] text) ([], None)) (\<lambda>st.
     case snd st of None \<Rightarrow> Inr (fst st)
     | Some row \<Rightarrow> bind_res (to_spec row) (\<lambda>s. Inr (fst st @ [s])))"

definition default_registry :: "str \<Rightarrow> unit_registry res" where
  "default_registry text = bind_res (load_catalog text) mk_unit_registry"

section \<open>The rules of the registry\<close>

lemma alias_codes_snoc:
  "alias_codes (specs @ [s]) = dput (us_alias s)
     ((case dget (alias_codes specs) (us_alias s) of None \<Rightarrow> [] | Some cs \<Rightarrow> cs) @ [us_code s]) (alias_codes specs)"
  by (simp add: alias_codes_def)

definition owners_of :: "unit_spec list \<Rightarrow> str \<Rightarrow> str list" where
  "owners_of specs a = map us_code (filter (\<lambda>s. us_alias s = a) specs)"

lemma alias_codes_get:
  "dict_ok (alias_codes specs) \<and>
   dget (alias_codes specs) a = (if owners_of specs a = [] then None else Some (owners_of specs a))"
proof (induction specs arbitrary: a rule: rev_induct)
  case Nil
  then show ?case by (simp add: alias_codes_def owners_of_def dict_ok_def)
next
  case (snoc s specs)
  then show ?case by (auto simp: alias_codes_snoc owners_of_def)
qed

lemma alias_codes_ex:
  "list_ex (\<lambda>(a, owners). P owners) (alias_codes specs)
   \<longleftrightarrow> (\<exists>a. owners_of specs a \<noteq> [] \<and> P (owners_of specs a))"
proof -
  have ok: "dict_ok (alias_codes specs)" using alias_codes_get by blast
  have "list_ex (\<lambda>(a, owners). P owners) (alias_codes specs)
      \<longleftrightarrow> (\<exists>a os. dget (alias_codes specs) a = Some os \<and> P os)"
    using dict_ok_get [OF ok] by (auto simp: list_ex_iff)
  also have "\<dots> \<longleftrightarrow> (\<exists>a. owners_of specs a \<noteq> [] \<and> P (owners_of specs a))"
    using alias_codes_get by auto
  finally show ?thesis .
qed

text \<open>The rules, stated over pairs of units.\<close>

definition units_valid :: "unit_spec list \<Rightarrow> bool" where
  "units_valid specs =
    (distinct (map us_code specs)
     \<and> (\<forall>s \<in> set specs. \<forall>t \<in> set specs. us_ppn s \<and> us_ppn t \<longrightarrow> s = t)
     \<and> (\<forall>s \<in> set specs. \<forall>t \<in> set specs. us_alias s = us_alias t \<and> us_code s \<noteq> us_code t \<longrightarrow>
          us_code t \<in> set (us_shared s)))"

lemma one_of_filter:
  assumes "distinct xs"
  shows "length (filter P xs) \<le> 1 \<longleftrightarrow> (\<forall>s \<in> set xs. \<forall>t \<in> set xs. P s \<and> P t \<longrightarrow> s = t)"
proof -
  have d: "distinct (filter P xs)" using assms by simp
  have "length (filter P xs) \<le> 1 \<longleftrightarrow> card {x \<in> set xs. P x} \<le> 1"
    using distinct_card [OF d] by simp
  also have "\<dots> \<longleftrightarrow> (\<forall>s \<in> {x \<in> set xs. P x}. \<forall>t \<in> {x \<in> set xs. P x}. s = t)"
    using card_le_Suc0_iff_eq [of "{x \<in> set xs. P x}"] by simp
  finally show ?thesis by auto
qed

lemma find_code:
  assumes "distinct (map us_code specs)" "s \<in> set specs"
  shows "find (\<lambda>t. us_code t = us_code s) specs = Some s"
  using assms by (induction specs) (auto simp: rev_image_eqI)

lemma declared_iff:
  assumes "distinct (map us_code specs)"
  shows "(\<exists>a. owners_of specs a \<noteq> [] \<and> 1 < length (owners_of specs a)
      \<and> \<not> list_all (declares specs (owners_of specs a)) (owners_of specs a))
    \<longleftrightarrow> (\<exists>s \<in> set specs. \<exists>t \<in> set specs. us_alias s = us_alias t \<and> us_code s \<noteq> us_code t
         \<and> us_code t \<notin> set (us_shared s))" (is "?L \<longleftrightarrow> ?R")
proof
  assume ?L
  then obtain a s where s: "s \<in> set specs" "us_alias s = a" "\<not> declares specs (owners_of specs a) (us_code s)"
    by (auto simp: list_all_iff owners_of_def)
  then obtain c where "c \<in> set (owners_of specs a)" "c \<noteq> us_code s" "c \<notin> set (us_shared s)"
    by (auto simp: declares_def find_code [OF assms])
  then obtain t where "t \<in> set specs" "us_alias t = a" "us_code t \<noteq> us_code s" "us_code t \<notin> set (us_shared s)"
    by (auto simp: owners_of_def)
  with s show ?R by (intro bexI [of _ s] bexI [of _ t]) simp_all
next
  assume ?R
  then obtain s t where st: "s \<in> set specs" "t \<in> set specs" "us_alias s = us_alias t" "us_code s \<noteq> us_code t"
    "us_code t \<notin> set (us_shared s)" by blast
  let ?o = "owners_of specs (us_alias s)"
  have mem: "us_code s \<in> set ?o" "us_code t \<in> set ?o" using st by (auto simp: owners_of_def)
  have "1 < length ?o"
  proof (rule ccontr)
    assume "\<not> 1 < length ?o"
    then have "?o = [] \<or> (\<exists>x. ?o = [x])" by (cases ?o) auto
    with mem st(4) show False by auto
  qed
  moreover have "\<not> declares specs ?o (us_code s)"
    using mem(2) st by (auto simp: declares_def find_code [OF assms])
  ultimately show ?L using mem(1) by (intro exI [of _ "us_alias s"]) (auto simp: list_all_iff)
qed

text \<open>The registry accepts exactly the catalogs that follow the rules: unit codes are
  distinct, at most one unit issues the tax, and two units share an account alias only if
  each declares the other. An accepted registry holds the given units, and adding a unit is
  accepted exactly when the extended catalog follows the rules.\<close>

theorem registry_rules:
  "mk_unit_registry specs = (if units_valid specs then Inr (map (\<lambda>s. (us_code s, s)) specs) else Inl InvalidDomainValue)
   \<and> (\<forall>r. mk_unit_registry specs = Inr r \<longrightarrow> registry_all r = specs
        \<and> with_unit r s = (if units_valid (specs @ [s]) then Inr (map (\<lambda>s. (us_code s, s)) (specs @ [s]))
                           else Inl InvalidDomainValue))"
proof -
  have eq: "mk_unit_registry specs = (if units_valid specs then Inr (map (\<lambda>s. (us_code s, s)) specs)
      else Inl InvalidDomainValue)" for specs
  proof (cases "distinct (map us_code specs)")
    case True
    have d: "distinct specs" using True by (simp add: distinct_map)
    have "list_ex (\<lambda>(a, owners). 1 < length owners \<and> \<not> list_all (declares specs owners) owners) (alias_codes specs)
      \<longleftrightarrow> (\<exists>s \<in> set specs. \<exists>t \<in> set specs. us_alias s = us_alias t \<and> us_code s \<noteq> us_code t
         \<and> us_code t \<notin> set (us_shared s))"
      using alias_codes_ex [of "\<lambda>owners. 1 < length owners \<and> \<not> list_all (declares specs owners) owners" specs]
        declared_iff [OF True] by simp
    moreover have "1 < length (filter us_ppn specs)
      \<longleftrightarrow> \<not> (\<forall>s \<in> set specs. \<forall>t \<in> set specs. us_ppn s \<and> us_ppn t \<longrightarrow> s = t)"
      using one_of_filter [OF d, of us_ppn] by linarith
    ultimately show ?thesis using True unfolding mk_unit_registry_def units_valid_def by auto
  qed (simp add: mk_unit_registry_def units_valid_def)
  have all: "registry_all r = specs" and get: "dget r (us_code s) \<noteq> None \<longleftrightarrow> us_code s \<in> us_code ` set specs"
    if "mk_unit_registry specs = Inr r" for r
  proof -
    have r: "r = map (\<lambda>s. (us_code s, s)) specs" using that by (simp add: eq split: if_splits)
    then show "registry_all r = specs" by (simp add: registry_all_def dvals_def comp_def)
    show "dget r (us_code s) \<noteq> None \<longleftrightarrow> us_code s \<in> us_code ` set specs"
      unfolding r by (simp add: map_of_eq_None_iff image_image)
  qed
  have "with_unit r s = (if units_valid (specs @ [s]) then Inr (map (\<lambda>s. (us_code s, s)) (specs @ [s]))
                           else Inl InvalidDomainValue)" if "mk_unit_registry specs = Inr r" for r
    using get [OF that] all [OF that] eq [of "specs @ [s]"]
    by (auto simp: with_unit_def registry_all_def units_valid_def)
  with eq all show ?thesis by blast
qed

definition demo_unit :: "str \<Rightarrow> str \<Rightarrow> str list \<Rightarrow> unit_spec" where
  "demo_unit code acct shared = \<lparr>us_code = code, us_name = ''A unit'', us_alias = acct, us_ppn = False,
     us_categories = [''seo'', ''google_ads''], us_shared = shared\<rparr>"

theorem registry_rules_witness:
  "\<exists>r. mk_unit_registry [demo_unit ''AA'' ''acct_aa'' [''BB'']] = Inr r
    \<and> with_unit r (demo_unit ''BB'' ''acct_aa'' []) = Inl InvalidDomainValue"
proof -
  let ?s = "demo_unit ''AA'' ''acct_aa'' [''BB'']" and ?t = "demo_unit ''BB'' ''acct_aa'' []"
  have "units_valid [?s]" "\<not> units_valid ([?s] @ [?t])"
    by (simp_all add: units_valid_def demo_unit_def)
  with registry_rules [of "[?s]" ?t] show ?thesis by simp
qed

section \<open>The parser reads back what a catalog says\<close>

text \<open>A catalog as its maintainers write it, one field per line.\<close>

definition field_line :: "str \<Rightarrow> str \<Rightarrow> str" where
  "field_line k v = ''    '' @ k @ '': '' @ v"

definition bracketed :: "str list \<Rightarrow> str" where
  "bracketed xs = ''['' @ join '', '' xs @ '']''"

definition spec_lines :: "unit_spec \<Rightarrow> str list" where
  "spec_lines s =
    [''  - code: '' @ us_code s, field_line ''display_name'' (us_name s),
     field_line ''account_alias'' (us_alias s),
     field_line ''issues_ppn'' (if us_ppn s then ''true'' else ''false''),
     field_line ''service_categories'' (bracketed (us_categories s)),
     field_line ''shared_with'' (bracketed (us_shared s))]"

definition catalog_text :: "unit_spec list \<Rightarrow> str" where
  "catalog_text specs = concat (map (\<lambda>l. l @ [CHR 0x0A]) (''units:'' # concat (map spec_lines specs)))"

text \<open>A text without comments and line breaks that neither begins nor ends with a space.\<close>

definition trimmed :: "str \<Rightarrow> bool" where
  "trimmed s = (s \<noteq> [] \<and> \<not> is_space (hd s) \<and> \<not> is_space (last s)
     \<and> list_all (\<lambda>c. c \<noteq> CHR ''#'' \<and> \<not> is_linebreak c) s)"

definition token :: "str \<Rightarrow> bool" where
  "token s = (trimmed s \<and> CHR '','' \<notin> set s)"

definition writable :: "unit_spec \<Rightarrow> bool" where
  "writable s = (mk_unit_spec s = Inr s \<and> trimmed (us_name s) \<and> hd (us_name s) \<noteq> CHR ''[''
     \<and> us_name s \<notin> {''true'', ''false''} \<and> list_all token (us_categories s) \<and> list_all token (us_shared s))"

lemma dropWhile_hd: "s \<noteq> [] \<Longrightarrow> \<not> P (hd s) \<Longrightarrow> dropWhile P s = s"
  by (cases s) auto

lemma strip_trimmed:
  assumes "trimmed s" "list_all is_space p"
  shows "strip (p @ s) = s" "rstrip (p @ s) = p @ s"
proof -
  have s: "s \<noteq> []" "\<not> is_space (hd s)" "\<not> is_space (hd (rev s))"
    using assms(1) by (simp_all add: trimmed_def hd_rev)
  have "dropWhile is_space (p @ s) = s"
    using assms(2) s(1,2) by (simp add: dropWhile_append2 list_all_iff dropWhile_hd)
  moreover have "dropWhile is_space (rev s) = rev s" using s by (intro dropWhile_hd) auto
  ultimately show "strip (p @ s) = s" by (simp add: strip_def)
  have "dropWhile is_space (rev (p @ s)) = rev (p @ s)"
    using s by (intro dropWhile_hd) auto
  then show "rstrip (p @ s) = p @ s" by (simp add: rstrip_def)
qed

lemma trimmed_append:
  "trimmed s \<Longrightarrow> list_all (\<lambda>c. c \<noteq> CHR ''#'' \<and> \<not> is_linebreak c) k \<Longrightarrow> k \<noteq> [] \<Longrightarrow> \<not> is_space (hd k) \<Longrightarrow> trimmed (k @ s)"
  by (auto simp: trimmed_def)

lemma space_facts: "is_space CHR '' ''" "is_linebreak CHR '' '' = False" "is_space CHR '':'' = False"
  "is_linebreak CHR '':'' = False" "is_linebreak CHR ''-'' = False" "is_space CHR ''-'' = False"
  "is_space CHR ''['' = False" "is_space CHR '']'' = False" "is_linebreak CHR ''['' = False"
  "is_linebreak CHR '']'' = False" "is_linebreak CHR '','' = False"
  by (simp_all add: is_space_def is_linebreak_def Let_def)

lemma known_key_facts:
  assumes "k \<in> known_keys"
  shows "k \<noteq> [] \<and> \<not> is_space (hd k) \<and> \<not> is_space (last k) \<and> CHR '':'' \<notin> set k \<and> hd k \<noteq> CHR ''-''
    \<and> list_all (\<lambda>c. c \<noteq> CHR ''#'' \<and> \<not> is_linebreak c) k \<and> hd k \<noteq> CHR ''u''"
  using assms by (auto simp: known_keys_def is_space_def is_linebreak_def Let_def)

lemma put_field_key:
  assumes "k \<in> known_keys" "trimmed v"
  shows "put_field (k @ '': '' @ v) row = bind_res (parse_value k v) (\<lambda>x. Inr (dput k x row))"
proof -
  note f = known_key_facts [OF assms(1)]
  have c: "\<forall>c \<in> set k. c \<noteq> CHR '':''" using f by auto
  have "takeWhile (\<lambda>c. c \<noteq> CHR '':'') (k @ '': '' @ v) = k"
    using c by (subst takeWhile_append2) auto
  moreover have "dropWhile (\<lambda>c. c \<noteq> CHR '':'') (k @ '': '' @ v) = '': '' @ v"
    using c by (subst dropWhile_append2) auto
  moreover have "strip k = k"
    using f strip_trimmed(1) [of k "[]"] by (simp add: trimmed_def)
  moreover have "strip ('' '' @ v) = v"
    using strip_trimmed(1) [OF assms(2), of "'' ''"] space_facts(1) by simp
  ultimately show ?thesis by (simp add: put_field_def partition_colon_def)
qed

lemma catalog_line_put:
  assumes "strip (rstrip (takeWhile (\<lambda>c. c \<noteq> CHR ''#'') raw)) = t"
    and "t \<noteq> []" "t \<noteq> ''units:''" "\<not> startswith t ''- ''" "CHR '':'' \<in> set t"
  shows "catalog_line raw (specs, Some row) = bind_res (put_field t row) (\<lambda>row'. Inr (specs, Some row'))"
  using assms by (simp add: catalog_line_def Let_def)

lemma stripped_line:
  assumes "trimmed t" "list_all is_space p" "CHR ''#'' \<notin> set p"
  shows "strip (rstrip (takeWhile (\<lambda>c. c \<noteq> CHR ''#'') (p @ t))) = t"
proof -
  have "takeWhile (\<lambda>c. c \<noteq> CHR ''#'') (p @ t) = p @ t"
    using assms(1,3) by (subst takeWhile_eq_all_conv) (auto simp: trimmed_def list_all_iff)
  then show ?thesis by (simp only: strip_trimmed [OF assms(1,2)])
qed

lemma field_line_step:
  assumes "k \<in> known_keys" "trimmed v"
  shows "catalog_line (field_line k v) (specs, Some row)
    = bind_res (parse_value k v) (\<lambda>x. Inr (specs, Some (dput k x row)))"
proof -
  note f = known_key_facts [OF assms(1)]
  have t: "trimmed (k @ '': '' @ v)"
    using f trimmed_append [OF assms(2), of "k @ '': ''"] space_facts by simp
  have "strip (rstrip (takeWhile (\<lambda>c. c \<noteq> CHR ''#'') (field_line k v))) = k @ '': '' @ v"
    using stripped_line [OF t, of "''    ''"] space_facts(1) by (simp add: field_line_def)
  moreover have "k @ '': '' @ v \<noteq> ''units:''" using f by (cases k) auto
  moreover have "\<not> startswith (k @ '': '' @ v) ''- ''" using f by (cases k) (auto simp: startswith_def)
  ultimately have "catalog_line (field_line k v) (specs, Some row)
      = bind_res (put_field (k @ '': '' @ v) row) (\<lambda>row'. Inr (specs, Some row'))"
    by (intro catalog_line_put) simp_all
  then show ?thesis
    unfolding put_field_key [OF assms] by (cases "parse_value k v") simp_all
qed

lemma parse_text:
  "k \<in> known_keys \<Longrightarrow> k \<noteq> ''issues_ppn'' \<Longrightarrow> v \<noteq> [] \<Longrightarrow> hd v \<noteq> CHR ''['' \<Longrightarrow> v \<notin> {''true'', ''false''}
   \<Longrightarrow> parse_value k v = Inr (CText v)"
  by (cases v) (auto simp: parse_value_def startswith_def)

lemma split_comma_simps:
  "CHR '','' \<notin> set t \<Longrightarrow> split_comma acc t = [acc @ t]"
  "CHR '','' \<notin> set t \<Longrightarrow> split_comma acc (t @ CHR '','' # s) = (acc @ t) # split_comma [] s"
  by (induction t arbitrary: acc) auto

lemma split_join:
  "xs \<noteq> [] \<Longrightarrow> list_all token xs \<Longrightarrow> p \<in> {'''', '' ''} \<Longrightarrow>
   map strip (split_comma [] (p @ join '', '' xs)) = xs"
proof (induction xs arbitrary: p)
  case (Cons x xs)
  have c: "CHR '','' \<notin> set (p @ x)" and t: "trimmed x" using Cons.prems by (auto simp: token_def)
  have x: "strip (p @ x) = x" using strip_trimmed(1) [OF t, of p] Cons.prems(3) space_facts(1) by auto
  show ?case
  proof (cases "xs = []")
    case True
    then show ?thesis using split_comma_simps(1) [OF c, of "[]"] x by simp
  next
    case False
    then have "p @ join '', '' (x # xs) = (p @ x) @ CHR '','' # ('' '' @ join '', '' xs)"
      by (cases xs) simp_all
    then have "map strip (split_comma [] (p @ join '', '' (x # xs)))
        = strip (p @ x) # map strip (split_comma [] ('' '' @ join '', '' xs))"
      using split_comma_simps(2) [OF c, of "[]"] by simp
    then show ?thesis using Cons.IH [OF False, of "'' ''"] Cons.prems(2) x by simp
  qed
qed simp

lemma join_trimmed:
  "xs \<noteq> [] \<Longrightarrow> list_all token xs \<Longrightarrow> trimmed (join '', '' xs)"
proof (induction xs)
  case (Cons x xs)
  have x: "trimmed x" using Cons.prems by (simp add: token_def)
  show ?case
  proof (cases "xs = []")
    case False
    then have "join '', '' (x # xs) = (x @ '', '') @ join '', '' xs" by (cases xs) simp_all
    moreover have "trimmed (join '', '' xs)" using Cons.IH [OF False] Cons.prems by simp
    ultimately show ?thesis using x space_facts trimmed_append [of "join '', '' xs" "x @ '', ''"]
      by (auto simp: trimmed_def)
  qed (use x in simp)
qed simp

lemma parse_bracketed:
  assumes "k \<in> known_keys" "list_all token xs"
  shows "parse_value k (bracketed xs) = Inr (CTuple xs)" "trimmed (bracketed xs)"
proof -
  have i: "butlast (tl (bracketed xs)) = join '', '' xs"
    by (simp add: bracketed_def butlast_append)
  have ne: "filter (\<lambda>p. p \<noteq> []) xs = xs"
    using assms(2) by (induction xs) (auto simp: token_def trimmed_def)
  have "filter (\<lambda>p. p \<noteq> []) (map strip (split_comma [] (strip (join '', '' xs)))) = xs"
  proof (cases "xs = []")
    case False
    have "strip (join '', '' xs) = '''' @ join '', '' xs"
      using strip_trimmed(1) [OF join_trimmed [OF False assms(2)], of "[]"] by simp
    then show ?thesis using split_join [OF False assms(2), of "''''"] ne by simp
  qed (simp add: strip_def)
  moreover have "startswith (bracketed xs) ''[''" "endswith (bracketed xs) '']''"
    by (simp_all add: bracketed_def startswith_def endswith_def suffix_def)
  ultimately show "parse_value k (bracketed xs) = Inr (CTuple xs)"
    using assms(1) i by (simp add: parse_value_def)
  show "trimmed (bracketed xs)"
  proof (cases "xs = []")
    case False
    then show ?thesis using join_trimmed [OF False assms(2)] space_facts by (auto simp: trimmed_def bracketed_def)
  qed (simp add: trimmed_def bracketed_def space_facts)
qed

lemma parse_unit_fields:
  assumes "writable s"
  shows "parse_value ''code'' (us_code s) = Inr (CText (us_code s))"
    and "parse_value ''display_name'' (us_name s) = Inr (CText (us_name s))"
    and "parse_value ''account_alias'' (us_alias s) = Inr (CText (us_alias s))"
    and "parse_value ''issues_ppn'' (if us_ppn s then ''true'' else ''false'') = Inr (CBool (us_ppn s))"
    and "trimmed (us_code s)" "trimmed (us_alias s)"
proof -
  note w = assms [unfolded writable_def mk_unit_spec_def]
  have k: "''code'' \<in> known_keys" "''display_name'' \<in> known_keys" "''account_alias'' \<in> known_keys"
    "''issues_ppn'' \<in> known_keys" by (simp_all add: known_keys_def)
  have plain: "\<not> is_space c" "c \<noteq> CHR ''#''" "\<not> is_linebreak c" "c \<noteq> CHR ''[''"
    if "upper_alnum c \<or> is_lower c \<or> c = CHR ''_''" for c
    using that by (auto simp: upper_alnum_def is_upper_def is_lower_def is_digit_def is_space_def is_linebreak_def Let_def)
  have code: "\<forall>c \<in> set (us_code s). upper_alnum c \<or> c = CHR ''_''" "us_code s \<noteq> []" "is_upper (hd (us_code s))"
    using w by (auto simp: unit_code_ok_def list_all_iff upper_alnum_def split: list.splits)
  obtain t where a: "us_alias s = ''acct_'' @ t"
    and t: "\<forall>d \<in> set t. is_lower d \<or> is_digit d \<or> d = CHR ''_''"
    using w by (auto simp: alias_ok_def startswith_def Let_def list_all_iff elim!: prefixE)
  have tr: "trimmed v" if "v \<noteq> []" "\<forall>c \<in> set v. upper_alnum c \<or> is_lower c \<or> c = CHR ''_''" for v
    using that plain by (auto simp: trimmed_def list_all_iff)
  show c: "trimmed (us_code s)" using code by (intro tr) auto
  show "trimmed (us_alias s)"
    using t a by (intro tr) (auto simp: upper_alnum_def is_lower_def)
  have "hd (us_code s) \<noteq> CHR ''[''" "us_code s \<notin> {''true'', ''false''}"
    using code(2,3) by (auto simp: is_upper_def)
  then show "parse_value ''code'' (us_code s) = Inr (CText (us_code s))"
    using k(1) code(2) by (intro parse_text) simp_all
  show "parse_value ''display_name'' (us_name s) = Inr (CText (us_name s))"
    using k(2) w by (intro parse_text) (simp_all add: trimmed_def)
  show "parse_value ''account_alias'' (us_alias s) = Inr (CText (us_alias s))"
    using k(3) a by (intro parse_text) simp_all
  show "parse_value ''issues_ppn'' (if us_ppn s then ''true'' else ''false'') = Inr (CBool (us_ppn s))"
    using k(4) by (simp add: parse_value_def startswith_def)
qed

text \<open>The state after the lines of a catalog so far: what the end of the text would return.\<close>

definition flush_row :: "unit_spec list \<times> cat_row option \<Rightarrow> unit_spec list res" where
  "flush_row st = (case snd st of None \<Rightarrow> Inr (fst st)
     | Some row \<Rightarrow> bind_res (to_spec row) (\<lambda>s. Inr (fst st @ [s])))"

lemma code_line_step:
  assumes "flush_row st = Inr specs" "writable s"
  shows "catalog_line (''  - code: '' @ us_code s) st = Inr (specs, Some [(''code'', CText (us_code s))])"
proof -
  note f = parse_unit_fields [OF assms(2)]
  have t: "trimmed ((''- code: '') @ us_code s)" "trimmed ((''code: '') @ us_code s)"
    by (rule trimmed_append [OF f(5)]; simp add: space_facts is_linebreak_def is_space_def Let_def)+
  have "strip (rstrip (takeWhile (\<lambda>c. c \<noteq> CHR ''#'') (''  - code: '' @ us_code s))) = ''- code: '' @ us_code s"
    using stripped_line [OF t(1), of "''  ''"] space_facts(1) by simp
  moreover have "strip (''code: '' @ us_code s) = ''code: '' @ us_code s"
    using strip_trimmed(1) [OF t(2), of "[]"] by simp
  moreover have "put_field (''code: '' @ us_code s) [] = Inr [(''code'', CText (us_code s))]"
    using put_field_key [OF _ f(5), of "''code''" "[]"] f(1) by (simp add: known_keys_def)
  ultimately show ?thesis
    using assms(1) by (simp add: catalog_line_def Let_def flush_row_def startswith_def split: option.splits)
qed

lemma to_spec_row:
  assumes "writable s"
  shows "to_spec [(''code'', CText (us_code s)), (''display_name'', CText (us_name s)),
     (''account_alias'', CText (us_alias s)), (''issues_ppn'', CBool (us_ppn s)),
     (''service_categories'', CTuple (us_categories s)), (''shared_with'', CTuple (us_shared s))] = Inr s"
  using assms by (cases s) (simp add: to_spec_def writable_def)

lemma spec_lines_step:
  assumes "flush_row st = Inr specs" "writable s"
  shows "\<exists>row. catalog_lines (spec_lines s) st = Inr (specs, Some row) \<and> to_spec row = Inr s"
proof -
  note f = parse_unit_fields [OF assms(2)]
  have k: "''display_name'' \<in> known_keys" "''account_alias'' \<in> known_keys" "''issues_ppn'' \<in> known_keys"
    "''service_categories'' \<in> known_keys" "''shared_with'' \<in> known_keys" by (simp_all add: known_keys_def)
  have v: "trimmed (us_name s)" "list_all token (us_categories s)" "list_all token (us_shared s)"
    using assms(2) by (simp_all add: writable_def)
  have b: "trimmed (if us_ppn s then ''true'' else ''false'')"
    by (simp add: trimmed_def is_space_def is_linebreak_def Let_def)
  note steps = code_line_step [OF assms] field_line_step [OF k(1) v(1)] field_line_step [OF k(2) f(6)]
    field_line_step [OF k(3) b] field_line_step [OF k(4) parse_bracketed(2) [OF k(4) v(2)]]
    field_line_step [OF k(5) parse_bracketed(2) [OF k(5) v(3)]]
    f(2-4) parse_bracketed(1) [OF k(4) v(2)] parse_bracketed(1) [OF k(5) v(3)]
  have "catalog_lines (spec_lines s) st
      = Inr (specs, Some (dput ''shared_with'' (CTuple (us_shared s)) (dput ''service_categories'' (CTuple (us_categories s))
          (dput ''issues_ppn'' (CBool (us_ppn s)) (dput ''account_alias'' (CText (us_alias s))
          (dput ''display_name'' (CText (us_name s)) [(''code'', CText (us_code s))]))))))"
    unfolding spec_lines_def catalog_lines.simps steps bind_res_simps ..
  then show ?thesis using to_spec_row [OF assms(2)] by simp
qed

lemma catalog_lines_append:
  "catalog_lines (xs @ ys) st = bind_res (catalog_lines xs st) (catalog_lines ys)"
  by (induction xs arbitrary: st) (auto simp: bind_res_def split: sum.splits)

lemma catalog_lines_specs:
  "list_all writable specs \<Longrightarrow> flush_row st = Inr acc \<Longrightarrow>
   \<exists>st'. catalog_lines (concat (map spec_lines specs)) st = Inr st' \<and> flush_row st' = Inr (acc @ specs)"
proof (induction specs arbitrary: st acc)
  case (Cons s specs)
  then obtain row where "catalog_lines (spec_lines s) st = Inr (acc, Some row)" "to_spec row = Inr s"
    using spec_lines_step [OF Cons.prems(2), of s] by auto
  then show ?case
    using Cons.IH [of "(acc, Some row)" "acc @ [s]"] Cons.prems by (simp add: catalog_lines_append flush_row_def)
qed simp

lemma split_lines_line:
  "list_all (\<lambda>c. \<not> is_linebreak c) l \<Longrightarrow>
   split_lines False acc (l @ CHR 0x0A # s) = (acc @ l) # split_lines False [] s"
  by (induction l arbitrary: acc) (simp_all add: is_linebreak_def Let_def)

lemma split_lines_concat:
  "list_all (list_all (\<lambda>c. \<not> is_linebreak c)) ls \<Longrightarrow>
   split_lines False [] (concat (map (\<lambda>l. l @ [CHR 0x0A]) ls)) = ls"
  by (induction ls) (simp_all add: split_lines_line)

lemma plain_spec_lines:
  assumes "writable s"
  shows "list_all (list_all (\<lambda>c. \<not> is_linebreak c)) (spec_lines s)"
proof -
  have nb: "trimmed v \<Longrightarrow> list_all (\<lambda>c. \<not> is_linebreak c) v" for v by (auto simp: trimmed_def list_all_iff)
  have v: "list_all token (us_categories s)" "list_all token (us_shared s)" "trimmed (us_name s)"
    using assms by (simp_all add: writable_def)
  note plain = nb [OF parse_unit_fields(5) [OF assms]] nb [OF parse_unit_fields(6) [OF assms]] nb [OF v(3)]
    nb [OF parse_bracketed(2) [OF _ v(1), of "''code''"]] nb [OF parse_bracketed(2) [OF _ v(2), of "''code''"]]
  show ?thesis using plain by (simp add: spec_lines_def field_line_def known_keys_def is_linebreak_def Let_def)
qed

text \<open>The strict catalog parser reads back every catalog written in the documented
  shape: for specifications whose texts carry no comment, separator or surrounding blanks it
  returns exactly the specifications that were written, in order.\<close>

theorem catalog_roundtrip:
  assumes "list_all writable specs"
  shows "load_catalog (catalog_text specs) = Inr specs"
proof -
  have "list_all (list_all (\<lambda>c. \<not> is_linebreak c)) (''units:'' # concat (map spec_lines specs))"
    using assms plain_spec_lines by (induction specs) (auto simp: is_linebreak_def Let_def)
  then have "split_lines False [] (catalog_text specs) = ''units:'' # concat (map spec_lines specs)"
    unfolding catalog_text_def by (rule split_lines_concat)
  moreover have "catalog_line ''units:'' ([], None) = Inr ([], None)"
    by (simp add: catalog_line_def rstrip_def strip_def is_space_def Let_def)
  moreover obtain st where "catalog_lines (concat (map spec_lines specs)) ([], None) = Inr st"
      "flush_row st = Inr specs"
    using catalog_lines_specs [OF assms, of "([], None)" "[]"] by (auto simp: flush_row_def)
  ultimately show ?thesis by (simp add: load_catalog_def flush_row_def)
qed

theorem catalog_roundtrip_witness:
  "load_catalog (catalog_text [demo_unit ''AA'' ''acct_aa'' [''BB''], demo_unit ''BB'' ''acct_aa'' [''AA'']])
   = Inr [demo_unit ''AA'' ''acct_aa'' [''BB''], demo_unit ''BB'' ''acct_aa'' [''AA'']]"
  by (rule catalog_roundtrip)
    (simp add: writable_def demo_unit_def mk_unit_spec_def unit_code_ok_def alias_ok_def trimmed_def token_def
      is_upper_def is_lower_def is_digit_def upper_alnum_def is_space_def is_linebreak_def startswith_def strip_def Let_def)

end
