(* ===== verification/UnitSettings.thy ===== *)
theory UnitSettings
  imports UnitRegistry
begin

text \<open>
  The versioned settings of a unit (\<^verbatim>\<open>src/units/settings.py\<close>): the typed allowlist with
  its content checks, and the store with draft, activation under compare-and-set, rollback,
  the queries and the audit log. A command returns its result together with the store it
  leaves, so that what a refused command has already written stays visible.
\<close>

section \<open>Validation\<close>

text \<open>A settings value, by the Python type the checks distinguish; \<open>SOther\<close> is any value
  that is no string, integer, boolean or tuple (a list, a float, \<^verbatim>\<open>None\<close>).\<close>

datatype sval = SStr str | SInt int | SBool bool | STuple "sval list" | SOther

datatype setting_type = TStr | TInt | TTuple

definition setting_types :: "(str, setting_type) dict" where
  "setting_types =
    [(''default_currency'', TStr), (''invoice_template_ref'', TStr), (''quotation_template_ref'', TStr),
     (''logo_asset_ref'', TStr), (''numbering_series_ref'', TStr), (''branding_tagline'', TStr),
     (''payment_terms_days'', TInt), (''enabled_modules'', TTuple), (''approval_threshold_amount'', TInt)]"

text \<open>\<^verbatim>\<open>isinstance\<close>; a boolean is an integer to Python and is refused before.\<close>

fun has_type :: "setting_type \<Rightarrow> sval \<Rightarrow> bool" where
  "has_type TStr (SStr _) = True"
| "has_type TInt (SInt _) = True"
| "has_type TInt (SBool _) = True"
| "has_type TTuple (STuple _) = True"
| "has_type _ _ = False"

text \<open>The search for \<^verbatim>\<open>(?i)<\s*script|javascript:|;|\x00\<close>: the letters of the pattern in
  either case.\<close>



definition forbidden_here :: "str \<Rightarrow> bool" where
  "forbidden_here s = (case s of [] \<Rightarrow> False
     | c # cs \<Rightarrow> (c = CHR ''<'' \<and> startswith (lower (dropWhile is_space cs)) ''script'')
         \<or> startswith (lower s) ''javascript:'' \<or> c = CHR '';'' \<or> (of_char c :: nat) = 0)"

fun forbidden_text :: "str \<Rightarrow> bool" where
  "forbidden_text [] = False"
| "forbidden_text (c # s) = (forbidden_here (c # s) \<or> forbidden_text s)"

definition setting_ref :: "str \<Rightarrow> bool" where
  "setting_ref s = (2 \<le> length s \<and> length s \<le> 60
     \<and> list_all (\<lambda>d. is_lower d \<or> is_digit d \<or> d = CHR ''_'') s)"

definition max_text :: nat where "max_text = 200"

definition known_modules :: "str set" where
  "known_modules = {''invoicing'', ''crm'', ''payments'', ''reports'', ''reminders''}"

definition validate_setting :: "str \<Rightarrow> sval \<Rightarrow> unit res" where
  "validate_setting key value =
    (case dget setting_types key of
       None \<Rightarrow> Inl InvalidDomainValue
     | Some expected \<Rightarrow>
        ensure InvalidDomainValue (expected = TInt \<longrightarrow> (case value of SBool _ \<Rightarrow> False | _ \<Rightarrow> True)) (
        ensure InvalidDomainValue (has_type expected value) (
        ensure InvalidDomainValue (case value of
            SStr s \<Rightarrow> \<not> forbidden_text s \<and> length s \<le> max_text
              \<and> (key = ''default_currency'' \<longrightarrow> currency_code s) \<and> (endswith key ''_ref'' \<longrightarrow> setting_ref s)
          | STuple xs \<Rightarrow> list_all (\<lambda>x. case x of SStr s \<Rightarrow> \<not> forbidden_text s | _ \<Rightarrow> False) xs
          | _ \<Rightarrow> True) (
        ensure InvalidDomainValue (key = ''payment_terms_days'' \<longrightarrow>
            (case value of SInt n \<Rightarrow> 0 \<le> n \<and> n \<le> 365 | _ \<Rightarrow> False)) (
        ensure InvalidDomainValue (key = ''approval_threshold_amount'' \<longrightarrow>
            (case value of SInt n \<Rightarrow> 0 \<le> n \<and> n \<le> 10 ^ 15 | _ \<Rightarrow> False)) (
        ensure InvalidDomainValue (key = ''enabled_modules'' \<longrightarrow>
            (case value of STuple xs \<Rightarrow> list_all (\<lambda>x. case x of SStr m \<Rightarrow> m \<in> known_modules | _ \<Rightarrow> False) xs
             | _ \<Rightarrow> False))
          (Inr ())))))))"

type_synonym settings = "(str, sval) dict"

definition validate_settings :: "settings \<Rightarrow> unit res" where
  "validate_settings s = bind_res (map_res (\<lambda>(k, v). validate_setting k v) s) (\<lambda>_. Inr ())"

section \<open>Versions and the store\<close>

datatype settings_status = S_DRAFT | S_ACTIVE | S_RETIRED

record settings_version =
  sv_unit :: str
  sv_version :: int
  sv_status :: settings_status
  sv_settings :: settings
  sv_author :: str
  sv_created :: datetime
  sv_from :: "datetime option"
  sv_to :: "datetime option"
  sv_previous :: "int option"
  sv_rollback_of :: "int option"
  sv_reason :: "str option"

record settings_store =
  st_registry :: unit_registry
  st_versions :: "(str, settings_version list) dict"
  st_audit :: "(str, (str, json) dict list) dict"

definition new_settings_store :: "unit_registry \<Rightarrow> settings_store" where
  "new_settings_store r = \<lparr>st_registry = r, st_versions = [], st_audit = []\<rparr>"

definition unit_rows :: "settings_store \<Rightarrow> str \<Rightarrow> settings_version list" where
  "unit_rows st u = (case dget (st_versions st) u of None \<Rightarrow> [] | Some rows \<Rightarrow> rows)"

definition validate_unit :: "settings_store \<Rightarrow> str \<Rightarrow> unit res" where
  "validate_unit st u = bind_res (registry_get (st_registry st) u) (\<lambda>_. Inr ())"

definition log_event ::
  "libs \<Rightarrow> str \<Rightarrow> str \<Rightarrow> str \<Rightarrow> datetime \<Rightarrow> (str, json) dict \<Rightarrow> settings_store \<Rightarrow> settings_store" where
  "log_event L u action actor at detail st =
    st\<lparr>st_audit := dput u ((case dget (st_audit st) u of None \<Rightarrow> [] | Some es \<Rightarrow> es) @
        [[(''action'', JStr action), (''actor'', JStr actor), (''at'', JStr (l_iso L at))] @ detail]) (st_audit st)\<rparr>"

definition next_version :: "settings_store \<Rightarrow> str \<Rightarrow> int" where
  "next_version st u = int (length (unit_rows st u)) + 1"

definition put_rows :: "str \<Rightarrow> settings_version list \<Rightarrow> settings_store \<Rightarrow> settings_store" where
  "put_rows u rows st = st\<lparr>st_versions := dput u rows (st_versions st)\<rparr>"

definition get_version :: "settings_store \<Rightarrow> str \<Rightarrow> int \<Rightarrow> settings_version res" where
  "get_version st u n = (case find (\<lambda>r. sv_version r = n) (unit_rows st u) of
     None \<Rightarrow> Inl InvalidDomainValue | Some r \<Rightarrow> Inr r)"

definition current_active :: "settings_store \<Rightarrow> str \<Rightarrow> int" where
  "current_active st u = (case find (\<lambda>r. sv_status r = S_ACTIVE) (unit_rows st u) of
     None \<Rightarrow> 0 | Some r \<Rightarrow> sv_version r)"

definition draft ::
  "libs \<Rightarrow> str \<Rightarrow> settings \<Rightarrow> str \<Rightarrow> datetime \<Rightarrow> settings_store \<Rightarrow> settings_version res \<times> settings_store" where
  "draft L u settings author at st =
    (case bind_res (validate_unit st u) (\<lambda>_. ensure InvalidDomainValue (settings \<noteq> []) (validate_settings settings)) of
       Inl e \<Rightarrow> (Inl e, st)
     | Inr _ \<Rightarrow>
        let v = \<lparr>sv_unit = u, sv_version = next_version st u, sv_status = S_DRAFT, sv_settings = settings,
            sv_author = author, sv_created = at, sv_from = None, sv_to = None, sv_previous = None,
            sv_rollback_of = None, sv_reason = None\<rparr>
        in (Inr v, log_event L u ''draft'' author at [(''version'', JInt (sv_version v))]
              (put_rows u (unit_rows st u @ [v]) st)))"

definition preview :: "str \<Rightarrow> int \<Rightarrow> settings_store \<Rightarrow> settings res" where
  "preview u n st = bind_res (validate_unit st u) (\<lambda>_. bind_res (get_version st u n) (\<lambda>v. Inr (sv_settings v)))"

text \<open>The compare-and-set conflict, which is logged.\<close>

definition deny_conflict ::
  "libs \<Rightarrow> str \<Rightarrow> json \<Rightarrow> int \<Rightarrow> datetime \<Rightarrow> str \<Rightarrow> settings_store \<Rightarrow> settings_version res \<times> settings_store" where
  "deny_conflict L u what expected at actor st =
    (Inl InvalidDomainValue, log_event L u ''activate_denied'' actor at
       [(''version'', what), (''expected_version'', JInt expected), (''actual_version'', JInt (current_active st u))] st)"

text \<open>The regression check against the active version.\<close>

definition regression_check :: "settings_store \<Rightarrow> str \<Rightarrow> datetime \<Rightarrow> unit res" where
  "regression_check st u from =
    (if current_active st u = 0 then Inr ()
     else bind_res (get_version st u (current_active st u)) (\<lambda>row.
       case sv_from row of None \<Rightarrow> Inr ()
       | Some f \<Rightarrow> bind_res (dt_less from f) (\<lambda>b. ensure InvalidDomainValue (\<not> b) (Inr ()))))"

definition retire_active :: "datetime \<Rightarrow> settings_version \<Rightarrow> settings_version" where
  "retire_active from r = (if sv_status r = S_ACTIVE then r\<lparr>sv_status := S_RETIRED, sv_to := Some from\<rparr> else r)"

definition activate ::
  "libs \<Rightarrow> str \<Rightarrow> int \<Rightarrow> int \<Rightarrow> datetime \<Rightarrow> str \<Rightarrow> datetime \<Rightarrow> settings_store
   \<Rightarrow> settings_version res \<times> settings_store" where
  "activate L u n expected at actor from st =
    (case validate_unit st u of Inl e \<Rightarrow> (Inl e, st) | Inr _ \<Rightarrow>
     if expected \<noteq> current_active st u then deny_conflict L u (JInt n) expected at actor st
     else case bind_res (regression_check st u from) (\<lambda>_.
            bind_res (get_version st u n) (\<lambda>target.
              ensure InvalidDomainValue (sv_status target = S_DRAFT) (Inr target))) of
       Inl e \<Rightarrow> (Inl e, st)
     | Inr target \<Rightarrow>
        let activated = target\<lparr>sv_status := S_ACTIVE, sv_from := Some from,
              sv_previous := (if current_active st u = 0 then None else Some (current_active st u))\<rparr>;
            rows = map (\<lambda>r. if sv_version r = n then activated else r)
              (map (retire_active from) (unit_rows st u))
        in (Inr activated, log_event L u ''activate'' actor at
              [(''version'', JInt n), (''expected_version'', JInt expected)] (put_rows u rows st)))"

text \<open>The new version that a rollback appends before it activates it.\<close>

definition rollback_draft ::
  "libs \<Rightarrow> str \<Rightarrow> settings_version \<Rightarrow> int \<Rightarrow> datetime \<Rightarrow> str \<Rightarrow> str \<Rightarrow> settings_store \<Rightarrow> settings_store" where
  "rollback_draft L u target to_version at actor reason st =
    (let v = \<lparr>sv_unit = u, sv_version = next_version st u, sv_status = S_DRAFT,
         sv_settings = sv_settings target, sv_author = actor, sv_created = at, sv_from = None,
         sv_to = None, sv_previous = None, sv_rollback_of = Some to_version, sv_reason = Some reason\<rparr>
     in log_event L u ''rollback_draft'' actor at
          [(''version'', JInt (sv_version v)), (''rollback_of'', JInt to_version), (''reason'', JStr reason)]
          (put_rows u (unit_rows st u @ [v]) st))"

definition rollback ::
  "libs \<Rightarrow> str \<Rightarrow> int \<Rightarrow> int \<Rightarrow> datetime \<Rightarrow> str \<Rightarrow> datetime \<Rightarrow> str \<Rightarrow> settings_store
   \<Rightarrow> settings_version res \<times> settings_store" where
  "rollback L u to_version expected at actor from reason st =
    (case bind_res (validate_unit st u) (\<lambda>_. get_version st u to_version) of
       Inl e \<Rightarrow> (Inl e, st)
     | Inr target \<Rightarrow>
        if expected \<noteq> current_active st u then deny_conflict L u (JStr ''rollback'') expected at actor st
        else case validate_settings (sv_settings target) of
          Inl e \<Rightarrow> (Inl e, st)
        | Inr _ \<Rightarrow> activate L u (next_version st u) expected at actor from
                     (rollback_draft L u target to_version at actor reason st))"

section \<open>Queries\<close>

text \<open>The condition of the loop of \<^verbatim>\<open>get_active\<close>, whose comparisons may raise.\<close>

definition serves :: "datetime \<Rightarrow> settings_version \<Rightarrow> bool res" where
  "serves at r =
    (if sv_status r \<noteq> S_ACTIVE then Inr False
     else case sv_from r of None \<Rightarrow> Inr False
     | Some f \<Rightarrow> bind_res (dt_less at f) (\<lambda>early.
         if early then Inr False
         else case sv_to r of None \<Rightarrow> Inr True | Some t \<Rightarrow> dt_less at t))"

fun first_serving :: "datetime \<Rightarrow> settings_version list \<Rightarrow> settings_version res" where
  "first_serving at [] = Inl InvalidDomainValue"
| "first_serving at (r # rs) = bind_res (serves at r) (\<lambda>b. if b then Inr r else first_serving at rs)"

definition get_active :: "str \<Rightarrow> datetime \<Rightarrow> settings_store \<Rightarrow> settings_version res" where
  "get_active u at st = bind_res (validate_unit st u) (\<lambda>_. first_serving at (unit_rows st u))"

definition audit_events :: "str \<Rightarrow> settings_store \<Rightarrow> (str, json) dict list res" where
  "audit_events u st = bind_res (validate_unit st u) (\<lambda>_.
     Inr (case dget (st_audit st) u of None \<Rightarrow> [] | Some es \<Rightarrow> es))"

section \<open>Commands and reachable stores\<close>

datatype settings_cmd =
    CDraft str settings str datetime
  | CActivate str int int datetime str datetime
  | CRollback str int int datetime str datetime str

fun run_cmd :: "libs \<Rightarrow> settings_cmd \<Rightarrow> settings_store \<Rightarrow> settings_version res \<times> settings_store" where
  "run_cmd L (CDraft u s author at) st = draft L u s author at st"
| "run_cmd L (CActivate u n e at actor from) st = activate L u n e at actor from st"
| "run_cmd L (CRollback u n e at actor from reason) st = rollback L u n e at actor from reason st"

definition run_cmds :: "libs \<Rightarrow> settings_cmd list \<Rightarrow> settings_store \<Rightarrow> settings_store" where
  "run_cmds L cs st = foldl (\<lambda>s c. snd (run_cmd L c s)) st cs"

text \<open>The unit and the expected version of a command that activates, the version whose
  settings it puts in force, and from when.\<close>

fun cmd_expects :: "settings_cmd \<Rightarrow> (str \<times> int) option" where
  "cmd_expects (CDraft _ _ _ _) = None"
| "cmd_expects (CActivate u n e _ _ _) = Some (u, e)"
| "cmd_expects (CRollback u n e _ _ _ _) = Some (u, e)"

fun cmd_source :: "settings_cmd \<Rightarrow> int \<times> datetime" where
  "cmd_source (CDraft _ _ _ at) = (0, at)"
| "cmd_source (CActivate _ n _ _ _ from) = (n, from)"
| "cmd_source (CRollback _ n _ _ _ from _) = (n, from)"

lemma unit_rows_simps [simp]:
  "unit_rows (log_event L v a b at d st) u = unit_rows st u"
  "unit_rows (put_rows v rows st) u = (if u = v then rows else unit_rows st u)"
  "st_registry (log_event L v a b at d st) = st_registry st"
  "st_registry (put_rows v rows st) = st_registry st"
  "st_versions (log_event L v a b at d st) = st_versions st"
  "unit_rows (new_settings_store r) u = []"
  by (auto simp: unit_rows_def log_event_def put_rows_def new_settings_store_def)

lemma validate_unit_simps [simp]:
  "validate_unit (log_event L v a b at d st) u = validate_unit st u"
  "validate_unit (put_rows v rows st) u = validate_unit st u"
  by (simp_all add: validate_unit_def)

lemma active_simps [simp]:
  "current_active (log_event L v a b at d st) u = current_active st u"
  "get_version (log_event L v a b at d st) u n = get_version st u n"
  "next_version (log_event L v a b at d st) u = next_version st u"
  by (simp_all add: current_active_def get_version_def next_version_def)

section \<open>The invariant and the history of a row\<close>

definition dates_ok :: "settings_version \<Rightarrow> bool" where
  "dates_ok r = (case sv_status r of
      S_DRAFT \<Rightarrow> sv_from r = None \<and> sv_to r = None
    | S_ACTIVE \<Rightarrow> sv_from r \<noteq> None \<and> sv_to r = None
    | S_RETIRED \<Rightarrow> sv_from r \<noteq> None \<and> sv_to r \<noteq> None)"

text \<open>Versions count from 1; as soon as one version was ever activated, exactly one is active.\<close>

definition rows_ok :: "str \<Rightarrow> settings_version list \<Rightarrow> bool" where
  "rows_ok u rows =
    (map sv_version rows = map int [1..<Suc (length rows)]
     \<and> length (filter (\<lambda>r. sv_status r = S_ACTIVE) rows)
         = (if \<forall>r \<in> set rows. sv_status r = S_DRAFT then 0 else 1)
     \<and> (\<forall>r \<in> set rows. sv_unit r = u \<and> sv_settings r \<noteq> [] \<and> validate_settings (sv_settings r) = Inr () \<and> dates_ok r))"

definition settings_ok :: "settings_store \<Rightarrow> bool" where
  "settings_ok st = (\<forall>u. rows_ok u (unit_rows st u)
     \<and> (unit_rows st u \<noteq> [] \<longrightarrow> dget (st_registry st) u \<noteq> None))"

fun status_rank :: "settings_status \<Rightarrow> nat" where
  "status_rank S_DRAFT = 0"
| "status_rank S_ACTIVE = 1"
| "status_rank S_RETIRED = 2"

text \<open>What may happen to a stored version: its content never changes, its status only moves
  forward, and the date from which it is in force and its predecessor are set once.\<close>

definition row_evolves :: "settings_version \<Rightarrow> settings_version \<Rightarrow> bool" where
  "row_evolves a b =
    (sv_unit b = sv_unit a \<and> sv_version b = sv_version a \<and> sv_settings b = sv_settings a
     \<and> sv_author b = sv_author a \<and> sv_created b = sv_created a \<and> sv_rollback_of b = sv_rollback_of a
     \<and> sv_reason b = sv_reason a \<and> status_rank (sv_status a) \<le> status_rank (sv_status b)
     \<and> (sv_status a = sv_status b \<longrightarrow> a = b)
     \<and> (sv_status a \<noteq> S_DRAFT \<longrightarrow> sv_from b = sv_from a \<and> sv_previous b = sv_previous a))"

definition rows_evolve :: "settings_version list \<Rightarrow> settings_version list \<Rightarrow> bool" where
  "rows_evolve old new = (length old \<le> length new \<and> list_all2 row_evolves old (take (length old) new))"

lemma row_evolves_refl [simp]: "row_evolves a a"
  by (simp add: row_evolves_def)

lemma status_rank_inj: "status_rank a = status_rank b \<Longrightarrow> a = b"
  by (cases a; cases b) simp_all

lemma row_evolves_trans:
  assumes "row_evolves a b" "row_evolves b c"
  shows "row_evolves a c"
proof (cases "a = b \<or> b = c")
  case False
  have "status_rank (sv_status a) < status_rank (sv_status b)" "status_rank (sv_status b) < status_rank (sv_status c)"
    using assms False status_rank_inj unfolding row_evolves_def by (metis le_neq_implies_less)+
  then have "sv_status a \<noteq> sv_status c" "sv_status b \<noteq> S_DRAFT" by auto
  with assms show ?thesis unfolding row_evolves_def by simp
qed (use assms in auto)

lemma rows_evolve_append: "rows_evolve old (old @ new)"
  by (simp add: rows_evolve_def list_all2_refl)

lemma rows_evolve_refl [simp]: "rows_evolve old old"
  using rows_evolve_append [of old "[]"] by simp

lemma rows_evolve_trans: "rows_evolve a b \<Longrightarrow> rows_evolve b c \<Longrightarrow> rows_evolve a c"
  unfolding rows_evolve_def list_all2_conv_all_nth by (auto intro: row_evolves_trans)

lemma rows_evolve_mem:
  assumes "rows_evolve old new" "r \<in> set old"
  obtains r' where "r' \<in> set new" "row_evolves r r'"
proof -
  from assms(2) obtain i where "i < length old" "r = old ! i" by (auto simp: in_set_conv_nth)
  with assms(1) have "new ! i \<in> set new" "row_evolves r (new ! i)"
    by (auto simp: rows_evolve_def list_all2_conv_all_nth)
  then show thesis by (rule that)
qed

section \<open>Every command keeps the invariant\<close>

lemma rows_ok_distinct: "rows_ok u rows \<Longrightarrow> distinct (map sv_version rows)"
  by (simp add: rows_ok_def distinct_map)

lemma rows_ok_version_pos: "rows_ok u rows \<Longrightarrow> r \<in> set rows \<Longrightarrow> 0 < sv_version r \<and> sv_version r \<le> int (length rows)"
proof -
  assume ok: "rows_ok u rows" and r: "r \<in> set rows"
  have "sv_version r \<in> set (map sv_version rows)" using r by simp
  also have "\<dots> = int ` {1..<Suc (length rows)}" using ok by (simp only: rows_ok_def set_map set_upt)
  finally show ?thesis by auto
qed

lemma rows_ok_version_inj: "rows_ok u rows \<Longrightarrow> r \<in> set rows \<Longrightarrow> s \<in> set rows \<Longrightarrow> sv_version r = sv_version s \<Longrightarrow> r = s"
  using rows_ok_distinct by (metis distinct_map inj_onD)

lemma get_version_Inr: "get_version st u n = Inr r \<Longrightarrow> r \<in> set (unit_rows st u) \<and> sv_version r = n"
  by (auto simp: get_version_def find_Some_iff split: option.splits)

lemma get_version_of: "rows_ok u (unit_rows st u) \<Longrightarrow> r \<in> set (unit_rows st u) \<Longrightarrow> get_version st u (sv_version r) = Inr r"
proof -
  assume ok: "rows_ok u (unit_rows st u)" and r: "r \<in> set (unit_rows st u)"
  then have "find (\<lambda>s. sv_version s = sv_version r) (unit_rows st u) \<noteq> None"
    by (auto simp: find_None_iff)
  then obtain s where s: "find (\<lambda>s. sv_version s = sv_version r) (unit_rows st u) = Some s" by auto
  then have "s \<in> set (unit_rows st u)" "sv_version s = sv_version r" by (auto simp: find_Some_iff)
  with rows_ok_version_inj [OF ok _ r] s show ?thesis by (auto simp: get_version_def)
qed

lemma one_active:
  assumes "rows_ok u rows" "r \<in> set rows" "s \<in> set rows" "sv_status r = S_ACTIVE" "sv_status s = S_ACTIVE"
  shows "r = s"
proof -
  have "length (filter (\<lambda>r. sv_status r = S_ACTIVE) rows) \<le> 1" using assms(1) by (auto simp: rows_ok_def)
  moreover have "r \<in> set (filter (\<lambda>r. sv_status r = S_ACTIVE) rows)" "s \<in> set (filter (\<lambda>r. sv_status r = S_ACTIVE) rows)"
    using assms by simp_all
  ultimately show ?thesis
    by (cases "filter (\<lambda>r. sv_status r = S_ACTIVE) rows") auto
qed

lemma current_active_of:
  assumes "rows_ok u (unit_rows st u)" "r \<in> set (unit_rows st u)" "sv_status r = S_ACTIVE"
  shows "current_active st u = sv_version r"
proof -
  have "find (\<lambda>r. sv_status r = S_ACTIVE) (unit_rows st u) \<noteq> None" using assms(2,3) by (auto simp: find_None_iff)
  then obtain s where s: "find (\<lambda>r. sv_status r = S_ACTIVE) (unit_rows st u) = Some s" by auto
  then have "s = r" using one_active [OF assms(1) _ assms(2) _ assms(3)] by (auto simp: find_Some_iff)
  with s show ?thesis by (simp add: current_active_def)
qed

lemma current_active_cases [consumes 1, case_names none some]:
  assumes "rows_ok u (unit_rows st u)"
  obtains (none) "current_active st u = 0" "\<forall>r \<in> set (unit_rows st u). sv_status r = S_DRAFT"
  | (some) r where "r \<in> set (unit_rows st u)" "sv_status r = S_ACTIVE" "current_active st u = sv_version r"
proof (cases "\<exists>r \<in> set (unit_rows st u). sv_status r = S_ACTIVE")
  case True
  then show thesis using some current_active_of [OF assms] by blast
next
  case False
  then have "filter (\<lambda>r. sv_status r = S_ACTIVE) (unit_rows st u) = []" by (simp add: filter_empty_conv)
  then have "\<forall>r \<in> set (unit_rows st u). sv_status r = S_DRAFT"
    using assms by (auto simp: rows_ok_def split: if_splits)
  moreover have "current_active st u = 0"
    using False by (auto simp: current_active_def find_Some_iff split: option.splits)
  ultimately show thesis by (rule none [rotated])
qed

lemma rows_ok_append:
  assumes "rows_ok u rows" "sv_unit v = u" "sv_version v = int (length rows) + 1" "sv_status v = S_DRAFT"
    "sv_settings v \<noteq> []" "validate_settings (sv_settings v) = Inr ()" "sv_from v = None" "sv_to v = None"
  shows "rows_ok u (rows @ [v])"
  using assms by (simp add: rows_ok_def dates_ok_def)

text \<open>The rows that an activation writes.\<close>

definition activated_rows :: "int \<Rightarrow> datetime \<Rightarrow> settings_version \<Rightarrow> settings_version list \<Rightarrow> settings_version list" where
  "activated_rows n from v rows = map (\<lambda>r. if sv_version r = n then v else r) (map (retire_active from) rows)"

lemma retire_simps [simp]:
  "sv_version (retire_active from r) = sv_version r" "sv_unit (retire_active from r) = sv_unit r"
  "sv_settings (retire_active from r) = sv_settings r"
  "sv_status (retire_active from r) = (if sv_status r = S_ACTIVE then S_RETIRED else sv_status r)"
  by (simp_all add: retire_active_def)

lemma retire_evolves: "row_evolves r (retire_active from r)"
  by (simp add: retire_active_def row_evolves_def)

lemma retire_dates: "dates_ok r \<Longrightarrow> dates_ok (retire_active from r)"
  by (auto simp: dates_ok_def retire_active_def split: settings_status.splits)

lemma activated_rows_ok:
  assumes ok: "rows_ok u rows" and t: "target \<in> set rows" "sv_version target = n" "sv_status target = S_DRAFT"
    and v: "v = target\<lparr>sv_status := S_ACTIVE, sv_from := Some from, sv_previous := p\<rparr>"
  shows "rows_ok u (activated_rows n from v rows)" "rows_evolve rows (activated_rows n from v rows)"
    "v \<in> set (activated_rows n from v rows)"
proof -
  let ?g = "\<lambda>r. if r = target then v else retire_active from r"
  have g: "activated_rows n from v rows = map ?g rows"
    unfolding activated_rows_def map_map
  proof (rule map_cong [OF refl])
    fix r assume "r \<in> set rows"
    from rows_ok_version_inj [OF ok this t(1)] t(2) have "sv_version r = n \<longleftrightarrow> r = target" by metis
    then show "((\<lambda>r. if sv_version r = n then v else r) \<circ> retire_active from) r = ?g r" by simp
  qed
  show "v \<in> set (activated_rows n from v rows)" using t(1) by (auto simp: g)
  have ev: "row_evolves r (?g r)" for r
  proof (cases "r = target")
    case True
    then show ?thesis using t(3) by (simp add: v row_evolves_def)
  qed (simp add: retire_evolves)
  then show "rows_evolve rows (activated_rows n from v rows)"
    by (simp add: g rows_evolve_def list_all2_conv_all_nth)
  have "filter (\<lambda>r. sv_status r = S_ACTIVE) (map ?g rows) = map ?g (filter (\<lambda>r. r = target) rows)"
    unfolding filter_map by (intro arg_cong [where f = "map ?g"] filter_cong refl) (simp add: v)
  moreover have "length (filter (\<lambda>r. r = target) rows) = 1"
  proof -
    have "distinct rows" using rows_ok_distinct [OF ok] by (simp add: distinct_map)
    then have "length (filter (\<lambda>r. r = target) rows) = card {r \<in> set rows. r = target}"
      using distinct_card [of "filter (\<lambda>r. r = target) rows"] by simp
    also have "{r \<in> set rows. r = target} = {target}" using t(1) by auto
    finally show ?thesis by simp
  qed
  ultimately have one: "length (filter (\<lambda>r. sv_status r = S_ACTIVE) (map ?g rows)) = 1" by simp
  have same: "sv_version (?g r) = sv_version r" "sv_settings (?g r) = sv_settings r" "sv_unit (?g r) = sv_unit r" for r
    by (simp_all add: v)
  have vs: "map sv_version (map ?g rows) = map int [1..<Suc (length (map ?g rows))]"
    using ok same(1) by (simp add: rows_ok_def comp_def)
  have dates: "dates_ok (?g r)" if "r \<in> set rows" for r
  proof (cases "r = target")
    case True
    have "dates_ok target" using ok t(1) by (simp add: rows_ok_def)
    then have "sv_to target = None" using t(3) by (simp add: dates_ok_def)
    with True show ?thesis by (simp add: dates_ok_def v)
  next
    case False
    then show ?thesis using ok that by (simp add: rows_ok_def retire_dates)
  qed
  have "?g target \<in> set (map ?g rows)" unfolding set_map using t(1) by (rule imageI)
  moreover have "sv_status (?g target) = S_ACTIVE" by (simp add: v)
  then have "sv_status (?g target) \<noteq> S_DRAFT" by (simp only: settings_status.distinct not_False_eq_True)
  ultimately have nd: "\<not> (\<forall>r \<in> set (map ?g rows). sv_status r = S_DRAFT)" by blast
  have "\<forall>r \<in> set rows. sv_unit (?g r) = u \<and> sv_settings (?g r) \<noteq> []
      \<and> validate_settings (sv_settings (?g r)) = Inr () \<and> dates_ok (?g r)"
    using ok dates unfolding same by (simp add: rows_ok_def)
  then have "\<forall>r \<in> set (map ?g rows). sv_unit r = u \<and> sv_settings r \<noteq> []
      \<and> validate_settings (sv_settings r) = Inr () \<and> dates_ok r"
    by (simp only: set_map ball_simps)
  then show "rows_ok u (activated_rows n from v rows)"
    unfolding g rows_ok_def if_not_P [OF nd] by (intro conjI vs one)
qed

lemma activate_cases:
  obtains (conflict) "activate L u n e at actor from st = deny_conflict L u (JInt n) e at actor st"
      "e \<noteq> current_active st u"
  | (refused) err where "activate L u n e at actor from st = (Inl err, st)" "validate_unit st u = Inl err
      \<or> e = current_active st u \<and> (regression_check st u from = Inl err \<or> err = InvalidDomainValue)"
  | (ok) target v st' where "activate L u n e at actor from st = (Inr v, st')"
      "e = current_active st u" "validate_unit st u = Inr ()" "regression_check st u from = Inr ()"
      "get_version st u n = Inr target" "sv_status target = S_DRAFT"
      "v = target\<lparr>sv_status := S_ACTIVE, sv_from := Some from,
              sv_previous := (if current_active st u = 0 then None else Some (current_active st u))\<rparr>"
      "\<And>w. unit_rows st' w = (if w = u then activated_rows n from v (unit_rows st u) else unit_rows st w)"
      "st_registry st' = st_registry st"
proof (cases "validate_unit st u")
  case (Inl err)
  then show thesis by (intro refused [of err]) (simp_all add: activate_def)
next
  case unit: (Inr x)
  show thesis
  proof (cases "e = current_active st u")
    case False
    with unit show thesis by (intro conflict) (simp_all add: activate_def)
  next
    case e: True
    show thesis
    proof (cases "regression_check st u from")
      case (Inl err)
      with unit e show thesis by (intro refused [of err]) (simp_all add: activate_def)
    next
      case (Inr y)
      then have check: "regression_check st u from = Inr ()" by simp
      show thesis
      proof (cases "\<exists>target. get_version st u n = Inr target \<and> sv_status target = S_DRAFT")
        case True
        then obtain target where t: "get_version st u n = Inr target" "sv_status target = S_DRAFT" by blast
        let ?v = "target\<lparr>sv_status := S_ACTIVE, sv_from := Some from,
              sv_previous := (if current_active st u = 0 then None else Some (current_active st u))\<rparr>"
        have a: "activate L u n e at actor from st = (Inr ?v, log_event L u ''activate'' actor at
              [(''version'', JInt n), (''expected_version'', JInt e)]
              (put_rows u (activated_rows n from ?v (unit_rows st u)) st))"
          using unit e check t by (simp add: activate_def Let_def activated_rows_def)
        show thesis
          by (rule ok [OF a e _ check t refl]) (use unit in simp_all)
      next
        case False
        then have "bind_res (get_version st u n) (\<lambda>t. ensure InvalidDomainValue (sv_status t = S_DRAFT) (Inr t))
            = Inl InvalidDomainValue"
          by (cases "get_version st u n") (auto simp: ensure_def get_version_def split: option.splits)
        with unit e check show thesis by (intro refused [of InvalidDomainValue]) (simp_all add: activate_def)
      qed
    qed
  qed
qed

text \<open>A step from one store to the next: the registry stays, rows evolve, and the invariant
  is kept.\<close>

definition settings_step :: "settings_store \<Rightarrow> settings_store \<Rightarrow> bool" where
  "settings_step st st' = (st_registry st' = st_registry st
     \<and> (\<forall>u. rows_evolve (unit_rows st u) (unit_rows st' u)) \<and> (settings_ok st \<longrightarrow> settings_ok st'))"

lemma settings_step_refl: "settings_step st st"
  by (simp add: settings_step_def)

lemma settings_step_trans: "settings_step a b \<Longrightarrow> settings_step b c \<Longrightarrow> settings_step a c"
  unfolding settings_step_def by (auto intro: rows_evolve_trans)

lemma settings_step_log: "settings_step st (log_event L u a b at d st)"
  by (simp add: settings_step_def settings_ok_def)

lemma settings_step_log_of: "settings_step st st' \<Longrightarrow> settings_step st (log_event L u a b at d st')"
  by (rule settings_step_trans [OF _ settings_step_log])

lemma validate_unit_known: "validate_unit st u = Inr () \<longleftrightarrow> dget (st_registry st) u \<noteq> None"
  by (auto simp: validate_unit_def registry_get_def split: option.splits)

lemma draft_step: "settings_step st (snd (draft L u s author at st))"
proof (cases "bind_res (validate_unit st u) (\<lambda>_. ensure InvalidDomainValue (s \<noteq> []) (validate_settings s))")
  case (Inr x)
  then have valid: "validate_unit st u = Inr ()" "s \<noteq> []" "validate_settings s = Inr ()"
    by (auto simp: bind_res_Inr)
  then show ?thesis
    using Inr
    by (auto simp: draft_def Let_def settings_step_def settings_ok_def rows_evolve_append validate_unit_known
        next_version_def intro!: rows_ok_append)
qed (simp add: draft_def settings_step_refl)

lemma activate_step:
  assumes "settings_ok st"
  shows "settings_step st (snd (activate L u n e at actor from st))"
proof (cases rule: activate_cases [of L u n e at actor "from" st])
  case (ok target v st')
  have rows: "rows_ok u (unit_rows st u)" using assms by (simp add: settings_ok_def)
  have t: "target \<in> set (unit_rows st u)" "sv_version target = n" using get_version_Inr [OF ok(5)] by auto
  note new = activated_rows_ok [OF rows t ok(6,7)]
  show ?thesis
    using assms new(1,2) ok(3) unfolding ok(1) by (auto simp: settings_step_def settings_ok_def ok(8,9) validate_unit_known)
qed (simp_all add: deny_conflict_def settings_step_log settings_step_refl)

lemma rollback_draft_step:
  assumes "target \<in> set (unit_rows st u)" "validate_unit st u = Inr ()"
    "settings_ok st"
  shows "settings_step st (rollback_draft L u target to_version at actor reason st)"
proof -
  have "sv_settings target \<noteq> []" "validate_settings (sv_settings target) = Inr ()"
    using assms(1,3) by (auto simp: settings_ok_def rows_ok_def)
  then show ?thesis
    using assms(2) by (auto simp: rollback_draft_def Let_def settings_step_def settings_ok_def rows_evolve_append
        validate_unit_known next_version_def intro!: rows_ok_append)
qed

lemma rollback_step:
  assumes "settings_ok st"
  shows "settings_step st (snd (rollback L u to_version e at actor from reason st))"
proof (cases "bind_res (validate_unit st u) (\<lambda>_. get_version st u to_version)")
  case (Inr target)
  then have t: "target \<in> set (unit_rows st u)" "validate_unit st u = Inr ()"
    using get_version_Inr by (auto simp: bind_res_Inr)
  note d = rollback_draft_step [OF t assms]
  then have "settings_step st (snd (activate L u n e at actor from (rollback_draft L u target to_version at actor reason st)))" for n e
    using settings_step_trans [OF d activate_step] assms by (simp add: settings_step_def)
  then show ?thesis
    using Inr by (simp add: rollback_def deny_conflict_def settings_step_log settings_step_refl split: sum.split)
qed (simp add: rollback_def settings_step_refl)

lemma cmd_step: "settings_ok st \<Longrightarrow> settings_step st (snd (run_cmd L c st))"
  by (cases c) (simp_all add: draft_step activate_step rollback_step)

lemma cmds_step: "settings_ok st \<Longrightarrow> settings_step st (run_cmds L cs st)"
proof (induction cs rule: rev_induct)
  case (snoc c cs)
  then have s: "settings_step st (run_cmds L cs st)" by simp
  with snoc.prems have "settings_step (run_cmds L cs st) (snd (run_cmd L c (run_cmds L cs st)))"
    by (intro cmd_step) (simp add: settings_step_def)
  with s show ?case by (auto simp: run_cmds_def intro: settings_step_trans)
qed (simp add: run_cmds_def settings_step_refl)

lemma settings_ok_new: "settings_ok (new_settings_store reg)"
  by (simp add: settings_ok_def rows_ok_def)

lemma settings_ok_reachable: "settings_ok (run_cmds L cs (new_settings_store reg))"
  using cmds_step [OF settings_ok_new] settings_ok_new by (auto simp: settings_step_def)

text \<open>C36. In every reachable settings store a unit's versions are numbered from 1 without
  gaps, hold validated settings of a registered unit, and exactly one is active as soon as one
  was ever activated, with dates that fit the status. And whatever commands run later, refused
  ones included, versions are only appended, and a stored version keeps its content and
  authorship for ever while its status only moves from draft to active to retired.\<close>

theorem settings_history:
  "settings_ok (run_cmds L cs (new_settings_store reg))
   \<and> rows_evolve (unit_rows (run_cmds L cs (new_settings_store reg)) u)
        (unit_rows (run_cmds L ds (run_cmds L cs (new_settings_store reg))) u)"
  using settings_ok_reachable cmds_step [OF settings_ok_reachable] by (simp add: settings_step_def)

section \<open>Compare-and-set\<close>

text \<open>An expected version is spent once something was activated on its strength: for 0, some
  version was activated; for others, that version is retired.\<close>

definition spent :: "int \<Rightarrow> settings_version list \<Rightarrow> bool" where
  "spent e rows = (\<exists>r \<in> set rows. if e = 0 then sv_status r \<noteq> S_DRAFT else sv_version r = e \<and> sv_status r = S_RETIRED)"

lemma spent_evolves: "rows_evolve old new \<Longrightarrow> spent e old \<Longrightarrow> spent e new"
proof -
  assume ev: "rows_evolve old new" and "spent e old"
  then obtain r where r: "r \<in> set old"
    "if e = 0 then sv_status r \<noteq> S_DRAFT else sv_version r = e \<and> sv_status r = S_RETIRED"
    by (auto simp: spent_def)
  from rows_evolve_mem [OF ev r(1)] obtain r' where r': "r' \<in> set new" "row_evolves r r'" .
  then have "status_rank (sv_status r) \<le> status_rank (sv_status r')" "sv_version r' = sv_version r"
    by (simp_all add: row_evolves_def)
  with r(2) have "if e = 0 then sv_status r' \<noteq> S_DRAFT else sv_version r' = e \<and> sv_status r' = S_RETIRED"
    by (cases "sv_status r'"; cases "sv_status r") (auto split: if_splits)
  with r'(1) show ?thesis by (auto simp: spent_def)
qed

lemma spent_not_current:
  assumes "rows_ok u (unit_rows st u)" "spent e (unit_rows st u)"
  shows "e \<noteq> current_active st u"
  using assms(1)
proof (cases rule: current_active_cases)
  case none
  then show ?thesis using assms(2) by (auto simp: spent_def)
next
  case (some r)
  then have pos: "0 < sv_version r" using rows_ok_version_pos [OF assms(1)] by blast
  show ?thesis
  proof (cases "e = 0")
    case False
    then obtain s where s: "s \<in> set (unit_rows st u)" "sv_version s = e" "sv_status s = S_RETIRED"
      using assms(2) by (auto simp: spent_def)
    show ?thesis
    proof
      assume "e = current_active st u"
      then have "s = r" using rows_ok_version_inj [OF assms(1) s(1) some(1)] s(2) some(3) by simp
      with s(3) some(2) show False by simp
    qed
  qed (use pos some in simp)
qed

lemma activate_spends:
  assumes ok: "settings_ok st" and a: "activate L u n e at actor from st = (Inr v, st')"
  shows "spent e (unit_rows st' u) \<and> v \<in> set (unit_rows st' u) \<and> sv_status v = S_ACTIVE \<and> sv_from v = Some from
      \<and> sv_to v = None \<and> (get_version st u n = Inr t \<longrightarrow> sv_settings v = sv_settings t)"
proof (cases rule: activate_cases [of L u n e at actor "from" st])
  case (ok target w st'')
  have v: "w = v" "st'' = st'" using ok(1) a by simp_all
  have rows: "rows_ok u (unit_rows st u)" using assms(1) by (simp add: settings_ok_def)
  have t: "target \<in> set (unit_rows st u)" "sv_version target = n" using get_version_Inr [OF ok(5)] by auto
  note new = activated_rows_ok [OF rows t ok(6,7)]
  have mem: "v \<in> set (unit_rows st' u)" using new(3) ok(8) [of u] by (simp add: v)
  have act: "sv_status v = S_ACTIVE" "sv_from v = Some from" "sv_settings v = sv_settings target"
    using ok(7) by (simp_all add: v)
  have "rows_ok u (unit_rows st' u)" using new(1) ok(8) [of u] by (simp add: v)
  then have to_v: "sv_to v = None" using mem act(1) by (auto simp: rows_ok_def dates_ok_def)
  have "spent e (unit_rows st' u)"
    using rows
  proof (cases rule: current_active_cases)
    case none
    then show ?thesis using ok(2) mem act(1) by (auto simp: spent_def intro!: bexI [of _ v])
  next
    case (some r)
    have "retire_active from r \<in> set (map (retire_active from) (unit_rows st u))" using some(1) by simp
    moreover have "sv_version (retire_active from r) \<noteq> n"
      using rows_ok_version_inj [OF rows some(1) t(1)] t(2) some(2) ok(6) by auto
    ultimately have "retire_active from r \<in> set (activated_rows n from w (unit_rows st u))"
      unfolding activated_rows_def set_map [of "\<lambda>r. if sv_version r = n then w else r"]
      by (intro image_eqI [where x = "retire_active from r"]) simp_all
    then have "retire_active from r \<in> set (unit_rows st' u)" using ok(8) [of u] by (simp add: v)
    moreover have "e \<noteq> 0" using rows_ok_version_pos [OF rows some(1)] some(3) ok(2) by simp
    ultimately show ?thesis
      using some(2,3) ok(2) by (auto simp: spent_def intro!: bexI [of _ "retire_active from r"])
  qed
  then show "spent e (unit_rows st' u) \<and> v \<in> set (unit_rows st' u) \<and> sv_status v = S_ACTIVE \<and> sv_from v = Some from
      \<and> sv_to v = None \<and> (get_version st u n = Inr t \<longrightarrow> sv_settings v = sv_settings t)"
    using mem act to_v ok(5) by auto
qed (use a in \<open>simp_all add: deny_conflict_def\<close>)

text \<open>What a successful activation or rollback leaves: the activated version, in force from
  the given date with the settings of the version it was made from, and the expectation spent.\<close>


lemma winner:
  assumes "settings_ok st" "run_cmd L c st = (Inr v, st')" "cmd_expects c = Some (u, e)"
  shows "spent e (unit_rows st' u) \<and> v \<in> set (unit_rows st' u) \<and> sv_status v = S_ACTIVE
    \<and> sv_from v = Some (snd (cmd_source c)) \<and> sv_to v = None
    \<and> (\<exists>t. get_version st u (fst (cmd_source c)) = Inr t \<and> sv_settings v = sv_settings t)"
proof (cases c)
  case (CActivate u' n e' at actor "from")
  then have a: "activate L u n e at actor from st = (Inr v, st')" using assms(2,3) by simp
  moreover obtain t where "get_version st u n = Inr t"
    using a by (cases rule: activate_cases [of L u n e at actor "from" st]) (auto simp: deny_conflict_def)
  ultimately show ?thesis
    using activate_spends [OF assms(1) a] CActivate by auto
next
  case (CRollback u' n e' at actor "from" reason)
  then have a: "rollback L u n e at actor from reason st = (Inr v, st')" using assms(2,3) by simp
  then obtain t where t: "get_version st u n = Inr t" "validate_unit st u = Inr ()"
    by (cases "bind_res (validate_unit st u) (\<lambda>_. get_version st u n)") (auto simp: rollback_def bind_res_Inr)
  let ?m = "rollback_draft L u t n at actor reason st"
  have act: "activate L u (next_version st u) e at actor from ?m = (Inr v, st')"
    using a t by (auto simp: rollback_def deny_conflict_def split: if_splits sum.splits)
  have mem: "t \<in> set (unit_rows st u)" using get_version_Inr [OF t(1)] by simp
  have ok: "settings_ok ?m" using rollback_draft_step [OF mem t(2) assms(1)] assms(1) by (simp add: settings_step_def)
  have rows: "rows_ok u (unit_rows ?m u)" using ok by (simp add: settings_ok_def)
  obtain w where w: "w \<in> set (unit_rows ?m u)" "sv_version w = next_version st u" "sv_settings w = sv_settings t"
    by (rule that, simp add: rollback_draft_def Let_def, rule disjI1, rule refl, simp_all)
  have "get_version ?m u (next_version st u) = Inr w"
    using get_version_of [OF rows w(1)] w(2) by simp
  then show ?thesis
    using activate_spends [OF ok act] w(3) t(1) CRollback by auto
qed (use assms in simp)

lemma loser:
  assumes "settings_ok st" "spent e (unit_rows st u)" "cmd_expects c = Some (u, e)" "validate_unit st u = Inr ()"
  shows "\<exists>st'. run_cmd L c st = (Inl InvalidDomainValue, st') \<and> st_versions st' = st_versions st"
proof -
  have ne: "e \<noteq> current_active st u"
    using spent_not_current assms(1,2) by (simp add: settings_ok_def)
  show ?thesis
  proof (cases c)
    case (CActivate u' n e' at actor "from")
    then show ?thesis using assms(3,4) ne by (simp add: activate_def deny_conflict_def)
  next
    case (CRollback u' n e' at actor "from" reason)
    then show ?thesis using assms(3,4) ne
      by (cases "get_version st u n") (auto simp: rollback_def deny_conflict_def get_version_def split: option.splits)
  qed (use assms in simp)
qed

text \<open>C34. An expected version wins once: after an activation or rollback that expected
  version \<open>e\<close> of a unit succeeded, no later command for that unit with the same expectation
  ever succeeds, whatever runs in between; it is refused and changes no version.\<close>

theorem cas_wins_once:
  assumes "st = run_cmds L cs (new_settings_store reg)" "run_cmd L c st = (Inr v, st1)"
    "cmd_expects c = Some (u, e)" "cmd_expects d = Some (u, e)"
  shows "\<exists>st3. run_cmd L d (run_cmds L ds st1) = (Inl InvalidDomainValue, st3)
      \<and> st_versions st3 = st_versions (run_cmds L ds st1)"
proof -
  have ok: "settings_ok st" unfolding assms(1) by (rule settings_ok_reachable)
  have ok1: "settings_ok st1" using cmd_step [OF ok, of L c] ok assms(2) by (simp add: settings_step_def)
  let ?st2 = "run_cmds L ds st1"
  have s: "settings_step st1 ?st2" by (rule cmds_step [OF ok1])
  then have ok2: "settings_ok ?st2" using ok1 by (simp add: settings_step_def)
  note w = winner [OF ok assms(2,3)]
  have "spent e (unit_rows ?st2 u)"
    using s w spent_evolves unfolding settings_step_def by blast
  moreover have "validate_unit ?st2 u = Inr ()"
  proof -
    have "unit_rows st1 u \<noteq> []" using w by auto
    then have "dget (st_registry st1) u \<noteq> None" using ok1 by (simp add: settings_ok_def)
    then show ?thesis using s by (simp add: validate_unit_known settings_step_def)
  qed
  ultimately show ?thesis using ok2 assms(4) by (intro loser)
qed

lemma first_serving_only:
  assumes "v \<in> set rows" "serves at v = Inr b" "\<forall>r \<in> set rows. r \<noteq> v \<longrightarrow> serves at r = Inr False"
  shows "first_serving at rows = (if b then Inr v else Inl InvalidDomainValue)"
proof -
  have none: "first_serving at rs = Inl InvalidDomainValue" if "\<forall>r \<in> set rs. serves at r = Inr False" for rs
    using that by (induction rs) simp_all
  show ?thesis
    using assms
  proof (induction rows)
    case (Cons r rs)
    show ?case
    proof (cases "r = v")
      case True
      then show ?thesis using Cons none by (cases "v \<in> set rs") (fastforce simp: none)+
    next
      case False
      then show ?thesis using Cons by simp
    qed
  qed simp
qed

text \<open>What a successful activation or rollback puts in force: from its effective date on,
  exactly the activated version is served, with the settings of the version it was made from;
  before that date nothing is served at all, not even the version that was active until the
  command.\<close>

theorem activation_served:
  assumes "st = run_cmds L cs (new_settings_store reg)" "run_cmd L c st = (Inr v, st1)"
    "cmd_expects c = Some (u, e)" "cmd_source c = (n, from)" "is_aware from" "is_aware t"
  shows "get_active u t st1 = (if utc_us from \<le> utc_us t then Inr v else Inl InvalidDomainValue)
    \<and> preview u n st = Inr (sv_settings v)"
proof -
  have ok: "settings_ok st" unfolding assms(1) by (rule settings_ok_reachable)
  have step: "settings_step st st1" using cmd_step [OF ok, of L c] assms(2) by simp
  then have ok1: "settings_ok st1" using ok by (simp add: settings_step_def)
  then have rows: "rows_ok u (unit_rows st1 u)" by (simp add: settings_ok_def)
  note w = winner [OF ok assms(2,3), unfolded assms(4) fst_conv snd_conv]
  then have v: "v \<in> set (unit_rows st1 u)" "sv_status v = S_ACTIVE" "sv_from v = Some from" "sv_to v = None"
    by blast+
  have "unit_rows st1 u \<noteq> []" using v(1) by auto
  then have unit: "validate_unit st1 u = Inr ()" "validate_unit st u = Inr ()"
    using ok1 step by (simp_all add: validate_unit_known settings_ok_def settings_step_def)
  have "serves t r = Inr False" if "r \<in> set (unit_rows st1 u)" "r \<noteq> v" for r
    using one_active [OF rows that(1) v(1)] that(2) v(2) by (auto simp: serves_def)
  moreover have "serves t v = Inr (utc_us from \<le> utc_us t)"
    using v dt_less_aware [OF assms(6,5)] by (simp add: serves_def)
  ultimately have "first_serving t (unit_rows st1 u) = (if utc_us from \<le> utc_us t then Inr v else Inl InvalidDomainValue)"
    using v(1) by (intro first_serving_only) auto
  then show ?thesis using w unit by (auto simp: get_active_def preview_def)
qed

section \<open>Examples\<close>

definition demo_settings_cmds :: "settings_cmd list" where
  "demo_settings_cmds =
    [CDraft ''AA'' [(''payment_terms_days'', SInt 30)] ''ann'' (Aware 0 0),
     CDraft ''AA'' [(''branding_tagline'', SStr ''Quality''), (''enabled_modules'', STuple [SStr ''crm''])] ''ann'' (Aware 0 0),
     CActivate ''AA'' 1 0 (Aware 0 0) ''bob'' (Aware 1 0)]"

definition demo_settings :: settings_store where
  "demo_settings = new_settings_store [(''AA'', demo_unit ''AA'' ''acct_aa'' [])]"

definition demo_activation :: settings_cmd where
  "demo_activation = CActivate ''AA'' 2 1 (Aware 2 0) ''bob'' (Aware 9 0)"

lemma demo_activates:
  "\<exists>v st1. run_cmd demo_libs demo_activation (run_cmds demo_libs demo_settings_cmds demo_settings) = (Inr v, st1)"
proof -
  have "\<not> isl (fst (run_cmd demo_libs demo_activation (run_cmds demo_libs demo_settings_cmds demo_settings)))"
    by code_simp
  then show ?thesis by (metis sum.collapse(2) prod.collapse)
qed

theorem cas_wins_once_witness:
  "\<exists>v st1. run_cmd demo_libs demo_activation (run_cmds demo_libs demo_settings_cmds demo_settings) = (Inr v, st1)
    \<and> (\<exists>st3. run_cmd demo_libs demo_activation st1 = (Inl InvalidDomainValue, st3) \<and> st_versions st3 = st_versions st1)"
proof -
  obtain v st1 where "run_cmd demo_libs demo_activation (run_cmds demo_libs demo_settings_cmds demo_settings) = (Inr v, st1)"
    using demo_activates by blast
  moreover note cas_wins_once [OF refl this [unfolded demo_settings_def], of "''AA''" 1 demo_activation "[]"]
  ultimately show ?thesis by (auto simp: demo_activation_def run_cmds_def)
qed

theorem activation_served_witness:
  "\<exists>v st1. run_cmd demo_libs demo_activation (run_cmds demo_libs demo_settings_cmds demo_settings) = (Inr v, st1)
    \<and> get_active ''AA'' (Aware 5 0) st1 = Inl InvalidDomainValue \<and> get_active ''AA'' (Aware 9 7) st1 = Inr v"
proof -
  obtain v st1 where a: "run_cmd demo_libs demo_activation (run_cmds demo_libs demo_settings_cmds demo_settings) = (Inr v, st1)"
    using demo_activates by blast
  have d: "cmd_expects demo_activation = Some (''AA'', 1)" "cmd_source demo_activation = (2, Aware 9 0)"
    by (simp_all add: demo_activation_def)
  note s = activation_served [OF refl a [unfolded demo_settings_def] d]
  show ?thesis using a s [of "Aware 5 0"] s [of "Aware 9 7"] by auto
qed

text \<open>A rollback that the date check refuses has already appended its draft, and the version
  that a later-dated activation retires is out of force at once.\<close>

lemma refused_rollback_leaves_draft:
  "let st = snd (run_cmd demo_libs demo_activation (run_cmds demo_libs demo_settings_cmds demo_settings));
       r = run_cmd demo_libs (CRollback ''AA'' 1 2 (Aware 4 0) ''bob'' (Aware 3 0) ''undo'') st
   in isl (fst r) \<and> length (unit_rows st ''AA'') = 2 \<and> map sv_status (unit_rows (snd r) ''AA'') = [S_RETIRED, S_ACTIVE, S_DRAFT]"
  by code_simp

lemma future_activation_gap:
  "let st = run_cmds demo_libs demo_settings_cmds demo_settings; st1 = snd (run_cmd demo_libs demo_activation st)
   in map_sum id sv_version (get_active ''AA'' (Aware 5 0) st) = Inr 1 \<and> get_active ''AA'' (Aware 5 0) st1 = Inl InvalidDomainValue"
  by code_simp

end
