(* ===== verification/FixtureCrm.thy ===== *)
theory FixtureCrm
  imports Values
begin

text \<open>
  The unit-private CRM: the port's commands and records (\<^verbatim>\<open>src/crm/port.py\<close>) and the
  in-memory adapter (\<^verbatim>\<open>src/adapters/fixture_crm/__init__.py\<close>) with its scope checks,
  pagination, export and conflict check. The roster of assignments belongs to the caller and
  may change between two calls; it is a field of the state. The payload of a record is always
  empty and is left out.
\<close>

section \<open>Commands and records\<close>

record crm_identity =
  ci_actor :: str
  ci_unit :: str

record lead_command =
  lc_identity :: crm_identity
  lc_name :: str
  lc_channel :: str
  lc_handle :: str
  lc_source :: str

record lead_record =
  lr_reference :: str
  lr_unit :: str
  lr_name :: str
  lr_channel :: str
  lr_handle :: str
  lr_source :: str
  lr_status :: str
  lr_owner :: str

record quotation_command =
  qc_identity :: crm_identity
  qc_lead :: str
  qc_customer :: str
  qc_total :: str
  qc_currency :: str
  qc_until :: str

record quotation_record =
  qu_reference :: str
  qu_unit :: str
  qu_lead :: str
  qu_customer :: str
  qu_total :: str
  qu_currency :: str
  qu_status :: str
  qu_until :: str

record crm_query =
  cq_identity :: crm_identity
  cq_text :: "str option"
  cq_status :: "str option"
  cq_limit :: int
  cq_cursor :: "str option"

record crm_page =
  cp_kind :: str
  cp_references :: "str list"
  cp_scoped :: bool
  cp_total :: nat
  cp_next :: "str option"

record export_request =
  er_identity :: crm_identity
  er_kind :: str
  er_evidence :: str
  er_max :: int

record export_result =
  ex_evidence :: str
  ex_unit :: str
  ex_count :: nat
  ex_rows :: "(str, str) dict list"

datatype conflict_verdict = Clear | ConflictInScope

section \<open>The adapter\<close>

record fixture_crm =
  fc_roster :: "(str, str set) dict"
  fc_leads :: "(str, lead_record) dict"
  fc_quotations :: "(str, quotation_record) dict"
  fc_seq :: nat
  fc_transfers :: "(str \<times> str \<times> str) list"

definition new_crm :: "(str, str set) dict \<Rightarrow> fixture_crm" where
  "new_crm roster = \<lparr>fc_roster = roster, fc_leads = [], fc_quotations = [], fc_seq = 1, fc_transfers = []\<rparr>"

definition roster_units :: "fixture_crm \<Rightarrow> str \<Rightarrow> str set" where
  "roster_units s actor = (case dget (fc_roster s) actor of None \<Rightarrow> {} | Some us \<Rightarrow> us)"

definition require_assigned :: "crm_identity \<Rightarrow> fixture_crm \<Rightarrow> unit res" where
  "require_assigned i s = ensure CrmDenied (ci_unit i \<in> roster_units s (ci_actor i)) (Inr ())"

definition lead_in_scope :: "crm_identity \<Rightarrow> str \<Rightarrow> fixture_crm \<Rightarrow> lead_record res" where
  "lead_in_scope i ref s = (case dget (fc_leads s) ref of
     None \<Rightarrow> Inl CrmNotFound
   | Some r \<Rightarrow> ensure CrmNotFound (lr_unit r = ci_unit i) (Inr r))"

definition create_lead :: "lead_command \<Rightarrow> fixture_crm \<Rightarrow> str res \<times> fixture_crm" where
  "create_lead c s = (case require_assigned (lc_identity c) s of Inl e \<Rightarrow> (Inl e, s) | Inr _ \<Rightarrow>
     let ref = ref_num ''LEAD'' 4 (fc_seq s) in
     (Inr ref, s\<lparr>fc_seq := Suc (fc_seq s), fc_leads := dput ref
        \<lparr>lr_reference = ref, lr_unit = ci_unit (lc_identity c), lr_name = lc_name c, lr_channel = lc_channel c,
          lr_handle = lc_handle c, lr_source = lc_source c, lr_status = ''NEW'',
          lr_owner = ci_actor (lc_identity c)\<rparr> (fc_leads s)\<rparr>))"

definition read_lead :: "crm_identity \<Rightarrow> str \<Rightarrow> fixture_crm \<Rightarrow> lead_record res" where
  "read_lead i ref s = bind_res (require_assigned i s) (\<lambda>_. lead_in_scope i ref s)"

definition transfer_lead ::
  "crm_identity \<Rightarrow> str \<Rightarrow> str \<Rightarrow> str option \<Rightarrow> fixture_crm \<Rightarrow> unit res \<times> fixture_crm" where
  "transfer_lead i ref owner unit s = (case read_lead i ref s of Inl e \<Rightarrow> (Inl e, s) | Inr r \<Rightarrow>
     let target = (case unit of Some u \<Rightarrow> if u = [] then lr_unit r else u | None \<Rightarrow> lr_unit r) in
     if target \<notin> roster_units s owner then (Inl CrmDenied, s)
     else (Inr (), s\<lparr>fc_leads := dput ref (r\<lparr>lr_unit := target, lr_owner := owner\<rparr>) (fc_leads s),
                    fc_transfers := fc_transfers s @ [(ref, owner, target)]\<rparr>))"

definition archive_lead :: "crm_identity \<Rightarrow> str \<Rightarrow> fixture_crm \<Rightarrow> unit res \<times> fixture_crm" where
  "archive_lead i ref s = (case read_lead i ref s of Inl e \<Rightarrow> (Inl e, s) | Inr r \<Rightarrow>
     (Inr (), s\<lparr>fc_leads := dput ref (r\<lparr>lr_status := ''ARCHIVED''\<rparr>) (fc_leads s)\<rparr>))"

definition create_quotation :: "quotation_command \<Rightarrow> fixture_crm \<Rightarrow> str res \<times> fixture_crm" where
  "create_quotation c s =
    (case bind_res (require_assigned (qc_identity c) s) (\<lambda>_. lead_in_scope (qc_identity c) (qc_lead c) s) of
       Inl e \<Rightarrow> (Inl e, s) | Inr _ \<Rightarrow>
     let ref = ref_num ''QUO'' 4 (fc_seq s) in
     (Inr ref, s\<lparr>fc_seq := Suc (fc_seq s), fc_quotations := dput ref
        \<lparr>qu_reference = ref, qu_unit = ci_unit (qc_identity c), qu_lead = qc_lead c, qu_customer = qc_customer c,
          qu_total = qc_total c, qu_currency = qc_currency c, qu_status = ''DRAFT'', qu_until = qc_until c\<rparr>
        (fc_quotations s)\<rparr>))"

definition read_quotation :: "crm_identity \<Rightarrow> str \<Rightarrow> fixture_crm \<Rightarrow> quotation_record res" where
  "read_quotation i ref s = bind_res (require_assigned i s) (\<lambda>_. case dget (fc_quotations s) ref of
     None \<Rightarrow> Inl CrmNotFound
   | Some r \<Rightarrow> ensure CrmNotFound (qu_unit r = ci_unit i) (Inr r))"

subsection \<open>Search\<close>

text \<open>\<^verbatim>\<open>casefold\<close> on the code points below 256 (the micro sign folds to a letter beyond them,
  which no other character folds to; it stands for that letter here), and \<^verbatim>\<open>a in b\<close>.\<close>

definition casefold :: "str \<Rightarrow> str" where
  "casefold s = concat (map (\<lambda>c. if (of_char c :: nat) = 223 then ''ss'' else [lower_char c]) s)"

fun contains :: "str \<Rightarrow> str \<Rightarrow> bool" where
  "contains n [] = (n = [])"
| "contains n (c # s) = (startswith (c # s) n \<or> contains n s)"

text \<open>\<^verbatim>\<open>isdigit\<close>, which also holds of the superscripts one, two and three, and \<^verbatim>\<open>int(raw)\<close>
  on such a text: \<^verbatim>\<open>int\<close> takes decimal digits only, and at most 4300 of them.\<close>

definition py_isdigit :: "str \<Rightarrow> bool" where
  "py_isdigit s = (s \<noteq> [] \<and> list_all (\<lambda>c. is_digit c \<or> (of_char c :: nat) \<in> {178, 179, 185}) s)"

definition max_int_digits :: nat where "max_int_digits = 4300"

definition parse_digits :: "str \<Rightarrow> nat res" where
  "parse_digits s = ensure ValueError (list_all is_digit s \<and> length s \<le> max_int_digits) (Inr (str_nat s))"

text \<open>What the search needs of a record: unit, status, name and reference.\<close>

record search_item =
  si_reference :: str
  si_unit :: str
  si_status :: str
  si_name :: str

definition lead_item :: "lead_record \<Rightarrow> search_item" where
  "lead_item r = \<lparr>si_reference = lr_reference r, si_unit = lr_unit r, si_status = lr_status r, si_name = lr_name r\<rparr>"

definition quotation_item :: "quotation_record \<Rightarrow> search_item" where
  "quotation_item r = \<lparr>si_reference = qu_reference r, si_unit = qu_unit r, si_status = qu_status r, si_name = []\<rparr>"

definition search_hits :: "crm_query \<Rightarrow> search_item list \<Rightarrow> search_item list" where
  "search_hits q items = filter (\<lambda>r. si_unit r = ci_unit (cq_identity q)
     \<and> (case cq_status q of None \<Rightarrow> True | Some st \<Rightarrow> st = [] \<or> si_status r = st)
     \<and> (case cq_text q of None \<Rightarrow> True | Some t \<Rightarrow> t = [] \<or> contains (casefold t) (casefold (si_name r)))) items"

definition cursor_offset :: "crm_query \<Rightarrow> nat res" where
  "cursor_offset q = (case cq_cursor q of None \<Rightarrow> Inr 0
   | Some c \<Rightarrow>
      let unit = takeWhile (\<lambda>d. d \<noteq> CHR '':'') c; rest = dropWhile (\<lambda>d. d \<noteq> CHR '':'') c; raw = drop 1 rest in
      ensure CrmDenied (unit = ci_unit (cq_identity q) \<and> rest \<noteq> [] \<and> py_isdigit raw) (parse_digits raw))"

definition cursor_text :: "str \<Rightarrow> nat \<Rightarrow> str" where
  "cursor_text unit n = unit @ CHR '':'' # nat_str n"

definition search :: "str \<Rightarrow> search_item list \<Rightarrow> crm_query \<Rightarrow> fixture_crm \<Rightarrow> crm_page res" where
  "search kind items q s =
    bind_res (require_assigned (cq_identity q) s) (\<lambda>_.
    ensure CrmDenied (1 \<le> cq_limit q) (
    let hits = search_hits q items in
    bind_res (cursor_offset q) (\<lambda>offset.
    let limit = nat (cq_limit q) in
    Inr \<lparr>cp_kind = kind, cp_references = map si_reference (take limit (drop offset hits)), cp_scoped = True,
      cp_total = length hits,
      cp_next = (if offset + limit < length hits then Some (cursor_text (ci_unit (cq_identity q)) (offset + limit))
                 else None)\<rparr>)))"

definition search_leads :: "crm_query \<Rightarrow> fixture_crm \<Rightarrow> crm_page res" where
  "search_leads q s = search ''LEAD'' (map lead_item (dvals (fc_leads s))) q s"

definition query_quotations :: "crm_query \<Rightarrow> fixture_crm \<Rightarrow> crm_page res" where
  "query_quotations q s = search ''QUOTATION'' (map quotation_item (dvals (fc_quotations s))) q s"

subsection \<open>Export and conflict check\<close>

definition export_row :: "lead_record \<Rightarrow> (str, str) dict" where
  "export_row r = [(''reference'', lr_reference r), (''display_name'', lr_name r), (''status'', lr_status r)]"

fun export_rows :: "str \<Rightarrow> nat \<Rightarrow> lead_record list \<Rightarrow> (str, str) dict list \<Rightarrow> (str, str) dict list" where
  "export_rows u m [] rows = rows"
| "export_rows u m (r # rs) rows =
    (if lr_unit r \<noteq> u then export_rows u m rs rows
     else if m \<le> length rows then rows
     else export_rows u m rs (rows @ [export_row r]))"

definition export :: "export_request \<Rightarrow> fixture_crm \<Rightarrow> export_result res" where
  "export r s =
    bind_res (require_assigned (er_identity r) s) (\<lambda>_.
    ensure CrmDenied (er_kind r = ''LEAD'') (
    ensure CrmDenied (1 \<le> er_max r) (
    let rows = export_rows (ci_unit (er_identity r)) (nat (er_max r)) (dvals (fc_leads s)) [] in
    Inr \<lparr>ex_evidence = er_evidence r, ex_unit = ci_unit (er_identity r), ex_count = length rows, ex_rows = rows\<rparr>)))"

definition check_conflict :: "crm_identity \<Rightarrow> str \<Rightarrow> str \<Rightarrow> fixture_crm \<Rightarrow> conflict_verdict res" where
  "check_conflict i channel handle s = bind_res (require_assigned i s) (\<lambda>_.
     Inr (if list_ex (\<lambda>r. lr_unit r = ci_unit i \<and> lr_channel r = channel \<and> lr_handle r = handle) (dvals (fc_leads s))
          then ConflictInScope else Clear))"

text \<open>Everything that changes the state; \<open>Roster\<close> is a change the caller makes to the roster.\<close>

datatype crm_op =
    CreateLead lead_command
  | TransferLead crm_identity str str "str option"
  | ArchiveLead crm_identity str
  | CreateQuotation quotation_command
  | Roster "(str, str set) dict"

fun crm_step :: "crm_op \<Rightarrow> fixture_crm \<Rightarrow> fixture_crm" where
  "crm_step (CreateLead c) s = snd (create_lead c s)"
| "crm_step (TransferLead i ref owner unit) s = snd (transfer_lead i ref owner unit s)"
| "crm_step (ArchiveLead i ref) s = snd (archive_lead i ref s)"
| "crm_step (CreateQuotation c) s = snd (create_quotation c s)"
| "crm_step (Roster r) s = s\<lparr>fc_roster := r\<rparr>"

definition crm_run :: "crm_op list \<Rightarrow> fixture_crm \<Rightarrow> fixture_crm" where
  "crm_run ops s = foldl (\<lambda>s x. crm_step x s) s ops"

section \<open>Well-formed stores\<close>

definition crm_ok :: "fixture_crm \<Rightarrow> bool" where
  "crm_ok s = (dict_ok (fc_leads s) \<and> dict_ok (fc_quotations s)
     \<and> (\<forall>k r. dget (fc_leads s) k = Some r \<longrightarrow>
          lr_reference r = k \<and> (\<exists>n < fc_seq s. k = ref_num ''LEAD'' 4 n))
     \<and> (\<forall>k r. dget (fc_quotations s) k = Some r \<longrightarrow>
          qu_reference r = k \<and> (\<exists>n < fc_seq s. k = ref_num ''QUO'' 4 n) \<and> dget (fc_leads s) (qu_lead r) \<noteq> None))"

lemma scope_simps:
  "require_assigned i s = Inr () \<longleftrightarrow> ci_unit i \<in> roster_units s (ci_actor i)"
  "lead_in_scope i ref s = Inr r \<longleftrightarrow> dget (fc_leads s) ref = Some r \<and> lr_unit r = ci_unit i"
  "read_lead i ref s = Inr r \<longleftrightarrow> require_assigned i s = Inr () \<and> lead_in_scope i ref s = Inr r"
  by (auto simp: require_assigned_def lead_in_scope_def read_lead_def bind_res_Inr split: option.splits)

lemma create_lead_Inr:
  "require_assigned (lc_identity c) s = Inr () \<Longrightarrow> create_lead c s =
    (let ref = ref_num ''LEAD'' 4 (fc_seq s) in
     (Inr ref, s\<lparr>fc_seq := Suc (fc_seq s), fc_leads := dput ref
        \<lparr>lr_reference = ref, lr_unit = ci_unit (lc_identity c), lr_name = lc_name c, lr_channel = lc_channel c,
          lr_handle = lc_handle c, lr_source = lc_source c, lr_status = ''NEW'',
          lr_owner = ci_actor (lc_identity c)\<rparr> (fc_leads s)\<rparr>))"
  by (simp add: create_lead_def)

lemma crm_okD:
  assumes "crm_ok s" "dget (fc_leads s) k = Some r"
  shows "lr_reference r = k" "\<exists>n < fc_seq s. k = ref_num ''LEAD'' 4 n"
  using assms by (auto simp: crm_ok_def)

lemma crm_fresh: "crm_ok s \<Longrightarrow> dget (fc_leads s) (ref_num ''LEAD'' 4 (fc_seq s)) = None"
  "crm_ok s \<Longrightarrow> dget (fc_quotations s) (ref_num ''QUO'' 4 (fc_seq s)) = None"
proof -
  assume ok: "crm_ok s"
  show "dget (fc_leads s) (ref_num ''LEAD'' 4 (fc_seq s)) = None"
  proof (rule ccontr)
    assume "dget (fc_leads s) (ref_num ''LEAD'' 4 (fc_seq s)) \<noteq> None"
    then obtain r where "dget (fc_leads s) (ref_num ''LEAD'' 4 (fc_seq s)) = Some r" by auto
    from crm_okD(2) [OF ok this] show False by auto
  qed
  show "dget (fc_quotations s) (ref_num ''QUO'' 4 (fc_seq s)) = None"
  proof (rule ccontr)
    assume "dget (fc_quotations s) (ref_num ''QUO'' 4 (fc_seq s)) \<noteq> None"
    then obtain r where "dget (fc_quotations s) (ref_num ''QUO'' 4 (fc_seq s)) = Some r" by auto
    with ok have "\<exists>n < fc_seq s. ref_num ''QUO'' 4 (fc_seq s) = ref_num ''QUO'' 4 n" unfolding crm_ok_def by blast
    then show False by auto
  qed
qed

lemma update_lead_ok:
  assumes ok: "crm_ok s" and r: "dget (fc_leads s) ref = Some r" "lr_reference r' = lr_reference r"
    and s': "fc_leads s' = dput ref r' (fc_leads s)" "fc_quotations s' = fc_quotations s" "fc_seq s' = fc_seq s"
  shows "crm_ok s'"
proof -
  have "lr_reference r' = ref" "\<exists>n < fc_seq s. ref = ref_num ''LEAD'' 4 n" using crm_okD [OF ok r(1)] r(2) by auto
  with ok show ?thesis unfolding crm_ok_def s' by (auto simp: r(1))
qed

lemma crm_step_ok:
  assumes ok: "crm_ok s"
  shows "crm_ok (crm_step x s)"
proof (cases x)
  case (CreateLead c)
  have "\<exists>n < Suc (fc_seq s). k = ref_num ''LEAD'' 4 n" if "dget (fc_leads s) k = Some r" for k r
    using crm_okD(2) [OF ok that] less_SucI by blast
  moreover have "\<exists>n < Suc (fc_seq s). k = ref_num ''QUO'' 4 n" if "dget (fc_quotations s) k = Some r" for k r
    using ok that less_SucI unfolding crm_ok_def by blast
  ultimately show ?thesis
    using CreateLead ok by (auto simp: create_lead_def crm_ok_def Let_def split: sum.splits)
next
  case (CreateQuotation c)
  have "\<exists>n < Suc (fc_seq s). k = ref_num ''LEAD'' 4 n" if "dget (fc_leads s) k = Some r" for k r
    using crm_okD(2) [OF ok that] less_SucI by blast
  moreover have "\<exists>n < Suc (fc_seq s). k = ref_num ''QUO'' 4 n" if "dget (fc_quotations s) k = Some r" for k r
    using ok that less_SucI unfolding crm_ok_def by blast
  ultimately show ?thesis
    using CreateQuotation ok
    by (auto simp: create_quotation_def crm_ok_def Let_def bind_res_Inr scope_simps split: sum.splits)
next
  case (TransferLead i ref owner unit)
  show ?thesis
  proof (cases "read_lead i ref s")
    case (Inr r)
    then have r: "dget (fc_leads s) ref = Some r" by (simp add: scope_simps)
    let ?u = "case unit of Some u \<Rightarrow> if u = [] then lr_unit r else u | None \<Rightarrow> lr_unit r"
    show ?thesis
    proof (cases "?u \<in> roster_units s owner")
      case True
      show ?thesis unfolding TransferLead
        by (rule update_lead_ok [OF ok r, of "r\<lparr>lr_unit := ?u, lr_owner := owner\<rparr>"])
          (use Inr True in \<open>simp_all add: transfer_lead_def Let_def\<close>)
    qed (use Inr TransferLead ok in \<open>simp add: transfer_lead_def Let_def\<close>)
  qed (use TransferLead ok in \<open>simp add: transfer_lead_def\<close>)
next
  case (ArchiveLead i ref)
  show ?thesis
  proof (cases "read_lead i ref s")
    case (Inr r)
    then have r: "dget (fc_leads s) ref = Some r" by (simp add: scope_simps)
    show ?thesis unfolding ArchiveLead
      by (rule update_lead_ok [OF ok r, of "r\<lparr>lr_status := ''ARCHIVED''\<rparr>"])
        (use Inr in \<open>simp_all add: archive_lead_def\<close>)
  qed (use ArchiveLead ok in \<open>simp add: archive_lead_def\<close>)
qed (use ok in \<open>simp add: crm_ok_def\<close>)

lemma crm_run_append: "crm_run (xs @ ys) s = crm_run ys (crm_run xs s)"
  by (simp add: crm_run_def)

lemma crm_run_ok: "crm_ok s \<Longrightarrow> crm_ok (crm_run ops s)"
  by (induction ops arbitrary: s) (simp_all add: crm_run_def crm_step_ok)

lemma crm_new_ok: "crm_ok (new_crm roster)"
  by (simp add: crm_ok_def new_crm_def)

section \<open>Units are isolated\<close>

text \<open>What a unit owns.\<close>

definition unit_leads :: "str \<Rightarrow> fixture_crm \<Rightarrow> (str, lead_record) dict" where
  "unit_leads u s = filter (\<lambda>(k, r). lr_unit r = u) (fc_leads s)"

definition unit_quotations :: "str \<Rightarrow> fixture_crm \<Rightarrow> (str, quotation_record) dict" where
  "unit_quotations u s = filter (\<lambda>(k, r). qu_unit r = u) (fc_quotations s)"

lemma dget_filter:
  "dict_ok d \<Longrightarrow> dget (filter (\<lambda>(k, r). P r) d) k =
    (case dget d k of None \<Rightarrow> None | Some r \<Rightarrow> if P r then Some r else None)"
proof (induction d)
  case (Cons p d)
  then show ?case
    by (cases p) (auto simp: dict_ok_def map_of_eq_None_iff split: option.splits)
qed simp

lemma filter_dput:
  "(\<And>r. dget d k = Some r \<Longrightarrow> \<not> P r) \<Longrightarrow> \<not> P v \<Longrightarrow>
   filter (\<lambda>(k, r). P r) (dput k v d) = filter (\<lambda>(k, r). P r) d"
  by (induction d) auto

lemma item_simps [simp]:
  "si_unit (lead_item r) = lr_unit r" "si_status (lead_item r) = lr_status r" "si_name (lead_item r) = lr_name r"
  "si_unit (quotation_item e) = qu_unit e" "si_status (quotation_item e) = qu_status e" "si_name (quotation_item e) = []"
  by (simp_all add: lead_item_def quotation_item_def)

lemma search_hits_unit:
  "ci_unit (cq_identity q) = u \<Longrightarrow>
   search_hits q (map lead_item (dvals d)) = search_hits q (map lead_item (dvals (filter (\<lambda>(k, r). lr_unit r = u) d)))"
  "ci_unit (cq_identity q) = u \<Longrightarrow>
   search_hits q (map quotation_item (dvals e)) = search_hits q (map quotation_item (dvals (filter (\<lambda>(k, r). qu_unit r = u) e)))"
  by (induction d, auto simp: search_hits_def dvals_def) (induction e, auto simp: search_hits_def dvals_def)

lemma export_rows_unit:
  "export_rows u m (dvals d) rows = export_rows u m (dvals (filter (\<lambda>(k, r). lr_unit r = u) d)) rows"
  by (induction d arbitrary: rows) (auto simp: dvals_def)

lemma list_ex_unit:
  "list_ex (\<lambda>r. lr_unit r = u \<and> Q r) (dvals d) = list_ex Q (dvals (filter (\<lambda>(k, r). lr_unit r = u) d))"
  by (induction d) (auto simp: dvals_def)

text \<open>Two states that answer every request under a unit's context alike: the same value or the
  same refusal, except that a creation, which answers with the new reference, may answer with
  another one.\<close>

definition accepted :: "'a res \<Rightarrow> unit res" where
  "accepted r = bind_res r (\<lambda>_. Inr ())"

definition same_answers :: "str \<Rightarrow> fixture_crm \<Rightarrow> fixture_crm \<Rightarrow> bool" where
  "same_answers u s t =
    ((\<forall>i ref. ci_unit i = u \<longrightarrow> read_lead i ref s = read_lead i ref t \<and> read_quotation i ref s = read_quotation i ref t)
     \<and> (\<forall>q. ci_unit (cq_identity q) = u \<longrightarrow> search_leads q s = search_leads q t \<and> query_quotations q s = query_quotations q t)
     \<and> (\<forall>r. ci_unit (er_identity r) = u \<longrightarrow> export r s = export r t)
     \<and> (\<forall>i ch h. ci_unit i = u \<longrightarrow> check_conflict i ch h s = check_conflict i ch h t)
     \<and> (\<forall>i ref owner unit. ci_unit i = u \<longrightarrow> fst (transfer_lead i ref owner unit s) = fst (transfer_lead i ref owner unit t))
     \<and> (\<forall>i ref. ci_unit i = u \<longrightarrow> fst (archive_lead i ref s) = fst (archive_lead i ref t))
     \<and> (\<forall>c. ci_unit (lc_identity c) = u \<longrightarrow> accepted (fst (create_lead c s)) = accepted (fst (create_lead c t)))
     \<and> (\<forall>c. ci_unit (qc_identity c) = u \<longrightarrow>
          accepted (fst (create_quotation c s)) = accepted (fst (create_quotation c t))))"

lemma answers_of_view:
  assumes ok: "crm_ok s" "crm_ok t" and r: "fc_roster s = fc_roster t"
    and v: "unit_leads u s = unit_leads u t" "unit_quotations u s = unit_quotations u t"
  shows "same_answers u s t"
proof -
  have a: "require_assigned i s = require_assigned i t" for i
    by (simp add: require_assigned_def roster_units_def r)
  have lead: "lead_in_scope i ref x = (case dget (unit_leads u x) ref of None \<Rightarrow> Inl CrmNotFound | Some r \<Rightarrow> Inr r)"
    if "ci_unit i = u" "crm_ok x" for i ref x
    using that by (auto simp: lead_in_scope_def unit_leads_def crm_ok_def dget_filter split: option.splits)
  have quot: "read_quotation i ref x = bind_res (require_assigned i x) (\<lambda>_.
      case dget (unit_quotations u x) ref of None \<Rightarrow> Inl CrmNotFound | Some r \<Rightarrow> Inr r)"
    if "ci_unit i = u" "crm_ok x" for i ref x
    using that by (auto simp: read_quotation_def unit_quotations_def crm_ok_def dget_filter
        intro!: arg_cong2 [where f = bind_res] split: option.splits)
  have "search_leads q s = search_leads q t" "query_quotations q s = query_quotations q t"
    if q: "ci_unit (cq_identity q) = u" for q
  proof -
    have "search_hits q (map lead_item (dvals (fc_leads s))) = search_hits q (map lead_item (dvals (fc_leads t)))"
      "search_hits q (map quotation_item (dvals (fc_quotations s))) = search_hits q (map quotation_item (dvals (fc_quotations t)))"
      using v by (metis search_hits_unit(1) [OF q] unit_leads_def, metis search_hits_unit(2) [OF q] unit_quotations_def)
    then show "search_leads q s = search_leads q t" "query_quotations q s = query_quotations q t"
      by (simp_all add: search_leads_def query_quotations_def search_def a)
  qed
  moreover have "export q s = export q t" if "ci_unit (er_identity q) = u" for q
  proof -
    have "export_rows u m (dvals (fc_leads s)) [] = export_rows u m (dvals (fc_leads t)) []" for m
      using v(1) export_rows_unit unfolding unit_leads_def by metis
    then show ?thesis using that by (simp add: export_def a)
  qed
  moreover have "list_ex (\<lambda>r. lr_unit r = u \<and> Q r) (dvals (fc_leads x)) = list_ex Q (dvals (unit_leads u x))" for Q x
    unfolding unit_leads_def by (rule list_ex_unit)
  moreover have l: "read_lead i ref s = read_lead i ref t" if "ci_unit i = u" for i ref
    using that ok by (simp add: read_lead_def lead a v)
  have "fst (transfer_lead i ref owner unit s) = fst (transfer_lead i ref owner unit t)"
    "fst (archive_lead i ref s) = fst (archive_lead i ref t)" if "ci_unit i = u" for i ref owner unit
    using l [OF that] by (auto simp: transfer_lead_def archive_lead_def Let_def roster_units_def r split: sum.splits)
  moreover have "accepted (fst (create_lead c s)) = accepted (fst (create_lead c t))" for c
    by (auto simp: create_lead_def accepted_def Let_def a split: sum.splits)
  moreover have "accepted (fst (create_quotation c s)) = accepted (fst (create_quotation c t))"
    if "ci_unit (qc_identity c) = u" for c
    using that ok by (auto simp: create_quotation_def accepted_def Let_def a lead v split: sum.splits)
  ultimately show ?thesis
    using v ok by (simp add: same_answers_def l quot a check_conflict_def)
qed

text \<open>The units whose data an operation may change. A change of the roster is not confined to
  a unit.\<close>

fun op_touches :: "crm_op \<Rightarrow> str \<Rightarrow> bool" where
  "op_touches (CreateLead c) u = (u = ci_unit (lc_identity c))"
| "op_touches (TransferLead i ref owner unit) u = (u = ci_unit i \<or> unit = Some u)"
| "op_touches (ArchiveLead i ref) u = (u = ci_unit i)"
| "op_touches (CreateQuotation c) u = (u = ci_unit (qc_identity c))"
| "op_touches (Roster r) u = True"

lemma crm_step_view:
  assumes ok: "crm_ok s" and x: "\<not> op_touches x u"
  shows "unit_leads u (crm_step x s) = unit_leads u s" "unit_quotations u (crm_step x s) = unit_quotations u s"
    "fc_roster (crm_step x s) = fc_roster s"
proof -
  have "unit_leads u (crm_step x s) = unit_leads u s \<and> unit_quotations u (crm_step x s) = unit_quotations u s
    \<and> fc_roster (crm_step x s) = fc_roster s"
  proof (cases x)
    case (CreateLead c)
    then show ?thesis using crm_fresh(1) [OF ok] x
      by (auto simp: create_lead_def Let_def unit_leads_def unit_quotations_def intro!: filter_dput split: sum.splits)
  next
    case (CreateQuotation c)
    then show ?thesis using crm_fresh(2) [OF ok] x
      by (auto simp: create_quotation_def Let_def unit_leads_def unit_quotations_def intro!: filter_dput split: sum.splits)
  next
    case (TransferLead i ref owner unit)
    show ?thesis
    proof (cases "read_lead i ref s")
      case (Inr r)
      then have r: "dget (fc_leads s) ref = Some r" "lr_unit r = ci_unit i" by (simp_all add: scope_simps)
      then have "filter (\<lambda>(k, r). lr_unit r = u) (dput ref (r\<lparr>lr_unit := t, lr_owner := owner\<rparr>) (fc_leads s))
          = filter (\<lambda>(k, r). lr_unit r = u) (fc_leads s)" if "t \<noteq> u" for t
        using x TransferLead that by (intro filter_dput) auto
      then show ?thesis using Inr TransferLead x r(2)
        by (auto simp: transfer_lead_def Let_def unit_leads_def unit_quotations_def split: option.splits)
    qed (use TransferLead in \<open>simp add: transfer_lead_def\<close>)
  next
    case (ArchiveLead i ref)
    show ?thesis
    proof (cases "read_lead i ref s")
      case (Inr r)
      then have r: "dget (fc_leads s) ref = Some r" "lr_unit r = ci_unit i" by (simp_all add: scope_simps)
      then show ?thesis using Inr ArchiveLead x
        by (auto simp: archive_lead_def unit_leads_def unit_quotations_def intro!: filter_dput)
    qed (use ArchiveLead in \<open>simp add: archive_lead_def\<close>)
  qed (use x in simp)
  then show "unit_leads u (crm_step x s) = unit_leads u s" "unit_quotations u (crm_step x s) = unit_quotations u s"
    "fc_roster (crm_step x s) = fc_roster s" by simp_all
qed

lemma crm_run_view:
  "crm_ok s \<Longrightarrow> \<forall>x \<in> set ops. \<not> op_touches x u \<Longrightarrow>
   unit_leads u (crm_run ops s) = unit_leads u s \<and> unit_quotations u (crm_run ops s) = unit_quotations u s
   \<and> fc_roster (crm_run ops s) = fc_roster s"
proof (induction ops arbitrary: s)
  case (Cons x ops)
  then have "unit_leads u (crm_run ops (crm_step x s)) = unit_leads u (crm_step x s)
    \<and> unit_quotations u (crm_run ops (crm_step x s)) = unit_quotations u (crm_step x s)
    \<and> fc_roster (crm_run ops (crm_step x s)) = fc_roster (crm_step x s)"
    using crm_step_ok by (intro Cons.IH) auto
  then show ?case using crm_step_view [OF Cons.prems(1), of x u] Cons.prems(2) by (simp add: crm_run_def)
qed (simp add: crm_run_def)

text \<open>C37. Units do not see each other: whatever actors do under the contexts of other units
  (create, archive and quote there, move leads between other units; transfers into this unit
  and changes of the roster are excluded), every request under this unit's context is
  answered as before: reading a lead or a quotation by any reference, every page of every
  search, exports, conflict checks, transfers and archivings get the same value or the same
  refusal, and creations of leads and quotations are accepted or refused alike. Only the
  number in the reference of a new record may differ, since it is counted over all units
  (\<open>numbers_count_others\<close>).\<close>

theorem crm_isolation:
  assumes "\<forall>x \<in> set ops. \<not> op_touches x u"
  shows "same_answers u (crm_run ops (crm_run before (new_crm roster))) (crm_run before (new_crm roster))"
proof -
  have ok: "crm_ok (crm_run before (new_crm roster))" by (intro crm_run_ok crm_new_ok)
  show ?thesis
    using crm_run_view [OF ok assms] by (intro answers_of_view crm_run_ok ok) auto
qed

section \<open>Pagination\<close>

text \<open>A client that follows the cursors, with a bound on the number of pages.\<close>

fun all_pages :: "(crm_query \<Rightarrow> crm_page res) \<Rightarrow> crm_query \<Rightarrow> nat \<Rightarrow> str list res option" where
  "all_pages f q 0 = None"
| "all_pages f q (Suc n) = (case f q of
     Inl e \<Rightarrow> Some (Inl e)
   | Inr p \<Rightarrow> (case cp_next p of
        None \<Rightarrow> Some (Inr (cp_references p))
      | Some c \<Rightarrow> (case all_pages f (q\<lparr>cq_cursor := Some c\<rparr>) n of
            Some (Inr refs) \<Rightarrow> Some (Inr (cp_references p @ refs))
          | r \<Rightarrow> r)))"

lemma length_nat_str: "0 < k \<Longrightarrow> n < 10 ^ k \<Longrightarrow> length (nat_str n) \<le> k"
proof (induction n arbitrary: k rule: nat_str.induct)
  case (1 n)
  show ?case
  proof (cases "n < 10")
    case True
    then show ?thesis using "1.prems" by (subst nat_str.simps) simp
  next
    case False
    with "1.prems" obtain j where j: "k = Suc j" "0 < j" by (cases k; cases "k - 1") auto
    then have "n div 10 < 10 ^ j" using "1.prems" by (simp add: less_mult_imp_div_less mult.commute)
    then show ?thesis using False "1.IH" [OF False j(2)] j by (subst nat_str.simps) simp
  qed
qed

lemma max_int_digits_pos: "0 < max_int_digits"
  by (simp add: max_int_digits_def)

lemma cursor_roundtrip:
  assumes "CHR '':'' \<notin> set u" "n < 10 ^ max_int_digits" "ci_unit (cq_identity q) = u"
  shows "cursor_offset (q\<lparr>cq_cursor := Some (cursor_text u n)\<rparr>) = Inr n"
proof -
  have "takeWhile (\<lambda>d. d \<noteq> CHR '':'') (cursor_text u n) = u"
    "dropWhile (\<lambda>d. d \<noteq> CHR '':'') (cursor_text u n) = CHR '':'' # nat_str n"
    using assms(1) by (auto simp: cursor_text_def takeWhile_append dropWhile_append)
  moreover have "list_all is_digit (nat_str n)" by (auto simp: list_all_iff dest: nat_str_digits)
  moreover have "py_isdigit (nat_str n)" by (auto simp: py_isdigit_def list_all_iff dest: nat_str_digits)
  moreover have "length (nat_str n) \<le> max_int_digits" by (rule length_nat_str [OF max_int_digits_pos assms(2)])
  ultimately show ?thesis using assms(3) by (simp add: cursor_offset_def parse_digits_def Let_def)
qed

lemma all_pages_from:
  assumes "require_assigned (cq_identity q) s = Inr ()" "1 \<le> cq_limit q" "CHR '':'' \<notin> set (ci_unit (cq_identity q))"
    "length (search_hits q items) < 10 ^ max_int_digits" "cursor_offset q = Inr k" "length (search_hits q items) \<le> k + n"
  shows "all_pages (\<lambda>q. search kind items q s) q (Suc n) = Some (Inr (map si_reference (drop k (search_hits q items))))"
  using assms(5,6,1-4)
proof (induction n arbitrary: k q)
  case 0
  then show ?case by (auto simp: search_def Let_def)
next
  case (Suc n)
  let ?hits = "search_hits q items" and ?l = "nat (cq_limit q)" and ?u = "ci_unit (cq_identity q)"
  let ?q = "q\<lparr>cq_cursor := Some (cursor_text ?u (k + ?l))\<rparr>"
  have page: "search kind items q s = Inr \<lparr>cp_kind = kind, cp_references = map si_reference (take ?l (drop k ?hits)),
      cp_scoped = True, cp_total = length ?hits,
      cp_next = (if k + ?l < length ?hits then Some (cursor_text ?u (k + ?l)) else None)\<rparr>"
    using Suc.prems by (simp add: search_def Let_def)
  show ?case
  proof (cases "k + ?l < length ?hits")
    case True
    have hits: "search_hits ?q items = ?hits" by (simp add: search_hits_def)
    have "k + ?l < 10 ^ max_int_digits" using True Suc.prems(6) by (rule order_less_trans)
    then have "cursor_offset ?q = Inr (k + ?l)" using Suc.prems(5) by (intro cursor_roundtrip) simp_all
    moreover have "length (search_hits ?q items) \<le> k + ?l + n" using Suc.prems(2,4) hits by simp
    moreover have "require_assigned (cq_identity ?q) s = Inr ()" "1 \<le> cq_limit ?q"
      "CHR '':'' \<notin> set (ci_unit (cq_identity ?q))" "length (search_hits ?q items) < 10 ^ max_int_digits"
      using Suc.prems hits by simp_all
    ultimately have "all_pages (\<lambda>q. search kind items q s) ?q (Suc n)
        = Some (Inr (map si_reference (drop (k + ?l) (search_hits ?q items))))"
      by (rule Suc.IH)
    then have rest: "all_pages (\<lambda>q. search kind items q s) ?q (Suc n)
        = Some (Inr (map si_reference (drop (k + ?l) ?hits)))" unfolding hits .
    have split: "take ?l (drop k ?hits) @ drop (k + ?l) ?hits = drop k ?hits"
      by (metis append_take_drop_id drop_drop add.commute)
    show ?thesis
      unfolding all_pages.simps(2) [of _ q] page using True rest split by (simp flip: map_append)
  next
    case False
    then show ?thesis by (simp add: page)
  qed
qed

text \<open>C40. Following the cursors of a search ends and misses nothing: with any limit of at
  least one, at most one page more than there are hits is needed, and the pages together list
  exactly the records of the unit that pass the filters, each once and in order.\<close>

theorem pages_complete:
  assumes "ci_unit (cq_identity q) \<in> roster_units s (ci_actor (cq_identity q))" "1 \<le> cq_limit q" "cq_cursor q = None"
    "CHR '':'' \<notin> set (ci_unit (cq_identity q))" "length (fc_leads s) < 10 ^ max_int_digits"
  shows "all_pages (\<lambda>q. search_leads q s) q (Suc (length (fc_leads s)))
    = Some (Inr (map si_reference (search_hits q (map lead_item (dvals (fc_leads s))))))"
proof -
  let ?items = "map lead_item (dvals (fc_leads s))"
  have "length (search_hits q ?items) \<le> length (fc_leads s)"
    unfolding search_hits_def by (rule order_trans [OF length_filter_le]) (simp add: dvals_def)
  moreover have "cursor_offset q = Inr 0" using assms(3) by (simp add: cursor_offset_def)
  ultimately show ?thesis
    using all_pages_from [of q s ?items 0 "length (fc_leads s)" "''LEAD''"] assms
    by (simp add: search_leads_def [abs_def] scope_simps order_le_less_trans)
qed

section \<open>Examples\<close>

definition demo_crm_id :: "str \<Rightarrow> crm_identity" where
  "demo_crm_id u = \<lparr>ci_actor = ''USR-'' @ u, ci_unit = u\<rparr>"

definition demo_lead :: "str \<Rightarrow> str \<Rightarrow> crm_op" where
  "demo_lead u n = CreateLead \<lparr>lc_identity = demo_crm_id u, lc_name = n, lc_channel = ''PHONE'', lc_handle = n, lc_source = ''ORGANIC''\<rparr>"

definition demo_roster :: "(str, str set) dict" where
  "demo_roster = [(''USR-A'', {''A''}), (''USR-B'', {''B''})]"

definition demo_crm :: fixture_crm where
  "demo_crm = crm_run [demo_lead ''A'' ''Ann'', demo_lead ''A'' ''Bob''] (new_crm demo_roster)"

definition demo_query :: "str option \<Rightarrow> crm_query" where
  "demo_query c = \<lparr>cq_identity = demo_crm_id ''A'', cq_text = None, cq_status = Some ''NEW'', cq_limit = 1, cq_cursor = c\<rparr>"

theorem crm_isolation_witness:
  "same_answers ''A'' (crm_run [demo_lead ''B'' ''Ann'', ArchiveLead (demo_crm_id ''B'') ''LEAD-0001''] demo_crm) demo_crm"
  unfolding demo_crm_def by (rule crm_isolation) (simp add: demo_lead_def demo_crm_id_def)

theorem pages_complete_witness:
  "all_pages (\<lambda>q. search_leads q demo_crm) (demo_query None) 3 = Some (Inr [''LEAD-0001'', ''LEAD-0002''])"
proof -
  have l: "length (fc_leads demo_crm) = 2" "roster_units demo_crm ''USR-A'' = {''A''}" by code_simp+
  have "(2::nat) < 10 ^ max_int_digits"
    using self_le_power [OF _ max_int_digits_pos, of "10::nat"] by simp
  then have "all_pages (\<lambda>q. search_leads q demo_crm) (demo_query None) 3
      = Some (Inr (map si_reference (search_hits (demo_query None) (map lead_item (dvals (fc_leads demo_crm))))))"
    using pages_complete [of "demo_query None" demo_crm] l
    by (simp add: demo_query_def demo_crm_id_def numeral_eq_Suc)
  moreover have "map si_reference (search_hits (demo_query None) (map lead_item (dvals (fc_leads demo_crm))))
      = [''LEAD-0001'', ''LEAD-0002'']" by code_simp
  ultimately show ?thesis by simp
qed

text \<open>A cursor with a superscript digit passes the test for digits and makes the conversion raise;
  and the numbers of a unit's own records count the records of the others.\<close>

lemma cursor_value_error:
  "search_leads (demo_query (Some [CHR ''A'', CHR '':'', CHR 0xB2])) demo_crm = Inl ValueError"
  by code_simp

lemma numbers_count_others:
  "fst (create_lead \<lparr>lc_identity = demo_crm_id ''A'', lc_name = ''C'', lc_channel = [], lc_handle = [], lc_source = []\<rparr>
      (crm_run [demo_lead ''B'' ''X''] demo_crm)) = Inr ''LEAD-0004''"
  by code_simp

end
