(* ===== verification/Isolation.thy ===== *)
theory Isolation
  imports Values
begin

text \<open>
  The gateway-only isolation policy (\<^verbatim>\<open>src/isolation_architecture\<close>): the classes of roles,
  the admission matrix, the guard on native credentials, and the pinned configuration with its
  hash. Of the verdict writer the checks and the payload are modelled, not the file.
\<close>

section \<open>Roles and surfaces\<close>

datatype role_class = UnitScoped | Operator | OwnerController

datatype surface =
    NativeDesk | NativeApi | NativeFiles | NativeReports | GatewayErp | GatewayCrm | GatewayReports

datatype decision = Allow | Deny

text \<open>\<^verbatim>\<open>[A-Za-z][A-Za-z0-9 _-]{0,63}\<close>.\<close>

definition role_pattern :: "str \<Rightarrow> bool" where
  "role_pattern s = (case s of [] \<Rightarrow> False
     | c # cs \<Rightarrow> (is_upper c \<or> is_lower c) \<and> length cs \<le> 63
         \<and> list_all (\<lambda>d. is_upper d \<or> is_lower d \<or> is_digit d \<or> d \<in> {CHR '' '', CHR ''_'', CHR ''-''}) cs)"

definition role_classes :: "(str, role_class) dict" where
  "role_classes =
    [(''Sales User'', UnitScoped), (''Sales Manager'', UnitScoped), (''Support User'', UnitScoped),
     (''Operator'', Operator), (''System Manager'', Operator), (''Owner'', OwnerController),
     (''Controller'', OwnerController)]"

definition admission_matrix :: "(role_class \<times> surface, decision) dict" where
  "admission_matrix =
    [((UnitScoped, NativeDesk), Deny), ((UnitScoped, NativeApi), Deny), ((UnitScoped, NativeFiles), Deny),
     ((UnitScoped, NativeReports), Deny), ((UnitScoped, GatewayErp), Allow), ((UnitScoped, GatewayCrm), Allow),
     ((UnitScoped, GatewayReports), Deny),
     ((Operator, NativeDesk), Allow), ((Operator, NativeApi), Allow), ((Operator, NativeFiles), Allow),
     ((Operator, NativeReports), Allow), ((Operator, GatewayErp), Allow), ((Operator, GatewayCrm), Allow),
     ((Operator, GatewayReports), Deny),
     ((OwnerController, NativeDesk), Deny), ((OwnerController, NativeApi), Deny), ((OwnerController, NativeFiles), Deny),
     ((OwnerController, NativeReports), Deny), ((OwnerController, GatewayErp), Allow), ((OwnerController, GatewayCrm), Allow),
     ((OwnerController, GatewayReports), Allow)]"

definition classify_role :: "str \<Rightarrow> role_class res" where
  "classify_role role =
    (let r = strip role in
     ensure IsolationDenied (r \<noteq> [] \<and> role_pattern r) (
     case dget role_classes r of None \<Rightarrow> Inl IsolationDenied | Some c \<Rightarrow> Inr c))"

definition admit :: "str \<Rightarrow> surface \<Rightarrow> decision res" where
  "admit role s = bind_res (classify_role role) (\<lambda>c.
     case dget admission_matrix (c, s) of None \<Rightarrow> Inl IsolationDenied | Some d \<Rightarrow> Inr d)"

definition require_gateway_only :: "str \<Rightarrow> surface \<Rightarrow> unit res" where
  "require_gateway_only role s = bind_res (admit role s) (\<lambda>d. ensure IsolationDenied (d = Allow) (Inr ()))"

definition issue_native_credential :: "str \<Rightarrow> str \<Rightarrow> unit res" where
  "issue_native_credential role username = bind_res (classify_role role) (\<lambda>c.
     ensure IsolationDenied (c \<noteq> UnitScoped) (
     ensure IsolationDenied (username \<noteq> [] \<and> strip username \<noteq> []) (Inr ())))"

section \<open>The pinned configuration\<close>

record arch_config =
  ac_erpnext :: str
  ac_frappe :: str
  ac_base_url :: str
  ac_site :: str
  ac_roles :: "str list"
  ac_modules :: "str list"

definition config_sha256 :: "libs \<Rightarrow> arch_config \<Rightarrow> str" where
  "config_sha256 L c = l_sha256 L (dumps_default
    [(''erpnext_version'', JStr (ac_erpnext c)), (''frappe_version'', JStr (ac_frappe c)),
     (''base_url'', JStr (ac_base_url c)), (''site_name'', JStr (ac_site c)),
     (''unit_scoped_roles'', JArr (map JStr (sort (ac_roles c)))),
     (''gateway_modules'', JArr (map JStr (sort (ac_modules c))))])"

text \<open>\<^verbatim>\<open>os.environ.get(name, default)\<close>.\<close>

definition final_config :: "(str, str) dict \<Rightarrow> arch_config" where
  "final_config env = \<lparr>ac_erpnext = ''16.32.1'', ac_frappe = ''16.31.0'',
     ac_base_url = (case dget env ''ERPNEXT_URL'' of None \<Rightarrow> ''http://127.0.0.1:18080'' | Some u \<Rightarrow> u),
     ac_site = (case dget env ''ERPNEXT_SITE'' of None \<Rightarrow> ''erpnext-pilot.localhost'' | Some u \<Rightarrow> u),
     ac_roles = [''Sales User'', ''Sales Manager'', ''Support User''],
     ac_modules = [''src.adapters.erpnext'', ''src.adapters.erpnext_crm'', ''src.crm.port'', ''src.reports.owner'']\<rparr>"

definition verdict_payload ::
  "libs \<Rightarrow> str \<Rightarrow> arch_config \<Rightarrow> (str, json) dict \<Rightarrow> str list \<Rightarrow> str \<Rightarrow> datetime \<Rightarrow> (str, json) dict res" where
  "verdict_payload L verdict c summary findings run_id now =
    ensure ValueError (verdict \<in> {''PASS'', ''FAIL''}) (
    ensure ValueError (run_id \<noteq> [] \<and> strip run_id \<noteq> []) (
    Inr [(''schema_version'', JInt 1), (''verdict'', JStr verdict), (''run_id'', JStr run_id),
      (''generated_at'', JStr (l_iso L now)), (''config_sha256'', JStr (config_sha256 L c)),
      (''config'', JObj [(''erpnext_version'', JStr (ac_erpnext c)), (''frappe_version'', JStr (ac_frappe c)),
         (''base_url'', JStr (ac_base_url c)), (''site_name'', JStr (ac_site c))]),
      (''matrix_summary'', JObj summary), (''findings'', JArr (map JStr findings))]))"

section \<open>What the policy guarantees\<close>

definition native :: "surface \<Rightarrow> bool" where
  "native s = (s \<in> {NativeDesk, NativeApi, NativeFiles, NativeReports})"

lemma matrix_spec:
  "dget admission_matrix (c, s) = Some (if native s then (if c = Operator then Allow else Deny)
     else if s = GatewayReports then (if c = OwnerController then Allow else Deny) else Allow)"
  by (cases c; cases s) (simp_all add: admission_matrix_def native_def)

lemma classify_listed: "classify_role r = Inr c \<longleftrightarrow> (strip r, c) \<in> set role_classes"
proof -
  have ok: "dict_ok role_classes" by (simp add: dict_ok_def role_classes_def)
  have pat: "k \<noteq> [] \<and> role_pattern k" if "(k, c) \<in> set role_classes" for k
    using that by (auto simp: role_classes_def role_pattern_def is_upper_def is_lower_def)
  show ?thesis
  proof
    assume "classify_role r = Inr c"
    then show "(strip r, c) \<in> set role_classes"
      by (auto simp: classify_role_def Let_def dict_ok_get [OF ok] split: option.splits)
  next
    assume a: "(strip r, c) \<in> set role_classes"
    then show "classify_role r = Inr c"
      using pat [OF a] a by (simp add: classify_role_def Let_def dict_ok_get [OF ok])
  qed
qed

text \<open>The admission policy: a listed role, up to surrounding blanks and no other spelling,
  is decided, everything else raises and is admitted nowhere; native surfaces are admitted for
  operators only, the roll-up reports for owners and controllers only, the two gateway ports
  for every listed role; a unit-scoped role is never issued a native credential. Whether a role
  is decided does not depend on the surface.\<close>

theorem admission_policy:
  "(admit role s = Inr Allow \<longleftrightarrow> (\<exists>c. (strip role, c) \<in> set role_classes
       \<and> (native s \<longrightarrow> c = Operator) \<and> (s = GatewayReports \<longrightarrow> c = OwnerController)))
   \<and> (admit role s = Inl IsolationDenied \<longleftrightarrow> strip role \<notin> fst ` set role_classes)
   \<and> (require_gateway_only role s = (if admit role s = Inr Allow then Inr () else Inl IsolationDenied))
   \<and> (issue_native_credential role user = (if (\<exists>c. (strip role, c) \<in> set role_classes \<and> c \<noteq> UnitScoped)
          \<and> \<not> list_all is_space user then Inr () else Inl IsolationDenied))"
proof (cases "\<exists>c. (strip role, c) \<in> set role_classes")
  case True
  then obtain c where c: "(strip role, c) \<in> set role_classes" by blast
  have ok: "dict_ok role_classes" by (simp add: dict_ok_def role_classes_def)
  then have uniq: "(strip role, d) \<in> set role_classes \<longleftrightarrow> d = c" for d
    using c by (auto simp: dict_ok_get)
  have cl: "classify_role role = Inr c" using c by (simp add: classify_listed)
  have mem: "strip role \<in> fst ` set role_classes" using c by force
  show ?thesis
    unfolding uniq using mem
    by (auto simp: admit_def cl matrix_spec native_def require_gateway_only_def issue_native_credential_def
        ensure_def strip_Nil_iff list_all_iff)
next
  case False
  then have "classify_role role \<noteq> Inr c" for c by (simp add: classify_listed)
  then have cl: "classify_role role = Inl IsolationDenied"
    by (cases "classify_role role") (auto simp: classify_role_def Let_def ensure_def split: option.splits if_splits)
  have "strip role \<notin> fst ` set role_classes" using False by force
  then show ?thesis using False
    by (simp add: admit_def cl require_gateway_only_def issue_native_credential_def)
qed

theorem admission_policy_witness:
  "admit '' Owner '' GatewayReports = Inr Allow \<and> admit ''owner'' GatewayReports = Inl IsolationDenied
   \<and> issue_native_credential ''Sales User'' ''u'' = Inl IsolationDenied"
proof -
  have "strip '' Owner '' = ''Owner''" "strip ''owner'' = ''owner''" "strip ''Sales User'' = ''Sales User''"
    by (simp_all add: strip_def is_space_def Let_def)
  then show ?thesis
    using admission_policy [of "'' Owner ''" GatewayReports "''u''"] admission_policy [of "''owner''" GatewayReports "''u''"]
      admission_policy [of "''Sales User''" GatewayErp "''u''"]
    by (auto simp: role_classes_def native_def)
qed

text \<open>A native credential may be issued to an owner, to whom every native surface is denied.\<close>

lemma owner_credential:
  "issue_native_credential ''Owner'' ''u'' = Inr () \<and> (\<forall>s. native s \<longrightarrow> admit ''Owner'' s = Inr Deny)"
proof -
  have s: "strip ''Owner'' = ''Owner''" "strip ''u'' = ''u''" by (simp_all add: strip_def is_space_def Let_def)
  have "classify_role ''Owner'' = Inr OwnerController" by (simp add: classify_listed s role_classes_def)
  then show ?thesis by (simp add: issue_native_credential_def admit_def matrix_spec s)
qed

end
