(* ===== verification/Reports.thy ===== *)
theory Reports
  imports Authz FixtureErp
begin

text \<open>
  The read models over the provider port: the receivables aging report
  (\<^verbatim>\<open>src/reports/receivables/aging.py\<close>) and the owner's roll-up over several units
  (\<^verbatim>\<open>src/reports/owner/roll_up.py\<close>). The provider is a port on a world \<^typ>\<open>'w\<close>, and a
  report returns its result, the log of denials and the world. The type checks on the
  assignments hold by typing. The machine's time zone, which \<^verbatim>\<open>astimezone\<close> applies to a naive
  datetime, is the argument \<open>tz\<close>. A record's amounts are canonical decimal texts by the
  contract of the port; other texts are read as an error.
\<close>

section \<open>Shared parts\<close>

record denial_event =
  de_action :: str
  de_actor :: str
  de_code :: str
  de_at :: str

definition utc_text :: "libs \<Rightarrow> (int \<Rightarrow> int) \<Rightarrow> datetime \<Rightarrow> str" where
  "utc_text L tz t = l_iso L (Aware (case t of Aware u _ \<Rightarrow> u | Naive l \<Rightarrow> tz l) 0)"

definition authorize_read ::
  "str \<Rightarrow> str \<Rightarrow> str \<Rightarrow> identity_binding option \<Rightarrow> assignment list \<Rightarrow> str option \<Rightarrow> datetime \<Rightarrow> unit res" where
  "authorize_read actor channel action binding as unit at =
    (case bind_res (mk_request \<lparr>aq_actor = actor, aq_channel = channel, aq_action = action, aq_unit = unit,
              aq_at = Some at, aq_revision = None, aq_preview = None\<rparr>)
            (\<lambda>r. authorize r binding as) of
       Inl e \<Rightarrow> Inl (if e = TypeError \<or> is_value_error e then WorkflowDenied ''INVALID_INPUT'' else e)
     | Inr d \<Rightarrow> if ad_allowed d then Inr () else Inl (WorkflowDenied (ad_code d)))"

definition blocked_if_provider :: "exn \<Rightarrow> exn" where
  "blocked_if_provider e = (if is_provider_error e then WorkflowBlocked else e)"

definition read_amount :: "str \<Rightarrow> decimal res" where
  "read_amount s = (if decimal_text s then Inr (dec_of_text s) else Inl ValueError)"

section \<open>The aging report\<close>

record receivable_entry =
  re_invoice :: str
  re_unit :: str
  re_customer :: json
  re_currency :: str
  re_total :: str
  re_open :: str
  re_status :: str

record aging_result =
  ag_entries :: "receivable_entry list"
  ag_total :: str
  ag_currency :: "str option"
  ag_scoped :: bool

definition log_denied ::
  "libs \<Rightarrow> (int \<Rightarrow> int) \<Rightarrow> str \<Rightarrow> datetime \<Rightarrow> str \<Rightarrow> denial_event list \<Rightarrow> denial_event list" where
  "log_denied L tz actor at code log =
    log @ [\<lparr>de_action = ''query_aging'', de_actor = actor, de_code = code, de_at = utc_text L tz at\<rparr>]"

definition receivable_status :: "decimal \<Rightarrow> decimal \<Rightarrow> str" where
  "receivable_status tot open_amount =
    (if deq open_amount dzero then ''PAID'' else if dlt open_amount tot then ''PARTIALLY_PAID'' else ''OPEN'')"

text \<open>The loop over the references of one unit, on entries, total and currency so far.\<close>

fun aging_refs ::
  "'w erp_port \<Rightarrow> str \<Rightarrow> str list \<Rightarrow> receivable_entry list \<times> decimal \<times> str option \<Rightarrow> 'w
   \<Rightarrow> (receivable_entry list \<times> decimal \<times> str option) res \<times> 'w" where
  "aging_refs P u [] acc w = (Inr acc, w)"
| "aging_refs P u (ref # refs) acc w =
    (case port_read P ref w of
       (Inl e, w') \<Rightarrow> (Inl (blocked_if_provider e), w')
     | (Inr r, w') \<Rightarrow>
        (case read_amount (ir_open r) of Inl e \<Rightarrow> (Inl e, w') | Inr opn \<Rightarrow>
         if dle opn dzero then aging_refs P u refs acc w'
         else (case read_amount (ir_total r) of Inl e \<Rightarrow> (Inl e, w') | Inr tot \<Rightarrow>
           aging_refs P u refs
             (case acc of (es, t, c) \<Rightarrow>
               (es @ [\<lparr>re_invoice = ir_reference r, re_unit = u,
                  re_customer = (case dget (ir_payload r) ''customer_ref'' of None \<Rightarrow> JStr [] | Some v \<Rightarrow> v),
                  re_currency = ir_currency r, re_total = ir_total r, re_open = ir_open r,
                  re_status = receivable_status tot opn\<rparr>], dadd t opn, Some (ir_currency r))) w')))"

fun aging_units ::
  "'w erp_port \<Rightarrow> str option \<Rightarrow> str list \<Rightarrow> receivable_entry list \<times> decimal \<times> str option \<Rightarrow> 'w
   \<Rightarrow> (receivable_entry list \<times> decimal \<times> str option) res \<times> 'w" where
  "aging_units P customer [] acc w = (Inr acc, w)"
| "aging_units P customer (u # us) acc w =
    (case port_query P (Some ''POSTED'') (Some u) customer w of
       (Inl e, w') \<Rightarrow> (Inl (blocked_if_provider e), w')
     | (Inr q, w') \<Rightarrow>
        (case aging_refs P u (qr_references q) acc w' of
           (Inl e, w'') \<Rightarrow> (Inl e, w'')
         | (Inr acc', w'') \<Rightarrow> aging_units P customer us acc' w''))"

definition scope_units :: "str \<Rightarrow> assignment list \<Rightarrow> str list" where
  "scope_units actor as = sort (remdups (map as_unit (filter (\<lambda>a. as_actor a = actor \<and> as_active a) as)))"

definition target_units :: "str option \<Rightarrow> str \<Rightarrow> assignment list \<Rightarrow> str list" where
  "target_units unit actor as = (case unit of None \<Rightarrow> scope_units actor as
     | Some u \<Rightarrow> if u \<in> set (scope_units actor as) then [u] else [])"

definition query_aging ::
  "libs \<Rightarrow> (int \<Rightarrow> int) \<Rightarrow> 'w erp_port \<Rightarrow> str \<Rightarrow> datetime \<Rightarrow> identity_binding option \<Rightarrow> assignment list \<Rightarrow> str
   \<Rightarrow> str option \<Rightarrow> str option \<Rightarrow> denial_event list \<Rightarrow> 'w \<Rightarrow> aging_result res \<times> denial_event list \<times> 'w" where
  "query_aging L tz P actor at binding as channel unit customer log w =
    (case target_units unit actor as of
       [] \<Rightarrow> (Inl (WorkflowDenied ''PERMISSION_DENIED''), log_denied L tz actor at ''PERMISSION_DENIED'' log, w)
     | u # us \<Rightarrow>
        (case authorize_read actor channel ''QUERY_RECEIVABLE'' binding as (Some u) at of
           Inl e \<Rightarrow> (Inl e, (case e of WorkflowDenied code \<Rightarrow> log_denied L tz actor at code log | _ \<Rightarrow> log), w)
         | Inr _ \<Rightarrow>
            (case aging_units P customer (u # us) ([], dzero, None) w of
               (Inl e, w') \<Rightarrow> (Inl e, log, w')
             | (Inr (es, t, c), w') \<Rightarrow>
                (Inr \<lparr>ag_entries = es, ag_total = format_f t, ag_currency = c, ag_scoped = True\<rparr>, log, w'))))"

section \<open>The owner's roll-up\<close>

record currency_subtotal =
  cs_currency :: str
  cs_total :: str
  cs_count :: nat

record unit_subtotal =
  ut_unit :: str
  ut_total :: str
  ut_currency :: "str option"
  ut_count :: nat
  ut_refs :: "str list"
  ut_per_currency :: "currency_subtotal list"
  ut_as_of :: str

record rollup_result =
  ro_units :: "unit_subtotal list"
  ro_total :: "str option"
  ro_currency :: "str option"
  ro_as_of :: str
  ro_scoped :: bool

definition log_rollup_denied ::
  "libs \<Rightarrow> str \<Rightarrow> datetime \<Rightarrow> str \<Rightarrow> denial_event list \<Rightarrow> denial_event list" where
  "log_rollup_denied L actor at code log =
    log @ [\<lparr>de_action = ''query_rollup'', de_actor = actor, de_code = code,
            de_at = (if is_aware at then utc_text L id at else ''INVALID_AT'')\<rparr>]"

text \<open>One assignment of the scope; \<open>at\<close> is aware, the other dates become so by conversion.\<close>

definition owner_in_scope :: "(int \<Rightarrow> int) \<Rightarrow> str \<Rightarrow> datetime \<Rightarrow> assignment \<Rightarrow> bool" where
  "owner_in_scope tz actor at a =
    (let utc = (\<lambda>t. case t of Aware u _ \<Rightarrow> u | Naive l \<Rightarrow> tz l) in
     as_actor a = actor \<and> as_active a \<and> ''OWNER'' \<in> set (as_roles a)
     \<and> (case as_from a of None \<Rightarrow> True | Some f \<Rightarrow> \<not> utc_us at < utc f)
     \<and> (case as_until a of None \<Rightarrow> True | Some u \<Rightarrow> utc_us at < utc u))"

definition active_owner_units :: "(int \<Rightarrow> int) \<Rightarrow> str \<Rightarrow> datetime \<Rightarrow> assignment list \<Rightarrow> str list" where
  "active_owner_units tz actor at as = sort (remdups (map as_unit (filter (owner_in_scope tz actor at) as)))"

definition authorize_unit ::
  "str \<Rightarrow> str \<Rightarrow> identity_binding option \<Rightarrow> assignment list \<Rightarrow> str \<Rightarrow> datetime \<Rightarrow> unit res" where
  "authorize_unit actor channel binding as unit at =
    authorize_read actor channel ''QUERY_RECEIVABLE'' binding as (Some unit) at"

text \<open>The loop over the references: the references that count, and per currency the open
  amount and the number of invoices.\<close>

fun subtotal_refs ::
  "'w erp_port \<Rightarrow> str list \<Rightarrow> str list \<times> (str, decimal) dict \<times> (str, nat) dict \<Rightarrow> 'w
   \<Rightarrow> (str list \<times> (str, decimal) dict \<times> (str, nat) dict) res \<times> 'w" where
  "subtotal_refs P [] acc w = (Inr acc, w)"
| "subtotal_refs P (ref # refs) acc w =
    (case port_read P ref w of
       (Inl e, w') \<Rightarrow> (Inl (blocked_if_provider e), w')
     | (Inr r, w') \<Rightarrow>
        (case read_amount (ir_open r) of Inl e \<Rightarrow> (Inl e, w') | Inr opn \<Rightarrow>
         if dle opn dzero then subtotal_refs P refs acc w'
         else subtotal_refs P refs
           (case acc of (is, am, ct) \<Rightarrow>
             (is @ [ir_reference r],
              dput (ir_currency r) (dadd (case dget am (ir_currency r) of None \<Rightarrow> dzero | Some x \<Rightarrow> x) opn) am,
              dput (ir_currency r) (Suc (case dget ct (ir_currency r) of None \<Rightarrow> 0 | Some n \<Rightarrow> n)) ct)) w'))"

definition per_currency :: "(str, decimal) dict \<Rightarrow> (str, nat) dict \<Rightarrow> currency_subtotal list" where
  "per_currency am ct = map (\<lambda>(c, x). \<lparr>cs_currency = c, cs_total = format_f x,
     cs_count = (case dget ct c of None \<Rightarrow> 0 | Some n \<Rightarrow> n)\<rparr>) (sort_key fst am)"

definition read_unit_subtotal ::
  "libs \<Rightarrow> 'w erp_port \<Rightarrow> str \<Rightarrow> str option \<Rightarrow> datetime \<Rightarrow> 'w \<Rightarrow> unit_subtotal res \<times> 'w" where
  "read_unit_subtotal L P unit customer at w =
    (case port_query P (Some ''POSTED'') (Some unit) customer w of
       (Inl e, w') \<Rightarrow> (Inl (blocked_if_provider e), w')
     | (Inr q, w') \<Rightarrow>
        (case subtotal_refs P (qr_references q) ([], [], []) w' of
           (Inl e, w'') \<Rightarrow> (Inl e, w'')
         | (Inr (is, am, ct), w'') \<Rightarrow>
            let pc = per_currency am ct in
            (Inr \<lparr>ut_unit = unit, ut_total = format_f (foldl dadd dzero (dvals am)),
               ut_currency = (case pc of [c] \<Rightarrow> Some (cs_currency c) | _ \<Rightarrow> None),
               ut_count = length is, ut_refs = is, ut_per_currency = pc, ut_as_of = utc_text L id at\<rparr>, w'')))"

fun rollup_units ::
  "libs \<Rightarrow> 'w erp_port \<Rightarrow> str \<Rightarrow> str \<Rightarrow> identity_binding option \<Rightarrow> assignment list \<Rightarrow> str option \<Rightarrow> datetime
   \<Rightarrow> str list \<Rightarrow> denial_event list \<Rightarrow> 'w \<Rightarrow> unit_subtotal list res \<times> denial_event list \<times> 'w" where
  "rollup_units L P actor channel binding as customer at [] log w = (Inr [], log, w)"
| "rollup_units L P actor channel binding as customer at (u # us) log w =
    (case authorize_unit actor channel binding as u at of
       Inl e \<Rightarrow> (Inl e, (case e of WorkflowDenied code \<Rightarrow> log_rollup_denied L actor at code log | _ \<Rightarrow> log), w)
     | Inr _ \<Rightarrow>
        (case read_unit_subtotal L P u customer at w of
           (Inl e, w') \<Rightarrow> (Inl e, log, w')
         | (Inr s, w') \<Rightarrow>
            (case rollup_units L P actor channel binding as customer at us log w' of
               (Inl e, log', w'') \<Rightarrow> (Inl e, log', w'')
             | (Inr ss, log', w'') \<Rightarrow> (Inr (s # ss), log', w''))))"

text \<open>The headline: only when the units together have one currency.\<close>

definition headline :: "unit_subtotal list \<Rightarrow> (str option \<times> str option) res" where
  "headline us =
    (case remdups (concat (map (\<lambda>u. map cs_currency (ut_per_currency u)) us)) of
       [] \<Rightarrow> Inr (Some ''0'', None)
     | [c] \<Rightarrow> bind_res (map_res (\<lambda>u. read_amount (ut_total u)) us)
                (\<lambda>xs. Inr (Some (format_f (foldl dadd dzero xs)), Some c))
     | _ \<Rightarrow> Inr (None, None))"

definition query_rollup ::
  "libs \<Rightarrow> (int \<Rightarrow> int) \<Rightarrow> 'w erp_port \<Rightarrow> str \<Rightarrow> datetime \<Rightarrow> identity_binding option \<Rightarrow> assignment list \<Rightarrow> str
   \<Rightarrow> str option \<Rightarrow> denial_event list \<Rightarrow> 'w \<Rightarrow> rollup_result res \<times> denial_event list \<times> 'w" where
  "query_rollup L tz P actor at binding as channel customer log w =
    (if \<not> is_aware at then (Inl (WorkflowDenied ''INVALID_INPUT''), log_rollup_denied L actor at ''INVALID_INPUT'' log, w)
     else if (case binding of None \<Rightarrow> True
        | Some b \<Rightarrow> \<not> ib_active b \<or> ib_actor b \<noteq> actor \<or> ib_channel b \<noteq> channel)
     then (Inl (WorkflowDenied ''IDENTITY_UNVERIFIED''), log_rollup_denied L actor at ''IDENTITY_UNVERIFIED'' log, w)
     else if active_owner_units tz actor at as = []
     then (Inl (WorkflowDenied ''PERMISSION_DENIED''), log_rollup_denied L actor at ''PERMISSION_DENIED'' log, w)
     else (case rollup_units L P actor channel binding as customer at (active_owner_units tz actor at as) log w of
         (Inl e, log', w') \<Rightarrow> (Inl e, log', w')
       | (Inr us, log', w') \<Rightarrow>
          (bind_res (headline us) (\<lambda>(t, c). Inr \<lparr>ro_units = us, ro_total = t, ro_currency = c,
             ro_as_of = utc_text L id at, ro_scoped = True\<rparr>), log', w')))"

section \<open>Scope\<close>

definition read_request :: "str \<Rightarrow> str \<Rightarrow> str \<Rightarrow> datetime \<Rightarrow> auth_request" where
  "read_request actor channel unit at = \<lparr>aq_actor = actor, aq_channel = channel, aq_action = ''QUERY_RECEIVABLE'',
     aq_unit = Some unit, aq_at = Some at, aq_revision = None, aq_preview = None\<rparr>"

text \<open>The actor may read the receivables of the unit: a well-formed request of the actor bound to
  the channel, with exactly one assignment in force for the unit, one of whose roles grants it.\<close>

definition may_read ::
  "str \<Rightarrow> str \<Rightarrow> identity_binding option \<Rightarrow> assignment list \<Rightarrow> datetime \<Rightarrow> str \<Rightarrow> bool" where
  "may_read actor channel binding as at unit =
    (let r = read_request actor channel unit at in
     request_ok r \<and> bound_to r binding \<and> (\<exists>a. chosen r as a \<and> ''QUERY_RECEIVABLE'' \<in> granted a))"

lemma authorize_read_iff:
  assumes "list_all assignment_ok as"
  shows "if may_read actor channel binding as at u
    then authorize_read actor channel ''QUERY_RECEIVABLE'' binding as (Some u) at = Inr ()
    else \<exists>code. authorize_read actor channel ''QUERY_RECEIVABLE'' binding as (Some u) at = Inl (WorkflowDenied code)"
proof -
  let ?r = "read_request actor channel u at"
  have ar: "authorize_read actor channel ''QUERY_RECEIVABLE'' binding as (Some u) at =
      (case bind_res (mk_request ?r) (\<lambda>r. authorize r binding as) of
         Inl e \<Rightarrow> Inl (if e = TypeError \<or> is_value_error e then WorkflowDenied ''INVALID_INPUT'' else e)
       | Inr d \<Rightarrow> if ad_allowed d then Inr () else Inl (WorkflowDenied (ad_code d)))"
    by (simp add: authorize_read_def read_request_def)
  show ?thesis
  proof (cases "request_ok ?r")
    case False
    have "mk_request ?r = Inr ?r \<or> mk_request ?r = Inl ValueError"
      by (auto simp: mk_request_def ensure_def bind_res_def utc_opt_def as_utc_def split: option.splits datetime.splits sum.splits)
    with False have "mk_request ?r = Inl ValueError" by (auto simp: request_ok_def)
    with False show ?thesis by (simp add: ar may_read_def Let_def exn_defs)
  next
    case True
    then have m: "mk_request ?r = Inr ?r" by (simp add: request_ok_def)
    have "up_to_date ?r a" for a by (simp add: up_to_date_def read_request_def)
    moreover have "aq_action ?r = ''QUERY_RECEIVABLE''" "''QUERY_RECEIVABLE'' \<in> registered_actions"
      by (simp_all add: read_request_def registered_actions_def)
    moreover have "assignment_ok a" if "chosen ?r as a" for a
    proof -
      have "a \<in> set (filter (\<lambda>x. in_force ?r x \<and> (aq_unit ?r = None \<or> aq_unit ?r = Some (as_unit x))) as)"
        using that by (simp add: chosen_def)
      then show ?thesis using assms by (auto simp: list_all_iff)
    qed
    moreover have "chosen ?r as a \<Longrightarrow> chosen ?r as b \<Longrightarrow> a = b" for a b by (simp add: chosen_def)
    ultimately have dec: "if ''QUERY_RECEIVABLE'' \<in> granted a then grants (decide ?r a) a else denies (decide ?r a)"
      and uniq: "chosen ?r as b \<longleftrightarrow> b = a" if "chosen ?r as a" for a b
      using decide_spec [of a ?r] that by auto
    have may: "may_read actor channel binding as at u
        \<longleftrightarrow> bound_to ?r binding \<and> (\<exists>a. chosen ?r as a \<and> ''QUERY_RECEIVABLE'' \<in> granted a)"
      using True by (simp add: may_read_def Let_def)
    have den: "\<exists>code. authorize_read actor channel ''QUERY_RECEIVABLE'' binding as (Some u) at = Inl (WorkflowDenied code)"
      if "denies (authorize ?r binding as)"
      using that by (auto simp: ar m denies_def)
    from authorize_cases [OF True assms, of binding] show ?thesis
    proof (elim disjE exE conjE)
      fix a assume b: "bound_to ?r binding" and c: "chosen ?r as a" and d: "authorize ?r binding as = decide ?r a"
      show ?thesis
      proof (cases "''QUERY_RECEIVABLE'' \<in> granted a")
        case True
        then have "grants (authorize ?r binding as) a" using dec [OF c] d by simp
        then show ?thesis using True b c by (auto simp: ar m may grants_def)
      next
        case False
        then have "\<not> may_read actor channel binding as at u" using uniq [OF c] by (auto simp: may)
        moreover have "denies (authorize ?r binding as)" using dec [OF c] d False by simp
        ultimately show ?thesis using den by simp
      qed
    next
      assume "\<not> (bound_to ?r binding \<and> (\<exists>a. chosen ?r as a))" "denies (authorize ?r binding as)"
      then show ?thesis using den by (auto simp: may)
    qed
  qed
qed

lemma aging_refs_units:
  "aging_refs P u refs acc w = (Inr acc', w') \<Longrightarrow>
   set (map re_unit (fst acc')) \<subseteq> insert u (set (map re_unit (fst acc)))"
proof (induction refs arbitrary: acc w)
  case (Cons ref refs)
  obtain res w1 where rd: "port_read P ref w = (res, w1)" by force
  obtain es t c where acc: "acc = (es, t, c)" by (cases acc)
  show ?case
  proof (cases res)
    case (Inr r)
    show ?thesis
    proof (cases "read_amount (ir_open r)")
      case opn: (Inr x)
      show ?thesis
      proof (cases "dle x dzero")
        case True
        then show ?thesis using Cons rd Inr opn by simp
      next
        case False
        then obtain tot where "read_amount (ir_total r) = Inr tot"
          using Cons.prems rd Inr opn by (auto split: sum.splits)
        then show ?thesis
          using Cons.prems rd Inr opn False acc by (auto dest!: Cons.IH) blast
      qed
    qed (use Cons.prems rd Inr in simp)
  qed (use Cons.prems rd in simp)
qed auto

lemma aging_units_units:
  "aging_units P customer us acc w = (Inr acc', w') \<Longrightarrow>
   set (map re_unit (fst acc')) \<subseteq> set us \<union> set (map re_unit (fst acc))"
proof (induction us arbitrary: acc w)
  case (Cons u us)
  obtain res w1 where q: "port_query P (Some ''POSTED'') (Some u) customer w = (res, w1)" by force
  show ?case
  proof (cases res)
    case (Inr r)
    obtain res2 w2 where a: "aging_refs P u (qr_references r) acc w1 = (res2, w2)" by force
    show ?thesis
    proof (cases res2)
      case (Inr acc2)
      then have "aging_units P customer us acc2 w2 = (Inr acc', w')"
        using Cons.prems q a \<open>res = Inr r\<close> by simp
      from Cons.IH [OF this] aging_refs_units [OF a [unfolded Inr]] show ?thesis by auto
    qed (use Cons.prems q a Inr in simp)
  qed (use Cons.prems q in simp)
qed auto

text \<open>The aging report reads within the scope only: it reads the provider exactly when the
  first target unit may be read by the actor; otherwise it is denied, the denial is logged and
  the provider is not touched. A result lists invoices of the target units only; a report
  narrowed to one unit lists invoices of that unit only, which the actor may read.\<close>

theorem aging_scope:
  assumes "list_all assignment_ok as" "query_aging L tz P actor at binding as channel unit customer log w = (res, log', w')"
  shows "if \<exists>u us. target_units unit actor as = u # us \<and> may_read actor channel binding as at u
    then log' = log \<and> (\<forall>r. res = Inr r \<longrightarrow> set (map re_unit (ag_entries r)) \<subseteq> set (target_units unit actor as)
           \<and> (\<forall>v. unit = Some v \<longrightarrow> may_read actor channel binding as at v \<and> (\<forall>e \<in> set (ag_entries r). re_unit e = v)))
    else \<exists>code. res = Inl (WorkflowDenied code) \<and> log' = log_denied L tz actor at code log \<and> w' = w"
proof (cases "target_units unit actor as")
  case Nil
  then show ?thesis using assms(2) by (auto simp: query_aging_def)
next
  case (Cons u us)
  show ?thesis
  proof (cases "may_read actor channel binding as at u")
    case False
    then obtain code where "authorize_read actor channel ''QUERY_RECEIVABLE'' binding as (Some u) at = Inl (WorkflowDenied code)"
      using authorize_read_iff [OF assms(1), of actor channel binding "at" u] by auto
    then show ?thesis using assms(2) Cons False by (auto simp: query_aging_def)
  next
    case True
    then have a: "authorize_read actor channel ''QUERY_RECEIVABLE'' binding as (Some u) at = Inr ()"
      using authorize_read_iff [OF assms(1), of actor channel binding "at" u] by simp
    obtain ru wu where q: "aging_units P customer (u # us) ([], dzero, None) w = (ru, wu)" by force
    have one: "us = []" "u = v" if "unit = Some v" for v
      using that Cons by (auto simp: target_units_def split: if_splits)
    show ?thesis
    proof (cases ru)
      case (Inl e)
      then show ?thesis using assms(2) Cons a q True by (auto simp: query_aging_def)
    next
      case (Inr acc)
      then have res: "log' = log" "\<And>r. res = Inr r \<Longrightarrow> ag_entries r = fst acc"
        using assms(2) Cons a q by (auto simp: query_aging_def split: prod.splits)
      have s: "set (map re_unit (fst acc)) \<subseteq> set (u # us)"
        using aging_units_units [OF q [unfolded Inr]] by simp
      have "\<forall>r. res = Inr r \<longrightarrow> set (map re_unit (ag_entries r)) \<subseteq> set (target_units unit actor as)
           \<and> (\<forall>v. unit = Some v \<longrightarrow> may_read actor channel binding as at v \<and> (\<forall>e \<in> set (ag_entries r). re_unit e = v))"
        using s Cons True one by (auto simp: res(2))
      then show ?thesis using res(1) Cons True by simp
    qed
  qed
qed

lemma rollup_units_spec:
  assumes "list_all assignment_ok as" "rollup_units L P actor channel binding as customer at us log w = (Inr ss, log', w')"
  shows "map ut_unit ss = us \<and> (\<forall>u \<in> set us. may_read actor channel binding as at u) \<and> log' = log"
  using assms(2)
proof (induction us arbitrary: ss log w)
  case (Cons u us)
  have may: "may_read actor channel binding as at u"
  proof (rule ccontr)
    assume "\<not> may_read actor channel binding as at u"
    then obtain c where "authorize_unit actor channel binding as u at = Inl (WorkflowDenied c)"
      using authorize_read_iff [OF assms(1), of actor channel binding "at" u] by (auto simp: authorize_unit_def)
    with Cons.prems show False by simp
  qed
  then have a: "authorize_unit actor channel binding as u at = Inr ()"
    using authorize_read_iff [OF assms(1), of actor channel binding "at" u] by (simp add: authorize_unit_def)
  obtain r1 w1 where s: "read_unit_subtotal L P u customer at w = (r1, w1)" by force
  obtain t where t: "r1 = Inr t" using Cons.prems a s by (cases r1) auto
  obtain r2 log2 w2 where rest: "rollup_units L P actor channel binding as customer at us log w1 = (r2, log2, w2)"
    by (metis prod_cases3)
  obtain ss2 where ss: "r2 = Inr ss2" "ss = t # ss2" "log' = log2" "w' = w2"
    using Cons.prems a s t rest by (cases r2) auto
  have "ut_unit t = u"
    using s t by (auto simp: read_unit_subtotal_def Let_def split: prod.splits sum.splits)
  with Cons.IH [of log w1 ss2] rest ss may show ?case by simp
qed simp

lemma headline_single:
  "headline us = Inr (Some t, Some c) \<Longrightarrow> set (concat (map (\<lambda>u. map cs_currency (ut_per_currency u)) us)) = {c}"
proof -
  assume h: "headline us = Inr (Some t, Some c)"
  let ?cs = "concat (map (\<lambda>u. map cs_currency (ut_per_currency u)) us)"
  have "remdups ?cs = [c]"
    using h by (auto simp: headline_def bind_res_Inr split: list.splits)
  then have "set (remdups ?cs) = {c}" by simp
  then show ?thesis by (simp only: set_remdups)
qed

text \<open>The roll-up covers exactly the units in which the actor is an owner in force, each once
  and in order, and the actor, bound to the channel, may read each of them individually; one
  unit that may not be read denies the whole. A headline total with a currency is given only
  if every subtotal of every unit is in that currency, and never when two currencies occur. A
  result logs no denial.\<close>

theorem rollup_scope:
  assumes "list_all assignment_ok as" "query_rollup L tz P actor at binding as channel customer log w = (Inr r, log', w')"
  shows "map ut_unit (ro_units r) = active_owner_units tz actor at as
    \<and> distinct (map ut_unit (ro_units r)) \<and> ro_units r \<noteq> []
    \<and> (\<forall>u \<in> set (map ut_unit (ro_units r)). may_read actor channel binding as at u)
    \<and> (case ro_currency r of
         Some c \<Rightarrow> (\<forall>u \<in> set (ro_units r). \<forall>s \<in> set (ut_per_currency u). cs_currency s = c)
       | None \<Rightarrow> ro_total r \<in> {None, Some ''0''})
    \<and> log' = log"
proof -
  let ?us = "active_owner_units tz actor at as"
  have ne: "?us \<noteq> []" and "is_aware at"
    using assms(2) by (auto simp: query_rollup_def split: if_splits option.splits)
  obtain ru log2 w2 where q: "rollup_units L P actor channel binding as customer at ?us log w = (ru, log2, w2)"
    by (metis prod_cases3)
  then obtain ss where ss: "ru = Inr ss" and h: "bind_res (headline ss) (\<lambda>(t, c). Inr \<lparr>ro_units = ss, ro_total = t,
      ro_currency = c, ro_as_of = utc_text L id at, ro_scoped = True\<rparr>) = Inr r" and log: "log' = log2"
    using assms(2) by (auto simp: query_rollup_def split: if_splits option.splits sum.splits)
  then obtain t c where tc: "headline ss = Inr (t, c)" "ro_units r = ss" "ro_total r = t" "ro_currency r = c"
    by (auto simp: bind_res_Inr)
  note spec = rollup_units_spec [OF assms(1) q [unfolded ss]]
  have "distinct ?us" by (simp add: active_owner_units_def)
  moreover have "case c of Some c \<Rightarrow> (\<forall>u \<in> set ss. \<forall>s \<in> set (ut_per_currency u). cs_currency s = c)
       | None \<Rightarrow> t \<in> {None, Some ''0''}"
  proof (cases c)
    case None
    then show ?thesis using tc(1) by (auto simp: headline_def bind_res_Inr split: list.splits)
  next
    case (Some k)
    then obtain x where "headline ss = Inr (Some x, Some k)"
      using tc(1) by (auto simp: headline_def bind_res_Inr split: list.splits)
    from headline_single [OF this] Some show ?thesis by auto
  qed
  ultimately show ?thesis using spec ne tc log by auto
qed

section \<open>Amounts\<close>

text \<open>The open amount, the currency and the invoices that count, for a provider whose read-back
  of the reference \<open>r\<close> is \<open>f r\<close>; \<open>units_of s d\<close> is the amount in units of \<open>10^-s\<close>.\<close>

definition open_of :: "invoice_record \<Rightarrow> decimal" where
  "open_of r = dec_of_text (ir_open r)"

abbreviation units_of :: "nat \<Rightarrow> decimal \<Rightarrow> int" where
  "units_of s d \<equiv> dint (- int s) d"

definition counting :: "(str \<Rightarrow> invoice_record) \<Rightarrow> str list \<Rightarrow> invoice_record list" where
  "counting f refs = filter (\<lambda>r. dlt dzero (open_of r)) (map f refs)"

definition open_sum :: "nat \<Rightarrow> invoice_record list \<Rightarrow> int" where
  "open_sum s rs = sum_list (map (\<lambda>r. units_of s (open_of r)) rs)"

definition in_currency :: "str \<Rightarrow> invoice_record list \<Rightarrow> invoice_record list" where
  "in_currency c rs = filter (\<lambda>r. ir_currency r = c) rs"

definition add_record ::
  "str list \<times> (str, decimal) dict \<times> (str, nat) dict \<Rightarrow> invoice_record \<Rightarrow> str list \<times> (str, decimal) dict \<times> (str, nat) dict" where
  "add_record acc r = (case acc of (is, am, ct) \<Rightarrow>
     (is @ [ir_reference r],
      dput (ir_currency r) (dadd (case dget am (ir_currency r) of None \<Rightarrow> dzero | Some x \<Rightarrow> x) (open_of r)) am,
      dput (ir_currency r) (Suc (case dget ct (ir_currency r) of None \<Rightarrow> 0 | Some n \<Rightarrow> n)) ct))"

lemma subtotal_refs_fold:
  "\<forall>ref \<in> set refs. port_read P ref w = (Inr (f ref), w) \<and> decimal_text (ir_open (f ref)) \<Longrightarrow>
   subtotal_refs P refs acc w = (Inr (foldl add_record acc (counting f refs)), w)"
  by (induction refs arbitrary: acc)
    (auto simp: counting_def read_amount_def open_of_def dle_not_dlt add_record_def split: prod.splits)

lemma dlt_units: "fits s d \<Longrightarrow> dlt dzero d \<longleftrightarrow> 0 < units_of s d"
  using fits_dlt [OF fits_dzero, of s d] by simp

lemma sum_dput:
  fixes g :: "'v \<Rightarrow> int"
  shows "dict_ok d \<Longrightarrow> sum_list (map g (dvals (dput k v d)))
    = sum_list (map g (dvals d)) - (case dget d k of None \<Rightarrow> 0 | Some x \<Rightarrow> g x) + g v"
proof (induction d)
  case (Cons p d)
  obtain a b where p: "p = (a, b)" by force
  have "dict_ok d" "dget d a = None" using Cons.prems p by (simp_all add: dict_ok_def map_of_eq_None_iff)
  then show ?case using Cons.IH p by (auto simp: dvals_def)
qed (simp add: dvals_def)

lemma sum_member_le:
  fixes g :: "'v \<Rightarrow> int"
  shows "(\<And>x. x \<in> set xs \<Longrightarrow> 0 \<le> g x) \<Longrightarrow> sum_list (map g (filter P xs)) \<le> sum_list (map g xs) \<and> 0 \<le> sum_list (map g (filter P xs))"
  by (induction xs) fastforce+

text \<open>The state of the loop after the records \<open>rs\<close>.\<close>

definition subtotal_inv ::
  "nat \<Rightarrow> invoice_record list \<Rightarrow> str list \<times> (str, decimal) dict \<times> (str, nat) dict \<Rightarrow> bool" where
  "subtotal_inv s rs acc = (case acc of (is, am, ct) \<Rightarrow>
     is = map ir_reference rs \<and> dict_ok am \<and> dict_ok ct
     \<and> (\<forall>c. dget ct c = (if in_currency c rs = [] then None else Some (length (in_currency c rs))))
     \<and> (\<forall>c. (dget am c = None \<longleftrightarrow> in_currency c rs = [])
          \<and> (\<forall>x. dget am c = Some x \<longrightarrow> fits s x \<and> units_of s x = open_sum s (in_currency c rs)))
     \<and> sum_list (map (units_of s) (dvals am)) = open_sum s rs)"

lemma subtotal_inv_step:
  assumes inv: "subtotal_inv s rs acc" and r: "fits s (open_of r)" "\<forall>x \<in> set (rs @ [r]). 0 \<le> units_of s (open_of x)"
    and bound: "open_sum s (rs @ [r]) < 10 ^ dprec"
  shows "subtotal_inv s (rs @ [r]) (add_record acc r)"
proof -
  obtain "is" am ct where acc: "acc = (is, am, ct)" by (cases acc)
  note i = inv [unfolded subtotal_inv_def acc prod.case]
  let ?c = "ir_currency r" and ?old = "case dget am (ir_currency r) of None \<Rightarrow> dzero | Some x \<Rightarrow> x"
  have old: "fits s ?old \<and> units_of s ?old = open_sum s (in_currency ?c rs)"
  proof (cases "dget am ?c")
    case None
    then have "in_currency ?c rs = []" using i by blast
    with None show ?thesis by (simp add: open_sum_def)
  next
    case (Some x)
    then show ?thesis using i by simp
  qed
  have "open_sum s (in_currency ?c (rs @ [r])) \<le> open_sum s (rs @ [r])" "0 \<le> open_sum s (in_currency ?c (rs @ [r]))"
    using sum_member_le [of "rs @ [r]" "\<lambda>r. units_of s (open_of r)" "\<lambda>x. ir_currency x = ?c"] r(2)
    unfolding open_sum_def in_currency_def by blast+
  then have b: "\<bar>units_of s ?old + units_of s (open_of r)\<bar> < 10 ^ dprec"
    using bound old by (simp add: open_sum_def in_currency_def)
  note new = fits_dadd [OF conjunct1 [OF old] r(1) b]
  have snoc: "in_currency c (rs @ [r]) = (if c = ?c then in_currency c rs @ [r] else in_currency c rs)" for c
    by (auto simp: in_currency_def)
  have "sum_list (map (units_of s) (dvals (dput ?c (dadd ?old (open_of r)) am))) = open_sum s (rs @ [r])"
    using i new(2) by (simp add: sum_dput open_sum_def split: option.splits)
  moreover have "units_of s (dadd ?old (open_of r)) = open_sum s (in_currency ?c (rs @ [r]))"
    using new(2) old by (simp add: snoc open_sum_def)
  ultimately show ?thesis
    using i new(1) unfolding acc subtotal_inv_def add_record_def prod.case snoc
    by (auto split: option.splits)
qed

lemma subtotal_inv_fold:
  "\<forall>r \<in> set rs. fits s (open_of r) \<and> 0 \<le> units_of s (open_of r) \<Longrightarrow> open_sum s rs < 10 ^ dprec \<Longrightarrow>
   subtotal_inv s rs (foldl add_record ([], [], []) rs)"
proof (induction rs rule: rev_induct)
  case Nil
  show ?case by (simp add: subtotal_inv_def in_currency_def open_sum_def dvals_def)
next
  case (snoc r rs)
  then have "open_sum s rs \<le> open_sum s (rs @ [r])" by (simp add: open_sum_def)
  then show ?case using snoc subtotal_inv_step [of s rs _ r] by simp
qed

lemma fold_dadd:
  "\<forall>x \<in> set xs. fits s x \<and> 0 \<le> units_of s x \<Longrightarrow> sum_list (map (units_of s) xs) < 10 ^ dprec \<Longrightarrow>
   fits s (foldl dadd dzero xs) \<and> units_of s (foldl dadd dzero xs) = sum_list (map (units_of s) xs)"
proof (induction xs rule: rev_induct)
  case (snoc x xs)
  have "0 \<le> sum_list (map (units_of s) xs)" using snoc.prems by (intro sum_list_nonneg) auto
  with snoc show ?case using fits_dadd [of s "foldl dadd dzero xs" x] by auto
qed simp

text \<open>C38. The subtotal of a unit is right: for a provider that answers reads without changing,
  with canonical open amounts of at most \<open>s\<close> decimals that together stay below the precision of
  the context, it lists exactly the invoices with a positive open amount in the provider's
  order, has one entry per currency that occurs among them, in order, each with the exact sum
  and number of its invoices, and the exact total.\<close>

theorem subtotal_exact:
  assumes "port_query P (Some ''POSTED'') (Some u) customer w = (Inr q, w)"
    "\<forall>ref \<in> set (qr_references q). port_read P ref w = (Inr (f ref), w) \<and> decimal_text (ir_open (f ref)) \<and> fits s (open_of (f ref))"
    "open_sum s (counting f (qr_references q)) < 10 ^ dprec"
  shows "\<exists>t. read_unit_subtotal L P u customer at w = (Inr t, w)
    \<and> ut_refs t = map ir_reference (counting f (qr_references q)) \<and> ut_count t = length (ut_refs t)
    \<and> sorted (map cs_currency (ut_per_currency t)) \<and> distinct (map cs_currency (ut_per_currency t))
    \<and> set (map cs_currency (ut_per_currency t)) = ir_currency ` set (counting f (qr_references q))
    \<and> (\<forall>c \<in> set (ut_per_currency t). cs_count c = length (in_currency (cs_currency c) (counting f (qr_references q)))
         \<and> (\<exists>x. cs_total c = format_f x \<and> units_of s x = open_sum s (in_currency (cs_currency c) (counting f (qr_references q)))))
    \<and> (\<exists>x. ut_total t = format_f x \<and> units_of s x = open_sum s (counting f (qr_references q)))"
proof -
  let ?rs = "counting f (qr_references q)"
  obtain "is" am ct where acc: "foldl add_record ([], [], []) ?rs = (is, am, ct)" by (metis prod_cases3)
  have pos: "fits s (open_of r) \<and> 0 < units_of s (open_of r)" if "r \<in> set ?rs" for r
    using that assms(2) dlt_units by (auto simp: counting_def)
  have "subtotal_inv s ?rs (is, am, ct)"
    unfolding acc [symmetric] using pos assms(3) by (intro subtotal_inv_fold) (auto intro: order_less_imp_le)
  note i = this [unfolded subtotal_inv_def prod.case]
  have am: "fits s x \<and> units_of s x = open_sum s (in_currency c ?rs)" if "(c, x) \<in> set am" for c x
    using i that by (auto simp: dict_ok_get)
  have nonneg: "0 \<le> open_sum s (in_currency c ?rs)" for c
    using pos unfolding open_sum_def by (intro sum_list_nonneg) (auto simp: in_currency_def order_less_imp_le)
  have total: "units_of s (foldl dadd dzero (dvals am)) = open_sum s ?rs"
  proof -
    have "\<forall>x \<in> set (dvals am). fits s x \<and> 0 \<le> units_of s x"
      using am nonneg by (auto simp: dvals_def simp del: One_nat_def)
    then show ?thesis using fold_dadd [of "dvals am" s] i assms(3) by simp
  qed
  have keys: "set (map fst am) = ir_currency ` set ?rs"
  proof -
    have "c \<in> set (map fst am) \<longleftrightarrow> in_currency c ?rs \<noteq> []" for c
      using i map_of_eq_None_iff [of am c] by (metis image_set)
    then have "c \<in> set (map fst am) \<longleftrightarrow> c \<in> ir_currency ` set ?rs" for c
      by (auto simp: in_currency_def filter_empty_conv)
    then show ?thesis by (rule set_eqI)
  qed
  let ?pc = "per_currency am ct"
  have cur: "map cs_currency ?pc = map fst (sort_key fst am)"
    by (simp add: per_currency_def comp_def case_prod_beta)
  have pcs: "sorted (map cs_currency ?pc)" "set (map cs_currency ?pc) = ir_currency ` set ?rs"
    unfolding cur using keys by simp_all
  have "distinct (map cs_currency ?pc)" unfolding cur using i by (simp add: dict_ok_def distinct_map)
  moreover have "cs_count c = length (in_currency (cs_currency c) ?rs)
      \<and> (\<exists>x. cs_total c = format_f x \<and> units_of s x = open_sum s (in_currency (cs_currency c) ?rs))" if pc: "c \<in> set ?pc" for c
  proof -
    obtain k x where k: "(k, x) \<in> set am" and c: "c = \<lparr>cs_currency = k, cs_total = format_f x,
        cs_count = (case dget ct k of None \<Rightarrow> 0 | Some n \<Rightarrow> n)\<rparr>"
      using pc by (auto simp: per_currency_def)
    have "dget am k = Some x" using i k by (simp add: dict_ok_get)
    then have "in_currency k ?rs \<noteq> []" using i by (metis option.distinct(1))
    then show ?thesis using i am [OF k] by (auto simp: c)
  qed
  moreover define t where "t = \<lparr>ut_unit = u, ut_total = format_f (foldl dadd dzero (dvals am)),
      ut_currency = (case ?pc of [c] \<Rightarrow> Some (cs_currency c) | _ \<Rightarrow> None), ut_count = length is, ut_refs = is,
      ut_per_currency = ?pc, ut_as_of = utc_text L id at\<rparr>"
  have "read_unit_subtotal L P u customer at w = (Inr t, w)"
    using assms(1,2) acc subtotal_refs_fold [of "qr_references q" P w f "([], [], [])"]
    by (simp add: read_unit_subtotal_def Let_def t_def)
  moreover have "ut_refs t = map ir_reference ?rs" "ut_count t = length (ut_refs t)" "ut_per_currency t = ?pc"
    "ut_total t = format_f (foldl dadd dzero (dvals am))"
    using i by (simp_all add: t_def)
  ultimately show ?thesis using total pcs by (intro exI [of _ t]) (simp only:, blast)
qed

section \<open>Examples\<close>

definition demo_report_invoice :: "str \<Rightarrow> draft_invoice_command" where
  "demo_report_invoice u = \<lparr>dc_customer = ''CUST-1'',
     dc_identity = \<lparr>fi_unit = u, fi_issuer = ''ISSUER-1'', fi_tax = ''TAX-1'', fi_series = ''SERIES-1'',
       fi_ledger = ''LEDGER-1'', fi_account = ''ACC-A''\<rparr>,
     dc_lines = [\<lparr>il_service = ''SVC-1'', il_description = ''x'', il_quantity = ''1'', il_price = ''0.50'', il_currency = ''IDR''\<rparr>],
     dc_issued = ''0001-01-01'', dc_due = ''0001-02-01''\<rparr>"

definition demo_report_erp :: fixture_erp where
  "demo_report_erp = (case mk_fixture ''INV'' 1 of Inl _ \<Rightarrow> undefined | Inr s \<Rightarrow>
     erp_run [CreateDraft (demo_report_invoice ''UNIT-A''), CreateDraft (demo_report_invoice ''UNIT-B''),
       Post ''DRAFT-000001'', Post ''DRAFT-000002''] s)"

definition reader :: "str \<Rightarrow> str \<Rightarrow> assignment" where
  "reader u role = \<lparr>as_actor = ''ACTOR-1'', as_unit = u, as_roles = [role], as_active = True,
     as_ref = ''ASSIGNMENT-1'', as_revision = 1, as_from = None, as_until = None\<rparr>"

definition reader_binding :: "identity_binding option" where
  "reader_binding = Some \<lparr>ib_actor = ''ACTOR-1'', ib_channel = ''CHANNEL-1'', ib_active = True\<rparr>"

definition demo_aging :: "assignment list \<Rightarrow> str option \<Rightarrow> aging_result res \<times> denial_event list \<times> fixture_erp" where
  "demo_aging as unit = query_aging demo_libs id fixture_port ''ACTOR-1'' (Aware 5 0) reader_binding as ''CHANNEL-1'' unit None [] demo_report_erp"

lemma reader_ok: "list_all assignment_ok [reader ''UNIT-A'' ''FINANCE-REVIEWER'', reader ''UNIT-B'' ''UNIT-SALES'']"
  by code_simp

text \<open>An actor who may read unit A only: asking for unit B is denied, but asking for nothing in
  particular lists the invoices of unit B as well, for only the first unit is authorized.\<close>

lemma aging_discloses:
  "let as = [reader ''UNIT-A'' ''FINANCE-REVIEWER'', reader ''UNIT-B'' ''UNIT-SALES''] in
   fst (demo_aging as (Some ''UNIT-B'')) = Inl (WorkflowDenied ''PERMISSION_DENIED'')
   \<and> map_sum id (\<lambda>r. map re_unit (ag_entries r)) (fst (demo_aging as None)) = Inr [''UNIT-A'', ''UNIT-B'']"
  by code_simp

theorem aging_scope_witness:
  "\<exists>code log'. demo_aging [reader ''UNIT-A'' ''FINANCE-REVIEWER'', reader ''UNIT-B'' ''UNIT-SALES''] (Some ''UNIT-C'')
     = (Inl (WorkflowDenied code), log', demo_report_erp)"
proof -
  let ?as = "[reader ''UNIT-A'' ''FINANCE-REVIEWER'', reader ''UNIT-B'' ''UNIT-SALES'']"
  obtain res log' w' where q: "demo_aging ?as (Some ''UNIT-C'') = (res, log', w')" by (metis prod_cases3)
  have "target_units (Some ''UNIT-C'') ''ACTOR-1'' ?as = []" by code_simp
  with aging_scope [OF reader_ok q [unfolded demo_aging_def]] q show ?thesis by auto
qed

lemma owner_ok: "list_all assignment_ok [reader ''UNIT-B'' ''OWNER'']"
  by code_simp

definition demo_rollup :: "rollup_result res \<times> denial_event list \<times> fixture_erp" where
  "demo_rollup = query_rollup demo_libs id fixture_port ''ACTOR-1'' (Aware 5 0) reader_binding
     [reader ''UNIT-B'' ''OWNER''] ''CHANNEL-1'' None [] demo_report_erp"

theorem rollup_scope_witness:
  "\<exists>r log' w'. demo_rollup = (Inr r, log', w') \<and> map ut_unit (ro_units r) = [''UNIT-B''] \<and> log' = []"
proof -
  have ok: "\<not> isl (fst demo_rollup)" by code_simp
  obtain a log' w' where a: "demo_rollup = (a, log', w')" by (metis prod_cases3)
  have "\<not> isl a" using ok unfolding a fst_conv .
  then obtain r where q: "demo_rollup = (Inr r, log', w')" using a by (cases a) simp_all
  have "active_owner_units id ''ACTOR-1'' (Aware 5 0) [reader ''UNIT-B'' ''OWNER'']
      = [''UNIT-B'']" by code_simp
  with rollup_scope [OF owner_ok q [unfolded demo_rollup_def]] q show ?thesis by auto
qed

definition demo_read :: "str \<Rightarrow> invoice_record" where
  "demo_read ref = (case read_invoice ref demo_report_erp of Inl _ \<Rightarrow> undefined | Inr r \<Rightarrow> r)"

lemma demo_record:
  "read_invoice ''INV-000001'' demo_report_erp = Inr (demo_read ''INV-000001'')"
proof -
  have "\<not> isl (read_invoice ''INV-000001'' demo_report_erp)" by code_simp
  then show ?thesis by (cases "read_invoice ''INV-000001'' demo_report_erp") (auto simp: demo_read_def)
qed

lemma demo_amount:
  "ir_open (demo_read ''INV-000001'') = ''0.50''" "ir_reference (demo_read ''INV-000001'') = ''INV-000001''"
proof -
  have "map_sum id (\<lambda>r. (ir_open r, ir_reference r)) (read_invoice ''INV-000001'' demo_report_erp) = Inr (''0.50'', ''INV-000001'')"
    by code_simp
  then show "ir_open (demo_read ''INV-000001'') = ''0.50''" "ir_reference (demo_read ''INV-000001'') = ''INV-000001''"
    by (simp_all add: demo_record)
qed

theorem subtotal_exact_witness:
  "\<exists>t x. read_unit_subtotal demo_libs fixture_port ''UNIT-A'' None (Aware 5 0) demo_report_erp = (Inr t, demo_report_erp)
     \<and> ut_refs t = [''INV-000001''] \<and> ut_total t = format_f x \<and> units_of 2 x = 50"
proof -
  have "map_sum id qr_references (query_invoices (Some ''POSTED'') (Some ''UNIT-A'') None demo_report_erp) = Inr [''INV-000001'']"
    by code_simp
  then obtain q where q: "query_invoices (Some ''POSTED'') (Some ''UNIT-A'') None demo_report_erp = Inr q"
    "qr_references q = [''INV-000001'']"
    by (cases "query_invoices (Some ''POSTED'') (Some ''UNIT-A'') None demo_report_erp") auto
  have d: "decimal_text ''0.50''" "fits 2 (dec_of_text ''0.50'')" "dlt dzero (dec_of_text ''0.50'')"
    by code_simp+
  have u: "dint (- 2) (dec_of_text ''0.50'') = 50"
    by (simp add: dint_def scoef_def dec_of_text_def Let_def strip_minus_def is_digit_def str_nat_def char_digit_def)
  have c: "counting demo_read (qr_references q) = [demo_read ''INV-000001'']"
    by (simp add: counting_def q(2) open_of_def demo_amount(1) d(3))
  have sum: "open_sum 2 (counting demo_read (qr_references q)) = 50"
    by (simp add: c open_sum_def open_of_def demo_amount(1) u)
  have h: "port_query fixture_port (Some ''POSTED'') (Some ''UNIT-A'') None demo_report_erp = (Inr q, demo_report_erp)"
    "\<forall>ref \<in> set (qr_references q). port_read fixture_port ref demo_report_erp = (Inr (demo_read ref), demo_report_erp)
        \<and> decimal_text (ir_open (demo_read ref)) \<and> fits 2 (open_of (demo_read ref))"
    "open_sum 2 (counting demo_read (qr_references q)) < 10 ^ dprec"
    by (simp_all add: fixture_port_def q demo_record open_of_def demo_amount(1) d sum [unfolded q] sum dprec_def)
  from subtotal_exact [OF h, of demo_libs "Aware 5 0"] obtain t x where
    "read_unit_subtotal demo_libs fixture_port ''UNIT-A'' None (Aware 5 0) demo_report_erp = (Inr t, demo_report_erp)"
    "ut_refs t = map ir_reference (counting demo_read (qr_references q))"
    "ut_total t = format_f x" "units_of 2 x = open_sum 2 (counting demo_read (qr_references q))" by blast
  then show ?thesis unfolding sum unfolding c by (auto simp: demo_amount(2))
qed

end
