(* ===== verification/Flow.thy ===== *)
theory Flow
  imports Reports
begin

text \<open>
  What the three workflows of \<^verbatim>\<open>src/workflows\<close> share. Each is an object whose
  commands change its state and may raise: a command is an action, a function from the state
  to a result and the state it leaves behind, also when it raises. Every command holds the
  workflow's lock, so an action is one atomic step. The parts that the modules repeat word
  for word (\<^verbatim>\<open>_authorize\<close>, \<^verbatim>\<open>_selected_assignment\<close>, \<^verbatim>\<open>_log\<close>,
  \<^verbatim>\<open>_log_denied\<close>) are defined once.
\<close>

named_theorems flow_rules \<open>rules of the logic of actions\<close>

section \<open>Actions\<close>

type_synonym ('s, 'a) act = "'s \<Rightarrow> 'a res \<times> 's"

definition ret :: "'a \<Rightarrow> ('s, 'a) act" where
  "ret x s = (Inr x, s)"

definition fail_with :: "exn \<Rightarrow> ('s, 'a) act" where
  "fail_with e s = (Inl e, s)"

definition seq :: "('s, 'a) act \<Rightarrow> ('a \<Rightarrow> ('s, 'b) act) \<Rightarrow> ('s, 'b) act" where
  "seq m f s = (case m s of (Inl e, s') \<Rightarrow> (Inl e, s') | (Inr x, s') \<Rightarrow> f x s')"

text \<open>\<^verbatim>\<open>try: m except ...: h\<close>; the handler decides by the exception.\<close>

definition handle :: "('s, 'a) act \<Rightarrow> (exn \<Rightarrow> ('s, 'a) act) \<Rightarrow> ('s, 'a) act" where
  "handle m h s = (case m s of (Inl e, s') \<Rightarrow> h e s' | (Inr x, s') \<Rightarrow> (Inr x, s'))"

definition upd :: "('s \<Rightarrow> 's) \<Rightarrow> ('s, unit) act" where
  "upd f s = (Inr (), f s)"

definition look :: "('s \<Rightarrow> 'a) \<Rightarrow> ('a \<Rightarrow> ('s, 'b) act) \<Rightarrow> ('s, 'b) act" where
  "look f k s = k (f s) s"

definition pure :: "'a res \<Rightarrow> ('s, 'a) act" where
  "pure r s = (r, s)"

definition guard :: "bool \<Rightarrow> ('s, unit) act \<Rightarrow> ('s, unit) act" where
  "guard b m = (if b then ret () else m)"

lemmas act_defs = ret_def fail_with_def seq_def handle_def upd_def look_def pure_def guard_def

subsection \<open>A logic for actions\<close>

text \<open>From \<open>P\<close>, a normal end establishes \<open>Q\<close> of the value and the state, an
  exception \<open>E\<close> of the exception and the state.\<close>

definition valid ::
  "('s \<Rightarrow> bool) \<Rightarrow> ('s, 'a) act \<Rightarrow> ('a \<Rightarrow> 's \<Rightarrow> bool) \<Rightarrow> (exn \<Rightarrow> 's \<Rightarrow> bool) \<Rightarrow> bool" where
  "valid P m Q E = (\<forall>s. P s \<longrightarrow> (case m s of (Inl e, s') \<Rightarrow> E e s' | (Inr x, s') \<Rightarrow> Q x s'))"

lemma validI: "(\<And>s r s'. P s \<Longrightarrow> m s = (r, s') \<Longrightarrow> case r of Inl e \<Rightarrow> E e s' | Inr x \<Rightarrow> Q x s') \<Longrightarrow> valid P m Q E"
  by (fastforce simp: valid_def split: prod.splits sum.splits)

lemma validD:
  assumes "valid P m Q E" "P s" "m s = (r, s')"
  shows "r = Inr x \<Longrightarrow> Q x s'" "r = Inl e \<Longrightarrow> E e s'"
  using assms by (auto simp: valid_def)

lemma valid_ret [flow_rules]: "valid (Q x) (ret x) Q E"
  by (simp add: valid_def ret_def)

lemma valid_fail [flow_rules]: "valid (E e) (fail_with e) Q E"
  by (simp add: valid_def fail_with_def)

lemma valid_seq:
  "valid P m R E \<Longrightarrow> (\<And>x. valid (R x) (f x) Q E) \<Longrightarrow> valid P (seq m f) Q E"
  by (fastforce simp: valid_def seq_def split: prod.splits sum.splits)

lemma valid_handle:
  "valid P m Q R \<Longrightarrow> (\<And>e. valid (R e) (h e) Q E) \<Longrightarrow> valid P (handle m h) Q E"
  by (fastforce simp: valid_def handle_def split: prod.splits sum.splits)

lemma valid_upd [flow_rules]: "valid (\<lambda>s. Q () (f s)) (upd f) Q E"
  by (simp add: valid_def upd_def)

lemma valid_look: "(\<And>x. valid (\<lambda>s. P s \<and> f s = x) (k x) Q E) \<Longrightarrow> valid P (look f k) Q E"
  by (simp add: valid_def look_def)

lemma valid_pure [flow_rules]:
  "valid (\<lambda>s. case r of Inl e \<Rightarrow> E e s | Inr x \<Rightarrow> Q x s) (pure r) Q E"
  by (auto simp: valid_def pure_def split: sum.splits)

lemma valid_if:
  "(b \<Longrightarrow> valid P m Q E) \<Longrightarrow> (\<not> b \<Longrightarrow> valid P n Q E) \<Longrightarrow> valid P (if b then m else n) Q E"
  by simp

lemma valid_guard: "(b \<Longrightarrow> \<forall>s. P s \<longrightarrow> Q () s) \<Longrightarrow> (\<not> b \<Longrightarrow> valid P m Q E) \<Longrightarrow> valid P (guard b m) Q E"
  by (auto simp: guard_def valid_def ret_def)

lemma valid_pre: "valid R m Q E \<Longrightarrow> (\<And>s. P s \<Longrightarrow> R s) \<Longrightarrow> valid P m Q E"
  by (auto simp: valid_def)

lemma valid_post:
  "valid P m R F \<Longrightarrow> (\<And>x s. R x s \<Longrightarrow> Q x s) \<Longrightarrow> (\<And>e s. F e s \<Longrightarrow> E e s) \<Longrightarrow> valid P m Q E"
  by (fastforce simp: valid_def split: prod.splits sum.splits)

text \<open>An action that only extends the state along \<open>R\<close>, however it ends.\<close>

definition along :: "('s \<Rightarrow> 's \<Rightarrow> bool) \<Rightarrow> ('s, 'a) act \<Rightarrow> bool" where
  "along R m = (\<forall>s. R s (snd (m s)))"

lemma along_ret [flow_rules]: "reflp R \<Longrightarrow> along R (ret x)"
  by (simp add: along_def ret_def reflp_def)

lemma along_fail [flow_rules]: "reflp R \<Longrightarrow> along R (fail_with e)"
  by (simp add: along_def fail_with_def reflp_def)

lemma along_pure [flow_rules]: "reflp R \<Longrightarrow> along R (pure r)"
  by (simp add: along_def pure_def reflp_def)

lemma along_seq [flow_rules]: "transp R \<Longrightarrow> along R m \<Longrightarrow> (\<And>x. along R (f x)) \<Longrightarrow> along R (seq m f)"
proof (unfold along_def, rule allI)
  fix s
  assume t: "transp R" "\<forall>s. R s (snd (m s))" and f: "\<And>x. \<forall>s. R s (snd (f x s))"
  obtain r s' where m: "m s = (r, s')" by fastforce
  with t(2) have a: "R s s'" by (metis snd_conv)
  show "R s (snd (seq m f s))"
  proof (cases r)
    case (Inr x)
    have "R s' (snd (f x s'))" using f by blast
    with a t(1) have "R s (snd (f x s'))" by (blast dest: transpD)
    with m Inr show ?thesis by (simp add: seq_def)
  qed (use a m in \<open>simp add: seq_def\<close>)
qed

lemma along_handle [flow_rules]:
  "transp R \<Longrightarrow> along R m \<Longrightarrow> (\<And>e. along R (h e)) \<Longrightarrow> along R (handle m h)"
proof (unfold along_def, rule allI)
  fix s
  assume t: "transp R" "\<forall>s. R s (snd (m s))" and f: "\<And>e. \<forall>s. R s (snd (h e s))"
  obtain r s' where m: "m s = (r, s')" by fastforce
  with t(2) have a: "R s s'" by (metis snd_conv)
  show "R s (snd (handle m h s))"
  proof (cases r)
    case (Inl e)
    have "R s' (snd (h e s'))" using f by blast
    with a t(1) have "R s (snd (h e s'))" by (blast dest: transpD)
    with m Inl show ?thesis by (simp add: handle_def)
  qed (use a m in \<open>simp add: handle_def\<close>)
qed

lemma along_look [flow_rules]: "(\<And>x. along R (k x)) \<Longrightarrow> along R (look f k)"
  by (simp add: along_def look_def)

lemma along_upd [flow_rules]: "(\<And>s. R s (f s)) \<Longrightarrow> along R (upd f)"
  by (simp add: along_def upd_def)

lemma along_guard [flow_rules]: "reflp R \<Longrightarrow> along R m \<Longrightarrow> along R (guard b m)"
  by (simp add: along_def guard_def ret_def reflp_def)

lemma alongD: "along R m \<Longrightarrow> m s = (r, s') \<Longrightarrow> R s s'"
  by (metis along_def snd_conv)

subsection \<open>Running an action\<close>

lemma seq_Inr: "seq m f s = (Inr y, s'') \<longleftrightarrow> (\<exists>x s'. m s = (Inr x, s') \<and> f x s' = (Inr y, s''))"
  by (auto simp: seq_def split: prod.splits sum.splits)

lemma seq_cases:
  assumes "seq m f s = (r, s'')"
  obtains (raised) e where "m s = (Inl e, s'')" "r = Inl e"
  | (went) x s' where "m s = (Inr x, s')" "f x s' = (r, s'')"
  using assms by (auto simp: seq_def split: prod.splits sum.splits)

lemma handle_Inr:
  "handle m h s = (Inr y, s'') \<longleftrightarrow>
    m s = (Inr y, s'') \<or> (\<exists>e s'. m s = (Inl e, s') \<and> h e s' = (Inr y, s''))"
  by (auto simp: handle_def split: prod.splits sum.splits)

lemma run_simps [simp]:
  "ret x s = (Inr x, s)" "fail_with e s = (Inl e, s)" "upd f s = (Inr (), f s)"
  "look g k s = k (g s) s" "pure r s = (r, s)"
  by (simp_all add: act_defs)

lemma guard_run: "guard b m s = (if b then (Inr (), s) else m s)"
  by (simp add: guard_def)

lemma seq_run [simp]:
  "seq (ret x) f s = f x s" "seq (fail_with e) g s = (Inl e, s)" "seq (upd h) f' s = f' () (h s)"
  "seq (pure (Inr y)) k s = k y s" "seq (pure (Inl e)) l s = (Inl e, s)"
  by (simp_all add: act_defs)

section \<open>Callers\<close>

text \<open>The keyword arguments that every command takes from its caller.\<close>

record caller =
  cl_actor :: str
  cl_at :: datetime
  cl_binding :: "identity_binding option"
  cl_assignments :: "assignment list"
  cl_channel :: str

text \<open>\<open>_authorize\<close>: the unit that the decision names. A decision that allows names one, so
  the last branch is never taken (\<open>authorize_flow_unit\<close>).\<close>

definition flow_request ::
  "caller \<Rightarrow> str \<Rightarrow> str \<Rightarrow> str option \<Rightarrow> int option \<Rightarrow> preview_binding option \<Rightarrow> auth_request" where
  "flow_request c channel action unit revision pv =
    \<lparr>aq_actor = cl_actor c, aq_channel = channel, aq_action = action, aq_unit = unit,
     aq_at = Some (cl_at c), aq_revision = revision, aq_preview = pv\<rparr>"

definition authorize_flow ::
  "caller \<Rightarrow> str \<Rightarrow> str \<Rightarrow> str option \<Rightarrow> int option \<Rightarrow> preview_binding option \<Rightarrow> str res" where
  "authorize_flow c channel action unit revision pv =
    (case bind_res (mk_request (flow_request c channel action unit revision pv))
            (\<lambda>r. authorize r (cl_binding c) (cl_assignments c)) of
       Inl e \<Rightarrow> Inl (if e = TypeError \<or> is_value_error e then WorkflowDenied ''INVALID_INPUT'' else e)
     | Inr d \<Rightarrow> if \<not> ad_allowed d then Inl (WorkflowDenied (ad_code d))
               else (case ad_unit d of Some u \<Rightarrow> Inr u | None \<Rightarrow> Inl TypeError))"

text \<open>\<^verbatim>\<open>a <= b\<close> on datetimes.\<close>

definition dt_le :: "datetime \<Rightarrow> datetime \<Rightarrow> bool res" where
  "dt_le a b = bind_res (dt_less b a) (\<lambda>x. Inr (\<not> x))"

definition covers :: "datetime \<Rightarrow> assignment \<Rightarrow> bool res" where
  "covers at a =
    bind_res (case as_from a of None \<Rightarrow> Inr True | Some f \<Rightarrow> dt_le f at) (\<lambda>begun.
      if \<not> begun then Inr False
      else (case as_until a of None \<Rightarrow> Inr True | Some u \<Rightarrow> dt_less at u))"

fun selected_assignment :: "str \<Rightarrow> str \<Rightarrow> datetime \<Rightarrow> assignment list \<Rightarrow> assignment res" where
  "selected_assignment actor unit at [] = Inl (WorkflowDenied ''PERMISSION_DENIED'')"
| "selected_assignment actor unit at (a # as) =
    (if as_actor a = actor \<and> as_unit a = unit \<and> as_active a
     then bind_res (covers at a) (\<lambda>b. if b then Inr a else selected_assignment actor unit at as)
     else selected_assignment actor unit at as)"

text \<open>\<^verbatim>\<open>str.isupper\<close> on the code points below 256.\<close>

definition upper_cased :: "char \<Rightarrow> bool" where
  "upper_cased c = (is_upper c \<or> (let n = (of_char c :: nat) in 192 \<le> n \<and> n \<le> 222 \<and> n \<noteq> 215))"

definition lower_cased :: "char \<Rightarrow> bool" where
  "lower_cased c = (is_lower c \<or> (let n = (of_char c :: nat) in
     n \<in> {170, 181, 186} \<or> (223 \<le> n \<and> n \<noteq> 247)))"

definition isupper :: "str \<Rightarrow> bool" where
  "isupper s = (list_ex upper_cased s \<and> \<not> list_ex lower_cased s)"

definition iso_currency :: "str \<Rightarrow> bool" where
  "iso_currency s = (length s = 3 \<and> isupper s)"

text \<open>\<^verbatim>\<open>_DECIMAL_TEXT.fullmatch(s) is not None and Decimal(s) > 0\<close>.\<close>

definition positive_text :: "str \<Rightarrow> bool" where
  "positive_text s = (decimal_text s \<and> \<not> dle (dec_of_text s) dzero)"

section \<open>Audit\<close>

type_synonym flow_log = "(str, (str, json) dict list) dict"

definition flow_entry ::
  "libs \<Rightarrow> (int \<Rightarrow> int) \<Rightarrow> str \<Rightarrow> caller \<Rightarrow> (str, json) dict \<Rightarrow> (str, json) dict" where
  "flow_entry L tz action c detail = foldl (\<lambda>d (k, v). dput k v d)
     [(''action'', JStr action), (''actor_ref'', JStr (cl_actor c)),
      (''at'', JStr (utc_text L tz (cl_at c)))] detail"

definition add_entry :: "str \<Rightarrow> (str, json) dict \<Rightarrow> flow_log \<Rightarrow> flow_log" where
  "add_entry anchor e lg = dput anchor ((case dget lg anchor of None \<Rightarrow> [] | Some es \<Rightarrow> es) @ [e]) lg"

definition denial :: "libs \<Rightarrow> (int \<Rightarrow> int) \<Rightarrow> str \<Rightarrow> caller \<Rightarrow> str \<Rightarrow> denial_event" where
  "denial L tz action c code =
    \<lparr>de_action = action, de_actor = cl_actor c, de_code = code, de_at = utc_text L tz (cl_at c)\<rparr>"

section \<open>What an authorization establishes\<close>

text \<open>The caller holds, through an assignment in force for the unit, a role that grants the
  action, and is bound to the channel.\<close>

definition empowered :: "caller \<Rightarrow> str \<Rightarrow> str \<Rightarrow> str \<Rightarrow> assignment \<Rightarrow> bool" where
  "empowered c channel action unit a =
    (a \<in> set (cl_assignments c) \<and> as_actor a = cl_actor c \<and> as_active a \<and> as_unit a = unit
     \<and> in_force (flow_request c channel action None None None) a
     \<and> action \<in> granted a \<and> action \<in> registered_actions
     \<and> bound_to (flow_request c channel action None None None) (cl_binding c))"

lemma flow_request_simps [simp]:
  "aq_actor (flow_request c ch act u n p) = cl_actor c" "aq_channel (flow_request c ch act u n p) = ch"
  "aq_action (flow_request c ch act u n p) = act" "aq_unit (flow_request c ch act u n p) = u"
  "aq_at (flow_request c ch act u n p) = Some (cl_at c)" "aq_revision (flow_request c ch act u n p) = n"
  "aq_preview (flow_request c ch act u n p) = p"
  by (simp_all add: flow_request_def)

lemma flow_request_irrelevant:
  "in_force (flow_request c ch act u n p) a = in_force (flow_request c ch act None None None) a"
  "bound_to (flow_request c ch act u n p) b = bound_to (flow_request c ch act None None None) b"
  by (simp_all add: in_force_def bound_to_def)

lemma mk_request_id: "mk_request r = Inr r' \<Longrightarrow> r' = r \<and> request_ok r"
  by (auto simp: mk_request_def request_ok_def bind_res_Inr)

lemma utc_opt_aware: "utc_opt (Some d) = Inr u \<Longrightarrow> is_aware d"
  by (auto simp: utc_opt_def as_utc_def split: datetime.splits)

lemma covers_ok:
  assumes "assignment_ok a" "is_aware at"
  shows "covers at a = Inr ((case as_from a of None \<Rightarrow> True | Some f \<Rightarrow> utc_us f \<le> utc_us at)
    \<and> (case as_until a of None \<Rightarrow> True | Some u \<Rightarrow> utc_us at < utc_us u))"
proof -
  have "is_aware f" if "as_from a = Some f" for f
    using assignment_okD(2) [OF assms(1)] that by (auto intro: utc_opt_aware)
  moreover have "is_aware u" if "as_until a = Some u" for u
    using assignment_okD(3) [OF assms(1)] that by (auto intro: utc_opt_aware)
  ultimately show ?thesis using assms(2)
    by (auto simp: covers_def dt_le_def dt_less_aware not_less split: option.splits)
qed

text \<open>The loop of \<open>_selected_assignment\<close> finds the assignment that the decision rests on.\<close>

lemma selected_assignment_found:
  assumes "list_all assignment_ok as" "is_aware at" "aq_at r = Some at"
  shows "selected_assignment (aq_actor r) u at as =
    (case filter (\<lambda>x. in_force r x \<and> as_unit x = u) as of
       [] \<Rightarrow> Inl (WorkflowDenied ''PERMISSION_DENIED'') | a # _ \<Rightarrow> Inr a)"
  using assms(1)
proof (induction as)
  case (Cons a as)
  then have "assignment_ok a" by simp
  from covers_ok [OF this assms(2)] Cons assms(3) show ?case
    by (auto simp: in_force_def)
qed simp

lemma filter_singleton_in: "filter P xs = [a] \<Longrightarrow> a \<in> set xs \<and> P a"
proof -
  assume "filter P xs = [a]"
  then have "a \<in> set (filter P xs)" by simp
  then show ?thesis by simp
qed

lemma request_aware: "request_ok r \<Longrightarrow> aq_at r = Some t \<Longrightarrow> is_aware t"
  by (auto simp: request_ok_def mk_request_def bind_res_Inr intro: utc_opt_aware)

lemma authorize_flow_sound:
  assumes "authorize_flow c ch act unit n p = Inr u" "list_all assignment_ok (cl_assignments c)"
  shows "\<exists>a. empowered c ch act u a \<and> up_to_date (flow_request c ch act unit n p) a
    \<and> selected_assignment (cl_actor c) u (cl_at c) (cl_assignments c) = Inr a
    \<and> (\<forall>v. unit = Some v \<longrightarrow> u = v) \<and> is_aware (cl_at c)"
proof -
  let ?r = "flow_request c ch act unit n p"
  obtain d where ok: "request_ok ?r" and d: "authorize ?r (cl_binding c) (cl_assignments c) = Inr d"
    "ad_allowed d" "ad_unit d = Some u"
    using assms(1) mk_request_id [of ?r]
    by (auto simp: authorize_flow_def bind_res_def split: sum.splits if_splits option.splits)
  note iff = authorize_iff [OF ok assms(2), of "cl_binding c"]
  have nd: "\<not> denies (authorize ?r (cl_binding c) (cl_assignments c))"
    using d by (auto simp: denies_def)
  from iff nd obtain a where c: "bound_to ?r (cl_binding c)" "chosen ?r (cl_assignments c) a"
      "up_to_date ?r a" "aq_action ?r \<in> registered_actions \<inter> granted a"
    and g: "\<exists>b. chosen ?r (cl_assignments c) b \<and> grants (authorize ?r (cl_binding c) (cl_assignments c)) b"
    by (auto split: if_splits)
  from g c(2) have g: "grants (authorize ?r (cl_binding c) (cl_assignments c)) a"
    by (auto simp: chosen_def)
  then have u: "as_unit a = u" using d by (simp add: grants_def)
  have f: "filter (\<lambda>x. in_force ?r x \<and> (unit = None \<or> unit = Some (as_unit x))) (cl_assignments c) = [a]"
    using c(2) by (simp add: chosen_def)
  then have a: "a \<in> set (cl_assignments c)" "in_force ?r a" "unit = None \<or> unit = Some (as_unit a)"
    using filter_singleton_in [OF f] by auto
  have aware: "is_aware (cl_at c)" using request_aware [OF ok] by simp
  have "filter (\<lambda>x. in_force ?r x \<and> as_unit x = u) (cl_assignments c) = [a]"
  proof (cases unit)
    case None
    have "filter (\<lambda>x. in_force ?r x \<and> as_unit x = u) (cl_assignments c)
        = filter (\<lambda>x. as_unit x = u) (filter (\<lambda>x. in_force ?r x) (cl_assignments c))"
      by (simp add: conj_commute)
    with f None u show ?thesis by simp
  next
    case (Some v)
    with a(3) u have "v = u" by simp
    with f Some show ?thesis by (simp add: eq_commute)
  qed
  then have "selected_assignment (cl_actor c) u (cl_at c) (cl_assignments c) = Inr a"
    using selected_assignment_found [OF assms(2) aware, of ?r u] by simp
  moreover have "empowered c ch act u a"
    using a c u flow_request_irrelevant(1) [of c ch act unit n p] flow_request_irrelevant(2) [of c ch act unit n p]
    by (auto simp: empowered_def in_force_def)
  ultimately show ?thesis using c(3) a(3) u aware by auto
qed

text \<open>Assignments are objects of the class, which its constructor has checked.\<close>

definition caller_ok :: "caller \<Rightarrow> bool" where
  "caller_ok c = list_all assignment_ok (cl_assignments c)"

end
