(* ===== verification/PaymentFlow.thy ===== *)
theory PaymentFlow
  imports Flow ReconEngine FinPolicy
begin

text \<open>
  The payment workflow of \<^verbatim>\<open>src/workflows/payments/workflow.py\<close> over an arbitrary
  provider port: recording a payment under an idempotency claim, classifying an uncertain
  one, reversing one. The state holds the claims, the evidence index, the evidence that is
  pending, the audit trails, and what the workflow shares with its surroundings: the
  operator queue and the provider's world. An uncaught exception leaves the state as far
  as it had come.
\<close>

section \<open>State\<close>

datatype claim_outcome = CL_PENDING | CL_RECORDED | CL_REJECTED | CL_UNCERTAIN

record claim_state =
  cs_hash :: str
  cs_outcome :: claim_outcome
  cs_payment :: "str option"
  cs_invoice :: "str option"

record pay_result =
  pw_outcome :: str
  pw_payment :: "str option"
  pw_status :: "str option"
  pw_reason :: "str option"

record 'w pay_flow =
  pf_claims :: "(str \<times> str, claim_state) dict"
  pf_evidence :: "(str, str) dict"
  pf_pending :: "str set"
  pf_reversed :: "str set"
  pf_audit :: flow_log
  pf_denied :: "denial_event list"
  pf_queue :: op_queue
  pf_world :: 'w

text \<open>What the workflow is constructed with; \<open>pe_tz\<close> is the machine's time zone and
  \<open>pe_clock\<close> what the queue's clock reads during the command.\<close>

record 'w pay_env =
  pe_libs :: libs
  pe_tz :: "int \<Rightarrow> int"
  pe_clock :: clock
  pe_resolver :: resolver
  pe_port :: "'w erp_port"

definition new_pay_flow :: "op_queue \<Rightarrow> 'w \<Rightarrow> 'w pay_flow" where
  "new_pay_flow q w = \<lparr>pf_claims = [], pf_evidence = [], pf_pending = {}, pf_reversed = {},
     pf_audit = [], pf_denied = [], pf_queue = q, pf_world = w\<rparr>"

section \<open>Parts of the commands\<close>

definition pay_log ::
  "'w pay_env \<Rightarrow> str \<Rightarrow> str \<Rightarrow> caller \<Rightarrow> (str, str) dict \<Rightarrow> ('w pay_flow, unit) act" where
  "pay_log E anchor action c detail = upd (\<lambda>s. s\<lparr>pf_audit := add_entry anchor
     (flow_entry (pe_libs E) (pe_tz E) action c (map (\<lambda>(k, v). (k, JStr v)) detail)) (pf_audit s)\<rparr>)"

definition pay_log_denied :: "'w pay_env \<Rightarrow> str \<Rightarrow> caller \<Rightarrow> str \<Rightarrow> ('w pay_flow, unit) act" where
  "pay_log_denied E action c code = upd (\<lambda>s. s\<lparr>pf_denied :=
     pf_denied s @ [denial (pe_libs E) (pe_tz E) action c code]\<rparr>)"

text \<open>\<^verbatim>\<open>self._log_denied(...); raise e\<close>.\<close>

definition pay_deny :: "'w pay_env \<Rightarrow> str \<Rightarrow> caller \<Rightarrow> str \<Rightarrow> exn \<Rightarrow> ('w pay_flow, 'a) act" where
  "pay_deny E action c code e = seq (pay_log_denied E action c code) (\<lambda>_. fail_with e)"

definition pay_authorize ::
  "'w pay_env \<Rightarrow> str \<Rightarrow> caller \<Rightarrow> str \<Rightarrow> ('w pay_flow, str) act" where
  "pay_authorize E command c unit =
    (case authorize_flow c (cl_channel c) ''PAYMENT_RECORD'' (Some unit) None None of
       Inr u \<Rightarrow> ret u
     | Inl e \<Rightarrow> (case e of WorkflowDenied code \<Rightarrow> pay_deny E command c code e | _ \<Rightarrow> fail_with e))"

definition require_ref :: "str \<Rightarrow> str \<Rightarrow> ('w pay_flow, unit) act" where
  "require_ref value pfx = guard (ref_with pfx value) (fail_with WorkflowBlocked)"

definition payment_hash :: "libs \<Rightarrow> draft_payment_command \<Rightarrow> str" where
  "payment_hash L cmd = l_sha256 L (repr_tuple
     [pc_invoice cmd, pc_amount cmd, pc_currency cmd, pc_evidence cmd, pc_account cmd])"

text \<open>A call of the provider.\<close>

definition call_port :: "('w \<Rightarrow> 'a res \<times> 'w) \<Rightarrow> ('w pay_flow, 'a) act" where
  "call_port f s = (let (r, w) = f (pf_world s) in (r, s\<lparr>pf_world := w\<rparr>))"

text \<open>\<^verbatim>\<open>invoice.payload.get("identity", {}).get("operating_unit_ref")\<close>: a value that is
  not a dictionary has no \<^verbatim>\<open>get\<close>.\<close>

definition unit_of_payload :: "(str, json) dict \<Rightarrow> str res" where
  "unit_of_payload p =
    (case dget p ''identity'' of
       None \<Rightarrow> Inl WorkflowBlocked
     | Some (JObj kvs) \<Rightarrow>
        (case map_of kvs ''operating_unit_ref'' of
           Some (JStr u) \<Rightarrow> if opaque_ref u then Inr u else Inl WorkflowBlocked
         | _ \<Rightarrow> Inl WorkflowBlocked)
     | Some _ \<Rightarrow> Inl AttributeError)"

definition resolve_unit_ref :: "'w pay_env \<Rightarrow> str \<Rightarrow> ('w pay_flow, str \<times> invoice_record) act" where
  "resolve_unit_ref E ref =
    seq (handle (call_port (port_read (pe_port E) ref)) (\<lambda>e. fail_with (blocked_if_provider e)))
      (\<lambda>i. seq (pure (unit_of_payload (ir_payload i))) (\<lambda>u. ret (u, i)))"

text \<open>The resolution of the unit's policy; only policy errors are caught.\<close>

definition unit_policy :: "'w pay_env \<Rightarrow> str \<Rightarrow> str \<Rightarrow> datetime \<Rightarrow> resolved_policy res" where
  "unit_policy E unit currency at =
    bind_res (mk_policy_request \<lparr>rq_unit = unit, rq_currency = currency, rq_at = at,
       rq_requested = None, rq_override = None\<rparr>) (resolve (pe_libs E) (pe_resolver E))"

definition validate_account ::
  "'w pay_env \<Rightarrow> str \<Rightarrow> str \<Rightarrow> str \<Rightarrow> str \<Rightarrow> caller \<Rightarrow> ('w pay_flow, unit) act" where
  "validate_account E unit currency alias command c =
    (case unit_policy E unit currency (cl_at c) of
       Inl (PolicyResolutionError _) \<Rightarrow> pay_deny E command c ''POLICY_UNRESOLVED'' WorkflowBlocked
     | Inl e \<Rightarrow> fail_with e
     | Inr p \<Rightarrow> if alias \<noteq> fi_account (rp_identity p)
         then pay_deny E command c ''WRONG_ACCOUNT'' (WorkflowDenied ''WRONG_ACCOUNT'') else ret ())"

definition invoice_status :: "invoice_record \<Rightarrow> str res" where
  "invoice_status i = bind_res (read_amount (ir_total i)) (\<lambda>tot.
     bind_res (read_amount (ir_open i)) (\<lambda>opn. Inr (receivable_status tot opn)))"

definition put_claim :: "str \<times> str \<Rightarrow> claim_state \<Rightarrow> ('w pay_flow, unit) act" where
  "put_claim k cs = upd (\<lambda>s. s\<lparr>pf_claims := dput k cs (pf_claims s)\<rparr>)"

definition recorded_result :: "str option \<Rightarrow> str \<Rightarrow> pay_result" where
  "recorded_result ref status =
    \<lparr>pw_outcome = ''RECORDED'', pw_payment = ref, pw_status = Some status, pw_reason = None\<rparr>"

definition other_result :: "str \<Rightarrow> str \<Rightarrow> pay_result" where
  "other_result outcome why =
    \<lparr>pw_outcome = outcome, pw_payment = None, pw_status = None, pw_reason = Some why\<rparr>"

section \<open>Recording a payment\<close>

text \<open>The checks that need no provider.\<close>

definition check_payment_input ::
  "'w pay_env \<Rightarrow> caller \<Rightarrow> draft_payment_command \<Rightarrow> ('w pay_flow, unit) act" where
  "check_payment_input E c cmd =
    seq (guard (ref_with ''EVI-'' (pc_evidence cmd))
           (pay_deny E ''record_payment'' c ''INVALID_INPUT'' WorkflowBlocked)) (\<lambda>_.
    seq (require_ref (pc_invoice cmd) ''INV-'') (\<lambda>_.
    seq (require_ref (pc_account cmd) ''ACC-'') (\<lambda>_.
    seq (guard (positive_text (pc_amount cmd))
           (pay_deny E ''record_payment'' c ''INVALID_INPUT'' WorkflowBlocked)) (\<lambda>_.
    seq (guard (iso_currency (pc_currency cmd))
           (pay_deny E ''record_payment'' c ''INVALID_INPUT'' WorkflowBlocked)) (\<lambda>_.
    look pf_pending (\<lambda>pending.
      guard (pc_evidence cmd \<notin> pending)
        (pay_deny E ''record_payment'' c ''INVALID_STATE'' WorkflowBlocked)))))))"

text \<open>Read-back of the invoice, authorization for its unit, the account of the unit's policy
  and the currency; the result is the invoice and the assignment.\<close>

definition admit_payment ::
  "'w pay_env \<Rightarrow> caller \<Rightarrow> draft_payment_command \<Rightarrow> ('w pay_flow, invoice_record \<times> assignment) act" where
  "admit_payment E c cmd =
    seq (resolve_unit_ref E (pc_invoice cmd)) (\<lambda>(unit, invoice).
    seq (guard (ir_status invoice = ''POSTED'')
           (pay_deny E ''record_payment'' c ''INVALID_STATE'' WorkflowBlocked)) (\<lambda>_.
    seq (pay_authorize E ''record_payment'' c unit) (\<lambda>granted_unit.
    seq (pure (selected_assignment (cl_actor c) granted_unit (cl_at c) (cl_assignments c))) (\<lambda>a.
    seq (validate_account E unit (ir_currency invoice) (pc_account cmd) ''record_payment'' c) (\<lambda>_.
    seq (guard (pc_currency cmd = ir_currency invoice)
           (pay_deny E ''record_payment'' c ''INVALID_INPUT'' WorkflowBlocked)) (\<lambda>_.
    ret (invoice, a)))))))"

text \<open>What an earlier claim with the same key decides: the result to return, or nothing.\<close>

definition replay_claim ::
  "'w pay_env \<Rightarrow> caller \<Rightarrow> draft_payment_command \<Rightarrow> str \<Rightarrow> claim_state option
   \<Rightarrow> ('w pay_flow, pay_result option) act" where
  "replay_claim E c cmd hash existing =
    (case existing of
       None \<Rightarrow> ret None
     | Some cl \<Rightarrow>
        if cs_hash cl \<noteq> hash then pay_deny E ''record_payment'' c ''IDEMPOTENCY_CONFLICT'' WorkflowBlocked
        else if cs_outcome cl = CL_RECORDED then
          seq (resolve_unit_ref E (pc_invoice cmd)) (\<lambda>(_, refreshed).
          seq (pure (invoice_status refreshed)) (\<lambda>status.
          ret (Some (recorded_result (cs_payment cl) status))))
        else if cs_outcome cl = CL_UNCERTAIN
        then pay_deny E ''record_payment'' c ''INVALID_STATE'' WorkflowBlocked
        else ret None)"

text \<open>No overpayment, and no evidence that another claim has spent.\<close>

definition check_open_amount ::
  "'w pay_env \<Rightarrow> caller \<Rightarrow> draft_payment_command \<Rightarrow> claim_state option \<Rightarrow> invoice_record
   \<Rightarrow> ('w pay_flow, unit) act" where
  "check_open_amount E c cmd existing invoice =
    seq (pure (read_amount (ir_open invoice))) (\<lambda>opn.
    seq (guard (\<not> dlt opn (dec_of_text (pc_amount cmd)))
           (pay_deny E ''record_payment'' c ''OVERPAYMENT'' WorkflowBlocked)) (\<lambda>_.
    look pf_evidence (\<lambda>known.
      guard (case dget known (pc_evidence cmd) of None \<Rightarrow> True
             | Some p \<Rightarrow> (case existing of None \<Rightarrow> False | Some cl \<Rightarrow> cs_payment cl = Some p))
        (pay_deny E ''record_payment'' c ''IDEMPOTENCY_CONFLICT'' WorkflowBlocked))))"

text \<open>The claim becomes uncertain: linkage, pending evidence, reconciliation, audit.\<close>

definition queue_payment ::
  "'w pay_env \<Rightarrow> str \<Rightarrow> str \<Rightarrow> ('w pay_flow, unit) act" where
  "queue_payment E intent evidence s =
    (let (r, q) = enqueue_uncertain_payment (pe_libs E) (pe_clock E) intent evidence (pf_queue s)
     in (map_sum id (\<lambda>_. ()) r, s\<lparr>pf_queue := q\<rparr>))"

definition mark_uncertain ::
  "'w pay_env \<Rightarrow> caller \<Rightarrow> draft_payment_command \<Rightarrow> str \<Rightarrow> str option \<Rightarrow> assignment \<Rightarrow> str option
   \<Rightarrow> ('w pay_flow, unit) act" where
  "mark_uncertain E c cmd key payment a why =
    seq (put_claim (cl_actor c, key) \<lparr>cs_hash = payment_hash (pe_libs E) cmd, cs_outcome = CL_UNCERTAIN,
           cs_payment = payment, cs_invoice = Some (pc_invoice cmd)\<rparr>) (\<lambda>_.
    seq (upd (\<lambda>s. s\<lparr>pf_pending := insert (pc_evidence cmd) (pf_pending s)\<rparr>)) (\<lambda>_.
    seq (queue_payment E (''payment:'' @ cl_actor c @ '':'' @ key) (pc_evidence cmd)) (\<lambda>_.
    pay_log E (pc_invoice cmd) ''payment_uncertain'' c
      ([(''evidence_ref'', pc_evidence cmd)]
       @ (case payment of None \<Rightarrow> [] | Some p \<Rightarrow> [(''payment_ref'', p)])
       @ [(''assignment_ref'', as_ref a)]
       @ (case why of None \<Rightarrow> [] | Some w \<Rightarrow> [(''reason'', w)])))))"

text \<open>After the provider has answered with a reference: read back, compare, conclude.\<close>

definition conclude_payment ::
  "'w pay_env \<Rightarrow> caller \<Rightarrow> draft_payment_command \<Rightarrow> str \<Rightarrow> str \<Rightarrow> assignment \<Rightarrow> ('w pay_flow, pay_result) act" where
  "conclude_payment E c cmd key payment a =
    seq (handle
          (seq (call_port (port_read_payment (pe_port E) payment)) (\<lambda>rec.
           seq (call_port (port_read (pe_port E) (pc_invoice cmd))) (\<lambda>refreshed.
           ret (rec, refreshed))))
          (\<lambda>e. if is_provider_error e
             then seq (mark_uncertain E c cmd key (Some payment) a (Some ''read-back failed'')) (\<lambda>_.
                  fail_with WorkflowBlocked)
             else fail_with e)) (\<lambda>(rec, refreshed).
    if pr_evidence rec \<noteq> pc_evidence cmd \<or> pr_invoice rec \<noteq> pc_invoice cmd
    then seq (mark_uncertain E c cmd key (Some payment) a (Some ''read-back mismatch'')) (\<lambda>_.
         fail_with WorkflowBlocked)
    else
      seq (put_claim (cl_actor c, key) \<lparr>cs_hash = payment_hash (pe_libs E) cmd, cs_outcome = CL_RECORDED,
             cs_payment = Some payment, cs_invoice = None\<rparr>) (\<lambda>_.
      seq (upd (\<lambda>s. s\<lparr>pf_evidence := dput (pc_evidence cmd) payment (pf_evidence s)\<rparr>)) (\<lambda>_.
      seq (pure (invoice_status refreshed)) (\<lambda>status.
      seq (pay_log E (pc_invoice cmd) ''payment_recorded'' c
             [(''payment_ref'', payment), (''evidence_ref'', pc_evidence cmd),
              (''receivable_status'', status), (''assignment_ref'', as_ref a)]) (\<lambda>_.
      ret (recorded_result (Some payment) status))))))"

definition attempt_payment ::
  "'w pay_env \<Rightarrow> caller \<Rightarrow> draft_payment_command \<Rightarrow> str \<Rightarrow> assignment \<Rightarrow> ('w pay_flow, pay_result) act" where
  "attempt_payment E c cmd key a s =
    (let hash = payment_hash (pe_libs E) cmd;
         s = s\<lparr>pf_claims := dput (cl_actor c, key)
           \<lparr>cs_hash = hash, cs_outcome = CL_PENDING, cs_payment = None, cs_invoice = None\<rparr> (pf_claims s)\<rparr> in
     case call_port (port_pay (pe_port E) cmd) s of
       (Inr payment, s) \<Rightarrow> conclude_payment E c cmd key payment a s
     | (Inl e, s) \<Rightarrow>
         (if e = UncertainOutcome
          then seq (mark_uncertain E c cmd key None a None) (\<lambda>_. ret (other_result ''UNCERTAIN'' ''outcome unknown'')) s
          else if is_provider_error e
          then seq (put_claim (cl_actor c, key)
                 \<lparr>cs_hash = hash, cs_outcome = CL_REJECTED, cs_payment = None, cs_invoice = None\<rparr>) (\<lambda>_.
               seq (pay_log E (pc_invoice cmd) ''payment_rejected'' c
                 [(''reason'', ''provider rejected payment''), (''evidence_ref'', pc_evidence cmd)]) (\<lambda>_.
               fail_with WorkflowBlocked)) s
          else (Inl e, s)))"

text \<open>\<^verbatim>\<open>idempotency_key or evidence_ref\<close>.\<close>

definition claim_key :: "str option \<Rightarrow> draft_payment_command \<Rightarrow> str" where
  "claim_key key cmd = (case key of None \<Rightarrow> pc_evidence cmd
     | Some k \<Rightarrow> if k = [] then pc_evidence cmd else k)"

definition record_payment_flow ::
  "'w pay_env \<Rightarrow> caller \<Rightarrow> str option \<Rightarrow> draft_payment_command \<Rightarrow> ('w pay_flow, pay_result) act" where
  "record_payment_flow E c key cmd =
    seq (check_payment_input E c cmd) (\<lambda>_.
    seq (admit_payment E c cmd) (\<lambda>(invoice, a).
    look (\<lambda>s. dget (pf_claims s) (cl_actor c, claim_key key cmd)) (\<lambda>existing.
    seq (replay_claim E c cmd (payment_hash (pe_libs E) cmd) existing) (\<lambda>done.
    case done of
      Some result \<Rightarrow> ret result
    | None \<Rightarrow>
        seq (check_open_amount E c cmd existing invoice) (\<lambda>_.
        attempt_payment E c cmd (claim_key key cmd) a)))))"

section \<open>Classifying an uncertain payment\<close>

text \<open>\<open>_anchor_invoice\<close>: the loop over the claims with \<open>exact\<close> and \<open>actor_pending\<close> so far.\<close>

fun anchor_invoice ::
  "str \<Rightarrow> str \<Rightarrow> ((str \<times> str) \<times> claim_state) list \<Rightarrow> str option \<Rightarrow> str list \<Rightarrow> str option" where
  "anchor_invoice actor evidence [] exact mine =
    (case exact of Some i \<Rightarrow> Some i | None \<Rightarrow> (case mine of [i] \<Rightarrow> Some i | _ \<Rightarrow> None))"
| "anchor_invoice actor evidence (((claim_actor, key), cl) # cs) exact mine =
    (if cs_outcome cl \<noteq> CL_UNCERTAIN then anchor_invoice actor evidence cs exact mine
     else (case cs_invoice cl of
        None \<Rightarrow> anchor_invoice actor evidence cs exact mine
      | Some i \<Rightarrow>
          if key = evidence then
            (if claim_actor = actor then Some i else anchor_invoice actor evidence cs (Some i) mine)
          else anchor_invoice actor evidence cs exact (if claim_actor = actor then mine @ [i] else mine)))"

text \<open>The loop that resolves every uncertain claim of the unit.\<close>

fun resolve_claims ::
  "'w pay_env \<Rightarrow> str \<Rightarrow> (claim_state \<Rightarrow> claim_state) \<Rightarrow> ((str \<times> str) \<times> claim_state) list
   \<Rightarrow> ('w pay_flow, unit) act" where
  "resolve_claims E unit new [] = ret ()"
| "resolve_claims E unit new ((k, cl) # cs) =
    (if cs_outcome cl \<noteq> CL_UNCERTAIN then resolve_claims E unit new cs
     else (case cs_invoice cl of
        None \<Rightarrow> seq (put_claim k (new cl)) (\<lambda>_. resolve_claims E unit new cs)
      | Some i \<Rightarrow>
          seq (resolve_unit_ref E i) (\<lambda>(claim_unit, _).
            if claim_unit \<noteq> unit then resolve_claims E unit new cs
            else seq (put_claim k (new cl)) (\<lambda>_. resolve_claims E unit new cs))))"

definition release_pending :: "str \<Rightarrow> ('w pay_flow, unit) act" where
  "release_pending evidence = upd (\<lambda>s. s\<lparr>pf_pending := pf_pending s - {evidence}\<rparr>)"

definition absent_claim :: "claim_state \<Rightarrow> claim_state" where
  "absent_claim cl = \<lparr>cs_hash = cs_hash cl, cs_outcome = CL_REJECTED, cs_payment = None, cs_invoice = cs_invoice cl\<rparr>"

definition present_claim :: "str \<Rightarrow> claim_state \<Rightarrow> claim_state" where
  "present_claim ref cl =
    \<lparr>cs_hash = cs_hash cl, cs_outcome = CL_RECORDED, cs_payment = Some ref, cs_invoice = cs_invoice cl\<rparr>"

text \<open>The unit that the pending claim belongs to, and the authorization for it.\<close>

definition admit_reconcile ::
  "'w pay_env \<Rightarrow> caller \<Rightarrow> str \<Rightarrow> ('w pay_flow, str \<times> assignment) act" where
  "admit_reconcile E c evidence =
    look pf_pending (\<lambda>pending.
    seq (guard (evidence \<in> pending) (pay_deny E ''reconcile_payment'' c ''INVALID_STATE'' WorkflowBlocked)) (\<lambda>_.
    look (\<lambda>s. anchor_invoice (cl_actor c) evidence (pf_claims s) None []) (\<lambda>anchor.
    case anchor of
      None \<Rightarrow> pay_deny E ''reconcile_payment'' c ''INVALID_STATE'' WorkflowBlocked
    | Some i \<Rightarrow>
        seq (resolve_unit_ref E i) (\<lambda>(unit, _).
        seq (pay_authorize E ''reconcile_payment'' c unit) (\<lambda>granted_unit.
        seq (pure (selected_assignment (cl_actor c) unit (cl_at c) (cl_assignments c))) (\<lambda>a.
        ret (granted_unit, a)))))))"

definition reconcile_absent ::
  "'w pay_env \<Rightarrow> caller \<Rightarrow> str \<Rightarrow> str \<Rightarrow> ('w pay_flow, pay_result) act" where
  "reconcile_absent E c evidence unit =
    seq (release_pending evidence) (\<lambda>_.
    look pf_claims (\<lambda>claims.
    seq (resolve_claims E unit absent_claim claims) (\<lambda>_.
    seq (pay_log E evidence ''reconcile_absent'' c []) (\<lambda>_.
    ret (other_result ''REJECTED'' ''provider has no such payment'')))))"

definition reconcile_present ::
  "'w pay_env \<Rightarrow> caller \<Rightarrow> str \<Rightarrow> str \<Rightarrow> assignment \<Rightarrow> payment_record \<Rightarrow> ('w pay_flow, pay_result) act" where
  "reconcile_present E c evidence unit a rec =
    seq (release_pending evidence) (\<lambda>_.
    look pf_claims (\<lambda>claims.
    seq (resolve_claims E unit (present_claim (pr_reference rec)) claims) (\<lambda>_.
    seq (upd (\<lambda>s. s\<lparr>pf_evidence := dput evidence (pr_reference rec) (pf_evidence s)\<rparr>)) (\<lambda>_.
    seq (resolve_unit_ref E (pr_invoice rec)) (\<lambda>(_, invoice).
    seq (pure (invoice_status invoice)) (\<lambda>status.
    seq (pay_log E (pr_invoice rec) ''reconcile_payment'' c
           [(''payment_ref'', pr_reference rec), (''evidence_ref'', evidence),
            (''receivable_status'', status), (''assignment_ref'', as_ref a)]) (\<lambda>_.
    ret (recorded_result (Some (pr_reference rec)) status))))))))"

definition reconcile_payment_flow ::
  "'w pay_env \<Rightarrow> caller \<Rightarrow> str \<Rightarrow> ('w pay_flow, pay_result) act" where
  "reconcile_payment_flow E c evidence =
    seq (admit_reconcile E c evidence) (\<lambda>(unit, a) s.
      case call_port (port_reconcile_payment (pe_port E) evidence) s of
        (Inr rec, s) \<Rightarrow> reconcile_present E c evidence unit a rec s
      | (Inl e, s) \<Rightarrow>
          (if e = UncertainOutcome
           then seq (pay_log E evidence ''reconcile_uncertain'' c [(''reason'', ''outcome still unknown'')])
                  (\<lambda>_. ret (other_result ''UNCERTAIN'' ''outcome unknown'')) s
           else if is_provider_error e then reconcile_absent E c evidence unit s
           else (Inl e, s)))"

section \<open>Reversing a payment\<close>

definition admit_reversal ::
  "'w pay_env \<Rightarrow> caller \<Rightarrow> reversal_command \<Rightarrow> ('w pay_flow, payment_record \<times> assignment) act" where
  "admit_reversal E c cmd =
    seq (require_ref (rc_payment cmd) ''PAY-'') (\<lambda>_.
    seq (guard (strip (rc_reason cmd) \<noteq> [])
           (pay_deny E ''reverse_payment'' c ''INVALID_INPUT'' WorkflowBlocked)) (\<lambda>_.
    seq (handle (call_port (port_read_payment (pe_port E) (rc_payment cmd)))
          (\<lambda>e. if is_provider_error e
             then pay_deny E ''reverse_payment'' c ''INVALID_STATE'' WorkflowBlocked else fail_with e)) (\<lambda>pay.
    seq (guard (pr_reversal_of pay = None)
           (pay_deny E ''reverse_payment'' c ''INVALID_STATE'' WorkflowBlocked)) (\<lambda>_.
    look pf_reversed (\<lambda>reversed.
    seq (guard (rc_payment cmd \<notin> reversed)
           (pay_deny E ''reverse_payment'' c ''INVALID_STATE'' WorkflowBlocked)) (\<lambda>_.
    seq (resolve_unit_ref E (pr_invoice pay)) (\<lambda>(unit, _).
    seq (pay_authorize E ''reverse_payment'' c unit) (\<lambda>granted_unit.
    seq (pure (selected_assignment (cl_actor c) granted_unit (cl_at c) (cl_assignments c))) (\<lambda>a.
    ret (pay, a))))))))))"

definition reverse_payment_flow ::
  "'w pay_env \<Rightarrow> caller \<Rightarrow> reversal_command \<Rightarrow> ('w pay_flow, pay_result) act" where
  "reverse_payment_flow E c cmd =
    seq (admit_reversal E c cmd) (\<lambda>(pay, a).
    seq (handle (call_port (port_reverse (pe_port E) cmd))
          (\<lambda>e. if is_provider_error e
             then pay_deny E ''reverse_payment'' c ''INVALID_STATE'' WorkflowBlocked else fail_with e)) (\<lambda>reversal.
    seq (upd (\<lambda>s. s\<lparr>pf_reversed := insert (rc_payment cmd) (pf_reversed s)\<rparr>)) (\<lambda>_.
    seq (resolve_unit_ref E (pr_invoice pay)) (\<lambda>(_, invoice).
    seq (pure (invoice_status invoice)) (\<lambda>status.
    seq (pay_log E (pr_invoice pay) ''payment_reversed'' c
           [(''payment_ref'', rc_payment cmd), (''reversal_ref'', reversal),
            (''receivable_status'', status), (''assignment_ref'', as_ref a)]) (\<lambda>_.
    ret (recorded_result (Some reversal) status)))))))"

definition payment_events :: "str \<Rightarrow> 'w pay_flow \<Rightarrow> (str, json) dict list" where
  "payment_events anchor s = (case dget (pf_audit s) anchor of None \<Rightarrow> [] | Some es \<Rightarrow> es)"

section \<open>Runs\<close>

datatype pay_cmd =
    RecordPayment caller "str option" draft_payment_command
  | ReconcilePayment caller str
  | ReversePayment caller reversal_command

fun pay_step :: "'w pay_env \<Rightarrow> pay_cmd \<Rightarrow> ('w pay_flow, pay_result) act" where
  "pay_step E (RecordPayment c key cmd) = record_payment_flow E c key cmd"
| "pay_step E (ReconcilePayment c evidence) = reconcile_payment_flow E c evidence"
| "pay_step E (ReversePayment c cmd) = reverse_payment_flow E c cmd"

section \<open>A provider of payments\<close>

text \<open>
  What the workflow relies on beyond the read-back contract: reading changes no document and
  fails only with a provider error, reconciliation is supported; a payment that is confirmed is the one payment with that
  evidence; a refused one changed nothing; an uncertain one did one or the other; a reversal
  leaves the recorded payments in place.
\<close>

locale payment_port = readback_port +
  assumes read_frame: "port_read P i w = (ri, w') \<Longrightarrow>
      w' = w \<and> (\<forall>e. ri = Inl e \<longrightarrow> is_provider_error e)"
    and read_payment_frame: "port_read_payment P p w = (rp, w') \<Longrightarrow>
      w' = w \<and> (\<forall>e. rp = Inl e \<longrightarrow> is_provider_error e)"
    and pay_done: "inv w \<Longrightarrow> port_pay P c w = (Inr ref, w') \<Longrightarrow>
      inv w' \<and> paid w (pc_evidence c) = None \<and> paid w' = (paid w)(pc_evidence c \<mapsto> ref)"
    and pay_refused: "inv w \<Longrightarrow> port_pay P c w = (Inl e, w') \<Longrightarrow> e \<noteq> UncertainOutcome \<Longrightarrow>
      inv w' \<and> paid w' = paid w"
    and pay_unknown: "inv w \<Longrightarrow> port_pay P c w = (Inl UncertainOutcome, w') \<Longrightarrow>
      inv w' \<and> (paid w' = paid w
        \<or> (\<exists>ref. paid w (pc_evidence c) = None \<and> paid w' = (paid w)(pc_evidence c \<mapsto> ref)))"
    and reconcile_supported: "inv w \<Longrightarrow> port_reconcile_payment P ev w = (Inl x, w') \<Longrightarrow>
      x \<in> {DocumentRejected, UncertainOutcome}"
    and reverse_keeps: "inv w \<Longrightarrow> port_reverse P rc w = (rr, w') \<Longrightarrow> inv w' \<and> paid w \<subseteq>\<^sub>m paid w'"

section \<open>What an action may touch\<close>

text \<open>Reading and logging only.\<close>

definition quiet :: "'w pay_flow \<Rightarrow> 'w pay_flow \<Rightarrow> bool" where
  "quiet s s' =
    (pf_claims s' = pf_claims s \<and> pf_evidence s' = pf_evidence s \<and> pf_pending s' = pf_pending s
     \<and> pf_reversed s' = pf_reversed s \<and> pf_queue s' = pf_queue s
     \<and> pf_world s' = pf_world s)"

lemma quiet_rel [simp]: "reflp (quiet)" "transp (quiet)"
  by (auto simp: reflp_def transp_def quiet_def)

lemma quiet_refl [simp]: "quiet s s"
  by (simp add: quiet_def)

lemma quiet_log [flow_rules]: "along (quiet) (pay_log E anchor action c detail)"
  by (simp add: pay_log_def along_def quiet_def)

lemma quiet_log_denied [flow_rules]: "along (quiet) (pay_log_denied E action c code)"
  by (simp add: pay_log_denied_def along_def quiet_def)

lemma quiet_deny [flow_rules]: "along (quiet) (pay_deny E action c code e)"
  unfolding pay_deny_def by (intro flow_rules quiet_rel)

lemma quiet_authorize [flow_rules]: "along (quiet) (pay_authorize E cmd c unit)"
  unfolding pay_authorize_def by (auto intro!: flow_rules split: sum.splits exn.splits)

lemma quiet_require [flow_rules]: "along (quiet) (require_ref v p)"
  unfolding require_ref_def by (intro flow_rules quiet_rel)

lemma quiet_account [flow_rules]: "along (quiet) (validate_account E u cur al cmd c)"
  unfolding validate_account_def by (auto intro!: flow_rules split: sum.splits exn.splits)

lemma quiet_input [flow_rules]: "along (quiet) (check_payment_input E c cmd)"
  unfolding check_payment_input_def by (intro flow_rules quiet_rel)

lemma quiet_amount [flow_rules]: "along (quiet) (check_open_amount E c cmd ex i)"
  unfolding check_open_amount_def by (intro flow_rules quiet_rel)

section \<open>What the workflow does with a provider that keeps the contract\<close>

text \<open>The claim that a payment made at the provider leaves behind: recorded and indexed under
  its evidence, or uncertain, anchored on its invoice, with the evidence pending.\<close>

definition tracked :: "libs \<Rightarrow> str \<times> str \<Rightarrow> draft_payment_command \<Rightarrow> str \<Rightarrow> 'w pay_flow \<Rightarrow> bool" where
  "tracked L k cmd ref s =
    (case dget (pf_claims s) k of None \<Rightarrow> False
     | Some cl \<Rightarrow> cs_hash cl = payment_hash L cmd \<and>
        ((cs_outcome cl = CL_RECORDED \<and> cs_payment cl = Some ref
            \<and> dget (pf_evidence s) (pc_evidence cmd) = Some ref)
         \<or> (cs_outcome cl = CL_UNCERTAIN \<and> cs_invoice cl = Some (pc_invoice cmd)
            \<and> pc_evidence cmd \<in> pf_pending s)))"

text \<open>What the claim itself records of the command that made it: the hash of its payload; once
  recorded, the reference that the evidence index \<open>known\<close> shows and no anchor; while uncertain,
  the invoice as its anchor.\<close>

definition claim_made :: "libs \<Rightarrow> draft_payment_command \<Rightarrow> (str \<Rightarrow> str option) \<Rightarrow> claim_state \<Rightarrow> bool" where
  "claim_made L cmd known cl =
    (cs_hash cl = payment_hash L cmd
     \<and> (cs_outcome cl = CL_RECORDED \<longrightarrow> cs_invoice cl = None \<and> cs_payment cl \<noteq> None \<and> known (pc_evidence cmd) = cs_payment cl)
     \<and> (cs_outcome cl = CL_UNCERTAIN \<longrightarrow> cs_invoice cl = Some (pc_invoice cmd)))"

definition made_at :: "libs \<Rightarrow> str \<times> str \<Rightarrow> draft_payment_command \<Rightarrow> 'w pay_flow \<Rightarrow> bool" where
  "made_at L k cmd s = (\<exists>cl. dget (pf_claims s) k = Some cl \<and> claim_made L cmd (dget (pf_evidence s)) cl)"

lemma made_uncertain:
  "tracked L k cmd ref s \<Longrightarrow> dget (pf_claims s) k = Some cl \<Longrightarrow> cs_outcome cl = CL_UNCERTAIN \<Longrightarrow> made_at L k cmd s"
  by (auto simp: tracked_def made_at_def claim_made_def)

lemma mark_uncertain_effect:
  assumes "mark_uncertain E c cmd key payment a why s = (r, s')"
  shows "pf_claims s' = dput (cl_actor c, key) \<lparr>cs_hash = payment_hash (pe_libs E) cmd,
      cs_outcome = CL_UNCERTAIN, cs_payment = payment, cs_invoice = Some (pc_invoice cmd)\<rparr> (pf_claims s)
    \<and> pf_pending s' = insert (pc_evidence cmd) (pf_pending s) \<and> pf_evidence s' = pf_evidence s
    \<and> pf_reversed s' = pf_reversed s \<and> pf_world s' = pf_world s"
  using assms
  by (auto simp: mark_uncertain_def put_claim_def queue_payment_def pay_log_def seq_def Let_def
      split: prod.splits sum.splits)

lemma mark_uncertain_fails:
  "seq (mark_uncertain E c cmd key payment a why) (\<lambda>_. fail_with e) s = (r, s') \<Longrightarrow>
     (\<exists>e'. r = Inl e') \<and> (\<exists>r'. mark_uncertain E c cmd key payment a why s = (r', s'))"
  by (auto simp: seq_def split: prod.splits sum.splits)

context payment_port
begin

lemma quiet_call:
  assumes "\<And>w x w'. f w = (x, w') \<Longrightarrow> w' = w"
  shows "along (quiet) (call_port f)"
  using assms by (auto simp: along_def call_port_def quiet_def Let_def split: prod.splits)

lemma quiet_unit [flow_rules]:
  assumes "pe_port E = P"
  shows "along (quiet) (resolve_unit_ref E ref)"
proof -
  have "along (quiet) (call_port (port_read (pe_port E) ref))"
    unfolding assms by (rule quiet_call) (use read_frame in blast)
  then show ?thesis unfolding resolve_unit_ref_def by (intro flow_rules quiet_rel)
qed

lemma quiet_read_payment:
  "pe_port E = P \<Longrightarrow> along (quiet) (call_port (port_read_payment (pe_port E) ref))"
  by (rule quiet_call) (use read_payment_frame in blast)

lemma quiet_admit:
  "pe_port E = P \<Longrightarrow> along (quiet) (admit_payment E c cmd)"
  unfolding admit_payment_def by (auto intro!: flow_rules split: prod.splits)

lemma quiet_replay:
  "pe_port E = P \<Longrightarrow> along (quiet) (replay_claim E c cmd h ex)"
  unfolding replay_claim_def by (auto intro!: flow_rules split: prod.splits option.splits)

lemma quiet_admit_reconcile:
  "pe_port E = P \<Longrightarrow> along (quiet) (admit_reconcile E c ev)"
  unfolding admit_reconcile_def by (auto intro!: flow_rules split: prod.splits option.splits)

lemma quiet_admit_reversal:
  "pe_port E = P \<Longrightarrow> along (quiet) (admit_reversal E c rc)"
  unfolding admit_reversal_def by (auto intro!: flow_rules quiet_read_payment split: prod.splits option.splits)

end

lemma mark_uncertain_tracked:
  assumes "seq (mark_uncertain E c cmd key payment a why) f s = (r, s')" "\<And>x t. snd (f x t) = t"
  shows "tracked (pe_libs E) (cl_actor c, key) cmd ref s' \<and> pf_world s' = pf_world s
    \<and> pf_evidence s' = pf_evidence s \<and> pf_reversed s' = pf_reversed s
    \<and> pf_pending s' = insert (pc_evidence cmd) (pf_pending s)
    \<and> (\<exists>cl. cs_outcome cl = CL_UNCERTAIN \<and> cs_invoice cl \<noteq> None
        \<and> pf_claims s' = dput (cl_actor c, key) cl (pf_claims s))"
proof -
  obtain r' s1 where m: "mark_uncertain E c cmd key payment a why s = (r', s1)" by fastforce
  have "s' = s1" using assms m by (cases r') (auto simp: seq_def, metis snd_conv)
  with mark_uncertain_effect [OF m] show ?thesis
    by (simp add: tracked_def) (metis claim_state.select_convs(2,4) option.discI)
qed

lemma call_port_run:
  "call_port f s = (r, s') \<Longrightarrow> \<exists>w'. f (pf_world s) = (r, w') \<and> s' = s\<lparr>pf_world := w'\<rparr>"
  by (auto simp: call_port_def Let_def split: prod.splits)

text \<open>What \<open>record_payment\<close> leaves of the other claims, and of its own when it succeeds.\<close>

definition claims_moved :: "str \<times> str \<Rightarrow> 'w pay_flow \<Rightarrow> 'w pay_flow \<Rightarrow> bool" where
  "claims_moved k s s' = ((\<forall>k'. k' \<noteq> k \<longrightarrow> dget (pf_claims s') k' = dget (pf_claims s) k')
     \<and> pf_reversed s' = pf_reversed s \<and> pf_pending s \<subseteq> pf_pending s'
     \<and> (dict_ok (pf_claims s) \<longrightarrow> dict_ok (pf_claims s')))"

context payment_port
begin

lemma conclude_effect:
  assumes E: "pe_port E = P" and inv: "inv (pf_world s)"
    and run: "conclude_payment E c cmd key ref a s = (r, s')"
  shows "inv (pf_world s') \<and> paid (pf_world s') = paid (pf_world s)
    \<and> tracked (pe_libs E) (cl_actor c, key) cmd ref s' \<and> claims_moved (cl_actor c, key) s s'
    \<and> (\<forall>x. r = Inr x \<longrightarrow> pw_outcome x = ''RECORDED'' \<and> pw_payment x = Some ref
        \<and> dget (pf_evidence s') (pc_evidence cmd) = Some ref)
    \<and> pf_evidence s' \<in> {pf_evidence s, dput (pc_evidence cmd) ref (pf_evidence s)}
    \<and> made_at (pe_libs E) (cl_actor c, key) cmd s'"
proof -
  let ?m = "seq (call_port (port_read_payment (pe_port E) ref)) (\<lambda>rec.
           seq (call_port (port_read (pe_port E) (pc_invoice cmd))) (\<lambda>refreshed. ret (rec, refreshed)))"
  obtain x s1 where m: "?m s = (x, s1)" by fastforce
  have "along (quiet) ?m"
    unfolding E by (intro flow_rules quiet_rel quiet_call) (use read_frame read_payment_frame in blast)+
  from alongD [OF this m] have q: "quiet s s1" .
  with inv have w1: "inv (pf_world s1)" "pf_world s1 = pf_world s" by (auto simp: quiet_def)
  have err: "is_provider_error e" if "x = Inl e" for e
  proof -
    have "?m s = (Inl e, s1)" using m that by simp
    then show ?thesis
    proof (cases rule: seq_cases)
      case (raised e')
      then obtain w' where "port_read_payment P ref (pf_world s) = (Inl e, w')"
        unfolding E by (auto dest!: call_port_run)
      from read_payment_frame [OF this] show ?thesis by blast
    next
      case (went rec t)
      from went(2) obtain w'' where "port_read P (pc_invoice cmd) (pf_world t) = (Inl e, w'')"
        unfolding E by (elim seq_cases) (auto dest!: call_port_run)
      from read_frame [OF this] show ?thesis by blast
    qed
  qed
  have marked: ?thesis if "seq (mark_uncertain E c cmd key (Some ref) a why) (\<lambda>_. fail_with WorkflowBlocked) s1 = (r, s')" for why
  proof -
    from mark_uncertain_tracked [OF that, of ref]
    have t: "tracked (pe_libs E) (cl_actor c, key) cmd ref s'" "pf_world s' = pf_world s1"
      "pf_evidence s' = pf_evidence s1" "pf_reversed s' = pf_reversed s1"
      "pf_pending s' = insert (pc_evidence cmd) (pf_pending s1)"
      "\<exists>cl. cs_outcome cl = CL_UNCERTAIN \<and> pf_claims s' = dput (cl_actor c, key) cl (pf_claims s1)" by auto
    obtain cl where cl: "pf_claims s' = dput (cl_actor c, key) cl (pf_claims s1)" "cs_outcome cl = CL_UNCERTAIN"
      using t(6) by blast
    have "made_at (pe_libs E) (cl_actor c, key) cmd s'" using made_uncertain [OF t(1) _ cl(2)] cl(1) by simp
    moreover
    have "\<exists>e. r = Inl e" using mark_uncertain_fails [OF that] by blast
    moreover have "claims_moved (cl_actor c, key) s s'"
      using q t(4,5) cl by (auto simp: claims_moved_def quiet_def)
    moreover have "pf_evidence s' = pf_evidence s" using q t(3) by (simp add: quiet_def)
    ultimately show ?thesis using w1 t(1,2) by auto
  qed
  show ?thesis
  proof (cases x)
    case (Inl e)
    with m err [OF Inl] run have "seq (mark_uncertain E c cmd key (Some ref) a (Some ''read-back failed''))
        (\<lambda>_. fail_with WorkflowBlocked) s1 = (r, s')"
      by (auto simp: conclude_payment_def seq_def [of "handle _ _"] handle_def seq_def [of "mark_uncertain _ _ _ _ _ _ _"]
          split: prod.splits sum.splits)
    then show ?thesis by (rule marked)
  next
    case (Inr y)
    obtain rec refreshed where y: "y = (rec, refreshed)" by fastforce
    show ?thesis
    proof (cases "pr_evidence rec \<noteq> pc_evidence cmd \<or> pr_invoice rec \<noteq> pc_invoice cmd")
      case True
      with m Inr y run have "seq (mark_uncertain E c cmd key (Some ref) a (Some ''read-back mismatch''))
          (\<lambda>_. fail_with WorkflowBlocked) s1 = (r, s')"
        by (simp add: conclude_payment_def seq_def [of "handle _ _"] handle_def)
      then show ?thesis by (rule marked)
    next
      case False
      with m Inr y run w1 q show ?thesis
        by (auto simp: conclude_payment_def seq_def [of "handle _ _"] handle_def put_claim_def pay_log_def
            tracked_def made_at_def claim_made_def claims_moved_def quiet_def recorded_result_def seq_def [of "pure _"]
            split: sum.splits)
    qed
  qed
qed

end

text \<open>Well-typed states: every recorded claim and every entry of the evidence index names a
  payment that the provider has, every uncertain claim has its scope anchor.\<close>

definition claim_ok :: "(str \<Rightarrow> str option) \<Rightarrow> claim_state \<Rightarrow> bool" where
  "claim_ok truth cl =
    ((cs_outcome cl = CL_RECORDED \<longrightarrow> (\<exists>e ref. cs_payment cl = Some ref \<and> truth e = Some ref))
     \<and> (cs_outcome cl = CL_UNCERTAIN \<longrightarrow> cs_invoice cl \<noteq> None))"

definition flow_ok :: "('w \<Rightarrow> bool) \<Rightarrow> ('w \<Rightarrow> str \<Rightarrow> str option) \<Rightarrow> 'w pay_flow \<Rightarrow> bool" where
  "flow_ok I pd s =
    (I (pf_world s)
     \<and> (\<forall>e ref. dget (pf_evidence s) e = Some ref \<longrightarrow> pd (pf_world s) e = Some ref)
     \<and> dict_ok (pf_claims s)
     \<and> (\<forall>k cl. dget (pf_claims s) k = Some cl \<longrightarrow> claim_ok (pd (pf_world s)) cl))"

lemma claim_ok_mono: "claim_ok t cl \<Longrightarrow> t \<subseteq>\<^sub>m t' \<Longrightarrow> claim_ok t' cl"
  unfolding claim_ok_def map_le_def by (metis domI)

lemma flow_ok_quiet: "quiet s s' \<Longrightarrow> flow_ok I pd s \<Longrightarrow> flow_ok I pd s'"
  by (auto simp: quiet_def flow_ok_def)

lemma flow_okD:
  assumes "flow_ok I pd s"
  shows "I (pf_world s)" "dget (pf_evidence s) e = Some ref \<Longrightarrow> pd (pf_world s) e = Some ref"
    "dict_ok (pf_claims s)" "dget (pf_claims s) k = Some cl \<Longrightarrow> claim_ok (pd (pf_world s)) cl"
  using assms unfolding flow_ok_def by blast+

lemma flow_okI:
  "I (pf_world s) \<Longrightarrow> (\<And>e ref. dget (pf_evidence s) e = Some ref \<Longrightarrow> pd (pf_world s) e = Some ref) \<Longrightarrow>
   dict_ok (pf_claims s) \<Longrightarrow> (\<And>k cl. dget (pf_claims s) k = Some cl \<Longrightarrow> claim_ok (pd (pf_world s)) cl) \<Longrightarrow>
   flow_ok I pd s"
  unfolding flow_ok_def by blast

lemma claims_movedD: "claims_moved k s s' \<Longrightarrow> k' \<noteq> k \<Longrightarrow> dget (pf_claims s') k' = dget (pf_claims s) k'"
  unfolding claims_moved_def by blast

lemma map_leD: "m \<subseteq>\<^sub>m m' \<Longrightarrow> m k = Some v \<Longrightarrow> m' k = Some v"
  by (auto simp: map_le_def dom_def)

lemma flow_ok_world:
  assumes "flow_ok I pd s" "pf_claims s' = pf_claims s" "pf_evidence s' = pf_evidence s"
    "I (pf_world s')" "pd (pf_world s) \<subseteq>\<^sub>m pd (pf_world s')"
  shows "flow_ok I pd s'"
proof (rule flow_okI)
  show "dict_ok (pf_claims s')" using assms(2) flow_okD(3) [OF assms(1)] by simp
  show "claim_ok (pd (pf_world s')) cl" if "dget (pf_claims s') k = Some cl" for k cl
    by (rule claim_ok_mono [OF flow_okD(4) [OF assms(1)] assms(5)]) (use that assms(2) in simp)
  show "pd (pf_world s') e = Some ref" if "dget (pf_evidence s') e = Some ref" for e ref
    by (rule map_leD [OF assms(5) flow_okD(2) [OF assms(1)]]) (use that assms(3) in simp)
qed (rule assms)

text \<open>How an attempt at the provider can end.\<close>

definition attempt_end ::
  "('w \<Rightarrow> bool) \<Rightarrow> ('w \<Rightarrow> str \<Rightarrow> str option) \<Rightarrow> libs \<Rightarrow> str \<times> str \<Rightarrow> draft_payment_command
   \<Rightarrow> 'w pay_flow \<Rightarrow> pay_result res \<Rightarrow> 'w pay_flow \<Rightarrow> bool" where
  "attempt_end I pd L k cmd s r s' =
    (let e = pc_evidence cmd; w = pf_world s; w' = pf_world s' in
     I w' \<and> claims_moved k s s'
     \<and> (\<exists>cl. dget (pf_claims s') k = Some cl \<and> claim_ok (pd w') cl \<and> claim_made L cmd (dget (pf_evidence s')) cl)
     \<and> (pf_evidence s' = pf_evidence s
        \<or> (\<exists>ref. pf_evidence s' = dput e ref (pf_evidence s) \<and> pd w' e = Some ref))
     \<and> (pd w' = pd w
        \<or> (\<exists>ref. pd w e = None \<and> pd w' = (pd w)(e \<mapsto> ref) \<and> tracked L k cmd ref s'))
     \<and> (\<forall>x. r = Inr x \<and> pw_outcome x = ''RECORDED'' \<longrightarrow>
          (\<exists>ref. pw_payment x = Some ref \<and> pd w' e = Some ref \<and> dget (pf_evidence s') e = Some ref
            \<and> tracked L k cmd ref s')))"

context payment_port
begin

lemma attempt_effect:
  assumes E: "pe_port E = P" and inv: "inv (pf_world s)"
    and run: "attempt_payment E c cmd key a s = (r, s')"
  shows "attempt_end inv paid (pe_libs E) (cl_actor c, key) cmd s r s'"
proof -
  let ?s = "s\<lparr>pf_claims := dput (cl_actor c, key) \<lparr>cs_hash = payment_hash (pe_libs E) cmd,
      cs_outcome = CL_PENDING, cs_payment = None, cs_invoice = None\<rparr> (pf_claims s)\<rparr>"
  obtain x w1 where p: "port_pay P cmd (pf_world s) = (x, w1)" by fastforce
  let ?t = "?s\<lparr>pf_world := w1\<rparr>"
  have call: "call_port (port_pay (pe_port E) cmd) ?s = (x, ?t)" using p E by (simp add: call_port_def)
  show ?thesis
  proof (cases x)
    case (Inr ref)
    with p pay_done [OF inv] have w1: "inv w1" "paid (pf_world s) (pc_evidence cmd) = None"
      "paid w1 = (paid (pf_world s))(pc_evidence cmd \<mapsto> ref)" by auto
    have "conclude_payment E c cmd key ref a ?t = (r, s')"
      using run call Inr by (simp add: attempt_payment_def Let_def)
    from conclude_effect [OF E _ this] w1(1)
    have e: "inv (pf_world s')" "paid (pf_world s') = paid w1"
      "tracked (pe_libs E) (cl_actor c, key) cmd ref s'" "claims_moved (cl_actor c, key) ?t s'"
      "\<forall>x. r = Inr x \<longrightarrow> pw_outcome x = ''RECORDED'' \<and> pw_payment x = Some ref
        \<and> dget (pf_evidence s') (pc_evidence cmd) = Some ref"
      "pf_evidence s' \<in> {pf_evidence ?t, dput (pc_evidence cmd) ref (pf_evidence ?t)}"
      "made_at (pe_libs E) (cl_actor c, key) cmd s'" by auto
    have cm: "claims_moved (cl_actor c, key) s s'" using e(4) by (simp add: claims_moved_def)
    have now: "paid (pf_world s') (pc_evidence cmd) = Some ref" using e(2) w1(3) by simp
    obtain cl where cl: "dget (pf_claims s') (cl_actor c, key) = Some cl"
      "cs_outcome cl = CL_RECORDED \<and> cs_payment cl = Some ref \<or> cs_outcome cl = CL_UNCERTAIN \<and> cs_invoice cl \<noteq> None"
      using e(3) by (auto simp: tracked_def split: option.splits)
    then have "claim_ok (paid (pf_world s')) cl" using now by (auto simp: claim_ok_def)
    with cl(1) e cm now w1 show ?thesis by (auto simp: attempt_end_def made_at_def Let_def)
  next
    case (Inl ex)
    consider "ex = UncertainOutcome" | "ex \<noteq> UncertainOutcome" "is_provider_error ex"
      | "ex \<noteq> UncertainOutcome" "\<not> is_provider_error ex" by blast
    then show ?thesis
    proof cases
      case 1
      have run': "seq (mark_uncertain E c cmd key None a None) (\<lambda>_. ret (other_result ''UNCERTAIN'' ''outcome unknown'')) ?t
          = (r, s')" using run call Inl 1 by (simp add: attempt_payment_def Let_def)
      have o: "\<And>x t. snd (ret (other_result ''UNCERTAIN'' ''outcome unknown'') t) = t" by simp
      note t = mark_uncertain_tracked [OF run' o]
      from t [of "[]"] obtain cl where m: "pf_world s' = w1"
          "pf_evidence s' = pf_evidence s" "pf_reversed s' = pf_reversed s"
          "pf_pending s' = insert (pc_evidence cmd) (pf_pending s)"
          "pf_claims s' = dput (cl_actor c, key) cl (pf_claims ?t)" "cs_outcome cl = CL_UNCERTAIN" "cs_invoice cl \<noteq> None"
        by auto
      have t: "tracked (pe_libs E) (cl_actor c, key) cmd ref s'" for ref using t [of ref] by blast
      have made: "made_at (pe_libs E) (cl_actor c, key) cmd s'" using made_uncertain [OF t _ m(6)] m(5) by simp
      have "r = Inr x \<Longrightarrow> pw_outcome x \<noteq> ''RECORDED''" for x
        using run' by (auto simp: seq_Inr other_result_def)
      moreover have "inv w1" "paid w1 = paid (pf_world s)
          \<or> (\<exists>ref. paid (pf_world s) (pc_evidence cmd) = None \<and> paid w1 = (paid (pf_world s))(pc_evidence cmd \<mapsto> ref))"
        using pay_unknown [OF inv] p Inl 1 by auto
      ultimately show ?thesis
        using m t made by (auto simp: attempt_end_def made_at_def Let_def claims_moved_def claim_ok_def)
    next
      case 2
      have w1: "inv w1" "paid w1 = paid (pf_world s)" using pay_refused [OF inv _ 2(1)] p Inl by auto
      from run call Inl 2 w1 show ?thesis
        by (auto simp: attempt_payment_def Let_def put_claim_def pay_log_def attempt_end_def claims_moved_def
            claim_ok_def claim_made_def)
    next
      case 3
      have w1: "inv w1" "paid w1 = paid (pf_world s)" using pay_refused [OF inv _ 3(1)] p Inl by auto
      from run call Inl 3 w1 show ?thesis
        by (auto simp: attempt_payment_def Let_def attempt_end_def claims_moved_def claim_ok_def claim_made_def)
    qed
  qed
qed

end

section \<open>What a payment that reaches the provider has passed\<close>

definition pay_input_ok :: "draft_payment_command \<Rightarrow> bool" where
  "pay_input_ok cmd = (ref_with ''EVI-'' (pc_evidence cmd) \<and> ref_with ''INV-'' (pc_invoice cmd)
     \<and> ref_with ''ACC-'' (pc_account cmd) \<and> positive_text (pc_amount cmd) \<and> iso_currency (pc_currency cmd))"

text \<open>For the invoice as the provider shows it: posted, its unit the caller's to act for, the
  account the one of the unit's policy, the currency the invoice's, enough of it open.\<close>

definition pay_warranted ::
  "'w pay_env \<Rightarrow> caller \<Rightarrow> draft_payment_command \<Rightarrow> invoice_record \<Rightarrow> bool" where
  "pay_warranted E c cmd i =
    (ir_status i = ''POSTED'' \<and> pc_currency cmd = ir_currency i
     \<and> (\<exists>unit a p opn. unit_of_payload (ir_payload i) = Inr unit
          \<and> empowered c (cl_channel c) ''PAYMENT_RECORD'' unit a
          \<and> unit_policy E unit (ir_currency i) (cl_at c) = Inr p
          \<and> pc_account cmd = fi_account (rp_identity p)
          \<and> read_amount (ir_open i) = Inr opn \<and> \<not> dlt opn (dec_of_text (pc_amount cmd))))"

lemma deny_not_Inr [simp]: "pay_deny E action c code e s \<noteq> (Inr x, s')"
  by (simp add: pay_deny_def pay_log_denied_def)

lemma check_input_Inr:
  "check_payment_input E c cmd s = (Inr u, s') \<Longrightarrow>
     s' = s \<and> pay_input_ok cmd \<and> pc_evidence cmd \<notin> pf_pending s"
  by (auto simp: check_payment_input_def require_ref_def seq_Inr guard_run pay_input_ok_def split: if_splits)

lemma authorize_Inr:
  "pay_authorize E cmd c unit s = (Inr u, s') \<longleftrightarrow>
     s' = s \<and> authorize_flow c (cl_channel c) ''PAYMENT_RECORD'' (Some unit) None None = Inr u"
  by (auto simp: pay_authorize_def split: sum.splits exn.splits)

lemma account_Inr:
  "validate_account E unit cur alias cmd c s = (Inr u, s') \<Longrightarrow>
     s' = s \<and> (\<exists>p. unit_policy E unit cur (cl_at c) = Inr p \<and> alias = fi_account (rp_identity p))"
  by (auto simp: validate_account_def split: sum.splits exn.splits if_splits)

lemma resolve_unit_Inr:
  "resolve_unit_ref E ref s = (Inr (u, i), s') \<Longrightarrow>
     \<exists>w'. port_read (pe_port E) ref (pf_world s) = (Inr i, w') \<and> s' = s\<lparr>pf_world := w'\<rparr>
       \<and> unit_of_payload (ir_payload i) = Inr u"
  by (auto simp: resolve_unit_ref_def seq_Inr handle_Inr pure_def dest!: call_port_run)

lemma admit_Inr:
  assumes "admit_payment E c cmd s = (Inr (i, a), s')" "caller_ok c"
  shows "\<exists>w' unit p. port_read (pe_port E) (pc_invoice cmd) (pf_world s) = (Inr i, w')
    \<and> s' = s\<lparr>pf_world := w'\<rparr> \<and> ir_status i = ''POSTED'' \<and> pc_currency cmd = ir_currency i
    \<and> unit_of_payload (ir_payload i) = Inr unit \<and> empowered c (cl_channel c) ''PAYMENT_RECORD'' unit a
    \<and> unit_policy E unit (ir_currency i) (cl_at c) = Inr p \<and> pc_account cmd = fi_account (rp_identity p)"
proof -
  obtain unit s1 u where r: "resolve_unit_ref E (pc_invoice cmd) s = (Inr (unit, i), s1)"
    and st: "ir_status i = ''POSTED''" and au: "authorize_flow c (cl_channel c) ''PAYMENT_RECORD'' (Some unit) None None = Inr u"
    and sel: "selected_assignment (cl_actor c) u (cl_at c) (cl_assignments c) = Inr a"
    and ac: "validate_account E unit (ir_currency i) (pc_account cmd) ''record_payment'' c s1 = (Inr (), s')"
    and cu: "pc_currency cmd = ir_currency i"
    using assms(1)
    by (auto simp: admit_payment_def seq_Inr guard_run authorize_Inr pure_def dest: account_Inr split: if_splits prod.splits)
  from authorize_flow_sound [OF au assms(2) [unfolded caller_ok_def]] sel
  have "empowered c (cl_channel c) ''PAYMENT_RECORD'' u a" "u = unit" by auto
  with resolve_unit_Inr [OF r] account_Inr [OF ac] st cu show ?thesis by auto
qed

lemma check_amount_Inr:
  "check_open_amount E c cmd ex i s = (Inr u, s') \<Longrightarrow>
     s' = s \<and> (\<exists>opn. read_amount (ir_open i) = Inr opn \<and> \<not> dlt opn (dec_of_text (pc_amount cmd)))"
  by (auto simp: check_open_amount_def seq_Inr guard_run pure_def split: if_splits)

lemma replay_None:
  "replay_claim E c cmd h ex s = (Inr None, s') \<Longrightarrow>
     s' = s \<and> (\<forall>cl. ex = Some cl \<longrightarrow> cs_hash cl = h \<and> cs_outcome cl \<in> {CL_PENDING, CL_REJECTED})"
  by (auto simp: replay_claim_def seq_Inr split: option.splits if_splits prod.splits
      intro: claim_outcome.exhaust)

lemma replay_Some:
  "replay_claim E c cmd h ex s = (Inr (Some x), s') \<Longrightarrow>
     \<exists>cl. ex = Some cl \<and> cs_hash cl = h \<and> cs_outcome cl = CL_RECORDED
       \<and> pw_payment x = cs_payment cl \<and> pw_outcome x = ''RECORDED''"
  by (auto simp: replay_claim_def seq_Inr recorded_result_def split: option.splits if_splits prod.splits)

context payment_port
begin

lemma record_cases:
  assumes E: "pe_port E = P" and ok: "caller_ok c" and run: "record_payment_flow E c key cmd s = (r, s')"
  defines "k \<equiv> (cl_actor c, claim_key key cmd)"
  obtains (early) "quiet s s'"
      "\<And>x. r = Inr x \<Longrightarrow> \<exists>cl. dget (pf_claims s) k = Some cl \<and> cs_hash cl = payment_hash (pe_libs E) cmd
         \<and> cs_outcome cl = CL_RECORDED \<and> pw_payment x = cs_payment cl \<and> pw_outcome x = ''RECORDED''"
  | (attempt) i a s1 w1 where "quiet s s1" "port_read P (pc_invoice cmd) (pf_world s) = (Inr i, w1)"
      "pay_input_ok cmd" "pc_evidence cmd \<notin> pf_pending s" "pay_warranted E c cmd i"
      "\<And>cl. dget (pf_claims s) k = Some cl \<Longrightarrow>
         cs_hash cl = payment_hash (pe_libs E) cmd \<and> cs_outcome cl \<in> {CL_PENDING, CL_REJECTED}"
      "attempt_payment E c cmd (claim_key key cmd) a s1 = (r, s')"
proof -
  from run show thesis unfolding record_payment_flow_def
  proof (cases rule: seq_cases)
    case (raised e)
    with alongD [OF quiet_input raised(1)] show thesis by (intro early) auto
  next
    case (went u s0)
    from check_input_Inr [OF went(1)] have ck: "s0 = s" "pay_input_ok cmd" "pc_evidence cmd \<notin> pf_pending s" by auto
    from went(2) show thesis
    proof (cases rule: seq_cases)
      case (raised e)
      with alongD [OF quiet_admit [OF E] raised(1)] ck show thesis by (intro early) auto
    next
      case (went y s1)
      obtain i a where y: "y = (i, a)" by fastforce
      from admit_Inr [OF went(1) [unfolded y] ok] ck obtain w' unit p
        where ad: "port_read P (pc_invoice cmd) (pf_world s) = (Inr i, w')"
          "ir_status i = ''POSTED''" "pc_currency cmd = ir_currency i" "unit_of_payload (ir_payload i) = Inr unit"
          "empowered c (cl_channel c) ''PAYMENT_RECORD'' unit a"
          "unit_policy E unit (ir_currency i) (cl_at c) = Inr p" "pc_account cmd = fi_account (rp_identity p)"
        unfolding E by auto
      have q1: "quiet s s1" using alongD [OF quiet_admit [OF E] went(1)] ck(1) by simp
      let ?ex = "dget (pf_claims s1) k"
      have ex: "?ex = dget (pf_claims s) k" using q1 by (simp add: quiet_def)
      from went(2) have "seq (replay_claim E c cmd (payment_hash (pe_libs E) cmd) ?ex) (\<lambda>done.
          case done of Some result \<Rightarrow> ret result
          | None \<Rightarrow> seq (check_open_amount E c cmd ?ex i) (\<lambda>_.
              attempt_payment E c cmd (claim_key key cmd) a)) s1 = (r, s')"
        unfolding k_def y by simp
      then show thesis
      proof (cases rule: seq_cases)
        case (raised e)
        have "quiet s s'"
          using transpD [OF quiet_rel(2) q1 alongD [OF quiet_replay [OF E] raised(1)]] .
        with raised show thesis by (intro early) auto
      next
        case (went d s2)
        show thesis
        proof (cases d)
          case (Some x)
          have "quiet s s2"
            using transpD [OF quiet_rel(2) q1 alongD [OF quiet_replay [OF E] went(1)]] .
          with went Some replay_Some [OF went(1) [unfolded Some]] ex show thesis by (intro early) auto
        next
          case None
          from replay_None [OF went(1) [unfolded None]] ex have n: "s2 = s1"
            "\<And>cl. dget (pf_claims s) k = Some cl \<Longrightarrow>
               cs_hash cl = payment_hash (pe_libs E) cmd \<and> cs_outcome cl \<in> {CL_PENDING, CL_REJECTED}" by auto
          from went(2) None n(1) have "seq (check_open_amount E c cmd ?ex i) (\<lambda>_.
              attempt_payment E c cmd (claim_key key cmd) a) s1 = (r, s')" by simp
          then show thesis
          proof (cases rule: seq_cases)
            case (raised e)
            have "quiet s s'"
              using transpD [OF quiet_rel(2) q1 alongD [OF quiet_amount raised(1)]] .
            with raised show thesis by (intro early) auto
          next
            case (went u s3)
            from check_amount_Inr [OF went(1)] ad have "pay_warranted E c cmd i" "s3 = s1"
              by (auto simp: pay_warranted_def)
            with went(2) show thesis by (intro attempt [OF q1 ad(1) ck(2,3) _ n(2)]) auto
          qed
        qed
      qed
    qed
  qed
qed

end

section \<open>What a reconciliation does to the claims\<close>

text \<open>The claims of other units stay; an uncertain claim of the unit may have become
  \<open>new\<close> of itself.\<close>

definition unit_shown :: "'w erp_port \<Rightarrow> 'w \<Rightarrow> str \<Rightarrow> str \<Rightarrow> bool" where
  "unit_shown P w invoice unit = (\<exists>i. fst (port_read P invoice w) = Inr i \<and> unit_of_payload (ir_payload i) = Inr unit)"

definition claims_resolved ::
  "'w erp_port \<Rightarrow> str \<Rightarrow> (claim_state \<Rightarrow> claim_state) \<Rightarrow> 'w pay_flow \<Rightarrow> 'w pay_flow \<Rightarrow> bool" where
  "claims_resolved P unit new s s' =
    (\<forall>k. dget (pf_claims s') k = dget (pf_claims s) k
       \<or> (\<exists>cl. dget (pf_claims s) k = Some cl \<and> cs_outcome cl = CL_UNCERTAIN
            \<and> (\<forall>i. cs_invoice cl = Some i \<longrightarrow> unit_shown P (pf_world s') i unit)
            \<and> dget (pf_claims s') k = Some (new cl)))"

lemma claims_resolved_cong:
  "pf_claims s = pf_claims t \<Longrightarrow> pf_claims s' = pf_claims t' \<Longrightarrow> pf_world s' = pf_world t' \<Longrightarrow>
     claims_resolved Q u n s s' = claims_resolved Q u n t t'"
  by (simp add: claims_resolved_def)

definition claims_only :: "'w pay_flow \<Rightarrow> 'w pay_flow \<Rightarrow> bool" where
  "claims_only s s' = (pf_world s' = pf_world s \<and> pf_evidence s' = pf_evidence s \<and> pf_pending s' = pf_pending s
     \<and> pf_reversed s' = pf_reversed s \<and> pf_queue s' = pf_queue s
     \<and> (dict_ok (pf_claims s) \<longrightarrow> dict_ok (pf_claims s')))"

lemma claims_only_simps:
  "claims_only s s" "claims_only s s' \<Longrightarrow> claims_only s' s'' \<Longrightarrow> claims_only s s''"
  "quiet s s' \<Longrightarrow> claims_only s s'"
  by (auto simp: claims_only_def quiet_def)

lemma put_claim_step: "put_claim k cl s = (r, s') \<Longrightarrow>
    s' = s\<lparr>pf_claims := dput k cl (pf_claims s)\<rparr> \<and> r = Inr () \<and> claims_only s s'"
  by (auto simp: put_claim_def claims_only_def)

context payment_port
begin

lemma resolve_unit_shown:
  "pe_port E = P \<Longrightarrow> resolve_unit_ref E i s = (Inr (u, rec), s') \<Longrightarrow> quiet s s' \<and> unit_shown P (pf_world s) i u"
  using resolve_unit_Inr [of E i s u rec s'] alongD [OF quiet_unit, of E i s]
  by (fastforce simp: unit_shown_def)

lemma resolve_step:
  assumes E: "pe_port E = P" and inv: "\<And>k cl. (k, cl) \<in> set cs \<Longrightarrow> dget (pf_claims s) k = Some cl"
    and dis: "distinct (map fst cs)" and run: "resolve_claims E unit new cs s = (r, s')"
  shows "claims_only s s' \<and> claims_resolved P unit new s s'
    \<and> (\<forall>k. k \<notin> fst ` set cs \<longrightarrow> dget (pf_claims s') k = dget (pf_claims s) k)"
  using inv dis run
proof (induction cs arbitrary: s)
  case Nil
  then show ?case by (simp add: claims_only_simps(1) claims_resolved_def)
next
  case (Cons x cs)
  obtain k cl where x: "x = (k, cl)" by fastforce
  have kcl: "dget (pf_claims s) k = Some cl" using Cons.prems(1) x by simp
  have knew: "k \<notin> fst ` set cs" "distinct (map fst cs)" using Cons.prems(2) x by auto
  have goOn: ?case if q: "quiet s t" and r: "resolve_claims E unit new cs t = (r, s')" for t
  proof -
    have cl: "pf_claims t = pf_claims s" "pf_world t = pf_world s" using q by (simp_all add: quiet_def)
    have "claims_only t s' \<and> claims_resolved P unit new t s'
        \<and> (\<forall>k. k \<notin> fst ` set cs \<longrightarrow> dget (pf_claims s') k = dget (pf_claims t) k)"
      by (rule Cons.IH [OF _ knew(2) r]) (use Cons.prems(1) cl in auto)
    then show ?thesis
      using claims_only_simps(2) [OF claims_only_simps(3) [OF q]] cl by (auto simp: claims_resolved_def x)
  qed
  have putOn: ?case if q: "quiet s t" and u: "\<And>i. cs_invoice cl = Some i \<Longrightarrow> unit_shown P (pf_world s) i unit"
      and unc: "cs_outcome cl = CL_UNCERTAIN"
      and r: "seq (put_claim k (new cl)) (\<lambda>_. resolve_claims E unit new cs) t = (r, s')" for t
  proof -
    let ?t = "t\<lparr>pf_claims := dput k (new cl) (pf_claims t)\<rparr>"
    have cl: "pf_claims t = pf_claims s" "pf_world t = pf_world s" using q by (simp_all add: quiet_def)
    have r': "resolve_claims E unit new cs ?t = (r, s')" using r by (simp add: put_claim_def)
    have ih: "claims_only ?t s' \<and> claims_resolved P unit new ?t s'
        \<and> (\<forall>k. k \<notin> fst ` set cs \<longrightarrow> dget (pf_claims s') k = dget (pf_claims ?t) k)"
    proof (rule Cons.IH [OF _ knew(2) r'])
      fix k' cl' assume m: "(k', cl') \<in> set cs"
      with knew(1) have "k' \<noteq> k" by force
      with m Cons.prems(1) cl show "dget (pf_claims ?t) k' = Some cl'" by simp
    qed
    have w: "pf_world s' = pf_world s" using ih cl by (simp add: claims_only_def)
    have o: "claims_only s ?t" using q by (auto simp: quiet_def claims_only_def)
    have "dget (pf_claims s') k = dget (pf_claims ?t) k" using ih knew(1) by blast
    then have at_k: "dget (pf_claims s') k = Some (new cl)" by simp
    have elsewhere: "dget (pf_claims ?t) k' = dget (pf_claims s) k'" if "k' \<noteq> k" for k' using cl that by simp
    have "claims_resolved P unit new s s'" unfolding claims_resolved_def
    proof
      fix k'
      show "dget (pf_claims s') k' = dget (pf_claims s) k' \<or> (\<exists>cl. dget (pf_claims s) k' = Some cl
          \<and> cs_outcome cl = CL_UNCERTAIN \<and> (\<forall>i. cs_invoice cl = Some i \<longrightarrow> unit_shown P (pf_world s') i unit)
          \<and> dget (pf_claims s') k' = Some (new cl))"
      proof (cases "k' = k")
        case True
        then show ?thesis using at_k kcl unc u w by auto
      next
        case False
        from ih have "claims_resolved P unit new ?t s'" by blast
        then show ?thesis unfolding claims_resolved_def using elsewhere [OF False] by metis
      qed
    qed
    moreover have "dget (pf_claims s') k' = dget (pf_claims s) k'" if "k' \<notin> fst ` set (x # cs)" for k'
    proof -
      have "k' \<notin> fst ` set cs" "k' \<noteq> k" using that x by auto
      with ih have "dget (pf_claims s') k' = dget (pf_claims ?t) k'" by blast
      with elsewhere [OF \<open>k' \<noteq> k\<close>] show ?thesis by simp
    qed
    ultimately show ?thesis using ih claims_only_simps(2) [OF o] by blast
  qed
  show ?case
  proof (cases "cs_outcome cl = CL_UNCERTAIN")
    case False
    with Cons.prems(3) x show ?thesis by (intro goOn [of s]) auto
  next
    case True
    show ?thesis
    proof (cases "cs_invoice cl")
      case None
      with Cons.prems(3) x True show ?thesis by (intro putOn [of s]) auto
    next
      case (Some i)
      with Cons.prems(3) x True have "seq (resolve_unit_ref E i) (\<lambda>(claim_unit, _).
            if claim_unit \<noteq> unit then resolve_claims E unit new cs
            else seq (put_claim k (new cl)) (\<lambda>_. resolve_claims E unit new cs)) s = (r, s')" by simp
      then show ?thesis
      proof (cases rule: seq_cases)
        case (raised e)
        from alongD [OF quiet_unit [OF E] raised(1)] show ?thesis
          by (auto simp: quiet_def claims_only_def claims_resolved_def)
      next
        case (went y t)
        obtain u rec where y: "y = (u, rec)" by fastforce
        from resolve_unit_shown [OF E went(1) [unfolded y]] have q: "quiet s t" "unit_shown P (pf_world s) i u" by auto
        show ?thesis
        proof (cases "u = unit")
          case True
          with went(2) y q Some show ?thesis by (intro putOn [OF q(1) _ \<open>cs_outcome cl = CL_UNCERTAIN\<close>]) auto
        next
          case False
          with went(2) y q show ?thesis by (intro goOn [OF q(1)]) auto
        qed
      qed
    qed
  qed
qed

end

definition reconcile_end ::
  "('w \<Rightarrow> str \<Rightarrow> str option) \<Rightarrow> 'w erp_port \<Rightarrow> str \<Rightarrow> str \<Rightarrow> 'w pay_flow \<Rightarrow> pay_result res \<Rightarrow> 'w pay_flow \<Rightarrow> bool" where
  "reconcile_end pd P ev unit s r s' =
    (pd (pf_world s') = pd (pf_world s) \<and> pf_reversed s' = pf_reversed s
     \<and> (dict_ok (pf_claims s) \<longrightarrow> dict_ok (pf_claims s'))
     \<and> ((pf_pending s' = pf_pending s \<and> pf_claims s' = pf_claims s \<and> pf_evidence s' = pf_evidence s
          \<and> (\<forall>x. r = Inr x \<longrightarrow> pw_outcome x = ''UNCERTAIN''))
        \<or> (pf_pending s' = pf_pending s - {ev} \<and> claims_resolved P unit absent_claim s s'
          \<and> pf_evidence s' = pf_evidence s \<and> pd (pf_world s) ev = None
          \<and> (\<forall>x. r = Inr x \<longrightarrow> pw_outcome x = ''REJECTED''))
        \<or> (\<exists>ref. pf_pending s' = pf_pending s - {ev} \<and> claims_resolved P unit (present_claim ref) s s'
          \<and> pf_evidence s' \<in> {pf_evidence s, dput ev ref (pf_evidence s)} \<and> pd (pf_world s) ev = Some ref
          \<and> (\<forall>x. r = Inr x \<longrightarrow> pw_outcome x = ''RECORDED'' \<and> pw_payment x = Some ref
               \<and> pf_evidence s' = dput ev ref (pf_evidence s)))))"

context payment_port
begin

lemma resolve_all:
  assumes "pe_port E = P" "resolve_claims E unit new (pf_claims s) s = (r, s')" "dict_ok (pf_claims s)"
  shows "claims_only s s' \<and> claims_resolved P unit new s s'"
proof -
  have "\<And>k cl. (k, cl) \<in> set (pf_claims s) \<Longrightarrow> dget (pf_claims s) k = Some cl"
    using dict_ok_get [OF assms(3)] by blast
  moreover have "distinct (map fst (pf_claims s))" using assms(3) by (simp only: dict_ok_def)
  ultimately show ?thesis using resolve_step [OF assms(1) _ _ assms(2)] by blast
qed

lemma absent_effect:
  assumes E: "pe_port E = P" and d: "dict_ok (pf_claims s)"
    and run: "reconcile_absent E c ev unit s = (r, s')"
  shows "pf_world s' = pf_world s \<and> pf_reversed s' = pf_reversed s \<and> dict_ok (pf_claims s')
    \<and> pf_pending s' = pf_pending s - {ev} \<and> claims_resolved P unit absent_claim s s'
    \<and> pf_evidence s' = pf_evidence s \<and> (\<forall>x. r = Inr x \<longrightarrow> pw_outcome x = ''REJECTED'')"
proof -
  let ?t = "s\<lparr>pf_pending := pf_pending s - {ev}\<rparr>"
  have "seq (resolve_claims E unit absent_claim (pf_claims ?t)) (\<lambda>_. seq (pay_log E ev ''reconcile_absent'' c [])
      (\<lambda>_. ret (other_result ''REJECTED'' ''provider has no such payment''))) ?t = (r, s')"
    using run by (simp add: reconcile_absent_def release_pending_def)
  then show ?thesis
  proof (cases rule: seq_cases)
    case (raised e)
    have "claims_only ?t s' \<and> claims_resolved P unit absent_claim ?t s'" using resolve_all [OF E raised(1)] d by simp
    with claims_resolved_cong [of s ?t s' s'] d raised(2) show ?thesis by (auto simp: claims_only_def)
  next
    case (went u t)
    have "claims_only ?t t \<and> claims_resolved P unit absent_claim ?t t" using resolve_all [OF E went(1)] d by simp
    with claims_resolved_cong [of s ?t s' t] d went(2) show ?thesis
      by (auto simp: claims_only_def pay_log_def other_result_def)
  qed
qed

lemma present_effect:
  assumes E: "pe_port E = P" and d: "dict_ok (pf_claims s)"
    and run: "reconcile_present E c ev unit a rec s = (r, s')"
  shows "pf_world s' = pf_world s \<and> pf_reversed s' = pf_reversed s \<and> dict_ok (pf_claims s')
    \<and> pf_pending s' = pf_pending s - {ev} \<and> claims_resolved P unit (present_claim (pr_reference rec)) s s'
    \<and> pf_evidence s' \<in> {pf_evidence s, dput ev (pr_reference rec) (pf_evidence s)}
    \<and> (\<forall>x. r = Inr x \<longrightarrow> pw_outcome x = ''RECORDED'' \<and> pw_payment x = Some (pr_reference rec)
         \<and> pf_evidence s' = dput ev (pr_reference rec) (pf_evidence s))"
proof -
  let ?t = "s\<lparr>pf_pending := pf_pending s - {ev}\<rparr>" and ?ref = "pr_reference rec"
  let ?rest = "\<lambda>u. seq (upd (\<lambda>s. s\<lparr>pf_evidence := dput ev ?ref (pf_evidence s)\<rparr>)) (\<lambda>_.
    seq (resolve_unit_ref E (pr_invoice rec)) (\<lambda>(_, invoice).
    seq (pure (invoice_status invoice)) (\<lambda>status.
    seq (pay_log E (pr_invoice rec) ''reconcile_payment'' c
           [(''payment_ref'', ?ref), (''evidence_ref'', ev),
            (''receivable_status'', status), (''assignment_ref'', as_ref a)]) (\<lambda>_.
    ret (recorded_result (Some ?ref) status)))))"
  have "seq (resolve_claims E unit (present_claim ?ref) (pf_claims ?t)) ?rest ?t = (r, s')"
    using run by (simp add: reconcile_present_def release_pending_def)
  then show ?thesis
  proof (cases rule: seq_cases)
    case (raised e)
    have "claims_only ?t s' \<and> claims_resolved P unit (present_claim ?ref) ?t s'" using resolve_all [OF E raised(1)] d by simp
    with claims_resolved_cong [of s ?t s' s'] d raised(2) show ?thesis by (auto simp: claims_only_def)
  next
    case (went u t)
    have t: "claims_only ?t t" "claims_resolved P unit (present_claim ?ref) ?t t"
      using resolve_all [OF E went(1)] d by auto
    let ?v = "t\<lparr>pf_evidence := dput ev ?ref (pf_evidence t)\<rparr>"
    have "along quiet (seq (resolve_unit_ref E (pr_invoice rec)) (\<lambda>(_, invoice).
        seq (pure (invoice_status invoice)) (\<lambda>status.
        seq (pay_log E (pr_invoice rec) ''reconcile_payment'' c
           [(''payment_ref'', ?ref), (''evidence_ref'', ev),
            (''receivable_status'', status), (''assignment_ref'', as_ref a)]) (\<lambda>_.
        ret (recorded_result (Some ?ref) status)))))"
      using E by (auto intro!: flow_rules split: prod.splits)
    moreover have "seq (resolve_unit_ref E (pr_invoice rec)) (\<lambda>(_, invoice).
        seq (pure (invoice_status invoice)) (\<lambda>status.
        seq (pay_log E (pr_invoice rec) ''reconcile_payment'' c
           [(''payment_ref'', ?ref), (''evidence_ref'', ev),
            (''receivable_status'', status), (''assignment_ref'', as_ref a)]) (\<lambda>_.
        ret (recorded_result (Some ?ref) status)))) ?v = (r, s')"
      using went(2) by simp
    ultimately have "quiet ?v s'" "\<And>x. r = Inr x \<Longrightarrow> pw_outcome x = ''RECORDED'' \<and> pw_payment x = Some ?ref"
      by (auto dest: alongD simp: seq_Inr recorded_result_def split: prod.splits)
    with t d claims_resolved_cong [of s ?t s' t] show ?thesis
      by (auto simp: quiet_def claims_only_def)
  qed
qed

end

lemma admit_reconcile_Inr:
  assumes "admit_reconcile E c ev s = (Inr (unit, a), s')" "caller_ok c"
  shows "ev \<in> pf_pending s \<and> empowered c (cl_channel c) ''PAYMENT_RECORD'' unit a"
proof -
  obtain u s1 where au: "authorize_flow c (cl_channel c) ''PAYMENT_RECORD'' (Some u) None None = Inr unit"
    and sel: "selected_assignment (cl_actor c) u (cl_at c) (cl_assignments c) = Inr a" and p: "ev \<in> pf_pending s"
    using assms(1)
    by (auto simp: admit_reconcile_def seq_Inr guard_run authorize_Inr pure_def
        split: option.splits if_splits prod.splits)
  from authorize_flow_sound [OF au assms(2) [unfolded caller_ok_def]] sel p show ?thesis by auto
qed

context payment_port
begin

lemma reconcile_cases:
  assumes E: "pe_port E = P" and inv: "inv (pf_world s)" and ok: "caller_ok c" and d: "dict_ok (pf_claims s)"
    and run: "reconcile_payment_flow E c ev s = (r, s')"
  obtains (early) "quiet s s'" "\<And>x. r \<noteq> Inr x"
  | (classified) unit a where "ev \<in> pf_pending s" "empowered c (cl_channel c) ''PAYMENT_RECORD'' unit a"
      "inv (pf_world s')" "reconcile_end paid P ev unit s r s'"
      "pf_world s' = snd (port_reconcile_payment P ev (pf_world s))"
proof -
  from run show thesis unfolding reconcile_payment_flow_def
  proof (cases rule: seq_cases)
    case (raised e)
    with alongD [OF quiet_admit_reconcile [OF E] raised(1)] show thesis by (intro early) auto
  next
    case (went y s1)
    obtain unit a where y: "y = (unit, a)" by fastforce
    have q: "quiet s s1" using alongD [OF quiet_admit_reconcile [OF E] went(1)] .
    note auth = admit_reconcile_Inr [OF went(1) [unfolded y] ok]
    obtain x w1 where p: "port_reconcile_payment P ev (pf_world s) = (x, w1)" by fastforce
    let ?t = "s1\<lparr>pf_world := w1\<rparr>"
    have w: "inv w1" "paid w1 = paid (pf_world s)" using pay_frame [OF inv p] by auto
    have call: "call_port (port_reconcile_payment (pe_port E) ev) s1 = (x, ?t)"
      using p E q by (simp add: call_port_def quiet_def)
    have "inv (pf_world s') \<and> reconcile_end paid P ev unit s r s' \<and> pf_world s' = w1"
    proof (cases x)
      case (Inr rec)
      with went(2) y call have "reconcile_present E c ev unit a rec ?t = (r, s')" by simp
      from present_effect [OF E _ this] d q claims_resolved_cong [of s ?t s' s' P unit "present_claim (pr_reference rec)"]
        w pay_answer [OF inv p [unfolded Inr]]
      show ?thesis by (auto simp: quiet_def reconcile_end_def)
    next
      case (Inl e)
      show ?thesis
      proof (cases "e = UncertainOutcome")
        case True
        with went(2) y call Inl q w show ?thesis
          by (auto simp: quiet_def reconcile_end_def pay_log_def other_result_def)
      next
        case False
        with reconcile_supported [OF inv p [unfolded Inl]] have e: "e = DocumentRejected" by simp
        with went(2) y call Inl have "reconcile_absent E c ev unit ?t = (r, s')" by (simp add: is_provider_error_def)
        from absent_effect [OF E _ this] d q claims_resolved_cong [of s ?t s' s' P unit absent_claim]
          w pay_absent [OF inv p [unfolded Inl e]]
        show ?thesis by (auto simp: quiet_def reconcile_end_def)
      qed
    qed
    with auth p show thesis by (intro classified) auto
  qed
qed

lemma reverse_effect:
  assumes E: "pe_port E = P" and inv: "inv (pf_world s)" and ok: "caller_ok c"
    and run: "reverse_payment_flow E c cmd s = (r, s')"
  shows "inv (pf_world s') \<and> paid (pf_world s) \<subseteq>\<^sub>m paid (pf_world s')
    \<and> pf_claims s' = pf_claims s \<and> pf_evidence s' = pf_evidence s \<and> pf_pending s' = pf_pending s
    \<and> pf_reversed s \<subseteq> pf_reversed s'"
proof -
  from run show ?thesis unfolding reverse_payment_flow_def
  proof (cases rule: seq_cases)
    case (raised e)
    from alongD [OF quiet_admit_reversal [OF E] raised(1)] inv show ?thesis by (simp add: quiet_def)
  next
    case (went y s1)
    obtain pay a where y: "y = (pay, a)" by fastforce
    have q: "quiet s s1" using alongD [OF quiet_admit_reversal [OF E] went(1)] .
    obtain x w1 where p: "port_reverse P cmd (pf_world s) = (x, w1)" by fastforce
    let ?t = "s1\<lparr>pf_world := w1\<rparr>"
    have w: "inv w1" "paid (pf_world s) \<subseteq>\<^sub>m paid w1" using reverse_keeps [OF inv p] by auto
    have call: "call_port (port_reverse (pe_port E) cmd) s1 = (x, ?t)"
      using p E q by (simp add: call_port_def quiet_def)
    from went(2) [unfolded y prod.case] show ?thesis
    proof (cases rule: seq_cases)
      case (raised e)
      have "quiet ?t s'"
      proof (cases x)
        case (Inl e')
        with raised call show ?thesis
          by (auto simp: handle_def split: if_splits dest!: alongD [OF quiet_deny])
      qed (use raised call in \<open>auto simp: handle_def\<close>)
      with w q show ?thesis by (simp add: quiet_def)
    next
      case (went rv s2)
      have "s2 = ?t" using went(1) call by (auto simp: handle_def split: sum.splits if_splits)
      let ?v = "s2\<lparr>pf_reversed := insert (rc_payment cmd) (pf_reversed s2)\<rparr>"
      have "along quiet (seq (resolve_unit_ref E (pr_invoice pay)) (\<lambda>(_, invoice).
        seq (pure (invoice_status invoice)) (\<lambda>status.
        seq (pay_log E (pr_invoice pay) ''payment_reversed'' c
           [(''payment_ref'', rc_payment cmd), (''reversal_ref'', rv),
            (''receivable_status'', status), (''assignment_ref'', as_ref a)]) (\<lambda>_.
        ret (recorded_result (Some rv) status)))))"
        using E by (auto intro!: flow_rules split: prod.splits)
      from alongD [OF this, of ?v r s'] went(2) have "quiet ?v s'" by simp
      with w q \<open>s2 = ?t\<close> show ?thesis by (auto simp: quiet_def)
    qed
  qed
qed

end

end
