(* ===== verification/PaymentClaims.thy ===== *)
theory PaymentClaims
  imports PaymentFlow
begin

text \<open>
  What the payment workflow guarantees: on its own for any provider that keeps the contract
  \<open>payment_port\<close>, and on the fixture provider, which keeps it, for every interleaving of
  commands of any callers with anything else that happens at the provider.
\<close>

section \<open>The fixture provider keeps the contract\<close>

lemma fixture_paid_iff:
  assumes "fe_ok w"
  shows "fixture_paid w e = Some r \<longleftrightarrow> (\<exists>p. dget (fe_payments w) r = Some p \<and> py_evidence p = e)"
proof
  assume "fixture_paid w e = Some r"
  then obtain p where "find (\<lambda>(r, p). py_evidence p = e) (fe_payments w) = Some (r, p)"
    by (auto simp: fixture_paid_def)
  then have "(r, p) \<in> set (fe_payments w)" "py_evidence p = e" by (auto simp: find_Some_iff in_set_conv_nth)
  with assms show "\<exists>p. dget (fe_payments w) r = Some p \<and> py_evidence p = e"
    using dict_ok_get by (fastforce simp: fe_ok_def)
next
  assume "\<exists>p. dget (fe_payments w) r = Some p \<and> py_evidence p = e"
  then obtain p where p: "dget (fe_payments w) r = Some p" "py_evidence p = e" by blast
  then have "(r, p) \<in> set (fe_payments w)" by (simp add: map_of_SomeD)
  with p(2) obtain r' p' where f: "find (\<lambda>(r, p). py_evidence p = e) (fe_payments w) = Some (r', p')"
    by (cases "find (\<lambda>(r, p). py_evidence p = e) (fe_payments w)") (auto simp: find_None_iff)
  then have "(r', p') \<in> set (fe_payments w)" "py_evidence p' = e" by (auto simp: find_Some_iff in_set_conv_nth)
  with assms have "dget (fe_payments w) r' = Some p'" using dict_ok_get by (fastforce simp: fe_ok_def)
  then have "r' = r" using evidence_unique [of w r' p' r p] assms p \<open>py_evidence p' = e\<close> by (simp add: fe_ok_def)
  with f show "fixture_paid w e = Some r" by (simp add: fixture_paid_def)
qed

lemma fixture_paid_keeps:
  assumes "fe_ok w" "fe_ok w'" "erp_keeps w w'"
  shows "fixture_paid w \<subseteq>\<^sub>m fixture_paid w'"
proof -
  have "fixture_paid w' e = Some r" if r: "fixture_paid w e = Some r" for e r
  proof -
    from r obtain p where p: "dget (fe_payments w) r = Some p" "py_evidence p = e"
      unfolding fixture_paid_iff [OF assms(1)] by blast
    with assms(3) obtain p' where "dget (fe_payments w') r = Some p'" "payment_keeps p p'"
      unfolding erp_keeps_def dict_keeps_def by blast
    moreover from this(2) have "py_evidence p' = py_evidence p"
      by (cases p; cases p') (simp add: payment_keeps_def)
    ultimately show ?thesis unfolding fixture_paid_iff [OF assms(2)] using p(2) by blast
  qed
  then show ?thesis by (auto simp: map_le_def dom_def)
qed

lemma fixture_paid_core: "fe_payments w' = fe_payments w \<Longrightarrow> fixture_paid w' = fixture_paid w"
  by (simp add: fixture_paid_def fun_eq_iff)

text \<open>A payment that is applied is the one payment with its evidence.\<close>

lemma record_payment_runs:
  assumes "record_payment c w = (r, w')"
  shows "(r = Inl DocumentRejected \<and> fe_payments w' = fe_payments w)
    \<or> (\<exists>p ref. (r = Inr ref \<or> r = Inl UncertainOutcome) \<and> py_evidence p = pc_evidence c
        \<and> pc_evidence c \<notin> fe_evidence w
        \<and> (\<forall>x. dget (fe_payments w') x = (if x = ref then Some p else dget (fe_payments w) x))
        \<and> ref = ref_num ''PAY'' 6 (fe_pay_seq w))"
  using assms
  by (auto simp: record_payment_def apply_payment_def mark_payment_uncertain_def store_invoice_def
      parse_currency_def parse_money_def Let_def split: if_splits option.splits)

lemma record_payment_paid:
  assumes ok: "fe_ok w" and run: "record_payment c w = (r, w')"
  shows "fe_ok w' \<and> (r = Inl DocumentRejected \<and> fixture_paid w' = fixture_paid w
      \<or> (\<exists>ref. (r = Inr ref \<or> r = Inl UncertainOutcome) \<and> fixture_paid w (pc_evidence c) = None
           \<and> fixture_paid w' = (fixture_paid w)(pc_evidence c \<mapsto> ref)))"
proof -
  have ok': "fe_ok w'" using fe_ok_trans [OF record_payment_trans [OF ok, of c] ok] run by simp
  show ?thesis
  proof (cases "r = Inl DocumentRejected \<and> fe_payments w' = fe_payments w")
    case True
    with ok' fixture_paid_core show ?thesis by blast
  next
    case False
    with record_payment_runs [OF run] obtain p ref
      where r: "r = Inr ref \<or> r = Inl UncertainOutcome" and e: "py_evidence p = pc_evidence c"
      "pc_evidence c \<notin> fe_evidence w"
      and w': "\<forall>x. dget (fe_payments w') x = (if x = ref then Some p else dget (fe_payments w) x)"
      and ref: "ref = ref_num ''PAY'' 6 (fe_pay_seq w)" by blast
    have fresh: "dget (fe_payments w) ref = None" unfolding ref by (rule fresh_payment [OF ok])
    have unused: "py_evidence q \<noteq> pc_evidence c" if "dget (fe_payments w) x = Some q" for x q
      using fe_okD(2) [OF ok that] e(2) by (auto simp: payment_ok_def)
    have none: "fixture_paid w (pc_evidence c) = None"
      using unused fixture_paid_iff [OF ok] by (cases "fixture_paid w (pc_evidence c)") auto
    have "fixture_paid w' x = ((fixture_paid w)(pc_evidence c \<mapsto> ref)) x" for x
    proof (cases "x = pc_evidence c")
      case True
      have "fixture_paid w' x = Some ref"
        unfolding fixture_paid_iff [OF ok'] using w' e True by auto
      with True show ?thesis by simp
    next
      case False
      have "fixture_paid w' x = Some y \<longleftrightarrow> fixture_paid w x = Some y" for y
        unfolding fixture_paid_iff [OF ok'] fixture_paid_iff [OF ok] using w' e False fresh by auto
      with False show ?thesis by (metis fun_upd_other option.exhaust)
    qed
    then have "fixture_paid w' = (fixture_paid w)(pc_evidence c \<mapsto> ref)" by blast
    with ok' r none show ?thesis by blast
  qed
qed

lemma port_pay_simps [simp]:
  "port_pay fixture_port = record_payment" "port_reverse fixture_port = reverse_payment"
  "port_read_payment fixture_port = (\<lambda>r s. (read_payment r s, s))"
  by (simp_all add: fixture_port_def)

lemma read_rejected:
  "read_invoice i w = Inl e \<Longrightarrow> e = DocumentRejected" "read_payment p w = Inl e \<Longrightarrow> e = DocumentRejected"
  "reconcile_payment ev w = (Inl e, w') \<Longrightarrow> e = DocumentRejected"
  by (auto simp: read_invoice_def lookup_invoice_def read_payment_def reconcile_payment_def
      split: option.splits if_splits prod.splits)

interpretation fixture_payments: payment_port fixture_port fe_ok fixture_posted fixture_paid
proof (unfold_locales, unfold fixture_port_simps port_pay_simps)
  fix w w' :: fixture_erp and i p ev ri rp x c ref e rc rr
  show "(read_invoice i w, w) = (ri, w') \<Longrightarrow> w' = w \<and> (\<forall>e. ri = Inl e \<longrightarrow> is_provider_error e)"
    using read_rejected(1) by (auto simp: is_provider_error_def split: exn.splits)
  show "(read_payment p w, w) = (rp, w') \<Longrightarrow> w' = w \<and> (\<forall>e. rp = Inl e \<longrightarrow> is_provider_error e)"
    using read_rejected(2) by (auto simp: is_provider_error_def split: exn.splits)
  assume ok: "fe_ok w"
  show "record_payment c w = (Inr ref, w') \<Longrightarrow> fe_ok w' \<and> fixture_paid w (pc_evidence c) = None
      \<and> fixture_paid w' = (fixture_paid w)(pc_evidence c \<mapsto> ref)"
    using record_payment_paid [OF ok, of c "Inr ref" w'] by auto
  show "record_payment c w = (Inl e, w') \<Longrightarrow> e \<noteq> UncertainOutcome \<Longrightarrow> fe_ok w' \<and> fixture_paid w' = fixture_paid w"
    using record_payment_paid [OF ok, of c "Inl e" w'] by auto
  show "record_payment c w = (Inl UncertainOutcome, w') \<Longrightarrow> fe_ok w' \<and> (fixture_paid w' = fixture_paid w
      \<or> (\<exists>ref. fixture_paid w (pc_evidence c) = None \<and> fixture_paid w' = (fixture_paid w)(pc_evidence c \<mapsto> ref)))"
    using record_payment_paid [OF ok, of c "Inl UncertainOutcome" w'] by auto
  show "reconcile_payment ev w = (Inl x, w') \<Longrightarrow> x \<in> {DocumentRejected, UncertainOutcome}"
    using read_rejected(3) by auto
  show "reverse_payment rc w = (rr, w') \<Longrightarrow> fe_ok w' \<and> fixture_paid w \<subseteq>\<^sub>m fixture_paid w'"
    using fe_ok_trans [OF reverse_trans [OF ok, of rc] ok] erp_trans_keeps [OF reverse_trans [OF ok, of rc] ok]
      fixture_paid_keeps [OF ok] by auto
qed

section \<open>Every command keeps the state well typed and settled claims settled\<close>

definition settled_stay :: "'w pay_flow \<Rightarrow> 'w pay_flow \<Rightarrow> bool" where
  "settled_stay s s' = (\<forall>k cl. dget (pf_claims s) k = Some cl \<and> cs_outcome cl = CL_RECORDED \<longrightarrow>
     dget (pf_claims s') k = Some cl)"

fun cmd_caller :: "pay_cmd \<Rightarrow> caller" where
  "cmd_caller (RecordPayment c _ _) = c"
| "cmd_caller (ReconcilePayment c _) = c"
| "cmd_caller (ReversePayment c _) = c"

lemma settled_quiet: "quiet s s' \<Longrightarrow> settled_stay s s'"
  by (simp add: quiet_def settled_stay_def)

lemma flow_ok_attempt:
  assumes ok: "flow_ok I pd s" and e: "attempt_end I pd L k cmd s r s'"
  shows "flow_ok I pd s' \<and> pd (pf_world s) \<subseteq>\<^sub>m pd (pf_world s')"
proof -
  let ?w = "pf_world s" and ?w' = "pf_world s'"
  from e obtain cl where a: "I ?w'" "claims_moved k s s'" "dget (pf_claims s') k = Some cl" "claim_ok (pd ?w') cl"
    and ev: "pf_evidence s' = pf_evidence s
        \<or> (\<exists>ref. pf_evidence s' = dput (pc_evidence cmd) ref (pf_evidence s) \<and> pd ?w' (pc_evidence cmd) = Some ref)"
    and w: "pd ?w' = pd ?w \<or> (\<exists>ref. pd ?w (pc_evidence cmd) = None \<and> pd ?w' = (pd ?w)(pc_evidence cmd \<mapsto> ref))"
    by (auto simp: attempt_end_def Let_def)
  have le: "pd ?w \<subseteq>\<^sub>m pd ?w'" using w by (auto simp: map_le_def dom_def)
  have e': "pd ?w' x = Some ref" if "dget (pf_evidence s') x = Some ref" for x ref
    using that ev flow_okD(2) [OF ok] map_leD [OF le, of x ref] by (auto split: if_splits)
  have c': "claim_ok (pd ?w') cl'" if "dget (pf_claims s') k' = Some cl'" for k' cl'
  proof (cases "k' = k")
    case False
    with claims_movedD [OF a(2)] that have "dget (pf_claims s) k' = Some cl'" by metis
    from claim_ok_mono [OF flow_okD(4) [OF ok this] le] show ?thesis .
  qed (use that a in simp)
  have "dict_ok (pf_claims s')" using a(2) flow_okD(3) [OF ok] by (simp add: claims_moved_def)
  with flow_okI [of I s' pd] a(1) e' c' le show ?thesis by blast
qed

text \<open>What a reconciliation can do to one claim.\<close>

lemma reconcile_end_claim:
  assumes "reconcile_end pd Q ev u s r s'"
  shows "dget (pf_claims s') k = dget (pf_claims s) k
    \<or> (\<exists>old new. dget (pf_claims s) k = Some old \<and> cs_outcome old = CL_UNCERTAIN
         \<and> (\<forall>i. cs_invoice old = Some i \<longrightarrow> unit_shown Q (pf_world s') i u)
         \<and> dget (pf_claims s') k = Some new
         \<and> (new = absent_claim old \<and> pd (pf_world s) ev = None
            \<or> (\<exists>ref. new = present_claim ref old \<and> pd (pf_world s) ev = Some ref)))"
proof -
  from assms consider "pf_claims s' = pf_claims s" | "claims_resolved Q u absent_claim s s'" "pd (pf_world s) ev = None"
    | ref where "claims_resolved Q u (present_claim ref) s s'" "pd (pf_world s) ev = Some ref"
    unfolding reconcile_end_def by (elim conjE disjE exE) blast+
  then show ?thesis
  proof cases
    case 2
    from spec [OF this(1) [unfolded claims_resolved_def], of k] 2(2) show ?thesis by blast
  next
    case 3
    from spec [OF this(1) [unfolded claims_resolved_def], of k] 3(2) show ?thesis by blast
  qed simp
qed

lemma flow_ok_reconcile:
  assumes ok: "flow_ok I pd s" and i: "I (pf_world s')" and e: "reconcile_end pd Q ev u s r s'"
  shows "flow_ok I pd s' \<and> pd (pf_world s') = pd (pf_world s) \<and> settled_stay s s'"
proof -
  have w: "pd (pf_world s') = pd (pf_world s)" "dict_ok (pf_claims s')"
    using e flow_okD(3) [OF ok] by (simp_all add: reconcile_end_def)
  have ev: "pd (pf_world s) x = Some ref" if "dget (pf_evidence s') x = Some ref" for x ref
    using that e flow_okD(2) [OF ok] unfolding reconcile_end_def by (auto split: if_splits)
  have cl: "claim_ok (pd (pf_world s)) cl" if "dget (pf_claims s') k = Some cl" for k cl
    using reconcile_end_claim [OF e, of k] that flow_okD(4) [OF ok, of k]
    by (auto simp: claim_ok_def absent_claim_def present_claim_def)
  have "settled_stay s s'" unfolding settled_stay_def
  proof (intro allI impI, elim conjE)
    fix k cl assume "dget (pf_claims s) k = Some cl" "cs_outcome cl = CL_RECORDED"
    with reconcile_end_claim [OF e, of k] show "dget (pf_claims s') k = Some cl" by auto
  qed
  moreover have "flow_ok I pd s'" by (rule flow_okI) (use w ev cl i in simp_all)
  ultimately show ?thesis using w by blast
qed

context payment_port
begin

lemma step_ok:
  assumes E: "pe_port E = P" and c: "caller_ok (cmd_caller x)" and ok: "flow_ok inv paid s"
    and run: "pay_step E x s = (r, s')"
  shows "flow_ok inv paid s' \<and> paid (pf_world s) \<subseteq>\<^sub>m paid (pf_world s') \<and> settled_stay s s'"
proof (cases x)
  case (RecordPayment d key cmd)
  from run RecordPayment have rec: "record_payment_flow E d key cmd s = (r, s')" by simp
  from c RecordPayment have d: "caller_ok d" by simp
  show ?thesis
  proof (rule record_cases [OF E d rec])
    assume q: "quiet s s'"
    with flow_ok_quiet [OF this ok] settled_quiet [OF q] show ?thesis by (simp add: quiet_def)
  next
    fix a s1
    assume q: "quiet s s1" and open_claim: "\<And>cl. dget (pf_claims s) (cl_actor d, claim_key key cmd) = Some cl \<Longrightarrow>
        cs_hash cl = payment_hash (pe_libs E) cmd \<and> cs_outcome cl \<in> {CL_PENDING, CL_REJECTED}"
      and at: "attempt_payment E d cmd (claim_key key cmd) a s1 = (r, s')"
    have ok1: "flow_ok inv paid s1" by (rule flow_ok_quiet [OF q ok])
    then have "inv (pf_world s1)" by (rule flow_okD)
    from attempt_effect [OF E this at] have e: "attempt_end inv paid (pe_libs E) (cl_actor d, claim_key key cmd) cmd s1 r s'" .
    have "settled_stay s s'" unfolding settled_stay_def
    proof (intro allI impI, elim conjE)
      fix k cl assume k: "dget (pf_claims s) k = Some cl" "cs_outcome cl = CL_RECORDED"
      with open_claim have "k \<noteq> (cl_actor d, claim_key key cmd)" by auto
      moreover have "claims_moved (cl_actor d, claim_key key cmd) s1 s'" using e by (simp add: attempt_end_def Let_def)
      ultimately have "dget (pf_claims s') k = dget (pf_claims s1) k" by (intro claims_movedD)
      moreover have "pf_claims s1 = pf_claims s" using q by (simp add: quiet_def)
      ultimately show "dget (pf_claims s') k = Some cl" using k(1) by simp
    qed
    with flow_ok_attempt [OF ok1 e] q show ?thesis by (simp add: quiet_def)
  qed
next
  case (ReconcilePayment d ev)
  from run ReconcilePayment have rec: "reconcile_payment_flow E d ev s = (r, s')" by simp
  from c ReconcilePayment have d: "caller_ok d" by simp
  note i = flow_okD(1) [OF ok] flow_okD(3) [OF ok]
  show ?thesis
  proof (rule reconcile_cases [OF E i(1) d i(2) rec])
    assume q: "quiet s s'"
    with flow_ok_quiet [OF this ok] settled_quiet [OF q] show ?thesis by (simp add: quiet_def)
  next
    fix unit a
    assume "inv (pf_world s')" "reconcile_end paid P ev unit s r s'"
    from flow_ok_reconcile [OF ok this] show ?thesis by simp
  qed
next
  case (ReversePayment d cmd)
  from run ReversePayment have rec: "reverse_payment_flow E d cmd s = (r, s')" by simp
  from c ReversePayment have d: "caller_ok d" by simp
  note i = flow_okD(1) [OF ok]
  note e = reverse_effect [OF E i d rec]
  have "flow_ok inv paid s'" using e by (intro flow_ok_world [OF ok]) simp_all
  with e show ?thesis by (simp add: settled_stay_def)
qed

end

section \<open>Where claims come from\<close>

text \<open>A claim comes from a command that was given: it stands under the caller and the key of a
  command to record a payment and carries the hash of its payload. If it is uncertain its anchor
  is the invoice of that command. If it is recorded, then either it was recorded at once, and the
  index of evidence names its payment under the evidence of that command; or it had been
  uncertain and a command to reconcile was given for an evidence whose payment it names.\<close>

definition claim_of ::
  "pay_cmd set \<Rightarrow> libs \<Rightarrow> (str \<Rightarrow> str option) \<Rightarrow> (str \<Rightarrow> str option) \<Rightarrow> draft_payment_command \<Rightarrow> claim_state \<Rightarrow> bool" where
  "claim_of C L known truth cmd cl =
    (cs_hash cl = payment_hash L cmd
      \<and> (cs_outcome cl = CL_UNCERTAIN \<longrightarrow> cs_invoice cl = Some (pc_invoice cmd))
      \<and> (cs_outcome cl = CL_RECORDED \<longrightarrow> (\<exists>ref. cs_payment cl = Some ref
          \<and> (cs_invoice cl = None \<and> known (pc_evidence cmd) = Some ref
             \<or> cs_invoice cl = Some (pc_invoice cmd) \<and> (\<exists>c ev. ReconcilePayment c ev \<in> C \<and> truth ev = Some ref)))))"

definition claim_origin ::
  "pay_cmd set \<Rightarrow> libs \<Rightarrow> (str \<Rightarrow> str option) \<Rightarrow> (str \<Rightarrow> str option) \<Rightarrow> str \<times> str \<Rightarrow> claim_state \<Rightarrow> bool" where
  "claim_origin C L known truth k cl =
    (\<exists>c key cmd. RecordPayment c key cmd \<in> C \<and> k = (cl_actor c, claim_key key cmd) \<and> claim_of C L known truth cmd cl)"

definition claims_from :: "('w \<Rightarrow> str \<Rightarrow> str option) \<Rightarrow> pay_cmd set \<Rightarrow> libs \<Rightarrow> 'w pay_flow \<Rightarrow> bool" where
  "claims_from pd C L s = (\<forall>k cl. dget (pf_claims s) k = Some cl \<longrightarrow>
     claim_origin C L (dget (pf_evidence s)) (pd (pf_world s)) k cl)"

lemma claim_of_mono:
  "claim_of C L known truth cmd cl \<Longrightarrow> C \<subseteq> C' \<Longrightarrow> known \<subseteq>\<^sub>m known' \<Longrightarrow> truth \<subseteq>\<^sub>m truth' \<Longrightarrow>
   claim_of C' L known' truth' cmd cl"
  unfolding claim_of_def by (fastforce dest: map_leD)

lemma claim_origin_mono:
  "claim_origin C L known truth k cl \<Longrightarrow> C \<subseteq> C' \<Longrightarrow> known \<subseteq>\<^sub>m known' \<Longrightarrow> truth \<subseteq>\<^sub>m truth' \<Longrightarrow>
   claim_origin C' L known' truth' k cl"
  unfolding claim_origin_def by (blast intro: claim_of_mono)

lemma claims_fromD:
  "claims_from pd C L s \<Longrightarrow> dget (pf_claims s) k = Some cl \<Longrightarrow>
   claim_origin C L (dget (pf_evidence s)) (pd (pf_world s)) k cl"
  unfolding claims_from_def by blast

lemma claims_from_mono:
  assumes "claims_from pd C L s" "C \<subseteq> C'" "pf_claims s' = pf_claims s" "pf_evidence s' = pf_evidence s"
    "pd (pf_world s) \<subseteq>\<^sub>m pd (pf_world s')"
  shows "claims_from pd C' L s'"
  unfolding claims_from_def
proof (intro allI impI)
  fix k cl assume "dget (pf_claims s') k = Some cl"
  then have "claim_origin C L (dget (pf_evidence s)) (pd (pf_world s)) k cl"
    using claims_fromD [OF assms(1)] assms(3) by simp
  then show "claim_origin C' L (dget (pf_evidence s')) (pd (pf_world s')) k cl"
    by (rule claim_origin_mono) (use assms in \<open>simp_all\<close>)
qed

lemma claim_made_origin:
  "claim_made L cmd known cl \<Longrightarrow> RecordPayment c key cmd \<in> C \<Longrightarrow>
   claim_origin C L known truth (cl_actor c, claim_key key cmd) cl"
proof -
  assume "claim_made L cmd known cl"
  then have "claim_of C L known truth cmd cl" by (auto simp: claim_made_def claim_of_def)
  then show "RecordPayment c key cmd \<in> C \<Longrightarrow> ?thesis" unfolding claim_origin_def by blast
qed

lemma claim_resolved_origin:
  assumes "claim_origin C L known truth k old" "cs_outcome old = CL_UNCERTAIN" "ReconcilePayment c ev \<in> C"
    "new = absent_claim old \<or> (\<exists>ref. new = present_claim ref old \<and> truth ev = Some ref)"
  shows "claim_origin C L known truth k new"
proof -
  have "claim_of C L known truth cmd new" if "claim_of C L known truth cmd old" for cmd
    using that assms(2-4) by (auto simp: claim_of_def absent_claim_def present_claim_def)
  with assms(1) show ?thesis unfolding claim_origin_def by blast
qed

text \<open>No entry of the index is lost or changed.\<close>

lemma evidence_kept:
  assumes ok: "flow_ok I pd s" "flow_ok I pd s'" and le: "pd (pf_world s) \<subseteq>\<^sub>m pd (pf_world s')"
    and ev: "pf_evidence s' = pf_evidence s \<or> (\<exists>e ref. pf_evidence s' = dput e ref (pf_evidence s))"
  shows "dget (pf_evidence s) \<subseteq>\<^sub>m dget (pf_evidence s')"
proof -
  have "dget (pf_evidence s') x = Some y" if y: "dget (pf_evidence s) x = Some y" for x y
  proof -
    obtain z where z: "dget (pf_evidence s') x = Some z" using ev y by force
    with flow_okD(2) [OF ok(2) z] map_leD [OF le flow_okD(2) [OF ok(1) y]] show ?thesis by simp
  qed
  then show ?thesis by (auto simp: map_le_def)
qed

context payment_port
begin

lemma step_claims:
  assumes E: "pe_port E = P" and c: "caller_ok (cmd_caller x)" and ok: "flow_ok inv paid s"
    and x: "x \<in> C" and org: "claims_from paid C (pe_libs E) s" and run: "pay_step E x s = (r, s')"
  shows "claims_from paid C (pe_libs E) s'"
proof -
  note so = step_ok [OF E c ok run]
  have kept: "claim_origin C (pe_libs E) (dget (pf_evidence s')) (paid (pf_world s')) k cl"
    if "dget (pf_claims s) k = Some cl" and ev: "pf_evidence s' = pf_evidence s \<or> (\<exists>e ref. pf_evidence s' = dput e ref (pf_evidence s))"
    for k cl
    using org that so evidence_kept [OF ok _ _ ev] unfolding claims_from_def by (blast intro: claim_origin_mono)
  show ?thesis
  proof (cases x)
    case (RecordPayment d key cmd)
    from run RecordPayment have rec: "record_payment_flow E d key cmd s = (r, s')" by simp
    from c RecordPayment have d: "caller_ok d" by simp
    show ?thesis
    proof (rule record_cases [OF E d rec])
      assume "quiet s s'"
      with org show ?thesis by (simp add: quiet_def claims_from_def)
    next
      fix a s1
      assume q: "quiet s s1" and at: "attempt_payment E d cmd (claim_key key cmd) a s1 = (r, s')"
      have "inv (pf_world s1)" using flow_okD(1) [OF flow_ok_quiet [OF q ok]] .
      note e = attempt_effect [OF E this at]
      obtain cl where cl: "dget (pf_claims s') (cl_actor d, claim_key key cmd) = Some cl"
        "claim_made (pe_libs E) cmd (dget (pf_evidence s')) cl" using e by (auto simp: attempt_end_def Let_def)
      have ev: "pf_evidence s' = pf_evidence s \<or> (\<exists>e ref. pf_evidence s' = dput e ref (pf_evidence s))"
        using e q by (auto simp: attempt_end_def Let_def quiet_def)
      have mv: "dget (pf_claims s') k = dget (pf_claims s) k" if "k \<noteq> (cl_actor d, claim_key key cmd)" for k
      proof -
        have "claims_moved (cl_actor d, claim_key key cmd) s1 s'" using e by (simp add: attempt_end_def Let_def)
        from claims_movedD [OF this that] q show ?thesis by (simp add: quiet_def)
      qed
      show ?thesis unfolding claims_from_def
      proof (intro allI impI)
        fix k cl' assume k: "dget (pf_claims s') k = Some cl'"
        show "claim_origin C (pe_libs E) (dget (pf_evidence s')) (paid (pf_world s')) k cl'"
        proof (cases "k = (cl_actor d, claim_key key cmd)")
          case True
          with k cl x RecordPayment show ?thesis by (auto intro: claim_made_origin)
        next
          case False
          with mv k kept [OF _ ev] show ?thesis by metis
        qed
      qed
    qed
  next
    case (ReconcilePayment d ev)
    from run ReconcilePayment have rec: "reconcile_payment_flow E d ev s = (r, s')" by simp
    from c ReconcilePayment have d: "caller_ok d" by simp
    show ?thesis
    proof (rule reconcile_cases [OF E flow_okD(1) [OF ok] d flow_okD(3) [OF ok] rec])
      assume "quiet s s'"
      with org show ?thesis by (simp add: quiet_def claims_from_def)
    next
      fix u assume e: "reconcile_end paid P ev u s r s'"
      have w: "paid (pf_world s') = paid (pf_world s)" using e by (simp add: reconcile_end_def)
      have g: "pf_evidence s' = pf_evidence s \<or> (\<exists>e ref. pf_evidence s' = dput e ref (pf_evidence s))"
        using e by (auto simp: reconcile_end_def)
      show ?thesis unfolding claims_from_def
      proof (intro allI impI)
        fix k cl' assume k: "dget (pf_claims s') k = Some cl'"
        from reconcile_end_claim [OF e, of k]
        show "claim_origin C (pe_libs E) (dget (pf_evidence s')) (paid (pf_world s')) k cl'"
        proof (elim disjE exE conjE)
          assume "dget (pf_claims s') k = dget (pf_claims s) k"
          with k kept [OF _ g] show ?thesis by simp
        next
          fix old new assume "dget (pf_claims s) k = Some old" "cs_outcome old = CL_UNCERTAIN"
            "dget (pf_claims s') k = Some new" "new = absent_claim old"
          with k kept [OF _ g, of k old] x ReconcilePayment show ?thesis by (auto intro: claim_resolved_origin)
        next
          fix old new ref assume "dget (pf_claims s) k = Some old" "cs_outcome old = CL_UNCERTAIN"
            "dget (pf_claims s') k = Some new" "new = present_claim ref old" "paid (pf_world s) ev = Some ref"
          with k kept [OF _ g, of k old] x ReconcilePayment w show ?thesis by (auto intro: claim_resolved_origin)
        qed
      qed
    qed
  next
    case (ReversePayment d cmd)
    from run ReversePayment have rec: "reverse_payment_flow E d cmd s = (r, s')" by simp
    from c ReversePayment have d: "caller_ok d" by simp
    from reverse_effect [OF E flow_okD(1) [OF ok] d rec] kept show ?thesis by (simp add: claims_from_def)
  qed
qed

end

section \<open>Runs\<close>

text \<open>Commands of any callers, with the queue's clock at the time, interleaved with anything
  that happens at the provider.\<close>

datatype pay_event = Command clock pay_cmd | Elsewhere erp_op

fun event_ok :: "pay_event \<Rightarrow> bool" where
  "event_ok (Command _ x) = caller_ok (cmd_caller x)"
| "event_ok (Elsewhere _) = True"

fun event_step :: "fixture_erp pay_env \<Rightarrow> pay_event \<Rightarrow> fixture_erp pay_flow \<Rightarrow> fixture_erp pay_flow" where
  "event_step E (Command clk x) s = snd (pay_step (E\<lparr>pe_clock := clk\<rparr>) x s)"
| "event_step E (Elsewhere x) s = s\<lparr>pf_world := erp_step x (pf_world s)\<rparr>"

definition pay_run ::
  "fixture_erp pay_env \<Rightarrow> pay_event list \<Rightarrow> fixture_erp pay_flow \<Rightarrow> fixture_erp pay_flow" where
  "pay_run E xs s = foldl (\<lambda>s x. event_step E x s) s xs"

definition pay_from :: "fixture_erp pay_env \<Rightarrow> fixture_erp pay_flow \<Rightarrow> bool" where
  "pay_from E s = (pe_port E = fixture_port \<and> (\<exists>pfx q w xs. erp_from pfx w \<and> list_all event_ok xs
     \<and> s = pay_run E xs (new_pay_flow q w)))"

lemma pay_run_simps: "pay_run E [] s = s" "pay_run E (x # xs) s = pay_run E xs (event_step E x s)"
  by (simp_all add: pay_run_def)

lemma event_step_ok:
  assumes "pe_port E = fixture_port" "event_ok x" "flow_ok fe_ok fixture_paid s"
  shows "flow_ok fe_ok fixture_paid (event_step E x s) \<and> settled_stay s (event_step E x s)"
proof (cases x)
  case (Command clk y)
  obtain r s' where "pay_step (E\<lparr>pe_clock := clk\<rparr>) y s = (r, s')" by fastforce
  with fixture_payments.step_ok [of "E\<lparr>pe_clock := clk\<rparr>" y s r s'] assms Command show ?thesis by simp
next
  case (Elsewhere y)
  have w: "fe_ok (pf_world s)" by (rule flow_okD(1) [OF assms(3)])
  note t = erp_step_trans [OF w, of y]
  have "flow_ok fe_ok fixture_paid (s\<lparr>pf_world := erp_step y (pf_world s)\<rparr>)"
    by (rule flow_ok_world [OF assms(3)])
      (simp_all add: fe_ok_trans [OF t w] fixture_paid_keeps [OF w fe_ok_trans [OF t w] erp_trans_keeps [OF t w]])
  with Elsewhere show ?thesis by (simp add: settled_stay_def)
qed

lemma pay_run_ok:
  assumes "pe_port E = fixture_port" "list_all event_ok xs" "flow_ok fe_ok fixture_paid s"
  shows "flow_ok fe_ok fixture_paid (pay_run E xs s) \<and> settled_stay s (pay_run E xs s)"
  using assms(2,3)
proof (induction xs arbitrary: s)
  case (Cons x xs)
  from event_step_ok [OF assms(1) _ Cons.prems(2)] Cons
  have "flow_ok fe_ok fixture_paid (pay_run E xs (event_step E x s))" "settled_stay s (event_step E x s)"
    "settled_stay (event_step E x s) (pay_run E xs (event_step E x s))" by auto
  then show ?case by (simp add: pay_run_simps settled_stay_def)
qed (simp add: pay_run_simps settled_stay_def)

lemma pay_from_ok:
  assumes "pay_from E s"
  shows "flow_ok fe_ok fixture_paid s"
proof -
  obtain pfx q w xs where s: "pe_port E = fixture_port" "erp_from pfx w" "list_all event_ok xs"
    "s = pay_run E xs (new_pay_flow q w)" using assms by (auto simp: pay_from_def)
  have "flow_ok fe_ok fixture_paid (new_pay_flow q w)"
    by (rule flow_okI) (simp_all add: new_pay_flow_def erp_from_ok [OF s(2)])
  with pay_run_ok s show ?thesis by blast
qed

lemma pay_run_snoc: "pay_run E (xs @ [x]) s = event_step E x (pay_run E xs s)"
  by (simp add: pay_run_def)

text \<open>The commands of a history.\<close>

definition commands :: "pay_event list \<Rightarrow> pay_cmd set" where
  "commands xs = {x. \<exists>clk. Command clk x \<in> set xs}"

lemma event_step_claims:
  assumes E: "pe_port E = fixture_port" "event_ok x" and ok: "flow_ok fe_ok fixture_paid s"
    and x: "commands [x] \<subseteq> C" and org: "claims_from fixture_paid C (pe_libs E) s"
  shows "claims_from fixture_paid C (pe_libs E) (event_step E x s)"
proof (cases x)
  case (Command clk y)
  obtain r s' where "pay_step (E\<lparr>pe_clock := clk\<rparr>) y s = (r, s')" by fastforce
  with fixture_payments.step_claims [of "E\<lparr>pe_clock := clk\<rparr>" y s C r s'] assms Command show ?thesis
    by (auto simp: commands_def)
next
  case (Elsewhere y)
  have w: "fe_ok (pf_world s)" by (rule flow_okD(1) [OF ok])
  note t = erp_step_trans [OF w, of y]
  have "fixture_paid (pf_world s) \<subseteq>\<^sub>m fixture_paid (erp_step y (pf_world s))"
    by (rule fixture_paid_keeps [OF w fe_ok_trans [OF t w] erp_trans_keeps [OF t w]])
  with claims_from_mono [OF org subset_refl] Elsewhere show ?thesis by simp
qed

lemma pay_run_claims:
  assumes E: "pe_port E = fixture_port" and ok: "flow_ok fe_ok fixture_paid s" and s: "pf_claims s = []"
  shows "list_all event_ok xs \<Longrightarrow> claims_from fixture_paid (commands xs) (pe_libs E) (pay_run E xs s)"
proof (induction xs rule: rev_induct)
  case Nil
  then show ?case by (simp add: claims_from_def s pay_run_simps)
next
  case (snoc x xs)
  have c: "commands xs \<subseteq> commands (xs @ [x])" "commands [x] \<subseteq> commands (xs @ [x])" by (auto simp: commands_def)
  have "claims_from fixture_paid (commands (xs @ [x])) (pe_libs E) (pay_run E xs s)"
    using claims_from_mono [OF _ c(1) HOL.refl HOL.refl map_le_refl] snoc by simp
  with event_step_claims [OF E _ _ c(2)] pay_run_ok [OF E _ ok] snoc.prems show ?case
    by (simp add: pay_run_snoc)
qed

section \<open>The guarantees\<close>

text \<open>C11. Money is recorded only with a warrant: if a command to record a payment changed the
  provider's payments at all, then the input was well formed with its evidence reference, the
  evidence was neither pending nor ever paid before, no earlier claim of the caller with this
  key was settled or uncertain, and the invoice as the provider showed it was posted, in the
  payment's currency, with at least this amount open, of a unit for which the caller holds,
  through an assignment in force, a role that may record payments, and with the account of
  that unit's policy. Exactly one payment was added, under this evidence.\<close>

theorem payment_guarded:
  assumes "pay_from E s" "caller_ok c" "record_payment_flow E c key cmd s = (r, s')"
    "fixture_paid (pf_world s') \<noteq> fixture_paid (pf_world s)"
  shows "\<exists>i ref. read_invoice (pc_invoice cmd) (pf_world s) = Inr i \<and> pay_input_ok cmd
    \<and> pay_warranted E c cmd i \<and> pc_evidence cmd \<notin> pf_pending s
    \<and> (\<forall>cl. dget (pf_claims s) (cl_actor c, claim_key key cmd) = Some cl \<longrightarrow>
         cs_outcome cl \<in> {CL_PENDING, CL_REJECTED})
    \<and> fixture_paid (pf_world s) (pc_evidence cmd) = None
    \<and> fixture_paid (pf_world s') = (fixture_paid (pf_world s))(pc_evidence cmd \<mapsto> ref)"
proof -
  have E: "pe_port E = fixture_port" using assms(1) by (simp add: pay_from_def)
  note w = flow_okD(1) [OF pay_from_ok [OF assms(1)]]
  show ?thesis
  proof (rule fixture_payments.record_cases [OF E assms(2,3)])
    assume "quiet s s'"
    with assms(4) show ?thesis by (simp add: quiet_def)
  next
    fix i a s1 w1
    assume q: "quiet s s1" and i: "port_read fixture_port (pc_invoice cmd) (pf_world s) = (Inr i, w1)"
      and g: "pay_input_ok cmd" "pc_evidence cmd \<notin> pf_pending s" "pay_warranted E c cmd i"
        "\<And>cl. dget (pf_claims s) (cl_actor c, claim_key key cmd) = Some cl \<Longrightarrow>
          cs_hash cl = payment_hash (pe_libs E) cmd \<and> cs_outcome cl \<in> {CL_PENDING, CL_REJECTED}"
      and at: "attempt_payment E c cmd (claim_key key cmd) a s1 = (r, s')"
    have "fe_ok (pf_world s1)" "pf_world s1 = pf_world s" using w q by (simp_all add: quiet_def)
    from fixture_payments.attempt_effect [OF E this(1) at] this(2) assms(4) obtain ref
      where "fixture_paid (pf_world s) (pc_evidence cmd) = None"
        "fixture_paid (pf_world s') = (fixture_paid (pf_world s))(pc_evidence cmd \<mapsto> ref)"
      by (auto simp: attempt_end_def Let_def)
    with g i show ?thesis by auto
  qed
qed

text \<open>C12. No payment is lost: whenever a command to record a payment has made the provider
  record one, however it ended, the workflow holds a claim for it under the caller and the key
  that carries the hash of this very payload and is either recorded with the provider's
  reference, which the evidence index then shows, or uncertain, anchored on the invoice, with
  the evidence pending, so that no retry reaches the provider before it is reconciled. And a
  result that says RECORDED names a payment that the provider has.\<close>

theorem payment_tracked:
  assumes "pay_from E s" "caller_ok c" "record_payment_flow E c key cmd s = (r, s')"
  shows "(fixture_paid (pf_world s') \<noteq> fixture_paid (pf_world s) \<longrightarrow>
      (\<exists>ref. fixture_paid (pf_world s') (pc_evidence cmd) = Some ref
        \<and> tracked (pe_libs E) (cl_actor c, claim_key key cmd) cmd ref s'))
    \<and> (\<forall>x. r = Inr x \<and> pw_outcome x = ''RECORDED'' \<longrightarrow>
      (\<exists>e ref. pw_payment x = Some ref \<and> fixture_paid (pf_world s') e = Some ref))"
proof -
  have E: "pe_port E = fixture_port" using assms(1) by (simp add: pay_from_def)
  note ok = pay_from_ok [OF assms(1)] and w = flow_okD(1) [OF pay_from_ok [OF assms(1)]]
  show ?thesis
  proof (rule fixture_payments.record_cases [OF E assms(2,3)])
    assume q: "quiet s s'" and x: "\<And>x. r = Inr x \<Longrightarrow> \<exists>cl. dget (pf_claims s) (cl_actor c, claim_key key cmd) = Some cl
        \<and> cs_hash cl = payment_hash (pe_libs E) cmd \<and> cs_outcome cl = CL_RECORDED
        \<and> pw_payment x = cs_payment cl \<and> pw_outcome x = ''RECORDED''"
    have "\<exists>e ref. pw_payment x = Some ref \<and> fixture_paid (pf_world s') e = Some ref" if r: "r = Inr x" for x
    proof -
      from x [OF r] obtain cl where cl: "dget (pf_claims s) (cl_actor c, claim_key key cmd) = Some cl"
        "cs_outcome cl = CL_RECORDED" "pw_payment x = cs_payment cl" by blast
      with flow_okD(4) [OF ok cl(1)] q show ?thesis by (auto simp: claim_ok_def quiet_def)
    qed
    with q show ?thesis by (auto simp: quiet_def)
  next
    fix a s1
    assume q: "quiet s s1" and at: "attempt_payment E c cmd (claim_key key cmd) a s1 = (r, s')"
    have "fe_ok (pf_world s1)" "pf_world s1 = pf_world s" using w q by (simp_all add: quiet_def)
    from fixture_payments.attempt_effect [OF E this(1) at] this(2) show ?thesis
      by (fastforce simp: attempt_end_def Let_def)
  qed
qed

text \<open>C13. The workflow's books agree with the commands that were given and with the provider's
  payments, after any history: whatever commands any callers gave, and whatever else happened
  at the provider in between. Every entry of the evidence index is the provider's payment with
  that evidence. Every claim stands under the caller and key of a command to record a payment
  that was given, and carries the hash of its payload; an uncertain one is anchored on the
  invoice of that command. A recorded claim was either recorded at once, and then its payment is
  the provider's one with the evidence of that command, or it was uncertain on that command's
  invoice, a command to reconcile some evidence was given, and its payment is the provider's one
  with the reconciled evidence (which need not be the claim's own: \<open>reconcile_overreaches\<close>). No
  claim is held twice under one key.\<close>

theorem books_agree:
  assumes "pe_port E = fixture_port" "erp_from pfx w" "list_all event_ok xs" "s = pay_run E xs (new_pay_flow q w)"
  shows "(\<forall>e ref. dget (pf_evidence s) e = Some ref \<longrightarrow>
      (\<exists>p. dget (fe_payments (pf_world s)) ref = Some p \<and> py_evidence p = e))
    \<and> (\<forall>k cl. dget (pf_claims s) k = Some cl \<longrightarrow>
        (\<exists>clk c key cmd. Command clk (RecordPayment c key cmd) \<in> set xs
          \<and> k = (cl_actor c, claim_key key cmd) \<and> cs_hash cl = payment_hash (pe_libs E) cmd
          \<and> (cs_outcome cl = CL_UNCERTAIN \<longrightarrow> cs_invoice cl = Some (pc_invoice cmd))
          \<and> (cs_outcome cl = CL_RECORDED \<longrightarrow>
              (\<exists>ref p. cs_payment cl = Some ref \<and> dget (fe_payments (pf_world s)) ref = Some p
                \<and> (cs_invoice cl = None \<and> py_evidence p = pc_evidence cmd
                       \<and> dget (pf_evidence s) (pc_evidence cmd) = Some ref
                   \<or> cs_invoice cl = Some (pc_invoice cmd)
                       \<and> (\<exists>clk' c'. Command clk' (ReconcilePayment c' (py_evidence p)) \<in> set xs))))))
    \<and> dict_ok (pf_claims s)"
proof -
  have new: "flow_ok fe_ok fixture_paid (new_pay_flow q w)"
    by (rule flow_okI) (simp_all add: new_pay_flow_def erp_from_ok [OF assms(2)])
  have ok: "flow_ok fe_ok fixture_paid s" using pay_run_ok [OF assms(1,3) new] assms(4) by simp
  note paid = fixture_paid_iff [OF flow_okD(1) [OF ok]]
  have "claims_from fixture_paid (commands xs) (pe_libs E) s"
    using pay_run_claims [OF assms(1) new _ assms(3)] assms(4) by (simp add: new_pay_flow_def)
  then have org: "claim_origin (commands xs) (pe_libs E) (dget (pf_evidence s)) (fixture_paid (pf_world s)) k cl"
    if "dget (pf_claims s) k = Some cl" for k cl
    using that by (rule claims_fromD)
  have "\<exists>clk c key cmd. Command clk (RecordPayment c key cmd) \<in> set xs
          \<and> k = (cl_actor c, claim_key key cmd) \<and> cs_hash cl = payment_hash (pe_libs E) cmd
          \<and> (cs_outcome cl = CL_UNCERTAIN \<longrightarrow> cs_invoice cl = Some (pc_invoice cmd))
          \<and> (cs_outcome cl = CL_RECORDED \<longrightarrow>
              (\<exists>ref p. cs_payment cl = Some ref \<and> dget (fe_payments (pf_world s)) ref = Some p
                \<and> (cs_invoice cl = None \<and> py_evidence p = pc_evidence cmd
                       \<and> dget (pf_evidence s) (pc_evidence cmd) = Some ref
                   \<or> cs_invoice cl = Some (pc_invoice cmd)
                       \<and> (\<exists>clk' c'. Command clk' (ReconcilePayment c' (py_evidence p)) \<in> set xs))))"
    if k: "dget (pf_claims s) k = Some cl" for k cl
  proof -
    obtain c key cmd clk where o: "Command clk (RecordPayment c key cmd) \<in> set xs" "k = (cl_actor c, claim_key key cmd)"
      "cs_hash cl = payment_hash (pe_libs E) cmd" "cs_outcome cl = CL_UNCERTAIN \<longrightarrow> cs_invoice cl = Some (pc_invoice cmd)"
      and rec: "cs_outcome cl = CL_RECORDED \<longrightarrow> (\<exists>ref. cs_payment cl = Some ref
          \<and> (cs_invoice cl = None \<and> dget (pf_evidence s) (pc_evidence cmd) = Some ref
             \<or> cs_invoice cl = Some (pc_invoice cmd)
                \<and> (\<exists>c' ev. ReconcilePayment c' ev \<in> commands xs \<and> fixture_paid (pf_world s) ev = Some ref)))"
      using org [OF k] unfolding claim_origin_def claim_of_def commands_def by blast
    have "\<exists>ref p. cs_payment cl = Some ref \<and> dget (fe_payments (pf_world s)) ref = Some p
                \<and> (cs_invoice cl = None \<and> py_evidence p = pc_evidence cmd
                       \<and> dget (pf_evidence s) (pc_evidence cmd) = Some ref
                   \<or> cs_invoice cl = Some (pc_invoice cmd)
                       \<and> (\<exists>clk' c'. Command clk' (ReconcilePayment c' (py_evidence p)) \<in> set xs))"
      if "cs_outcome cl = CL_RECORDED"
      using rec that flow_okD(2) [OF ok] unfolding paid commands_def by blast
    with o show ?thesis by blast
  qed
  then show ?thesis using flow_okD(2,3) [OF ok] paid by blast
qed

text \<open>C14. A settled claim is settled for ever: once the claim of a caller under a key is
  recorded, it stays as it is whatever happens next, and a further command with that caller
  and key, with whatever payload, reads and logs but changes neither the provider nor the
  claims; it returns a result only if its payload has the hash of the original one, and then
  with the original payment.\<close>

theorem settled_claim_final:
  assumes "pay_from E s" "dget (pf_claims s) (cl_actor c, claim_key key cmd) = Some cl"
    "cs_outcome cl = CL_RECORDED" "list_all event_ok xs" "caller_ok c"
    "record_payment_flow E c key cmd (pay_run E xs s) = (r, s')"
  shows "dget (pf_claims (pay_run E xs s)) (cl_actor c, claim_key key cmd) = Some cl
    \<and> quiet (pay_run E xs s) s'
    \<and> (\<forall>x. r = Inr x \<longrightarrow> cs_hash cl = payment_hash (pe_libs E) cmd \<and> pw_payment x = cs_payment cl)"
proof -
  have E: "pe_port E = fixture_port" using assms(1) by (simp add: pay_from_def)
  have here: "dget (pf_claims (pay_run E xs s)) (cl_actor c, claim_key key cmd) = Some cl"
    using pay_run_ok [OF E assms(4) pay_from_ok [OF assms(1)]] assms(2,3) unfolding settled_stay_def by blast
  show ?thesis
  proof (rule fixture_payments.record_cases [OF E assms(5,6)])
    assume "quiet (pay_run E xs s) s'" and x: "\<And>x. r = Inr x \<Longrightarrow> \<exists>cl. dget (pf_claims (pay_run E xs s)) (cl_actor c, claim_key key cmd) = Some cl
        \<and> cs_hash cl = payment_hash (pe_libs E) cmd \<and> cs_outcome cl = CL_RECORDED
        \<and> pw_payment x = cs_payment cl \<and> pw_outcome x = ''RECORDED''"
    with here show ?thesis by auto
  next
    assume "\<And>cl. dget (pf_claims (pay_run E xs s)) (cl_actor c, claim_key key cmd) = Some cl \<Longrightarrow>
        cs_hash cl = payment_hash (pe_libs E) cmd \<and> cs_outcome cl \<in> {CL_PENDING, CL_REJECTED}"
    with here assms(3) show ?thesis by force
  qed
qed

text \<open>C15. Reconciliation tells the truth, stays in its unit and leaves the provider alone: the
  provider's state is what it was but for the marks of uncertain outcomes, which its read-back
  clears. If anything changes in the workflow but the logs, the evidence was pending and the
  caller may record payments for some unit; then every claim that changed was uncertain and,
  where it is anchored on an invoice, the provider shows that invoice as one of this unit; and
  it became REJECTED, if the provider has no payment with this evidence, or RECORDED with the
  provider's payment. A result that says RECORDED names the provider's payment with this
  evidence, one that says REJECTED means that the provider has none.\<close>

theorem reconcile_truthful:
  assumes "pay_from E s" "caller_ok c" "reconcile_payment_flow E c ev s = (r, s')"
  shows "settled_view (pf_world s') = settled_view (pf_world s)
    \<and> fixture_paid (pf_world s') = fixture_paid (pf_world s)
    \<and> (\<forall>x. r = Inr x \<longrightarrow>
         (pw_outcome x = ''RECORDED'' \<longrightarrow> pw_payment x \<noteq> None \<and> pw_payment x = fixture_paid (pf_world s) ev)
         \<and> (pw_outcome x = ''REJECTED'' \<longrightarrow> fixture_paid (pf_world s) ev = None))
    \<and> (quiet s s' \<or> ev \<in> pf_pending s \<and>
        (\<exists>unit a. empowered c (cl_channel c) ''PAYMENT_RECORD'' unit a
          \<and> (\<forall>k. dget (pf_claims s') k = dget (pf_claims s) k
              \<or> (\<exists>old new. dget (pf_claims s) k = Some old \<and> cs_outcome old = CL_UNCERTAIN
                  \<and> (\<forall>i. cs_invoice old = Some i \<longrightarrow> (\<exists>rec. read_invoice i (pf_world s') = Inr rec
                        \<and> unit_of_payload (ir_payload rec) = Inr unit))
                  \<and> dget (pf_claims s') k = Some new
                  \<and> (new = absent_claim old \<and> fixture_paid (pf_world s) ev = None
                     \<or> (\<exists>ref. new = present_claim ref old \<and> fixture_paid (pf_world s) ev = Some ref))))))"
proof -
  have E: "pe_port E = fixture_port" using assms(1) by (simp add: pay_from_def)
  note ok = pay_from_ok [OF assms(1)]
  show ?thesis
  proof (rule fixture_payments.reconcile_cases [OF E flow_okD(1) [OF ok] assms(2) flow_okD(3) [OF ok] assms(3)])
    assume "quiet s s'" "\<And>x. r \<noteq> Inr x"
    then show ?thesis by (auto simp: quiet_def)
  next
    fix unit a
    assume c: "ev \<in> pf_pending s" "empowered c (cl_channel c) ''PAYMENT_RECORD'' unit a"
      and e: "reconcile_end fixture_paid fixture_port ev unit s r s'"
      and "pf_world s' = snd (port_reconcile_payment fixture_port ev (pf_world s))"
    then have v: "settled_view (pf_world s') = settled_view (pf_world s)"
      using settled_reconcile_payment [OF flow_okD(1) [OF ok]] by simp
    have cl: "dget (pf_claims s') k = dget (pf_claims s) k
              \<or> (\<exists>old new. dget (pf_claims s) k = Some old \<and> cs_outcome old = CL_UNCERTAIN
                  \<and> (\<forall>i. cs_invoice old = Some i \<longrightarrow> (\<exists>rec. read_invoice i (pf_world s') = Inr rec
                        \<and> unit_of_payload (ir_payload rec) = Inr unit))
                  \<and> dget (pf_claims s') k = Some new
                  \<and> (new = absent_claim old \<and> fixture_paid (pf_world s) ev = None
                     \<or> (\<exists>ref. new = present_claim ref old \<and> fixture_paid (pf_world s) ev = Some ref)))" for k
      using reconcile_end_claim [OF e, of k] by (simp add: unit_shown_def)
    have "fixture_paid (pf_world s') = fixture_paid (pf_world s)" using e by (simp add: reconcile_end_def)
    moreover have "(pw_outcome x = ''RECORDED'' \<longrightarrow> pw_payment x \<noteq> None \<and> pw_payment x = fixture_paid (pf_world s) ev)
         \<and> (pw_outcome x = ''REJECTED'' \<longrightarrow> fixture_paid (pf_world s) ev = None)" if "r = Inr x" for x
      using e that by (auto simp: reconcile_end_def)
    ultimately show ?thesis using c cl v by blast
  qed
qed

section \<open>The workflow at work\<close>

definition demo_caller :: caller where
  "demo_caller = \<lparr>cl_actor = ''ACTOR-1'', cl_at = Aware 99 0, cl_binding = reader_binding,
     cl_assignments = [reader ''UNIT-B'' ''UNIT-SALES'', reader ''UNIT-A'' ''FINANCE-REVIEWER''],
     cl_channel = ''CHANNEL-1''\<rparr>"

definition demo_pay_env :: "fixture_erp pay_env" where
  "demo_pay_env = \<lparr>pe_libs = demo_libs, pe_tz = id, pe_clock = (0, 0), pe_resolver = demo_resolver,
     pe_port = fixture_port\<rparr>"

text \<open>A posted invoice over 6 euros, and payments on it.\<close>

definition demo_bill :: draft_invoice_command where
  "demo_bill = \<lparr>dc_customer = ''CUST-1'', dc_identity = demo_identity,
     dc_lines = [\<lparr>il_service = ''SVC-1'', il_description = ''work'', il_quantity = ''2'',
       il_price = ''3'', il_currency = ''EUR''\<rparr>], dc_issued = ''0001-01-01'', dc_due = ''0001-01-02''\<rparr>"

definition demo_billed :: fixture_erp where
  "demo_billed = erp_run [CreateDraft demo_bill, Post ''DRAFT-000001''] demo_fixture"

definition demo_flow :: "fixture_erp pay_flow" where
  "demo_flow = new_pay_flow empty_queue demo_billed"

lemma demo_caller_ok: "caller_ok demo_caller"
  unfolding caller_ok_def by code_simp

lemma demo_flow_from: "list_all event_ok xs \<Longrightarrow> pay_from demo_pay_env (pay_run demo_pay_env xs demo_flow)"
proof -
  assume "list_all event_ok xs"
  moreover have "pe_port demo_pay_env = fixture_port" by (simp add: demo_pay_env_def)
  ultimately show ?thesis using erp_from_run [OF demo_from(1)] unfolding pay_from_def demo_flow_def demo_billed_def by blast
qed

lemma demo_flow_here: "pay_from demo_pay_env demo_flow"
  using demo_flow_from [of "[]"] by (simp add: pay_run_simps)

definition demo_record :: "str \<Rightarrow> str \<Rightarrow> pay_event" where
  "demo_record amount ev = Command (0, 0) (RecordPayment demo_caller None (demo_pay amount ev))"

definition demo_unsure :: "fixture_erp pay_flow" where
  "demo_unsure = pay_run demo_pay_env [Elsewhere (FailPayment ''UNCERTAIN''), demo_record ''4'' ''EVI-1''] demo_flow"

lemma demo_unsure_from: "pay_from demo_pay_env demo_unsure"
  unfolding demo_unsure_def by (rule demo_flow_from) (simp add: demo_record_def demo_caller_ok)

theorem payment_guarded_witness:
  "\<exists>i. read_invoice ''INV-000001'' demo_billed = Inr i \<and> pay_warranted demo_pay_env demo_caller (demo_pay ''4'' ''EVI-1'') i"
proof -
  obtain r s' where run: "record_payment_flow demo_pay_env demo_caller None (demo_pay ''4'' ''EVI-1'') demo_flow = (r, s')"
    by fastforce
  have "fixture_paid (pf_world (snd (record_payment_flow demo_pay_env demo_caller None (demo_pay ''4'' ''EVI-1'') demo_flow)))
      ''EVI-1'' \<noteq> fixture_paid (pf_world demo_flow) ''EVI-1''" by code_simp
  with run have "fixture_paid (pf_world s') \<noteq> fixture_paid (pf_world demo_flow)" by auto
  from payment_guarded [OF demo_flow_here demo_caller_ok run this] show ?thesis
    by (auto simp: demo_flow_def new_pay_flow_def demo_pay_def)
qed

theorem payment_tracked_witness:
  "\<exists>ref s'. tracked demo_libs (''ACTOR-1'', ''EVI-2'') (demo_pay ''1'' ''EVI-2'') ref s'
     \<and> fixture_paid (pf_world s') ''EVI-2'' = Some ref"
proof -
  obtain r s' where run: "record_payment_flow demo_pay_env demo_caller None (demo_pay ''1'' ''EVI-2'') demo_unsure = (r, s')"
    by fastforce
  have "fixture_paid (pf_world (snd (record_payment_flow demo_pay_env demo_caller None (demo_pay ''1'' ''EVI-2'') demo_unsure)))
      ''EVI-2'' \<noteq> fixture_paid (pf_world demo_unsure) ''EVI-2''" by code_simp
  with run have "fixture_paid (pf_world s') \<noteq> fixture_paid (pf_world demo_unsure)" by auto
  with payment_tracked [OF demo_unsure_from demo_caller_ok run] show ?thesis
    by (auto simp: demo_pay_def claim_key_def demo_pay_env_def demo_caller_def)
qed

theorem books_agree_witness:
  "\<exists>p. dget (fe_payments (pf_world (pay_run demo_pay_env [demo_record ''4'' ''EVI-1''] demo_flow))) ''PAY-000001'' = Some p
     \<and> py_evidence p = ''EVI-1''
     \<and> (\<exists>cl cmd. dget (pf_claims (pay_run demo_pay_env [demo_record ''4'' ''EVI-1''] demo_flow)) (''ACTOR-1'', ''EVI-1'') = Some cl
          \<and> cs_outcome cl = CL_RECORDED \<and> cs_hash cl = payment_hash demo_libs cmd)"
proof -
  let ?s = "pay_run demo_pay_env [demo_record ''4'' ''EVI-1''] demo_flow"
  have p: "pe_port demo_pay_env = fixture_port" "pe_libs demo_pay_env = demo_libs" by (simp_all add: demo_pay_env_def)
  have w: "erp_from ''INV'' demo_billed" unfolding demo_billed_def by (rule erp_from_run [OF demo_from(1)])
  have x: "list_all event_ok [demo_record ''4'' ''EVI-1'']" by (simp add: demo_record_def demo_caller_ok)
  have s: "?s = pay_run demo_pay_env [demo_record ''4'' ''EVI-1''] (new_pay_flow empty_queue demo_billed)"
    by (simp only: demo_flow_def)
  note b = books_agree [OF p(1) w x s]
  have "dget (pf_evidence ?s) ''EVI-1'' = Some ''PAY-000001''" by code_simp
  moreover have "(case dget (pf_claims ?s) (''ACTOR-1'', ''EVI-1'') of None \<Rightarrow> False | Some cl \<Rightarrow> cs_outcome cl = CL_RECORDED)"
    by code_simp
  then obtain cl where cl: "dget (pf_claims ?s) (''ACTOR-1'', ''EVI-1'') = Some cl" "cs_outcome cl = CL_RECORDED"
    by (auto split: option.splits)
  moreover have "\<exists>cmd. cs_hash cl = payment_hash demo_libs cmd"
    using b cl(1) unfolding p(2) by blast
  ultimately show ?thesis using b cl by blast
qed

theorem settled_claim_final_witness:
  "\<not> (\<exists>x s'. record_payment_flow demo_pay_env demo_caller None (demo_pay ''1'' ''EVI-1'')
        (pay_run demo_pay_env [Elsewhere (Outage True)] (pay_run demo_pay_env [demo_record ''4'' ''EVI-1''] demo_flow)) = (Inr x, s'))"
proof
  let ?s = "pay_run demo_pay_env [demo_record ''4'' ''EVI-1''] demo_flow"
  assume "\<exists>x s'. record_payment_flow demo_pay_env demo_caller None (demo_pay ''1'' ''EVI-1'')
        (pay_run demo_pay_env [Elsewhere (Outage True)] ?s) = (Inr x, s')"
  then obtain x s' where run: "record_payment_flow demo_pay_env demo_caller None (demo_pay ''1'' ''EVI-1'')
        (pay_run demo_pay_env [Elsewhere (Outage True)] ?s) = (Inr x, s')" by blast
  have f: "pay_from demo_pay_env ?s"
    by (rule demo_flow_from) (simp add: demo_record_def demo_caller_ok)
  have "(case dget (pf_claims ?s) (cl_actor demo_caller, claim_key None (demo_pay ''1'' ''EVI-1'')) of None \<Rightarrow> False
      | Some cl \<Rightarrow> cs_outcome cl = CL_RECORDED \<and> cs_hash cl \<noteq> payment_hash (pe_libs demo_pay_env) (demo_pay ''1'' ''EVI-1''))"
    by code_simp
  then obtain cl where cl: "dget (pf_claims ?s) (cl_actor demo_caller, claim_key None (demo_pay ''1'' ''EVI-1'')) = Some cl"
    "cs_outcome cl = CL_RECORDED" "cs_hash cl \<noteq> payment_hash (pe_libs demo_pay_env) (demo_pay ''1'' ''EVI-1'')"
    by (auto split: option.splits)
  from settled_claim_final [OF f cl(1,2) _ demo_caller_ok run] cl(3) show False by simp
qed

theorem reconcile_truthful_witness:
  "\<exists>x s'. reconcile_payment_flow demo_pay_env demo_caller ''EVI-1'' demo_unsure = (Inr x, s')
     \<and> pw_payment x = fixture_paid (pf_world demo_unsure) ''EVI-1''"
proof -
  obtain r s' where run: "reconcile_payment_flow demo_pay_env demo_caller ''EVI-1'' demo_unsure = (r, s')" by fastforce
  have "(case fst (reconcile_payment_flow demo_pay_env demo_caller ''EVI-1'' demo_unsure) of Inl _ \<Rightarrow> False
      | Inr x \<Rightarrow> pw_outcome x = ''RECORDED'')" by code_simp
  with run obtain x where "r = Inr x" "pw_outcome x = ''RECORDED''" by (auto split: sum.splits)
  with reconcile_truthful [OF demo_unsure_from demo_caller_ok run] run show ?thesis by auto
qed

section \<open>Where reconciliation says too much\<close>

text \<open>
  With two payments of one unit uncertain, reconciling the first marks the second one recorded
  too, with the first one's payment; the second evidence stays pending, and reconciling it is
  refused, since no uncertain claim is left to anchor it.
\<close>

definition demo_two_unsure :: "fixture_erp pay_flow" where
  "demo_two_unsure = pay_run demo_pay_env [Elsewhere (FailPayment ''UNCERTAIN''), demo_record ''1'' ''EVI-2''] demo_unsure"

lemma reconcile_overreaches:
  "(let s = snd (reconcile_payment_flow demo_pay_env demo_caller ''EVI-1'' demo_two_unsure) in
     map_option (\<lambda>cl. (cs_outcome cl, cs_payment cl)) (dget (pf_claims s) (''ACTOR-1'', ''EVI-2''))
       = Some (CL_RECORDED, Some ''PAY-000001'')
     \<and> fixture_paid (pf_world s) ''EVI-2'' = Some ''PAY-000002''
     \<and> ''EVI-2'' \<in> pf_pending s
     \<and> fst (reconcile_payment_flow demo_pay_env demo_caller ''EVI-2'' s) = Inl WorkflowBlocked)"
  by code_simp

end
