(* ===== verification/PyRepr.thy ===== *)
theory PyRepr
  imports Values
begin

text \<open>
  \<^verbatim>\<open>repr\<close> of nested tuples of strings, the material that the workflows hash. The code is
  self-delimiting: a rendered value can be read off the front of a text, whatever follows.
  The locale lifts this from the parts of a tuple to the tuple, so it holds at every depth.
\<close>

text \<open>\<^verbatim>\<open>repr\<close> of a tuple whose parts have been rendered.\<close>

definition tuple_text :: "str list \<Rightarrow> str" where
  "tuple_text xs = (case xs of [x] \<Rightarrow> ''('' @ x @ '',)'' | _ \<Rightarrow> ''('' @ join '', '' xs @ '')'')"

lemma join_Cons: "join sep (x # xs) = x @ concat (map (\<lambda>y. sep @ y) xs)"
  by (induction xs arbitrary: x) simp_all

lemma tuple_text_Cons:
  "tuple_text (x # xs) = CHR ''('' # x @ (if xs = [] then '',)'' else concat (map (\<lambda>y. '', '' @ y) xs) @ '')'')"
  by (cases xs) (simp_all add: tuple_text_def join_Cons comp_def flip: append_Cons)

lemma repr_tuple_text: "length xs \<noteq> 1 \<Longrightarrow> repr_tuple xs = tuple_text (map repr_str xs)"
  by (cases xs rule: list.exhaust [case_product list.exhaust])
    (auto simp: repr_tuple_def tuple_text_def split: list.splits)

locale self_delimiting =
  fixes enc :: "'a \<Rightarrow> str"
  assumes decode: "enc x @ r = enc y @ r' \<Longrightarrow> x = y \<and> r = r'"
    and opens: "\<exists>c t. enc x = c # t \<and> c \<noteq> CHR '')''"
begin

lemma tail_decode:
  "concat (map (\<lambda>y. '', '' @ enc y) xs) @ CHR '')'' # r = concat (map (\<lambda>y. '', '' @ enc y) ys) @ CHR '')'' # r'
    \<Longrightarrow> xs = ys \<and> r = r'"
proof (induction xs arbitrary: ys)
  case Nil
  then show ?case by (cases ys) auto
next
  case (Cons x xs)
  then obtain y ys' where ys: "ys = y # ys'" by (cases ys) auto
  with Cons.prems have "enc x @ concat (map (\<lambda>y. '', '' @ enc y) xs) @ CHR '')'' # r
      = enc y @ concat (map (\<lambda>y. '', '' @ enc y) ys') @ CHR '')'' # r'" by simp
  from decode [OF this] Cons.IH [of ys'] ys show ?case by simp
qed

lemma tuple_decode:
  assumes "tuple_text (map enc xs) @ r = tuple_text (map enc ys) @ r'"
  shows "xs = ys \<and> r = r'"
proof (cases xs)
  case Nil
  show ?thesis
  proof (cases ys)
    case (Cons y ys')
    obtain c t where "enc y = c # t" "c \<noteq> CHR '')''" using opens by blast
    with assms Nil Cons show ?thesis by (simp add: tuple_text_Cons) (simp add: tuple_text_def)
  qed (use assms Nil in \<open>simp add: tuple_text_def\<close>)
next
  case (Cons x xs')
  show ?thesis
  proof (cases ys)
    case Nil
    obtain c t where "enc x = c # t" "c \<noteq> CHR '')''" using opens by blast
    with assms Nil Cons show ?thesis by (simp add: tuple_text_Cons) (simp add: tuple_text_def)
  next
    case c2: (Cons y ys')
    let ?tail = "\<lambda>zs. if zs = [] then '',)'' else concat (map (\<lambda>y. '', '' @ y) (map enc zs)) @ '')''"
    have "enc x @ ?tail xs' @ r = enc y @ ?tail ys' @ r'"
      using assms Cons c2 by (simp add: tuple_text_Cons)
    from decode [OF this] have t: "x = y" "?tail xs' @ r = ?tail ys' @ r'" by auto
    have "xs' = ys' \<and> r = r'"
    proof (cases "xs' = [] \<or> ys' = []")
      case True
      with t(2) show ?thesis by (cases xs'; cases ys') auto
    next
      case False
      with t(2) show ?thesis by (intro tail_decode) (simp add: comp_def)
    qed
    with t(1) Cons c2 show ?thesis by simp
  qed
qed

lemma tuple_delimiting: "self_delimiting (\<lambda>xs. tuple_text (map enc xs))"
proof (unfold_locales, goal_cases)
  case (1 x r y r')
  then show ?case by (rule tuple_decode)
next
  case (2 x)
  then show ?case by (cases x) (simp_all add: tuple_text_Cons, simp add: tuple_text_def)
qed

end

section \<open>Strings\<close>

lemma hex_digit_inj: "m < 16 \<Longrightarrow> n < 16 \<Longrightarrow> hex_digit m = hex_digit n \<Longrightarrow> m = n"
proof -
  assume "m < 16" "n < 16" "hex_digit m = hex_digit n"
  then have "of_char (hex_digit m) = (of_char (hex_digit n) :: nat)" by simp
  with \<open>m < 16\<close> \<open>n < 16\<close> show "m = n" by (auto simp: hex_digit_def split: if_splits)
qed

lemma char_of_hex: "hex_digit (of_char c div 16) = hex_digit (of_char d div 16) \<Longrightarrow>
    hex_digit (of_char c mod 16) = hex_digit (of_char d mod 16) \<Longrightarrow> c = (d :: char)"
proof -
  assume h: "hex_digit (of_char c div 16) = hex_digit (of_char d div 16)"
    "hex_digit (of_char c mod 16) = hex_digit (of_char d mod 16)"
  have lt: "(of_char e :: nat) div 16 < 16" for e :: char
  proof -
    have "(of_char e :: nat) < 256" by simp
    then show ?thesis by linarith
  qed
  have "of_char c div 16 = (of_char d div 16 :: nat)" by (rule hex_digit_inj [OF lt lt h(1)])
  moreover have "of_char c mod 16 = (of_char d mod 16 :: nat)" by (rule hex_digit_inj [OF _ _ h(2)]) simp_all
  ultimately have "(of_char c :: nat) = of_char d" by (metis div_mult_mod_eq)
  then show "c = d" by simp
qed

text \<open>An escaped character is read off the front: the character after a backslash tells the
  escapes apart.\<close>

lemma repr_char_cases:
  fixes c :: char
  defines "n \<equiv> (of_char c :: nat)"
  obtains (plain) "repr_char q c = [c]" "c \<noteq> CHR 0x5C" "c \<noteq> q"
  | (escaped) "repr_char q c = [CHR 0x5C, c]" "c = q \<or> c = CHR 0x5C"
  | (letter) d where "repr_char q c = [CHR 0x5C, d]" "(c, d) \<in> {(CHR 0x0A, CHR ''n''), (CHR 0x0D, CHR ''r''), (CHR 0x09, CHR ''t'')}"
  | (hex) "repr_char q c = [CHR 0x5C, CHR ''x'', hex_digit (of_char c div 16), hex_digit (of_char c mod 16)]"
proof -
  have code: "c = CHR 0x5C \<longleftrightarrow> n = 92" "c = CHR 0x0A \<longleftrightarrow> n = 10" "c = CHR 0x0D \<longleftrightarrow> n = 13" "c = CHR 0x09 \<longleftrightarrow> n = 9"
    unfolding n_def by (auto simp flip: of_char_eq_iff [where 'a = nat])
  consider "c = q \<or> n = 92" | "c \<noteq> q" "n = 10" | "c \<noteq> q" "n = 13" | "c \<noteq> q" "n = 9"
    | "c \<noteq> q" "n \<noteq> 92" "n \<noteq> 10" "n \<noteq> 13" "n \<noteq> 9" by blast
  then show thesis
  proof cases
    case 5
    have "repr_char q c = [c] \<or> repr_char q c = [CHR 0x5C, CHR ''x'', hex_digit (of_char c div 16), hex_digit (of_char c mod 16)]"
      using 5 by (simp add: repr_char_def Let_def n_def)
    then show ?thesis using that(1,4) 5 code by blast
  qed (use that(2,3) code in \<open>auto simp: repr_char_def n_def [symmetric] Let_def\<close>)
qed

abbreviation quote_char :: "char \<Rightarrow> bool" where
  "quote_char q \<equiv> q = CHR 0x27 \<or> q = CHR 0x22"

lemma repr_char_decode:
  assumes "quote_char q" "repr_char q c @ u = repr_char q d @ u'"
  shows "c = d \<and> u = u'"
proof (cases c q rule: repr_char_cases)
  case plain
  with assms show ?thesis by (cases d q rule: repr_char_cases) auto
next
  case escaped
  with assms show ?thesis by (cases d q rule: repr_char_cases) auto
next
  case (letter e)
  with assms show ?thesis by (cases d q rule: repr_char_cases) auto
next
  case hex
  note c = this
  show ?thesis
  proof (cases d q rule: repr_char_cases)
    case hex
    with assms(2) c char_of_hex [of c d] show ?thesis by simp
  qed (use assms c in auto)
qed

lemma repr_char_no_quote: "quote_char q \<Longrightarrow> repr_char q c @ u \<noteq> q # u'"
  by (cases c q rule: repr_char_cases) auto

lemma repr_body_decode:
  assumes "quote_char q" "concat (map (repr_char q) x) @ q # r = concat (map (repr_char q) y) @ q # r'"
  shows "x = y \<and> r = r'"
  using assms(2)
proof (induction x arbitrary: y)
  case Nil
  then show ?case using repr_char_no_quote [OF assms(1)] by (cases y) (auto simp: eq_commute)
next
  case (Cons c x)
  then obtain d y' where y: "y = d # y'" using repr_char_no_quote [OF assms(1)] by (cases y) auto
  with Cons.prems have "repr_char q c @ concat (map (repr_char q) x) @ q # r
      = repr_char q d @ concat (map (repr_char q) y') @ q # r'" by simp
  from repr_char_decode [OF assms(1) this] Cons.IH [of y'] y show ?case by simp
qed

lemma repr_str_form: "\<exists>q. quote_char q \<and> repr_str x = q # concat (map (repr_char q) x) @ [q]"
  by (auto simp: repr_str_def Let_def)

interpretation reprs: self_delimiting repr_str
proof (unfold_locales, goal_cases)
  case (1 x r y r')
  obtain q where q: "quote_char q" "repr_str x = q # concat (map (repr_char q) x) @ [q]"
    using repr_str_form by blast
  obtain p where p: "quote_char p" "repr_str y = p # concat (map (repr_char p) y) @ [p]"
    using repr_str_form by blast
  from 1 q p have "p = q" by simp
  with 1 q p show ?case by (intro repr_body_decode [OF q(1)]) simp
next
  case (2 x)
  show ?case using repr_str_form [of x] by auto
qed

interpretation rows: self_delimiting "\<lambda>xs. tuple_text (map repr_str xs)"
  by (rule reprs.tuple_delimiting)

interpretation tables: self_delimiting "\<lambda>xss. tuple_text (map (\<lambda>xs. tuple_text (map repr_str xs)) xss)"
  by (rule rows.tuple_delimiting)

text \<open>A number is followed by a comma, which it does not hold.\<close>

lemma int_str_inj: "int_str i = int_str j \<Longrightarrow> i = j"
proof (cases "i < 0"; cases "j < 0")
  assume "int_str i = int_str j" "i < 0" "\<not> j < 0"
  then have "CHR ''-'' \<in> set (int_str j)" by (metis int_str_def list.set_intros(1))
  with int_str_pos_digits [of j "CHR ''-''"] \<open>\<not> j < 0\<close> show ?thesis by (simp add: is_digit_def)
next
  assume "int_str i = int_str j" "\<not> i < 0" "j < 0"
  then have "CHR ''-'' \<in> set (int_str i)" by (metis int_str_def list.set_intros(1))
  with int_str_pos_digits [of i "CHR ''-''"] \<open>\<not> i < 0\<close> show ?thesis by (simp add: is_digit_def)
qed (auto simp: int_str_def eq_nat_nat_iff)

lemma int_str_decode:
  assumes "int_str i @ CHR '','' # r = int_str j @ CHR '','' # r'"
  shows "i = j \<and> r = r'"
proof -
  have no: "CHR '','' \<notin> set (int_str k)" for k
    using nat_str_digits [of "CHR '',''"] by (auto simp: int_str_def is_digit_def)
  have "int_str i = int_str j" using takeWhile_part(1) [OF no] assms by metis
  with assms show ?thesis using int_str_inj by auto
qed

end
