(* ===== verification/DraftFlow.thy ===== *)
theory DraftFlow
  imports Flow UnitSettings FinPolicy PyRepr
begin

text \<open>
  The draft and preview workflow of \<^verbatim>\<open>src/workflows/invoice_draft/workflow.py\<close>: opening
  a draft under an actor's key, setting its lines, cancelling it, previewing it against the
  active settings of the unit and the financial policy, and rendering a preview for review.
  The provider is never called: the state holds no port. The settings store and the resolver
  belong to others, so they are arguments of each command.

  The lines of a draft come as dictionaries of strings. A setting of text type holds a string,
  as \<^verbatim>\<open>validate_setting\<close> requires.
\<close>

section \<open>State\<close>

datatype draft_status = DS_OPEN | DS_CANCELLED

record draft_state =
  df_id :: str
  df_actor :: str
  df_channel :: str
  df_unit :: str
  df_assignment :: str
  df_revision :: int
  df_customer :: str
  df_lines :: "invoice_line list"
  df_status :: draft_status
  df_opened :: datetime
  df_last :: datetime
  df_key :: "str option"

record draft_handle =
  dh_draft :: str
  dh_unit :: str

record draft_snapshot =
  dn_draft :: str
  dn_unit :: str
  dn_customer :: str
  dn_status :: draft_status
  dn_lines :: "invoice_line list"

record inv_preview =
  pv_draft :: str
  pv_unit :: str
  pv_customer :: str
  pv_currency :: str
  pv_total :: str
  pv_template :: "str option"
  pv_logo :: "str option"
  pv_version :: int
  pv_issuer :: str
  pv_tax :: str
  pv_series :: str
  pv_ledger :: str
  pv_account :: str
  pv_hash :: str

record draft_flow =
  dw_drafts :: "(str, draft_state) dict"
  dw_keys :: "(str \<times> str, str) dict"
  dw_audit :: flow_log
  dw_denied :: "denial_event list"
  dw_seq :: nat

record draft_env =
  dv_libs :: libs
  dv_tz :: "int \<Rightarrow> int"
  dv_registry :: unit_registry
  dv_settings :: settings_store
  dv_resolver :: resolver

definition new_draft_flow :: draft_flow where
  "new_draft_flow = \<lparr>dw_drafts = [], dw_keys = [], dw_audit = [], dw_denied = [], dw_seq = 1\<rparr>"

section \<open>Parts of the commands\<close>

definition draft_log ::
  "draft_env \<Rightarrow> str \<Rightarrow> str \<Rightarrow> caller \<Rightarrow> (str, json) dict \<Rightarrow> (draft_flow, unit) act" where
  "draft_log E draft_id action c detail = upd (\<lambda>s. s\<lparr>dw_audit := add_entry draft_id
     (flow_entry (dv_libs E) (dv_tz E) action c detail) (dw_audit s)\<rparr>)"

definition draft_log_denied :: "draft_env \<Rightarrow> str \<Rightarrow> caller \<Rightarrow> str \<Rightarrow> (draft_flow, unit) act" where
  "draft_log_denied E action c code = upd (\<lambda>s. s\<lparr>dw_denied :=
     dw_denied s @ [denial (dv_libs E) (dv_tz E) action c code]\<rparr>)"

definition draft_deny :: "draft_env \<Rightarrow> str \<Rightarrow> caller \<Rightarrow> str \<Rightarrow> exn \<Rightarrow> (draft_flow, 'a) act" where
  "draft_deny E action c code e = seq (draft_log_denied E action c code) (\<lambda>_. fail_with e)"

text \<open>\<^verbatim>\<open>except WorkflowDenied as exc: self._log_denied(...); raise\<close>.\<close>

definition draft_try :: "draft_env \<Rightarrow> str \<Rightarrow> caller \<Rightarrow> 'a res \<Rightarrow> (draft_flow, 'a) act" where
  "draft_try E action c r =
    (case r of
       Inr x \<Rightarrow> ret x
     | Inl e \<Rightarrow> (case e of WorkflowDenied code \<Rightarrow> draft_deny E action c code e | _ \<Rightarrow> fail_with e))"

definition unit_code_for_ref :: "unit_registry \<Rightarrow> str \<Rightarrow> str res" where
  "unit_code_for_ref reg unit =
    (case find (\<lambda>s. ''UNIT-'' @ us_code s = unit) (registry_all reg) of
       None \<Rightarrow> Inl WorkflowBlocked | Some s \<Rightarrow> Inr (us_code s))"

definition get_state :: "str \<Rightarrow> draft_flow \<Rightarrow> draft_state res" where
  "get_state draft_id s = (case dget (dw_drafts s) draft_id of None \<Rightarrow> Inl WorkflowBlocked | Some d \<Rightarrow> Inr d)"

definition put_state :: "draft_state \<Rightarrow> (draft_flow, unit) act" where
  "put_state d = upd (\<lambda>s. s\<lparr>dw_drafts := dput (df_id d) d (dw_drafts s)\<rparr>)"

definition assert_owner :: "draft_state \<Rightarrow> str \<Rightarrow> unit res" where
  "assert_owner d actor = (if actor \<noteq> df_actor d then Inl (WorkflowDenied ''PERMISSION_DENIED'') else Inr ())"

definition assert_open :: "draft_state \<Rightarrow> unit res" where
  "assert_open d = (if df_status d \<noteq> DS_OPEN then Inl WorkflowBlocked else Inr ())"

definition assert_monotonic :: "draft_state \<Rightarrow> datetime \<Rightarrow> unit res" where
  "assert_monotonic d at = bind_res (dt_less at (df_opened d)) (\<lambda>early.
     if early then Inl InvalidDomainValue else Inr ())"

text \<open>Authorization for the draft's unit with its pinned assignment; \<open>revision\<close> is the
  revision expected.\<close>

definition authorize_draft :: "caller \<Rightarrow> draft_state \<Rightarrow> int \<Rightarrow> str res" where
  "authorize_draft c d revision =
    bind_res (mk_preview \<lparr>pb_unit = df_unit d, pb_assignment = df_assignment d, pb_revision = df_revision d\<rparr>)
      (\<lambda>pb. authorize_flow c (df_channel d) ''INVOICE_PREVIEW'' (Some (df_unit d)) (Some revision) (Some pb))"

definition reauthorize_mutation :: "caller \<Rightarrow> draft_state \<Rightarrow> unit res" where
  "reauthorize_mutation c d =
    bind_res (assert_monotonic d (cl_at c)) (\<lambda>_.
    bind_res (authorize_draft c d (df_revision d)) (\<lambda>unit.
    bind_res (selected_assignment (cl_actor c) unit (cl_at c) (cl_assignments c)) (\<lambda>a.
    if as_ref a \<noteq> df_assignment d then Inl (WorkflowDenied ''STALE_CONTEXT'') else Inr ())))"

text \<open>\<^verbatim>\<open>settings.get(key, default)\<close> of a text setting.\<close>

definition text_setting :: "settings \<Rightarrow> str \<Rightarrow> str option" where
  "text_setting s key = (case dget s key of Some (SStr v) \<Rightarrow> Some v | _ \<Rightarrow> None)"

definition unit_currency :: "settings \<Rightarrow> str" where
  "unit_currency s = (case text_setting s ''default_currency'' of None \<Rightarrow> ''IDR'' | Some c \<Rightarrow> c)"

definition active_settings :: "draft_env \<Rightarrow> str \<Rightarrow> datetime \<Rightarrow> settings_version res" where
  "active_settings E unit at =
    bind_res (unit_code_for_ref (dv_registry E) unit) (\<lambda>code. get_active code at (dv_settings E))"

section \<open>Lines\<close>

text \<open>\<^verbatim>\<open>raw.get(name)\<close> of a required field: a string that is not empty.\<close>

definition required :: "(str, str) dict \<Rightarrow> str \<Rightarrow> str res" where
  "required raw name = (case dget raw name of None \<Rightarrow> Inl InvalidDomainValue
     | Some v \<Rightarrow> if v = [] then Inl InvalidDomainValue else Inr v)"

definition normalize_line :: "str \<Rightarrow> str set \<Rightarrow> (str, str) dict \<Rightarrow> invoice_line res" where
  "normalize_line expected seen raw =
    bind_res (required raw ''service_ref'') (\<lambda>service.
    bind_res (required raw ''quantity'') (\<lambda>quantity.
    bind_res (required raw ''unit_price_amount'') (\<lambda>price.
    bind_res (required raw ''currency'') (\<lambda>currency.
    ensure InvalidDomainValue (opaque_ref service) (
    ensure InvalidDomainValue (positive_text quantity) (
    ensure InvalidDomainValue (positive_text price) (
    ensure InvalidDomainValue (iso_currency currency) (
    ensure InvalidDomainValue (currency = expected) (
    ensure InvalidDomainValue (service \<notin> seen) (
      Inr \<lparr>il_service = service,
        il_description = take 200 (case dget raw ''description'' of None \<Rightarrow> [] | Some d \<Rightarrow> d),
        il_quantity = quantity, il_price = price, il_currency = currency\<rparr>))))))))))"

fun normalize_each :: "str \<Rightarrow> str set \<Rightarrow> (str, str) dict list \<Rightarrow> invoice_line list res" where
  "normalize_each expected seen [] = Inr []"
| "normalize_each expected seen (raw # raws) =
    bind_res (normalize_line expected seen raw) (\<lambda>l.
    bind_res (normalize_each expected (insert (il_service l) seen) raws) (\<lambda>ls. Inr (l # ls)))"

definition normalize_lines ::
  "draft_env \<Rightarrow> (str, str) dict list \<Rightarrow> draft_state \<Rightarrow> datetime \<Rightarrow> invoice_line list res" where
  "normalize_lines E raws d at =
    bind_res (active_settings E (df_unit d) at) (\<lambda>active.
    bind_res (normalize_each (unit_currency (sv_settings active)) {} raws) (\<lambda>ls.
    ensure InvalidDomainValue (ls \<noteq> []) (Inr ls)))"

section \<open>Commands\<close>

definition current_state :: "str \<Rightarrow> (draft_flow, draft_state) act" where
  "current_state draft_id = look (get_state draft_id) pure"

definition new_draft :: "caller \<Rightarrow> str \<Rightarrow> assignment \<Rightarrow> str \<Rightarrow> str option \<Rightarrow> str \<Rightarrow> draft_state" where
  "new_draft c unit a customer key draft_id =
    \<lparr>df_id = draft_id, df_actor = cl_actor c, df_channel = cl_channel c, df_unit = unit,
     df_assignment = as_ref a, df_revision = as_revision a, df_customer = customer, df_lines = [],
     df_status = DS_OPEN, df_opened = cl_at c, df_last = cl_at c, df_key = key\<rparr>"

definition draft_handle_of :: "draft_state \<Rightarrow> draft_handle" where
  "draft_handle_of d = \<lparr>dh_draft = df_id d, dh_unit = df_unit d\<rparr>"

text \<open>The draft that the actor's key already names. A key only ever names a draft that
  exists (\<open>drafts_ok\<close>); the lookup in the source would raise \<^verbatim>\<open>KeyError\<close>.\<close>

definition keyed_draft :: "str \<Rightarrow> str option \<Rightarrow> draft_flow \<Rightarrow> draft_state option res" where
  "keyed_draft actor key s =
    (case key of
       None \<Rightarrow> Inr None
     | Some k \<Rightarrow> (case dget (dw_keys s) (actor, k) of
         None \<Rightarrow> Inr None
       | Some i \<Rightarrow> (case dget (dw_drafts s) i of None \<Rightarrow> Inl KeyError | Some d \<Rightarrow> Inr (Some d))))"

definition register_draft :: "caller \<Rightarrow> str option \<Rightarrow> draft_state \<Rightarrow> draft_flow \<Rightarrow> draft_flow" where
  "register_draft c key d s = s\<lparr>
     dw_drafts := dput (df_id d) d (dw_drafts s),
     dw_keys := (case key of None \<Rightarrow> dw_keys s | Some k \<Rightarrow> dput (cl_actor c, k) (df_id d) (dw_keys s)),
     dw_seq := Suc (dw_seq s)\<rparr>"

definition open_new ::
  "draft_env \<Rightarrow> caller \<Rightarrow> str \<Rightarrow> str \<Rightarrow> str option \<Rightarrow> (draft_flow, draft_handle) act" where
  "open_new E c unit customer key =
    seq (pure (selected_assignment (cl_actor c) unit (cl_at c) (cl_assignments c))) (\<lambda>a.
    look (\<lambda>s. new_draft c unit a customer key (ref_num ''DFT'' 6 (dw_seq s))) (\<lambda>d.
    seq (upd (register_draft c key d)) (\<lambda>_.
    seq (draft_log E (df_id d) ''open'' c [(''unit_ref'', JStr unit), (''customer_ref'', JStr customer)])
      (\<lambda>_. ret (draft_handle_of d)))))"

definition open_draft ::
  "draft_env \<Rightarrow> caller \<Rightarrow> str \<Rightarrow> str option \<Rightarrow> str option \<Rightarrow> (draft_flow, draft_handle) act" where
  "open_draft E c customer unit key =
    seq (draft_try E ''open'' c
          (authorize_flow c (cl_channel c) ''INVOICE_PREVIEW'' unit None None)) (\<lambda>u.
    seq (guard (ref_with ''CUST-'' customer) (fail_with InvalidDomainValue)) (\<lambda>_.
    seq (look (keyed_draft (cl_actor c) key) pure) (\<lambda>prior.
    case prior of
      None \<Rightarrow> open_new E c u customer key
    | Some d \<Rightarrow>
        if df_customer d \<noteq> customer \<or> df_unit d \<noteq> u
        then draft_deny E ''open'' c ''IDEMPOTENCY_CONFLICT'' WorkflowBlocked
        else ret (draft_handle_of d))))"

definition set_lines :: "draft_env \<Rightarrow> caller \<Rightarrow> str \<Rightarrow> (str, str) dict list \<Rightarrow> (draft_flow, unit) act" where
  "set_lines E c draft_id raws =
    seq (current_state draft_id) (\<lambda>d.
    seq (draft_try E ''set_lines'' c (
          bind_res (assert_owner d (cl_actor c)) (\<lambda>_.
          bind_res (assert_open d) (\<lambda>_. reauthorize_mutation c d)))) (\<lambda>_.
    seq (pure (normalize_lines E raws d (cl_at c))) (\<lambda>ls.
    seq (put_state (d\<lparr>df_lines := ls, df_last := cl_at c\<rparr>)) (\<lambda>_.
    draft_log E draft_id ''set_lines'' c [(''line_count'', JInt (int (length ls)))]))))"

definition cancel_draft :: "draft_env \<Rightarrow> caller \<Rightarrow> str \<Rightarrow> (draft_flow, unit) act" where
  "cancel_draft E c draft_id =
    seq (current_state draft_id) (\<lambda>d.
    seq (draft_try E ''cancel'' c (assert_owner d (cl_actor c))) (\<lambda>_.
    guard (df_status d = DS_CANCELLED) (
      seq (draft_try E ''cancel'' c (reauthorize_mutation c d)) (\<lambda>_.
      seq (put_state (d\<lparr>df_status := DS_CANCELLED, df_lines := [], df_last := cl_at c\<rparr>)) (\<lambda>_.
      draft_log E draft_id ''cancel'' c [])))))"

section \<open>Previews\<close>

definition draft_total :: "invoice_line list \<Rightarrow> decimal" where
  "draft_total ls = foldl (\<lambda>t l. dadd t (dmul (dec_of_text (il_quantity l)) (dec_of_text (il_price l)))) dzero ls"

text \<open>\<open>_format_money\<close>: the fraction is cut to two digits, not rounded.\<close>

definition format_money :: "decimal \<Rightarrow> str" where
  "format_money tot =
    (let text = format_f tot;
         whole = takeWhile (\<lambda>ch. ch \<noteq> CHR ''.'') text;
         rest = dropWhile (\<lambda>ch. ch \<noteq> CHR ''.'') text;
         fraction = (if rest = [] then ''00'' else take 2 (tl rest @ ''00''))
     in whole @ ''.'' @ fraction)"

definition line_texts :: "invoice_line \<Rightarrow> str list" where
  "line_texts l = [il_service l, il_description l, il_quantity l, il_price l, il_currency l]"

definition hash_material :: "draft_state \<Rightarrow> int \<Rightarrow> (str, str) dict \<Rightarrow> decimal \<Rightarrow> str" where
  "hash_material d version descriptor tot = tuple_text
     [repr_str (df_id d), repr_str (df_unit d), repr_str (df_customer d),
      tuple_text (map (\<lambda>ts. tuple_text (map repr_str ts)) (sort (map line_texts (df_lines d)))),
      int_str version,
      tuple_text (map (\<lambda>ts. tuple_text (map repr_str ts)) (sort (map (\<lambda>(k, v). [k, v]) descriptor))),
      repr_str (format_f tot)]"

definition preview_hash :: "libs \<Rightarrow> draft_state \<Rightarrow> int \<Rightarrow> (str, str) dict \<Rightarrow> decimal \<Rightarrow> str" where
  "preview_hash L d version descriptor tot = l_sha256 L (hash_material d version descriptor tot)"

definition resolve_identity :: "draft_env \<Rightarrow> str \<Rightarrow> str \<Rightarrow> datetime \<Rightarrow> resolved_policy res" where
  "resolve_identity E unit currency at =
    (case bind_res (mk_policy_request \<lparr>rq_unit = unit, rq_currency = currency, rq_at = at,
            rq_requested = None, rq_override = None\<rparr>) (resolve (dv_libs E) (dv_resolver E)) of
       Inl (PolicyResolutionError _) \<Rightarrow> Inl WorkflowBlocked
     | r \<Rightarrow> r)"

text \<open>The preview of a draft under a settings version and a resolved policy, as \<open>preview\<close>
  builds it and \<open>render_for_review\<close> and \<open>recompute_preview_expectation\<close> expect it.\<close>

definition preview_of :: "draft_env \<Rightarrow> draft_state \<Rightarrow> settings_version \<Rightarrow> resolved_policy \<Rightarrow> inv_preview" where
  "preview_of E d active p =
    (let i = rp_identity p; tot = draft_total (df_lines d); descriptor = redacted_descriptor i in
     \<lparr>pv_draft = df_id d, pv_unit = df_unit d, pv_customer = df_customer d,
      pv_currency = unit_currency (sv_settings active), pv_total = format_money tot,
      pv_template = text_setting (sv_settings active) ''invoice_template_ref'',
      pv_logo = text_setting (sv_settings active) ''logo_asset_ref'',
      pv_version = sv_version active, pv_issuer = fi_issuer i, pv_tax = fi_tax i,
      pv_series = fi_series i, pv_ledger = fi_ledger i,
      pv_account = (case dget descriptor ''destination_account_alias'' of Some a \<Rightarrow> a | None \<Rightarrow> []),
      pv_hash = preview_hash (dv_libs E) d (sv_version active) descriptor tot\<rparr>)"

definition compute_preview :: "draft_env \<Rightarrow> draft_state \<Rightarrow> str \<Rightarrow> datetime \<Rightarrow> inv_preview res" where
  "compute_preview E d unit at =
    bind_res (assert_monotonic d at) (\<lambda>_.
    bind_res (active_settings E unit at) (\<lambda>active.
    ensure WorkflowBlocked
      (case text_setting (sv_settings active) ''invoice_template_ref'' of None \<Rightarrow> False | Some t \<Rightarrow> t \<noteq> []) (
    bind_res (resolve_identity E unit (unit_currency (sv_settings active)) at) (\<lambda>p.
      Inr (preview_of E d active p)))))"

definition preview_draft :: "draft_env \<Rightarrow> caller \<Rightarrow> str \<Rightarrow> int option \<Rightarrow> (draft_flow, inv_preview) act" where
  "preview_draft E c draft_id revision =
    seq (current_state draft_id) (\<lambda>d.
    seq (draft_try E ''preview'' c (
          bind_res (assert_owner d (cl_actor c)) (\<lambda>_.
          bind_res (assert_open d) (\<lambda>_.
          ensure WorkflowBlocked (df_lines d \<noteq> [])
            (authorize_draft c d (case revision of None \<Rightarrow> df_revision d | Some n \<Rightarrow> n)))))) (\<lambda>unit.
    seq (pure (compute_preview E d unit (cl_at c))) (\<lambda>pv.
    seq (put_state (d\<lparr>df_last := cl_at c\<rparr>)) (\<lambda>_.
    seq (draft_log E draft_id ''preview'' c
          [(''configuration_version'', JInt (pv_version pv)), (''preview_hash'', JStr (pv_hash pv))])
      (\<lambda>_. ret pv)))))"

section \<open>Rendering for review\<close>

record review_payload =
  vp_draft :: str
  vp_unit :: str
  vp_template :: "str option"
  vp_hash :: str
  vp_version :: int
  vp_total :: str
  vp_currency :: str

definition forged :: "inv_preview \<Rightarrow> inv_preview \<Rightarrow> bool" where
  "forged pv expected =
    (pv_hash pv \<noteq> pv_hash expected \<or> pv_total pv \<noteq> pv_total expected
     \<or> pv_currency pv \<noteq> pv_currency expected \<or> pv_template pv \<noteq> pv_template expected
     \<or> pv_logo pv \<noteq> pv_logo expected \<or> pv_issuer pv \<noteq> pv_issuer expected
     \<or> pv_tax pv \<noteq> pv_tax expected \<or> pv_series pv \<noteq> pv_series expected
     \<or> pv_ledger pv \<noteq> pv_ledger expected \<or> pv_account pv \<noteq> pv_account expected
     \<or> pv_customer pv \<noteq> pv_customer expected \<or> pv_unit pv \<noteq> pv_unit expected
     \<or> pv_draft pv \<noteq> pv_draft expected)"

definition review_of :: "inv_preview \<Rightarrow> review_payload" where
  "review_of pv = \<lparr>vp_draft = pv_draft pv, vp_unit = pv_unit pv, vp_template = pv_template pv,
     vp_hash = pv_hash pv, vp_version = pv_version pv, vp_total = pv_total pv, vp_currency = pv_currency pv\<rparr>"

text \<open>\<^verbatim>\<open>configuration_version\<close> is compared first, and a difference is logged as a blocked
  rendering, not as a denial.\<close>

definition check_version ::
  "draft_env \<Rightarrow> caller \<Rightarrow> inv_preview \<Rightarrow> settings_version \<Rightarrow> (draft_flow, unit) act" where
  "check_version E c pv active = guard (sv_version active = pv_version pv) (
     seq (draft_log E (pv_draft pv) ''render_blocked'' c
          [(''reason'', JStr ''configuration_version_conflict''),
           (''preview_version'', JInt (pv_version pv)), (''active_version'', JInt (sv_version active))])
       (\<lambda>_. fail_with WorkflowBlocked))"

definition render_for_review :: "draft_env \<Rightarrow> caller \<Rightarrow> inv_preview \<Rightarrow> (draft_flow, review_payload) act" where
  "render_for_review E c pv =
    seq (current_state (pv_draft pv)) (\<lambda>d.
    seq (draft_try E ''render_for_review'' c (
          bind_res (assert_owner d (cl_actor c)) (\<lambda>_.
          bind_res (assert_open d) (\<lambda>_. authorize_draft c d (df_revision d))))) (\<lambda>_.
    seq (pure (bind_res (assert_monotonic d (cl_at c)) (\<lambda>_.
          active_settings E (pv_unit pv) (cl_at c)))) (\<lambda>active.
    seq (check_version E c pv active) (\<lambda>_.
    seq (guard (df_lines d \<noteq> []) (fail_with WorkflowBlocked)) (\<lambda>_.
    seq (pure (resolve_identity E (pv_unit pv) (unit_currency (sv_settings active)) (cl_at c))) (\<lambda>p.
    if forged pv (preview_of E d active p)
    then draft_deny E ''render_for_review'' c ''PREVIEW_HASH_MISMATCH'' (WorkflowDenied ''PREVIEW_HASH_MISMATCH'')
    else seq (draft_log E (pv_draft pv) ''render_for_review'' c [(''configuration_version'', JInt (pv_version pv))])
           (\<lambda>_. ret (review_of pv))))))))"

section \<open>Queries\<close>

definition get_draft :: "str \<Rightarrow> draft_flow \<Rightarrow> draft_snapshot res" where
  "get_draft draft_id s = bind_res (get_state draft_id s) (\<lambda>d. Inr \<lparr>dn_draft = df_id d,
     dn_unit = df_unit d, dn_customer = df_customer d, dn_status = df_status d, dn_lines = df_lines d\<rparr>)"

definition get_draft_opener :: "str \<Rightarrow> draft_flow \<Rightarrow> str res" where
  "get_draft_opener draft_id s = bind_res (get_state draft_id s) (\<lambda>d. Inr (df_actor d))"

definition recompute_preview_expectation :: "draft_env \<Rightarrow> str \<Rightarrow> datetime \<Rightarrow> draft_flow \<Rightarrow> inv_preview res" where
  "recompute_preview_expectation E draft_id at s =
    bind_res (get_state draft_id s) (\<lambda>d.
    bind_res (active_settings E (df_unit d) at) (\<lambda>active.
    bind_res (resolve_identity E (df_unit d) (unit_currency (sv_settings active)) at) (\<lambda>p.
      Inr (preview_of E d active p))))"

definition draft_audit_events :: "str \<Rightarrow> draft_flow \<Rightarrow> (str, json) dict list res" where
  "draft_audit_events draft_id s = bind_res (get_state draft_id s) (\<lambda>_.
     Inr (case dget (dw_audit s) draft_id of None \<Rightarrow> [] | Some es \<Rightarrow> es))"

end
