(* ===== verification/PostFlow.thy ===== *)
theory PostFlow
  imports PaymentFlow DraftFlow
begin

text \<open>
  The posting workflow of \<^verbatim>\<open>src/workflows/invoice_post/workflow.py\<close> over an arbitrary
  provider port: posting a reviewed preview, classifying an uncertain post, cancelling a
  posted invoice and enqueueing its delivery. It reads the draft workflow, whose state is the
  argument \<open>D\<close>, and never writes it. An uncaught exception leaves the state as far as it had
  come. The classes \<^verbatim>\<open>WorkflowDenied\<close> and \<^verbatim>\<open>WorkflowBlocked\<close> of the two modules
  have the same names and are not told apart: no handler here sees one of the other module.
\<close>

section \<open>Calendar dates\<close>

text \<open>\<^verbatim>\<open>date.fromordinal\<close>: the year by cycles of 400, 100, 4 and 1 years, then the month.\<close>

fun month_day :: "nat \<Rightarrow> nat list \<Rightarrow> nat \<Rightarrow> nat \<Rightarrow> date" where
  "month_day y [] m r = Date y m (Suc r)"
| "month_day y (d # ds) m r = (if r < d then Date y m (Suc r) else month_day y ds (Suc m) (r - d))"

definition date_of_ordinal :: "int \<Rightarrow> date" where
  "date_of_ordinal ordinal =
    (let n = ordinal - 1; n400 = n div 146097; n = n mod 146097; n100 = n div 36524; n = n mod 36524;
         n4 = n div 1461; n = n mod 1461; n1 = n div 365; n = n mod 365;
         y = nat (n400 * 400 + n100 * 100 + n4 * 4 + n1 + 1)
     in if n1 = 4 \<or> n100 = 4 then Date (y - 1) 12 31
        else month_day y (map (days_in_month y) [1..<13]) 1 (nat n))"

text \<open>The largest ordinal, of 9999-12-31, and that of 1970-01-01.\<close>

definition max_ordinal :: int where "max_ordinal = 3652059"

definition epoch_ordinal :: int where "epoch_ordinal = 719163"

text \<open>\<^verbatim>\<open>at.date().toordinal()\<close>: the day on the datetime's own clock.\<close>

definition local_ordinal :: "datetime \<Rightarrow> int" where
  "local_ordinal t = (case t of Aware u z \<Rightarrow> u + z | Naive u \<Rightarrow> u) div 86400000000 + epoch_ordinal"

definition date_text :: "date \<Rightarrow> str" where
  "date_text d = pad_str 4 (da_year d) @ ''-'' @ pad_str 2 (da_month d) @ ''-'' @ pad_str 2 (da_day d)"

text \<open>\<^verbatim>\<open>(at.date() + timedelta(days=n)).isoformat()\<close>.\<close>

definition due_text :: "datetime \<Rightarrow> int \<Rightarrow> str res" where
  "due_text at n = (let o' = local_ordinal at + n in
     if 1 \<le> o' \<and> o' \<le> max_ordinal then Inr (date_text (date_of_ordinal o')) else Inl OverflowError)"

section \<open>State\<close>

datatype posted_status = PD_POSTED | PD_CANCELLED

record post_result =
  xr_outcome :: posting_outcome
  xr_official :: "str option"
  xr_reason :: "str option"

record posted_state =
  ps_official :: str
  ps_draft :: str
  ps_unit :: str
  ps_customer :: str
  ps_status :: posted_status
  ps_total :: str
  ps_currency :: str
  ps_template :: "str option"
  ps_logo :: "str option"
  ps_version :: int
  ps_snapshot :: posted_snapshot
  ps_pdf :: str
  ps_at :: datetime
  ps_by :: str

record posted_record =
  pi_official :: str
  pi_draft :: str
  pi_unit :: str
  pi_customer :: str
  pi_status :: posted_status
  pi_total :: str
  pi_currency :: str
  pi_template :: "str option"
  pi_logo :: "str option"
  pi_version :: int
  pi_issuer :: str
  pi_tax :: str
  pi_series :: str
  pi_ledger :: str
  pi_account :: str
  pi_policy :: str
  pi_policy_version :: int
  pi_pdf :: str

record 'w post_flow =
  xf_posted :: "(str, posted_state) dict"
  xf_by_draft :: "(str, str) dict"
  xf_pending :: "(str, str) dict"
  xf_audit :: flow_log
  xf_denied :: "denial_event list"
  xf_world :: 'w

text \<open>What the workflow is constructed with: its own registry, settings, resolver and
  libraries, those of the draft workflow, the port, and the port's delivery outbox.\<close>

record 'w post_env =
  xe_env :: draft_env
  xe_drafts :: draft_env
  xe_port :: "'w erp_port"
  xe_deliver :: "str \<Rightarrow> str \<Rightarrow> 'w \<Rightarrow> delivery_record res \<times> 'w"

definition new_post_flow :: "'w \<Rightarrow> 'w post_flow" where
  "new_post_flow w = \<lparr>xf_posted = [], xf_by_draft = [], xf_pending = [], xf_audit = [], xf_denied = [], xf_world = w\<rparr>"

section \<open>Parts of the commands\<close>

definition post_log ::
  "'w post_env \<Rightarrow> str \<Rightarrow> str \<Rightarrow> caller \<Rightarrow> (str, json) dict \<Rightarrow> ('w post_flow, unit) act" where
  "post_log E anchor action c detail = upd (\<lambda>s. s\<lparr>xf_audit := add_entry anchor
     (flow_entry (dv_libs (xe_env E)) (dv_tz (xe_env E)) action c detail) (xf_audit s)\<rparr>)"

definition post_log_denied :: "'w post_env \<Rightarrow> str \<Rightarrow> caller \<Rightarrow> str \<Rightarrow> ('w post_flow, unit) act" where
  "post_log_denied E action c code = upd (\<lambda>s. s\<lparr>xf_denied :=
     xf_denied s @ [denial (dv_libs (xe_env E)) (dv_tz (xe_env E)) action c code]\<rparr>)"

definition post_deny :: "'w post_env \<Rightarrow> str \<Rightarrow> caller \<Rightarrow> str \<Rightarrow> exn \<Rightarrow> ('w post_flow, 'a) act" where
  "post_deny E action c code e = seq (post_log_denied E action c code) (\<lambda>_. fail_with e)"

text \<open>\<^verbatim>\<open>self._log(...); raise WorkflowBlocked\<close> for an exception of the provider.\<close>

definition post_blocked ::
  "'w post_env \<Rightarrow> str \<Rightarrow> str \<Rightarrow> caller \<Rightarrow> (str, json) dict \<Rightarrow> exn \<Rightarrow> ('w post_flow, 'a) act" where
  "post_blocked E anchor action c detail e =
    (if is_provider_error e
     then seq (post_log E anchor action c detail) (\<lambda>_. fail_with WorkflowBlocked)
     else fail_with e)"

definition port_call :: "('w \<Rightarrow> 'a res \<times> 'w) \<Rightarrow> ('w post_flow, 'a) act" where
  "port_call f s = (let (r, w) = f (xf_world s) in (r, s\<lparr>xf_world := w\<rparr>))"

definition text_json :: "str option \<Rightarrow> json" where
  "text_json t = (case t of None \<Rightarrow> JNull | Some v \<Rightarrow> JStr v)"

text \<open>Authorization and the assignment for the audit trail.\<close>

definition post_authorize :: "'w post_env \<Rightarrow> str \<Rightarrow> caller \<Rightarrow> str \<Rightarrow> ('w post_flow, assignment) act" where
  "post_authorize E command c unit =
    seq (case authorize_flow c (cl_channel c) ''INVOICE_POST'' (Some unit) None None of
           Inr u \<Rightarrow> ret u
         | Inl e \<Rightarrow> (case e of WorkflowDenied code \<Rightarrow> post_deny E command c code e | _ \<Rightarrow> fail_with e))
      (\<lambda>_. pure (selected_assignment (cl_actor c) unit (cl_at c) (cl_assignments c)))"

text \<open>The preview's fields that are compared with the recomputation, in the order of
  \<^verbatim>\<open>_PREVIEW_PROTECTED_FIELDS\<close>.\<close>

definition protected_fields :: "inv_preview \<Rightarrow> json list" where
  "protected_fields pv =
    [JStr (pv_draft pv), JStr (pv_unit pv), JStr (pv_customer pv), JStr (pv_currency pv), JStr (pv_total pv),
     text_json (pv_template pv), text_json (pv_logo pv), JInt (pv_version pv), JStr (pv_issuer pv),
     JStr (pv_tax pv), JStr (pv_series pv), JStr (pv_ledger pv), JStr (pv_account pv), JStr (pv_hash pv)]"

definition verify_preview ::
  "'w post_env \<Rightarrow> draft_flow \<Rightarrow> str \<Rightarrow> caller \<Rightarrow> inv_preview \<Rightarrow> ('w post_flow, unit) act" where
  "verify_preview E D command c pv =
    seq (pure (recompute_preview_expectation (xe_drafts E) (pv_draft pv) (cl_at c) D)) (\<lambda>expected.
    guard (\<not> list_ex (\<lambda>(x, y). x \<noteq> y) (zip (protected_fields pv) (protected_fields expected)))
      (post_deny E command c ''PREVIEW_HASH_MISMATCH'' (WorkflowDenied ''PREVIEW_HASH_MISMATCH'')))"

definition assert_not_self_post ::
  "'w post_env \<Rightarrow> draft_flow \<Rightarrow> str \<Rightarrow> caller \<Rightarrow> inv_preview \<Rightarrow> ('w post_flow, unit) act" where
  "assert_not_self_post E D command c pv =
    seq (pure (get_draft_opener (pv_draft pv) D)) (\<lambda>opener.
    guard (cl_actor c \<noteq> opener) (post_deny E command c ''SELF_POST_DENIED'' (WorkflowDenied ''SELF_POST_DENIED'')))"

text \<open>The checks that \<open>post\<close> and \<open>reconcile_post\<close> open with.\<close>

definition post_gate ::
  "'w post_env \<Rightarrow> draft_flow \<Rightarrow> str \<Rightarrow> caller \<Rightarrow> inv_preview \<Rightarrow> ('w post_flow, assignment \<times> settings_version) act" where
  "post_gate E D command c pv =
    seq (post_authorize E command c (pv_unit pv)) (\<lambda>a.
    seq (assert_not_self_post E D command c pv) (\<lambda>_.
    seq (pure (active_settings (xe_env E) (pv_unit pv) (cl_at c))) (\<lambda>cfg.
    seq (guard (sv_version cfg = pv_version pv) (post_deny E command c ''STALE_PREVIEW'' WorkflowBlocked)) (\<lambda>_.
    seq (verify_preview E D command c pv) (\<lambda>_. ret (a, cfg))))))"

text \<open>\<^verbatim>\<open>repr\<close> of a text or \<^verbatim>\<open>None\<close>, and \<^verbatim>\<open>str\<close> of it.\<close>

definition repr_opt :: "str option \<Rightarrow> str" where
  "repr_opt t = (case t of None \<Rightarrow> ''None'' | Some v \<Rightarrow> repr_str v)"

definition render_pdf_reference :: "libs \<Rightarrow> str option \<Rightarrow> str \<Rightarrow> posted_snapshot \<Rightarrow> str" where
  "render_pdf_reference L template official n =
    (let digest = take 16 (l_sha256 L (tuple_text [repr_opt template, repr_str official, repr_str (sn_policy n),
           int_str (sn_version n), repr_str (fi_issuer (sn_identity n)), repr_str (fi_series (sn_identity n))]))
     in ''PDF-'' @ (case template of None \<Rightarrow> ''None'' | Some t \<Rightarrow> t) @ ''-'' @ official @ ''-'' @ digest)"

definition frozen :: "libs \<Rightarrow> caller \<Rightarrow> inv_preview \<Rightarrow> str \<Rightarrow> posted_snapshot \<Rightarrow> posted_state" where
  "frozen L c pv official n =
    \<lparr>ps_official = official, ps_draft = pv_draft pv, ps_unit = pv_unit pv, ps_customer = pv_customer pv,
     ps_status = PD_POSTED, ps_total = pv_total pv, ps_currency = pv_currency pv,
     ps_template = pv_template pv, ps_logo = pv_logo pv, ps_version = pv_version pv, ps_snapshot = n,
     ps_pdf = render_pdf_reference L (pv_template pv) official n, ps_at = cl_at c, ps_by = cl_actor c\<rparr>"

text \<open>The record of a document that the provider reports as posted. The contract gives such a
  result a reference (\<^verbatim>\<open>official reference when POSTED\<close>); without one there is no record
  to keep and the model raises.\<close>

definition freeze ::
  "'w post_env \<Rightarrow> caller \<Rightarrow> inv_preview \<Rightarrow> str option \<Rightarrow> resolved_policy \<Rightarrow> ('w post_flow, str) act" where
  "freeze E c pv reference p =
    seq (pure (posted_snapshot_of p)) (\<lambda>n.
    case reference of
      None \<Rightarrow> fail_with TypeError
    | Some official \<Rightarrow>
        seq (upd (\<lambda>s. s\<lparr>xf_posted := dput official (frozen (dv_libs (xe_env E)) c pv official n) (xf_posted s),
               xf_by_draft := dput (pv_draft pv) official (xf_by_draft s)\<rparr>))
          (\<lambda>_. ret official))"

definition post_outcome_result :: "posting_outcome \<Rightarrow> str option \<Rightarrow> post_result" where
  "post_outcome_result oc why = \<lparr>xr_outcome = oc, xr_official = None, xr_reason = why\<rparr>"

definition posted_result :: "str \<Rightarrow> post_result" where
  "posted_result official = \<lparr>xr_outcome = O_POSTED, xr_official = Some official, xr_reason = None\<rparr>"

definition mark_pending :: "str \<Rightarrow> str \<Rightarrow> ('w post_flow, unit) act" where
  "mark_pending draft_id h = upd (\<lambda>s. s\<lparr>xf_pending := dput draft_id h (xf_pending s)\<rparr>)"

definition drop_pending :: "str \<Rightarrow> ('w post_flow, unit) act" where
  "drop_pending draft_id = upd (\<lambda>s. s\<lparr>xf_pending := ddel draft_id (xf_pending s)\<rparr>)"

text \<open>\<^verbatim>\<open>try: self._adapter.cancel_invoice(ref) except Exception: pass\<close>.\<close>

definition clean_up :: "'w post_env \<Rightarrow> str \<Rightarrow> ('w post_flow, unit) act" where
  "clean_up E ref = handle (port_call (port_cancel (xe_port E) ref)) (\<lambda>_. ret ())"

section \<open>Posting\<close>

text \<open>\<^verbatim>\<open>int(active.settings.get("payment_terms_days", 0))\<close>; a setting of that name is an
  integer, as \<^verbatim>\<open>validate_setting\<close> requires.\<close>

definition payment_terms :: "settings \<Rightarrow> int" where
  "payment_terms s = (case dget s ''payment_terms_days'' of Some (SInt n) \<Rightarrow> n | _ \<Rightarrow> 0)"

definition post_command ::
  "caller \<Rightarrow> inv_preview \<Rightarrow> settings_version \<Rightarrow> resolved_policy \<Rightarrow> draft_snapshot \<Rightarrow> draft_invoice_command res" where
  "post_command c pv cfg p n =
    bind_res (due_text (cl_at c) (payment_terms (sv_settings cfg))) (\<lambda>due.
      Inr \<lparr>dc_customer = pv_customer pv, dc_identity = rp_identity p, dc_lines = dn_lines n,
        dc_issued = date_text (date_of_ordinal (local_ordinal (cl_at c))), dc_due = due\<rparr>)"

text \<open>No post is pending for the draft and none has succeeded.\<close>

definition check_unposted :: "'w post_env \<Rightarrow> caller \<Rightarrow> str \<Rightarrow> ('w post_flow, unit) act" where
  "check_unposted E c draft_id =
    look (\<lambda>s. s) (\<lambda>s.
    seq (guard (dget (xf_pending s) draft_id = None) (post_deny E ''post'' c ''INVALID_STATE'' WorkflowBlocked)) (\<lambda>_.
    guard (case dget (xf_by_draft s) draft_id of None \<Rightarrow> True
             | Some official \<Rightarrow> dget (xf_posted s) official = None)
      (post_deny E ''post'' c ''INVALID_STATE'' WorkflowBlocked)))"

definition create_handle ::
  "'w post_env \<Rightarrow> caller \<Rightarrow> inv_preview \<Rightarrow> draft_invoice_command \<Rightarrow> ('w post_flow, str) act" where
  "create_handle E c pv cmd = handle (port_call (port_create (xe_port E) cmd))
     (post_blocked E (pv_draft pv) ''post_blocked'' c [(''reason'', JStr ''provider rejected draft'')])"

definition attempt_detail :: "json \<Rightarrow> str \<Rightarrow> assignment \<Rightarrow> (str, json) dict" where
  "attempt_detail why h a =
    [(''reason'', why), (''provider_draft_ref'', JStr h), (''assignment_ref'', JStr (as_ref a))]"

definition leave_pending ::
  "'w post_env \<Rightarrow> caller \<Rightarrow> inv_preview \<Rightarrow> str \<Rightarrow> assignment \<Rightarrow> str option \<Rightarrow> ('w post_flow, post_result) act" where
  "leave_pending E c pv h a why =
    seq (mark_pending (pv_draft pv) h) (\<lambda>_.
    seq (post_log E (pv_draft pv) ''post_uncertain'' c (attempt_detail (text_json why) h a)) (\<lambda>_.
    ret (post_outcome_result O_UNCERTAIN why)))"

definition after_post ::
  "'w post_env \<Rightarrow> caller \<Rightarrow> inv_preview \<Rightarrow> resolved_policy \<Rightarrow> str \<Rightarrow> assignment \<Rightarrow> posting_result
     \<Rightarrow> ('w post_flow, post_result) act" where
  "after_post E c pv p h a res =
    (case po_outcome res of
       O_REJECTED \<Rightarrow>
         seq (clean_up E h) (\<lambda>_.
         seq (post_log E (pv_draft pv) ''post_rejected'' c (attempt_detail (text_json (po_reason res)) h a)) (\<lambda>_.
         ret (post_outcome_result O_REJECTED (po_reason res))))
     | O_UNCERTAIN \<Rightarrow> leave_pending E c pv h a (po_reason res)
     | O_POSTED \<Rightarrow>
         seq (freeze E c pv (po_reference res) p) (\<lambda>official.
         seq (post_log E official ''post'' c
               [(''draft_id'', JStr (pv_draft pv)), (''configuration_version'', JInt (pv_version pv)),
                (''assignment_ref'', JStr (as_ref a))]) (\<lambda>_.
         ret (posted_result official))))"

text \<open>The call of \<open>post_invoice\<close>, whose exceptions end in a result or in another exception.\<close>

definition attempt_post ::
  "'w post_env \<Rightarrow> caller \<Rightarrow> inv_preview \<Rightarrow> str \<Rightarrow> assignment \<Rightarrow> ('w post_flow, posting_result + post_result) act" where
  "attempt_post E c pv h a =
    handle (seq (port_call (port_post (xe_port E) h)) (\<lambda>res. ret (Inl res)))
      (\<lambda>e. if e = UncertainOutcome
        then seq (leave_pending E c pv h a (Some ''outcome unknown'')) (\<lambda>r. ret (Inr r))
        else post_blocked E (pv_draft pv) ''post_blocked'' c
               [(''reason'', JStr ''provider rejected post''), (''provider_draft_ref'', JStr h)] e)"

definition post_draft :: "'w post_env \<Rightarrow> draft_flow \<Rightarrow> caller \<Rightarrow> inv_preview \<Rightarrow> ('w post_flow, post_result) act" where
  "post_draft E D c pv =
    seq (post_gate E D ''post'' c pv) (\<lambda>(a, cfg).
    seq (check_unposted E c (pv_draft pv)) (\<lambda>_.
    seq (pure (resolve_identity (xe_env E) (pv_unit pv) (pv_currency pv) (cl_at c))) (\<lambda>p.
    seq (pure (bind_res (get_draft (pv_draft pv) D) (post_command c pv cfg p))) (\<lambda>cmd.
    seq (create_handle E c pv cmd) (\<lambda>h.
    seq (attempt_post E c pv h a) (\<lambda>x.
    case x of Inr r \<Rightarrow> ret r | Inl res \<Rightarrow> after_post E c pv p h a res))))))"

section \<open>Classifying an uncertain post\<close>

definition read_back_post ::
  "'w post_env \<Rightarrow> caller \<Rightarrow> inv_preview \<Rightarrow> str \<Rightarrow> ('w post_flow, posting_result + post_result) act" where
  "read_back_post E c pv h =
    handle (seq (port_call (port_reconcile_post (xe_port E) h)) (\<lambda>res. ret (Inl res)))
      (\<lambda>e. if e = UncertainOutcome
        then seq (post_log E (pv_draft pv) ''reconcile_uncertain'' c
               [(''reason'', JStr ''outcome still unknown''), (''provider_draft_ref'', JStr h)])
             (\<lambda>_. ret (Inr (post_outcome_result O_UNCERTAIN (Some ''outcome unknown''))))
        else post_blocked E (pv_draft pv) ''reconcile_blocked'' c
               [(''reason'', JStr ''provider rejected reconcile''), (''provider_draft_ref'', JStr h)] e)"

definition after_read_back ::
  "'w post_env \<Rightarrow> caller \<Rightarrow> inv_preview \<Rightarrow> str \<Rightarrow> assignment \<Rightarrow> posting_result \<Rightarrow> ('w post_flow, post_result) act" where
  "after_read_back E c pv h a res =
    (if po_outcome res = O_POSTED then
       seq (pure (resolve_identity (xe_env E) (pv_unit pv) (pv_currency pv) (cl_at c))) (\<lambda>p.
       seq (freeze E c pv (po_reference res) p) (\<lambda>official.
       seq (drop_pending (pv_draft pv)) (\<lambda>_.
       seq (post_log E official ''reconcile_post'' c
             [(''draft_id'', JStr (pv_draft pv)), (''provider_draft_ref'', JStr h), (''assignment_ref'', JStr (as_ref a))])
         (\<lambda>_. ret (posted_result official)))))
     else
       seq (guard (po_outcome res \<noteq> O_REJECTED) (seq (drop_pending (pv_draft pv)) (\<lambda>_. clean_up E h))) (\<lambda>_.
       seq (post_log E (pv_draft pv) ''reconcile_failed'' c (attempt_detail (text_json (po_reason res)) h a)) (\<lambda>_.
       ret (post_outcome_result (po_outcome res) (po_reason res)))))"

definition reconcile_draft_post ::
  "'w post_env \<Rightarrow> draft_flow \<Rightarrow> caller \<Rightarrow> inv_preview \<Rightarrow> ('w post_flow, post_result) act" where
  "reconcile_draft_post E D c pv =
    seq (post_gate E D ''reconcile_post'' c pv) (\<lambda>(a, cfg).
    look (\<lambda>s. dget (xf_pending s) (pv_draft pv)) (\<lambda>pending.
    case pending of
      None \<Rightarrow> fail_with WorkflowBlocked
    | Some h \<Rightarrow> seq (read_back_post E c pv h) (\<lambda>x.
        case x of Inr r \<Rightarrow> ret r | Inl res \<Rightarrow> after_read_back E c pv h a res)))"

section \<open>Cancelling and delivering\<close>

definition posted_of :: "str \<Rightarrow> 'w post_flow \<Rightarrow> posted_state res" where
  "posted_of official s = (case dget (xf_posted s) official of None \<Rightarrow> Inl WorkflowBlocked | Some p \<Rightarrow> Inr p)"

definition cancel_posted :: "'w post_env \<Rightarrow> caller \<Rightarrow> str \<Rightarrow> ('w post_flow, unit) act" where
  "cancel_posted E c official =
    seq (look (posted_of official) pure) (\<lambda>p.
    seq (guard (ps_status p \<noteq> PD_CANCELLED) (fail_with WorkflowBlocked)) (\<lambda>_.
    seq (post_authorize E ''cancel_posted'' c (ps_unit p)) (\<lambda>a.
    seq (handle (port_call (port_cancel (xe_port E) official))
          (post_blocked E official ''cancel_blocked'' c [(''reason'', JStr ''provider rejected cancel'')])) (\<lambda>_.
    seq (upd (\<lambda>s. s\<lparr>xf_posted := dput official (p\<lparr>ps_status := PD_CANCELLED\<rparr>) (xf_posted s)\<rparr>)) (\<lambda>_.
    post_log E official ''cancel_posted'' c [(''assignment_ref'', JStr (as_ref a))])))))"

definition deliver_posted :: "'w post_env \<Rightarrow> caller \<Rightarrow> str \<Rightarrow> ('w post_flow, delivery_record) act" where
  "deliver_posted E c official =
    seq (look (posted_of official) pure) (\<lambda>p.
    seq (case authorize_flow c (cl_channel c) ''INVOICE_POST'' (Some (ps_unit p)) None None of
           Inr u \<Rightarrow> ret u
         | Inl e \<Rightarrow> (case e of WorkflowDenied code \<Rightarrow> post_deny E ''enqueue_delivery'' c code e | _ \<Rightarrow> fail_with e)) (\<lambda>_.
    seq (handle (port_call (xe_deliver E official (cl_channel c)))
          (post_blocked E official ''delivery_blocked'' c [(''reason'', JStr ''provider rejected delivery enqueue'')])) (\<lambda>d.
    seq (post_log E official ''enqueue_delivery'' c
          [(''channel_ref'', JStr (cl_channel c)), (''delivery_status'', JStr (dl_status d))])
      (\<lambda>_. ret d))))"

section \<open>Queries\<close>

definition get_posted_invoice :: "str \<Rightarrow> 'w post_flow \<Rightarrow> posted_record res" where
  "get_posted_invoice official s = bind_res (posted_of official s) (\<lambda>p.
     let n = ps_snapshot p; i = sn_identity n in
     Inr \<lparr>pi_official = ps_official p, pi_draft = ps_draft p, pi_unit = ps_unit p, pi_customer = ps_customer p,
       pi_status = ps_status p, pi_total = ps_total p, pi_currency = ps_currency p, pi_template = ps_template p,
       pi_logo = ps_logo p, pi_version = ps_version p, pi_issuer = fi_issuer i, pi_tax = fi_tax i,
       pi_series = fi_series i, pi_ledger = fi_ledger i, pi_account = fi_account i, pi_policy = sn_policy n,
       pi_policy_version = sn_version n, pi_pdf = ps_pdf p\<rparr>)"

definition post_audit_events :: "str \<Rightarrow> 'w post_flow \<Rightarrow> (str, json) dict list" where
  "post_audit_events anchor s = (case dget (xf_audit s) anchor of None \<Rightarrow> [] | Some es \<Rightarrow> es)"

end
