(* ===== verification/DraftClaims.thy ===== *)
theory DraftClaims
  imports DraftFlow
begin

text \<open>
  What the draft workflow guarantees over any sequence of commands. \<open>draft_step\<close> is the
  abstract machine: a command is silent, opens one draft or edits one draft that its caller
  owns; every command of \<open>DraftFlow\<close> refines one such step.
\<close>

section \<open>The abstract machine\<close>

text \<open>The lines of a draft as \<open>_normalize_lines\<close> leaves them.\<close>

definition line_ok :: "invoice_line \<Rightarrow> bool" where
  "line_ok l = (opaque_ref (il_service l) \<and> length (il_description l) \<le> 200
     \<and> positive_text (il_quantity l) \<and> positive_text (il_price l) \<and> iso_currency (il_currency l))"

definition lines_ok :: "invoice_line list \<Rightarrow> bool" where
  "lines_ok ls = (list_all line_ok ls \<and> distinct (map il_service ls)
     \<and> (\<exists>cur. list_all (\<lambda>l. il_currency l = cur) ls))"

definition same_drafts :: "draft_flow \<Rightarrow> draft_flow \<Rightarrow> bool" where
  "same_drafts s s' = (dw_drafts s' = dw_drafts s \<and> dw_keys s' = dw_keys s \<and> dw_seq s' = dw_seq s)"

text \<open>The caller owns the draft and still holds the assignment that the draft is pinned to,
  at its revision.\<close>

definition entitled :: "caller \<Rightarrow> draft_state \<Rightarrow> bool" where
  "entitled c d = (cl_actor c = df_actor d \<and> (\<exists>a. empowered c (df_channel d) ''INVOICE_PREVIEW'' (df_unit d) a
     \<and> as_ref a = df_assignment d \<and> as_revision a = df_revision d))"

inductive draft_step :: "caller \<Rightarrow> draft_flow \<Rightarrow> draft_flow \<Rightarrow> bool" for c where
  silent: "same_drafts s s' \<Longrightarrow> draft_step c s s'"
| opened: "\<lbrakk>empowered c (cl_channel c) ''INVOICE_PREVIEW'' u a; ref_with ''UNIT-'' u; ref_with ''CUST-'' customer;
    keyed_draft (cl_actor c) key s = Inr None;
    same_drafts (register_draft c key (new_draft c u a customer key (ref_num ''DFT'' 6 (dw_seq s))) s) s'\<rbrakk>
    \<Longrightarrow> draft_step c s s'"
| edited: "\<lbrakk>dget (dw_drafts s) i = Some d; entitled c d; df_status d = DS_OPEN; ls = df_lines d \<or> lines_ok ls;
    st = DS_CANCELLED \<Longrightarrow> ls = [];
    same_drafts (s\<lparr>dw_drafts := dput (df_id d) (d\<lparr>df_lines := ls, df_status := st, df_last := t\<rparr>) (dw_drafts s)\<rparr>) s'\<rbrakk>
    \<Longrightarrow> draft_step c s s'"

lemma same_drafts_refl [simp]: "same_drafts s s"
  by (simp add: same_drafts_def)

lemma same_drafts_trans: "same_drafts s t \<Longrightarrow> same_drafts t u \<Longrightarrow> same_drafts s u"
  by (simp add: same_drafts_def)

lemma same_drafts_log [simp]:
  "same_drafts s (s\<lparr>dw_audit := x\<rparr>)" "same_drafts s (s\<lparr>dw_denied := y\<rparr>)"
  "same_drafts t (s\<lparr>dw_audit := x\<rparr>) = same_drafts t s" "same_drafts t (s\<lparr>dw_denied := y\<rparr>) = same_drafts t s"
  by (simp_all add: same_drafts_def)

subsection \<open>Running the parts of a command\<close>

lemma draft_log_run [simp]:
  "draft_log E i a c detail s = (Inr (), s\<lparr>dw_audit := add_entry i
     (flow_entry (dv_libs E) (dv_tz E) a c detail) (dw_audit s)\<rparr>)"
  by (simp add: draft_log_def)

lemma draft_log_seq [simp]:
  "seq (draft_log E i a c detail) f s = f () (s\<lparr>dw_audit := add_entry i
     (flow_entry (dv_libs E) (dv_tz E) a c detail) (dw_audit s)\<rparr>)"
  by (simp add: draft_log_def)

lemma draft_deny_run [simp]:
  "draft_deny E a c code e s = (Inl e, s\<lparr>dw_denied := dw_denied s @ [denial (dv_libs E) (dv_tz E) a c code]\<rparr>)"
  by (simp add: draft_deny_def draft_log_denied_def)

lemma draft_try_run:
  "(draft_try E a c r s = (Inr x, s')) = (r = Inr x \<and> s' = s)"
  "draft_try E a c r s = (Inl e, s') \<Longrightarrow> r = Inl e \<and> same_drafts s s'"
  by (auto simp: draft_try_def split: sum.splits exn.splits if_splits)

lemma current_state_run [simp]: "current_state i s = (get_state i s, s)"
  by (simp add: current_state_def)

lemma get_state_Inr [simp]: "get_state i s = Inr d \<longleftrightarrow> dget (dw_drafts s) i = Some d"
  by (simp add: get_state_def split: option.splits)

lemma command_run:
  "dget (dw_drafts s) i = Some d \<Longrightarrow> seq (current_state i) f s = f d s"
  "seq (draft_try E a c (Inr x)) g s = g x s"
  "seq (guard True m) h s = h () s"
  by (simp_all add: seq_def get_state_def draft_try_def guard_def ret_def)

lemma draft_try_seq:
  assumes "seq (draft_try E a c r) f s = (x, s')"
  obtains (raised) "same_drafts s s'" "\<exists>e. x = Inl e" | (went) y where "r = Inr y" "f y s = (x, s')"
  using assms by (auto elim!: seq_cases dest: draft_try_run(2) simp: draft_try_run(1))

lemma pure_seq:
  assumes "seq (pure r) f s = (x, s')"
  obtains (raised) e where "r = Inl e" "s' = s" "x = Inl e" | (went) y where "r = Inr y" "f y s = (x, s')"
  using assms by (auto elim!: seq_cases)

lemma current_seq:
  assumes "seq (current_state i) f s = (x, s')"
  obtains (raised) e where "s' = s" "x = Inl e" | (went) d where "dget (dw_drafts s) i = Some d" "f d s = (x, s')"
  using assms by (auto elim!: seq_cases)

subsection \<open>What the checks establish\<close>

lemma assert_simps [simp]:
  "assert_owner d a = Inr u \<longleftrightarrow> a = df_actor d" "assert_open d = Inr u \<longleftrightarrow> df_status d = DS_OPEN"
  by (auto simp: assert_owner_def assert_open_def)

lemma authorize_draft_entitled:
  assumes "authorize_draft c d n = Inr u" "caller_ok c" "cl_actor c = df_actor d"
  shows "u = df_unit d" "entitled c d" "n = df_revision d"
proof -
  have a: "authorize_flow c (df_channel d) ''INVOICE_PREVIEW'' (Some (df_unit d)) (Some n)
      (Some \<lparr>pb_unit = df_unit d, pb_assignment = df_assignment d, pb_revision = df_revision d\<rparr>) = Inr u"
    using assms(1) by (auto simp: authorize_draft_def bind_res_Inr mk_preview_def)
  from authorize_flow_sound [OF a assms(2) [unfolded caller_ok_def]] assms(3)
  show "u = df_unit d" "entitled c d" "n = df_revision d"
    by (auto simp: entitled_def up_to_date_def)
qed

lemma reauthorize_entitled:
  assumes "reauthorize_mutation c d = Inr u" "caller_ok c" "cl_actor c = df_actor d"
  shows "entitled c d"
  using assms authorize_draft_entitled(2) by (auto simp: reauthorize_mutation_def bind_res_Inr)

lemma normalize_line_ok:
  assumes "normalize_line cur seen raw = Inr l"
  shows "line_ok l" "il_currency l = cur" "il_service l \<notin> seen"
  using assms by (auto simp: normalize_line_def line_ok_def bind_res_Inr)

lemma normalize_each_ok:
  "normalize_each cur seen raws = Inr ls \<Longrightarrow>
    list_all line_ok ls \<and> distinct (map il_service ls) \<and> list_all (\<lambda>l. il_currency l = cur) ls
    \<and> set (map il_service ls) \<inter> seen = {} \<and> length ls = length raws"
proof (induction raws arbitrary: seen ls)
  case (Cons raw raws)
  then obtain l rest where l: "normalize_line cur seen raw = Inr l"
    and rest: "normalize_each cur (insert (il_service l) seen) raws = Inr rest" and ls: "ls = l # rest"
    by (auto simp: bind_res_Inr)
  from Cons.IH [OF rest] normalize_line_ok [OF l] show ?case by (auto simp: ls)
qed simp

lemma normalize_lines_ok:
  assumes "normalize_lines E raws d at = Inr ls" shows "lines_ok ls" "ls \<noteq> []"
  using assms by (auto simp: normalize_lines_def lines_ok_def bind_res_Inr dest!: normalize_each_ok)

subsection \<open>Every command refines a step\<close>

lemma open_step:
  assumes "caller_ok c" "open_draft E c customer unit key s = (r, s')"
  shows "draft_step c s s'"
  using assms(2) unfolding open_draft_def
proof (cases rule: draft_try_seq)
  case raised
  then show ?thesis by (simp add: silent)
next
  case (went u)
  from authorize_flow_sound [OF went(1) assms(1) [unfolded caller_ok_def]] obtain a where
    a: "empowered c (cl_channel c) ''INVOICE_PREVIEW'' u a"
      "selected_assignment (cl_actor c) u (cl_at c) (cl_assignments c) = Inr a" by blast
  then have u: "ref_with ''UNIT-'' u"
    using assms(1) assignment_okD(1) by (auto simp: empowered_def caller_ok_def list_all_iff)
  show ?thesis
  proof (cases "ref_with ''CUST-'' customer")
    case False
    with went(2) have "s' = s" by (auto simp: guard_def)
    then show ?thesis by (simp add: silent)
  next
    case True
    show ?thesis
    proof (cases "keyed_draft (cl_actor c) key s")
      case (Inl e)
      with went(2) True have "s' = s" by (auto simp: guard_def seq_def look_def pure_def ret_def)
      then show ?thesis by (simp add: silent)
    next
      case (Inr prior)
      show ?thesis
      proof (cases prior)
        case None
        with went(2) True Inr a(2)
        have "s' = snd (seq (upd (register_draft c key (new_draft c u a customer key (ref_num ''DFT'' 6 (dw_seq s)))))
           (\<lambda>_. draft_log E (ref_num ''DFT'' 6 (dw_seq s)) ''open'' c
             [(''unit_ref'', JStr u), (''customer_ref'', JStr customer)]) s)"
          by (auto simp: guard_def seq_def look_def pure_def ret_def open_new_def upd_def new_draft_def)
        then show ?thesis
          by (intro opened [OF a(1) u, of customer key]) (use True Inr None in simp_all)
      next
        case (Some d)
        with went(2) True Inr have "same_drafts s s'"
          by (auto simp: guard_def seq_def look_def pure_def ret_def split: if_splits)
        then show ?thesis by (rule silent)
      qed
    qed
  qed
qed

lemma put_step:
  assumes "dget (dw_drafts s) i = Some d" "entitled c d" "df_status d = DS_OPEN"
    "df_lines d' = df_lines d \<or> lines_ok (df_lines d')" "df_status d' = DS_CANCELLED \<Longrightarrow> df_lines d' = []"
    "d' = d\<lparr>df_lines := df_lines d', df_status := df_status d', df_last := df_last d'\<rparr>"
    "same_drafts (s\<lparr>dw_drafts := dput (df_id d) d' (dw_drafts s)\<rparr>) s'"
  shows "draft_step c s s'"
proof (rule edited [OF assms(1-5)])
  from assms(7) show "same_drafts (s\<lparr>dw_drafts := dput (df_id d) (d\<lparr>df_lines := df_lines d',
      df_status := df_status d', df_last := df_last d'\<rparr>) (dw_drafts s)\<rparr>) s'"
    by (subst assms(6) [symmetric])
qed

lemma set_lines_step:
  assumes "caller_ok c" "set_lines E c i raws s = (r, s')"
  shows "draft_step c s s'"
  using assms(2) unfolding set_lines_def
proof (cases rule: current_seq)
  case raised
  then show ?thesis by (simp add: silent)
next
  case (went d)
  from went(2) show ?thesis
  proof (cases rule: draft_try_seq)
    case raised
    then show ?thesis by (simp add: silent)
  next
    case tried: (went u)
    then have d: "cl_actor c = df_actor d" "df_status d = DS_OPEN" "reauthorize_mutation c d = Inr u"
      by (auto simp: bind_res_Inr)
    from tried(2) show ?thesis
    proof (cases rule: pure_seq)
      case raised
      then show ?thesis by (simp add: silent)
    next
      case norm: (went ls)
      then show ?thesis
        by (intro put_step [OF went(1) reauthorize_entitled [OF d(3) assms(1) d(1)] d(2),
              of "d\<lparr>df_lines := ls, df_last := cl_at c\<rparr>"])
          (use d normalize_lines_ok [OF norm(1)] in \<open>auto simp: put_state_def\<close>)
    qed
  qed
qed

lemma cancel_step:
  assumes "caller_ok c" "cancel_draft E c i s = (r, s')"
  shows "draft_step c s s'"
  using assms(2) unfolding cancel_draft_def
proof (cases rule: current_seq)
  case raised
  then show ?thesis by (simp add: silent)
next
  case (went d)
  from went(2) show ?thesis
  proof (cases rule: draft_try_seq)
    case raised
    then show ?thesis by (simp add: silent)
  next
    case own: (went u)
    show ?thesis
    proof (cases "df_status d")
      case DS_CANCELLED
      with own(2) show ?thesis by (simp add: guard_run silent)
    next
      case DS_OPEN
      with own(2) have "seq (draft_try E ''cancel'' c (reauthorize_mutation c d)) (\<lambda>_.
          seq (put_state (d\<lparr>df_status := DS_CANCELLED, df_lines := [], df_last := cl_at c\<rparr>)) (\<lambda>_.
          draft_log E i ''cancel'' c [])) s = (r, s')" by (simp add: guard_run)
      then show ?thesis
      proof (cases rule: draft_try_seq)
        case raised
        then show ?thesis by (simp add: silent)
      next
        case again: (went v)
        have "entitled c d" using reauthorize_entitled [OF again(1) assms(1)] own(1) by simp
        then show ?thesis
          by (intro put_step [OF went(1) _ DS_OPEN, of c "d\<lparr>df_status := DS_CANCELLED, df_lines := [], df_last := cl_at c\<rparr>"])
            (use again(2) in \<open>auto simp: put_state_def lines_ok_def\<close>)
      qed
    qed
  qed
qed

lemma preview_effect:
  assumes "caller_ok c" "preview_draft E c i n s = (r, s')"
  obtains (silent) "same_drafts s s'" "\<exists>e. r = Inl e"
  | (previewed) d pv where "dget (dw_drafts s) i = Some d" "entitled c d" "df_status d = DS_OPEN" "df_lines d \<noteq> []"
    "compute_preview E d (df_unit d) (cl_at c) = Inr pv" "r = Inr pv" "n = None \<or> n = Some (df_revision d)"
    "same_drafts (s\<lparr>dw_drafts := dput (df_id d) (d\<lparr>df_last := cl_at c\<rparr>) (dw_drafts s)\<rparr>) s'"
  using assms(2) unfolding preview_draft_def
proof (cases rule: current_seq)
  case raised
  then show ?thesis using silent by simp
next
  case (went d)
  from went(2) show ?thesis
  proof (cases rule: draft_try_seq)
    case raised
    then show ?thesis using silent by simp
  next
    case tried: (went u)
    then have d: "cl_actor c = df_actor d" "df_status d = DS_OPEN" "df_lines d \<noteq> []"
      and a: "authorize_draft c d (case n of None \<Rightarrow> df_revision d | Some m \<Rightarrow> m) = Inr u"
      by (auto simp: bind_res_Inr)
    note e = authorize_draft_entitled [OF a assms(1) d(1)]
    from tried(2) show ?thesis
    proof (cases rule: pure_seq)
      case raised
      then show ?thesis using silent by simp
    next
      case (went pv)
      then show ?thesis
        by (intro previewed [OF \<open>dget (dw_drafts s) i = Some d\<close> e(2) d(2,3), of pv])
          (use e in \<open>auto simp: put_state_def ret_def split: option.splits\<close>)
    qed
  qed
qed

lemma preview_step:
  assumes "caller_ok c" "preview_draft E c i n s = (r, s')"
  shows "draft_step c s s'"
  using assms
proof (cases rule: preview_effect)
  case silent
  then show ?thesis by (simp add: draft_step.silent)
next
  case (previewed d pv)
  then show ?thesis by (intro put_step [of s i d c "d\<lparr>df_last := cl_at c\<rparr>"]) auto
qed

lemma check_version_seq:
  assumes "seq (check_version E c pv active) f s = (x, s')"
  obtains (raised) "same_drafts s s'" "\<exists>e. x = Inl e" | (went) "sv_version active = pv_version pv" "f () s = (x, s')"
  using assms by (auto simp: check_version_def guard_run seq_def split: if_splits)

lemma guard_seq:
  assumes "seq (guard b (fail_with e)) f s = (x, s')"
  obtains (raised) "s' = s" "x = Inl e" | (went) b "f () s = (x, s')"
  using assms by (auto simp: guard_def split: if_splits)

lemma forged_iff: "pv_version pv = pv_version q \<Longrightarrow> forged pv q \<longleftrightarrow> pv \<noteq> q"
  by (cases pv; cases q) (auto simp: forged_def)

lemma preview_of_version [simp]: "pv_version (preview_of E d active p) = sv_version active"
  "pv_unit (preview_of E d active p) = df_unit d" "pv_draft (preview_of E d active p) = df_id d"
  by (simp_all add: preview_of_def Let_def)

lemma render_effect:
  assumes "caller_ok c" "render_for_review E c pv s = (r, s')"
  shows "same_drafts s s'"
    "r = Inr v \<Longrightarrow> \<exists>d. dget (dw_drafts s) (pv_draft pv) = Some d \<and> entitled c d \<and> df_status d = DS_OPEN
       \<and> v = review_of pv \<and> recompute_preview_expectation E (pv_draft pv) (cl_at c) s = Inr pv"
proof -
  have "same_drafts s s' \<and> (\<forall>v. r = Inr v \<longrightarrow> (\<exists>d. dget (dw_drafts s) (pv_draft pv) = Some d \<and> entitled c d
      \<and> df_status d = DS_OPEN \<and> v = review_of pv \<and> recompute_preview_expectation E (pv_draft pv) (cl_at c) s = Inr pv))"
    using assms(2) unfolding render_for_review_def
  proof (elim current_seq draft_try_seq pure_seq check_version_seq guard_seq, goal_cases)
    case (7 d u active p)
    then have d: "cl_actor c = df_actor d" "df_status d = DS_OPEN" "authorize_draft c d (df_revision d) = Inr u"
      and a: "active_settings E (pv_unit pv) (cl_at c) = Inr active"
      by (auto simp: bind_res_Inr)
    note e = authorize_draft_entitled [OF d(3) assms(1) d(1)]
    show ?case
    proof (cases "forged pv (preview_of E d active p)")
      case True
      with 7 show ?thesis by auto
    next
      case False
      have "pv_version pv = pv_version (preview_of E d active p)" using 7(4) by simp
      from forged_iff [OF this] False have pv: "pv = preview_of E d active p" by blast
      have u: "pv_unit pv = df_unit d" by (simp only: pv preview_of_version)
      have "recompute_preview_expectation E (pv_draft pv) (cl_at c) s = Inr (preview_of E d active p)"
        using 7(1,6) a unfolding u by (simp add: recompute_preview_expectation_def bind_res_def get_state_def)
      then have "recompute_preview_expectation E (pv_draft pv) (cl_at c) s = Inr pv" by (simp only: pv [symmetric])
      moreover have "same_drafts s s'" "r = Inr (review_of pv)" using 7(7) False by auto
      ultimately show ?thesis using 7(1) e(2) d(2) by auto
    qed
  qed auto
  then show "same_drafts s s'" "r = Inr v \<Longrightarrow> \<exists>d. dget (dw_drafts s) (pv_draft pv) = Some d \<and> entitled c d
      \<and> df_status d = DS_OPEN \<and> v = review_of pv \<and> recompute_preview_expectation E (pv_draft pv) (cl_at c) s = Inr pv"
    by simp_all
qed

section \<open>Sequences of commands\<close>

datatype draft_event =
    DOpen draft_env caller str "str option" "str option"
  | DLines draft_env caller str "(str, str) dict list"
  | DCancel draft_env caller str
  | DPreview draft_env caller str "int option"
  | DRender draft_env caller inv_preview

fun draft_event_caller :: "draft_event \<Rightarrow> caller" where
  "draft_event_caller (DOpen E c _ _ _) = c"
| "draft_event_caller (DLines E c _ _) = c"
| "draft_event_caller (DCancel E c _) = c"
| "draft_event_caller (DPreview E c _ _) = c"
| "draft_event_caller (DRender E c _) = c"

fun draft_exec :: "draft_event \<Rightarrow> draft_flow \<Rightarrow> draft_flow" where
  "draft_exec (DOpen E c customer unit key) s = snd (open_draft E c customer unit key s)"
| "draft_exec (DLines E c i raws) s = snd (set_lines E c i raws s)"
| "draft_exec (DCancel E c i) s = snd (cancel_draft E c i s)"
| "draft_exec (DPreview E c i n) s = snd (preview_draft E c i n s)"
| "draft_exec (DRender E c pv) s = snd (render_for_review E c pv s)"

definition draft_run :: "draft_event list \<Rightarrow> draft_flow \<Rightarrow> draft_flow" where
  "draft_run es s = foldl (\<lambda>t e. draft_exec e t) s es"

definition draft_events_ok :: "draft_event list \<Rightarrow> bool" where
  "draft_events_ok es = list_all (\<lambda>e. caller_ok (draft_event_caller e)) es"

lemma draft_exec_step:
  assumes "caller_ok (draft_event_caller e)"
  shows "draft_step (draft_event_caller e) s (draft_exec e s)"
proof (cases e)
  case (DOpen E c customer unit key)
  with assms show ?thesis by (auto intro: open_step [OF _ surjective_pairing])
next
  case (DLines E c i raws)
  with assms show ?thesis by (auto intro: set_lines_step [OF _ surjective_pairing])
next
  case (DCancel E c i)
  with assms show ?thesis by (auto intro: cancel_step [OF _ surjective_pairing])
next
  case (DPreview E c i n)
  with assms show ?thesis by (auto intro: preview_step [OF _ surjective_pairing])
next
  case (DRender E c pv)
  with assms show ?thesis by (auto intro: silent render_effect(1) [OF _ surjective_pairing])
qed

lemma draft_run_induct [consumes 1, case_names start step]:
  assumes "draft_events_ok es" "P s"
    "\<And>c t t'. draft_step c t t' \<Longrightarrow> P t \<Longrightarrow> P t'"
  shows "P (draft_run es s)"
  using assms(1,2)
proof (induction es arbitrary: s)
  case (Cons e es)
  then have "draft_step (draft_event_caller e) s (draft_exec e s)"
    by (intro draft_exec_step) (simp add: draft_events_ok_def)
  then have "P (draft_exec e s)" using assms(3) Cons.prems(2) by blast
  with Cons show ?case by (simp add: draft_run_def draft_events_ok_def)
qed (simp add: draft_run_def)

subsection \<open>Well-typed states\<close>

definition draft_ok :: "draft_state \<Rightarrow> bool" where
  "draft_ok d = (ref_with ''UNIT-'' (df_unit d) \<and> ref_with ''CUST-'' (df_customer d)
     \<and> lines_ok (df_lines d) \<and> (df_status d = DS_CANCELLED \<longrightarrow> df_lines d = []))"

definition drafts_ok :: "draft_flow \<Rightarrow> bool" where
  "drafts_ok s = ((\<forall>i d. dget (dw_drafts s) i = Some d \<longrightarrow>
       df_id d = i \<and> draft_ok d \<and> (\<exists>n < dw_seq s. i = ref_num ''DFT'' 6 n))
   \<and> (\<forall>a k i. dget (dw_keys s) (a, k) = Some i \<longrightarrow>
       (\<exists>d. dget (dw_drafts s) i = Some d \<and> df_actor d = a \<and> df_key d = Some k)))"

lemma drafts_okD:
  assumes "drafts_ok s"
  shows "dget (dw_drafts s) i = Some d \<Longrightarrow> df_id d = i \<and> draft_ok d \<and> (\<exists>n < dw_seq s. i = ref_num ''DFT'' 6 n)"
    "dget (dw_keys s) (a, k) = Some i \<Longrightarrow> \<exists>d. dget (dw_drafts s) i = Some d \<and> df_actor d = a \<and> df_key d = Some k"
  using assms by (auto simp: drafts_ok_def)

lemma drafts_ok_new: "drafts_ok new_draft_flow"
  by (simp add: drafts_ok_def new_draft_flow_def)

lemma drafts_ok_same: "same_drafts s s' \<Longrightarrow> drafts_ok s' = drafts_ok s"
  by (simp add: same_drafts_def drafts_ok_def)

lemma draft_fresh: "drafts_ok s \<Longrightarrow> dget (dw_drafts s) (ref_num ''DFT'' 6 (dw_seq s)) = None"
proof (rule ccontr)
  assume "drafts_ok s" "dget (dw_drafts s) (ref_num ''DFT'' 6 (dw_seq s)) \<noteq> None"
  then obtain n where "n < dw_seq s" "ref_num ''DFT'' 6 (dw_seq s) = ref_num ''DFT'' 6 n"
    using drafts_okD(1) by blast
  then show False by simp
qed

lemma draft_step_ok:
  assumes "draft_step c s s'" "drafts_ok s" shows "drafts_ok s'"
  using assms(1)
proof cases
  case silent
  with assms(2) show ?thesis by (simp add: drafts_ok_same)
next
  case (opened u a customer key)
  note fresh = draft_fresh [OF assms(2)]
  have "drafts_ok (register_draft c key (new_draft c u a customer key (ref_num ''DFT'' 6 (dw_seq s))) s)"
    unfolding drafts_ok_def
  proof (intro conjI allI impI, goal_cases)
    case (1 i d)
    then show ?case using drafts_okD(1) [OF assms(2), of i d]
      by (auto simp: register_draft_def new_draft_def split: if_splits)
  next
    case (2 i d)
    then show ?case using drafts_okD(1) [OF assms(2), of i d] opened(2,3)
      by (auto simp: register_draft_def new_draft_def draft_ok_def lines_ok_def split: if_splits)
  next
    case (3 i d)
    then show ?case using drafts_okD(1) [OF assms(2), of i d]
      by (auto simp: register_draft_def new_draft_def less_Suc_eq split: if_splits)
  next
    case (4 b k i)
    then show ?case using drafts_okD(2) [OF assms(2), of b k i] fresh
      by (auto simp: register_draft_def new_draft_def split: if_splits option.splits)
  qed
  with opened(5) show ?thesis by (simp add: drafts_ok_same)
next
  case (edited i d ls st t)
  note d = drafts_okD(1) [OF assms(2) edited(1)]
  have "drafts_ok (s\<lparr>dw_drafts := dput (df_id d) (d\<lparr>df_lines := ls, df_status := st, df_last := t\<rparr>) (dw_drafts s)\<rparr>)"
    unfolding drafts_ok_def
  proof (intro conjI allI impI, goal_cases)
    case (4 a k j)
    then show ?case using d edited(1) drafts_okD(2) [OF assms(2), of a k j] by auto
  qed (use d edited(3-5) drafts_okD(1) [OF assms(2)] in \<open>auto simp: draft_ok_def split: if_splits\<close>)
  with edited(6) show ?thesis by (simp add: drafts_ok_same)
qed

lemma drafts_ok_run:
  assumes "draft_events_ok es" "drafts_ok s" shows "drafts_ok (draft_run es s)"
  using assms by (rule draft_run_induct) (rule draft_step_ok)

subsection \<open>What becomes of a draft\<close>

definition draft_evolves :: "draft_state \<Rightarrow> draft_state \<Rightarrow> bool" where
  "draft_evolves d d' = (d' = d\<lparr>df_lines := df_lines d', df_status := df_status d', df_last := df_last d'\<rparr>
     \<and> (df_status d = DS_CANCELLED \<longrightarrow> d' = d))"

lemma draft_evolves_refl [simp]: "draft_evolves d d"
  by (simp add: draft_evolves_def)

lemma draft_evolves_trans: "draft_evolves d e \<Longrightarrow> draft_evolves e f \<Longrightarrow> draft_evolves d f"
  by (cases d; cases e; cases f) (auto simp: draft_evolves_def)

lemma draft_evolves_fixed:
  assumes "draft_evolves d d'"
  shows "df_id d' = df_id d" "df_actor d' = df_actor d" "df_channel d' = df_channel d" "df_unit d' = df_unit d"
    "df_assignment d' = df_assignment d" "df_revision d' = df_revision d" "df_customer d' = df_customer d"
    "df_opened d' = df_opened d" "df_key d' = df_key d"
  using assms by (cases d; cases d'; simp add: draft_evolves_def)+

lemma step_evolves:
  assumes "draft_step c s s'" "drafts_ok s" "dget (dw_drafts s) i = Some d"
  shows "\<exists>d'. dget (dw_drafts s') i = Some d' \<and> draft_evolves d d'
    \<and> (d' \<noteq> d \<longrightarrow> entitled c d \<and> df_status d = DS_OPEN)"
  using assms(1)
proof cases
  case silent
  with assms(3) show ?thesis by (simp add: same_drafts_def)
next
  case (opened u a customer key)
  have "i \<noteq> ref_num ''DFT'' 6 (dw_seq s)" using draft_fresh [OF assms(2)] assms(3) by auto
  then have "dget (dw_drafts s') i = Some d"
    using opened(5) assms(3) by (simp add: same_drafts_def register_draft_def new_draft_def)
  then show ?thesis by simp
next
  case (edited j e ls st t)
  have "df_id e = j" using drafts_okD(1) [OF assms(2) edited(1)] by simp
  with edited(6) have g: "dget (dw_drafts s') i = (if i = j then Some (e\<lparr>df_lines := ls, df_status := st, df_last := t\<rparr>)
      else dget (dw_drafts s) i)" by (simp add: same_drafts_def)
  show ?thesis
  proof (cases "i = j")
    case True
    with edited(1) assms(3) have "e = d" by simp
    with True g edited(2,3) show ?thesis by (simp add: draft_evolves_def)
  next
    case False
    with g assms(3) show ?thesis by simp
  qed
qed

lemma step_keys:
  assumes "draft_step c s s'" "dget (dw_keys s) (a, k) = Some i" "drafts_ok s"
  shows "dget (dw_keys s') (a, k) = Some i"
  using assms(1)
proof cases
  case (opened u as customer key)
  have "key = Some k \<Longrightarrow> cl_actor c \<noteq> a"
    using opened(4) assms(2) drafts_okD(2) [OF assms(3,2)] by (auto simp: keyed_draft_def)
  with opened(5) assms(2) show ?thesis
    by (auto simp: same_drafts_def register_draft_def split: option.splits)
qed (use assms(2) in \<open>simp_all add: same_drafts_def\<close>)

lemma run_keeps:
  assumes "draft_events_ok es" "drafts_ok s"
  shows "dget (dw_drafts s) i = Some d \<Longrightarrow> \<exists>d'. dget (dw_drafts (draft_run es s)) i = Some d' \<and> draft_evolves d d'"
    "dget (dw_keys s) (a, k) = Some j \<Longrightarrow> dget (dw_keys (draft_run es s)) (a, k) = Some j"
proof -
  let ?P = "\<lambda>t. drafts_ok t \<and> (dget (dw_drafts s) i = Some d \<longrightarrow> (\<exists>d'. dget (dw_drafts t) i = Some d' \<and> draft_evolves d d'))
    \<and> (dget (dw_keys s) (a, k) = Some j \<longrightarrow> dget (dw_keys t) (a, k) = Some j)"
  have "?P (draft_run es s)"
  proof (rule draft_run_induct [OF assms(1)])
    fix c t t'
    assume st: "draft_step c t t'" and P: "?P t"
    then have ok: "drafts_ok t" by blast
    from P st step_keys [OF st _ ok] draft_step_ok [OF st ok] step_evolves [OF st ok] draft_evolves_trans
    show "?P t'" by blast
  qed (use assms(2) in auto)
  then show "dget (dw_drafts s) i = Some d \<Longrightarrow> \<exists>d'. dget (dw_drafts (draft_run es s)) i = Some d' \<and> draft_evolves d d'"
    "dget (dw_keys s) (a, k) = Some j \<Longrightarrow> dget (dw_keys (draft_run es s)) (a, k) = Some j" by auto
qed

subsection \<open>What a preview hash binds\<close>

definition hash_collision :: "libs \<Rightarrow> str \<Rightarrow> str \<Rightarrow> bool" where
  "hash_collision L x y = (x \<noteq> y \<and> l_sha256 L x = l_sha256 L y)"

lemma line_texts_inj: "line_texts l = line_texts m \<Longrightarrow> l = m"
  by (cases l; cases m) (simp add: line_texts_def)

lemma sorted_lines_eq: "sort (map line_texts ls) = sort (map line_texts ms) \<Longrightarrow> mset ls = mset ms"
proof -
  assume "sort (map line_texts ls) = sort (map line_texts ms)"
  then have "mset (map line_texts ls) = mset (map line_texts ms)" by (metis mset_sort)
  then have "mset (map (inv line_texts) (map line_texts ls)) = mset (map (inv line_texts) (map line_texts ms))"
    by (metis mset_map)
  moreover have "inv line_texts \<circ> line_texts = id" using line_texts_inj by (auto simp: inj_def fun_eq_iff)
  ultimately show ?thesis by simp
qed

lemma hash_material_decode:
  assumes "hash_material d n desc t = hash_material d' n' desc' t'"
  shows "df_id d = df_id d'" "df_unit d = df_unit d'" "df_customer d = df_customer d'"
    "mset (df_lines d) = mset (df_lines d')" "n = n'" "format_f t = format_f t'"
proof -
  let ?row = "\<lambda>xs. tuple_text (map repr_str xs)"
  let ?ls = "\<lambda>d. sort (map line_texts (df_lines d))" and ?it = "\<lambda>desc. sort (map (\<lambda>(k, v). [k, v]) desc)"
  have form: "hash_material e m ds u = CHR ''('' # repr_str (df_id e) @ '', '' @ repr_str (df_unit e) @ '', ''
      @ repr_str (df_customer e) @ '', '' @ tuple_text (map ?row (?ls e)) @ '', '' @ int_str m @ CHR '','' # '' ''
      @ tuple_text (map ?row (?it ds)) @ '', '' @ repr_str (format_f u) @ '')''" for e :: draft_state and m ds u
    by (simp add: hash_material_def tuple_text_def)
  note a = assms [unfolded form, simplified]
  from reprs.decode [OF a] have 1: "df_id d = df_id d'" and
    "repr_str (df_unit d) @ '', '' @ repr_str (df_customer d) @ '', '' @ tuple_text (map ?row (?ls d)) @ '', '' @ int_str n
      @ CHR '','' # '' '' @ tuple_text (map ?row (?it desc)) @ '', '' @ repr_str (format_f t) @ '')''
    = repr_str (df_unit d') @ '', '' @ repr_str (df_customer d') @ '', '' @ tuple_text (map ?row (?ls d')) @ '', '' @ int_str n'
      @ CHR '','' # '' '' @ tuple_text (map ?row (?it desc')) @ '', '' @ repr_str (format_f t') @ '')''" by simp_all
  from reprs.decode [OF this(2)] have 2: "df_unit d = df_unit d'" and
    "repr_str (df_customer d) @ '', '' @ tuple_text (map ?row (?ls d)) @ '', '' @ int_str n
      @ CHR '','' # '' '' @ tuple_text (map ?row (?it desc)) @ '', '' @ repr_str (format_f t) @ '')''
    = repr_str (df_customer d') @ '', '' @ tuple_text (map ?row (?ls d')) @ '', '' @ int_str n'
      @ CHR '','' # '' '' @ tuple_text (map ?row (?it desc')) @ '', '' @ repr_str (format_f t') @ '')''" by simp_all
  from reprs.decode [OF this(2)] have 3: "df_customer d = df_customer d'" and
    "tuple_text (map ?row (?ls d)) @ '', '' @ int_str n
      @ CHR '','' # '' '' @ tuple_text (map ?row (?it desc)) @ '', '' @ repr_str (format_f t) @ '')''
    = tuple_text (map ?row (?ls d')) @ '', '' @ int_str n'
      @ CHR '','' # '' '' @ tuple_text (map ?row (?it desc')) @ '', '' @ repr_str (format_f t') @ '')''" by simp_all
  from tables.decode [OF this(2)] have 4: "?ls d = ?ls d'" and
    "int_str n @ CHR '','' # '' '' @ tuple_text (map ?row (?it desc)) @ '', '' @ repr_str (format_f t) @ '')''
    = int_str n' @ CHR '','' # '' '' @ tuple_text (map ?row (?it desc')) @ '', '' @ repr_str (format_f t') @ '')''" by simp_all
  from int_str_decode [OF this(2)] have 5: "n = n'" and
    "tuple_text (map ?row (?it desc)) @ '', '' @ repr_str (format_f t) @ '')''
    = tuple_text (map ?row (?it desc')) @ '', '' @ repr_str (format_f t') @ '')''" by simp_all
  from tables.decode [OF this(2)] have "repr_str (format_f t) @ '')'' = repr_str (format_f t') @ '')''" by simp
  from reprs.decode [OF this] 1 2 3 5 sorted_lines_eq [OF 4]
  show "df_id d = df_id d'" "df_unit d = df_unit d'" "df_customer d = df_customer d'"
    "mset (df_lines d) = mset (df_lines d')" "n = n'" "format_f t = format_f t'" by simp_all
qed

text \<open>The text that the hash of a preview digests.\<close>

definition preview_text :: "draft_env \<Rightarrow> draft_state \<Rightarrow> datetime \<Rightarrow> str" where
  "preview_text E d at =
    (case active_settings E (df_unit d) at of Inl _ \<Rightarrow> [] | Inr active \<Rightarrow>
    (case resolve_identity E (df_unit d) (unit_currency (sv_settings active)) at of Inl _ \<Rightarrow> [] | Inr p \<Rightarrow>
      hash_material d (sv_version active) (redacted_descriptor (rp_identity p)) (draft_total (df_lines d))))"

lemma preview_of_text:
  assumes "active_settings E (df_unit d) at = Inr active"
    "resolve_identity E (df_unit d) (unit_currency (sv_settings active)) at = Inr p"
  shows "pv_hash (preview_of E d active p) = l_sha256 (dv_libs E) (preview_text E d at)"
  using assms by (simp add: preview_of_def Let_def preview_hash_def preview_text_def)

lemma compute_preview_text:
  assumes "compute_preview E d (df_unit d) at = Inr pv"
  shows "pv_hash pv = l_sha256 (dv_libs E) (preview_text E d at)"
    "\<exists>m desc t. preview_text E d at = hash_material d m desc t"
  using assms by (auto simp: compute_preview_def bind_res_Inr preview_of_text) (auto simp: preview_text_def)

lemma recompute_text:
  assumes "recompute_preview_expectation E i at s = Inr pv" "dget (dw_drafts s) i = Some d"
  shows "pv_hash pv = l_sha256 (dv_libs E) (preview_text E d at)"
    "\<exists>m desc t. preview_text E d at = hash_material d m desc t"
  using assms by (auto simp: recompute_preview_expectation_def bind_res_Inr preview_of_text) (auto simp: preview_text_def)

lemma same_hash_same_lines:
  assumes "l_sha256 L (preview_text E d at) = l_sha256 L (preview_text E' d' at')"
    "\<exists>m desc t. preview_text E d at = hash_material d m desc t"
    "\<exists>m desc t. preview_text E' d' at' = hash_material d' m desc t"
  shows "mset (df_lines d) = mset (df_lines d') \<or> hash_collision L (preview_text E d at) (preview_text E' d' at')"
proof (cases "preview_text E d at = preview_text E' d' at'")
  case True
  with assms(2,3) hash_material_decode(4) show ?thesis by metis
qed (use assms(1) in \<open>simp add: hash_collision_def\<close>)

subsection \<open>Opening and previewing\<close>

lemma open_Inr:
  assumes "caller_ok c" "drafts_ok s" "open_draft E c customer unit (Some k) s = (Inr h, s')"
  shows "\<exists>d i. dget (dw_keys s') (cl_actor c, k) = Some i \<and> dget (dw_drafts s') i = Some d
    \<and> draft_handle_of d = h \<and> df_customer d = customer"
  using assms(3) unfolding open_draft_def
proof (cases rule: draft_try_seq)
  case (went u)
  from went(2) have k: "seq (look (keyed_draft (cl_actor c) (Some k)) pure) (\<lambda>prior. case prior of
        None \<Rightarrow> open_new E c u customer (Some k)
      | Some d \<Rightarrow> if df_customer d \<noteq> customer \<or> df_unit d \<noteq> u
          then draft_deny E ''open'' c ''IDEMPOTENCY_CONFLICT'' WorkflowBlocked else ret (draft_handle_of d)) s = (Inr h, s')"
    by (rule guard_seq) (simp, assumption)
  show ?thesis
  proof (cases "dget (dw_keys s) (cl_actor c, k)")
    case None
    with k show ?thesis
      by (auto simp: keyed_draft_def seq_def look_def pure_def open_new_def ret_def upd_def draft_log_def
          register_draft_def new_draft_def split: sum.splits)
  next
    case (Some i)
    with drafts_okD(2) [OF assms(2) Some] k show ?thesis
      by (auto simp: keyed_draft_def seq_def look_def pure_def split: if_splits)
  qed
qed auto

lemma open_again:
  assumes "dget (dw_keys s) (cl_actor c, k) = Some i" "dget (dw_drafts s) i = Some d"
    "open_draft E c customer unit (Some k) s = (Inr h, s')"
  shows "h = draft_handle_of d \<and> s' = s \<and> df_customer d = customer"
  using assms(3) unfolding open_draft_def
  by (cases rule: draft_try_seq)
    (use assms(1,2) in \<open>auto simp: guard_def keyed_draft_def seq_def look_def pure_def ret_def split: if_splits\<close>)

lemma preview_of_last [simp]: "preview_of E (d\<lparr>df_last := t\<rparr>) active p = preview_of E d active p"
  by (simp add: preview_of_def preview_hash_def hash_material_def)

lemma assert_last [simp]:
  "assert_owner (d\<lparr>df_last := t\<rparr>) a = assert_owner d a" "assert_open (d\<lparr>df_last := t\<rparr>) = assert_open d"
  "assert_monotonic (d\<lparr>df_last := t\<rparr>) at = assert_monotonic d at"
  by (simp_all add: assert_owner_def assert_open_def assert_monotonic_def)

lemma authorize_draft_last [simp]: "authorize_draft c (d\<lparr>df_last := t\<rparr>) n = authorize_draft c d n"
  by (simp add: authorize_draft_def)

lemma render_fresh:
  assumes "caller_ok c" "preview_draft E c i None s = (Inr pv, s1)"
  shows "fst (render_for_review E c pv s1) = Inr (review_of pv)"
proof -
  obtain d u where d: "dget (dw_drafts s) i = Some d" "cl_actor c = df_actor d" "df_status d = DS_OPEN" "df_lines d \<noteq> []"
    "authorize_draft c d (df_revision d) = Inr u" "compute_preview E d u (cl_at c) = Inr pv"
    and s1: "dget (dw_drafts s1) (df_id d) = Some (d\<lparr>df_last := cl_at c\<rparr>)"
    using assms(2) unfolding preview_draft_def
    by (elim current_seq draft_try_seq pure_seq) (auto simp: bind_res_Inr put_state_def)
  note u = authorize_draft_entitled(1) [OF d(5) assms(1) d(2)]
  from d(6) u obtain active p where a: "assert_monotonic d (cl_at c) = Inr ()" "active_settings E (df_unit d) (cl_at c) = Inr active"
    "resolve_identity E (df_unit d) (unit_currency (sv_settings active)) (cl_at c) = Inr p" "pv = preview_of E d active p"
    by (auto simp: compute_preview_def bind_res_Inr)
  have "\<not> forged pv pv" by (simp add: forged_def)
  then show ?thesis
    using a(1-3) s1 d(2-5) unfolding a(4)
    by (simp add: render_for_review_def command_run check_version_def assert_owner_def assert_open_def)
qed

lemma preview_of_draft:
  assumes "draft_events_ok es" "caller_ok c" "preview_draft E c i n (draft_run es new_draft_flow) = (Inr pv, s1)"
    "dget (dw_drafts (draft_run es new_draft_flow)) i = Some d"
  shows "entitled c d \<and> pv_draft pv = i \<and> compute_preview E d (df_unit d) (cl_at c) = Inr pv"
proof -
  have d: "entitled c d" "compute_preview E d (df_unit d) (cl_at c) = Inr pv"
    using assms(4) by (cases rule: preview_effect [OF assms(2,3)]; auto)+
  with drafts_okD(1) [OF drafts_ok_run [OF assms(1) drafts_ok_new] assms(4)] show ?thesis
    by (auto simp: compute_preview_def bind_res_Inr)
qed

text \<open>A preview that is recomputed unchanged after other commands has the lines it had.\<close>

lemma recomputed_same:
  assumes "draft_events_ok es" "draft_events_ok es'" "caller_ok c"
    "preview_draft E c i n (draft_run es new_draft_flow) = (Inr pv, s1)"
    "dget (dw_drafts (draft_run es new_draft_flow)) i = Some d"
    "recompute_preview_expectation E' i at (draft_run es' s1) = Inr pv" "dv_libs E' = dv_libs E"
  shows "\<exists>d'. dget (dw_drafts (draft_run es' s1)) i = Some d' \<and> draft_evolves d d'
    \<and> (mset (df_lines d) = mset (df_lines d')
       \<or> hash_collision (dv_libs E) (preview_text E d (cl_at c)) (preview_text E' d' at))"
proof -
  note ok = drafts_ok_run [OF assms(1) drafts_ok_new]
  have d: "compute_preview E d (df_unit d) (cl_at c) = Inr pv" using preview_of_draft [OF assms(1,3,4,5)] by blast
  note step = preview_step [OF assms(3,4)]
  from step_evolves [OF step ok assms(5)] obtain d1 where d1: "dget (dw_drafts s1) i = Some d1" "draft_evolves d d1" by blast
  from run_keeps(1) [OF assms(2) draft_step_ok [OF step ok] d1(1)] draft_evolves_trans [OF d1(2)]
  obtain d' where d': "dget (dw_drafts (draft_run es' s1)) i = Some d'" "draft_evolves d d'" by blast
  have "l_sha256 (dv_libs E) (preview_text E d (cl_at c)) = l_sha256 (dv_libs E) (preview_text E' d' at)"
    using compute_preview_text(1) [OF d] recompute_text(1) [OF assms(6) d'(1)] assms(7) by simp
  from same_hash_same_lines [OF this compute_preview_text(2) [OF d] recompute_text(2) [OF assms(6) d'(1)]] d'
  show ?thesis by blast
qed

section \<open>Claims\<close>

text \<open>C10. Every draft that the workflow hands out is well typed: its references are canonical
  and of their kind, its lines are what line checking admits (positive decimal quantities and
  prices, one currency, no service twice, bounded descriptions), and a cancelled draft is
  empty.\<close>

theorem draft_types:
  assumes "draft_events_ok es" "get_draft i (draft_run es new_draft_flow) = Inr n"
  shows "dn_draft n = i \<and> ref_with ''UNIT-'' (dn_unit n) \<and> ref_with ''CUST-'' (dn_customer n)
    \<and> lines_ok (dn_lines n) \<and> (dn_status n = DS_CANCELLED \<longrightarrow> dn_lines n = [])"
proof -
  obtain d where d: "dget (dw_drafts (draft_run es new_draft_flow)) i = Some d"
    and n: "n = \<lparr>dn_draft = df_id d, dn_unit = df_unit d, dn_customer = df_customer d, dn_status = df_status d,
      dn_lines = df_lines d\<rparr>"
    using assms(2) by (auto simp: get_draft_def bind_res_Inr)
  from drafts_okD(1) [OF drafts_ok_run [OF assms(1) drafts_ok_new] d] n show ?thesis
    by (auto simp: draft_ok_def)
qed

text \<open>C9. Whatever command is run, every draft is still there afterwards with the same owner,
  channel, unit, pinned assignment, customer and opening time; a cancelled draft never changes
  again; and a draft that changed was open and its caller is its owner, who holds in force the
  very assignment revision that the draft is pinned to and through it the preview action.\<close>

theorem draft_confined:
  assumes "draft_events_ok es" "caller_ok (draft_event_caller e)"
    "dget (dw_drafts (draft_run es new_draft_flow)) i = Some d"
  shows "\<exists>d'. dget (dw_drafts (draft_exec e (draft_run es new_draft_flow))) i = Some d' \<and> draft_evolves d d'
    \<and> (d' \<noteq> d \<longrightarrow> entitled (draft_event_caller e) d \<and> df_status d = DS_OPEN)"
  using step_evolves [OF draft_exec_step [OF assms(2)] drafts_ok_run [OF assms(1) drafts_ok_new] assms(3)] .

text \<open>Opening under a key is idempotent: once an actor has opened a draft under a key,
  a later opening by the same actor under that key, after any commands in between, that
  succeeds returns the same draft and changes nothing, and it names the same customer.\<close>

theorem open_idempotent:
  assumes "draft_events_ok es" "draft_events_ok es'" "caller_ok c" "cl_actor c' = cl_actor c"
    "open_draft E c customer unit (Some k) (draft_run es new_draft_flow) = (Inr h, s1)"
    "open_draft E' c' customer' unit' (Some k) (draft_run es' s1) = (Inr h', s3)"
  shows "h' = h \<and> s3 = draft_run es' s1 \<and> customer' = customer"
proof -
  note ok = drafts_ok_run [OF assms(1) drafts_ok_new]
  have ok1: "drafts_ok s1" using draft_step_ok [OF open_step [OF assms(3,5)] ok] .
  from open_Inr [OF assms(3) ok assms(5)] obtain i d where k: "dget (dw_keys s1) (cl_actor c, k) = Some i"
    and d: "dget (dw_drafts s1) i = Some d" "draft_handle_of d = h" "df_customer d = customer" by blast
  from run_keeps(1) [OF assms(2) ok1 d(1)] obtain d' where d': "dget (dw_drafts (draft_run es' s1)) i = Some d'"
    "draft_evolves d d'" by blast
  have "dget (dw_keys (draft_run es' s1)) (cl_actor c', k) = Some i"
    using run_keeps(2) [OF assms(2) ok1 k] assms(4) by simp
  from open_again [OF this d'(1) assms(6)] draft_evolves_fixed [OF d'(2)] d(2,3)
  show ?thesis by (auto simp: draft_handle_of_def)
qed

text \<open>C8. What a reviewer is shown is what was previewed: if a preview is issued and, after
  any commands, rendering it succeeds, then the rendering is by the owner of the draft, who is
  still entitled to it, it shows the fields of the preview, which are those that the current
  state gives, and the draft has the lines it had when the preview was issued, unless two
  hashed texts, which are named, collide under SHA-256.\<close>

theorem review_binds:
  assumes "draft_events_ok es" "draft_events_ok es'" "caller_ok c" "caller_ok c'"
    "preview_draft E c i n (draft_run es new_draft_flow) = (Inr pv, s1)"
    "render_for_review E' c' pv (draft_run es' s1) = (Inr v, s3)" "dv_libs E' = dv_libs E"
    "dget (dw_drafts (draft_run es new_draft_flow)) i = Some d"
  shows "\<exists>d'. dget (dw_drafts (draft_run es' s1)) i = Some d' \<and> entitled c' d' \<and> cl_actor c' = cl_actor c
    \<and> v = review_of pv \<and> recompute_preview_expectation E' i (cl_at c') (draft_run es' s1) = Inr pv
    \<and> (mset (df_lines d) = mset (df_lines d')
       \<or> hash_collision (dv_libs E) (preview_text E d (cl_at c)) (preview_text E' d' (cl_at c')))"
proof -
  have "pv_draft pv = i" using preview_of_draft [OF assms(1,3,5,8)] by simp
  with render_effect(2) [OF assms(4,6) refl] obtain d' where d': "dget (dw_drafts (draft_run es' s1)) i = Some d'"
    "entitled c' d'" "v = review_of pv" and r: "recompute_preview_expectation E' i (cl_at c') (draft_run es' s1) = Inr pv"
    by auto
  from recomputed_same [OF assms(1,2,3,5,8) r assms(7)] d'(1)
  have same: "draft_evolves d d'" "mset (df_lines d) = mset (df_lines d')
      \<or> hash_collision (dv_libs E) (preview_text E d (cl_at c)) (preview_text E' d' (cl_at c'))" by auto
  then have "cl_actor c' = cl_actor c"
    using preview_of_draft [OF assms(1,3,5,8)] d'(2) draft_evolves_fixed(2) by (simp add: entitled_def)
  with d' r same(2) show ?thesis by blast
qed

text \<open>A preview that has just been issued renders: with the same caller and no command in
  between, rendering for review succeeds and shows its fields.\<close>

theorem preview_renders:
  assumes "draft_events_ok es" "caller_ok c" "preview_draft E c i None (draft_run es new_draft_flow) = (Inr pv, s1)"
  shows "fst (render_for_review E c pv s1) = Inr (review_of pv)"
  using assms(2,3) by (rule render_fresh)

section \<open>A run to evaluate\<close>

text \<open>The first microseconds of the year 1, so that dates stay small.\<close>

definition demo_time :: "int \<Rightarrow> datetime" where
  "demo_time n = Aware (n - 62135596800000000) 0"

definition demo_draft_env :: draft_env where
  "demo_draft_env = \<lparr>dv_libs = demo_libs, dv_tz = id, dv_registry = [(''AA'', demo_unit ''AA'' ''acct_aa'' [])],
     dv_settings = run_cmds demo_libs
       [CDraft ''AA'' [(''default_currency'', SStr ''EUR''), (''invoice_template_ref'', SStr ''tpl_a'')] ''ann'' (demo_time 0),
        CActivate ''AA'' 1 0 (demo_time 1) ''bob'' (demo_time 1)] demo_settings,
     dv_resolver = \<lparr>rs_policies = [demo_policy\<lparr>fp_unit := ''UNIT-AA'', fp_from := demo_time 0, fp_until := None\<rparr>],
       rs_catalog = demo_catalog\<lparr>ca_identities := [demo_fin_identity\<lparr>fi_unit := ''UNIT-AA''\<rparr>]\<rparr>, rs_issuers = None\<rparr>\<rparr>"

definition demo_opener :: caller where
  "demo_opener = \<lparr>cl_actor = ''ACTOR-1'', cl_at = demo_time 99, cl_binding = reader_binding,
     cl_assignments = [reader ''UNIT-AA'' ''FINANCE-REQUESTER''], cl_channel = ''CHANNEL-1''\<rparr>"

definition demo_opening :: draft_event where
  "demo_opening = DOpen demo_draft_env demo_opener ''CUST-1'' None (Some ''k'')"

definition demo_lining :: draft_event where
  "demo_lining = DLines demo_draft_env demo_opener ''DFT-000001''
     [[(''service_ref'', ''SVC-1''), (''quantity'', ''2''), (''unit_price_amount'', ''3''), (''currency'', ''EUR'')]]"

definition demo_own_draft :: draft_state where
  "demo_own_draft = \<lparr>df_id = ''DFT-000001'', df_actor = ''ACTOR-1'', df_channel = ''CHANNEL-1'', df_unit = ''UNIT-AA'',
     df_assignment = ''ASSIGNMENT-1'', df_revision = 1, df_customer = ''CUST-1'',
     df_lines = [\<lparr>il_service = ''SVC-1'', il_description = [], il_quantity = ''2'', il_price = ''3'', il_currency = ''EUR''\<rparr>],
     df_status = DS_OPEN, df_opened = demo_time 99, df_last = demo_time 99, df_key = Some ''k''\<rparr>"

definition demo_drafted :: draft_flow where
  "demo_drafted = draft_run [demo_opening, demo_lining] new_draft_flow"

lemma demo_opener_ok: "caller_ok demo_opener"
  unfolding caller_ok_def by code_simp

lemma demo_events_ok: "draft_events_ok [demo_opening]" "draft_events_ok [demo_opening, demo_lining]" "draft_events_ok []"
  by (simp_all add: draft_events_ok_def demo_opening_def demo_lining_def demo_opener_ok)

lemma demo_drafted_eq: "dget (dw_drafts demo_drafted) ''DFT-000001'' = Some demo_own_draft"
  by code_simp

definition demo_active :: settings_version where
  "demo_active = (case active_settings demo_draft_env ''UNIT-AA'' (demo_time 99) of Inr v \<Rightarrow> v)"

definition demo_resolved :: resolved_policy where
  "demo_resolved = (case resolve_identity demo_draft_env ''UNIT-AA'' ''EUR'' (demo_time 99) of Inr p \<Rightarrow> p)"

definition demo_preview :: inv_preview where
  "demo_preview = preview_of demo_draft_env demo_own_draft demo_active demo_resolved"

lemma demo_draft_active: "active_settings demo_draft_env ''UNIT-AA'' (demo_time 99) = Inr demo_active"
  "sv_version demo_active = 1"
  "sv_settings demo_active = [(''default_currency'', SStr ''EUR''), (''invoice_template_ref'', SStr ''tpl_a'')]"
proof -
  have "map_sum id (\<lambda>v. (sv_version v, sv_settings v)) (active_settings demo_draft_env ''UNIT-AA'' (demo_time 99))
    = Inr (1, [(''default_currency'', SStr ''EUR''), (''invoice_template_ref'', SStr ''tpl_a'')])" by code_simp
  then show "active_settings demo_draft_env ''UNIT-AA'' (demo_time 99) = Inr demo_active" "sv_version demo_active = 1"
    "sv_settings demo_active = [(''default_currency'', SStr ''EUR''), (''invoice_template_ref'', SStr ''tpl_a'')]"
    by (cases "active_settings demo_draft_env ''UNIT-AA'' (demo_time 99)"; simp add: demo_active_def)+
qed

lemma demo_draft_policy: "resolve_identity demo_draft_env ''UNIT-AA'' ''EUR'' (demo_time 99) = Inr demo_resolved"
proof -
  have "\<not> isl (resolve_identity demo_draft_env ''UNIT-AA'' ''EUR'' (demo_time 99))" by code_simp
  then show ?thesis
    by (cases "resolve_identity demo_draft_env ''UNIT-AA'' ''EUR'' (demo_time 99)") (simp_all add: demo_resolved_def)
qed

lemma demo_draft_auth: "authorize_draft demo_opener demo_own_draft 1 = Inr ''UNIT-AA''"
  by code_simp

lemma demo_compute: "compute_preview demo_draft_env demo_own_draft ''UNIT-AA'' (demo_time 99) = Inr demo_preview"
  using demo_draft_active demo_draft_policy
  by (simp add: compute_preview_def unit_currency_def text_setting_def assert_monotonic_def bind_res_def
      dt_less_aware demo_preview_def) (simp add: demo_own_draft_def demo_time_def)

lemma demo_previewed: "\<exists>s1. preview_draft demo_draft_env demo_opener ''DFT-000001'' None demo_drafted = (Inr demo_preview, s1)
    \<and> dget (dw_drafts s1) ''DFT-000001'' = Some demo_own_draft"
proof -
  have d: "df_actor demo_own_draft = cl_actor demo_opener" "df_status demo_own_draft = DS_OPEN" "df_lines demo_own_draft \<noteq> []"
    "df_revision demo_own_draft = 1" "cl_at demo_opener = demo_time 99" "df_id demo_own_draft = ''DFT-000001''"
    "demo_own_draft\<lparr>df_last := demo_time 99\<rparr> = demo_own_draft"
    by (simp_all add: demo_own_draft_def demo_opener_def)
  with demo_draft_auth demo_drafted_eq demo_compute show ?thesis
    by (simp add: preview_draft_def command_run assert_owner_def assert_open_def put_state_def)
qed

theorem draft_types_witness: "\<exists>n. get_draft ''DFT-000001'' demo_drafted = Inr n \<and> lines_ok (dn_lines n) \<and> dn_lines n \<noteq> []"
proof -
  obtain n where n: "get_draft ''DFT-000001'' demo_drafted = Inr n" "dn_lines n = df_lines demo_own_draft"
    using demo_drafted_eq by (simp add: get_draft_def get_state_def)
  from draft_types [OF demo_events_ok(2) n(1) [unfolded demo_drafted_def]] n show ?thesis
    by (auto simp: demo_own_draft_def)
qed

theorem draft_confined_witness:
  "\<exists>d'. dget (dw_drafts (draft_exec (DCancel demo_draft_env demo_opener ''DFT-000001'') demo_drafted)) ''DFT-000001'' = Some d'
    \<and> d' \<noteq> demo_own_draft \<and> entitled demo_opener demo_own_draft"
proof -
  have "map_option df_status (dget (dw_drafts (draft_exec (DCancel demo_draft_env demo_opener ''DFT-000001'') demo_drafted))
      ''DFT-000001'') = Some DS_CANCELLED" by code_simp
  moreover note draft_confined [OF demo_events_ok(2), of "DCancel demo_draft_env demo_opener ''DFT-000001''",
      folded demo_drafted_def, OF _ demo_drafted_eq]
  ultimately show ?thesis using demo_opener_ok by (fastforce simp: demo_own_draft_def)
qed

theorem open_idempotent_witness:
  "\<exists>h s1 h'. open_draft demo_draft_env demo_opener ''CUST-1'' None (Some ''k'') new_draft_flow = (Inr h, s1)
    \<and> open_draft demo_draft_env demo_opener ''CUST-1'' (Some ''UNIT-AA'') (Some ''k'') (draft_run [demo_lining] s1)
      = (Inr h', draft_run [demo_lining] s1) \<and> h' = h"
proof -
  obtain r s1 where o: "open_draft demo_draft_env demo_opener ''CUST-1'' None (Some ''k'') new_draft_flow = (r, s1)" by fastforce
  then have s: "draft_run [demo_lining] s1 = demo_drafted" by (simp add: demo_drafted_def draft_run_def demo_opening_def)
  have "\<not> isl (fst (open_draft demo_draft_env demo_opener ''CUST-1'' None (Some ''k'') new_draft_flow))" by code_simp
  with o obtain h where h: "r = Inr h" by (cases r) auto
  obtain r' s3 where o': "open_draft demo_draft_env demo_opener ''CUST-1'' (Some ''UNIT-AA'') (Some ''k'') demo_drafted = (r', s3)" by fastforce
  have "\<not> isl (fst (open_draft demo_draft_env demo_opener ''CUST-1'' (Some ''UNIT-AA'') (Some ''k'') demo_drafted))" by code_simp
  with o' obtain h' where h': "r' = Inr h'" by (cases r') auto
  have "draft_events_ok [demo_lining]" by (simp add: draft_events_ok_def demo_lining_def demo_opener_ok)
  from open_idempotent [OF demo_events_ok(3) this demo_opener_ok refl, of demo_draft_env "''CUST-1''" None "''k''" h s1
      demo_draft_env "''CUST-1''" "Some ''UNIT-AA''" h' s3] o o' h h' s
  show ?thesis by (simp add: draft_run_def)
qed

theorem review_binds_witness:
  "\<exists>pv s1. preview_draft demo_draft_env demo_opener ''DFT-000001'' None demo_drafted = (Inr pv, s1)
    \<and> recompute_preview_expectation demo_draft_env ''DFT-000001'' (demo_time 99) s1 = Inr pv"
proof -
  obtain pv s1 where p: "preview_draft demo_draft_env demo_opener ''DFT-000001'' None demo_drafted = (Inr pv, s1)"
    using demo_previewed by blast
  have run: "draft_run [] s1 = s1" by (simp add: draft_run_def)
  obtain s3 where r: "render_for_review demo_draft_env demo_opener pv (draft_run [] s1) = (Inr (review_of pv), s3)"
    using render_fresh [OF demo_opener_ok p] run by (metis prod.collapse)
  from review_binds [OF demo_events_ok(2,3) demo_opener_ok demo_opener_ok, folded demo_drafted_def,
      OF p r refl demo_drafted_eq] p run
  show ?thesis by (auto simp: demo_opener_def)
qed

theorem preview_renders_witness:
  "\<exists>pv s1. preview_draft demo_draft_env demo_opener ''DFT-000001'' None demo_drafted = (Inr pv, s1)
    \<and> fst (render_for_review demo_draft_env demo_opener pv s1) = Inr (review_of pv)"
  using demo_previewed preview_renders [OF demo_events_ok(2) demo_opener_ok, folded demo_drafted_def] by blast

end
