(* ===== verification/PostBooks.thy ===== *)
theory PostBooks
  imports PostFlow DraftClaims FixtureClaims
begin

text \<open>
  What every command of the posting workflow does to its books. \<open>books_step\<close> is the
  abstract machine over the workflow's books (posted records, the index by draft, the pending posts) and the provider's
  world; every command refines one of its steps, for every port that keeps its references
  (\<open>posting_port\<close>), as the fixture provider does.
\<close>

section \<open>The books and the interface of the provider\<close>

definition books :: "'w post_flow \<Rightarrow> (str, posted_state) dict \<times> (str, str) dict \<times> (str, str) dict" where
  "books s = (xf_posted s, xf_by_draft s, xf_pending s)"

text \<open>References are kept: \<open>known w\<close> are the document handles, \<open>official w h\<close> the official
  reference that the document \<open>h\<close> was given, if any.\<close>

definition ids_kept :: "('w \<Rightarrow> str \<Rightarrow> str option) \<Rightarrow> ('w \<Rightarrow> str set) \<Rightarrow> 'w \<Rightarrow> 'w \<Rightarrow> bool" where
  "ids_kept official known w w' = (known w \<subseteq> known w' \<and> (\<forall>h r. official w h = Some r \<longrightarrow> official w' h = Some r))"

locale posting_port = readback_port P world_ok posted paid
  for P :: "'w erp_port" and world_ok :: "'w \<Rightarrow> bool"
    and posted :: "'w \<Rightarrow> str \<Rightarrow> str option" and paid :: "'w \<Rightarrow> str \<Rightarrow> str option" +
  fixes deliver :: "str \<Rightarrow> str \<Rightarrow> 'w \<Rightarrow> delivery_record res \<times> 'w" and official :: "'w \<Rightarrow> str \<Rightarrow> str option" and known :: "'w \<Rightarrow> str set"
  assumes create_kept: "world_ok w \<Longrightarrow> port_create P cmd w = (r, w') \<Longrightarrow> world_ok w' \<and> ids_kept official known w w'"
    and create_fresh: "world_ok w \<Longrightarrow> port_create P cmd w = (Inr h, w') \<Longrightarrow> h \<notin> known w \<and> h \<in> known w'"
    and post_kept: "world_ok w \<Longrightarrow> port_post P h w = (rp, w') \<Longrightarrow> world_ok w' \<and> ids_kept official known w w'"
    and posted_answer: "world_ok w \<Longrightarrow> h \<in> known w \<Longrightarrow> port_post P h w = (Inr res, w') \<Longrightarrow> po_outcome res = O_POSTED \<Longrightarrow>
      po_reference res \<noteq> None \<and> official w' h = po_reference res"
    and read_back_kept: "world_ok w \<Longrightarrow> port_reconcile_post P h w = (rp, w') \<Longrightarrow> world_ok w' \<and> ids_kept official known w w'"
    and read_back_answer: "world_ok w \<Longrightarrow> h \<in> known w \<Longrightarrow> port_reconcile_post P h w = (Inr res, w') \<Longrightarrow> po_outcome res = O_POSTED \<Longrightarrow>
      po_reference res \<noteq> None \<and> official w' h = po_reference res"
    and cancel_kept: "world_ok w \<Longrightarrow> port_cancel P h w = (rc, w') \<Longrightarrow> world_ok w' \<and> ids_kept official known w w'"
    and deliver_kept: "world_ok w \<Longrightarrow> deliver o' ch w = (rd, w') \<Longrightarrow> world_ok w' \<and> ids_kept official known w w'"
    and official_known: "world_ok w \<Longrightarrow> official w h = Some r' \<Longrightarrow> h \<in> known w"
    and official_inj: "world_ok w \<Longrightarrow> official w h = Some r' \<Longrightarrow> official w k = Some r' \<Longrightarrow> h = k"

text \<open>One step of the books: nothing but the provider changed, a post was left pending under
  a new document, a document was recorded (a new one, or the pending one of the draft), a
  pending post was released, or a recorded invoice was cancelled.\<close>

inductive books_step ::
  "('w \<Rightarrow> str \<Rightarrow> str option) \<Rightarrow> ('w \<Rightarrow> str set) \<Rightarrow> 'w post_flow \<Rightarrow> 'w post_flow \<Rightarrow> bool" for official known where
  keep: "books s' = books s \<Longrightarrow> books_step official known s s'"
| pend: "\<lbrakk>dget (xf_by_draft s) i = None; dget (xf_pending s) i = None;
    h \<notin> known (xf_world s); h \<in> known (xf_world s');
    books s' = (xf_posted s, xf_by_draft s, dput i h (xf_pending s))\<rbrakk> \<Longrightarrow> books_step official known s s'"
| enter: "\<lbrakk>dget (xf_by_draft s) i = None;
    (h \<notin> known (xf_world s) \<and> dget (xf_pending s) i = None) \<or> dget (xf_pending s) i = Some h;
    official (xf_world s') h = Some r; ps_official p = r; ps_draft p = i; ps_status p = PD_POSTED;
    books s' = (dput r p (xf_posted s), dput i r (xf_by_draft s), pending');
    \<And>j. dget pending' j = (if j = i then None else dget (xf_pending s) j)\<rbrakk> \<Longrightarrow> books_step official known s s'"
| release: "books s' = (xf_posted s, xf_by_draft s, ddel i (xf_pending s)) \<Longrightarrow> books_step official known s s'"
| withdraw: "\<lbrakk>dget (xf_posted s) r = Some p;
    books s' = (dput r (p\<lparr>ps_status := PD_CANCELLED\<rparr>) (xf_posted s), xf_by_draft s, xf_pending s)\<rbrakk>
    \<Longrightarrow> books_step official known s s'"

subsection \<open>The invariant of the books\<close>

definition recorded_ok ::
  "('w \<Rightarrow> str \<Rightarrow> str option) \<Rightarrow> 'w post_flow \<Rightarrow> str \<Rightarrow> posted_state \<Rightarrow> bool" where
  "recorded_ok official s r p = (ps_official p = r \<and> dget (xf_by_draft s) (ps_draft p) = Some r
     \<and> (\<exists>h. official (xf_world s) h = Some r \<and> (\<forall>i. dget (xf_pending s) i \<noteq> Some h)))"

definition books_ok :: "('w \<Rightarrow> str \<Rightarrow> str option) \<Rightarrow> ('w \<Rightarrow> str set) \<Rightarrow> 'w post_flow \<Rightarrow> bool" where
  "books_ok official known s =
    ((\<forall>i h. dget (xf_pending s) i = Some h \<longrightarrow> h \<in> known (xf_world s) \<and> dget (xf_by_draft s) i = None)
     \<and> (\<forall>i j h. dget (xf_pending s) i = Some h \<and> dget (xf_pending s) j = Some h \<longrightarrow> i = j)
     \<and> (\<forall>r p. dget (xf_posted s) r = Some p \<longrightarrow> recorded_ok official s r p)
     \<and> (\<forall>i r. dget (xf_by_draft s) i = Some r \<longrightarrow> (\<exists>p. dget (xf_posted s) r = Some p \<and> ps_draft p = i)))"

lemma books_okD:
  assumes "books_ok official known s"
  shows "dget (xf_pending s) i = Some h \<Longrightarrow> h \<in> known (xf_world s) \<and> dget (xf_by_draft s) i = None"
    "dget (xf_pending s) i = Some h \<Longrightarrow> dget (xf_pending s) j = Some h \<Longrightarrow> i = j"
    "dget (xf_posted s) r = Some p \<Longrightarrow> recorded_ok official s r p"
    "dget (xf_by_draft s) i = Some r \<Longrightarrow> \<exists>p. dget (xf_posted s) r = Some p \<and> ps_draft p = i"
  using assms unfolding books_ok_def by blast+

lemma books_okI:
  assumes "\<And>i h. dget (xf_pending s) i = Some h \<Longrightarrow> h \<in> known (xf_world s) \<and> dget (xf_by_draft s) i = None"
    "\<And>i j h. dget (xf_pending s) i = Some h \<Longrightarrow> dget (xf_pending s) j = Some h \<Longrightarrow> i = j"
    "\<And>r p. dget (xf_posted s) r = Some p \<Longrightarrow> recorded_ok official s r p"
    "\<And>i r. dget (xf_by_draft s) i = Some r \<Longrightarrow> \<exists>p. dget (xf_posted s) r = Some p \<and> ps_draft p = i"
  shows "books_ok official known s"
  using assms unfolding books_ok_def by blast

lemma books_ok_new: "books_ok official known (new_post_flow w)"
  by (simp add: books_ok_def new_post_flow_def)

lemma recorded_kept:
  assumes "recorded_ok official s r p" "ids_kept official known (xf_world s) (xf_world s')"
    "dget (xf_by_draft s') (ps_draft p) = Some r" "\<And>i h. dget (xf_pending s') i = Some h \<Longrightarrow>
      (\<exists>j. dget (xf_pending s) j = Some h) \<or> official (xf_world s) h = None"
  shows "recorded_ok official s' r p"
proof -
  obtain k where k: "official (xf_world s) k = Some r" "\<And>i. dget (xf_pending s) i \<noteq> Some k"
    using assms(1) unfolding recorded_ok_def by blast
  have "official (xf_world s') k = Some r" using assms(2) k(1) unfolding ids_kept_def by blast
  moreover have "dget (xf_pending s') i \<noteq> Some k" for i using assms(4) [of i k] k by auto
  ultimately show ?thesis using assms(1,3) unfolding recorded_ok_def by blast
qed

text \<open>The reference that is recorded has not been recorded before.\<close>


context posting_port
begin

lemma new_reference:
  assumes ok: "books_ok official known s" and w: "world_ok (xf_world s')" "ids_kept official known (xf_world s) (xf_world s')"
    and known_pre: "world_ok (xf_world s)"
    and h: "(h \<notin> known (xf_world s) \<and> dget (xf_pending s) i = None) \<or> dget (xf_pending s) i = Some h"
    and r: "official (xf_world s') h = Some r"
  shows "dget (xf_posted s) r = None"
proof (rule ccontr)
  assume "dget (xf_posted s) r \<noteq> None"
  then obtain p where "dget (xf_posted s) r = Some p" by blast
  from books_okD(3) [OF ok this] obtain k where k: "official (xf_world s) k = Some r" "\<forall>i. dget (xf_pending s) i \<noteq> Some k"
    by (auto simp: recorded_ok_def)
  then have "official (xf_world s') k = Some r" using w(2) by (simp add: ids_kept_def)
  from official_inj [OF w(1) this r] have "k = h" .
  with h k official_known [OF known_pre k(1)] show False by auto
qed

lemma books_step_ok:
  assumes st: "books_step official known s s'" and ok: "books_ok official known s"
    and w: "world_ok (xf_world s)" "world_ok (xf_world s')" "ids_kept official known (xf_world s) (xf_world s')"
  shows "books_ok official known s'"
proof -
  note P = books_okD(1) [OF ok] and U = books_okD(2) [OF ok] and R = books_okD(3) [OF ok] and B = books_okD(4) [OF ok]
  have grows: "h \<in> known (xf_world s')" if "h \<in> known (xf_world s)" for h
    using w(3) that by (auto simp: ids_kept_def)
  have rest: "recorded_ok official s' r p" if "recorded_ok official s r p"
    "\<And>i. dget (xf_by_draft s) i = Some r \<Longrightarrow> dget (xf_by_draft s') i = Some r"
    "\<And>i h. dget (xf_pending s') i = Some h \<Longrightarrow> (\<exists>j. dget (xf_pending s) j = Some h) \<or> official (xf_world s) h = None" for r p
    using recorded_kept [OF that(1) w(3) that(2)] that(1,3) by (simp add: recorded_ok_def)
  show ?thesis
    using st
  proof cases
    case keep
    then have e: "xf_posted s' = xf_posted s" "xf_by_draft s' = xf_by_draft s" "xf_pending s' = xf_pending s"
      by (simp_all add: books_def)
    show ?thesis
      by (rule books_okI; (unfold e)?) (use P U B grows rest R e in \<open>blast | simp\<close>)+
  next
    case (pend i h)
    then have e: "xf_posted s' = xf_posted s" "xf_by_draft s' = xf_by_draft s"
      "\<And>j. dget (xf_pending s') j = (if j = i then Some h else dget (xf_pending s) j)"
      by (simp_all add: books_def)
    have no: "official (xf_world s) h = None" using official_known [OF w(1)] pend(3) by (cases "official (xf_world s) h") auto
    show ?thesis
    proof (rule books_okI; (unfold e(1,2))?)
      show "recorded_ok official s' r p" if "dget (xf_posted s) r = Some p" for r p
        by (rule rest [OF R [OF that]]) (use e no in \<open>auto split: if_splits\<close>)
      show "h' \<in> known (xf_world s') \<and> dget (xf_by_draft s) j = None" if "dget (xf_pending s') j = Some h'" for j h'
        using that e(3) P grows pend(1,4) by (auto split: if_splits)
      show "j = k" if "dget (xf_pending s') j = Some h'" "dget (xf_pending s') k = Some h'" for j k h'
        using that e(3) P U pend(3) by (auto split: if_splits)
    qed (rule B)
  next
    case (enter i h r p pending')
    then have e: "xf_posted s' = dput r p (xf_posted s)" "xf_by_draft s' = dput i r (xf_by_draft s)"
      "\<And>j. dget (xf_pending s') j = (if j = i then None else dget (xf_pending s) j)"
      by (simp_all add: books_def)
    note new = new_reference [OF ok w(2,3,1) enter(2,3)]
    show ?thesis
    proof (rule books_okI)
      show "recorded_ok official s' q p'" if "dget (xf_posted s') q = Some p'" for q p'
      proof (cases "q = r")
        case True
        have "\<And>j. dget (xf_pending s') j \<noteq> Some h" using e(3) enter(2) P U by (metis option.distinct(1))
        moreover from True that e(1) have "p' = p" by simp
        ultimately show ?thesis using True e(2) enter(3-5) unfolding recorded_ok_def by auto
      next
        case False
        with that e have "dget (xf_posted s) q = Some p'" by simp
        then show ?thesis by (intro rest [OF R]) (use e enter(1) in \<open>auto split: if_splits\<close>)
      qed
      show "h' \<in> known (xf_world s') \<and> dget (xf_by_draft s') j = None" if "dget (xf_pending s') j = Some h'" for j h'
        using that e(2,3) P grows by (auto split: if_splits)
      show "j = k" if "dget (xf_pending s') j = Some h'" "dget (xf_pending s') k = Some h'" for j k h'
        using that e(3) U by (auto split: if_splits)
      show "\<exists>p'. dget (xf_posted s') q = Some p' \<and> ps_draft p' = j" if "dget (xf_by_draft s') j = Some q" for j q
        using that e(1,2) B [of j q] new enter(5) by (cases "j = i") auto
    qed
  next
    case (release i)
    then have e: "xf_posted s' = xf_posted s" "xf_by_draft s' = xf_by_draft s"
      "\<And>j. dget (xf_pending s') j = (if j = i then None else dget (xf_pending s) j)"
      by (simp_all add: books_def)
    show ?thesis
    proof (rule books_okI; (unfold e(1,2))?)
      show "recorded_ok official s' r p" if "dget (xf_posted s) r = Some p" for r p
        by (rule rest [OF R [OF that]]) (use e in \<open>auto split: if_splits\<close>)
      show "h' \<in> known (xf_world s') \<and> dget (xf_by_draft s) j = None" if "dget (xf_pending s') j = Some h'" for j h'
        using that e(3) P grows by (auto split: if_splits)
      show "j = k" if "dget (xf_pending s') j = Some h'" "dget (xf_pending s') k = Some h'" for j k h'
        using that e(3) U by (auto split: if_splits)
    qed (rule B)
  next
    case (withdraw r p)
    then have e: "xf_posted s' = dput r (p\<lparr>ps_status := PD_CANCELLED\<rparr>) (xf_posted s)"
      "xf_by_draft s' = xf_by_draft s" "xf_pending s' = xf_pending s"
      by (simp_all add: books_def)
    have keepp: "recorded_ok official s' q p'" if "recorded_ok official s q p'" for q p'
      by (rule rest [OF that]) (use e in auto)
    show ?thesis
    proof (rule books_okI)
      show "recorded_ok official s' q p'" if "dget (xf_posted s') q = Some p'" for q p'
      proof (cases "q = r")
        case True
        with that e(1) have "p' = p\<lparr>ps_status := PD_CANCELLED\<rparr>" by simp
        with keepp [OF R [OF withdraw(1)]] True show ?thesis by (simp add: recorded_ok_def)
      next
        case False
        with that e(1) show ?thesis by (intro keepp [OF R]) simp
      qed
      show "\<exists>p'. dget (xf_posted s') q = Some p' \<and> ps_draft p' = j" if "dget (xf_by_draft s') j = Some q" for j q
        using that e(1,2) B [of j q] withdraw(1) by auto
    qed (use e P U grows in auto)
  qed
qed

end

section \<open>Running the commands\<close>

definition calm :: "'w post_flow \<Rightarrow> 'w post_flow \<Rightarrow> bool" where
  "calm s s' = (books s' = books s \<and> xf_world s' = xf_world s)"

lemma calm_simps [simp]:
  "calm s s" "calm s (s\<lparr>xf_audit := x\<rparr>)" "calm s (s\<lparr>xf_denied := y\<rparr>)"
  "books (s\<lparr>xf_audit := x\<rparr>) = books s" "books (s\<lparr>xf_denied := y\<rparr>) = books s" "books (s\<lparr>xf_world := w\<rparr>) = books s"
  by (simp_all add: calm_def books_def)

lemma post_log_seq [simp]:
  "seq (post_log E i a c detail) f s = f () (s\<lparr>xf_audit := add_entry i
     (flow_entry (dv_libs (xe_env E)) (dv_tz (xe_env E)) a c detail) (xf_audit s)\<rparr>)"
  "post_log E i a c detail s = (Inr (), s\<lparr>xf_audit := add_entry i
     (flow_entry (dv_libs (xe_env E)) (dv_tz (xe_env E)) a c detail) (xf_audit s)\<rparr>)"
  by (simp_all add: post_log_def)

lemma post_deny_run [simp]:
  "post_deny E a c code e s = (Inl e, s\<lparr>xf_denied := xf_denied s @ [denial (dv_libs (xe_env E)) (dv_tz (xe_env E)) a c code]\<rparr>)"
  by (simp add: post_deny_def post_log_denied_def)

lemma post_deny_seq [simp]:
  "seq (post_deny E a c code e) f s = (Inl e, s\<lparr>xf_denied := xf_denied s @ [denial (dv_libs (xe_env E)) (dv_tz (xe_env E)) a c code]\<rparr>)"
  by (simp add: seq_def)

lemma post_blocked_run: "post_blocked E i a c detail e s = (x, s') \<Longrightarrow> calm s s' \<and> (\<exists>e'. x = Inl e')"
  by (auto simp: post_blocked_def split: if_splits)

lemma port_call_run: "port_call f s = (x, s') \<longleftrightarrow> (\<exists>w. f (xf_world s) = (x, w) \<and> s' = s\<lparr>xf_world := w\<rparr>)"
  by (auto simp: port_call_def split: prod.splits)

lemma post_pure_seq:
  assumes "seq (pure r) f s = (x, s')"
  obtains (raised) e where "r = Inl e" "s' = s" "x = Inl e" | (went) y where "r = Inr y" "f y s = (x, s')"
  using assms by (auto elim!: seq_cases)

lemma post_guard_seq:
  assumes "seq (guard b (post_deny E a c code e)) f s = (x, s')"
  obtains (raised) "calm s s'" "x = Inl e" | (went) b "f () s = (x, s')"
  using assms by (auto simp: guard_run seq_def split: if_splits)

lemma post_authorize_seq:
  assumes "seq (post_authorize E a c unit) f s = (x, s')"
  obtains (raised) e where "calm s s'" "x = Inl e"
  | (went) u b where "authorize_flow c (cl_channel c) ''INVOICE_POST'' (Some unit) None None = Inr u"
      "selected_assignment (cl_actor c) unit (cl_at c) (cl_assignments c) = Inr b" "f b s = (x, s')"
  using assms unfolding post_authorize_def
  by (auto simp: seq_def pure_def ret_def fail_with_def split: sum.splits exn.splits prod.splits)

subsection \<open>The gate\<close>

text \<open>What lets a caller act on a preview: the right to post for its unit through the
  assignment \<open>a\<close>, not being the opener of the draft, and the preview being the one that the
  draft workflow recomputes, under the settings in force.\<close>

definition post_warranted :: "'w post_env \<Rightarrow> draft_flow \<Rightarrow> caller \<Rightarrow> inv_preview \<Rightarrow> assignment \<Rightarrow> bool" where
  "post_warranted E D c pv a =
    (empowered c (cl_channel c) ''INVOICE_POST'' (pv_unit pv) a
     \<and> (\<exists>d. dget (dw_drafts D) (pv_draft pv) = Some d \<and> df_actor d \<noteq> cl_actor c)
     \<and> recompute_preview_expectation (xe_drafts E) (pv_draft pv) (cl_at c) D = Inr pv
     \<and> (\<exists>cfg. active_settings (xe_env E) (pv_unit pv) (cl_at c) = Inr cfg \<and> sv_version cfg = pv_version pv))"

lemma text_json_inj: "text_json x = text_json y \<longleftrightarrow> x = y"
  by (simp add: text_json_def split: option.splits)

lemma protected_inj:
  "\<not> list_ex (\<lambda>(x, y). x \<noteq> y) (zip (protected_fields pv) (protected_fields q)) \<longleftrightarrow> pv = q"
  by (cases pv; cases q) (auto simp: protected_fields_def text_json_inj)

lemma gate_seq:
  assumes "seq (post_gate E D cmd c pv) f s = (x, s')" "caller_ok c"
  obtains (raised) "calm s s'" "\<exists>e. x = Inl e"
  | (went) a cfg where "post_warranted E D c pv a" "active_settings (xe_env E) (pv_unit pv) (cl_at c) = Inr cfg"
      "f (a, cfg) s = (x, s')"
proof -
  obtain r s1 where g: "post_gate E D cmd c pv s = (r, s1)" by fastforce
  have "(calm s s1 \<and> (\<exists>e. r = Inl e)) \<or> (\<exists>a cfg. post_warranted E D c pv a
      \<and> active_settings (xe_env E) (pv_unit pv) (cl_at c) = Inr cfg \<and> r = Inr (a, cfg) \<and> s1 = s)"
    using g unfolding post_gate_def
  proof (cases rule: post_authorize_seq)
    case (went u b)
    obtain b' where b: "empowered c (cl_channel c) ''INVOICE_POST'' u b'"
      "selected_assignment (cl_actor c) u (cl_at c) (cl_assignments c) = Inr b'" "u = pv_unit pv"
      using authorize_flow_sound [OF went(1) assms(2) [unfolded caller_ok_def]] by auto
    with went(2) have "b' = b" by simp
    with went(3) b show ?thesis
      by (auto simp: assert_not_self_post_def verify_preview_def protected_inj seq_def pure_def guard_run ret_def
          get_draft_opener_def bind_res_Inr post_warranted_def split: sum.splits if_splits)
  qed simp
  then show thesis
  proof (elim disjE exE conjE)
    fix e assume "calm s s1" "r = Inl e"
    with assms(1) g show thesis by (intro raised) (auto simp: seq_def)
  next
    fix a cfg assume "post_warranted E D c pv a" "active_settings (xe_env E) (pv_unit pv) (cl_at c) = Inr cfg"
      "r = Inr (a, cfg)" "s1 = s"
    with assms(1) g show thesis by (intro went) (auto simp: seq_def)
  qed
qed

lemma check_unposted_seq:
  assumes "seq (check_unposted E c i) f s = (x, s')"
  obtains (raised) "calm s s'" "\<exists>e. x = Inl e"
  | (went) "dget (xf_pending s) i = None"
      "\<And>r. dget (xf_by_draft s) i = Some r \<Longrightarrow> dget (xf_posted s) r = None" "f () s = (x, s')"
  using assms by (auto simp: check_unposted_def seq_def look_def guard_run split: if_splits option.splits)

subsection \<open>Calls of the provider\<close>

lemma blocked_call_seq:
  fixes f :: "'b \<Rightarrow> ('w post_flow, 'c) act"
  assumes "seq (handle (port_call g) (post_blocked E i a c detail)) f s = (x, s')"
  obtains (raised) e w where "g (xf_world s) = (Inl e, w)" "books s' = books s" "xf_world s' = w" "\<exists>e. x = Inl e"
  | (went) y w where "g (xf_world s) = (Inr y, w)" "f y (s\<lparr>xf_world := w\<rparr>) = (x, s')"
proof -
  obtain r w where p: "g (xf_world s) = (r, w)" by fastforce
  show thesis
  proof (cases r)
    case (Inl e)
    obtain y :: "'b res" and s1 where y: "post_blocked E i a c detail e (s\<lparr>xf_world := w\<rparr>) = (y, s1)" by fastforce
    from post_blocked_run [OF this] obtain e' where "y = Inl e'" "calm (s\<lparr>xf_world := w\<rparr>) s1" by blast
    with assms p Inl y show thesis
      by (intro raised) (auto simp: seq_def handle_def port_call_def calm_def)
  qed (use assms p in \<open>auto simp: seq_def handle_def port_call_def intro: went\<close>)
qed

lemma clean_up_run:
  assumes "clean_up E h s = (x, s')"
  shows "x = Inr () \<and> s' = s\<lparr>xf_world := snd (port_cancel (xe_port E) h (xf_world s))\<rparr>"
  using assms by (cases "port_cancel (xe_port E) h (xf_world s)")
    (auto simp: clean_up_def handle_def port_call_def ret_def split: sum.splits)

lemma leave_pending_run [simp]:
  "leave_pending E c pv h a why s = (Inr (post_outcome_result O_UNCERTAIN why),
     s\<lparr>xf_pending := dput (pv_draft pv) h (xf_pending s), xf_audit := add_entry (pv_draft pv)
       (flow_entry (dv_libs (xe_env E)) (dv_tz (xe_env E)) ''post_uncertain'' c (attempt_detail (text_json why) h a)) (xf_audit s)\<rparr>)"
  by (simp add: leave_pending_def mark_pending_def)

lemma attempt_post_seq:
  assumes "seq (attempt_post E c pv h a) f s = (x, s')"
  obtains (raised) e w where "port_post (xe_port E) h (xf_world s) = (Inl e, w)" "books s' = books s" "xf_world s' = w" "\<exists>e. x = Inl e"
  | (pending) w q t where "port_post (xe_port E) h (xf_world s) = (Inl UncertainOutcome, w)" "f (Inr q) t = (x, s')"
      "books t = (xf_posted s, xf_by_draft s, dput (pv_draft pv) h (xf_pending s))" "xf_world t = w" "xr_outcome q = O_UNCERTAIN"
  | (answered) w res where "port_post (xe_port E) h (xf_world s) = (Inr res, w)" "f (Inl res) (s\<lparr>xf_world := w\<rparr>) = (x, s')"
proof -
  obtain r w where p: "port_post (xe_port E) h (xf_world s) = (r, w)" by fastforce
  consider e where "r = Inl e" "e \<noteq> UncertainOutcome" | "r = Inl UncertainOutcome" | res where "r = Inr res"
    by (cases r) auto
  then show thesis
  proof cases
    case (1 e)
    let ?d = "[(''reason'', JStr ''provider rejected post''), (''provider_draft_ref'', JStr h)]"
    obtain y :: "(posting_result + post_result) res" and s1 where y: "post_blocked E (pv_draft pv) ''post_blocked'' c ?d e (s\<lparr>xf_world := w\<rparr>) = (y, s1)" by fastforce
    from post_blocked_run [OF this] obtain e' where "y = Inl e'" "calm (s\<lparr>xf_world := w\<rparr>) s1" by blast
    with assms p 1 y show thesis
      by (intro raised) (auto simp: attempt_post_def seq_def handle_def port_call_def calm_def)
  next
    case 2
    with assms p show thesis
      by (intro pending) (auto simp: attempt_post_def seq_def handle_def port_call_def ret_def books_def post_outcome_result_def)
  next
    case (3 res)
    with assms p show thesis
      by (intro answered) (auto simp: attempt_post_def seq_def handle_def port_call_def ret_def)
  qed
qed

lemma freeze_seq:
  assumes "seq (freeze E c pv reference p) f s = (x, s')"
  obtains (raised) "s' = s" "\<exists>e. x = Inl e"
  | (went) r n t where "reference = Some r" "posted_snapshot_of p = Inr n" "f r t = (x, s')" "xf_world t = xf_world s"
      "books t = (dput r (frozen (dv_libs (xe_env E)) c pv r n) (xf_posted s), dput (pv_draft pv) r (xf_by_draft s), xf_pending s)"
proof (cases "posted_snapshot_of p")
  case (Inl e)
  with assms raised show thesis by (auto simp: freeze_def seq_def)
next
  case (Inr n)
  show thesis
  proof (cases reference)
    case None
    with assms Inr raised show thesis by (auto simp: freeze_def seq_def)
  next
    case (Some r)
    with assms Inr show thesis
      by (intro went [of r n "s\<lparr>xf_posted := dput r (frozen (dv_libs (xe_env E)) c pv r n) (xf_posted s),
             xf_by_draft := dput (pv_draft pv) r (xf_by_draft s)\<rparr>"]) (auto simp: freeze_def seq_def upd_def ret_def pure_def books_def)
  qed
qed

lemma ids_kept_refl [simp]: "ids_kept official known w w"
  by (simp add: ids_kept_def)

lemma ids_kept_trans: "ids_kept official known w v \<Longrightarrow> ids_kept official known v u \<Longrightarrow> ids_kept official known w u"
  unfolding ids_kept_def by blast

lemma kept_chain:
  "ok v \<and> ids_kept official known w v \<Longrightarrow> ok u \<and> ids_kept official known v u \<Longrightarrow> ok u \<and> ids_kept official known w u"
  by (simp add: ids_kept_def) blast

text \<open>What \<open>post_draft\<close> does, by how far it gets.\<close>

definition post_cleared :: "'w post_env \<Rightarrow> draft_flow \<Rightarrow> caller \<Rightarrow> inv_preview \<Rightarrow> 'w post_flow \<Rightarrow> bool" where
  "post_cleared E D c pv s = ((\<exists>a. post_warranted E D c pv a) \<and> dget (xf_pending s) (pv_draft pv) = None
     \<and> dget (xf_by_draft s) (pv_draft pv) = None)"

text \<open>The provider's world after a document of the command \<open>cmd\<close> has been created, posted and,
  where the provider answers that it is rejected, cancelled.\<close>

definition sent_post :: "'w erp_port \<Rightarrow> draft_invoice_command \<Rightarrow> 'w \<Rightarrow> 'w" where
  "sent_post P cmd w = (case port_create P cmd w of
       (Inl e, v) \<Rightarrow> v
     | (Inr h, v) \<Rightarrow> (case port_post P h v of
         (Inl e, u) \<Rightarrow> u
       | (Inr res, u) \<Rightarrow> if po_outcome res = O_REJECTED then snd (port_cancel P h u) else u))"

text \<open>A post that touches the provider sends one document: that of the draft as it is then, for
  the preview's customer, under the identity of the policy in force.\<close>

lemma after_post_world:
  assumes "after_post E c pv p h a res t = (x, t')"
  shows "xf_world t' = (if po_outcome res = O_REJECTED then snd (port_cancel (xe_port E) h (xf_world t)) else xf_world t)"
proof (cases "po_outcome res")
  case O_REJECTED
  with assms show ?thesis
    by (auto simp: after_post_def seq_def ret_def dest: clean_up_run split: prod.splits sum.splits)
next
  case O_UNCERTAIN
  with assms show ?thesis by (auto simp: after_post_def)
next
  case O_POSTED
  with assms show ?thesis by (auto simp: after_post_def elim!: freeze_seq)
qed

lemma attempt_world:
  assumes "seq (attempt_post E c pv h a) (\<lambda>x. case x of Inr r \<Rightarrow> ret r | Inl res \<Rightarrow> after_post E c pv p h a res) t = (x, s')"
    "port_create (xe_port E) cmd w = (Inr h, xf_world t)"
  shows "xf_world s' = sent_post (xe_port E) cmd w"
  using assms(1)
proof (cases rule: attempt_post_seq)
  case (answered u res)
  with after_post_world [of E c pv p h a res "t\<lparr>xf_world := u\<rparr>" x s'] assms(2) show ?thesis by (simp add: sent_post_def)
qed (use assms(2) in \<open>auto simp: sent_post_def\<close>)

lemma post_sends:
  assumes run: "post_draft E D c pv s = (x, s')" and "caller_ok c" and moved: "xf_world s' \<noteq> xf_world s"
  obtains cfg p n cmd where "active_settings (xe_env E) (pv_unit pv) (cl_at c) = Inr cfg"
    "resolve_identity (xe_env E) (pv_unit pv) (pv_currency pv) (cl_at c) = Inr p"
    "get_draft (pv_draft pv) D = Inr n" "post_command c pv cfg p n = Inr cmd"
    "xf_world s' = sent_post (xe_port E) cmd (xf_world s)"
  using run [unfolded post_draft_def] assms(2)
proof (cases rule: gate_seq)
  case raised
  with moved show thesis by (simp add: calm_def)
next
  case (went a cfg)
  note cfg = went(2)
  from went(3) have "seq (check_unposted E c (pv_draft pv)) (\<lambda>_.
    seq (pure (resolve_identity (xe_env E) (pv_unit pv) (pv_currency pv) (cl_at c))) (\<lambda>p.
    seq (pure (bind_res (get_draft (pv_draft pv) D) (post_command c pv cfg p))) (\<lambda>cmd.
    seq (create_handle E c pv cmd) (\<lambda>h.
    seq (attempt_post E c pv h a) (\<lambda>x.
    case x of Inr r \<Rightarrow> ret r | Inl res \<Rightarrow> after_post E c pv p h a res))))) s = (x, s')" by simp
  then show thesis
  proof (elim check_unposted_seq post_pure_seq, goal_cases)
    case (4 p cmd)
    from 4(4) obtain n where n: "get_draft (pv_draft pv) D = Inr n" "post_command c pv cfg p n = Inr cmd"
      by (auto simp: bind_res_Inr)
    from 4(5) have "xf_world s' = sent_post (xe_port E) cmd (xf_world s)" unfolding create_handle_def
    proof (cases rule: blocked_call_seq)
      case (went h v)
      then show ?thesis by (intro attempt_world [OF went(2)]) simp
    qed (simp add: sent_post_def)
    with that [OF cfg 4(3) n] show thesis .
  qed (use moved in \<open>auto simp: calm_def\<close>)
qed

context posting_port
begin

lemma post_effect:
  assumes E: "xe_port E = P" and "caller_ok c" and w: "world_ok (xf_world s)" and ok: "books_ok official known s"
    and run: "post_draft E D c pv s = (x, s')"
  obtains (calm) "calm s s'" "\<exists>e. x = Inl e"
  | (failed) "post_cleared E D c pv s" "books s' = books s" "world_ok (xf_world s')"
      "ids_kept official known (xf_world s) (xf_world s')" "(\<exists>e. x = Inl e) \<or> (\<exists>q. x = Inr q \<and> xr_outcome q = O_REJECTED)"
  | (pending) h q where "post_cleared E D c pv s" "h \<notin> known (xf_world s)" "h \<in> known (xf_world s')" "world_ok (xf_world s')"
      "ids_kept official known (xf_world s) (xf_world s')" "x = Inr q" "xr_outcome q = O_UNCERTAIN"
      "books s' = (xf_posted s, xf_by_draft s, dput (pv_draft pv) h (xf_pending s))"
  | (posted) h r n where "post_cleared E D c pv s" "h \<notin> known (xf_world s)" "world_ok (xf_world s')"
      "ids_kept official known (xf_world s) (xf_world s')" "official (xf_world s') h = Some r" "x = Inr (posted_result r)"
      "\<exists>p. resolve_identity (xe_env E) (pv_unit pv) (pv_currency pv) (cl_at c) = Inr p \<and> posted_snapshot_of p = Inr n"
      "books s' = (dput r (frozen (dv_libs (xe_env E)) c pv r n) (xf_posted s), dput (pv_draft pv) r (xf_by_draft s), xf_pending s)"
  using run [unfolded post_draft_def] assms(2)
proof (cases rule: gate_seq)
  case raised
  then show thesis using calm by blast
next
  case (went a cfg)
  note gate = went(1)
  from went(3) have "seq (check_unposted E c (pv_draft pv)) (\<lambda>_.
    seq (pure (resolve_identity (xe_env E) (pv_unit pv) (pv_currency pv) (cl_at c))) (\<lambda>p.
    seq (pure (bind_res (get_draft (pv_draft pv) D) (post_command c pv cfg p))) (\<lambda>cmd.
    seq (create_handle E c pv cmd) (\<lambda>h.
    seq (attempt_post E c pv h a) (\<lambda>x.
    case x of Inr r \<Rightarrow> ret r | Inl res \<Rightarrow> after_post E c pv p h a res))))) s = (x, s')" by simp
  then show thesis
  proof (elim check_unposted_seq post_pure_seq, goal_cases)
    case (4 p cmd)
    have cleared: "post_cleared E D c pv s"
      using gate 4(1,2) books_okD(4) [OF ok] unfolding post_cleared_def by (cases "dget (xf_by_draft s) (pv_draft pv)") fastforce+
    from 4(5) show thesis unfolding create_handle_def
    proof (cases rule: blocked_call_seq)
      case (raised e v)
      with create_kept [OF w, of cmd] E show thesis by (intro failed [OF cleared]) auto
    next
      case (went h v)
      with E have cr: "port_create P cmd (xf_world s) = (Inr h, v)" by simp
      note k1 = create_kept [OF w cr] and fresh = create_fresh [OF w cr]
      let ?s = "s\<lparr>xf_world := v\<rparr>"
      have pk: "world_ok u \<and> ids_kept official known (xf_world s) u" if "port_post P h v = (r, u)" for r u
        by (rule kept_chain [where ok = world_ok, OF k1 post_kept [OF conjunct1 [OF k1] that]])
      have hk: "h \<in> known u" if "port_post P h v = (r, u)" for r u
        using post_kept [OF conjunct1 [OF k1] that] fresh by (auto simp: ids_kept_def)
      from went(2) show thesis
      proof (cases rule: attempt_post_seq)
        case (raised e u)
        with pk E show thesis by (intro failed [OF cleared]) (auto simp: books_def)
      next
        case (pending u q t)
        then have "s' = t" "x = Inr q" by simp_all
        moreover have "port_post P h v = (Inl UncertainOutcome, u)" using pending(1) E by simp
        ultimately show thesis using pending pk hk fresh
          by (intro that(3) [OF cleared, of h q]) (auto simp: books_def)
      next
        case (answered u res)
        then have pp: "port_post P h v = (Inr res, u)" using E by simp
        note k2 = pk [OF pp]
        note f = hk [OF pp]
        show thesis
        proof (cases "po_outcome res")
          case O_REJECTED
          obtain r u' where c': "port_cancel P h u = (r, u')" by fastforce
          from cancel_kept [OF conjunct1 [OF k2] c'] have k3: "world_ok u' \<and> ids_kept official known (xf_world s) u'"
            by (rule kept_chain [where ok = world_ok, OF k2])
          from answered(2) O_REJECTED E c' have "books s' = books s" "xf_world s' = u'"
            "x = Inr (post_outcome_result O_REJECTED (po_reason res))"
            by (auto simp: after_post_def seq_def ret_def books_def dest: clean_up_run split: prod.splits sum.splits)
          with k3 show thesis by (intro failed [OF cleared]) (auto simp: post_outcome_result_def)
        next
          case O_UNCERTAIN
          with answered(2) k2 f fresh show thesis
            by (intro pending [OF cleared, of h "post_outcome_result O_UNCERTAIN (po_reason res)"])
              (auto simp: after_post_def books_def post_outcome_result_def)
        next
          case O_POSTED
          with answered(2) have "seq (freeze E c pv (po_reference res) p) (\<lambda>r.
              seq (post_log E r ''post'' c [(''draft_id'', JStr (pv_draft pv)),
                (''configuration_version'', JInt (pv_version pv)), (''assignment_ref'', JStr (as_ref a))])
              (\<lambda>_. ret (posted_result r))) (?s\<lparr>xf_world := u\<rparr>) = (x, s')" by (simp add: after_post_def)
          then show thesis
          proof (cases rule: freeze_seq)
            case raised
            with k2 show thesis by (intro failed [OF cleared]) (auto simp: books_def)
          next
            case (went r n t)
            have "official u h = Some r" using posted_answer [OF conjunct1 [OF k1] conjunct2 [OF fresh] pp O_POSTED] went(1) by simp
            with went k2 fresh 4(3) show thesis
              by (intro posted [OF cleared, of h r n]) (auto simp: books_def)
          qed
        qed
      qed
    qed
  qed (use calm in auto)
qed

text \<open>What \<open>reconcile_draft_post\<close> does.\<close>

lemma reconcile_effect:
  assumes E: "xe_port E = P" and "caller_ok c" and w: "world_ok (xf_world s)" and ok: "books_ok official known s"
    and run: "reconcile_draft_post E D c pv s = (x, s')"
  obtains (calm) "calm s s'" "\<exists>e. x = Inl e"
  | (failed) h where "\<exists>a. post_warranted E D c pv a" "dget (xf_pending s) (pv_draft pv) = Some h"
      "books s' = books s" "world_ok (xf_world s')" "ids_kept official known (xf_world s) (xf_world s')"
      "(\<exists>e. x = Inl e) \<or> (\<exists>q. x = Inr q \<and> xr_outcome q = O_UNCERTAIN)"
  | (posted) h r n where "\<exists>a. post_warranted E D c pv a" "dget (xf_pending s) (pv_draft pv) = Some h"
      "world_ok (xf_world s')" "ids_kept official known (xf_world s) (xf_world s')" "official (xf_world s') h = Some r"
      "posted (xf_world s) h = Some r" "x = Inr (posted_result r)"
      "\<exists>p. resolve_identity (xe_env E) (pv_unit pv) (pv_currency pv) (cl_at c) = Inr p \<and> posted_snapshot_of p = Inr n"
      "books s' = (dput r (frozen (dv_libs (xe_env E)) c pv r n) (xf_posted s), dput (pv_draft pv) r (xf_by_draft s),
         ddel (pv_draft pv) (xf_pending s))"
  | (released) h q where "\<exists>a. post_warranted E D c pv a" "dget (xf_pending s) (pv_draft pv) = Some h"
      "world_ok (xf_world s')" "ids_kept official known (xf_world s) (xf_world s')" "posted (xf_world s) h = None"
      "x = Inr q" "xr_outcome q = O_REJECTED"
      "books s' = (xf_posted s, xf_by_draft s, ddel (pv_draft pv) (xf_pending s))"
  using run [unfolded reconcile_draft_post_def] assms(2)
proof (cases rule: gate_seq)
  case raised
  then show thesis using calm by blast
next
  case (went a cfg)
  then have gate: "\<exists>a. post_warranted E D c pv a" by blast
  show thesis
  proof (cases "dget (xf_pending s) (pv_draft pv)")
    case None
    with went(3) show thesis by (intro calm) auto
  next
    case (Some h)
    with went(3) have run: "seq (read_back_post E c pv h) (\<lambda>x. case x of Inr r \<Rightarrow> ret r
        | Inl res \<Rightarrow> after_read_back E c pv h a res) s = (x, s')" by simp
    note hk = conjunct1 [OF books_okD(1) [OF ok Some]]
    obtain r u where p: "port_reconcile_post P h (xf_world s) = (r, u)" by fastforce
    note k = read_back_kept [OF w p]
    consider e where "r = Inl e" | res where "r = Inr res" "po_outcome res = O_POSTED"
      | res where "r = Inr res" "po_outcome res = O_REJECTED" | res where "r = Inr res" "po_outcome res = O_UNCERTAIN"
      by (cases r) (metis posting_outcome.exhaust)+
    then show thesis
    proof cases
      case (1 e)
      have "books s' = books s \<and> xf_world s' = u \<and> ((\<exists>e. x = Inl e) \<or> (\<exists>q. x = Inr q \<and> xr_outcome q = O_UNCERTAIN))"
        using run p 1 E by (auto simp: read_back_post_def seq_def handle_def port_call_def ret_def post_outcome_result_def
            post_blocked_def split: if_splits)
      with k show thesis by (intro failed [OF gate Some]) auto
    next
      case (2 res)
      let ?s = "s\<lparr>xf_world := u\<rparr>"
      have "seq (pure (resolve_identity (xe_env E) (pv_unit pv) (pv_currency pv) (cl_at c))) (\<lambda>p.
         seq (freeze E c pv (po_reference res) p) (\<lambda>official.
         seq (drop_pending (pv_draft pv)) (\<lambda>_.
         seq (post_log E official ''reconcile_post'' c
             [(''draft_id'', JStr (pv_draft pv)), (''provider_draft_ref'', JStr h), (''assignment_ref'', JStr (as_ref a))])
         (\<lambda>_. ret (posted_result official))))) ?s = (x, s')"
        using run p 2 E by (simp add: read_back_post_def seq_def handle_def port_call_def ret_def after_read_back_def)
      then show thesis
      proof (elim post_pure_seq freeze_seq, goal_cases)
        case 1
        with k show thesis by (intro failed [OF gate Some]) auto
      next
        case (2 p)
        with k show thesis by (intro failed [OF gate Some]) auto
      next
        case (3 p r' n t)
        have "official u h = Some r'" "posted (xf_world s) h = Some r'"
          using read_back_answer [OF w hk p [unfolded \<open>r = Inr res\<close>] 2(2)] post_answer [OF w p [unfolded \<open>r = Inr res\<close>]] 2 3 by auto
        with 3 k show thesis by (intro posted [OF gate Some, of r' n]) (auto simp: drop_pending_def books_def)
      qed
    next
      case (3 res)
      obtain rc u' where cn: "port_cancel P h u = (rc, u')" by fastforce
      from cancel_kept [OF conjunct1 [OF k] cn] have k3: "world_ok u' \<and> ids_kept official known (xf_world s) u'"
        by (rule kept_chain [where ok = world_ok, OF k])
      have "clean_up E h t = (Inr (), t\<lparr>xf_world := u'\<rparr>)" if "xf_world t = u" for t
        using clean_up_run [of E h t] that cn E by (metis prod.collapse snd_conv)
      then have "x = Inr (post_outcome_result O_REJECTED (po_reason res))" "xf_world s' = u'"
        "books s' = (xf_posted s, xf_by_draft s, ddel (pv_draft pv) (xf_pending s))"
        using run p 3 E by (auto simp: read_back_post_def seq_def handle_def port_call_def ret_def after_read_back_def
            guard_def drop_pending_def upd_def books_def)
      with k3 post_answer [OF w p [unfolded 3(1)]] 3(2) show thesis
        by (intro released [OF gate Some]) (auto simp: post_outcome_result_def)
    next
      case (4 res)
      then have "x = Inr (post_outcome_result O_UNCERTAIN (po_reason res))" "books s' = books s" "xf_world s' = u"
        using run p E by (auto simp: read_back_post_def seq_def handle_def port_call_def ret_def after_read_back_def
            guard_def books_def)
      with k show thesis by (intro failed [OF gate Some]) (auto simp: post_outcome_result_def)
    qed
  qed
qed

text \<open>Every command refines a step of the books.\<close>

definition moves :: "'w post_flow \<Rightarrow> 'w post_flow \<Rightarrow> bool" where
  "moves s s' = (world_ok (xf_world s') \<and> ids_kept official known (xf_world s) (xf_world s') \<and> books_step official known s s')"

lemma calm_moves: "calm s s' \<Longrightarrow> world_ok (xf_world s) \<Longrightarrow> moves s s'"
  by (simp add: moves_def calm_def books_step.keep)

lemma post_moves:
  assumes "xe_port E = P" "caller_ok c" "world_ok (xf_world s)" "books_ok official known s" "post_draft E D c pv s = (x, s')"
  shows "moves s s'"
  using assms
proof (cases rule: post_effect)
  case calm
  with assms(3) show ?thesis by (intro calm_moves)
next
  case failed
  then show ?thesis by (simp add: moves_def books_step.keep)
next
  case (pending h q)
  then show ?thesis using pend [of s "pv_draft pv" h known s' official] by (simp add: moves_def post_cleared_def)
next
  case (posted h r n)
  then show ?thesis
    by (auto simp: moves_def post_cleared_def frozen_def intro!: enter [of s "pv_draft pv" h known official s' r])
qed

lemma reconcile_moves:
  assumes "xe_port E = P" "caller_ok c" "world_ok (xf_world s)" "books_ok official known s"
    "reconcile_draft_post E D c pv s = (x, s')"
  shows "moves s s'"
  using assms
proof (cases rule: reconcile_effect)
  case calm
  with assms(3) show ?thesis by (intro calm_moves)
next
  case (failed h)
  then show ?thesis by (simp add: moves_def books_step.keep)
next
  case (posted h r n)
  then show ?thesis using books_okD(1) [OF assms(4) posted(2)]
    by (auto simp: moves_def frozen_def intro!: enter [of s "pv_draft pv" h known official s' r])
next
  case (released h q)
  then show ?thesis by (simp add: moves_def release)
qed

lemma posted_seq:
  assumes "seq (look (posted_of r) pure) f s = (x, s')"
  obtains (raised) "s' = s" "\<exists>e. x = Inl e" | (went) p where "dget (xf_posted s) r = Some p" "f p s = (x, s')"
  using assms by (auto simp: posted_of_def seq_def look_def split: option.splits)

lemma cancel_moves:
  assumes E: "xe_port E = P" and w: "world_ok (xf_world s)" and run: "cancel_posted E c r s = (x, s')"
  shows "moves s s'"
  using run unfolding cancel_posted_def
proof (elim posted_seq post_authorize_seq blocked_call_seq, goal_cases)
  case 1
  then show ?case using w by (intro calm_moves) simp_all
next
  case (2 p)
  then have "(ps_status p = PD_CANCELLED \<and> s' = s) \<or> (seq (post_authorize E ''cancel_posted'' c (ps_unit p)) (\<lambda>a.
      seq (handle (port_call (port_cancel (xe_port E) r))
          (post_blocked E r ''cancel_blocked'' c [(''reason'', JStr ''provider rejected cancel'')])) (\<lambda>_.
      seq (upd (\<lambda>s. s\<lparr>xf_posted := dput r (p\<lparr>ps_status := PD_CANCELLED\<rparr>) (xf_posted s)\<rparr>)) (\<lambda>_.
      post_log E r ''cancel_posted'' c [(''assignment_ref'', JStr (as_ref a))]))) s = (x, s'))"
    by (auto simp: guard_def split: if_splits)
  then show ?case
  proof (elim disjE post_authorize_seq blocked_call_seq, goal_cases)
    case (3 u b e v)
    with cancel_kept [OF w, of r _ v] E show ?case by (auto simp: moves_def intro: books_step.keep)
  next
    case (4 u b y v)
    then have "books s' = (dput r (p\<lparr>ps_status := PD_CANCELLED\<rparr>) (xf_posted s), xf_by_draft s, xf_pending s)" "xf_world s' = v"
      by (auto simp: books_def)
    with 2(1) 4 cancel_kept [OF w, of r _ v] E show ?case by (auto simp: moves_def intro: withdraw)
  qed (use w in \<open>auto intro: calm_moves\<close>)
qed

lemma deliver_moves:
  assumes E: "xe_deliver E = deliver" and w: "world_ok (xf_world s)" and run: "deliver_posted E c r s = (x, s')"
  shows "moves s s'"
  using run unfolding deliver_posted_def
proof (cases rule: posted_seq)
  case raised
  then show ?thesis using w by (intro calm_moves) simp_all
next
  case (went p)
  show ?thesis
  proof (cases "authorize_flow c (cl_channel c) ''INVOICE_POST'' (Some (ps_unit p)) None None")
    case (Inl e)
    with went(2) have "calm s s'" by (auto split: exn.splits simp: calm_def)
    with w show ?thesis by (intro calm_moves)
  next
    case (Inr u)
    with went(2) show ?thesis
    proof (simp, elim blocked_call_seq, goal_cases)
      case (1 e v)
      with deliver_kept [OF w, of r "cl_channel c" _ v] E show ?case by (auto simp: moves_def intro: books_step.keep)
    next
      case (2 d v)
      then have "books s' = books s" "xf_world s' = v" by auto
      with 2 deliver_kept [OF w, of r "cl_channel c" _ v] E show ?case by (auto simp: moves_def intro: books_step.keep)
    qed
  qed
qed

end

section \<open>The fixture provider\<close>

definition fixture_official :: "fixture_erp \<Rightarrow> str \<Rightarrow> str option" where
  "fixture_official w h = (case dget (fe_objs w) h of None \<Rightarrow> None | Some i \<Rightarrow> iv_official i)"

definition fixture_known :: "fixture_erp \<Rightarrow> str set" where
  "fixture_known w = set (dkeys (fe_objs w))"

lemma erp_keeps_ids: "erp_keeps w w' \<Longrightarrow> ids_kept fixture_official fixture_known w w'"
  unfolding ids_kept_def
proof (intro conjI allI impI subsetI)
  fix h assume k: "erp_keeps w w'" "h \<in> fixture_known w"
  then obtain i where "dget (fe_objs w) h = Some i" by (auto simp: fixture_known_def dget_keys)
  with k(1) show "h \<in> fixture_known w'"
    unfolding erp_keeps_def dict_keeps_def fixture_known_def dget_keys by fastforce
next
  fix h r assume k: "erp_keeps w w'" "fixture_official w h = Some r"
  then obtain i where i: "dget (fe_objs w) h = Some i" "iv_official i = Some r"
    by (auto simp: fixture_official_def split: option.splits)
  with k(1) obtain i' where "dget (fe_objs w') h = Some i'" "invoice_keeps i i'"
    unfolding erp_keeps_def dict_keeps_def by blast
  with i show "fixture_official w' h = Some r" by (simp add: fixture_official_def invoice_keeps_def)
qed

lemma fixture_step_kept:
  "fe_ok w \<Longrightarrow> fe_ok (erp_step e w) \<and> ids_kept fixture_official fixture_known w (erp_step e w)"
  using fe_ok_trans [OF erp_step_trans] erp_keeps_ids [OF erp_trans_keeps [OF erp_step_trans]] by blast

lemma fixture_create_kept:
  "fe_ok w \<Longrightarrow> create_draft_invoice cmd w = (r, w') \<Longrightarrow> fe_ok w' \<and> ids_kept fixture_official fixture_known w w'"
  using fixture_step_kept [of w "CreateDraft cmd"] by simp

lemma fixture_post_kept:
  "fe_ok w \<Longrightarrow> post_invoice h w = (r, w') \<Longrightarrow> fe_ok w' \<and> ids_kept fixture_official fixture_known w w'"
  using fixture_step_kept [of w "Post h"] by simp

lemma fixture_read_back_kept:
  "fe_ok w \<Longrightarrow> reconcile_post h w = (r, w') \<Longrightarrow> fe_ok w' \<and> ids_kept fixture_official fixture_known w w'"
  using fixture_step_kept [of w "ReconcilePost h"] by simp

lemma fixture_cancel_kept:
  "fe_ok w \<Longrightarrow> cancel_invoice h w = (r, w') \<Longrightarrow> fe_ok w' \<and> ids_kept fixture_official fixture_known w w'"
  using fixture_step_kept [of w "Cancel h"] by simp

lemma fixture_deliver_kept:
  "fe_ok w \<Longrightarrow> enqueue_delivery d ch w = (r, w') \<Longrightarrow> fe_ok w' \<and> ids_kept fixture_official fixture_known w w'"
  using fixture_step_kept [of w "Deliver d ch"] by simp

lemma fixture_create_fresh:
  assumes "fe_ok w" "create_draft_invoice cmd w = (Inr h, w')"
  shows "h \<notin> fixture_known w \<and> h \<in> fixture_known w'"
proof -
  have "h = ref_num ''DRAFT'' 6 (fe_draft_seq w) \<and> h \<in> fixture_known w'"
    using assms(2) by (auto simp: create_draft_invoice_def Let_def fixture_known_def dget_keys simp del: add_lines.simps
        split: list.splits sum.splits if_splits prod.splits)
  with fresh_draft [OF assms(1)] show ?thesis by (auto simp: fixture_known_def dget_keys)
qed

lemma known_found:
  assumes "fe_ok w" "h \<in> fixture_known w"
  obtains i where "find_invoice w h = Some i" "dget (fe_objs w) h = Some i" "iv_draft i = h"
proof -
  obtain i where i: "dget (fe_objs w) h = Some i" using assms(2) by (auto simp: fixture_known_def dget_keys)
  with fe_okD(1) [OF assms(1) i] show thesis
    by (intro that [of i]) (simp_all add: invoice_ok_def find_invoice_def)
qed

lemma fixture_posted_answer:
  assumes "fe_ok w" "h \<in> fixture_known w" "post_invoice h w = (Inr res, w')" "po_outcome res = O_POSTED"
  shows "po_reference res \<noteq> None \<and> fixture_official w' h = po_reference res"
proof -
  obtain i where i: "find_invoice w h = Some i" "dget (fe_objs w) h = Some i" "iv_draft i = h"
    using known_found [OF assms(1,2)] .
  then have t: "post_target w h = Some i" by (simp add: post_target_def)
  have "iv_status i = ''POSTED'' \<Longrightarrow> iv_official i \<noteq> None"
    using fe_okD(1) [OF assms(1) i(2)] by (auto simp: invoice_ok_def)
  with assms(3,4) t i(2,3) show ?thesis
    by (auto simp: post_invoice_def fixture_official_def posting_def Let_def assign_official_def store_invoice_def
        split: if_splits)
qed

lemma fixture_read_back_answer:
  assumes "fe_ok w" "h \<in> fixture_known w" "reconcile_post h w = (Inr res, w')" "po_outcome res = O_POSTED"
  shows "po_reference res \<noteq> None \<and> fixture_official w' h = po_reference res"
proof -
  obtain i where i: "find_invoice w h = Some i" "dget (fe_objs w) h = Some i" "iv_draft i = h"
    using known_found [OF assms(1,2)] .
  have "iv_status i = ''POSTED'' \<Longrightarrow> iv_official i \<noteq> None"
    using fe_okD(1) [OF assms(1) i(2)] by (auto simp: invoice_ok_def)
  with assms(3,4) i show ?thesis
    by (auto simp: reconcile_post_def fixture_official_def posting_def Let_def set_uncertain_def store_invoice_def
        split: if_splits)
qed

lemma fixture_official_inj:
  "fe_ok w \<Longrightarrow> fixture_official w h = Some r \<Longrightarrow> fixture_official w k = Some r \<Longrightarrow> h = k"
  using official_unique by (auto simp: fixture_official_def split: option.splits)

lemma fixture_posting_simps:
  "port_create fixture_port = create_draft_invoice" "port_post fixture_port = post_invoice"
  "port_cancel fixture_port = cancel_invoice" "port_reconcile_post fixture_port = reconcile_post"
  by (simp_all add: fixture_port_def)

interpretation fixture_posting: posting_port fixture_port fe_ok fixture_posted fixture_paid
  enqueue_delivery fixture_official fixture_known
proof (unfold_locales, unfold fixture_posting_simps)
  fix w w' :: fixture_erp and h
  show "fixture_official w h = Some r \<Longrightarrow> h \<in> fixture_known w" for r
    by (auto simp: fixture_official_def fixture_known_def dget_keys split: option.splits)
qed (rule fixture_create_kept fixture_create_fresh fixture_post_kept fixture_posted_answer fixture_read_back_kept
    fixture_read_back_answer fixture_cancel_kept fixture_deliver_kept fixture_official_inj; assumption)+

section \<open>Sequences of commands\<close>

text \<open>Commands of the workflow, each with the state of the draft workflow at the time, and
  anything that happens at the provider in between.\<close>

datatype post_event =
    XPost "fixture_erp post_env" draft_flow caller inv_preview
  | XReconcile "fixture_erp post_env" draft_flow caller inv_preview
  | XCancel "fixture_erp post_env" caller str
  | XDeliver "fixture_erp post_env" caller str
  | XElsewhere erp_op

fun post_exec :: "post_event \<Rightarrow> fixture_erp post_flow \<Rightarrow> fixture_erp post_flow" where
  "post_exec (XPost E D c pv) s = snd (post_draft E D c pv s)"
| "post_exec (XReconcile E D c pv) s = snd (reconcile_draft_post E D c pv s)"
| "post_exec (XCancel E c r) s = snd (cancel_posted E c r s)"
| "post_exec (XDeliver E c r) s = snd (deliver_posted E c r s)"
| "post_exec (XElsewhere e) s = s\<lparr>xf_world := erp_step e (xf_world s)\<rparr>"

definition fixture_env :: "fixture_erp post_env \<Rightarrow> bool" where
  "fixture_env E = (xe_port E = fixture_port \<and> xe_deliver E = enqueue_delivery)"

fun post_event_ok :: "post_event \<Rightarrow> bool" where
  "post_event_ok (XPost E D c pv) = (fixture_env E \<and> caller_ok c)"
| "post_event_ok (XReconcile E D c pv) = (fixture_env E \<and> caller_ok c)"
| "post_event_ok (XCancel E c r) = (fixture_env E \<and> caller_ok c)"
| "post_event_ok (XDeliver E c r) = (fixture_env E \<and> caller_ok c)"
| "post_event_ok (XElsewhere e) = True"

definition post_run :: "post_event list \<Rightarrow> fixture_erp post_flow \<Rightarrow> fixture_erp post_flow" where
  "post_run es s = foldl (\<lambda>t e. post_exec e t) s es"

text \<open>A state that a new workflow over a provider reaches.\<close>

definition post_from :: "fixture_erp post_flow \<Rightarrow> bool" where
  "post_from s = (\<exists>pfx w es. erp_from pfx w \<and> list_all post_event_ok es \<and> s = post_run es (new_post_flow w))"

definition sound_books :: "fixture_erp post_flow \<Rightarrow> bool" where
  "sound_books s = (fe_ok (xf_world s) \<and> books_ok fixture_official fixture_known s)"

lemma post_exec_moves:
  assumes "post_event_ok e" "sound_books s"
  shows "fixture_posting.moves s (post_exec e s)"
proof (cases e)
  case (XPost E D c pv)
  with assms show ?thesis
    by (auto simp: fixture_env_def sound_books_def intro: fixture_posting.post_moves [OF _ _ _ _ surjective_pairing])
next
  case (XReconcile E D c pv)
  with assms show ?thesis
    by (auto simp: fixture_env_def sound_books_def intro: fixture_posting.reconcile_moves [OF _ _ _ _ surjective_pairing])
next
  case (XCancel E c r)
  with assms show ?thesis
    by (auto simp: fixture_env_def sound_books_def intro: fixture_posting.cancel_moves [OF _ _ surjective_pairing])
next
  case (XDeliver E c r)
  with assms show ?thesis
    by (auto simp: fixture_env_def sound_books_def intro: fixture_posting.deliver_moves [OF _ _ surjective_pairing])
next
  case (XElsewhere e)
  with assms fixture_step_kept [of "xf_world s" e] show ?thesis
    by (simp add: fixture_posting.moves_def sound_books_def books_step.keep)
qed

lemma sound_moves: "fixture_posting.moves s s' \<Longrightarrow> sound_books s \<Longrightarrow> sound_books s'"
  using fixture_posting.books_step_ok unfolding fixture_posting.moves_def sound_books_def by blast

lemma sound_run: "list_all post_event_ok es \<Longrightarrow> sound_books s \<Longrightarrow> sound_books (post_run es s)"
proof (induction es arbitrary: s)
  case (Cons e es)
  then have "post_event_ok e" by simp
  then have "sound_books (post_exec e s)" by (rule sound_moves [OF post_exec_moves]) (rule Cons.prems(2))+
  with Cons show ?case by (simp add: post_run_def)
qed (simp add: post_run_def)

lemma post_from_sound: "post_from s \<Longrightarrow> sound_books s"
proof -
  assume "post_from s"
  then obtain pfx w es where "erp_from pfx w" "list_all post_event_ok es" "s = post_run es (new_post_flow w)"
    unfolding post_from_def by blast
  moreover have "sound_books (new_post_flow w)"
    using books_ok_new erp_from_ok [OF \<open>erp_from pfx w\<close>] by (simp add: sound_books_def) (simp add: new_post_flow_def)
  ultimately show ?thesis using sound_run by blast
qed

subsection \<open>Records never change but by cancellation\<close>

definition record_keeps :: "posted_state \<Rightarrow> posted_state \<Rightarrow> bool" where
  "record_keeps p p' = (p' = p \<or> p' = p\<lparr>ps_status := PD_CANCELLED\<rparr>)"

lemma record_keeps_trans: "record_keeps p q \<Longrightarrow> record_keeps q r \<Longrightarrow> record_keeps p r"
  by (auto simp: record_keeps_def)

definition books_keep :: "fixture_erp post_flow \<Rightarrow> fixture_erp post_flow \<Rightarrow> bool" where
  "books_keep s s' = ((\<forall>r p. dget (xf_posted s) r = Some p \<longrightarrow> (\<exists>p'. dget (xf_posted s') r = Some p' \<and> record_keeps p p'))
     \<and> (\<forall>i r. dget (xf_by_draft s) i = Some r \<longrightarrow> dget (xf_by_draft s') i = Some r))"

lemma books_keep_trans:
  assumes "books_keep s t" "books_keep t u" shows "books_keep s u"
  unfolding books_keep_def
proof (intro conjI allI impI)
  fix r p assume "dget (xf_posted s) r = Some p"
  then obtain p1 where "dget (xf_posted t) r = Some p1" and k: "record_keeps p p1"
    using assms(1) unfolding books_keep_def by blast
  then obtain p2 where "dget (xf_posted u) r = Some p2" "record_keeps p1 p2"
    using assms(2) unfolding books_keep_def by blast
  with record_keeps_trans [OF k] show "\<exists>p'. dget (xf_posted u) r = Some p' \<and> record_keeps p p'" by blast
next
  fix i r assume "dget (xf_by_draft s) i = Some r"
  then show "dget (xf_by_draft u) i = Some r" using assms unfolding books_keep_def by blast
qed

lemma moves_keep:
  assumes "fixture_posting.moves s s'" "sound_books s"
  shows "books_keep s s'"
proof -
  have st: "books_step fixture_official fixture_known s s'" and w: "fe_ok (xf_world s')"
    "ids_kept fixture_official fixture_known (xf_world s) (xf_world s')"
    using assms(1) by (simp_all add: fixture_posting.moves_def)
  have ok: "fe_ok (xf_world s)" "books_ok fixture_official fixture_known s" using assms(2) by (simp_all add: sound_books_def)
  from st show ?thesis
  proof cases
    case (enter i h r p pending')
    from fixture_posting.new_reference [OF ok(2) w ok(1) enter(2,3)] enter show ?thesis
      by (auto simp: books_keep_def books_def record_keeps_def)
  qed (auto simp: books_keep_def books_def record_keeps_def)
qed

lemma run_keep: "list_all post_event_ok es \<Longrightarrow> sound_books s \<Longrightarrow> books_keep s (post_run es s)"
proof (induction es arbitrary: s)
  case (Cons e es)
  then have m: "fixture_posting.moves s (post_exec e s)" using post_exec_moves by simp
  have "books_keep (post_exec e s) (post_run es (post_exec e s))"
    using Cons.IH [OF _ sound_moves [OF m Cons.prems(2)]] Cons.prems(1) by simp
  from books_keep_trans [OF moves_keep [OF m Cons.prems(2)] this] show ?case by (simp add: post_run_def)
qed (simp add: post_run_def books_keep_def record_keeps_def)

end
