(* ===== verification/PostClaims.thy ===== *)
theory PostClaims
  imports PostBooks
begin

text \<open>
  What the posting workflow guarantees over the fixture provider, together with the draft
  workflow that issues the previews: what reaches the provider was warranted, a posted record
  shows the preview, the classification of a pending post agrees with the provider, and posted
  records are final.
\<close>

section \<open>What a posted record shows\<close>

text \<open>All the fields of a record: the preview's own, the whole identity and policy of the
  snapshot, and the reference of the rendered document.\<close>

definition shows_preview :: "libs \<Rightarrow> posted_record \<Rightarrow> str \<Rightarrow> inv_preview \<Rightarrow> posted_snapshot \<Rightarrow> bool" where
  "shows_preview L q r pv n =
    (pi_official q = r \<and> pi_draft q = pv_draft pv \<and> pi_unit q = pv_unit pv \<and> pi_customer q = pv_customer pv
     \<and> pi_status q = PD_POSTED \<and> pi_total q = pv_total pv \<and> pi_currency q = pv_currency pv
     \<and> pi_template q = pv_template pv \<and> pi_logo q = pv_logo pv \<and> pi_version q = pv_version pv
     \<and> pi_issuer q = fi_issuer (sn_identity n) \<and> pi_tax q = fi_tax (sn_identity n)
     \<and> pi_series q = fi_series (sn_identity n) \<and> pi_ledger q = fi_ledger (sn_identity n)
     \<and> pi_account q = fi_account (sn_identity n) \<and> pi_policy q = sn_policy n \<and> pi_policy_version q = sn_version n
     \<and> pi_pdf q = render_pdf_reference L (pv_template pv) r n)"

text \<open>The record that stands under the reference \<open>r\<close> is that of the preview, with the
  identity of the policy that the resolver gives at \<open>at\<close>.\<close>

definition recorded_as :: "'w post_env \<Rightarrow> datetime \<Rightarrow> inv_preview \<Rightarrow> str \<Rightarrow> 'w post_flow \<Rightarrow> bool" where
  "recorded_as E at pv r s = (\<exists>q p n. get_posted_invoice r s = Inr q
     \<and> resolve_identity (xe_env E) (pv_unit pv) (pv_currency pv) at = Inr p \<and> posted_snapshot_of p = Inr n
     \<and> sn_identity n = rp_identity p \<and> sn_policy n = rp_ref p \<and> sn_version n = rp_version p
     \<and> shows_preview (dv_libs (xe_env E)) q r pv n)"

lemma snapshot_of_policy:
  assumes "posted_snapshot_of p = Inr n"
  shows "sn_identity n = rp_identity p \<and> sn_policy n = rp_ref p \<and> sn_version n = rp_version p"
  using assms by (auto simp: posted_snapshot_of_def mk_snapshot_def split: option.splits if_splits)

lemma frozen_shown:
  assumes "books s' = (dput r (frozen (dv_libs (xe_env E)) c pv r n) ps, ds, pend)"
    "\<exists>p. resolve_identity (xe_env E) (pv_unit pv) (pv_currency pv) (cl_at c) = Inr p \<and> posted_snapshot_of p = Inr n"
  shows "recorded_as E (cl_at c) pv r s'"
proof -
  have "\<exists>q. get_posted_invoice r s' = Inr q \<and> shows_preview (dv_libs (xe_env E)) q r pv n"
    using assms(1) by (simp add: get_posted_invoice_def posted_of_def books_def frozen_def shows_preview_def Let_def)
  with assms(2) snapshot_of_policy show ?thesis unfolding recorded_as_def by blast
qed

lemma post_from_parts:
  assumes "post_from s" shows "fe_ok (xf_world s)" "books_ok fixture_official fixture_known s"
  using post_from_sound [OF assms] by (simp_all add: sound_books_def)

lemma post_only_warranted:
  assumes "post_from s" "fixture_env E" "caller_ok c" "post_draft E D c pv s = (x, s')" "xf_world s' \<noteq> xf_world s"
  shows "post_cleared E D c pv s"
  by (cases rule: fixture_posting.post_effect [OF conjunct1 [OF assms(2) [unfolded fixture_env_def]] assms(3)
      post_from_parts [OF assms(1)] assms(4)]) (use assms(5) in \<open>auto simp: calm_def\<close>)

text \<open>What the command that is sent says.\<close>

lemma post_command_fields:
  "post_command c pv cfg p n = Inr cmd \<Longrightarrow>
    dc_customer cmd = pv_customer pv \<and> dc_identity cmd = rp_identity p \<and> dc_lines cmd = dn_lines n"
  by (auto simp: post_command_def bind_res_Inr)

lemma get_draft_lines:
  "get_draft i D = Inr n \<Longrightarrow> \<exists>d. dget (dw_drafts D) i = Some d \<and> dn_lines n = df_lines d"
  by (auto simp: get_draft_def bind_res_Inr)

lemma recomputed_customer:
  "recompute_preview_expectation F i at D = Inr pv \<Longrightarrow> dget (dw_drafts D) i = Some d \<Longrightarrow> pv_customer pv = df_customer d"
  by (auto simp: recompute_preview_expectation_def bind_res_Inr preview_of_def Let_def)

section \<open>Claims\<close>

text \<open>C3. Whatever reaches the provider through posting was warranted: if a post changes the
  provider's world, its caller holds, through an assignment in force, a role that may post for
  the preview's unit and is not the actor who opened the draft, the preview is the one that the
  draft workflow recomputes at that time under the settings version in force, and no post of
  the draft is pending or has succeeded.\<close>

theorem post_guarded:
  assumes "post_from s" "fixture_env E" "caller_ok c" "post_draft E D c pv s = (x, s')" "xf_world s' \<noteq> xf_world s"
  shows "(\<exists>a. post_warranted E D c pv a) \<and> dget (xf_pending s) (pv_draft pv) = None
    \<and> dget (xf_by_draft s) (pv_draft pv) = None"
  using post_only_warranted [OF assms] by (simp add: post_cleared_def)

text \<open>C4. A posted invoice is final: once a record stands under an official reference, it stands
  there for ever, whatever the workflow and the provider do, with every field as it was frozen
  except that its status may become cancelled; the draft keeps that reference; and no later
  post of the draft reaches the provider, whatever its preview.\<close>

theorem posted_final:
  assumes "post_from s" "dget (xf_posted s) r = Some p" "list_all post_event_ok es"
    "fixture_env E" "caller_ok c" "pv_draft pv = ps_draft p"
  shows "\<exists>p'. dget (xf_posted (post_run es s)) r = Some p' \<and> record_keeps p p'
    \<and> dget (xf_by_draft (post_run es s)) (ps_draft p) = Some r
    \<and> xf_world (snd (post_draft E D c pv (post_run es s))) = xf_world (post_run es s)"
proof -
  note ok = post_from_sound [OF assms(1)]
  note ok' = sound_run [OF assms(3) ok] and k = run_keep [OF assms(3) ok]
  have "recorded_ok fixture_official s r p" using ok books_okD(3) assms(2) by (auto simp: sound_books_def)
  then have i: "dget (xf_by_draft (post_run es s)) (ps_draft p) = Some r"
    using k by (auto simp: recorded_ok_def books_keep_def)
  obtain x s' where run: "post_draft E D c pv (post_run es s) = (x, s')" by fastforce
  have E: "xe_port E = fixture_port" using assms(4) by (simp add: fixture_env_def)
  have "xf_world s' = xf_world (post_run es s)"
    by (cases rule: fixture_posting.post_effect [OF E assms(5) _ _ run])
      (use ok' i assms(6) in \<open>auto simp: sound_books_def calm_def post_cleared_def\<close>)
  with k assms(2) i run show ?thesis by (auto simp: books_keep_def)
qed

text \<open>C7. A posted result is recorded as previewed: when a post answers posted, the provider has
  given the official reference to a document that did not exist before, and the record read
  under that reference is posted and shows the preview's draft, unit, customer, total, currency,
  template, logo and settings version; the issuer, tax, series, ledger and account and the
  policy reference and version are those of the policy that the resolver gave for its unit and
  currency at the time of the post; and the rendered document is that of the template, the
  reference and the frozen policy.\<close>

theorem posted_as_previewed:
  assumes "post_from s" "fixture_env E" "caller_ok c" "post_draft E D c pv s = (Inr q, s')" "xr_outcome q = O_POSTED"
  shows "\<exists>h r. xr_official q = Some r \<and> h \<notin> fixture_known (xf_world s) \<and> fixture_official (xf_world s') h = Some r
    \<and> recorded_as E (cl_at c) pv r s'"
proof (cases rule: fixture_posting.post_effect [OF conjunct1 [OF assms(2) [unfolded fixture_env_def]] assms(3)
    post_from_parts [OF assms(1)] assms(4)])
  case (4 h r n)
  from frozen_shown [OF 4(8,7)] 4 show ?thesis by (auto simp: posted_result_def)
qed (use assms(5) in auto)

text \<open>C6. Classifying a pending post agrees with the provider: a result comes only for a draft
  with a pending post. It is posted only if the provider has posted the pending document, and
  then the record under its reference shows the preview and nothing is pending any more; it is
  rejected only if the provider has not posted it, and then the draft is free to be posted
  again; an uncertain one leaves the books as they were.\<close>

theorem post_classified:
  assumes "post_from s" "fixture_env E" "caller_ok c" "reconcile_draft_post E D c pv s = (Inr q, s')"
  shows "\<exists>h. dget (xf_pending s) (pv_draft pv) = Some h \<and> (case xr_outcome q of
      O_POSTED \<Rightarrow> (\<exists>r. xr_official q = Some r \<and> fixture_posted (xf_world s) h = Some r
        \<and> fixture_official (xf_world s') h = Some r \<and> recorded_as E (cl_at c) pv r s'
        \<and> dget (xf_pending s') (pv_draft pv) = None)
    | O_REJECTED \<Rightarrow> fixture_posted (xf_world s) h = None
        \<and> dget (xf_pending s') (pv_draft pv) = None \<and> dget (xf_by_draft s') (pv_draft pv) = None
    | O_UNCERTAIN \<Rightarrow> books s' = books s)"
proof (cases rule: fixture_posting.reconcile_effect [OF conjunct1 [OF assms(2) [unfolded fixture_env_def]] assms(3)
    post_from_parts [OF assms(1)] assms(4)])
  case (3 h r n)
  from frozen_shown [OF 3(9,8)] 3 show ?thesis by (auto simp: posted_result_def books_def)
next
  case (4 h q')
  then show ?thesis using books_okD(1) [OF post_from_parts(2) [OF assms(1)] 4(2)] by (auto simp: books_def)
qed (auto split: posting_outcome.splits)

text \<open>C5. What is posted is what was previewed, across the two workflows: if the draft workflow
  issued a preview and, after any of its commands, a post of that preview changes the
  provider's world, then that change is one document being created, posted and, if rejected,
  cancelled; the command sent names the preview's customer, the identity of the policy that the
  resolver gives for the preview's unit and currency, and the lines the draft had when the
  preview was issued, unless two hashed texts, which are named, collide under SHA-256; and the
  poster is not the actor who drew it up.\<close>

theorem posted_lines_previewed:
  assumes "draft_events_ok es" "draft_events_ok es'" "caller_ok c"
    "preview_draft F c i n (draft_run es new_draft_flow) = (Inr pv, D1)"
    "dget (dw_drafts (draft_run es new_draft_flow)) i = Some d"
    "post_from s" "fixture_env E" "caller_ok c'" "dv_libs (xe_drafts E) = dv_libs F"
    "post_draft E (draft_run es' D1) c' pv s = (x, s')" "xf_world s' \<noteq> xf_world s"
  shows "cl_actor c' \<noteq> cl_actor c \<and> (\<exists>cmd p d'. xf_world s' = sent_post fixture_port cmd (xf_world s)
    \<and> dc_customer cmd = df_customer d \<and> dc_customer cmd = pv_customer pv
    \<and> resolve_identity (xe_env E) (pv_unit pv) (pv_currency pv) (cl_at c') = Inr p \<and> dc_identity cmd = rp_identity p
    \<and> dget (dw_drafts (draft_run es' D1)) i = Some d' \<and> dc_lines cmd = df_lines d'
    \<and> (mset (dc_lines cmd) = mset (df_lines d)
       \<or> hash_collision (dv_libs F) (preview_text F d (cl_at c)) (preview_text (xe_drafts E) d' (cl_at c'))))"
proof -
  have pv: "entitled c d" "pv_draft pv = i" using preview_of_draft [OF assms(1,3,4,5)] by blast+
  from post_only_warranted [OF assms(6,7,8,10,11)] pv(2) obtain d0
    where d0: "dget (dw_drafts (draft_run es' D1)) i = Some d0" "df_actor d0 \<noteq> cl_actor c'"
      and r: "recompute_preview_expectation (xe_drafts E) i (cl_at c') (draft_run es' D1) = Inr pv"
    by (auto simp: post_cleared_def post_warranted_def)
  from recomputed_same [OF assms(1,2,3,4,5) r assms(9)] d0(1) have same: "draft_evolves d d0"
    "mset (df_lines d) = mset (df_lines d0)
      \<or> hash_collision (dv_libs F) (preview_text F d (cl_at c)) (preview_text (xe_drafts E) d0 (cl_at c'))" by auto
  obtain cfg p n' cmd where cmd: "resolve_identity (xe_env E) (pv_unit pv) (pv_currency pv) (cl_at c') = Inr p"
    "get_draft (pv_draft pv) (draft_run es' D1) = Inr n'" "post_command c' pv cfg p n' = Inr cmd"
    "xf_world s' = sent_post (xe_port E) cmd (xf_world s)" using post_sends [OF assms(10,8,11)] .
  have f: "dc_customer cmd = pv_customer pv" "dc_identity cmd = rp_identity p" "dc_lines cmd = df_lines d0"
    using post_command_fields [OF cmd(3)] get_draft_lines [OF cmd(2)] pv(2) d0(1) by auto
  have cu: "pv_customer pv = df_customer d" using recomputed_customer [OF r d0(1)] draft_evolves_fixed(7) [OF same(1)] by simp
  have "xe_port E = fixture_port" using assms(7) by (simp add: fixture_env_def)
  with d0 same pv(1) draft_evolves_fixed(2) cmd(1,4) f cu show ?thesis by (auto simp: entitled_def)
qed

section \<open>A run to evaluate\<close>

definition demo_poster :: caller where
  "demo_poster = \<lparr>cl_actor = ''ACTOR-2'', cl_at = demo_time 99,
     cl_binding = Some \<lparr>ib_actor = ''ACTOR-2'', ib_channel = ''CHANNEL-1'', ib_active = True\<rparr>,
     cl_assignments = [(reader ''UNIT-AA'' ''FINANCE-POSTER'')\<lparr>as_actor := ''ACTOR-2'', as_ref := ''ASSIGNMENT-2''\<rparr>],
     cl_channel = ''CHANNEL-1''\<rparr>"

definition demo_post_env :: "fixture_erp post_env" where
  "demo_post_env = \<lparr>xe_env = demo_draft_env, xe_drafts = demo_draft_env, xe_port = fixture_port, xe_deliver = enqueue_delivery\<rparr>"

definition demo_command :: draft_invoice_command where
  "demo_command = \<lparr>dc_customer = ''CUST-1'', dc_identity = rp_identity demo_resolved, dc_lines = df_lines demo_own_draft,
     dc_issued = ''0001-01-01'', dc_due = ''0001-01-01''\<rparr>"

definition demo_lossy :: fixture_erp where
  "demo_lossy = erp_step (FailPost ''UNCERTAIN'') demo_fixture"

lemma demo_poster_ok: "caller_ok demo_poster" "cl_at demo_poster = demo_time 99" "fixture_env demo_post_env"
proof -
  show "caller_ok demo_poster" unfolding caller_ok_def by code_simp
qed (simp_all add: demo_poster_def demo_post_env_def fixture_env_def)

lemma demo_preview_fields: "pv_draft demo_preview = ''DFT-000001''" "pv_unit demo_preview = ''UNIT-AA''"
  "pv_customer demo_preview = ''CUST-1''" "pv_currency demo_preview = ''EUR''" "pv_version demo_preview = 1"
  using demo_draft_active
  by (simp_all add: demo_preview_def preview_of_def Let_def demo_own_draft_def unit_currency_def text_setting_def)

lemma demo_post_rights: "\<exists>u a. authorize_flow demo_poster (cl_channel demo_poster) ''INVOICE_POST'' (Some ''UNIT-AA'') None None = Inr u
    \<and> selected_assignment (cl_actor demo_poster) ''UNIT-AA'' (demo_time 99) (cl_assignments demo_poster) = Inr a"
proof -
  have "\<not> isl (authorize_flow demo_poster (cl_channel demo_poster) ''INVOICE_POST'' (Some ''UNIT-AA'') None None)"
    "\<not> isl (selected_assignment (cl_actor demo_poster) ''UNIT-AA'' (demo_time 99) (cl_assignments demo_poster))" by code_simp+
  then show ?thesis by (metis sum.collapse(2))
qed

lemma demo_gate:
  assumes "dget (dw_drafts D) ''DFT-000001'' = Some demo_own_draft"
  shows "\<exists>a. \<forall>s. post_gate demo_post_env D cmd demo_poster demo_preview s = (Inr (a, demo_active), s)"
proof -
  have d: "get_state ''DFT-000001'' D = Inr demo_own_draft" "df_unit demo_own_draft = ''UNIT-AA''" "df_actor demo_own_draft = ''ACTOR-1''"
    using assms by simp_all (simp_all add: demo_own_draft_def)
  then have "recompute_preview_expectation demo_draft_env ''DFT-000001'' (demo_time 99) D = Inr demo_preview"
    "get_draft_opener ''DFT-000001'' D = Inr ''ACTOR-1''"
    using demo_draft_active demo_draft_policy
    by (simp_all add: recompute_preview_expectation_def get_draft_opener_def bind_res_def unit_currency_def
        text_setting_def demo_preview_def del: get_state_Inr)
  moreover have "cl_actor demo_poster \<noteq> ''ACTOR-1''" by (simp add: demo_poster_def)
  moreover note demo_post_rights
  ultimately show ?thesis
    by (auto simp: post_gate_def post_authorize_def assert_not_self_post_def verify_preview_def protected_inj
        demo_preview_fields demo_poster_ok demo_post_env_def demo_draft_active guard_def seq_def pure_def ret_def)
qed

lemma demo_post_command:
  assumes "dget (dw_drafts D) ''DFT-000001'' = Some demo_own_draft"
  shows "bind_res (get_draft ''DFT-000001'' D) (post_command demo_poster demo_preview demo_active demo_resolved) = Inr demo_command"
proof -
  have "due_text (demo_time 99) 0 = Inr ''0001-01-01''" "date_text (date_of_ordinal (local_ordinal (demo_time 99))) = ''0001-01-01''"
    by code_simp+
  moreover have "get_state ''DFT-000001'' D = Inr demo_own_draft" using assms by simp
  ultimately show ?thesis using demo_draft_active(3)
    by (simp del: get_state_Inr add: get_draft_def bind_res_def post_command_def payment_terms_def demo_poster_ok demo_preview_fields demo_command_def)
qed


text \<open>The provider's answers: the document is created, and posted or left uncertain.\<close>

definition demo_created :: "fixture_erp \<Rightarrow> fixture_erp" where
  "demo_created w = snd (create_draft_invoice demo_command w)"

definition demo_answered :: "fixture_erp \<Rightarrow> fixture_erp" where
  "demo_answered w = snd (post_invoice ''DRAFT-000001'' (demo_created w))"

lemma demo_creates:
  "create_draft_invoice demo_command demo_fixture = (Inr ''DRAFT-000001'', demo_created demo_fixture)"
  "create_draft_invoice demo_command demo_lossy = (Inr ''DRAFT-000001'', demo_created demo_lossy)"
proof -
  have "fst (create_draft_invoice demo_command demo_fixture) = Inr ''DRAFT-000001''"
    "fst (create_draft_invoice demo_command demo_lossy) = Inr ''DRAFT-000001''" by code_simp+
  then show "create_draft_invoice demo_command demo_fixture = (Inr ''DRAFT-000001'', demo_created demo_fixture)"
    "create_draft_invoice demo_command demo_lossy = (Inr ''DRAFT-000001'', demo_created demo_lossy)"
    unfolding demo_created_def by (metis prod.collapse)+
qed

lemma demo_posts:
  "post_invoice ''DRAFT-000001'' (demo_created demo_fixture) = (Inr (posting O_POSTED (Some ''INV-000001'') None), demo_answered demo_fixture)"
  "post_invoice ''DRAFT-000001'' (demo_created demo_lossy) = (Inr (posting O_UNCERTAIN None (Some ''outcome unknown'')), demo_answered demo_lossy)"
proof -
  have "fst (post_invoice ''DRAFT-000001'' (demo_created demo_fixture)) = Inr (posting O_POSTED (Some ''INV-000001'') None)"
    "fst (post_invoice ''DRAFT-000001'' (demo_created demo_lossy)) = Inr (posting O_UNCERTAIN None (Some ''outcome unknown''))" by code_simp+
  then show "post_invoice ''DRAFT-000001'' (demo_created demo_fixture) = (Inr (posting O_POSTED (Some ''INV-000001'') None), demo_answered demo_fixture)"
    "post_invoice ''DRAFT-000001'' (demo_created demo_lossy) = (Inr (posting O_UNCERTAIN None (Some ''outcome unknown'')), demo_answered demo_lossy)"
    unfolding demo_answered_def by (metis prod.collapse)+
qed

lemma demo_reads_back: "fst (reconcile_post ''DRAFT-000001'' (demo_answered demo_lossy)) = Inr (posting O_POSTED (Some ''INV-000001'') None)"
  by code_simp

lemma demo_snapshot: "\<exists>n. posted_snapshot_of demo_resolved = Inr n"
proof -
  have "\<not> isl (posted_snapshot_of demo_resolved)" by code_simp
  then show ?thesis by (metis sum.collapse(2))
qed

lemma demo_world_grows: "demo_answered demo_fixture \<noteq> demo_fixture"
proof -
  have "fe_seq (demo_answered demo_fixture) \<noteq> fe_seq demo_fixture" by code_simp
  then show ?thesis by auto
qed

lemma demo_post_start:
  assumes "dget (dw_drafts D) ''DFT-000001'' = Some demo_own_draft"
    "create_draft_invoice demo_command w = (Inr h, w')"
  shows "\<exists>a. post_draft demo_post_env D demo_poster demo_preview (new_post_flow w)
    = seq (attempt_post demo_post_env demo_poster demo_preview h a)
        (\<lambda>x. case x of Inr r \<Rightarrow> ret r | Inl res \<Rightarrow> after_post demo_post_env demo_poster demo_preview demo_resolved h a res)
        ((new_post_flow w)\<lparr>xf_world := w'\<rparr>)"
proof -
  obtain a where g: "\<And>s. post_gate demo_post_env D ''post'' demo_poster demo_preview s = (Inr (a, demo_active), s)"
    using demo_gate [OF assms(1)] by blast
  have u: "check_unposted demo_post_env demo_poster ''DFT-000001'' (new_post_flow w) = (Inr (), new_post_flow w)"
    by (simp add: check_unposted_def look_def guard_def seq_def ret_def new_post_flow_def)
  have p: "resolve_identity (xe_env demo_post_env) ''UNIT-AA'' ''EUR'' (demo_time 99) = Inr demo_resolved"
    using demo_draft_policy by (simp add: demo_post_env_def)
  have c: "create_handle demo_post_env demo_poster demo_preview demo_command (new_post_flow w) = (Inr h, (new_post_flow w)\<lparr>xf_world := w'\<rparr>)"
    using assms(2) by (simp add: create_handle_def handle_def port_call_def demo_post_env_def fixture_port_def new_post_flow_def)
  show ?thesis
    by (rule exI [of _ a]) (simp add: post_draft_def seq_def [of "post_gate _ _ _ _ _"] seq_def [of "check_unposted _ _ _"]
        seq_def [of "pure _"] seq_def [of "create_handle _ _ _ _"] g u p c pure_def demo_preview_fields demo_poster_ok
        demo_post_command [OF assms(1)])
qed

lemma demo_post_run:
  assumes "dget (dw_drafts D) ''DFT-000001'' = Some demo_own_draft"
  shows "\<exists>s1. post_draft demo_post_env D demo_poster demo_preview (new_post_flow demo_fixture)
      = (Inr (posted_result ''INV-000001''), s1) \<and> xf_world s1 = demo_answered demo_fixture
      \<and> dget (xf_by_draft s1) ''DFT-000001'' = Some ''INV-000001''"
proof -
  obtain n where "posted_snapshot_of demo_resolved = Inr n" using demo_snapshot by blast
  moreover have "port_post (xe_port demo_post_env) = post_invoice" by (simp add: demo_post_env_def fixture_port_def)
  ultimately show ?thesis using demo_post_start [OF assms demo_creates(1)] demo_posts(1)
    by (auto simp: attempt_post_def handle_def port_call_def seq_def ret_def after_post_def posting_def freeze_def pure_def
        upd_def demo_preview_fields)
qed

lemma demo_post_lost:
  assumes "dget (dw_drafts D) ''DFT-000001'' = Some demo_own_draft"
  shows "\<exists>q s1. post_draft demo_post_env D demo_poster demo_preview (new_post_flow demo_lossy) = (Inr q, s1)
      \<and> xf_world s1 = demo_answered demo_lossy \<and> xf_pending s1 = [(''DFT-000001'', ''DRAFT-000001'')]"
proof -
  have "port_post (xe_port demo_post_env) = post_invoice" by (simp add: demo_post_env_def fixture_port_def)
  then show ?thesis using demo_post_start [OF assms demo_creates(2)] demo_posts(2)
    by (auto simp: attempt_post_def handle_def port_call_def seq_def ret_def after_post_def posting_def
        demo_preview_fields new_post_flow_def)
qed


lemma demo_reconcile_run:
  assumes "dget (dw_drafts D) ''DFT-000001'' = Some demo_own_draft" "xf_world s = demo_answered demo_lossy"
    "xf_pending s = [(''DFT-000001'', ''DRAFT-000001'')]"
  shows "\<exists>s1. reconcile_draft_post demo_post_env D demo_poster demo_preview s = (Inr (posted_result ''INV-000001''), s1)"
proof -
  obtain a where g: "\<And>s. post_gate demo_post_env D ''reconcile_post'' demo_poster demo_preview s = (Inr (a, demo_active), s)"
    using demo_gate [OF assms(1)] by blast
  obtain n where n: "posted_snapshot_of demo_resolved = Inr n" using demo_snapshot by blast
  obtain w where "reconcile_post ''DRAFT-000001'' (demo_answered demo_lossy) = (Inr (posting O_POSTED (Some ''INV-000001'') None), w)"
    using demo_reads_back by (metis prod.collapse)
  then have "port_reconcile_post (xe_port demo_post_env) ''DRAFT-000001'' (xf_world s) = (Inr (posting O_POSTED (Some ''INV-000001'') None), w)"
    using assms(2) by (simp add: demo_post_env_def fixture_port_def)
  moreover have "resolve_identity (xe_env demo_post_env) ''UNIT-AA'' ''EUR'' (demo_time 99) = Inr demo_resolved"
    using demo_draft_policy by (simp add: demo_post_env_def)
  ultimately show ?thesis using g n assms(3)
    by (simp add: reconcile_draft_post_def seq_def look_def read_back_post_def handle_def port_call_def ret_def
        after_read_back_def posting_def pure_def freeze_def upd_def drop_pending_def demo_preview_fields demo_poster_ok)
qed

lemma demo_post_from: "post_from (new_post_flow demo_fixture)" "post_from (new_post_flow demo_lossy)"
proof -
  have "demo_lossy = erp_run [FailPost ''UNCERTAIN''] demo_fixture" by (simp add: demo_lossy_def erp_run_def)
  then have "erp_from ''INV'' demo_lossy" using erp_from_run [OF demo_from(1), of "[FailPost ''UNCERTAIN'']"] by (simp only:)
  moreover have "post_from (new_post_flow w)" if "erp_from ''INV'' w" for w
    unfolding post_from_def using that by (intro exI [of _ "''INV''"] exI [of _ w] exI [of _ "[]"]) (simp add: post_run_def)
  ultimately show "post_from (new_post_flow demo_fixture)" "post_from (new_post_flow demo_lossy)" using demo_from(1) by blast+
qed

lemma post_from_post:
  assumes "post_from s" "post_draft demo_post_env D demo_poster pv s = (x, s')"
  shows "post_from s'"
proof -
  obtain pfx w es where "erp_from pfx w" "list_all post_event_ok es" "s = post_run es (new_post_flow w)"
    using assms(1) unfolding post_from_def by blast
  then show ?thesis unfolding post_from_def
    by (intro exI [of _ pfx] exI [of _ w] exI [of _ "es @ [XPost demo_post_env D demo_poster pv]"])
      (use assms(2) demo_poster_ok in \<open>simp add: post_run_def\<close>)
qed

section \<open>Witnesses\<close>

theorem post_guarded_witness:
  "\<exists>s1. post_draft demo_post_env demo_drafted demo_poster demo_preview (new_post_flow demo_fixture)
      = (Inr (posted_result ''INV-000001''), s1)
    \<and> (\<exists>a. post_warranted demo_post_env demo_drafted demo_poster demo_preview a)"
proof -
  obtain s1 where r: "post_draft demo_post_env demo_drafted demo_poster demo_preview (new_post_flow demo_fixture)
      = (Inr (posted_result ''INV-000001''), s1)" "xf_world s1 = demo_answered demo_fixture"
    using demo_post_run [OF demo_drafted_eq] by blast
  then have "xf_world s1 \<noteq> xf_world (new_post_flow demo_fixture)" using demo_world_grows by (simp add: new_post_flow_def)
  from post_guarded [OF demo_post_from(1) demo_poster_ok(3,1) r(1) this] r(1) show ?thesis by blast
qed

theorem posted_final_witness:
  "\<exists>p p' s1. dget (xf_posted s1) ''INV-000001'' = Some p \<and> ps_draft p = ''DFT-000001''
    \<and> dget (xf_posted (post_run [XElsewhere (Cancel ''INV-000001'')] s1)) ''INV-000001'' = Some p' \<and> record_keeps p p'"
proof -
  obtain s1 where r: "post_draft demo_post_env demo_drafted demo_poster demo_preview (new_post_flow demo_fixture)
      = (Inr (posted_result ''INV-000001''), s1)" "dget (xf_by_draft s1) ''DFT-000001'' = Some ''INV-000001''"
    using demo_post_run [OF demo_drafted_eq] by blast
  note from_s1 = post_from_post [OF demo_post_from(1) r(1)]
  obtain p where p: "dget (xf_posted s1) ''INV-000001'' = Some p" "ps_draft p = ''DFT-000001''"
    using books_okD(4) [OF post_from_parts(2) [OF from_s1] r(2)] by blast
  have "list_all post_event_ok [XElsewhere (Cancel ''INV-000001'')]" by simp
  from posted_final [OF from_s1 p(1) this demo_poster_ok(3,1), of demo_preview demo_drafted] p(2) demo_preview_fields(1)
  have "\<exists>p'. dget (xf_posted (post_run [XElsewhere (Cancel ''INV-000001'')] s1)) ''INV-000001'' = Some p' \<and> record_keeps p p'"
    by auto
  with p show ?thesis by blast
qed

theorem posted_as_previewed_witness:
  "\<exists>s1. post_draft demo_post_env demo_drafted demo_poster demo_preview (new_post_flow demo_fixture)
      = (Inr (posted_result ''INV-000001''), s1)
    \<and> recorded_as demo_post_env (demo_time 99) demo_preview ''INV-000001'' s1"
proof -
  obtain s1 where r: "post_draft demo_post_env demo_drafted demo_poster demo_preview (new_post_flow demo_fixture)
      = (Inr (posted_result ''INV-000001''), s1)"
    using demo_post_run [OF demo_drafted_eq] by blast
  from posted_as_previewed [OF demo_post_from(1) demo_poster_ok(3,1) this] show ?thesis
    using r by (auto simp: posted_result_def demo_poster_ok)
qed

theorem post_classified_witness:
  "\<exists>s s1. xf_pending s = [(''DFT-000001'', ''DRAFT-000001'')]
    \<and> reconcile_draft_post demo_post_env demo_drafted demo_poster demo_preview s = (Inr (posted_result ''INV-000001''), s1)
    \<and> fixture_posted (xf_world s) ''DRAFT-000001'' = Some ''INV-000001'' \<and> dget (xf_pending s1) ''DFT-000001'' = None"
proof -
  obtain q s where s: "post_draft demo_post_env demo_drafted demo_poster demo_preview (new_post_flow demo_lossy) = (Inr q, s)"
    "xf_world s = demo_answered demo_lossy" "xf_pending s = [(''DFT-000001'', ''DRAFT-000001'')]"
    using demo_post_lost [OF demo_drafted_eq] by blast
  obtain s1 where r: "reconcile_draft_post demo_post_env demo_drafted demo_poster demo_preview s
      = (Inr (posted_result ''INV-000001''), s1)"
    using demo_reconcile_run [OF demo_drafted_eq s(2,3)] by blast
  from post_classified [OF post_from_post [OF demo_post_from(2) s(1)] demo_poster_ok(3,1) r] s r show ?thesis
    by (auto simp: demo_preview_fields posted_result_def)
qed

theorem posted_lines_previewed_witness:
  "\<exists>D1 x s1 cmd. preview_draft demo_draft_env demo_opener ''DFT-000001'' None demo_drafted = (Inr demo_preview, D1)
    \<and> post_draft demo_post_env D1 demo_poster demo_preview (new_post_flow demo_fixture) = (x, s1)
    \<and> xf_world s1 \<noteq> demo_fixture \<and> cl_actor demo_poster \<noteq> cl_actor demo_opener
    \<and> xf_world s1 = sent_post fixture_port cmd demo_fixture \<and> dc_customer cmd = ''CUST-1''
    \<and> dc_identity cmd = rp_identity demo_resolved \<and> dc_lines cmd = df_lines demo_own_draft"
proof -
  obtain D1 where D: "preview_draft demo_draft_env demo_opener ''DFT-000001'' None demo_drafted = (Inr demo_preview, D1)"
    "dget (dw_drafts D1) ''DFT-000001'' = Some demo_own_draft" using demo_previewed by blast
  obtain s1 where r: "post_draft demo_post_env D1 demo_poster demo_preview (new_post_flow demo_fixture)
      = (Inr (posted_result ''INV-000001''), s1)" "xf_world s1 = demo_answered demo_fixture"
    using demo_post_run [OF D(2)] by blast
  have run: "draft_run [] D1 = D1" by (simp add: draft_run_def)
  have w: "xf_world s1 \<noteq> xf_world (new_post_flow demo_fixture)" using demo_world_grows r(2) by (simp add: new_post_flow_def)
  have E: "xe_env demo_post_env = demo_draft_env" "dv_libs (xe_drafts demo_post_env) = dv_libs demo_draft_env"
    by (simp_all add: demo_post_env_def)
  from posted_lines_previewed [OF demo_events_ok(2,3) demo_opener_ok D(1) [unfolded demo_drafted_def]
      demo_drafted_eq [unfolded demo_drafted_def] demo_post_from(1) demo_poster_ok(3,1) E(2) _ w] r(1) run D(2)
  obtain cmd p where "cl_actor demo_poster \<noteq> cl_actor demo_opener" "xf_world s1 = sent_post fixture_port cmd demo_fixture"
    "dc_customer cmd = pv_customer demo_preview" "dc_identity cmd = rp_identity p" "dc_lines cmd = df_lines demo_own_draft"
    "resolve_identity (xe_env demo_post_env) ''UNIT-AA'' ''EUR'' (cl_at demo_poster) = Inr p"
    by (auto simp: new_post_flow_def demo_preview_fields)
  moreover from this(6) have "p = demo_resolved" using demo_draft_policy E(1) by (simp add: demo_poster_ok)
  ultimately show ?thesis using D(1) r(1) w demo_preview_fields(3) by (auto simp: new_post_flow_def)
qed

end
