(* ===== verification/CsvReader.thy ===== *)
theory CsvReader
  imports Values
begin

text \<open>
  The reader of Python's \<^verbatim>\<open>csv\<close> module with its default dialect (comma, double quote,
  doubled quotes, not strict; NUL is an ordinary character, as from Python 3.11), as \<^verbatim>\<open>list(csv.reader(io.StringIO(text)))\<close> uses it: an
  automaton over the characters of a line, fed with the lines of the text. Its fields are
  bounded, and it reads back every table that is written with quoted cells.
\<close>

section \<open>The automaton\<close>

datatype csv_state = START_RECORD | START_FIELD | IN_FIELD | IN_QUOTED_FIELD | QUOTE_IN_QUOTED_FIELD | EAT_CRNL

record csv_reader =
  rd_state :: csv_state
  rd_text :: str
  rd_fields :: "str list"

abbreviation LF :: char where "LF \<equiv> CHR 0x0A"
abbreviation CR :: char where "CR \<equiv> CHR 0x0D"
abbreviation DQ :: char where "DQ \<equiv> CHR 0x22"

definition csv_fresh :: csv_reader where
  "csv_fresh = \<lparr>rd_state = START_RECORD, rd_text = [], rd_fields = []\<rparr>"

text \<open>\<^verbatim>\<open>csv.field_size_limit()\<close>.\<close>

definition field_limit :: int where "field_limit = 131072"

definition save_field :: "csv_state \<Rightarrow> csv_reader \<Rightarrow> csv_reader" where
  "save_field st r = \<lparr>rd_state = st, rd_text = [], rd_fields = rd_fields r @ [rd_text r]\<rparr>"

definition add_char :: "csv_state \<Rightarrow> char \<Rightarrow> csv_reader \<Rightarrow> csv_reader res" where
  "add_char st c r =
    (if field_limit \<le> int (length (rd_text r)) then Inl CsvError
     else Inr (r\<lparr>rd_state := st, rd_text := rd_text r @ [c]\<rparr>))"

text \<open>The reader sees the characters of a line and then its end, \<^term>\<open>None\<close>. Line breaks in
  the line itself lead to \<^term>\<open>EAT_CRNL\<close>.\<close>

fun ends_record :: "char option \<Rightarrow> bool" where
  "ends_record None = True"
| "ends_record (Some c) = (c = LF \<or> c = CR)"

definition end_record :: "char option \<Rightarrow> csv_reader \<Rightarrow> csv_reader" where
  "end_record c r = save_field (if c = None then START_RECORD else EAT_CRNL) r"

definition start_field :: "char option \<Rightarrow> csv_reader \<Rightarrow> csv_reader res" where
  "start_field c r =
    (if ends_record c then Inr (end_record c r)
     else if c = Some DQ then Inr (r\<lparr>rd_state := IN_QUOTED_FIELD\<rparr>)
     else if c = Some CHR '','' then Inr (save_field START_FIELD r)
     else add_char IN_FIELD (the c) r)"

definition csv_char :: "char option \<Rightarrow> csv_reader \<Rightarrow> csv_reader res" where
  "csv_char c r =
    (case rd_state r of
       START_RECORD \<Rightarrow>
         if c = None then Inr r
         else if ends_record c then Inr (r\<lparr>rd_state := EAT_CRNL\<rparr>)
         else start_field c r
     | START_FIELD \<Rightarrow> start_field c r
     | IN_FIELD \<Rightarrow>
         if ends_record c then Inr (end_record c r)
         else if c = Some CHR '','' then Inr (save_field START_FIELD r)
         else add_char IN_FIELD (the c) r
     | IN_QUOTED_FIELD \<Rightarrow>
         (case c of None \<Rightarrow> Inr r
          | Some x \<Rightarrow> if x = DQ then Inr (r\<lparr>rd_state := QUOTE_IN_QUOTED_FIELD\<rparr>) else add_char IN_QUOTED_FIELD x r)
     | QUOTE_IN_QUOTED_FIELD \<Rightarrow>
         if c = Some DQ then add_char IN_QUOTED_FIELD DQ r
         else if c = Some CHR '','' then Inr (save_field START_FIELD r)
         else if ends_record c then Inr (end_record c r)
         else add_char IN_FIELD (the c) r
     | EAT_CRNL \<Rightarrow>
         if c = None then Inr (r\<lparr>rd_state := START_RECORD\<rparr>)
         else if ends_record c then Inr r
         else Inl CsvError)"

section \<open>Lines and records\<close>

text \<open>Iterating over \<^verbatim>\<open>io.StringIO(text)\<close>: the lines with their line feed.\<close>

fun text_lines :: "str \<Rightarrow> str list" where
  "text_lines [] = []"
| "text_lines (c # cs) =
    (if c = LF then [c] # text_lines cs
     else (case text_lines cs of [] \<Rightarrow> [[c]] | l # ls \<Rightarrow> (c # l) # ls))"

fun csv_line :: "str \<Rightarrow> csv_reader \<Rightarrow> csv_reader res" where
  "csv_line [] r = csv_char None r"
| "csv_line (c # cs) r = bind_res (csv_char (Some c) r) (csv_line cs)"

text \<open>A record ends with a line that leaves the automaton in its start state; at the end of
  the text an open quoted field is saved as it is.\<close>

fun csv_records :: "str list \<Rightarrow> csv_reader \<Rightarrow> str list list res" where
  "csv_records [] r =
    (if rd_text r \<noteq> [] \<or> rd_state r = IN_QUOTED_FIELD then Inr [rd_fields r @ [rd_text r]] else Inr [])"
| "csv_records (l # ls) r = bind_res (csv_line l r) (\<lambda>r'.
    if rd_state r' = START_RECORD
    then bind_res (csv_records ls csv_fresh) (\<lambda>rows. Inr (rd_fields r' # rows))
    else csv_records ls r')"

definition read_csv :: "str \<Rightarrow> str list list res" where
  "read_csv text = csv_records (text_lines text) csv_fresh"

section \<open>Bounds\<close>

text \<open>Fields stay below the limit, and all together no longer than what was read.\<close>

definition rd_ok :: "csv_reader \<Rightarrow> bool" where
  "rd_ok r = (\<forall>f \<in> set (rd_text r # rd_fields r). int (length f) \<le> field_limit)"

definition rd_weight :: "csv_reader \<Rightarrow> nat" where
  "rd_weight r = length (rd_text r) + length (concat (rd_fields r))"

lemma csv_fresh_ok [simp]: "rd_ok csv_fresh" "rd_weight csv_fresh = 0" "rd_state csv_fresh = START_RECORD"
  "rd_fields csv_fresh = []" "rd_text csv_fresh = []"
  by (simp_all add: rd_ok_def rd_weight_def csv_fresh_def field_limit_def)

lemma save_field_ok [simp]: "rd_ok (save_field st r) = rd_ok r" "rd_weight (save_field st r) = rd_weight r"
  by (auto simp: rd_ok_def rd_weight_def save_field_def field_limit_def)

lemma rd_state_irrelevant [simp]: "rd_ok (r\<lparr>rd_state := st\<rparr>) = rd_ok r" "rd_weight (r\<lparr>rd_state := st\<rparr>) = rd_weight r"
  by (simp_all add: rd_ok_def rd_weight_def)

lemma add_char_ok: "add_char st c r = Inr r' \<Longrightarrow> rd_ok r \<Longrightarrow> rd_ok r' \<and> rd_weight r' = Suc (rd_weight r)"
  by (auto simp: add_char_def rd_ok_def rd_weight_def split: if_splits)

lemma end_record_ok [simp]: "rd_ok (end_record c r) = rd_ok r" "rd_weight (end_record c r) = rd_weight r"
  by (simp_all add: end_record_def)

lemma start_field_ok:
  assumes "start_field c r = Inr r'" "rd_ok r"
  shows "rd_ok r' \<and> rd_weight r' \<le> rd_weight r + (if c = None then 0 else 1)"
  using assms by (auto simp: start_field_def split: if_splits dest: add_char_ok)

lemma csv_char_ok:
  assumes "csv_char c r = Inr r'" "rd_ok r"
  shows "rd_ok r' \<and> rd_weight r' \<le> rd_weight r + (if c = None then 0 else 1)"
  using assms unfolding csv_char_def
  by (auto split: csv_state.splits if_splits option.splits dest: add_char_ok start_field_ok)

lemma csv_line_ok:
  "csv_line l r = Inr r' \<Longrightarrow> rd_ok r \<Longrightarrow> rd_ok r' \<and> rd_weight r' \<le> rd_weight r + length l"
proof (induction l arbitrary: r)
  case Nil
  then show ?case using csv_char_ok [of None r r'] by simp
next
  case (Cons c cs)
  then obtain r1 where 1: "csv_char (Some c) r = Inr r1" "csv_line cs r1 = Inr r'" by (auto simp: bind_res_Inr)
  from csv_char_ok [OF 1(1) Cons.prems(2)] Cons.IH [OF 1(2)] show ?case by simp
qed

definition cells_bounded :: "str list list \<Rightarrow> bool" where
  "cells_bounded rows = (\<forall>row \<in> set rows. \<forall>f \<in> set row. int (length f) \<le> field_limit)"

definition table_size :: "str list list \<Rightarrow> nat" where
  "table_size rows = length (concat (concat rows))"

lemma csv_records_ok:
  "csv_records ls r = Inr rows \<Longrightarrow> rd_ok r \<Longrightarrow>
    cells_bounded rows \<and> table_size rows \<le> rd_weight r + length (concat ls)"
proof (induction ls arbitrary: r rows)
  case Nil
  then show ?case by (auto simp: cells_bounded_def table_size_def rd_ok_def rd_weight_def split: if_splits)
next
  case (Cons l ls)
  then obtain r1 where 1: "csv_line l r = Inr r1" by (auto simp: bind_res_Inr)
  note ok = csv_line_ok [OF 1 Cons.prems(2)]
  show ?case
  proof (cases "rd_state r1 = START_RECORD")
    case True
    with Cons.prems(1) 1 obtain rows' where rows: "csv_records ls csv_fresh = Inr rows'" "rows = rd_fields r1 # rows'"
      by (auto simp: bind_res_Inr)
    from Cons.IH [OF rows(1)] rows(2) ok show ?thesis
      by (auto simp: cells_bounded_def table_size_def rd_ok_def rd_weight_def)
  next
    case False
    with Cons.prems(1) 1 have "csv_records ls r1 = Inr rows" by simp
    from Cons.IH [OF this] ok show ?thesis by auto
  qed
qed

lemma concat_text_lines [simp]: "concat (text_lines t) = t"
  by (induction t) (auto split: list.splits)

lemma read_csv_ok: "read_csv text = Inr rows \<Longrightarrow> cells_bounded rows \<and> table_size rows \<le> length text"
  using csv_records_ok [of "text_lines text" csv_fresh rows] by (simp add: read_csv_def)


section \<open>Written tables are read back\<close>

text \<open>The same reader by characters: \<open>scan_end\<close> is the end of a line, and the flag says
  whether the text so far ends inside one.\<close>

definition scan_end :: "(csv_reader \<Rightarrow> str list list res) \<Rightarrow> csv_reader \<Rightarrow> str list list res" where
  "scan_end k r = bind_res (csv_char None r) (\<lambda>r'.
    if rd_state r' = START_RECORD then bind_res (k csv_fresh) (\<lambda>rows. Inr (rd_fields r' # rows)) else k r')"

fun csv_scan :: "str \<Rightarrow> bool \<Rightarrow> csv_reader \<Rightarrow> str list list res" where
  "csv_scan [] b r = (if b then scan_end (csv_records []) r else csv_records [] r)"
| "csv_scan (c # cs) b r = bind_res (csv_char (Some c) r)
    (\<lambda>r'. if c = LF then scan_end (csv_scan cs False) r' else csv_scan cs True r')"

lemma bind_res_assoc: "bind_res (bind_res r f) g = bind_res r (\<lambda>x. bind_res (f x) g)"
  by (cases r) simp_all

lemma csv_scan_lines:
  "csv_scan t False r = csv_records (text_lines t) r"
  "csv_scan t True r = (case text_lines t of [] \<Rightarrow> scan_end (csv_records []) r | l # ls \<Rightarrow> csv_records (l # ls) r)"
proof (induction t arbitrary: r)
  case (Cons c cs)
  have B: "csv_scan cs False = csv_records (text_lines cs)" using Cons.IH(1) by blast
  have line: "bind_res (csv_char (Some c) r) (\<lambda>r'. if c = LF then scan_end (csv_scan cs False) r' else csv_scan cs True r')
      = csv_records (text_lines (c # cs)) r" for r
  proof (cases "c = LF")
    case True
    then show ?thesis by (simp add: B scan_end_def bind_res_assoc)
  next
    case False
    then show ?thesis
      by (cases "text_lines cs") (simp_all add: Cons.IH(2) scan_end_def bind_res_assoc)
  qed
  {
    case 1
    from line show ?case by (simp only: csv_scan.simps)
  next
    case 2
    have "text_lines (c # cs) \<noteq> []" by (simp split: list.split)
    then obtain l ls where "text_lines (c # cs) = l # ls" by (meson neq_Nil_conv)
    with line show ?case by (simp only: csv_scan.simps list.case)
  }
qed simp_all

definition quoted_char :: "char \<Rightarrow> str" where
  "quoted_char c = (if c = DQ then [DQ, DQ] else [c])"

definition write_cell :: "str \<Rightarrow> str" where
  "write_cell s = DQ # concat (map quoted_char s) @ [DQ]"

fun write_cells :: "str list \<Rightarrow> str" where
  "write_cells [] = []"
| "write_cells [s] = write_cell s @ [CR, LF]"
| "write_cells (s # ss) = write_cell s @ CHR '','' # write_cells ss"

definition write_table :: "str list list \<Rightarrow> str" where
  "write_table rows = concat (map write_cells rows)"

lemma scan_flag: "t \<noteq> [] \<Longrightarrow> csv_scan t b r = csv_scan t True r"
  by (cases t) simp_all

lemma scan_quoted:
  assumes "int (length (u @ s)) \<le> field_limit" "rest \<noteq> []"
  shows "csv_scan (concat (map quoted_char s) @ DQ # rest) b \<lparr>rd_state = IN_QUOTED_FIELD, rd_text = u, rd_fields = fs\<rparr>
    = csv_scan rest True \<lparr>rd_state = QUOTE_IN_QUOTED_FIELD, rd_text = u @ s, rd_fields = fs\<rparr>"
  using assms(1)
proof (induction s arbitrary: u b)
  case Nil
  then show ?case by (simp add: csv_char_def)
next
  case (Cons c s)
  then have room: "\<not> field_limit \<le> int (length u)" by simp
  from Cons have IH: "csv_scan (concat (map quoted_char s) @ DQ # rest) b' \<lparr>rd_state = IN_QUOTED_FIELD, rd_text = u @ [c], rd_fields = fs\<rparr>
    = csv_scan rest True \<lparr>rd_state = QUOTE_IN_QUOTED_FIELD, rd_text = u @ c # s, rd_fields = fs\<rparr>" for b'
    by simp
  show ?case
  proof (cases "c = LF \<or> c = DQ")
    case True
    then show ?thesis using room IH by (auto simp: quoted_char_def [of LF] quoted_char_def [of DQ] csv_char_def add_char_def scan_end_def)
  next
    case False
    then show ?thesis using room IH by (simp add: quoted_char_def [of c] csv_char_def add_char_def)
  qed
qed

lemma scan_cells:
  assumes "ss \<noteq> []" "\<And>s. s \<in> set ss \<Longrightarrow> int (length s) \<le> field_limit" "st \<in> {START_RECORD, START_FIELD}"
  shows "csv_scan (write_cells ss @ rest) b \<lparr>rd_state = st, rd_text = [], rd_fields = fs\<rparr>
    = bind_res (csv_scan rest False csv_fresh) (\<lambda>rows. Inr ((fs @ ss) # rows))"
  using assms
proof (induction ss arbitrary: fs st b rule: write_cells.induct)
  case (2 s)
  then show ?case
    by (auto simp: write_cell_def csv_char_def start_field_def scan_quoted end_record_def save_field_def scan_end_def)
next
  case (3 s s' ss)
  have "csv_scan (write_cells (s' # ss) @ rest) b' \<lparr>rd_state = START_FIELD, rd_text = [], rd_fields = fs @ [s]\<rparr>
    = bind_res (csv_scan rest False csv_fresh) (\<lambda>rows. Inr (((fs @ [s]) @ s' # ss) # rows))" for b'
    by (rule "3.IH") (use "3.prems" in auto)
  with "3.prems" show ?case
    by (auto simp: write_cell_def csv_char_def start_field_def scan_quoted save_field_def)
qed simp

lemma read_written:
  assumes "\<And>row. row \<in> set rows \<Longrightarrow> row \<noteq> []" "cells_bounded rows"
  shows "read_csv (write_table rows) = Inr rows"
proof -
  have "csv_scan (write_table rows) False csv_fresh = Inr rows"
    using assms
  proof (induction rows)
    case Nil
    then show ?case by (simp add: write_table_def)
  next
    case (Cons row rows)
    from scan_cells [of row START_RECORD "write_table rows" False "[]"] Cons show ?case
      by (simp add: write_table_def cells_bounded_def csv_fresh_def)
  qed
  then show ?thesis by (simp add: csv_scan_lines(1) read_csv_def)
qed

end
