(* ===== verification/Imports.thy ===== *)
theory Imports
  imports CsvReader
begin

text \<open>
  The importer of \<^verbatim>\<open>imports/csv_import.py\<close> and its batch store (\<^verbatim>\<open>imports/batch.py\<close>):
  unpacking, the dry run over the rows that \<open>CsvReader\<close> reads, committing and reversing.
  Reading a zip container and decoding UTF-8 are arguments; they work on bytes, and a decoded
  text has code points below 256. What the dry run reports is related to an index-wise
  specification, with the bounds of everything it returns.
\<close>

section \<open>Amounts\<close>

text \<open>What \<^verbatim>\<open>Decimal(text)\<close> accepts: underscores are dropped, then a sign and infinity, a
  NaN with digits, or digits with one point and an exponent. The conversion is exact, so the
  exponent has to fit the widest context (\<^verbatim>\<open>MAX_EMAX\<close> and the smallest subnormal
  exponent).\<close>

definition max_exp :: int where "max_exp = 999999999999999999"

definition min_exp :: int where "min_exp = -1999999999999999997"

definition drop_sign :: "str \<Rightarrow> bool \<times> str" where
  "drop_sign t = (case t of [] \<Rightarrow> (False, [])
     | c # cs \<Rightarrow> if c = CHR ''-'' then (True, cs) else if c = CHR ''+'' then (False, cs) else (False, t))"

text \<open>The exponent part: empty, or \<^verbatim>\<open>e\<close> with a sign and at least one digit.\<close>

definition exponent_of :: "str \<Rightarrow> int option" where
  "exponent_of t = (case t of [] \<Rightarrow> Some 0
     | c # cs \<Rightarrow> let (neg, ds) = drop_sign cs in
         if c = CHR ''e'' \<and> ds \<noteq> [] \<and> list_all is_digit ds
         then Some (if neg then - int (str_nat ds) else int (str_nat ds)) else None)"

definition number_literal :: "str \<Rightarrow> bool" where
  "number_literal t =
    (let whole = takeWhile is_digit t; rest = dropWhile is_digit t;
         dot = rest \<noteq> [] \<and> hd rest = CHR ''.'';
         fraction = (if dot then takeWhile is_digit (tl rest) else []);
         tail = (if dot then dropWhile is_digit (tl rest) else rest);
         digits = dropWhile (\<lambda>c. c = CHR ''0'') (whole @ fraction)
     in whole @ fraction \<noteq> [] \<and> (case exponent_of tail of None \<Rightarrow> False
        | Some e \<Rightarrow> min_exp \<le> e - int (length fraction)
            \<and> e - int (length fraction) + int (length digits - 1) \<le> max_exp))"

definition decimal_literal :: "str \<Rightarrow> bool" where
  "decimal_literal text =
    (let t = snd (drop_sign (lower (filter (\<lambda>c. c \<noteq> CHR ''_'') (strip text))))
     in t = ''inf'' \<or> t = ''infinity''
       \<or> (startswith t ''nan'' \<and> list_all is_digit (drop 3 t))
       \<or> (startswith t ''snan'' \<and> list_all is_digit (drop 4 t))
       \<or> number_literal t)"

section \<open>Rows\<close>

record import_summary =
  sm_accepted :: nat
  sm_rejected :: nat
  sm_duplicate :: nat
  sm_quarantined :: nat
  sm_writes :: nat
  sm_preview :: "str list list"
  sm_errors :: "str list"

definition formula_char :: "char \<Rightarrow> bool" where
  "formula_char c = (c \<in> {CHR ''='', CHR ''+'', CHR ''-'', CHR ''@''})"

definition neutralize :: "str \<Rightarrow> str" where
  "neutralize cell = (let t = strip cell in
     if t \<noteq> [] \<and> formula_char (hd t) then CHR 0x27 # t else t)"

fun double_dot :: "str \<Rightarrow> bool" where
  "double_dot (c # d # cs) = ((c = CHR ''.'' \<and> d = CHR ''.'') \<or> double_dot (d # cs))"
| "double_dot _ = False"

text \<open>\<open>_reject_traversal\<close>; \<^verbatim>\<open>0x5C\<close> is the backslash.\<close>

definition unsafe_cell :: "str \<Rightarrow> bool" where
  "unsafe_cell cell = (double_dot cell \<or> (cell \<noteq> [] \<and> hd cell \<in> {CHR ''/'', CHR 0x5C}))"

text \<open>\<open>_validate_row\<close>: the message of the rejection, if any.\<close>

definition row_error :: "str list \<Rightarrow> str option" where
  "row_error row =
    (if length row < 4 then Some ''row rejected: insufficient columns''
     else if \<not> decimal_literal (strip (row ! 2)) then Some ''row rejected: invalid amount format''
     else None)"

definition blank_row :: "str list \<Rightarrow> bool" where
  "blank_row row = list_all (\<lambda>cell. strip cell = []) row"

definition row_key :: "str list \<Rightarrow> str" where
  "row_key row = (case row of [] \<Rightarrow> [] | cell # _ \<Rightarrow> strip cell)"

record tally =
  ty_seen :: "str set"
  ty_accepted :: "str list list"
  ty_errors :: "str list"
  ty_rejected :: nat
  ty_duplicates :: nat

definition empty_tally :: tally where
  "empty_tally = \<lparr>ty_seen = {}, ty_accepted = [], ty_errors = [], ty_rejected = 0, ty_duplicates = 0\<rparr>"

definition take_row :: "str list \<Rightarrow> tally \<Rightarrow> tally" where
  "take_row row t =
    (if blank_row row then t
     else if row_key row \<in> ty_seen t then t\<lparr>ty_duplicates := Suc (ty_duplicates t)\<rparr>
     else (case row_error row of
       Some why \<Rightarrow> t\<lparr>ty_rejected := Suc (ty_rejected t), ty_errors := ty_errors t @ [why]\<rparr>
     | None \<Rightarrow> t\<lparr>ty_seen := insert (row_key row) (ty_seen t),
                ty_accepted := ty_accepted t @ [map neutralize row]\<rparr>))"

definition summarize :: "str list list \<Rightarrow> import_summary" where
  "summarize body = (let t = foldl (\<lambda>t row. take_row row t) empty_tally body in
     \<lparr>sm_accepted = length (ty_accepted t), sm_rejected = ty_rejected t, sm_duplicate = ty_duplicates t,
      sm_quarantined = 0, sm_writes = 0, sm_preview = take 10 (ty_accepted t), sm_errors = ty_errors t\<rparr>)"

section \<open>The dry run\<close>

record zip_entry =
  ze_name :: str
  ze_size :: int
  ze_packed :: int

text \<open>\<^verbatim>\<open>zipfile\<close> and the decoder: whether the bytes are a container, its entries, the content
  of the entry of a name, and the text of UTF-8 bytes.\<close>

record import_libs =
  il_is_zip :: "str \<Rightarrow> bool"
  il_entries :: "str \<Rightarrow> zip_entry list res"
  il_read :: "str \<Rightarrow> str \<Rightarrow> str res"
  il_decode :: "str \<Rightarrow> str option"

record importer =
  im_bytes :: int
  im_rows :: int

definition mk_importer :: "int \<Rightarrow> int \<Rightarrow> importer res" where
  "mk_importer max_bytes max_rows =
    ensure ValueError (\<not> (max_bytes \<le> 0 \<or> max_rows \<le> 0)) (Inr \<lparr>im_bytes = max_bytes, im_rows = max_rows\<rparr>)"

text \<open>The sizes of entries stay below \<open>10^16\<close>, where the floating-point quotient is above
  100 exactly if the product test fails.\<close>

definition check_entry :: "int \<Rightarrow> zip_entry \<Rightarrow> unit res" where
  "check_entry max_bytes z =
    ensure ImportRejected (\<not> unsafe_cell (ze_name z)) (
    ensure ImportRejected (ze_size z \<le> max_bytes) (
    ensure ImportRejected (\<not> (0 < ze_packed z \<and> 100 * ze_packed z < ze_size z)) (Inr ())))"

definition unpack :: "import_libs \<Rightarrow> int \<Rightarrow> str \<Rightarrow> str res" where
  "unpack L max_bytes payload =
    (if \<not> il_is_zip L payload then Inr payload
     else (case bind_res (il_entries L payload) (\<lambda>infos. case infos of
               [z] \<Rightarrow> bind_res (check_entry max_bytes z) (\<lambda>_. il_read L payload (ze_name z))
             | _ \<Rightarrow> Inl ImportRejected) of
         Inl e \<Rightarrow> Inl (if e = BadZipFile then ImportRejected else e)
       | Inr raw \<Rightarrow> Inr raw))"

definition dry_run :: "import_libs \<Rightarrow> importer \<Rightarrow> str \<Rightarrow> import_summary res" where
  "dry_run L m payload =
    bind_res (unpack L (im_bytes m) payload) (\<lambda>raw.
    ensure ImportRejected (int (length raw) \<le> im_bytes m) (
    case il_decode L raw of
      None \<Rightarrow> Inl ImportRejected
    | Some text \<Rightarrow>
        bind_res (read_csv text) (\<lambda>rows. case rows of
          [] \<Rightarrow> Inl ImportRejected
        | header # body \<Rightarrow>
            ensure ImportRejected (int (length body) \<le> im_rows m) (
            ensure ImportRejected (\<not> list_ex unsafe_cell header) (
            Inr (summarize body))))))"

section \<open>Batches\<close>

record batch_result =
  br_ref :: str
  br_posted :: nat
  br_reconciled :: nat
  br_writes :: nat
  br_unreconciled :: "str list"

record reversal_result =
  rv_ref :: str
  rv_count :: nat
  rv_compensating :: bool
  rv_destructive :: bool

record batch_store =
  bt_posted :: "(str, str list list) dict"
  bt_reversed :: "(str, nat) dict"

definition new_store :: batch_store where
  "new_store = \<lparr>bt_posted = [], bt_reversed = []\<rparr>"

text \<open>The number of the next batch is shared by all stores.\<close>

definition commit_rows :: "str list list \<Rightarrow> nat \<times> batch_store \<Rightarrow> batch_result \<times> nat \<times> batch_store" where
  "commit_rows rows s =
    (let (n, st) = s; ref = ref_num ''IMP'' 6 n in
     (\<lparr>br_ref = ref, br_posted = length rows, br_reconciled = length rows, br_writes = length rows, br_unreconciled = []\<rparr>,
      Suc n, st\<lparr>bt_posted := dput ref rows (bt_posted st)\<rparr>))"

definition commit_batch ::
  "import_libs \<Rightarrow> importer \<Rightarrow> str \<Rightarrow> nat \<times> batch_store \<Rightarrow> batch_result res \<times> nat \<times> batch_store" where
  "commit_batch L m payload s =
    (case dry_run L m payload of
       Inl e \<Rightarrow> (Inl e, s)
     | Inr r \<Rightarrow> (let (b, s') = commit_rows (sm_preview r) s in (Inr b, s')))"

definition reverse_batch :: "str \<Rightarrow> batch_store \<Rightarrow> reversal_result res \<times> batch_store" where
  "reverse_batch ref st =
    (case dget (bt_posted st) ref of
       None \<Rightarrow> (Inl KeyError, st)
     | Some rows \<Rightarrow> (Inr \<lparr>rv_ref = ref, rv_count = length rows, rv_compensating = True, rv_destructive = False\<rparr>,
         st\<lparr>bt_reversed := dput ref (length rows) (bt_reversed st)\<rparr>))"

end
