(* ===== verification/ImportClaims.thy ===== *)
theory ImportClaims
  imports Imports
begin

text \<open>
  What the importer guarantees: the dry run reports exactly what an index-wise reading of the
  table says, everything it returns is bounded, no cell it hands on starts a formula, written
  tables are imported, and batches are kept.
\<close>

section \<open>The specification of a summary\<close>

definition sound_row :: "str list \<Rightarrow> bool" where
  "sound_row row = (\<not> blank_row row \<and> row_error row = None)"

text \<open>An earlier sound row has the key.\<close>

definition known_key :: "str list list \<Rightarrow> str list \<Rightarrow> bool" where
  "known_key earlier row = list_ex (\<lambda>e. sound_row e \<and> row_key e = row_key row) earlier"

text \<open>The rows of which \<open>P\<close> holds with the rows before them.\<close>

definition rows_where :: "(str list list \<Rightarrow> str list \<Rightarrow> bool) \<Rightarrow> str list list \<Rightarrow> str list list" where
  "rows_where P body = map (\<lambda>i. body ! i) (filter (\<lambda>i. P (take i body) (body ! i)) [0..<length body])"

definition admitted :: "str list list \<Rightarrow> str list \<Rightarrow> bool" where
  "admitted earlier row = (sound_row row \<and> \<not> known_key earlier row)"

definition repeated :: "str list list \<Rightarrow> str list \<Rightarrow> bool" where
  "repeated earlier row = (\<not> blank_row row \<and> known_key earlier row)"

definition refused :: "str list list \<Rightarrow> str list \<Rightarrow> bool" where
  "refused earlier row = (\<not> blank_row row \<and> \<not> known_key earlier row \<and> row_error row \<noteq> None)"

definition summary_spec :: "str list list \<Rightarrow> import_summary" where
  "summary_spec body =
    \<lparr>sm_accepted = length (rows_where admitted body), sm_rejected = length (rows_where refused body),
     sm_duplicate = length (rows_where repeated body), sm_quarantined = 0, sm_writes = 0,
     sm_preview = map (map neutralize) (take 10 (rows_where admitted body)),
     sm_errors = map (\<lambda>row. the (row_error row)) (rows_where refused body)\<rparr>"

lemma rows_where_snoc [simp]:
  "rows_where P (body @ [row]) = rows_where P body @ (if P body row then [row] else [])"
proof -
  have "map (\<lambda>i. (body @ [row]) ! i) (filter (\<lambda>i. P (take i (body @ [row])) ((body @ [row]) ! i)) [0..<length body])
    = rows_where P body"
    unfolding rows_where_def by (intro map_cong filter_cong) (auto simp: nth_append)
  then show ?thesis by (simp add: rows_where_def)
qed

lemma rows_where_Nil [simp]: "rows_where P [] = []"
  by (simp add: rows_where_def)

lemma rows_where_set: "row \<in> set (rows_where P body) \<Longrightarrow> row \<in> set body \<and> (\<exists>earlier. P earlier row)"
  by (auto simp: rows_where_def)

definition tally_of :: "str list list \<Rightarrow> tally" where
  "tally_of body = foldl (\<lambda>t row. take_row row t) empty_tally body"

lemma tally_spec:
  "row_key row \<in> ty_seen (tally_of body) \<longleftrightarrow> known_key body row"
  "ty_accepted (tally_of body) = map (map neutralize) (rows_where admitted body)"
  "ty_errors (tally_of body) = map (\<lambda>row. the (row_error row)) (rows_where refused body)"
  "ty_rejected (tally_of body) = length (rows_where refused body)"
  "ty_duplicates (tally_of body) = length (rows_where repeated body)"
proof (induction body arbitrary: row rule: rev_induct)
  case (snoc r body)
  have step: "tally_of (body @ [r]) = take_row r (tally_of body)" by (simp add: tally_of_def)
  {
    case 1
    show ?case using snoc.IH(1) [of row] snoc.IH(1) [of r]
      by (auto simp: step take_row_def known_key_def sound_row_def split: option.splits)
  next
    case 2
    show ?case using snoc.IH(1) [of r] snoc.IH(2)
      by (auto simp: step take_row_def admitted_def sound_row_def split: option.splits)
  next
    case 3
    show ?case using snoc.IH(1) [of r] snoc.IH(3)
      by (auto simp: step take_row_def refused_def split: option.splits)
  next
    case 4
    show ?case using snoc.IH(1) [of r] snoc.IH(4)
      by (auto simp: step take_row_def refused_def split: option.splits)
  next
    case 5
    show ?case using snoc.IH(1) [of r] snoc.IH(5)
      by (auto simp: step take_row_def repeated_def split: option.splits)
  }
qed (simp_all add: tally_of_def empty_tally_def known_key_def)

lemma summarize_spec: "summarize body = summary_spec body"
  by (simp add: summarize_def summary_spec_def tally_spec [unfolded tally_of_def] take_map)

text \<open>A body row is counted at most once.\<close>

lemma rows_counted:
  "length (rows_where admitted body) + length (rows_where refused body) + length (rows_where repeated body)
    = length (filter (\<lambda>row. \<not> blank_row row) body)"
proof (induction body rule: rev_induct)
  case (snoc r body)
  then show ?case by (auto simp: admitted_def refused_def repeated_def sound_row_def)
qed simp

section \<open>Sizes\<close>

lemma table_size_simps [simp]: "table_size [] = 0" "table_size (r # rs) = length (concat r) + table_size rs"
  "table_size (rs @ qs) = table_size rs + table_size qs"
  by (simp_all add: table_size_def)

lemma rows_where_size: "table_size (rows_where P body) \<le> table_size body"
  by (induction body rule: rev_induct) auto

lemma table_size_take: "table_size (take n rows) \<le> table_size rows"
  by (metis append_take_drop_id le_add1 table_size_simps(3))

lemma strip_length: "length (strip s) \<le> length s"
  unfolding strip_def by (metis (no_types) length_dropWhile_le length_rev le_trans)

lemma neutralize_length: "length (neutralize s) \<le> Suc (length s)"
  using strip_length [of s] by (simp add: neutralize_def Let_def)

lemma neutralize_row_size: "length (concat (map neutralize row)) \<le> length (concat row) + length row"
proof (induction row)
  case (Cons c cs)
  then show ?case using neutralize_length [of c] by simp
qed simp

lemma neutralize_size: "table_size (map (map neutralize) rows) \<le> table_size rows + length (concat rows)"
proof (induction rows)
  case (Cons r rs)
  then show ?case using neutralize_row_size [of r] by simp
qed simp

section \<open>Neutralized cells\<close>

lemma hd_dropWhile_space: "dropWhile is_space s \<noteq> [] \<Longrightarrow> \<not> is_space (hd (dropWhile is_space s))"
  by (rule hd_dropWhile)

lemma dropWhile_id: "s = [] \<or> \<not> is_space (hd s) \<Longrightarrow> dropWhile is_space s = s"
  by (cases s) auto

lemma last_dropWhile: "dropWhile P s \<noteq> [] \<Longrightarrow> last (dropWhile P s) = last s"
  by (induction s) auto

lemma strip_ends:
  assumes "strip s \<noteq> []"
  shows "\<not> is_space (hd (strip s)) \<and> \<not> is_space (last (strip s))"
proof -
  let ?l = "dropWhile is_space s" and ?r = "dropWhile is_space (rev (dropWhile is_space s))"
  have ne: "?r \<noteq> []" using assms by (simp add: strip_def)
  have l: "?l \<noteq> []"
  proof
    assume "?l = []"
    with ne show False by (simp only: rev.simps dropWhile.simps)
  qed
  have "last ?r = hd ?l" using last_dropWhile [OF ne] l by (simp add: last_rev)
  then have "hd (strip s) = hd ?l" using ne by (simp add: strip_def hd_rev)
  moreover have "last (strip s) = hd ?r" using ne by (simp add: strip_def last_rev)
  ultimately show ?thesis using hd_dropWhile_space [OF l] hd_dropWhile [OF ne] by simp
qed

lemma strip_keeps:
  assumes "s = [] \<or> (\<not> is_space (hd s) \<and> \<not> is_space (last s))" shows "strip s = s"
  using assms dropWhile_id [of s] dropWhile_id [of "rev s"] by (auto simp: strip_def hd_rev)

lemma neutralize_safe:
  "strip (neutralize s) = neutralize s \<and> (neutralize s = [] \<or> \<not> formula_char (hd (neutralize s)))"
proof (cases "strip s = []")
  case True
  then have "neutralize s = []" by (simp add: neutralize_def)
  then show ?thesis by (simp add: strip_keeps)
next
  case False
  note e = strip_ends [OF False]
  have "\<not> is_space CHR 0x27" "\<not> formula_char CHR 0x27" by (simp_all add: is_space_def formula_char_def)
  with False e show ?thesis by (auto simp: neutralize_def Let_def intro!: strip_keeps)
qed


section \<open>Batches over several importers\<close>

text \<open>The stores of the importers and the number that they share.\<close>

record desk =
  dk_seq :: nat
  dk_stores :: "nat \<Rightarrow> batch_store"

definition new_desk :: desk where
  "new_desk = \<lparr>dk_seq = 1, dk_stores = (\<lambda>_. new_store)\<rparr>"

datatype import_event = ICommit nat import_libs importer str | IReverse nat str

definition commit_at :: "nat \<Rightarrow> import_libs \<Rightarrow> importer \<Rightarrow> str \<Rightarrow> desk \<Rightarrow> batch_result res \<times> desk" where
  "commit_at k L m payload w = (case commit_batch L m payload (dk_seq w, dk_stores w k) of
     (r, n, st) \<Rightarrow> (r, \<lparr>dk_seq = n, dk_stores = (dk_stores w)(k := st)\<rparr>))"

definition reverse_at :: "nat \<Rightarrow> str \<Rightarrow> desk \<Rightarrow> reversal_result res \<times> desk" where
  "reverse_at k ref w = (case reverse_batch ref (dk_stores w k) of
     (r, st) \<Rightarrow> (r, w\<lparr>dk_stores := (dk_stores w)(k := st)\<rparr>))"

fun import_exec :: "import_event \<Rightarrow> desk \<Rightarrow> desk" where
  "import_exec (ICommit k L m payload) w = snd (commit_at k L m payload w)"
| "import_exec (IReverse k ref) w = snd (reverse_at k ref w)"

definition import_run :: "import_event list \<Rightarrow> desk \<Rightarrow> desk" where
  "import_run es w = foldl (\<lambda>w e. import_exec e w) w es"

definition desk_ok :: "desk \<Rightarrow> bool" where
  "desk_ok w = (\<forall>k ref rows. dget (bt_posted (dk_stores w k)) ref = Some rows \<longrightarrow> (\<exists>i < dk_seq w. ref = ref_num ''IMP'' 6 i))"

definition desk_keeps :: "desk \<Rightarrow> desk \<Rightarrow> bool" where
  "desk_keeps w w' = (\<forall>k ref rows. dget (bt_posted (dk_stores w k)) ref = Some rows \<longrightarrow>
     dget (bt_posted (dk_stores w' k)) ref = Some rows)"

lemma desk_fresh: "desk_ok w \<Longrightarrow> dget (bt_posted (dk_stores w k)) (ref_num ''IMP'' 6 (dk_seq w)) = None"
proof (rule ccontr)
  assume ok: "desk_ok w" and "dget (bt_posted (dk_stores w k)) (ref_num ''IMP'' 6 (dk_seq w)) \<noteq> None"
  then obtain i where "i < dk_seq w" "ref_num ''IMP'' 6 (dk_seq w) = ref_num ''IMP'' 6 i"
    unfolding desk_ok_def by blast
  then show False by simp
qed

lemma commit_at_cases:
  assumes "commit_at k L m payload w = (r, w')"
  obtains (refused) e where "r = Inl e" "dry_run L m payload = Inl e" "dk_seq w' = dk_seq w" "dk_stores w' = dk_stores w"
  | (committed) s b where "r = Inr b" "dry_run L m payload = Inr s" "br_ref b = ref_num ''IMP'' 6 (dk_seq w)"
      "br_posted b = length (sm_preview s)" "br_reconciled b = br_posted b" "dk_seq w' = Suc (dk_seq w)"
      "dk_stores w' = (dk_stores w)(k := (dk_stores w k)\<lparr>bt_posted := dput (br_ref b) (sm_preview s) (bt_posted (dk_stores w k))\<rparr>)"
  using assms by (auto simp: commit_at_def commit_batch_def commit_rows_def Let_def split: sum.splits)

lemma import_exec_ok: "desk_ok w \<Longrightarrow> desk_ok (import_exec e w) \<and> desk_keeps w (import_exec e w)"
proof (cases e)
  case (ICommit k L m payload)
  assume ok: "desk_ok w"
  obtain r w' where c: "commit_at k L m payload w = (r, w')" by fastforce
  then show ?thesis
  proof (cases rule: commit_at_cases)
    case refused
    with ok c ICommit show ?thesis by (simp add: desk_ok_def desk_keeps_def)
  next
    case (committed s b)
    note fresh = desk_fresh [OF ok, folded committed(3)]
    have "\<exists>i < Suc (dk_seq w). ref = ref_num ''IMP'' 6 i" if "dget (bt_posted (dk_stores w j)) ref = Some rows" for j ref rows
      using ok that less_SucI unfolding desk_ok_def by metis
    then have "desk_ok w'"
      using committed(3,6,7) unfolding desk_ok_def by (auto split: if_splits)
    moreover have "desk_keeps w w'" using fresh committed(7) by (auto simp: desk_keeps_def)
    ultimately show ?thesis using c ICommit by simp
  qed
next
  case (IReverse k ref)
  assume "desk_ok w"
  with IReverse show ?thesis
    by (auto simp: reverse_at_def reverse_batch_def desk_ok_def desk_keeps_def split: option.splits)
qed

lemma import_run_ok: "desk_ok w \<Longrightarrow> desk_ok (import_run es w) \<and> desk_keeps w (import_run es w)"
proof (induction es arbitrary: w)
  case (Cons e es)
  from import_exec_ok [OF Cons.prems, of e] Cons.IH [of "import_exec e w"] show ?case
    by (simp add: import_run_def) (simp add: desk_keeps_def)
qed (simp_all add: import_run_def desk_keeps_def)

lemma new_desk_ok: "desk_ok new_desk"
  by (simp add: desk_ok_def new_desk_def new_store_def)

lemma case_list_Inr:
  "(case xs of [] \<Rightarrow> Inl e | x # xs' \<Rightarrow> f x xs') = Inr y \<longleftrightarrow> (\<exists>x xs'. xs = x # xs' \<and> f x xs' = Inr y)"
  by (cases xs) simp_all

lemma dry_run_Inr:
  assumes "dry_run L m payload = Inr s"
  obtains raw decoded header body where "unpack L (im_bytes m) payload = Inr raw" "int (length raw) \<le> im_bytes m"
    "il_decode L raw = Some decoded" "read_csv decoded = Inr (header # body)" "int (length body) \<le> im_rows m"
    "\<not> list_ex unsafe_cell header" "s = summary_spec body"
  using assms by (auto simp: dry_run_def bind_res_Inr case_list_Inr summarize_spec split: option.split_asm)

section \<open>Claims\<close>

text \<open>C29. A dry run succeeds exactly when the payload unpacks to bytes within the limit that
  decode to a table with a safe header and at most the permitted number of rows, and its
  summary is the index-wise one: a row is accepted if it is sound and no earlier sound row has
  its key, a duplicate if one has, and rejected otherwise; the preview shows the first ten
  accepted rows, neutralized, and the errors name the reasons of the rejections in order.\<close>

theorem import_exact:
  "dry_run L m payload = Inr s \<longleftrightarrow>
    (\<exists>raw text header body. unpack L (im_bytes m) payload = Inr raw \<and> int (length raw) \<le> im_bytes m
      \<and> il_decode L raw = Some text \<and> read_csv text = Inr (header # body) \<and> int (length body) \<le> im_rows m
      \<and> \<not> list_ex unsafe_cell header \<and> s = summary_spec body)"
proof
  assume "dry_run L m payload = Inr s"
  then show "\<exists>raw text header body. unpack L (im_bytes m) payload = Inr raw \<and> int (length raw) \<le> im_bytes m
      \<and> il_decode L raw = Some text \<and> read_csv text = Inr (header # body) \<and> int (length body) \<le> im_rows m
      \<and> \<not> list_ex unsafe_cell header \<and> s = summary_spec body"
    by (rule dry_run_Inr) blast
qed (auto simp: dry_run_def summarize_spec)


text \<open>C30. Everything a dry run reports is bounded: no more rows are counted than permitted, the
  preview has the first ten accepted rows, there is one message per rejected row, nothing is
  written or quarantined, and a cell of the preview is at most one character longer than the
  field limit of the reader; if decoding gives at most one character per byte, the preview has
  at most as many characters as the byte limit, and one more per cell.\<close>

theorem import_bounded:
  assumes "dry_run L m payload = Inr s" "\<And>raw text. il_decode L raw = Some text \<Longrightarrow> length text \<le> length raw"
  shows "int (sm_accepted s + sm_rejected s + sm_duplicate s) \<le> im_rows m
    \<and> length (sm_preview s) = min 10 (sm_accepted s) \<and> length (sm_errors s) = sm_rejected s
    \<and> sm_writes s = 0 \<and> sm_quarantined s = 0
    \<and> (\<forall>row \<in> set (sm_preview s). \<forall>cell \<in> set row. int (length cell) \<le> field_limit + 1)
    \<and> int (table_size (sm_preview s)) \<le> im_bytes m + int (length (concat (sm_preview s)))"
proof -
  obtain raw decoded header body where r: "int (length raw) \<le> im_bytes m" "il_decode L raw = Some decoded"
    "read_csv decoded = Inr (header # body)" "int (length body) \<le> im_rows m" and s: "s = summary_spec body"
    using dry_run_Inr [OF assms(1)] by metis
  let ?rows = "take 10 (rows_where admitted body)"
  have "sm_accepted s + sm_rejected s + sm_duplicate s \<le> length body"
    using rows_counted [of body] by (simp add: s summary_spec_def)
  then have 1: "int (sm_accepted s + sm_rejected s + sm_duplicate s) \<le> im_rows m" using r(4) by linarith
  have "\<forall>cell \<in> set row. int (length cell) \<le> field_limit" if "row \<in> set ?rows" for row
    using rows_where_set [OF in_set_takeD [OF that]] read_csv_ok [OF r(3)] by (auto simp: cells_bounded_def)
  moreover have room: "int (length (neutralize c)) \<le> field_limit + 1" if "int (length c) \<le> field_limit" for c
    using neutralize_length [of c] that by linarith
  ultimately have 2: "\<forall>row \<in> set (sm_preview s). \<forall>cell \<in> set row. int (length cell) \<le> field_limit + 1"
    using room by (simp add: s summary_spec_def)
  have "table_size ?rows \<le> length raw"
    using table_size_take [of 10 "rows_where admitted body"] rows_where_size [of admitted body] read_csv_ok [OF r(3)]
      assms(2) [OF r(2)] by simp
  then have "int (table_size (sm_preview s)) \<le> im_bytes m + int (length (concat (sm_preview s)))"
    using neutralize_size [of ?rows] r(1) by (simp add: s summary_spec_def length_concat comp_def)
  with 1 2 show ?thesis by (simp add: s summary_spec_def min_def)
qed

text \<open>C31. No formula gets through: every cell of a preview, which is what a commit posts, is free
  of surrounding white space and empty or begun by none of the characters that start a formula;
  and every row has at least the four columns that are required.\<close>

theorem import_neutral:
  assumes "dry_run L m payload = Inr s" "row \<in> set (sm_preview s)"
  shows "4 \<le> length row \<and> (\<forall>cell \<in> set row. strip cell = cell \<and> (cell = [] \<or> \<not> formula_char (hd cell)))"
proof -
  obtain body where "s = summary_spec body" using dry_run_Inr [OF assms(1)] by metis
  with assms(2) obtain raw where raw: "row = map neutralize raw" "raw \<in> set (rows_where admitted body)"
    by (auto simp: summary_spec_def dest: in_set_takeD)
  then have "4 \<le> length raw" using rows_where_set [OF raw(2)]
    by (auto simp: admitted_def sound_row_def row_error_def split: if_splits)
  with raw(1) neutralize_safe show ?thesis by auto
qed

text \<open>C32. Any table can be imported: a payload that decodes to a table written with quoted cells,
  whatever these contain, commas, quotes and line breaks included, has a dry run that succeeds
  and reports exactly that table, provided it is within the limits, no row is empty, and the
  header is safe.\<close>

theorem table_imported:
  assumes "\<not> il_is_zip L payload" "il_decode L payload = Some (write_table (header # body))"
    "int (length payload) \<le> im_bytes m" "int (length body) \<le> im_rows m"
    "\<And>row. row \<in> set (header # body) \<Longrightarrow> row \<noteq> []" "cells_bounded (header # body)" "\<not> list_ex unsafe_cell header"
  shows "dry_run L m payload = Inr (summary_spec body)"
  using assms(1-4,7) read_written [OF assms(5,6)] by (simp add: dry_run_def unpack_def summarize_spec)

text \<open>Batches are kept: a commit gets a reference that no store of any importer has used and
  posts exactly the preview of its payload's dry run; whatever commits and reversals follow, in
  any importer, the store still has exactly these rows under that reference, and reversing it
  reports, without removing anything, as many rows as were posted.\<close>

theorem batches_kept:
  assumes "commit_at k L m payload (import_run es new_desk) = (Inr b, w)"
  shows "(\<forall>j. dget (bt_posted (dk_stores (import_run es new_desk) j)) (br_ref b) = None)
    \<and> (\<exists>s. dry_run L m payload = Inr s \<and> br_posted b = length (sm_preview s)
        \<and> dget (bt_posted (dk_stores (import_run es' w) k)) (br_ref b) = Some (sm_preview s)
        \<and> bt_posted (dk_stores (snd (reverse_at k (br_ref b) (import_run es' w))) k) = bt_posted (dk_stores (import_run es' w) k))
    \<and> fst (reverse_at k (br_ref b) (import_run es' w))
      = Inr \<lparr>rv_ref = br_ref b, rv_count = br_posted b, rv_compensating = True, rv_destructive = False\<rparr>"
proof -
  have ok: "desk_ok (import_run es new_desk)" using import_run_ok [OF new_desk_ok] by blast
  from assms show ?thesis
  proof (cases rule: commit_at_cases)
    case (committed s b')
    have "desk_ok w" using import_exec_ok [OF ok, of "ICommit k L m payload"] assms by simp
    then have "desk_keeps w (import_run es' w)" using import_run_ok by blast
    with committed have d: "dget (bt_posted (dk_stores (import_run es' w) k)) (br_ref b) = Some (sm_preview s)"
      by (simp add: desk_keeps_def)
    with committed desk_fresh [OF ok] show ?thesis by (simp add: reverse_at_def reverse_batch_def)
  qed simp
qed


section \<open>Evaluated imports\<close>

text \<open>A decoder of ASCII, which is UTF-8 there.\<close>

definition demo_import_libs :: import_libs where
  "demo_import_libs = \<lparr>il_is_zip = (\<lambda>_. False), il_entries = (\<lambda>_. Inl BadZipFile), il_read = (\<lambda>_ _. Inl KeyError),
     il_decode = (\<lambda>b. if list_all (\<lambda>c. (of_char c :: nat) < 128) b then Some b else None)\<rparr>"

definition demo_importer :: importer where
  "demo_importer = \<lparr>im_bytes = 1000, im_rows = 9\<rparr>"

definition demo_header :: "str list" where
  "demo_header = [''ref'', ''customer'', ''amount'', ''currency'']"

definition demo_body :: "str list list" where
  "demo_body = [[''R-1'', ''a,b'' @ [DQ, LF], ''-5'', ''EUR''], ['' R-1'', ''b'', ''1'', ''EUR''], [[], [], [], []],
     [''=R'', ''c'', ''5'', ''EUR''], [''R-2'', ''d'', ''five'', ''EUR'']]"

definition demo_payload :: str where
  "demo_payload = write_table (demo_header # demo_body)"

definition demo_summary :: import_summary where
  "demo_summary = \<lparr>sm_accepted = 2, sm_rejected = 1, sm_duplicate = 1, sm_quarantined = 0, sm_writes = 0,
     sm_preview = [[''R-1'', ''a,b'' @ [DQ], CHR 0x27 # ''-5'', ''EUR''], [CHR 0x27 # ''=R'', ''c'', ''5'', ''EUR'']],
     sm_errors = [''row rejected: invalid amount format'']\<rparr>"

lemma demo_dry_run: "dry_run demo_import_libs demo_importer demo_payload = Inr demo_summary"
  by code_simp

lemma demo_decodes: "il_decode demo_import_libs raw = Some decoded \<Longrightarrow> length decoded \<le> length raw"
  by (simp add: demo_import_libs_def split: if_splits)

theorem import_bounded_witness: "int (sm_accepted demo_summary + sm_rejected demo_summary + sm_duplicate demo_summary) \<le> 9
    \<and> length (sm_errors demo_summary) = 1"
  using import_bounded [OF demo_dry_run demo_decodes] by (simp add: demo_importer_def demo_summary_def)

theorem import_neutral_witness:
  "strip (CHR 0x27 # ''=R'') = CHR 0x27 # ''=R'' \<and> \<not> formula_char (hd (CHR 0x27 # ''=R''))"
  using import_neutral [OF demo_dry_run, of "[CHR 0x27 # ''=R'', ''c'', ''5'', ''EUR'']"] by (simp add: demo_summary_def)

theorem table_imported_witness:
  "dry_run demo_import_libs demo_importer demo_payload = Inr (summary_spec demo_body) \<and> length demo_body = 5"
proof -
  have "\<not> il_is_zip demo_import_libs demo_payload" "il_decode demo_import_libs demo_payload = Some (write_table (demo_header # demo_body))"
    "int (length demo_payload) \<le> im_bytes demo_importer" "int (length demo_body) \<le> im_rows demo_importer" by code_simp+
  moreover have "cells_bounded (demo_header # demo_body)" "\<not> list_ex unsafe_cell demo_header"
    unfolding cells_bounded_def by code_simp+
  moreover have "list_all (\<lambda>row. row \<noteq> []) (demo_header # demo_body)" by code_simp
  then have "row \<noteq> []" if "row \<in> set (demo_header # demo_body)" for row using that unfolding list_all_iff by blast
  ultimately have "dry_run demo_import_libs demo_importer demo_payload = Inr (summary_spec demo_body)"
    by (intro table_imported) assumption+
  then show ?thesis by (simp add: demo_body_def)
qed

theorem batches_kept_witness:
  "\<exists>b w. commit_at 0 demo_import_libs demo_importer demo_payload (import_run [] new_desk) = (Inr b, w)
    \<and> fst (reverse_at 0 (br_ref b) (import_run [ICommit 1 demo_import_libs demo_importer demo_payload, IReverse 0 (br_ref b)] w))
      = Inr \<lparr>rv_ref = br_ref b, rv_count = 2, rv_compensating = True, rv_destructive = False\<rparr>"
proof -
  obtain r w where c: "commit_at 0 demo_import_libs demo_importer demo_payload (import_run [] new_desk) = (r, w)" by fastforce
  then obtain b where b: "r = Inr b" "br_posted b = 2"
    by (cases rule: commit_at_cases) (auto simp: demo_dry_run demo_summary_def)
  from batches_kept [OF c [unfolded b(1)]] b c show ?thesis by auto
qed

section \<open>Where the importer falls short\<close>

text \<open>A commit posts the preview only: of more than ten accepted rows it posts ten and still
  reports everything as reconciled.\<close>

lemma commit_truncates:
  assumes "commit_at k L m payload w = (Inr b, w')" "dry_run L m payload = Inr s"
  shows "br_posted b = min 10 (sm_accepted s) \<and> br_reconciled b = br_posted b \<and> br_unreconciled b = []"
proof -
  obtain body where "s = summary_spec body" using dry_run_Inr [OF assms(2)] by metis
  then have "length (sm_preview s) = min 10 (sm_accepted s)" by (simp add: summary_spec_def min_def)
  with assms show ?thesis by (auto simp: commit_at_def commit_batch_def commit_rows_def Let_def)
qed

text \<open>A negative amount is accepted, and neutralized it is no amount any more; and NaN and
  infinity are amounts.\<close>

lemma amounts_spoiled:
  "row_error [''R-1'', ''C'', ''-5'', ''EUR''] = None"
  "row_error (map neutralize [''R-1'', ''C'', ''-5'', ''EUR'']) \<noteq> None"
  "row_error [''R-1'', ''C'', ''NaN'', ''EUR''] = None" "row_error [''R-1'', ''C'', ''Infinity'', ''EUR''] = None"
  by code_simp+

text \<open>Duplicates are sought among the raw keys, so two accepted rows can show one reference.\<close>

lemma references_collide:
  "map hd (sm_preview (summarize [[''=R'', ''c'', ''5'', ''EUR''], [CHR 0x27 # ''=R'', ''c'', ''5'', ''EUR'']]))
    = [CHR 0x27 # ''=R'', CHR 0x27 # ''=R'']"
  by code_simp

text \<open>A carriage return inside a line is an error of the reader, not a rejection.\<close>

lemma stray_return: "dry_run demo_import_libs demo_importer (''a'' @ [CR] @ ''b'') = Inl CsvError"
  by code_simp

end
