(* ===== verification/PyValue.thy ===== *)
theory PyValue
  imports JsonText
begin

text \<open>
  Python's operations on a decoded JSON value: \<^verbatim>\<open>int\<close>, \<^verbatim>\<open>str\<close>, \<^verbatim>\<open>bool\<close>, a subscript, \<^verbatim>\<open>get\<close> and the
  comparison with a small integer, with the exception each raises on a value of another type.
\<close>

section \<open>\<^verbatim>\<open>int\<close>, \<^verbatim>\<open>str\<close> and \<^verbatim>\<open>bool\<close> of a decoded value\<close>

text \<open>Digits with single underscores between them; \<^verbatim>\<open>int\<close> refuses more than 4300 digits.\<close>

fun digit_run :: "bool \<Rightarrow> str \<Rightarrow> bool" where
  "digit_run after_digit [] = after_digit"
| "digit_run after_digit (c # s) = (if is_digit c then digit_run True s else c = CHR ''_'' \<and> after_digit \<and> digit_run False s)"

definition int_of_text :: "str \<Rightarrow> int res" where
  "int_of_text s = (let (sg, t) = split_sign {CHR ''-'', CHR ''+''} (strip s); ds = filter is_digit t in
     ensure ValueError (digit_run False t \<and> length ds \<le> 4300)
       (Inr (if sg = ''-'' then - int (str_nat ds) else int (str_nat ds))))"

fun py_int :: "jval \<Rightarrow> int res" where
  "py_int (VBool b) = Inr (if b then 1 else 0)"
| "py_int (VInt i) = Inr i"
| "py_int (VFloat (Finite i _)) = Inr i"
| "py_int (VFloat (Infinite _)) = Inl OverflowError"
| "py_int (VFloat NotANumber) = Inl ValueError"
| "py_int (VStr s) = int_of_text s"
| "py_int _ = Inl TypeError"

fun py_repr :: "jval \<Rightarrow> str" where
  "py_repr VNull = ''None''"
| "py_repr (VBool b) = (if b then ''True'' else ''False'')"
| "py_repr (VInt i) = int_str i"
| "py_repr (VFloat (Finite _ t)) = t"
| "py_repr (VFloat (Infinite neg)) = (if neg then ''-inf'' else ''inf'')"
| "py_repr (VFloat NotANumber) = ''nan''"
| "py_repr (VStr s) = repr_str s"
| "py_repr (VArr xs) = ''['' @ join '', '' (map py_repr xs) @ '']''"
| "py_repr (VObj d) = CHR ''{'' # join '', '' (map (\<lambda>(k, v). repr_str k @ '': '' @ py_repr v) d) @ ''}''"

definition py_str :: "jval \<Rightarrow> str" where
  "py_str v = (case v of VStr s \<Rightarrow> s | _ \<Rightarrow> py_repr v)"

fun truthy :: "jval \<Rightarrow> bool" where
  "truthy VNull = False"
| "truthy (VBool b) = b"
| "truthy (VInt i) = (i \<noteq> 0)"
| "truthy (VFloat (Finite i t)) = (t \<noteq> ''0.0'' \<and> t \<noteq> ''-0.0'')"
| "truthy (VFloat _) = True"
| "truthy (VStr s) = (s \<noteq> [])"
| "truthy (VArr xs) = (xs \<noteq> [])"
| "truthy (VObj d) = (d \<noteq> [])"

lemma py_str_simps [simp]: "py_str (VStr s) = s"
  by (simp add: py_str_def)

section \<open>Parts of a value\<close>

definition field :: "(str, jval) dict \<Rightarrow> str \<Rightarrow> jval res" where
  "field d k = (case dget d k of None \<Rightarrow> Inl KeyError | Some v \<Rightarrow> Inr v)"

definition get_or :: "(str, jval) dict \<Rightarrow> str \<Rightarrow> jval \<Rightarrow> jval" where
  "get_or d k v = (case dget d k of None \<Rightarrow> v | Some w \<Rightarrow> w)"

text \<open>\<^verbatim>\<open>v["k"]\<close>, \<^verbatim>\<open>v.get("k", w)\<close> and \<^verbatim>\<open>v[0]\<close>.\<close>

fun item :: "str \<Rightarrow> jval \<Rightarrow> jval res" where
  "item k (VObj d) = field d k"
| "item k _ = Inl TypeError"

fun item_or :: "str \<Rightarrow> jval \<Rightarrow> jval \<Rightarrow> jval res" where
  "item_or k w (VObj d) = Inr (get_or d k w)"
| "item_or k w _ = Inl AttributeError"

fun item0 :: "jval \<Rightarrow> jval res" where
  "item0 (VArr (x # xs)) = Inr x"
| "item0 (VArr []) = Inl IndexError"
| "item0 (VStr (c # s)) = Inr (VStr [c])"
| "item0 (VStr []) = Inl IndexError"
| "item0 (VObj d) = Inl KeyError"
| "item0 _ = Inl TypeError"

text \<open>\<^verbatim>\<open>for x in v\<close>: a string yields its characters, an object its keys.\<close>

fun items :: "jval \<Rightarrow> jval list res" where
  "items (VArr xs) = Inr xs"
| "items (VStr s) = Inr (map (\<lambda>c. VStr [c]) s)"
| "items (VObj d) = Inr (map VStr (dkeys d))"
| "items _ = Inl TypeError"

text \<open>\<^verbatim>\<open>v == n\<close> for a small natural number: also a boolean and an integral float are equal to one.\<close>

fun is_num :: "nat \<Rightarrow> jval \<Rightarrow> bool" where
  "is_num n (VInt i) = (i = int n)"
| "is_num n (VBool b) = (n = (if b then 1 else 0))"
| "is_num n (VFloat (Finite _ t)) = (t = nat_str n @ ''.0'' \<or> n = 0 \<and> t = ''-0.0'')"
| "is_num n _ = False"

text \<open>\<^verbatim>\<open>v in S\<close> for a set of strings: a list or an object cannot be hashed.\<close>

fun member_of :: "str set \<Rightarrow> jval \<Rightarrow> bool res" where
  "member_of S (VStr s) = Inr (s \<in> S)"
| "member_of S (VArr _) = Inl TypeError"
| "member_of S (VObj _) = Inl TypeError"
| "member_of S _ = Inr False"

text \<open>\<^verbatim>\<open>v or w\<close>.\<close>

definition or_else :: "jval \<Rightarrow> jval \<Rightarrow> jval" where
  "or_else v w = (if truthy v then v else w)"

end
