(* ===== verification/Backup.thy ===== *)
theory Backup
  imports PyValue
begin

text \<open>
  The backup manifest, \<^verbatim>\<open>ops/backup_manifest.py\<close>: store entries with their safe
  relative paths, the manifest with its required stores, the canonical JSON text, the hash over the
  content, reading a manifest back, and checking an artifact.

  \<^verbatim>\<open>datetime.isoformat\<close> and SHA-256 come from \<open>libs\<close>; \<^verbatim>\<open>datetime.fromisoformat\<close> and
  \<^verbatim>\<open>float\<close> are arguments.
\<close>

section \<open>Store entries\<close>

record store_entry =
  se_name :: str
  se_path :: str
  se_sha256 :: str
  se_size :: int
  se_allow_empty :: bool
  se_empty :: bool
  se_source :: "str option"

text \<open>\<^verbatim>\<open>str.split\<close> at one character.\<close>

fun split_on :: "char \<Rightarrow> str \<Rightarrow> str list" where
  "split_on c [] = [[]]"
| "split_on c (x # s) = (case split_on c s of [] \<Rightarrow> [] | p # ps \<Rightarrow> if x = c then [] # p # ps else (x # p) # ps)"

definition slashed :: "str \<Rightarrow> str" where
  "slashed p = map (\<lambda>c. if c = CHR 0x5C then CHR ''/'' else c) p"

definition special_part :: "str \<Rightarrow> bool" where
  "special_part p = (p \<in> {[], ''.'', ''..''})"

definition safe_path :: "str \<Rightarrow> bool" where
  "safe_path p = (\<not> startswith p ''/'' \<and> \<not> startswith p ''~'' \<and> \<not> (1 < length p \<and> p ! 1 = CHR '':'')
     \<and> \<not> list_ex special_part (split_on CHR ''/'' (slashed p)))"

definition sources_allowed :: "str list" where
  "sources_allowed = [''fixture'', ''pilot'']"

definition mk_store_entry :: "store_entry \<Rightarrow> store_entry res" where
  "mk_store_entry e =
     ensure InvalidManifest (se_name e \<noteq> []) (
     ensure InvalidManifest (se_path e \<noteq> []) (
     ensure InvalidManifest (safe_path (se_path e)) (
     ensure InvalidManifest (length (se_sha256 e) = 64 \<and> list_all is_hex (se_sha256 e)) (
     ensure InvalidManifest (0 \<le> se_size e) (
     ensure InvalidManifest (se_empty e \<longrightarrow> se_allow_empty e) (
     ensure InvalidManifest (case se_source e of None \<Rightarrow> True | Some s \<Rightarrow> s \<in> set sources_allowed) (
     Inr e)))))))"

definition entry_json :: "store_entry \<Rightarrow> json" where
  "entry_json e = JObj
     [(''allow_empty'', JBool (se_allow_empty e)),
      (''artifact_rel_path'', JStr (se_path e)),
      (''byte_size'', JInt (se_size e)),
      (''empty'', JBool (se_empty e)),
      (''name'', JStr (se_name e)),
      (''sha256'', JStr (se_sha256 e)),
      (''source'', (case se_source e of None \<Rightarrow> JNull | Some s \<Rightarrow> JStr s))]"

definition entry_fields :: "str list" where
  "entry_fields = [''name'', ''artifact_rel_path'', ''sha256'', ''byte_size'', ''allow_empty'', ''empty'', ''source'']"

text \<open>\<^verbatim>\<open>except (KeyError, TypeError, ValueError)\<close>: an \<^verbatim>\<open>OverflowError\<close> passes.\<close>

definition invalid_unless_overflow :: "'a res \<Rightarrow> 'a res" where
  "invalid_unless_overflow r = (case r of Inl e \<Rightarrow> if e \<in> {KeyError, TypeError, ValueError} then Inl InvalidManifest else Inl e | Inr x \<Rightarrow> Inr x)"

definition text_field :: "(str, jval) dict \<Rightarrow> str \<Rightarrow> str res" where
  "text_field d k = invalid_unless_overflow (bind_res (field d k) (\<lambda>v. Inr (py_str v)))"

definition entry_from :: "jval \<Rightarrow> store_entry res" where
  "entry_from v = (case v of
       VObj d \<Rightarrow>
         ensure InvalidManifest (list_all (\<lambda>k. k \<in> set entry_fields) (dkeys d)) (
         bind_res (invalid_unless_overflow (bind_res (field d ''byte_size'') py_int)) (\<lambda>size.
         bind_res (text_field d ''name'') (\<lambda>name.
         bind_res (text_field d ''artifact_rel_path'') (\<lambda>path.
         bind_res (text_field d ''sha256'') (\<lambda>sha.
         mk_store_entry \<lparr>se_name = name, se_path = path, se_sha256 = sha, se_size = size,
           se_allow_empty = truthy (get_or d ''allow_empty'' (VBool False)),
           se_empty = truthy (get_or d ''empty'' (VBool False)),
           se_source = (case get_or d ''source'' VNull of VNull \<Rightarrow> None | s \<Rightarrow> Some (py_str s))\<rparr>)))))
     | _ \<Rightarrow> Inl InvalidManifest)"

section \<open>Manifests\<close>

record manifest =
  mf_id :: str
  mf_created :: datetime
  mf_stores :: "store_entry list"
  mf_rpo :: int
  mf_rto :: int
  mf_encryption :: str

definition required_stores :: "str list" where
  "required_stores = [''erp_db'', ''erp_private_files'', ''app_config'', ''audit_state'']"

definition mk_manifest :: "manifest \<Rightarrow> manifest res" where
  "mk_manifest m = (let names = map se_name (mf_stores m) in
     ensure InvalidManifest (mf_id m \<noteq> []) (
     ensure InvalidManifest (is_aware (mf_created m)) (
     ensure InvalidManifest (0 \<le> mf_rpo m) (
     ensure InvalidManifest (0 \<le> mf_rto m) (
     ensure InvalidManifest (mf_encryption m = ''none'') (
     ensure InvalidManifest (distinct names) (
     ensure InvalidManifest (list_all (\<lambda>n. n \<in> set names) required_stores) (
     ensure InvalidManifest (list_all (\<lambda>n. n \<in> set required_stores) names) (
     Inr (m\<lparr>mf_stores := sort_key se_name (mf_stores m)\<rparr>))))))))))"

definition content_json :: "manifest \<Rightarrow> json" where
  "content_json m = JObj
     [(''encryption'', JStr (mf_encryption m)),
      (''rpo_target_seconds'', JInt (mf_rpo m)),
      (''rto_target_seconds'', JInt (mf_rto m)),
      (''stores'', JArr (map entry_json (mf_stores m)))]"

definition full_json :: "libs \<Rightarrow> manifest \<Rightarrow> json" where
  "full_json L m = JObj
     [(''created_at'', JStr (l_iso L (mf_created m))),
      (''encryption'', JStr (mf_encryption m)),
      (''manifest_id'', JStr (mf_id m)),
      (''rpo_target_seconds'', JInt (mf_rpo m)),
      (''rto_target_seconds'', JInt (mf_rto m)),
      (''stores'', JArr (map entry_json (mf_stores m)))]"

definition canonical_json :: "libs \<Rightarrow> manifest \<Rightarrow> str" where
  "canonical_json L m = compact (full_json L m)"

definition manifest_hash :: "libs \<Rightarrow> manifest \<Rightarrow> str" where
  "manifest_hash L m = ''sha256:'' @ l_sha256 L (compact (content_json m))"

definition manifest_fields :: "str list" where
  "manifest_fields = [''manifest_id'', ''created_at'', ''stores'', ''rpo_target_seconds'', ''rto_target_seconds'', ''encryption'']"

definition read_instant :: "(str \<Rightarrow> datetime option) \<Rightarrow> (str, jval) dict \<Rightarrow> datetime res" where
  "read_instant fromiso d = bind_res (text_field d ''created_at'')
     (\<lambda>s. case fromiso s of None \<Rightarrow> Inl InvalidManifest | Some t \<Rightarrow> Inr t)"

definition from_json :: "(str \<Rightarrow> pyfloat) \<Rightarrow> (str \<Rightarrow> datetime option) \<Rightarrow> str \<Rightarrow> manifest res" where
  "from_json tf fromiso s = (case loads tf s of
       Some (VObj d) \<Rightarrow>
         ensure InvalidManifest (list_all (\<lambda>k. k \<in> set manifest_fields) (dkeys d)) (
         case dget d ''stores'' of
           Some (VArr raw) \<Rightarrow>
             bind_res (map_res entry_from raw) (\<lambda>stores.
             bind_res (read_instant fromiso d) (\<lambda>created.
             bind_res (invalid_unless_overflow (py_int (get_or d ''rpo_target_seconds'' (VInt (- 1))))) (\<lambda>rpo.
             bind_res (invalid_unless_overflow (py_int (get_or d ''rto_target_seconds'' (VInt (- 1))))) (\<lambda>rto.
             mk_manifest \<lparr>mf_id = py_str (get_or d ''manifest_id'' (VStr [])), mf_created = created, mf_stores = stores,
               mf_rpo = rpo, mf_rto = rto, mf_encryption = py_str (get_or d ''encryption'' (VStr ''none''))\<rparr>))))
         | _ \<Rightarrow> Inl InvalidManifest)
     | _ \<Rightarrow> Inl InvalidManifest)"

definition find_entry :: "manifest \<Rightarrow> str \<Rightarrow> store_entry res" where
  "find_entry m name = (case find (\<lambda>e. se_name e = name) (mf_stores m) of
     Some e \<Rightarrow> Inr e | None \<Rightarrow> Inl InvalidManifest)"

text \<open>The digest of raw bytes is an argument; the digests of \<open>libs\<close> are those of encoded text.\<close>

definition verify_artifact :: "(str \<Rightarrow> str) \<Rightarrow> manifest \<Rightarrow> str \<Rightarrow> str \<Rightarrow> bool res" where
  "verify_artifact digest m name bytes = bind_res (find_entry m name) (\<lambda>e.
     Inr (int (length bytes) = se_size e \<and> digest bytes = se_sha256 e))"

end
