(* ===== verification/BackupClaims.thy ===== *)
theory BackupClaims
  imports Backup "HOL-Library.Multiset"
begin

text \<open>
  What the manifest guarantees: what is written is read back, the hash stands for the content
  and nothing else, and a manifest that is read covers the four stores with artifacts that lie
  below the backup directory.
\<close>

section \<open>Entries\<close>

definition entry_ok :: "store_entry \<Rightarrow> bool" where
  "entry_ok e = (mk_store_entry e = Inr e)"

lemma mk_store_entry_Inr: "mk_store_entry e = Inr f \<Longrightarrow> f = e \<and> entry_ok e"
  by (auto simp: mk_store_entry_def entry_ok_def)

lemma entry_okD:
  "entry_ok e \<Longrightarrow> se_name e \<noteq> [] \<and> safe_path (se_path e) \<and> hex_digest (se_sha256 e) \<and> 0 \<le> se_size e
     \<and> (se_empty e \<longrightarrow> se_allow_empty e)"
  by (simp add: mk_store_entry_def entry_ok_def hex_digest_def list_all_iff)

lemma entry_read_back:
  assumes "entry_ok e"
  shows "entry_from (loaded (entry_json e)) = Inr e"
proof -
  have "sorted (map fst (map (\<lambda>(k, v). (k, loaded v))
     [(''allow_empty'', JBool (se_allow_empty e)), (''artifact_rel_path'', JStr (se_path e)), (''byte_size'', JInt (se_size e)),
      (''empty'', JBool (se_empty e)), (''name'', JStr (se_name e)), (''sha256'', JStr (se_sha256 e)),
      (''source'', (case se_source e of None \<Rightarrow> JNull | Some s \<Rightarrow> JStr s))]))"
    by simp
  then have "loaded (entry_json e) = VObj (map (\<lambda>(k, v). (k, loaded v))
     [(''allow_empty'', JBool (se_allow_empty e)), (''artifact_rel_path'', JStr (se_path e)), (''byte_size'', JInt (se_size e)),
      (''empty'', JBool (se_empty e)), (''name'', JStr (se_name e)), (''sha256'', JStr (se_sha256 e)),
      (''source'', (case se_source e of None \<Rightarrow> JNull | Some s \<Rightarrow> JStr s))])"
    unfolding entry_json_def loaded.simps by (simp only: sort_key_id_if_sorted)
  then show ?thesis using assms
    by (cases e; cases "se_source e") (simp_all add: entry_from_def entry_fields_def dkeys_def field_def text_field_def get_or_def
      invalid_unless_overflow_def entry_ok_def)
qed

lemma entry_in_order: "in_order (entry_json e)"
  by (simp add: entry_json_def split: option.splits)

lemma entry_json_inj: "entry_json e = entry_json f \<Longrightarrow> e = f"
  by (cases e; cases f) (auto simp: entry_json_def split: option.splits)

section \<open>Manifests\<close>

text \<open>A manifest as its constructor leaves it, over entries that theirs let through.\<close>

definition manifest_ok :: "manifest \<Rightarrow> bool" where
  "manifest_ok m = (mk_manifest m = Inr m \<and> list_all entry_ok (mf_stores m))"

definition store_order :: "str list" where
  "store_order = [''app_config'', ''audit_state'', ''erp_db'', ''erp_private_files'']"

lemma sorted_names: "sorted store_order" "distinct store_order" "set store_order = set required_stores"
  by (simp_all add: store_order_def required_stores_def) blast

lemma mk_manifest_Inr:
  assumes "mk_manifest m0 = Inr m"
  shows "m = m0\<lparr>mf_stores := sort_key se_name (mf_stores m0)\<rparr>" "mk_manifest m = Inr m"
    "map se_name (mf_stores m) = store_order" "set (mf_stores m) = set (mf_stores m0)" "distinct (map se_name (mf_stores m0))"
proof -
  let ?s = "sort_key se_name (mf_stores m0)"
  have g: "mf_id m0 \<noteq> []" "is_aware (mf_created m0)" "0 \<le> mf_rpo m0" "0 \<le> mf_rto m0" "mf_encryption m0 = ''none''"
    "distinct (map se_name (mf_stores m0))" "se_name ` set (mf_stores m0) = set required_stores" and
    m: "m = m0\<lparr>mf_stores := ?s\<rparr>"
    using assms by (auto simp: mk_manifest_def Let_def list_all_iff)
  show "m = m0\<lparr>mf_stores := ?s\<rparr>" "distinct (map se_name (mf_stores m0))" by fact+
  have s: "sorted (map se_name ?s)" "set ?s = set (mf_stores m0)" by simp_all
  have d: "distinct (map se_name ?s)" using g(6) by (simp add: distinct_map)
  show "set (mf_stores m) = set (mf_stores m0)" by (simp add: m)
  have "map se_name ?s = store_order"
    by (rule sorted_distinct_set_unique [OF s(1) d sorted_names(1,2)]) (use g(7) sorted_names(3) in simp)
  then show "map se_name (mf_stores m) = store_order" by (simp add: m)
  have i: "sort_key se_name ?s = ?s" by (rule sort_key_id_if_sorted [OF s(1)])
  have "list_all (\<lambda>n. n \<in> set (map se_name ?s)) required_stores" "list_all (\<lambda>n. n \<in> set required_stores) (map se_name ?s)"
    using g(7) by (auto simp: list_all_iff)
  with g(1-5) d show "mk_manifest m = Inr m"
    unfolding m by (simp add: mk_manifest_def Let_def i)
qed

lemma manifest_okD:
  assumes "manifest_ok m"
  shows "map se_name (mf_stores m) = store_order" "mf_encryption m = ''none''" "is_aware (mf_created m)"
    "mf_id m \<noteq> []" "0 \<le> mf_rpo m" "0 \<le> mf_rto m"
proof -
  have "mk_manifest m = Inr m" using assms by (simp add: manifest_ok_def)
  from mk_manifest_Inr(3) [OF this] this
  show "map se_name (mf_stores m) = store_order" "mf_encryption m = ''none''" "is_aware (mf_created m)"
    "mf_id m \<noteq> []" "0 \<le> mf_rpo m" "0 \<le> mf_rto m"
    by (simp_all add: mk_manifest_def Let_def)
qed

lemma manifest_made_ok: "mk_manifest m0 = Inr m \<Longrightarrow> list_all entry_ok (mf_stores m0) \<Longrightarrow> manifest_ok m"
  using mk_manifest_Inr [of m0 m] by (simp add: manifest_ok_def list_all_iff)

lemma entries_read_back: "list_all entry_ok es \<Longrightarrow> map_res entry_from (map (loaded \<circ> entry_json) es) = Inr es"
  by (induction es) (simp_all add: entry_read_back)

lemma full_read_back:
  assumes "manifest_ok m" "fromiso (l_iso L (mf_created m)) = Some (mf_created m)"
  shows "from_json tf fromiso (canonical_json L m) = Inr m"
proof -
  have "in_order (full_json L m)" by (simp add: full_json_def list_all_iff entry_in_order)
  then have l: "loads tf (canonical_json L m) = Some (loaded (full_json L m))"
    unfolding canonical_json_def by (intro loads_dumps in_order_keys_ok)
  have "loaded (full_json L m) = VObj
     [(''created_at'', VStr (l_iso L (mf_created m))), (''encryption'', VStr (mf_encryption m)), (''manifest_id'', VStr (mf_id m)),
      (''rpo_target_seconds'', VInt (mf_rpo m)), (''rto_target_seconds'', VInt (mf_rto m)),
      (''stores'', VArr (map (loaded \<circ> entry_json) (mf_stores m)))]"
    by (simp add: full_json_def)
  with l show ?thesis using assms
    by (cases m) (simp add: from_json_def manifest_fields_def dkeys_def get_or_def read_instant_def text_field_def field_def
      invalid_unless_overflow_def manifest_ok_def entries_read_back)
qed

subsection \<open>What is read\<close>

lemma entry_from_ok: "entry_from v = Inr e \<Longrightarrow> entry_ok e"
  by (auto simp: entry_from_def bind_res_Inr split: jval.splits dest: mk_store_entry_Inr)

lemma entries_from_ok: "map_res entry_from vs = Inr es \<Longrightarrow> list_all entry_ok es"
  by (drule map_res_Inr) (auto simp: list_all2_conv_all_nth list_all_length dest: entry_from_ok)

lemma from_json_ok: "from_json tf fromiso s = Inr m \<Longrightarrow> manifest_ok m"
  by (auto simp: from_json_def bind_res_Inr split: option.splits jval.splits dest!: entries_from_ok
      intro: manifest_made_ok)

section \<open>Paths\<close>

text \<open>
  Following a path from a directory, as a list of names from the root: an absolute path starts at
  the root, an empty part and \<^verbatim>\<open>.\<close> stay, and \<^verbatim>\<open>..\<close> goes up.
\<close>

definition follow_part :: "str list \<Rightarrow> str \<Rightarrow> str list" where
  "follow_part dir p = (if p \<in> {[], ''.''} then dir else if p = ''..'' then butlast dir else dir @ [p])"

definition resolve :: "str list \<Rightarrow> str \<Rightarrow> str list" where
  "resolve dir p = foldl follow_part (if startswith p ''/'' then [] else dir) (split_on CHR ''/'' p)"

lemma split_on_nonempty [simp]: "split_on c s \<noteq> []"
  by (induction s) (simp_all split: list.splits)

lemma split_on_step:
  "split_on c (x # s) = (if x = c then [] # split_on c s else (x # hd (split_on c s)) # tl (split_on c s))"
  using split_on_nonempty [of c s] by (cases "split_on c s") simp_all

lemma follow_plain: "\<not> list_ex special_part ps \<Longrightarrow> foldl follow_part dir ps = dir @ ps"
  by (induction ps arbitrary: dir) (simp_all add: special_part_def follow_part_def)

text \<open>A part without a backslash is a part of the path in which backslashes are slashes.\<close>

lemma split_slashed:
  "CHR 0x5C \<notin> set (hd (split_on CHR ''/'' p)) \<Longrightarrow> hd (split_on CHR ''/'' (slashed p)) = hd (split_on CHR ''/'' p)"
  "q \<in> set (tl (split_on CHR ''/'' p)) \<Longrightarrow> CHR 0x5C \<notin> set q \<Longrightarrow> q \<in> set (tl (split_on CHR ''/'' (slashed p)))"
proof (induction p)
  case (Cons x p)
  have t: "q \<in> set (tl (split_on CHR ''/'' p)) \<Longrightarrow> CHR 0x5C \<notin> set q \<Longrightarrow> q \<in> set (split_on CHR ''/'' (slashed p))"
    using Cons.IH(2) by (meson list.set_sel(2) split_on_nonempty)
  have h: "CHR 0x5C \<notin> set q \<Longrightarrow> q = hd (split_on CHR ''/'' p) \<Longrightarrow> q \<in> set (split_on CHR ''/'' (slashed p))"
    using Cons.IH(1) by (metis hd_in_set split_on_nonempty)
  have all: "q \<in> set (split_on CHR ''/'' p) \<Longrightarrow> CHR 0x5C \<notin> set q \<Longrightarrow> q \<in> set (split_on CHR ''/'' (slashed p))"
    using t h by (metis hd_Cons_tl set_ConsD split_on_nonempty)
  { case 1 then show ?case using Cons.IH(1) by (auto simp: slashed_def split_on_step simp del: split_on.simps(2)) }
  { case 2 then show ?case using Cons.IH(2) t all by (auto simp: slashed_def split_on_step simp del: split_on.simps(2)) }
qed (simp_all add: slashed_def)

lemma safe_path_below:
  assumes "safe_path p"
  shows "resolve dir p = dir @ split_on CHR ''/'' p" "resolve dir (slashed p) = dir @ split_on CHR ''/'' (slashed p)"
proof -
  have s: "\<not> list_ex special_part (split_on CHR ''/'' (slashed p))" "\<not> startswith p ''/''" using assms by (simp_all add: safe_path_def)
  have sp: "special_part q \<Longrightarrow> CHR 0x5C \<notin> set q" for q by (auto simp: special_part_def)
  have "\<not> special_part q" if "q \<in> set (split_on CHR ''/'' p)" for q
  proof
    assume "special_part q"
    moreover have "q \<in> set (split_on CHR ''/'' (slashed p))"
      using that split_slashed sp [OF \<open>special_part q\<close>] by (metis hd_Cons_tl list.set_intros set_ConsD split_on_nonempty)
    ultimately show False using s(1) by (auto simp: list_ex_iff)
  qed
  then have "\<not> list_ex special_part (split_on CHR ''/'' p)" by (auto simp: list_ex_iff)
  then show "resolve dir p = dir @ split_on CHR ''/'' p" using s(2) by (simp add: resolve_def follow_plain)
  have "\<not> startswith (slashed p) ''/''"
  proof
    assume "startswith (slashed p) ''/''"
    then have "[] \<in> set (split_on CHR ''/'' (slashed p))" by (auto simp: startswith_def prefix_def split_on_step simp del: split_on.simps(2))
    with s(1) show False by (auto simp: list_ex_iff special_part_def)
  qed
  with s(1) show "resolve dir (slashed p) = dir @ split_on CHR ''/'' (slashed p)" by (simp add: resolve_def follow_plain)
qed

section \<open>The properties\<close>

text \<open>C27. A backup manifest that its constructor let through, written as canonical JSON and read
  back by \<^verbatim>\<open>from_json\<close>, is the same manifest: every store entry with its path, digest, size, flags
  and source, the targets, the identifier and the instant. The reader is the JSON parser itself,
  not an assumed inverse; only \<^verbatim>\<open>fromisoformat\<close> is taken to invert \<^verbatim>\<open>isoformat\<close> on the instant
  at hand.\<close>

theorem manifest_roundtrip:
  assumes "mk_manifest m0 = Inr m" "list_all (\<lambda>e. mk_store_entry e = Inr e) (mf_stores m0)"
    "fromiso (l_iso L (mf_created m)) = Some (mf_created m)"
  shows "from_json tf fromiso (canonical_json L m) = Inr m"
proof (rule full_read_back)
  show "manifest_ok m" using assms(1,2) by (intro manifest_made_ok) (simp_all add: entry_ok_def list_all_iff)
qed (rule assms(3))

text \<open>Whatever order the stores were given in, they are kept in the order of their names.\<close>

lemma same_stores:
  assumes "mk_manifest m0 = Inr m" "mk_manifest n0 = Inr n"
  shows "mf_stores m = mf_stores n \<longleftrightarrow> set (mf_stores m0) = set (mf_stores n0)"
proof
  assume e: "set (mf_stores m0) = set (mf_stores n0)"
  have o: "map se_name (mf_stores m) = store_order" "map se_name (mf_stores n) = store_order"
    using mk_manifest_Inr(3) assms by blast+
  have "set (mf_stores m) = set (mf_stores n)" using e mk_manifest_Inr(4) assms by blast
  moreover have "inj_on se_name (set (mf_stores n))" using o(2) sorted_names(2) by (metis distinct_map)
  ultimately show "mf_stores m = mf_stores n" using o sorted_names(1,2)
    by (intro map_sorted_distinct_set_unique [where f = se_name]) simp_all
qed (metis assms mk_manifest_Inr(4))

text \<open>The manifest hash stands for the content and for nothing else: two manifests have the same
  hash exactly when they hold the same store entries, in whatever order they were given, with the
  same recovery targets - identifier and time do not count - or else their two content texts are a
  SHA-256 collision.\<close>

theorem manifest_hash_binds:
  assumes "mk_manifest m0 = Inr m" "mk_manifest n0 = Inr n"
  shows "manifest_hash L m = manifest_hash L n \<longleftrightarrow>
    set (mf_stores m0) = set (mf_stores n0) \<and> mf_rpo m0 = mf_rpo n0 \<and> mf_rto m0 = mf_rto n0
    \<or> compact (content_json m) \<noteq> compact (content_json n)
      \<and> l_sha256 L (compact (content_json m)) = l_sha256 L (compact (content_json n))"
proof -
  have enc: "mf_encryption m = mf_encryption n" using assms by (auto simp: mk_manifest_def Let_def)
  have same: "mf_rpo m = mf_rpo m0" "mf_rto m = mf_rto m0" "mf_rpo n = mf_rpo n0" "mf_rto n = mf_rto n0"
    using mk_manifest_Inr(1) assms by fastforce+
  have o: "in_order (content_json k)" for k by (simp add: content_json_def list_all_iff entry_in_order)
  have "compact (content_json m) = compact (content_json n) \<longleftrightarrow> content_json m = content_json n"
    by (rule iffI, rule compact_inj [OF o o], simp_all)
  also have "\<dots> \<longleftrightarrow> mf_stores m = mf_stores n \<and> mf_rpo m = mf_rpo n \<and> mf_rto m = mf_rto n"
    using enc by (auto simp: content_json_def intro: list.inj_map_strong [OF entry_json_inj])
  finally show ?thesis using same same_stores [OF assms] by (auto simp: manifest_hash_def)
qed

text \<open>C28. A manifest that is read from any text covers exactly the four required stores, each once
  and in order, and every artifact path, followed from any directory, ends below it: no part of it
  leaves the directory, neither with slashes alone nor with backslashes counting as slashes. Every
  digest is a SHA-256 digest, every size is at least 0, and a store marked empty is one that may be.\<close>

theorem manifest_confined:
  assumes "from_json tf fromiso s = Inr m"
  shows "map se_name (mf_stores m) = [''app_config'', ''audit_state'', ''erp_db'', ''erp_private_files'']
    \<and> list_all (\<lambda>e. resolve dir (se_path e) = dir @ split_on CHR ''/'' (se_path e)
      \<and> resolve dir (slashed (se_path e)) = dir @ split_on CHR ''/'' (slashed (se_path e))
      \<and> hex_digest (se_sha256 e) \<and> 0 \<le> se_size e \<and> (se_empty e \<longrightarrow> se_allow_empty e)) (mf_stores m)"
proof
  have ok: "manifest_ok m" by (rule from_json_ok [OF assms])
  show "map se_name (mf_stores m) = [''app_config'', ''audit_state'', ''erp_db'', ''erp_private_files'']"
    using manifest_okD(1) [OF ok] by (simp add: store_order_def)
  have "entry_ok e" if "e \<in> set (mf_stores m)" for e using ok that by (simp add: manifest_ok_def list_all_iff)
  with entry_okD safe_path_below
  show "list_all (\<lambda>e. resolve dir (se_path e) = dir @ split_on CHR ''/'' (se_path e)
      \<and> resolve dir (slashed (se_path e)) = dir @ split_on CHR ''/'' (slashed (se_path e))
      \<and> hex_digest (se_sha256 e) \<and> 0 \<le> se_size e \<and> (se_empty e \<longrightarrow> se_allow_empty e)) (mf_stores m)"
    unfolding list_all_iff by blast
qed

text \<open>Once an artifact is verified against a manifest that was read, its store is one of the four,
  and any other content is verified for that store exactly when it has the same length and the
  same digest.\<close>

theorem artifact_bound:
  assumes "from_json tf fromiso s = Inr m" "verify_artifact digest m name bytes = Inr True"
  shows "name \<in> set required_stores"
    "verify_artifact digest m name other = Inr (length other = length bytes \<and> digest other = digest bytes)"
proof -
  obtain e where e: "find (\<lambda>e. se_name e = name) (mf_stores m) = Some e"
    "int (length bytes) = se_size e" "digest bytes = se_sha256 e"
    using assms(2) by (auto simp: verify_artifact_def find_entry_def bind_res_Inr split: option.splits)
  then show "verify_artifact digest m name other = Inr (length other = length bytes \<and> digest other = digest bytes)"
    by (auto simp: verify_artifact_def find_entry_def)
  have "name \<in> set (map se_name (mf_stores m))" using e(1) by (auto simp: find_Some_iff)
  then show "name \<in> set required_stores"
    using manifest_okD(1) [OF from_json_ok [OF assms(1)]] sorted_names(3) by metis
qed

text \<open>A manifest that is refused is \<^verbatim>\<open>InvalidManifest\<close>, unless a number in it is infinite.\<close>

definition refuses :: "'a res \<Rightarrow> bool" where
  "refuses r = (\<forall>e. r = Inl e \<longrightarrow> e = InvalidManifest \<or> e = OverflowError)"

lemma refuses_simps [simp]: "refuses (Inr x)" "refuses (Inl InvalidManifest)"
  by (simp_all add: refuses_def)

lemma refuses_ensure: "refuses r \<Longrightarrow> refuses (ensure InvalidManifest p r)"
  by (simp add: refuses_def ensure_def)

lemma refuses_bind: "refuses r \<Longrightarrow> (\<And>x. refuses (f x)) \<Longrightarrow> refuses (bind_res r f)"
  by (cases r) (simp_all add: refuses_def)

lemma py_int_errors: "py_int v = Inl e \<Longrightarrow> e \<in> {TypeError, ValueError, OverflowError}"
  by (induction v rule: py_int.induct) (auto simp: int_of_text_def ensure_def Let_def split: prod.splits if_splits)

lemma refuses_number: "refuses (invalid_unless_overflow (py_int v))" "refuses (invalid_unless_overflow (bind_res (field d k) py_int))"
  by (auto simp: refuses_def invalid_unless_overflow_def field_def dest: py_int_errors split: option.splits sum.splits if_splits)

lemma refuses_text: "refuses (text_field d k)"
  by (auto simp: refuses_def text_field_def invalid_unless_overflow_def field_def split: option.splits)

lemma refuses_map: "(\<And>x. refuses (f x)) \<Longrightarrow> refuses (map_res f xs)"
  by (induction xs) (auto simp: refuses_def split: sum.splits)

lemma refuses_entry: "refuses (mk_store_entry e)" "refuses (entry_from v)"
proof -
  show mk: "refuses (mk_store_entry e)" for e
    unfolding mk_store_entry_def by (intro refuses_ensure refuses_simps)
  show "refuses (entry_from v)"
    by (cases v; simp only: entry_from_def jval.case) (intro mk refuses_simps refuses_ensure refuses_bind refuses_number refuses_text)+
qed

lemma refuses_manifest: "refuses (mk_manifest m)"
  unfolding mk_manifest_def Let_def by (intro refuses_ensure refuses_simps)

lemma refuses_instant: "refuses (read_instant fromiso d)"
  unfolding read_instant_def by (rule refuses_bind [OF refuses_text]) (simp split: option.splits)

lemma from_json_errors: "from_json tf fromiso s = Inl e \<Longrightarrow> e = InvalidManifest \<or> e = OverflowError"
proof -
  have "refuses (from_json tf fromiso s)"
    unfolding from_json_def
    by (auto split: option.splits jval.splits
        intro!: refuses_ensure refuses_bind refuses_map refuses_entry refuses_instant refuses_number refuses_manifest)
  then show "from_json tf fromiso s = Inl e \<Longrightarrow> e = InvalidManifest \<or> e = OverflowError" by (simp add: refuses_def)
qed

section \<open>Witnesses\<close>

definition demo_entry :: "str \<Rightarrow> store_entry" where
  "demo_entry name = \<lparr>se_name = name, se_path = name @ ''.tar'', se_sha256 = replicate 64 CHR ''0'', se_size = 3,
     se_allow_empty = False, se_empty = False, se_source = Some ''pilot''\<rparr>"

definition demo_manifest :: manifest where
  "demo_manifest = \<lparr>mf_id = ''BK-1'', mf_created = Aware 7 0, mf_stores = map demo_entry required_stores,
     mf_rpo = 60, mf_rto = 90, mf_encryption = ''none''\<rparr>"

definition demo_sorted :: manifest where
  "demo_sorted = demo_manifest\<lparr>mf_stores := map demo_entry store_order\<rparr>"

lemma zeros_hex: "length (replicate 64 CHR ''0'') = 64" "list_all is_hex (replicate 64 CHR ''0'')"
  by (simp_all add: list_all_iff is_hex_def)

lemma demo_entries_ok: "list_all (\<lambda>e. mk_store_entry e = Inr e) (map demo_entry required_stores)"
proof -
  have "list_all (\<lambda>n. safe_path (n @ ''.tar'')) required_stores" by code_simp
  moreover have "list_all (\<lambda>n. n \<noteq> []) required_stores" by (simp add: required_stores_def)
  ultimately show ?thesis
    using zeros_hex by (auto simp: list_all_iff mk_store_entry_def demo_entry_def sources_allowed_def)
qed

lemma demo_entry_name [simp]: "se_name (demo_entry n) = n"
  by (simp add: demo_entry_def)

lemma demo_sorts: "sort_key se_name (map demo_entry required_stores) = map demo_entry store_order"
proof (rule map_sorted_distinct_set_unique [where f = se_name])
  show "set (sort_key se_name (map demo_entry required_stores)) = set (map demo_entry store_order)"
    using sorted_names(3) by simp
  have "distinct (map se_name (map demo_entry required_stores))" by (simp add: comp_def required_stores_def)
  then show "distinct (map se_name (sort_key se_name (map demo_entry required_stores)))" by (simp only: distinct_map set_sort distinct_sort)
  show "inj_on se_name (set (sort_key se_name (map demo_entry required_stores)) \<union> set (map demo_entry store_order))"
    by (auto simp: inj_on_def)
  show "sorted (map se_name (map demo_entry store_order))" "distinct (map se_name (map demo_entry store_order))"
    using sorted_names(1,2) by (simp_all add: comp_def)
qed simp

lemma demo_names: "distinct required_stores" "list_all (\<lambda>n. n \<in> set required_stores) required_stores"
  by (simp_all add: required_stores_def)

lemma demo_made: "mk_manifest demo_manifest = Inr demo_sorted"
  using demo_names by (simp add: mk_manifest_def Let_def demo_manifest_def demo_sorted_def demo_sorts comp_def)

definition demo_text :: str where
  "demo_text = canonical_json demo_libs demo_sorted"

lemma demo_read: "from_json (\<lambda>_. NotANumber) (\<lambda>_. Some (Aware 7 0)) demo_text = Inr demo_sorted"
  unfolding demo_text_def
proof (rule full_read_back)
  show "manifest_ok demo_sorted"
    using manifest_made_ok [OF demo_made] demo_entries_ok by (simp add: demo_manifest_def entry_ok_def list_all_iff)
qed (simp add: demo_sorted_def demo_manifest_def)

theorem manifest_roundtrip_witness:
  "from_json (\<lambda>_. NotANumber) (\<lambda>_. Some (Aware 7 0)) (canonical_json demo_libs demo_sorted) = Inr demo_sorted"
proof (rule manifest_roundtrip [OF demo_made])
  show "list_all (\<lambda>e. mk_store_entry e = Inr e) (mf_stores demo_manifest)"
    using demo_entries_ok by (simp add: demo_manifest_def)
qed (simp add: demo_sorted_def demo_manifest_def)

text \<open>The stores in another order and another name and time: the same hash.\<close>

theorem manifest_hash_binds_witness:
  "mk_manifest (demo_manifest\<lparr>mf_id := ''BK-2'', mf_created := Aware 8 0, mf_stores := map demo_entry store_order\<rparr>)
     = Inr (demo_sorted\<lparr>mf_id := ''BK-2'', mf_created := Aware 8 0\<rparr>) \<and>
   manifest_hash demo_libs demo_sorted = manifest_hash demo_libs (demo_sorted\<lparr>mf_id := ''BK-2'', mf_created := Aware 8 0\<rparr>)"
proof -
  let ?u = "demo_manifest\<lparr>mf_id := ''BK-2'', mf_created := Aware 8 0, mf_stores := map demo_entry store_order\<rparr>"
  let ?n = "demo_sorted\<lparr>mf_id := ''BK-2'', mf_created := Aware 8 0\<rparr>"
  have s: "sort_key se_name (map demo_entry store_order) = map demo_entry store_order"
    by (rule sort_key_id_if_sorted) (use sorted_names(1) in \<open>simp add: comp_def\<close>)
  have n: "mk_manifest ?u = Inr ?n"
    using sorted_names by (simp add: mk_manifest_def Let_def demo_manifest_def demo_sorted_def s comp_def list_all_iff)
  have "set (mf_stores demo_manifest) = set (mf_stores ?u)"
    using sorted_names(3) by (simp add: demo_manifest_def demo_sorted_def)
  then have "manifest_hash demo_libs demo_sorted = manifest_hash demo_libs ?n"
    unfolding manifest_hash_binds [OF demo_made n] by (simp add: demo_manifest_def demo_sorted_def)
  from conjI [OF n this] show ?thesis .
qed

theorem manifest_confined_witness:
  "from_json (\<lambda>_. NotANumber) (\<lambda>_. Some (Aware 7 0)) demo_text = Inr demo_sorted \<and>
   map se_name (mf_stores demo_sorted) = [''app_config'', ''audit_state'', ''erp_db'', ''erp_private_files'']"
  using demo_read manifest_confined [OF demo_read] by blast

theorem artifact_bound_witness:
  "verify_artifact (\<lambda>_. replicate 64 CHR ''0'') demo_sorted ''erp_db'' ''abc'' = Inr True \<and> ''erp_db'' \<in> set required_stores"
proof -
  have v: "verify_artifact (\<lambda>_. replicate 64 CHR ''0'') demo_sorted ''erp_db'' ''abc'' = Inr True"
    by (simp add: verify_artifact_def find_entry_def demo_sorted_def store_order_def) (simp add: demo_entry_def)
  with artifact_bound(1) [OF demo_read v] show ?thesis by blast
qed

section \<open>What the reader lets through\<close>

text \<open>An infinite number (\<^verbatim>\<open>Infinity\<close>, or a literal such as \<^verbatim>\<open>1e999\<close>) is not refused as an
  invalid manifest: \<^verbatim>\<open>int\<close> raises \<^verbatim>\<open>OverflowError\<close>, which no handler names.\<close>

lemma infinite_size_escapes:
  "loads tf (''{'' @ json_string ''byte_size'' @ '':Infinity}'') = Some (VObj [(''byte_size'', VFloat (Infinite False))])"
  "entry_from (VObj [(''byte_size'', VFloat (Infinite False))]) = Inl OverflowError"
proof -
  have s: "scan_string (concat (map json_char ''byte_size'') @ CHR 0x22 # r) = Some (''byte_size'', r)" for r
    by (rule scan_json_string)
  have "ws (CHR ''{'' # r) = CHR ''{'' # r" "ws (CHR ''I'' # r) = CHR ''I'' # r" for r by (simp_all add: ws_def is_ws_def)
  then show "loads tf (''{'' @ json_string ''byte_size'' @ '':Infinity}'') = Some (VObj [(''byte_size'', VFloat (Infinite False))])"
    by (simp add: loads_def json_string_def s scalar_def literals_def del: list.map concat.simps)
qed (simp add: entry_from_def entry_fields_def dkeys_def field_def invalid_unless_overflow_def)

text \<open>The word \<^verbatim>\<open>false\<close> as a string counts as true, and a fraction is cut off.\<close>

lemma quoted_false_allows:
  "entry_from (VObj [(''name'', VStr ''erp_db''), (''artifact_rel_path'', VStr ''a''), (''sha256'', VStr (replicate 64 CHR ''0'')),
     (''byte_size'', VFloat (Finite 1 ''1.9'')), (''allow_empty'', VStr ''false''), (''empty'', VStr ''false'')])
   = Inr \<lparr>se_name = ''erp_db'', se_path = ''a'', se_sha256 = replicate 64 CHR ''0'', se_size = 1,
       se_allow_empty = True, se_empty = True, se_source = None\<rparr>"
  by code_simp

end
