(* ===== verification/RestClient.thy ===== *)
theory RestClient
  imports Flow PyValue
begin

text \<open>
  The HTTP session of the ERPNext adapter (\<^verbatim>\<open>adapters/erpnext/erpnext_adapter.py\<close>: \<^verbatim>\<open>_login\<close>,
  \<^verbatim>\<open>_request\<close>, \<^verbatim>\<open>_sanitize_error_body\<close>). The server and the network are an argument: an opener
  answers a request with a reply and a new world. A client carries the login flag, the world,
  every request handed to the opener so far with its reply (the cookies are the opener's), and the message of
  the rejection it raised last, which a caller may show.

  \<^verbatim>\<open>urllib.parse.quote\<close> and \<^verbatim>\<open>urlencode\<close> are written out for the code points below 256.
\<close>

section \<open>Addresses\<close>

definition upper_hex :: "nat \<Rightarrow> char" where
  "upper_hex n = (if n < 10 then char_of (48 + n) else char_of (55 + n))"

definition percent :: "nat \<Rightarrow> str" where
  "percent b = [CHR ''%'', upper_hex (b div 16), upper_hex (b mod 16)]"

text \<open>A character beyond ASCII is encoded as the two bytes of its UTF-8 form.\<close>

definition quote_char :: "char set \<Rightarrow> char \<Rightarrow> str" where
  "quote_char safe c = (let n = (of_char c :: nat) in
     if is_upper c \<or> is_lower c \<or> is_digit c \<or> c \<in> {CHR ''_'', CHR ''.'', CHR ''-'', CHR ''~''} \<or> c \<in> safe then [c]
     else if n < 128 then percent n else percent (192 + n div 64) @ percent (128 + n mod 64))"

definition quote_path :: "str \<Rightarrow> str" where
  "quote_path p = concat (map (quote_char {CHR ''/''}) p)"

definition quote_plus :: "str \<Rightarrow> str" where
  "quote_plus s = concat (map (\<lambda>c. if c = CHR '' '' then ''+'' else quote_char {} c) s)"

definition urlencode :: "(str \<times> str) list \<Rightarrow> str" where
  "urlencode kvs = join ''&'' (map (\<lambda>(k, v). quote_plus k @ CHR ''='' # quote_plus v) kvs)"

section \<open>Requests and replies\<close>

datatype http_body = NoBody | FormBody "(str \<times> str) list" | JsonBody jval

record http_request =
  hr_method :: str
  hr_url :: str
  hr_headers :: "(str, str) dict"
  hr_body :: http_body

text \<open>
  What an opener and reading its response end with: a decoded body, a body that is not UTF-8, an
  HTTP error with its body if that can be read, \<^verbatim>\<open>URLError\<close>, a timeout or another \<^verbatim>\<open>OSError\<close>, or
  any other exception.
\<close>

datatype http_reply = Answered str | Undecodable | HttpStatus int "str option" | Unreachable | TimedOut | Broken exn

type_synonym 'w opener = "http_request \<Rightarrow> 'w \<Rightarrow> http_reply \<times> 'w"

record erp_config =
  ec_base :: str
  ec_site :: str
  ec_password :: str
  ec_timeout :: int

record 'w client =
  cn_logged :: bool
  cn_sent :: "(http_request \<times> http_reply) list"
  cn_note :: str
  cn_world :: 'w

text \<open>The configuration, the opener and the conversion of a JSON float.\<close>

record 'w session =
  ss_config :: erp_config
  ss_open :: "'w opener"
  ss_float :: "str \<Rightarrow> pyfloat"

text \<open>\<^verbatim>\<open>base_url.rstrip("/")\<close>.\<close>

definition base_url :: "erp_config \<Rightarrow> str" where
  "base_url c = rev (dropWhile (\<lambda>d. d = CHR ''/'') (rev (ec_base c)))"

definition new_client :: "'w \<Rightarrow> 'w client" where
  "new_client w = \<lparr>cn_logged = False, cn_sent = [], cn_note = [], cn_world = w\<rparr>"

definition open_request :: "'w session \<Rightarrow> http_request \<Rightarrow> ('w client, http_reply) act" where
  "open_request S rq s = (let (reply, w) = ss_open S rq (cn_world s) in
     (Inr reply, s\<lparr>cn_sent := cn_sent s @ [(rq, reply)], cn_world := w\<rparr>))"

definition decode_json :: "'w session \<Rightarrow> str \<Rightarrow> jval res" where
  "decode_json S t = (case loads (ss_float S) t of None \<Rightarrow> Inl ValueError | Some v \<Rightarrow> Inr v)"

text \<open>\<^verbatim>\<open>raise DocumentRejected(note)\<close>.\<close>

definition reject :: "str \<Rightarrow> ('w client, 'a) act" where
  "reject note = seq (upd (\<lambda>s. s\<lparr>cn_note := note\<rparr>)) (\<lambda>_. fail_with DocumentRejected)"

section \<open>Error messages\<close>

text \<open>\<^verbatim>\<open>a in b\<close>, \<^verbatim>\<open>b.split(a)[0]\<close> and \<^verbatim>\<open>b.split()\<close> for strings.\<close>

fun occurs :: "str \<Rightarrow> str \<Rightarrow> bool" where
  "occurs n [] = (n = [])"
| "occurs n (c # s) = (prefix n (c # s) \<or> occurs n s)"

fun before :: "str \<Rightarrow> str \<Rightarrow> str" where
  "before n [] = []"
| "before n (c # s) = (if prefix n (c # s) then [] else c # before n s)"

fun split_words :: "str \<Rightarrow> str \<Rightarrow> str list" where
  "split_words w [] = (if w = [] then [] else [w])"
| "split_words w (c # s) =
     (if is_space c then (if w = [] then split_words [] s else w # split_words [] s) else split_words (w @ [c]) s)"

definition trace_markers :: "str list" where
  "trace_markers = [''Traceback'', ''apps/frappe'', ''apps/erpnext'', ''File '' @ [CHR 0x22]]"

definition clean_text :: "str \<Rightarrow> str" where
  "clean_text m = take 300 (join '' '' (split_words [] (foldl (\<lambda>m k. if occurs k m then before k m else m) m trace_markers)))"

text \<open>The first of the server's messages; every exception but \<^verbatim>\<open>KeyError\<close> counts as no message.\<close>

definition server_message :: "(str \<Rightarrow> pyfloat) \<Rightarrow> jval \<Rightarrow> jval res" where
  "server_message tf v =
    (case (case v of VStr t \<Rightarrow> (case loads tf t of None \<Rightarrow> Inl ValueError | Some msgs \<Rightarrow>
         bind_res (if truthy msgs
                   then bind_res (item0 msgs) (\<lambda>x. case x of
                          VStr u \<Rightarrow> (case loads tf u of None \<Rightarrow> Inl ValueError | Some y \<Rightarrow> Inr y) | _ \<Rightarrow> Inl TypeError)
                   else Inr (VObj [])) (\<lambda>first. item_or ''message'' (VStr []) first))
       | _ \<Rightarrow> Inl TypeError) of
     Inl KeyError \<Rightarrow> Inl KeyError | Inl _ \<Rightarrow> Inr (VStr []) | Inr m \<Rightarrow> Inr m)"

definition error_message :: "(str \<Rightarrow> pyfloat) \<Rightarrow> str \<Rightarrow> jval res" where
  "error_message tf body = (case loads tf body of
       None \<Rightarrow> Inr (VStr body)
     | Some (VObj err) \<Rightarrow>
         (let m = or_else (get_or err ''message'' VNull) (VStr []) in
          bind_res (if truthy m then Inr m
                    else (case dget err ''_server_messages'' of None \<Rightarrow> Inr m | Some v \<Rightarrow> server_message tf v))
            (\<lambda>m. Inr (if truthy m then m else get_or err ''exc_type'' (VStr ''HTTP error''))))
     | Some _ \<Rightarrow> Inl AttributeError)"

definition sanitize_error :: "(str \<Rightarrow> pyfloat) \<Rightarrow> str option \<Rightarrow> str res" where
  "sanitize_error tf body = (case body of
       None \<Rightarrow> Inr ''HTTP error (unreadable body)''
     | Some b \<Rightarrow> bind_res (error_message tf b) (\<lambda>m. case m of
           VStr t \<Rightarrow> Inr (clean_text t) | VArr _ \<Rightarrow> Inl AttributeError | VObj _ \<Rightarrow> Inl AttributeError | _ \<Rightarrow> Inl TypeError))"

section \<open>The session\<close>

definition login_request :: "erp_config \<Rightarrow> http_request" where
  "login_request c = \<lparr>hr_method = ''POST'', hr_url = base_url c @ ''/api/method/login'',
     hr_headers = [(''Accept'', ''application/json'')],
     hr_body = FormBody [(''usr'', ''Administrator''), (''pwd'', ec_password c)]\<rparr>"

definition login :: "'w session \<Rightarrow> ('w client, unit) act" where
  "login S = seq (open_request S (login_request (ss_config S))) (\<lambda>reply. case reply of
       Answered t \<Rightarrow> seq (pure (decode_json S t)) (\<lambda>v. case v of
           VObj d \<Rightarrow> if dget d ''message'' = None then fail_with UncertainOutcome else upd (\<lambda>s. s\<lparr>cn_logged := True\<rparr>)
         | _ \<Rightarrow> fail_with UncertainOutcome)
     | Undecodable \<Rightarrow> fail_with ValueError
     | Broken e \<Rightarrow> fail_with e
     | _ \<Rightarrow> fail_with UncertainOutcome)"

definition api_request :: "'w session \<Rightarrow> str \<Rightarrow> str \<Rightarrow> jval option \<Rightarrow> (str \<times> str) list \<Rightarrow> http_request" where
  "api_request S meth path data params =
    \<lparr>hr_method = meth,
     hr_url = base_url (ss_config S) @ quote_path path @ (if params = [] then [] else CHR ''?'' # urlencode params),
     hr_headers = (''Accept'', ''application/json'') # (if data = None then [] else [(''Content-Type'', ''application/json'')]),
     hr_body = (case data of Some v \<Rightarrow> if truthy v then JsonBody v else NoBody | None \<Rightarrow> NoBody)\<rparr>"

definition ensure_login :: "'w session \<Rightarrow> ('w client, unit) act" where
  "ensure_login S = look cn_logged (\<lambda>logged. guard logged (login S))"

text \<open>\<open>retry\<close> is what an expired session leads to.\<close>

definition attempt :: "'w session \<Rightarrow> http_request \<Rightarrow> (int \<Rightarrow> bool \<Rightarrow> bool) \<Rightarrow> ('w client, jval) act \<Rightarrow> ('w client, jval) act" where
  "attempt S rq expired retry = seq (ensure_login S) (\<lambda>_. seq (open_request S rq) (\<lambda>reply. case reply of
       Answered t \<Rightarrow> pure (decode_json S t)
     | Undecodable \<Rightarrow> fail_with ValueError
     | HttpStatus code body \<Rightarrow> look cn_logged (\<lambda>logged.
         if expired code logged then retry
         else seq (pure (sanitize_error (ss_float S) body)) (\<lambda>m. reject (''ERPNext HTTP '' @ int_str code @ '': '' @ m)))
     | Broken e \<Rightarrow> fail_with e
     | _ \<Rightarrow> fail_with UncertainOutcome))"

definition session_request :: "'w session \<Rightarrow> http_request \<Rightarrow> ('w client, jval) act" where
  "session_request S rq = attempt S rq (\<lambda>code logged. code \<in> {401, 403} \<and> logged)
     (seq (upd (\<lambda>s. s\<lparr>cn_logged := False\<rparr>)) (\<lambda>_. seq (login S) (\<lambda>_. attempt S rq (\<lambda>_ _. False) (fail_with UncertainOutcome))))"

definition http_get :: "'w session \<Rightarrow> str \<Rightarrow> (str \<times> str) list \<Rightarrow> ('w client, jval) act" where
  "http_get S path params = session_request S (api_request S ''GET'' path None params)"

definition http_post :: "'w session \<Rightarrow> str \<Rightarrow> jval \<Rightarrow> ('w client, jval) act" where
  "http_post S path data = session_request S (api_request S ''POST'' path (Some data) [])"

definition http_put :: "'w session \<Rightarrow> str \<Rightarrow> jval \<Rightarrow> ('w client, jval) act" where
  "http_put S path data = session_request S (api_request S ''PUT'' path (Some data) [])"

definition http_delete :: "'w session \<Rightarrow> str \<Rightarrow> ('w client, jval) act" where
  "http_delete S path = session_request S (api_request S ''DELETE'' path None [])"

end
