(* ===== verification/ErpNext.thy ===== *)
theory ErpNext
  imports RestClient Imports
begin

text \<open>
  The ERPNext adapter (\<^verbatim>\<open>adapters/erpnext/erpnext_adapter.py\<close>): every operation of the provider
  contract as the requests it sends and what it makes of the answers. The answers are arbitrary
  JSON, so a field that the code passes on unchecked is a \<^typ>\<open>jval\<close>, and each access may raise
  what Python raises on a value of another type.

  \<^verbatim>\<open>float(text)\<close> and today's date are arguments of the adapter.
\<close>

section \<open>Amounts\<close>

text \<open>\<^verbatim>\<open>Decimal(text)\<close>: a number, an infinity, a quiet NaN with its sign and payload, or a
  signalling one.\<close>

datatype parsed_decimal = Num decimal | Inf bool | QuietNan bool str | SignalNan

definition number_value :: "bool \<Rightarrow> str \<Rightarrow> decimal" where
  "number_value neg t =
    (let whole = takeWhile is_digit t; rest = dropWhile is_digit t;
         dot = rest \<noteq> [] \<and> hd rest = CHR ''.'';
         fraction = (if dot then takeWhile is_digit (tl rest) else []);
         tail = (if dot then dropWhile is_digit (tl rest) else rest)
     in \<lparr>d_neg = neg, d_coef = str_nat (whole @ fraction), d_exp = the (exponent_of tail) - int (length fraction)\<rparr>)"

definition parse_decimal :: "str \<Rightarrow> parsed_decimal option" where
  "parse_decimal text =
    (let (neg, t) = drop_sign (lower (filter (\<lambda>c. c \<noteq> CHR ''_'') (strip text)))
     in if \<not> decimal_literal text then None
        else if t = ''inf'' \<or> t = ''infinity'' then Some (Inf neg)
        else if startswith t ''nan'' then Some (QuietNan neg (let p = drop 3 t in dropWhile (\<lambda>c. c = CHR ''0'') (drop (length p - dprec) p)))
        else if startswith t ''snan'' then Some SignalNan
        else Some (Num (number_value neg t)))"

text \<open>\<^verbatim>\<open>normalize()\<close>: rounded to the context, without trailing zeros.\<close>

fun drop_zeros :: "nat \<Rightarrow> decimal \<Rightarrow> decimal" where
  "drop_zeros 0 d = d"
| "drop_zeros (Suc k) d = (if d_coef d mod 10 = 0 \<and> d_coef d \<noteq> 0
     then drop_zeros k (d\<lparr>d_coef := d_coef d div 10, d_exp := d_exp d + 1\<rparr>) else d)"

definition normalize_decimal :: "decimal \<Rightarrow> decimal" where
  "normalize_decimal d = (let r = dfix d in
     if d_coef r = 0 then r\<lparr>d_exp := 0\<rparr> else drop_zeros (ndigits (d_coef r)) r)"

text \<open>\<^verbatim>\<open>str(d)\<close>: plain, or scientific for a positive exponent or a small number.\<close>

definition dec_str :: "decimal \<Rightarrow> str" where
  "dec_str d = (let s = nat_str (d_coef d); adjusted = d_exp d + int (length s) - 1 in
     if d_exp d \<le> 0 \<and> - 6 \<le> adjusted then format_f d
     else (if d_neg d then ''-'' else []) @ take 1 s @ (if length s = 1 then [] else CHR ''.'' # drop 1 s)
       @ ''E'' @ (if adjusted < 0 then '''' else ''+'') @ int_str adjusted)"

definition whole_decimal :: "decimal \<Rightarrow> bool" where
  "whole_decimal d = (0 \<le> d_exp d \<or> d_coef d mod 10 ^ nat (- d_exp d) = 0)"

definition whole_value :: "decimal \<Rightarrow> int" where
  "whole_value d = (if 0 \<le> d_exp d then dint 0 d else scoef d div 10 ^ nat (- d_exp d))"

text \<open>\<^verbatim>\<open>str\<close> of an integer of more than 4300 digits raises.\<close>

definition remote_amount :: "jval \<Rightarrow> str res" where
  "remote_amount raw = (let t = py_str raw in case parse_decimal t of
       None \<Rightarrow> Inr t
     | Some (Inf _) \<Rightarrow> Inl OverflowError
     | Some SignalNan \<Rightarrow> Inl InvalidOperation
     | Some (QuietNan neg p) \<Rightarrow> Inr ((if neg then ''-'' else []) @ ''NaN'' @ p)
     | Some (Num d) \<Rightarrow>
         if whole_decimal d
         then ensure ValueError (ndigits (nat \<bar>whole_value d\<bar>) \<le> 4300) (Inr (int_str (whole_value d)))
         else Inr (dec_str (normalize_decimal d)))"

section \<open>The adapter\<close>

record 'w next_adapter =
  na_session :: "'w session"
  na_scope :: "str set"
  na_float :: "str \<Rightarrow> pyfloat res"
  na_today :: str

text \<open>Records as the adapter returns them.\<close>

record remote_invoice =
  ri_reference :: jval
  ri_status :: str
  ri_total :: str
  ri_currency :: jval
  ri_open :: str
  ri_issued :: jval
  ri_due :: jval
  ri_payload :: jval

record remote_payment =
  rp_reference :: jval
  rp_invoice :: jval
  rp_amount :: str
  rp_currency :: jval
  rp_evidence :: jval
  rp_account :: str
  rp_reversal_of :: "str option"

record remote_posting =
  rq_outcome :: posting_outcome
  rq_reference :: "jval option"
  rq_reason :: "str option"

record remote_query =
  rl_kind :: str
  rl_references :: "jval list"
  rl_scoped :: bool
  rl_total :: nat

type_synonym ('w, 'a) next_act = "('w client, 'a) act"

definition resolve_draft_ref :: "str \<Rightarrow> str" where
  "resolve_draft_ref r = (if startswith r ''DRAFT:'' then drop 6 r else r)"

definition invoice_path :: "str \<Rightarrow> str" where
  "invoice_path name = ''/api/resource/Sales Invoice/'' @ name"

definition payment_path :: "str \<Rightarrow> str" where
  "payment_path name = ''/api/resource/Payment Entry/'' @ name"

text \<open>\<^verbatim>\<open>result["data"]["name"]\<close>.\<close>

definition new_name :: "jval \<Rightarrow> jval res" where
  "new_name v = bind_res (item ''data'' v) (item ''name'')"

subsection \<open>Drafts\<close>

definition line_payload :: "'w next_adapter \<Rightarrow> invoice_line \<Rightarrow> jval res" where
  "line_payload A l = bind_res (na_float A (il_quantity l)) (\<lambda>q. bind_res (na_float A (il_price l)) (\<lambda>p.
     Inr (VObj [(''item_code'', VStr (il_service l)), (''description'', VStr (il_description l)),
       (''qty'', VFloat q), (''rate'', VFloat p)])))"

definition draft_payload :: "draft_invoice_command \<Rightarrow> jval list \<Rightarrow> jval" where
  "draft_payload c lines = VObj
     [(''doctype'', VStr ''Sales Invoice''), (''customer'', VStr (dc_customer c)),
      (''posting_date'', VStr (dc_issued c)), (''due_date'', VStr (dc_due c)), (''items'', VArr lines), (''docstatus'', VInt 0),
      (''company'', VStr (fi_unit (dc_identity c))),
      (''currency'', VStr (case dc_lines c of [] \<Rightarrow> ''IDR'' | l # _ \<Rightarrow> il_currency l))]"

definition next_create_draft :: "'w next_adapter \<Rightarrow> draft_invoice_command \<Rightarrow> ('w, str) next_act" where
  "next_create_draft A c =
     (if fi_unit (dc_identity c) \<notin> na_scope A
      then reject (''Unit '' @ fi_unit (dc_identity c) @ '' not in authorized scope'')
      else seq (pure (map_res (line_payload A) (dc_lines c))) (\<lambda>lines.
        seq (http_post (na_session A) ''/api/resource/Sales Invoice'' (draft_payload c lines)) (\<lambda>v.
        seq (pure (new_name v)) (\<lambda>name. ret (''DRAFT:'' @ py_str name)))))"

subsection \<open>Reading an invoice\<close>

text \<open>\<^verbatim>\<open>not self._scope or (company and company not in self._scope)\<close>, negated.\<close>

definition doc_allowed :: "str set \<Rightarrow> jval \<Rightarrow> bool res" where
  "doc_allowed scope doc = bind_res (item_or ''company'' (VStr []) doc) (\<lambda>company.
     if scope = {} then Inr False else if \<not> truthy company then Inr True else member_of scope company)"

definition doc_status :: "jval \<Rightarrow> str" where
  "doc_status v = (if is_num 0 v then ''DRAFT'' else if is_num 1 v then ''POSTED'' else if is_num 2 v then ''CANCELLED''
     else ''UNKNOWN'')"

definition invoice_of :: "jval \<Rightarrow> remote_invoice res" where
  "invoice_of doc =
     bind_res (item_or ''docstatus'' (VInt 0) doc) (\<lambda>status.
     bind_res (item ''name'' doc) (\<lambda>name.
     bind_res (bind_res (item_or ''grand_total'' (VStr ''0'') doc) remote_amount) (\<lambda>total.
     bind_res (item_or ''currency'' (VStr ''IDR'') doc) (\<lambda>currency.
     bind_res (bind_res (item_or ''outstanding_amount'' (VStr ''0'') doc) remote_amount) (\<lambda>outstanding.
     bind_res (item_or ''posting_date'' (VStr []) doc) (\<lambda>issued.
     bind_res (item_or ''due_date'' (VStr []) doc) (\<lambda>due.
     Inr \<lparr>ri_reference = name, ri_status = doc_status status, ri_total = total, ri_currency = currency, ri_open = outstanding,
       ri_issued = issued, ri_due = due, ri_payload = doc\<rparr>)))))))"

text \<open>The document a request answers with, if its company may be seen.\<close>

definition scoped_doc :: "'w next_adapter \<Rightarrow> str \<Rightarrow> str \<Rightarrow> ('w, jval) next_act" where
  "scoped_doc A path note = seq (http_get (na_session A) path []) (\<lambda>v.
     seq (pure (item ''data'' v)) (\<lambda>doc.
     seq (pure (doc_allowed (na_scope A) doc)) (\<lambda>ok.
     seq (guard ok (reject note)) (\<lambda>_. ret doc))))"

definition next_read_invoice :: "'w next_adapter \<Rightarrow> str \<Rightarrow> ('w, remote_invoice) next_act" where
  "next_read_invoice A ref = seq (scoped_doc A (invoice_path (resolve_draft_ref ref)) (''Invoice '' @ ref @ '' not in authorized scope''))
     (\<lambda>doc. pure (invoice_of doc))"

subsection \<open>Posting\<close>

definition rejected_posting :: "str \<Rightarrow> remote_posting" where
  "rejected_posting why = \<lparr>rq_outcome = O_REJECTED, rq_reference = None, rq_reason = Some why\<rparr>"

definition posted_posting :: "jval \<Rightarrow> remote_posting" where
  "posted_posting name = \<lparr>rq_outcome = O_POSTED, rq_reference = Some name, rq_reason = None\<rparr>"

text \<open>\<^verbatim>\<open>except DocumentRejected\<close>.\<close>

definition on_reject :: "('w, 'a) next_act \<Rightarrow> ('w, 'a) next_act \<Rightarrow> ('w, 'a) next_act" where
  "on_reject m h = handle m (\<lambda>e. if e = DocumentRejected then h else fail_with e)"

definition some_read :: "'w next_adapter \<Rightarrow> str \<Rightarrow> ('w, remote_invoice option) next_act" where
  "some_read A ref = on_reject (seq (next_read_invoice A ref) (\<lambda>r. ret (Some r))) (ret None)"

definition docstatus_payload :: "int \<Rightarrow> jval" where
  "docstatus_payload n = VObj [(''docstatus'', VInt n)]"

definition submit_draft :: "'w next_adapter \<Rightarrow> str \<Rightarrow> ('w, remote_posting) next_act" where
  "submit_draft A ref = on_reject
     (seq (http_put (na_session A) (invoice_path (resolve_draft_ref ref)) (docstatus_payload 1)) (\<lambda>_.
      seq (next_read_invoice A ref) (\<lambda>r. ret (posted_posting (ri_reference r)))))
     (look cn_note (\<lambda>note. ret (rejected_posting note)))"

definition next_post_invoice :: "'w next_adapter \<Rightarrow> str \<Rightarrow> ('w, remote_posting) next_act" where
  "next_post_invoice A ref = seq (some_read A ref) (\<lambda>current. case current of
       None \<Rightarrow> ret (rejected_posting ''Invoice not found'')
     | Some r \<Rightarrow>
         if ri_status r = ''POSTED'' then ret (posted_posting (ri_reference r))
         else if ri_status r = ''CANCELLED'' then ret (rejected_posting ''Invoice is cancelled'')
         else submit_draft A ref)"

definition next_reconcile_post :: "'w next_adapter \<Rightarrow> str \<Rightarrow> ('w, remote_posting) next_act" where
  "next_reconcile_post A ref = seq (some_read A ref) (\<lambda>current. case current of
       None \<Rightarrow> ret (rejected_posting ''Draft not found'')
     | Some r \<Rightarrow>
         if ri_status r = ''POSTED'' then ret (posted_posting (ri_reference r))
         else ret (rejected_posting (''Draft in status '' @ ri_status r)))"

subsection \<open>Payments\<close>

text \<open>\<^verbatim>\<open>re.match(r"^[A-Z]{3}$", s)\<close>: the dollar also matches before a final newline.\<close>

definition iso4217 :: "str \<Rightarrow> bool" where
  "iso4217 s = (currency_code s \<or> length s = 4 \<and> last s = CHR 0x0A \<and> currency_code (butlast s))"

definition clause :: "str list \<Rightarrow> json" where
  "clause ps = JArr (map JStr ps)"

definition filters_text :: "json list \<Rightarrow> str" where
  "filters_text cs = json_text '', '' '': '' (JArr cs)"

text \<open>The abbreviation that the company's own document replaces. The company is a string of the
  authorized scope by then; \<^verbatim>\<open>upper\<close> of the first three characters; two letters below 256 have their capital beyond it
  and stay here.\<close>

definition upper_char :: "char \<Rightarrow> str" where
  "upper_char c = (let n = (of_char c :: nat) in
     if n = 223 then ''SS'' else if is_lower c \<or> (224 \<le> n \<and> n \<noteq> 247 \<and> n \<noteq> 255) then [char_of (n - 32)] else [c])"

definition upper :: "str \<Rightarrow> str" where
  "upper s = concat (map upper_char s)"

definition default_abbr :: "jval \<Rightarrow> jval res" where
  "default_abbr company = (case company of
       VStr s \<Rightarrow> Inr (VStr (if CHR ''-'' \<in> set s then takeWhile (\<lambda>c. c \<noteq> CHR ''-'') s else upper (take 3 s)))
     | _ \<Rightarrow> Inl TypeError)"

definition payment_payload :: "'w next_adapter \<Rightarrow> draft_payment_command \<Rightarrow> jval \<Rightarrow> jval \<Rightarrow> jval \<Rightarrow> pyfloat \<Rightarrow> jval" where
  "payment_payload A c party company abbr amount = VObj
     [(''doctype'', VStr ''Payment Entry''), (''payment_type'', VStr ''Receive''), (''party_type'', VStr ''Customer''),
      (''party'', party), (''company'', company), (''paid_to'', VStr (''Cash - '' @ py_str abbr)),
      (''paid_amount'', VFloat amount), (''received_amount'', VFloat amount),
      (''source_exchange_rate'', VFloat (Finite 1 ''1.0'')), (''target_exchange_rate'', VFloat (Finite 1 ''1.0'')),
      (''reference_no'', VStr (pc_evidence c)), (''reference_date'', VStr (na_today A)),
      (''remarks'', VStr (''Evidence: '' @ pc_evidence c @ ''; Account: '' @ pc_account c)),
      (''references'', VArr [VObj [(''reference_doctype'', VStr ''Sales Invoice''),
         (''reference_name'', VStr (resolve_draft_ref (pc_invoice c))), (''allocated_amount'', VFloat amount)]])]"

text \<open>From the invoice on: its customer and company, the company's cash account, the entry and its
  submission.\<close>

definition enter_payment :: "'w next_adapter \<Rightarrow> draft_payment_command \<Rightarrow> jval \<Rightarrow> jval \<Rightarrow> jval \<Rightarrow> ('w, jval) next_act" where
  "enter_payment A c party company abbr =
     seq (pure (na_float A (pc_amount c))) (\<lambda>amount.
     seq (http_post (na_session A) ''/api/resource/Payment Entry'' (payment_payload A c party company abbr amount)) (\<lambda>v.
     seq (pure (new_name v)) (\<lambda>name.
     seq (http_put (na_session A) (payment_path (py_str name)) (docstatus_payload 1)) (\<lambda>_.
     ret name))))"

definition pay_invoice :: "'w next_adapter \<Rightarrow> draft_payment_command \<Rightarrow> remote_invoice \<Rightarrow> ('w, jval) next_act" where
  "pay_invoice A c invoice =
     seq (pure (item_or ''customer'' VNull (ri_payload invoice))) (\<lambda>party.
     seq (pure (item_or ''company'' VNull (ri_payload invoice))) (\<lambda>company.
     seq (guard (truthy party) (reject (''Invoice '' @ pc_invoice c @ '' has no customer''))) (\<lambda>_.
     seq (guard (truthy company) (reject (''Invoice '' @ pc_invoice c @ '' has no company''))) (\<lambda>_.
     seq (pure (default_abbr company)) (\<lambda>abbr.
     seq (http_get (na_session A) (''/api/resource/Company/'' @ py_str company) []) (\<lambda>found.
     seq (pure (bind_res (item ''data'' found) (item_or ''abbr'' abbr))) (\<lambda>abbr.
     enter_payment A c party company abbr)))))))"

definition next_record_payment :: "'w next_adapter \<Rightarrow> draft_payment_command \<Rightarrow> ('w, jval) next_act" where
  "next_record_payment A c =
     (if strip (pc_evidence c) = [] then reject ''Payment requires non-blank evidence_ref''
      else if \<not> iso4217 (pc_currency c) then reject (''Payment currency must be ISO-4217 uppercase, got '' @ repr_str (pc_currency c))
      else
      seq (http_get (na_session A) ''/api/resource/Payment Entry''
        [(''filters'', filters_text [clause [''reference_no'', ''='', pc_evidence c]]), (''limit_page_length'', ''1'')]) (\<lambda>found.
      seq (pure (item_or ''data'' VNull found)) (\<lambda>existing.
      seq (guard (\<not> truthy existing) (reject (''Duplicate evidence_ref '' @ pc_evidence c))) (\<lambda>_.
      seq (next_read_invoice A (pc_invoice c)) (pay_invoice A c)))))"

text \<open>\<^verbatim>\<open>s.split("Account: ")[-1]\<close>.\<close>

fun after :: "str \<Rightarrow> str \<Rightarrow> str option" where
  "after n [] = None"
| "after n (c # s) = (if prefix n (c # s) then Some (drop (length n) (c # s)) else after n s)"

function last_part :: "str \<Rightarrow> str \<Rightarrow> str" where
  "last_part n s = (case after n s of Some r \<Rightarrow> if length r < length s then last_part n r else s | None \<Rightarrow> s)"
  by pat_completeness auto
termination
  by (relation "measure (\<lambda>(n, s). length s)") auto

declare last_part.simps [simp del]

definition account_of :: "jval \<Rightarrow> str res" where
  "account_of remarks = (let k = ''Account: '' in case remarks of
       VStr s \<Rightarrow> Inr (if occurs k s then last_part k s else [])
     | VArr xs \<Rightarrow> if VStr k \<in> set xs then Inl AttributeError else Inr []
     | VObj d \<Rightarrow> if dget d k \<noteq> None then Inl AttributeError else Inr []
     | _ \<Rightarrow> Inl TypeError)"

definition payment_of :: "str option \<Rightarrow> jval \<Rightarrow> remote_payment res" where
  "payment_of reversal_of doc =
     bind_res (item_or ''references'' VNull doc) (\<lambda>raw.
     bind_res (let refs = or_else raw (VArr []) in
        if truthy refs then bind_res (item0 refs) (item_or ''reference_name'' (VStr [])) else Inr (VStr [])) (\<lambda>invoice.
     bind_res (item ''name'' doc) (\<lambda>name.
     bind_res (bind_res (item_or ''paid_amount'' (VStr ''0'') doc) remote_amount) (\<lambda>amount.
     bind_res (item_or ''currency'' (VStr ''IDR'') doc) (\<lambda>currency.
     bind_res (item_or ''reference_no'' (VStr []) doc) (\<lambda>evidence.
     bind_res (bind_res (item_or ''remarks'' (VStr []) doc) account_of) (\<lambda>account.
     Inr \<lparr>rp_reference = name, rp_invoice = invoice, rp_amount = amount, rp_currency = currency, rp_evidence = evidence,
       rp_account = account, rp_reversal_of = reversal_of\<rparr>)))))))"

definition reversal_handle :: "str \<Rightarrow> str option" where
  "reversal_handle ref = (if startswith ref ''REV:'' then Some (drop 4 ref) else None)"

definition next_read_payment :: "'w next_adapter \<Rightarrow> str \<Rightarrow> ('w, remote_payment) next_act" where
  "next_read_payment A ref =
     seq (scoped_doc A (payment_path (case reversal_handle ref of Some n \<Rightarrow> n | None \<Rightarrow> resolve_draft_ref ref))
            (''Payment '' @ ref @ '' not in authorized scope''))
       (\<lambda>doc. pure (payment_of (reversal_handle ref) doc))"

definition next_reverse_payment :: "'w next_adapter \<Rightarrow> reversal_command \<Rightarrow> ('w, str) next_act" where
  "next_reverse_payment A c = (let name = resolve_draft_ref (rc_payment c) in
     seq (next_read_payment A (rc_payment c)) (\<lambda>_.
     seq (http_get (na_session A) (payment_path name) []) (\<lambda>v.
     seq (pure (bind_res (item ''data'' v) (item_or ''docstatus'' (VInt 0)))) (\<lambda>status.
     seq (guard (\<not> is_num 2 status) (reject (''Payment '' @ rc_payment c @ '' already reversed''))) (\<lambda>_.
     seq (guard (is_num 1 status) (reject (''Cannot reverse payment in docstatus '' @ py_str status @ '' (expected submitted)''))) (\<lambda>_.
     seq (http_post (na_session A) ''/api/method/frappe.client.cancel''
       (VObj [(''doctype'', VStr ''Payment Entry''), (''name'', VStr name)])) (\<lambda>_.
     ret (''REV:'' @ name))))))))"

definition next_cancel_invoice :: "'w next_adapter \<Rightarrow> str \<Rightarrow> ('w, unit) next_act" where
  "next_cancel_invoice A ref = (let name = resolve_draft_ref ref in
     seq (next_read_invoice A ref) (\<lambda>r.
     if ri_status r = ''DRAFT'' then seq (http_delete (na_session A) (invoice_path name)) (\<lambda>_. ret ())
     else if ri_status r = ''POSTED'' then seq (http_put (na_session A) (invoice_path name) (docstatus_payload 2)) (\<lambda>_. ret ())
     else reject (''Cannot cancel invoice in status '' @ ri_status r)))"

subsection \<open>Queries\<close>

text \<open>\<^verbatim>\<open>company in [...]\<close>, and the default of all authorized units.\<close>

definition units_clause :: "str set \<Rightarrow> json" where
  "units_clause scope = JArr [JStr ''company'', JStr ''in'', JArr (map JStr (sorted_list_of_set scope))]"

definition scope_clause :: "str set \<Rightarrow> json" where
  "scope_clause scope = (case sorted_list_of_set scope of [u] \<Rightarrow> clause [''company'', ''='', u] | _ \<Rightarrow> units_clause scope)"

definition docstatus_of :: "str \<Rightarrow> int option" where
  "docstatus_of status = dget [(''DRAFT'', 0), (''POSTED'', 1), (''CANCELLED'', 2)] status"

definition given :: "str option \<Rightarrow> bool" where
  "given v = (v \<noteq> None \<and> v \<noteq> Some [])"

definition query_clauses :: "str set \<Rightarrow> str option \<Rightarrow> str option \<Rightarrow> str option \<Rightarrow> json list" where
  "query_clauses scope status unit customer =
     (if given unit then clause [''company'', ''='', the unit] else scope_clause scope) #
     (if given status then (case docstatus_of (the status) of
        Some n \<Rightarrow> [JArr [JStr ''docstatus'', JStr ''='', JInt n]] | None \<Rightarrow> []) else []) @
     (if given customer then [clause [''customer'', ''='', the customer]] else [])"

definition listing :: "'w next_adapter \<Rightarrow> str \<Rightarrow> (str \<times> str) list \<Rightarrow> ('w, jval) next_act" where
  "listing A path params = seq (http_get (na_session A) path params) (\<lambda>v. pure (item_or ''data'' (VArr []) v))"

definition next_query_invoices ::
  "'w next_adapter \<Rightarrow> str option \<Rightarrow> str option \<Rightarrow> str option \<Rightarrow> ('w, remote_query) next_act" where
  "next_query_invoices A status unit customer =
     (if given unit \<and> the unit \<notin> na_scope A
      then ret \<lparr>rl_kind = ''INVOICE'', rl_references = [], rl_scoped = True, rl_total = 0\<rparr>
      else seq (listing A ''/api/resource/Sales Invoice''
        [(''fields'', ''['' @ json_string ''name'' @ '']''), (''limit_page_length'', ''1000''),
         (''filters'', filters_text (query_clauses (na_scope A) status unit customer))]) (\<lambda>v.
      seq (pure (bind_res (items v) (map_res (item ''name'')))) (\<lambda>names.
      ret \<lparr>rl_kind = ''INVOICE'', rl_references = names, rl_scoped = True, rl_total = length names\<rparr>)))"

definition next_ping :: "'w next_adapter \<Rightarrow> ('w, bool) next_act" where
  "next_ping A = handle (seq (http_get (na_session A) ''/api/method/ping'' []) (\<lambda>_. ret True))
     (\<lambda>e. if e = DocumentRejected then ret False else fail_with UncertainOutcome)"

text \<open>The name of the first payment that the server lists as submitted.\<close>

definition submitted_name :: "jval \<Rightarrow> jval option res" where
  "submitted_name v = bind_res (items v) (\<lambda>ds.
     bind_res (map_res (\<lambda>d. bind_res (item_or ''docstatus'' VNull d) (\<lambda>n. Inr (d, is_num 1 n))) ds) (\<lambda>marked.
     case filter snd marked of [] \<Rightarrow> Inr None | (d, _) # _ \<Rightarrow> bind_res (item ''name'' d) (\<lambda>n. Inr (Some n))))"

definition next_reconcile_payment :: "'w next_adapter \<Rightarrow> str \<Rightarrow> ('w, remote_payment) next_act" where
  "next_reconcile_payment A evidence =
     seq (listing A ''/api/resource/Payment Entry''
       [(''fields'', ''['' @ json_string ''name'' @ '','' @ json_string ''docstatus'' @ '']''),
        (''filters'', filters_text (clause [''reference_no'', ''='', evidence] #
           (if na_scope A = {} then [] else [units_clause (na_scope A)])))]) (\<lambda>v.
     seq (pure (submitted_name v)) (\<lambda>name. case name of
         None \<Rightarrow> reject (''No applied payment with evidence '' @ evidence)
       | Some (VStr n) \<Rightarrow> next_read_payment A n
       | Some _ \<Rightarrow> fail_with AttributeError))"

definition next_known_drafts :: "'w next_adapter \<Rightarrow> ('w, str set) next_act" where
  "next_known_drafts A = seq (next_query_invoices A (Some ''DRAFT'') None None)
     (\<lambda>q. ret (set (map (\<lambda>r. ''DRAFT:'' @ py_str r) (rl_references q))))"

definition evidence_pair :: "jval \<Rightarrow> (jval \<times> jval) res" where
  "evidence_pair d = bind_res (item ''name'' d) (\<lambda>n. bind_res (item_or ''reference_no'' (VStr []) d) (\<lambda>e. Inr (n, e)))"

definition next_evidence_index :: "'w next_adapter \<Rightarrow> ('w, (jval \<times> jval) list) next_act" where
  "next_evidence_index A =
     (if na_scope A = {} then ret []
      else seq (listing A ''/api/resource/Payment Entry''
        [(''fields'', ''['' @ json_string ''name'' @ '','' @ json_string ''reference_no'' @ '']''), (''limit_page_length'', ''1000''),
         (''filters'', filters_text [units_clause (na_scope A)])]) (\<lambda>v.
      pure (bind_res (items v) (map_res evidence_pair))))"

text \<open>Every operation of the adapter, to state what holds of all of them.\<close>

datatype next_op =
    NCreate draft_invoice_command | NRead str | NPost str | NPay draft_payment_command | NReadPayment str
  | NReverse reversal_command | NCancel str | NQuery "str option" "str option" "str option" | NPing
  | NReconcilePost str | NReconcilePayment str | NKnownDrafts | NEvidenceIndex

datatype next_answer =
    AText str | AInvoice remote_invoice | APosting remote_posting | AName jval | APayment remote_payment | ADone
  | AQuery remote_query | AUp bool | ADrafts "str set" | AIndex "(jval \<times> jval) list"

definition as_answer :: "('a \<Rightarrow> next_answer) \<Rightarrow> ('w, 'a) next_act \<Rightarrow> ('w, next_answer) next_act" where
  "as_answer f m = seq m (\<lambda>x. ret (f x))"

fun next_exec :: "'w next_adapter \<Rightarrow> next_op \<Rightarrow> ('w, next_answer) next_act" where
  "next_exec A (NCreate c) = as_answer AText (next_create_draft A c)"
| "next_exec A (NRead r) = as_answer AInvoice (next_read_invoice A r)"
| "next_exec A (NPost r) = as_answer APosting (next_post_invoice A r)"
| "next_exec A (NPay c) = as_answer AName (next_record_payment A c)"
| "next_exec A (NReadPayment r) = as_answer APayment (next_read_payment A r)"
| "next_exec A (NReverse c) = as_answer AText (next_reverse_payment A c)"
| "next_exec A (NCancel r) = as_answer (\<lambda>_. ADone) (next_cancel_invoice A r)"
| "next_exec A (NQuery s u c) = as_answer AQuery (next_query_invoices A s u c)"
| "next_exec A NPing = as_answer AUp (next_ping A)"
| "next_exec A (NReconcilePost r) = as_answer APosting (next_reconcile_post A r)"
| "next_exec A (NReconcilePayment e) = as_answer APayment (next_reconcile_payment A e)"
| "next_exec A NKnownDrafts = as_answer ADrafts (next_known_drafts A)"
| "next_exec A NEvidenceIndex = as_answer AIndex (next_evidence_index A)"

text \<open>A history of operations, with what each ended in.\<close>

fun next_run :: "'w next_adapter \<Rightarrow> next_op list \<Rightarrow> 'w client \<Rightarrow> next_answer res list \<times> 'w client" where
  "next_run A [] s = ([], s)"
| "next_run A (x # xs) s = (case next_exec A x s of (r, t) \<Rightarrow> (case next_run A xs t of (rs, u) \<Rightarrow> (r # rs, u)))"

end
