(* ===== verification/RestClaims.thy ===== *)
theory RestClaims
  imports RestClient
begin

text \<open>
  What the session guarantees: how often a request is sent, where the password goes, and what an
  error message can contain.
\<close>

named_theorems alike_rules \<open>rules of agreement up to the content of the login form\<close>

section \<open>Requests of one call\<close>

lemma open_request_run:
  "open_request S rq s = (let reply = fst (ss_open S rq (cn_world s)) in
     (Inr reply, s\<lparr>cn_sent := cn_sent s @ [(rq, reply)], cn_world := snd (ss_open S rq (cn_world s))\<rparr>))"
  by (simp add: open_request_def split: prod.splits)

definition refused :: "http_reply \<Rightarrow> bool" where
  "refused reply = (case reply of HttpStatus code _ \<Rightarrow> code \<in> {401, 403} | _ \<Rightarrow> False)"

text \<open>A login, answered somehow; nothing if the client is logged in.\<close>

definition logins :: "'w session \<Rightarrow> bool \<Rightarrow> (http_request \<times> http_reply) list \<Rightarrow> bool" where
  "logins S logged l = (map fst l = (if logged then [] else [login_request (ss_config S)]))"

lemma login_run:
  assumes "login S s = (r, t)"
  shows "\<exists>l. cn_sent t = cn_sent s @ l \<and> logins S False l" "r = Inr () \<Longrightarrow> cn_logged t"
proof -
  let ?reply = "fst (ss_open S (login_request (ss_config S)) (cn_world s))"
  have run: "login S s = (case ?reply of
       Answered t \<Rightarrow> seq (pure (decode_json S t)) (\<lambda>v. case v of
           VObj d \<Rightarrow> if dget d ''message'' = None then fail_with UncertainOutcome else upd (\<lambda>s. s\<lparr>cn_logged := True\<rparr>)
         | _ \<Rightarrow> fail_with UncertainOutcome)
     | Undecodable \<Rightarrow> fail_with ValueError | Broken e \<Rightarrow> fail_with e | _ \<Rightarrow> fail_with UncertainOutcome)
     (s\<lparr>cn_sent := cn_sent s @ [(login_request (ss_config S), ?reply)], cn_world := snd (ss_open S (login_request (ss_config S)) (cn_world s))\<rparr>)"
    unfolding login_def by (simp add: seq_def open_request_run Let_def)
  then have "cn_sent t = cn_sent s @ [(login_request (ss_config S), ?reply)]"
    using assms by (auto simp: act_defs split: http_reply.splits sum.splits jval.splits if_splits)
  then show "\<exists>l. cn_sent t = cn_sent s @ l \<and> logins S False l" by (auto simp: logins_def)
  assume "r = Inr ()"
  with run assms show "cn_logged t"
    by (auto simp: act_defs split: http_reply.splits sum.splits jval.splits if_splits)
qed

lemma ensure_login_run:
  assumes "ensure_login S s = (r, t)"
  shows "\<exists>l. cn_sent t = cn_sent s @ l \<and> logins S (cn_logged s) l" "cn_logged s \<Longrightarrow> r = Inr () \<and> t = s"
proof -
  have "(if cn_logged s then ret () else login S) s = (r, t)" using assms by (simp add: ensure_login_def guard_def)
  then show "\<exists>l. cn_sent t = cn_sent s @ l \<and> logins S (cn_logged s) l" "cn_logged s \<Longrightarrow> r = Inr () \<and> t = s"
    using login_run(1) [of S s r t] by (simp_all add: logins_def split: if_splits)
qed

text \<open>A call ends without its request, after it, or goes on to the retry.\<close>

lemma attempt_cases:
  assumes "attempt S rq expired retry s = (r, t)"
  obtains (stopped) e l where "r = Inl e" "cn_sent t = cn_sent s @ l" "logins S False l" "\<not> cn_logged s"
  | (ended) l reply where "cn_sent t = cn_sent s @ l @ [(rq, reply)]" "logins S (cn_logged s) l"
  | (expired) u l code body where "cn_sent u = cn_sent s @ l @ [(rq, HttpStatus code body)]" "logins S (cn_logged s) l"
      "expired code (cn_logged u)" "retry u = (r, t)"
proof -
  obtain r0 u where l: "ensure_login S s = (r0, u)" by fastforce
  obtain l where el: "cn_sent u = cn_sent s @ l" "logins S (cn_logged s) l" using ensure_login_run(1) [OF l] by blast
  show thesis
  proof (cases r0)
    case (Inl e)
    with l assms have "r = Inl e" "t = u" by (simp_all add: attempt_def seq_def)
    moreover have "\<not> cn_logged s" using ensure_login_run(2) [OF l] Inl by auto
    ultimately show thesis using el stopped by simp
  next
    case (Inr x)
    let ?reply = "fst (ss_open S rq (cn_world u))"
    let ?u = "u\<lparr>cn_sent := cn_sent u @ [(rq, ?reply)], cn_world := snd (ss_open S rq (cn_world u))\<rparr>"
    have rest: "(case ?reply of
         Answered t \<Rightarrow> pure (decode_json S t) | Undecodable \<Rightarrow> fail_with ValueError
       | HttpStatus code body \<Rightarrow> look cn_logged (\<lambda>logged. if expired code logged then retry
           else seq (pure (sanitize_error (ss_float S) body)) (\<lambda>m. reject (''ERPNext HTTP '' @ int_str code @ '': '' @ m)))
       | Broken e \<Rightarrow> fail_with e | _ \<Rightarrow> fail_with UncertainOutcome) ?u = (r, t)"
      using assms l Inr by (simp add: attempt_def seq_def open_request_run Let_def)
    have sent: "cn_sent ?u = cn_sent s @ l @ [(rq, ?reply)]" using el(1) by simp
    show thesis
    proof (cases "\<exists>code body. ?reply = HttpStatus code body \<and> expired code (cn_logged ?u)")
      case True
      then obtain code body where h: "?reply = HttpStatus code body" "expired code (cn_logged ?u)" by blast
      with rest have "retry ?u = (r, t)" by simp
      with h sent el(2) show thesis by (intro expired [of ?u]) simp_all
    next
      case False
      with rest have "cn_sent t = cn_sent ?u"
        by (auto simp: act_defs reject_def split: http_reply.splits sum.splits prod.splits)
      with sent el(2) show thesis by (intro ended) simp_all
    qed
  qed
qed

text \<open>The replies to one request.\<close>

definition replies :: "http_request \<Rightarrow> (http_request \<times> http_reply) list \<Rightarrow> http_reply list" where
  "replies rq l = map snd (filter (\<lambda>(q, _). q = rq) l)"

lemma replies_simps [simp]:
  "replies rq (l @ k) = replies rq l @ replies rq k" "replies rq ((rq, reply) # l) = reply # replies rq l" "replies rq [] = []"
  by (simp_all add: replies_def)

lemma replies_logins: "logins S b l \<Longrightarrow> rq \<noteq> login_request (ss_config S) \<Longrightarrow> replies rq l = []"
  by (auto simp: logins_def replies_def filter_empty_conv map_eq_Cons_conv split: if_splits)

lemma logins_facts: "logins S b l \<Longrightarrow> fst ` set l \<subseteq> {login_request (ss_config S)} \<and> length l \<le> 1"
proof -
  assume "logins S b l"
  then have m: "map fst l = (if b then [] else [login_request (ss_config S)])" by (simp add: logins_def)
  then have "length (map fst l) \<le> 1" "set (map fst l) \<subseteq> {login_request (ss_config S)}" by (simp_all only: m) auto
  then show ?thesis by simp
qed

text \<open>The exchanges of one call: logins, and the request once or, after a refusal, twice.\<close>

lemma session_run:
  assumes "session_request S rq s = (r, t)"
  obtains l where "cn_sent t = cn_sent s @ l" "length l \<le> 4" "fst ` set l \<subseteq> {rq, login_request (ss_config S)}"
    "rq \<noteq> login_request (ss_config S) \<Longrightarrow> length (replies rq l) \<le> 2 \<and> (\<forall>reply \<in> set (butlast (replies rq l)). refused reply)"
  using assms unfolding session_request_def
proof (cases rule: attempt_cases)
  case (stopped e l)
  then show ?thesis using replies_logins [OF stopped(3)] logins_facts by (intro that [of l]) fastforce+
next
  case (ended l reply)
  then show ?thesis using replies_logins [OF ended(2)] logins_facts by (intro that [of "l @ [(rq, reply)]"]) fastforce+
next
  case (expired u l code body)
  note l = replies_logins [OF expired(2)] logins_facts [OF expired(2)]
  have ref: "refused (HttpStatus code body)" using expired(3) by (simp add: refused_def)
  let ?u = "u\<lparr>cn_logged := False\<rparr>"
  obtain r1 v where lg: "login S ?u = (r1, v)" by fastforce
  obtain k where k: "cn_sent v = cn_sent ?u @ k" "logins S False k" using login_run(1) [OF lg] by blast
  note k' = replies_logins [OF k(2)] logins_facts [OF k(2)]
  show ?thesis
  proof (cases r1)
    case (Inl e)
    with lg expired(4) have "t = v" by (simp add: seq_def)
    with k expired(1) l k' show ?thesis by (intro that [of "l @ [(rq, HttpStatus code body)] @ k"]) auto
  next
    case (Inr x)
    then have logged: "cn_logged v" using login_run(2) [OF lg] by simp
    have "attempt S rq (\<lambda>_ _. False) (fail_with UncertainOutcome) v = (r, t)"
      using expired(4) lg Inr by (simp add: seq_def)
    then have "\<exists>reply. cn_sent t = cn_sent v @ [(rq, reply)]"
    proof (cases rule: attempt_cases)
      case (ended m reply)
      then show ?thesis using logged by (auto simp: logins_def)
    qed (use logged in simp_all)
    then obtain reply where "cn_sent t = cn_sent s @ l @ [(rq, HttpStatus code body)] @ k @ [(rq, reply)]"
      using k expired(1) by auto
    with ref l k' show ?thesis by (intro that [of "l @ [(rq, HttpStatus code body)] @ k @ [(rq, reply)]"]) auto
  qed
qed

lemma session_sends:
  "session_request S rq s = (r, t) \<Longrightarrow> \<exists>l. cn_sent t = cn_sent s @ l \<and> fst ` set l \<subseteq> {rq, login_request (ss_config S)}"
  by (rule session_run) auto

text \<open>C20. No request is repeated blindly. Whatever the server answers, one call of the session sends
  nothing but logins and its own request, four in all at most; the request itself is sent at most
  twice, and a second time only when the server answered the first one with 401 or 403.\<close>

theorem request_repeats:
  assumes "session_request S rq s = (r, t)" "rq \<noteq> login_request (ss_config S)"
  shows "\<exists>l. cn_sent t = cn_sent s @ l \<and> fst ` set l \<subseteq> {rq, login_request (ss_config S)} \<and> length l \<le> 4
     \<and> length (replies rq l) \<le> 2 \<and> (\<forall>reply \<in> set (butlast (replies rq l)). refused reply)"
  using session_run [OF assms(1)] assms(2) by metis

section \<open>The password\<close>

text \<open>A request without the content of the form, if it posts one to the login address; a client
  whose requests are read so.\<close>

definition hush :: "http_request \<Rightarrow> http_request" where
  "hush rq = (if hr_method rq = ''POST'' \<and> suffix ''/api/method/login'' (hr_url rq)
     then rq\<lparr>hr_body := (case hr_body rq of FormBody _ \<Rightarrow> FormBody [] | b \<Rightarrow> b)\<rparr> else rq)"

definition seen :: "'w client \<Rightarrow> 'w client" where
  "seen s = s\<lparr>cn_sent := map (apfst hush) (cn_sent s)\<rparr>"

text \<open>Two sessions of the same server that differ in the password alone; the servers answer alike,
  each accepting its own.\<close>

definition password_apart :: "'w session \<Rightarrow> 'w session \<Rightarrow> bool" where
  "password_apart S S' = ((\<exists>p. ss_config S' = ss_config S\<lparr>ec_password := p\<rparr>) \<and> ss_float S' = ss_float S
     \<and> (\<forall>rq rq' w. hush rq = hush rq' \<longrightarrow> ss_open S rq w = ss_open S' rq' w))"

text \<open>Two actions that cannot be told apart by anything but the content of the login form.\<close>

definition alike :: "('w client, 'a) act \<Rightarrow> ('w client, 'a) act \<Rightarrow> bool" where
  "alike m m' = (\<forall>s t. seen s = seen t \<longrightarrow> fst (m s) = fst (m' t) \<and> seen (snd (m s)) = seen (snd (m' t)))"

lemma seen_fields:
  "seen s = seen t \<longleftrightarrow> cn_logged s = cn_logged t \<and> cn_note s = cn_note t \<and> cn_world s = cn_world t
     \<and> map (apfst hush) (cn_sent s) = map (apfst hush) (cn_sent t)"
  by (cases s; cases t) (auto simp: seen_def)

lemma alike_basic [alike_rules]: "alike (ret x) (ret x)" "alike (fail_with e) (fail_with e)" "alike (pure r) (pure r)"
    "alike (reject n) (reject n)"
  by (simp_all add: alike_def reject_def act_defs seen_fields)

lemma alikeD: "alike m m' \<Longrightarrow> seen s = seen t \<Longrightarrow> \<exists>r s' t'. m s = (r, s') \<and> m' t = (r, t') \<and> seen s' = seen t'"
  unfolding alike_def by (metis prod.collapse)

lemma alikeI: "(\<And>s t. seen s = seen t \<Longrightarrow> \<exists>r s' t'. m s = (r, s') \<and> m' t = (r, t') \<and> seen s' = seen t') \<Longrightarrow> alike m m'"
  unfolding alike_def by fastforce

lemma alike_seq [alike_rules]:
  assumes "alike m m'" "\<And>x. alike (f x) (f' x)"
  shows "alike (seq m f) (seq m' f')"
proof (rule alikeI)
  fix s t :: "'a client" assume "seen s = seen t"
  from alikeD [OF assms(1) this] obtain r s' t' where r: "m s = (r, s')" "m' t = (r, t')" "seen s' = seen t'" by blast
  show "\<exists>r s' t'. seq m f s = (r, s') \<and> seq m' f' t = (r, t') \<and> seen s' = seen t'"
  proof (cases r)
    case (Inr x)
    from alikeD [OF assms(2) r(3), of x] r(1,2) Inr show ?thesis by (simp add: seq_def)
  qed (use r in \<open>simp add: seq_def\<close>)
qed

lemma alike_handle [alike_rules]:
  assumes "alike m m'" "\<And>e. alike (h e) (h' e)"
  shows "alike (handle m h) (handle m' h')"
proof (rule alikeI)
  fix s t :: "'a client" assume "seen s = seen t"
  from alikeD [OF assms(1) this] obtain r s' t' where r: "m s = (r, s')" "m' t = (r, t')" "seen s' = seen t'" by blast
  show "\<exists>r s' t'. handle m h s = (r, s') \<and> handle m' h' t = (r, t') \<and> seen s' = seen t'"
  proof (cases r)
    case (Inl e)
    from alikeD [OF assms(2) r(3), of e] r(1,2) Inl show ?thesis by (simp add: handle_def)
  qed (use r in \<open>simp add: handle_def\<close>)
qed

lemma alike_guard [alike_rules]: "alike m m' \<Longrightarrow> alike (guard b m) (guard b m')"
  by (simp add: guard_def alike_basic)

lemma alike_if [alike_rules]: "alike m m' \<Longrightarrow> alike n n' \<Longrightarrow> alike (if b then m else n) (if b then m' else n')"
  by simp

lemma alike_option [alike_rules]: "alike m m' \<Longrightarrow> (\<And>x. alike (f x) (f' x)) \<Longrightarrow>
    alike (case v of None \<Rightarrow> m | Some x \<Rightarrow> f x) (case v of None \<Rightarrow> m' | Some x \<Rightarrow> f' x)"
  by (cases v) simp_all

lemma alike_look [alike_rules]:
  "(\<And>x. alike (k x) (k' x)) \<Longrightarrow> alike (look cn_logged k) (look cn_logged k')"
  "(\<And>x. alike (f x) (f' x)) \<Longrightarrow> alike (look cn_note f) (look cn_note f')"
  by (simp_all add: alike_def seen_fields)

lemma alike_upd [alike_rules]: "alike (upd (\<lambda>s. s\<lparr>cn_logged := b\<rparr>)) (upd (\<lambda>s. s\<lparr>cn_logged := b\<rparr>))"
  by (simp add: alike_def upd_def seen_fields)

lemma alike_open:
  assumes "password_apart S S'" "hush rq = hush rq'"
  shows "alike (open_request S rq) (open_request S' rq')"
  using assms by (auto simp: alike_def password_apart_def open_request_run Let_def seen_fields)

lemma alike_login: "password_apart S S' \<Longrightarrow> alike (login S) (login S')"
proof -
  assume a: "password_apart S S'"
  then have "hush (login_request (ss_config S)) = hush (login_request (ss_config S'))" "ss_float S' = ss_float S"
    using suffix_appendI [OF suffix_order.refl, of "''/api/method/login''"]
    by (auto simp: password_apart_def login_request_def hush_def base_url_def)
  then show ?thesis unfolding login_def
    by (intro alike_rules alike_open [OF a])
      (auto simp: decode_json_def intro!: alike_rules split: http_reply.splits jval.splits)
qed

lemma alike_ensure: "password_apart S S' \<Longrightarrow> alike (ensure_login S) (ensure_login S')"
  unfolding ensure_login_def by (intro alike_rules alike_login)

lemma alike_attempt:
  assumes "password_apart S S'" "alike retry retry'"
  shows "alike (attempt S rq expired retry) (attempt S' rq expired retry')"
proof -
  have f: "ss_float S' = ss_float S" using assms(1) by (simp add: password_apart_def)
  show ?thesis unfolding attempt_def
    by (intro alike_rules alike_ensure [OF assms(1)] alike_open [OF assms(1)] refl)
      (auto simp: decode_json_def f intro!: alike_rules assms(2) split: http_reply.splits)
qed

lemma alike_session [alike_rules]: "password_apart S S' \<Longrightarrow> alike (session_request S rq) (session_request S' rq)"
  unfolding session_request_def by (intro alike_attempt alike_rules alike_login)

lemma api_request_apart: "password_apart S S' \<Longrightarrow> api_request S' = api_request S"
  by (auto simp: password_apart_def api_request_def base_url_def fun_eq_iff)

lemma alike_http [alike_rules]:
  assumes "password_apart S S'"
  shows "alike (http_get S p ps) (http_get S' p ps)" "alike (http_post S p d) (http_post S' p d)"
    "alike (http_put S p d) (http_put S' p d)" "alike (http_delete S p) (http_delete S' p)"
  unfolding http_get_def http_post_def http_put_def http_delete_def api_request_apart [OF assms]
  by (rule alike_session [OF assms])+

section \<open>Error texts\<close>

lemma occurs_sublist: "occurs n s \<longleftrightarrow> sublist n s"
  by (induction s) (auto simp: sublist_Cons_right)

lemma before_prefix: "prefix (before n s) s"
  by (induction s) auto

lemma before_free: "n \<noteq> [] \<Longrightarrow> \<not> sublist n (before n s)"
proof (induction s)
  case (Cons c s)
  have "prefix n (c # before n s) \<Longrightarrow> prefix n (c # s)"
    using before_prefix [of n s] by (meson Cons_prefix_Cons prefix_order.order_trans)
  with Cons show ?case by (auto simp: sublist_Cons_right)
qed simp

lemma prefix_free: "prefix p s \<Longrightarrow> \<not> sublist n s \<Longrightarrow> \<not> sublist n p"
  by (meson prefix_imp_sublist sublist_order.order_trans)

definition cut_markers :: "str list \<Rightarrow> str \<Rightarrow> str" where
  "cut_markers ks m = foldl (\<lambda>m k. if occurs k m then before k m else m) m ks"

lemma cut_prefix: "prefix (cut_markers ks m) m"
proof (induction ks arbitrary: m)
  case (Cons k ks)
  let ?m = "if occurs k m then before k m else m"
  have "prefix (cut_markers ks ?m) ?m" "prefix ?m m" using Cons.IH before_prefix by simp_all
  then show ?case by (auto simp: cut_markers_def intro: prefix_order.order_trans)
qed (simp add: cut_markers_def)

lemma cut_free: "k \<in> set ks \<Longrightarrow> k \<noteq> [] \<Longrightarrow> \<not> sublist k (cut_markers ks m)"
proof (induction ks arbitrary: m)
  case (Cons j ks)
  let ?m = "if occurs j m then before j m else m"
  have step: "cut_markers (j # ks) m = cut_markers ks ?m" by (simp add: cut_markers_def)
  show ?case
  proof (cases "k = j")
    case True
    then have "\<not> sublist k ?m" using Cons.prems(2) before_free by (simp add: occurs_sublist)
    then show ?thesis unfolding step by (rule prefix_free [OF cut_prefix])
  next
    case False
    then show ?thesis unfolding step using Cons by simp
  qed
qed simp

lemma split_words_part:
  "w \<in> set (split_words a s) \<Longrightarrow> list_all (\<lambda>c. \<not> is_space c) a \<Longrightarrow> sublist w (a @ s) \<and> list_all (\<lambda>c. \<not> is_space c) w"
proof (induction a s rule: split_words.induct)
  case (2 a c s)
  show ?case
  proof (cases "is_space c")
    case True
    have "sublist w s \<Longrightarrow> sublist w (a @ c # s)" by (auto simp: sublist_append sublist_Cons_right)
    with 2 True show ?thesis by (auto simp: sublist_append split: if_splits)
  next
    case False
    with 2 show ?thesis by simp
  qed
qed (auto split: if_splits)

lemma join_part:
  "sublist n (join '' '' us) \<Longrightarrow> n \<noteq> [] \<Longrightarrow> CHR '' '' \<notin> set n \<Longrightarrow> \<exists>w \<in> set us. sublist n w"
proof (induction "'' ''" us rule: join.induct)
  case (3 x v va)
  let ?r = "join '' '' (v # va)"
  have head: "prefix n2 (CHR '' '' # ?r) \<Longrightarrow> set n2 \<subseteq> set n \<Longrightarrow> n2 = []" for n2
    using "3.prems"(3) by (cases n2) auto
  have "sublist n (x @ CHR '' '' # ?r)" using "3.prems"(1) by simp
  then consider "sublist n x" | "sublist n (CHR '' '' # ?r)" | n1 n2 where "n = n1 @ n2" "suffix n1 x" "prefix n2 (CHR '' '' # ?r)"
    by (auto simp: sublist_append)
  then show ?case
  proof cases
    case 2
    then have "sublist n ?r" using head [of n] "3.prems"(2) by (auto simp: sublist_Cons_right)
    with 3 show ?thesis by auto
  next
    case (3 n1 n2)
    then have "n = n1" using head [of n2] by simp
    with 3 show ?thesis by (auto intro: suffix_imp_sublist)
  qed auto
qed simp_all

lemma join_chars: "c \<in> set (join '' '' us) \<Longrightarrow> c = CHR '' '' \<or> (\<exists>w \<in> set us. c \<in> set w)"
  by (induction "'' ''" us rule: join.induct) auto

lemma clean_text_safe:
  assumes "k \<in> set trace_markers" "CHR '' '' \<notin> set k" "list_all (\<lambda>c. \<not> is_space c) k"
  shows "\<not> occurs k (clean_text m)" "length (clean_text m) \<le> 300" "c \<in> set (clean_text m) \<Longrightarrow> is_space c \<Longrightarrow> c = CHR '' ''"
proof -
  let ?m = "cut_markers trace_markers m"
  have shown: "clean_text m = take 300 (join '' '' (split_words [] ?m))" by (simp add: clean_text_def cut_markers_def)
  have k: "k \<noteq> []" using assms(1) by (auto simp: trace_markers_def)
  have "\<not> sublist k (join '' '' (split_words [] ?m))"
  proof
    assume "sublist k (join '' '' (split_words [] ?m))"
    from join_part [OF this k assms(2)] obtain w where w: "w \<in> set (split_words [] ?m)" "sublist k w" by blast
    then have "sublist k ?m" using split_words_part [OF w(1)] by (auto intro: sublist_order.order_trans)
    with cut_free [OF assms(1) k] show False by blast
  qed
  then show "\<not> occurs k (clean_text m)" unfolding shown occurs_sublist by (rule prefix_free [OF take_is_prefix])
  show "length (clean_text m) \<le> 300" unfolding shown by simp
  assume "c \<in> set (clean_text m)" "is_space c"
  then have "c \<in> set (join '' '' (split_words [] ?m))" unfolding shown by (auto dest: in_set_takeD)
  from join_chars [OF this] \<open>is_space c\<close> split_words_part [of _ "[]" ?m] show "c = CHR '' ''" by (auto simp: list_all_iff)
qed

text \<open>What the adapter shows of an error answer is short and tells nothing of the server: however
  the body is made, the text has at most 300 characters, is a single line without runs of other
  white space, and mentions neither a traceback nor a path of the server's applications.\<close>

theorem error_text_safe:
  assumes "sanitize_error tf body = Inr m"
  shows "length m \<le> 300" "\<forall>c \<in> set m. is_space c \<longrightarrow> c = CHR '' ''"
    "\<not> occurs ''Traceback'' m" "\<not> occurs ''apps/frappe'' m" "\<not> occurs ''apps/erpnext'' m"
proof -
  have "m = ''HTTP error (unreadable body)'' \<or> (\<exists>t. m = clean_text t)"
  proof (cases body)
    case (Some b)
    with assms obtain v where v: "error_message tf b = Inr v" "(case v of
        VStr t \<Rightarrow> Inr (clean_text t) | VArr _ \<Rightarrow> Inl AttributeError | VObj _ \<Rightarrow> Inl AttributeError | _ \<Rightarrow> Inl TypeError) = Inr m"
      by (auto simp: sanitize_error_def bind_res_Inr)
    then show ?thesis by (cases v) auto
  qed (use assms in \<open>simp add: sanitize_error_def\<close>)
  moreover have mark: "''Traceback'' \<in> set trace_markers" "''apps/frappe'' \<in> set trace_markers" "''apps/erpnext'' \<in> set trace_markers"
    by (simp_all add: trace_markers_def)
  moreover have "list_all (\<lambda>c. \<not> is_space c) k \<and> CHR '' '' \<notin> set k" if "k \<in> {''Traceback'', ''apps/frappe'', ''apps/erpnext''}" for k
    using that by (auto simp: is_space_def)
  ultimately show "length m \<le> 300" "\<forall>c \<in> set m. is_space c \<longrightarrow> c = CHR '' ''"
    "\<not> occurs ''Traceback'' m" "\<not> occurs ''apps/frappe'' m" "\<not> occurs ''apps/erpnext'' m"
    using clean_text_safe [of "''Traceback''"] clean_text_safe [of "''apps/frappe''"] clean_text_safe [of "''apps/erpnext''"]
    by (auto simp: is_space_def)
qed

section \<open>What the error handler lets through\<close>

text \<open>An error body that is a JSON array makes the handler itself raise \<^verbatim>\<open>AttributeError\<close>, which no
  caller expects.\<close>

lemma array_error_escapes: "sanitize_error tf (Some ''[]'') = Inl AttributeError"
  by (simp add: sanitize_error_def error_message_def loads_def ws_def is_ws_def)

text \<open>The last marker is removed before white space is collapsed, so a line break within it
  brings it back.\<close>

lemma file_marker_returns:
  "occurs (''File '' @ [CHR 0x22]) (clean_text (''File'' @ [CHR 0x0A, CHR 0x22] @ ''/srv/app.py''))"
  by code_simp

section \<open>Witnesses\<close>

definition demo_config :: erp_config where
  "demo_config = \<lparr>ec_base = ''http://erp/'', ec_site = ''erp'', ec_password = ''pw'', ec_timeout = 30\<rparr>"

text \<open>A server that counts: it accepts every login, and refuses the first other request.\<close>

definition demo_open :: "nat opener" where
  "demo_open rq n = (case hr_body rq of
       FormBody _ \<Rightarrow> (Answered (''{'' @ json_string ''message'' @ '':1}''), n)
     | _ \<Rightarrow> if n = 0 then (HttpStatus 403 None, 1) else (Answered ''[]'', n))"

definition demo_session :: "nat session" where
  "demo_session = \<lparr>ss_config = demo_config, ss_open = demo_open, ss_float = (\<lambda>_. NotANumber)\<rparr>"

definition demo_get :: http_request where
  "demo_get = api_request demo_session ''GET'' ''/api/method/ping'' None []"

lemma demo_get_other: "demo_get \<noteq> login_request (ss_config demo_session)"
  by (simp add: demo_get_def api_request_def login_request_def)

theorem request_repeats_witness:
  "\<exists>l. cn_sent (snd (session_request demo_session demo_get (new_client 0)))
       = cn_sent (new_client (0::nat)) @ l \<and> length l \<le> 4 \<and> length (replies demo_get l) \<le> 2"
proof -
  obtain r t where rt: "session_request demo_session demo_get (new_client 0) = (r, t)" by fastforce
  from request_repeats [OF this demo_get_other] show ?thesis unfolding rt snd_conv by blast
qed

theorem error_text_safe_witness:
  "sanitize_error (\<lambda>_. NotANumber) (Some ''bad Traceback x'') = Inr ''bad'' \<and> \<not> occurs ''Traceback'' ''bad''"
proof -
  have s: "sanitize_error (\<lambda>_. NotANumber) (Some ''bad Traceback x'') = Inr ''bad''" by code_simp
  with error_text_safe(3) [OF s] show ?thesis by blast
qed

end
