(* ===== verification/ErpNextClaims.thy ===== *)
theory ErpNextClaims
  imports ErpNext RestClaims
begin

text \<open>
  What the ERPNext adapter guarantees, whatever the server answers: where the password goes, whose
  documents it hands out and asks for, and when it writes.
\<close>

section \<open>The password\<close>

definition with_session :: "'w next_adapter \<Rightarrow> 'w session \<Rightarrow> 'w next_adapter" where
  "with_session A S = A\<lparr>na_session := S\<rparr>"

lemma with_session_simps [simp]:
  "na_session (with_session A S) = S" "na_scope (with_session A S) = na_scope A"
  "na_float (with_session A S) = na_float A" "na_today (with_session A S) = na_today A"
  by (simp_all add: with_session_def)

lemma payload_apart [simp]:
  "line_payload (with_session A S) = line_payload A" "payment_payload (with_session A S) = payment_payload A"
  by (simp_all add: fun_eq_iff line_payload_def payment_payload_def)

lemma alike_reads [alike_rules]:
  assumes "password_apart (na_session A) S"
  shows "alike (scoped_doc A p n) (scoped_doc (with_session A S) p n)"
    "alike (next_read_invoice A ref) (next_read_invoice (with_session A S) ref)"
    "alike (next_read_payment A ref) (next_read_payment (with_session A S) ref)"
    "alike (listing A p ps) (listing (with_session A S) p ps)"
proof -
  show s: "alike (scoped_doc A p n) (scoped_doc (with_session A S) p n)" for p n
    unfolding scoped_doc_def with_session_simps by (intro alike_rules assms)
  show "alike (next_read_invoice A ref) (next_read_invoice (with_session A S) ref)"
    unfolding next_read_invoice_def by (intro alike_rules s)
  show "alike (next_read_payment A ref) (next_read_payment (with_session A S) ref)"
    unfolding next_read_payment_def by (intro alike_rules s)
  show "alike (listing A p ps) (listing (with_session A S) p ps)"
    unfolding listing_def with_session_simps by (intro alike_rules assms)
qed

lemma alike_on_reject [alike_rules]: "alike m m' \<Longrightarrow> alike h h' \<Longrightarrow> alike (on_reject m h) (on_reject m' h')"
  unfolding on_reject_def by (intro alike_rules)

lemma alike_posting [alike_rules]:
  assumes "password_apart (na_session A) S"
  shows "alike (next_post_invoice A ref) (next_post_invoice (with_session A S) ref)"
    "alike (next_reconcile_post A ref) (next_reconcile_post (with_session A S) ref)"
proof -
  have some: "alike (some_read A ref) (some_read (with_session A S) ref)"
    unfolding some_read_def by (intro alike_rules assms)
  have submit: "alike (submit_draft A ref) (submit_draft (with_session A S) ref)"
    unfolding submit_draft_def with_session_simps by (intro alike_rules assms)
  show "alike (next_post_invoice A ref) (next_post_invoice (with_session A S) ref)"
    unfolding next_post_invoice_def by (intro alike_rules some submit)
  show "alike (next_reconcile_post A ref) (next_reconcile_post (with_session A S) ref)"
    unfolding next_reconcile_post_def by (intro alike_rules some)
qed

lemma alike_pay: "password_apart (na_session A) S \<Longrightarrow> alike (next_record_payment A c) (next_record_payment (with_session A S) c)"
  unfolding next_record_payment_def pay_invoice_def enter_payment_def with_session_simps payload_apart by (intro alike_rules)

lemma alike_create: "password_apart (na_session A) S \<Longrightarrow> alike (next_create_draft A c) (next_create_draft (with_session A S) c)"
  unfolding next_create_draft_def with_session_simps payload_apart by (intro alike_rules)

lemma alike_reverse: "password_apart (na_session A) S \<Longrightarrow> alike (next_reverse_payment A c) (next_reverse_payment (with_session A S) c)"
  unfolding next_reverse_payment_def with_session_simps Let_def by (intro alike_rules)

lemma alike_cancel: "password_apart (na_session A) S \<Longrightarrow> alike (next_cancel_invoice A r) (next_cancel_invoice (with_session A S) r)"
  unfolding next_cancel_invoice_def with_session_simps Let_def by (intro alike_rules)

lemma alike_query [alike_rules]:
  "password_apart (na_session A) S \<Longrightarrow> alike (next_query_invoices A s u c) (next_query_invoices (with_session A S) s u c)"
  unfolding next_query_invoices_def with_session_simps by (intro alike_rules)

lemma alike_ping: "password_apart (na_session A) S \<Longrightarrow> alike (next_ping A) (next_ping (with_session A S))"
  unfolding next_ping_def with_session_simps by (intro alike_rules)

lemma alike_jval: "(\<And>s. v = VStr s \<Longrightarrow> alike (f s) (f' s)) \<Longrightarrow> alike m m \<Longrightarrow>
    alike (case v of VStr s \<Rightarrow> f s | _ \<Rightarrow> m) (case v of VStr s \<Rightarrow> f' s | _ \<Rightarrow> m)"
  by (cases v) simp_all

lemma alike_reconcile_payment:
  "password_apart (na_session A) S \<Longrightarrow> alike (next_reconcile_payment A e) (next_reconcile_payment (with_session A S) e)"
  unfolding next_reconcile_payment_def with_session_simps by (intro alike_rules alike_jval)

lemma alike_drafts: "password_apart (na_session A) S \<Longrightarrow> alike (next_known_drafts A) (next_known_drafts (with_session A S))"
  unfolding next_known_drafts_def by (intro alike_rules)

lemma alike_index: "password_apart (na_session A) S \<Longrightarrow> alike (next_evidence_index A) (next_evidence_index (with_session A S))"
  unfolding next_evidence_index_def with_session_simps by (intro alike_rules)

lemma alike_exec: "password_apart (na_session A) S \<Longrightarrow> alike (next_exec A x) (next_exec (with_session A S) x)"
  by (cases x; simp only: next_exec.simps as_answer_def)
    (intro alike_rules alike_create alike_pay alike_reverse alike_cancel alike_ping alike_reconcile_payment alike_drafts alike_index, assumption)+

lemma alike_run:
  assumes "password_apart (na_session A) S" "seen s = seen t"
  shows "fst (next_run A xs s) = fst (next_run (with_session A S) xs t)
    \<and> seen (snd (next_run A xs s)) = seen (snd (next_run (with_session A S) xs t))"
  using assms(2)
proof (induction xs arbitrary: s t)
  case (Cons x xs)
  from alikeD [OF alike_exec [OF assms(1)] Cons.prems] obtain r s' t' where
    "next_exec A x s = (r, s')" "next_exec (with_session A S) x t = (r, t')" "seen s' = seen t'" by blast
  with Cons.IH [of s' t'] show ?case by (auto split: prod.splits)
qed simp

text \<open>C18. The password goes nowhere but into the login form. Run any operations of the adapter twice,
  with two passwords against servers that each accept the one they are sent and otherwise answer
  alike: every operation ends in the same way with the same answer, the worlds are the same, and the
  requests with their replies are the same in method, address, headers and body, apart from the
  form that is posted to the login address.\<close>

theorem password_confined:
  assumes "password_apart (na_session A) S"
  shows "fst (next_run A ops (new_client w)) = fst (next_run (with_session A S) ops (new_client w))
    \<and> seen (snd (next_run A ops (new_client w))) = seen (snd (next_run (with_session A S) ops (new_client w)))"
  by (rule alike_run [OF assms refl])

section \<open>The scope\<close>

text \<open>What the body of a request may say of its company: nothing, or a unit of the scope.\<close>

definition body_scoped :: "str set \<Rightarrow> http_request \<Rightarrow> bool" where
  "body_scoped scope rq = (case hr_body rq of
       JsonBody v \<Rightarrow> (case item_or ''company'' VNull v of Inr (VStr u) \<Rightarrow> u \<in> scope | Inr VNull \<Rightarrow> True | _ \<Rightarrow> False)
     | _ \<Rightarrow> True)"

definition adds :: "(http_request \<Rightarrow> bool) \<Rightarrow> 'w client \<Rightarrow> 'w client \<Rightarrow> bool" where
  "adds P s t = (\<exists>l. cn_sent t = cn_sent s @ l \<and> list_all (\<lambda>(rq, _). P rq) l)"

lemma adds_order: "reflp (adds P)" "transp (adds P)"
proof -
  show "reflp (adds P)" by (auto simp: reflp_def adds_def)
  show "transp (adds P)" by (fastforce simp: transp_def adds_def)
qed

lemma along_seq_Inr:
  assumes "transp R" "along R m" "\<And>s x t. m s = (Inr x, t) \<Longrightarrow> along R (f x)"
  shows "along R (seq m f)"
  unfolding along_def
proof
  fix s
  obtain r t where m: "m s = (r, t)" by fastforce
  with assms(2) have a: "R s t" by (metis along_def snd_conv)
  show "R s (snd (seq m f s))"
  proof (cases r)
    case (Inr x)
    with assms(3) m have "R t (snd (f x t))" by (auto simp: along_def)
    with a assms(1) have "R s (snd (f x t))" by (blast dest: transpD)
    with m Inr show ?thesis by (simp add: seq_def)
  qed (use a m in \<open>simp add: seq_def\<close>)
qed

definition only :: "(http_request \<Rightarrow> bool) \<Rightarrow> ('w client, 'a) act \<Rightarrow> bool" where
  "only P m = along (adds P) m"

named_theorems only_rules \<open>rules for actions that add requests of one kind only\<close>

lemma only_basic [only_rules]: "only P (ret x)" "only P (fail_with e)" "only P (pure r)" "only P (reject n)"
  using adds_order(1) [of P] by (auto simp: only_def along_def adds_def reject_def act_defs)

lemma only_seq [only_rules]: "only P m \<Longrightarrow> (\<And>x. only P (f x)) \<Longrightarrow> only P (seq m f)"
  unfolding only_def by (rule along_seq [OF adds_order(2)])

lemma only_seq_Inr: "only P m \<Longrightarrow> (\<And>s x t. m s = (Inr x, t) \<Longrightarrow> only P (f x)) \<Longrightarrow> only P (seq m f)"
  unfolding only_def by (rule along_seq_Inr [OF adds_order(2)])

lemma only_handle [only_rules]: "only P m \<Longrightarrow> (\<And>e. only P (h e)) \<Longrightarrow> only P (handle m h)"
  unfolding only_def by (rule along_handle [OF adds_order(2)])

lemma only_guard [only_rules]: "only P m \<Longrightarrow> only P (guard b m)"
  unfolding only_def by (rule along_guard [OF adds_order(1)])

lemma only_look [only_rules]: "(\<And>x. only P (k x)) \<Longrightarrow> only P (look f k)"
  unfolding only_def by (rule along_look)

lemma only_if [only_rules]: "only P m \<Longrightarrow> only P n \<Longrightarrow> only P (if b then m else n)"
  by simp

lemma only_option [only_rules]: "only P m \<Longrightarrow> (\<And>x. only P (f x)) \<Longrightarrow> only P (case v of None \<Rightarrow> m | Some x \<Rightarrow> f x)"
  by (cases v) simp_all

lemma only_session [only_rules]: "P rq \<Longrightarrow> P (login_request (ss_config S)) \<Longrightarrow> only P (session_request S rq)"
  unfolding only_def along_def
proof
  fix s
  assume p: "P rq" "P (login_request (ss_config S))"
  obtain r t where rt: "session_request S rq s = (r, t)" by fastforce
  have "\<exists>l. cn_sent t = cn_sent s @ l \<and> fst ` set l \<subseteq> {rq, login_request (ss_config S)}"
    using session_sends [OF rt] .
  with p rt show "adds P s (snd (session_request S rq s))"
    by (fastforce simp: adds_def list_all_iff)
qed

lemma login_scoped [simp]: "body_scoped scope (login_request c)"
  by (simp add: body_scoped_def login_request_def)

lemma only_http [only_rules]:
  "only (body_scoped scope) (http_get S p ps)" "only (body_scoped scope) (http_delete S p)"
  "only (body_scoped scope) (http_put S p (docstatus_payload n))"
  unfolding http_get_def http_delete_def http_put_def
  by (rule only_session; simp add: body_scoped_def api_request_def login_request_def docstatus_payload_def get_or_def)+

lemma only_post: "body_scoped scope (api_request S ''POST'' p (Some v) []) \<Longrightarrow> only (body_scoped scope) (http_post S p v)"
  unfolding http_post_def by (intro only_session) simp_all

lemma only_reads [only_rules]:
  "only (body_scoped scope) (scoped_doc A p n)" "only (body_scoped scope) (next_read_invoice A ref)"
  "only (body_scoped scope) (next_read_payment A ref)" "only (body_scoped scope) (listing A p ps)"
  unfolding scoped_doc_def next_read_invoice_def next_read_payment_def listing_def by (intro only_rules)+

lemma only_posting [only_rules]: "only (body_scoped scope) (next_post_invoice A ref)" "only (body_scoped scope) (next_reconcile_post A ref)"
  unfolding next_post_invoice_def next_reconcile_post_def some_read_def submit_draft_def on_reject_def by (intro only_rules)+

lemma only_query [only_rules]: "only (body_scoped scope) (next_query_invoices A st u c)"
  unfolding next_query_invoices_def by (intro only_rules)

lemma only_jval: "(\<And>s. only P (f s)) \<Longrightarrow> only P m \<Longrightarrow> only P (case v of VStr s \<Rightarrow> f s | _ \<Rightarrow> m)"
  by (cases v) simp_all

lemma only_others:
  "only (body_scoped scope) (next_reverse_payment A rc)" "only (body_scoped scope) (next_cancel_invoice A ref)"
  "only (body_scoped scope) (next_ping A)" "only (body_scoped scope) (next_reconcile_payment A e)"
  "only (body_scoped scope) (next_known_drafts A)" "only (body_scoped scope) (next_evidence_index A)"
  unfolding next_reverse_payment_def next_cancel_invoice_def next_ping_def next_reconcile_payment_def next_known_drafts_def
    next_evidence_index_def Let_def
  by (intro only_rules only_jval only_post; simp add: body_scoped_def api_request_def get_or_def)+

lemma only_create: "only (body_scoped (na_scope A)) (next_create_draft A c)"
  unfolding next_create_draft_def
  by (cases "fi_unit (dc_identity c) \<in> na_scope A")
    (auto intro!: only_rules only_post simp: body_scoped_def api_request_def draft_payload_def get_or_def)

lemma reject_never: "reject n s \<noteq> (Inr x, t)"
  by (simp add: reject_def act_defs)

lemma read_invoice_doc:
  assumes "next_read_invoice A ref s = (Inr r, t)"
  shows "doc_allowed (na_scope A) (ri_payload r) = Inr True"
proof -
  obtain doc s' where d: "scoped_doc A (invoice_path (resolve_draft_ref ref)) (''Invoice '' @ ref @ '' not in authorized scope'') s = (Inr doc, s')"
      "invoice_of doc = Inr r"
    using assms by (auto simp: next_read_invoice_def seq_Inr pure_def)
  have "doc_allowed (na_scope A) doc = Inr True"
    using d(1) by (auto simp: scoped_doc_def seq_Inr pure_def guard_def ret_def reject_never split: if_splits)
  moreover have "ri_payload r = doc" using d(2) by (auto simp: invoice_of_def bind_res_Inr)
  ultimately show ?thesis by simp
qed

lemma doc_allowed_True:
  assumes "doc_allowed scope doc = Inr True"
  shows "scope \<noteq> {}" "\<exists>c. item_or ''company'' (VStr []) doc = Inr c \<and> (truthy c \<longrightarrow> (\<exists>u \<in> scope. c = VStr u))"
proof -
  obtain c where c: "item_or ''company'' (VStr []) doc = Inr c" "scope \<noteq> {}" "truthy c \<longrightarrow> member_of scope c = Inr True"
    using assms by (auto simp: doc_allowed_def bind_res_Inr split: if_splits)
  then show "scope \<noteq> {}" by simp
  show "\<exists>c. item_or ''company'' (VStr []) doc = Inr c \<and> (truthy c \<longrightarrow> (\<exists>u \<in> scope. c = VStr u))"
    using c by (cases c) auto
qed

lemma guard_Inr: "guard b (reject n) s = (Inr x, t) \<longleftrightarrow> b \<and> t = s"
  by (auto simp: guard_def ret_def reject_never)

lemma only_enter: "u \<in> na_scope A \<Longrightarrow> only (body_scoped (na_scope A)) (enter_payment A c party (VStr u) abbr)"
  unfolding enter_payment_def
  by (intro only_rules only_post) (simp add: body_scoped_def api_request_def payment_payload_def get_or_def)

lemma company_scoped:
  assumes "doc_allowed scope doc = Inr True" "item_or ''company'' VNull doc = Inr c" "truthy c"
  shows "\<exists>u \<in> scope. c = VStr u"
  using doc_allowed_True(2) [OF assms(1)] assms(2,3) by (cases doc) (auto simp: get_or_def split: option.splits)

lemma only_pay_invoice:
  assumes "doc_allowed (na_scope A) (ri_payload i) = Inr True"
  shows "only (body_scoped (na_scope A)) (pay_invoice A c i)"
  unfolding pay_invoice_def
proof (rule only_seq [OF only_basic(3)], rule only_seq_Inr [OF only_basic(3)], rule only_seq [OF only_guard [OF only_basic(4)]],
    rule only_seq_Inr [OF only_guard [OF only_basic(4)]])
  fix party company s t s' x t'
  assume "pure (item_or ''company'' VNull (ri_payload i)) s = (Inr company, t)"
    and "guard (truthy company) (reject (''Invoice '' @ pc_invoice c @ '' has no company'')) s' = (Inr x, t')"
  then obtain u where "u \<in> na_scope A" "company = VStr u"
    using company_scoped [OF assms] by (auto simp: pure_def guard_Inr)
  then show "only (body_scoped (na_scope A)) (seq (pure (default_abbr company)) (\<lambda>abbr.
      seq (http_get (na_session A) (''/api/resource/Company/'' @ py_str company) []) (\<lambda>found.
      seq (pure (bind_res (item ''data'' found) (item_or ''abbr'' abbr))) (\<lambda>abbr. enter_payment A c party company abbr))))"
    by (auto intro!: only_rules only_enter)
qed

lemma only_pay: "only (body_scoped (na_scope A)) (next_record_payment A c)"
  unfolding next_record_payment_def
  by (intro only_rules only_seq_Inr [OF only_reads(2)] only_pay_invoice [OF read_invoice_doc])

lemma scoped_doc_Inr: "scoped_doc A path n s = (Inr doc, t) \<Longrightarrow> doc_allowed (na_scope A) doc = Inr True"
  by (auto simp: scoped_doc_def seq_Inr pure_def guard_def ret_def reject_never split: if_splits)

subsection \<open>Where an answer comes from\<close>

text \<open>The last request of an operation, answered with the JSON value \<open>v\<close>.\<close>

definition fetched :: "'w next_adapter \<Rightarrow> 'w client \<Rightarrow> 'w client \<Rightarrow> http_request \<Rightarrow> jval \<Rightarrow> bool" where
  "fetched A s t rq v = (\<exists>l txt. cn_sent t = cn_sent s @ l @ [(rq, Answered txt)] \<and> decode_json (na_session A) txt = Inr v)"

lemma fetched_later: "prefix (cn_sent s) (cn_sent u) \<Longrightarrow> fetched A u t rq v \<Longrightarrow> fetched A s t rq v"
  by (auto simp: fetched_def prefix_def)

lemma only_prefix: "only P m \<Longrightarrow> m s = (r, t) \<Longrightarrow> prefix (cn_sent s) (cn_sent t)"
  by (auto simp: only_def along_def adds_def prefix_def dest!: spec [of _ s])

lemma only_login: "only (\<lambda>_. True) (login S)" "only (\<lambda>_. True) (ensure_login S)"
proof -
  have o: "only (\<lambda>_. True) (open_request S rq)" for rq
    by (auto simp: only_def along_def adds_def open_request_def split: prod.splits)
  have u: "only (\<lambda>_. True) (upd (\<lambda>s. s\<lparr>cn_logged := b\<rparr>))" for b
    by (auto simp: only_def along_def adds_def act_defs)
  show l: "only (\<lambda>_. True) (login S)"
    unfolding login_def by (auto intro!: only_rules o u split: http_reply.splits jval.splits)
  show "only (\<lambda>_. True) (ensure_login S)" unfolding ensure_login_def by (intro only_rules l)
qed

lemma attempt_answer:
  assumes "attempt S rq expired retry s = (Inr v, t)"
  shows "(\<exists>l txt. cn_sent t = cn_sent s @ l @ [(rq, Answered txt)] \<and> decode_json S txt = Inr v)
    \<or> (\<exists>u. prefix (cn_sent s) (cn_sent u) \<and> retry u = (Inr v, t))"
proof -
  obtain u where e: "ensure_login S s = (Inr (), u)" and k0: "seq (open_request S rq) (\<lambda>reply. case reply of
       Answered t \<Rightarrow> pure (decode_json S t)
     | Undecodable \<Rightarrow> fail_with ValueError
     | HttpStatus code body \<Rightarrow> look cn_logged (\<lambda>logged.
         if expired code logged then retry
         else seq (pure (sanitize_error (ss_float S) body)) (\<lambda>m. reject (''ERPNext HTTP '' @ int_str code @ '': '' @ m)))
     | Broken e \<Rightarrow> fail_with e
     | _ \<Rightarrow> fail_with UncertainOutcome) u = (Inr v, t)"
    using assms by (auto simp: attempt_def seq_Inr [of "ensure_login S"])
  obtain reply w where o: "ss_open S rq (cn_world u) = (reply, w)" by fastforce
  have k: "(case reply of
       Answered t \<Rightarrow> pure (decode_json S t)
     | Undecodable \<Rightarrow> fail_with ValueError
     | HttpStatus code body \<Rightarrow> look cn_logged (\<lambda>logged.
         if expired code logged then retry
         else seq (pure (sanitize_error (ss_float S) body)) (\<lambda>m. reject (''ERPNext HTTP '' @ int_str code @ '': '' @ m)))
     | Broken e \<Rightarrow> fail_with e
     | _ \<Rightarrow> fail_with UncertainOutcome) (u\<lparr>cn_sent := cn_sent u @ [(rq, reply)], cn_world := w\<rparr>) = (Inr v, t)"
    using k0 o by (simp add: seq_def [of "open_request S rq"] open_request_def)
  note p = only_prefix [OF only_login(2) e]
  show ?thesis
  proof (cases reply)
    case (Answered b)
    with k have "cn_sent t = cn_sent u @ [(rq, Answered b)]" "decode_json S b = Inr v" by (auto simp: pure_def)
    with p show ?thesis by (auto simp: prefix_def)
  next
    case (HttpStatus code body)
    with k have "retry (u\<lparr>cn_sent := cn_sent u @ [(rq, reply)], cn_world := w\<rparr>) = (Inr v, t)"
      by (auto simp: look_def seq_Inr reject_never split: if_splits)
    with p show ?thesis by (intro disjI2 exI conjI) (auto intro: prefix_order.order_trans)
  qed (use k in \<open>simp_all add: fail_with_def\<close>)
qed

lemma session_fetched:
  assumes "session_request (na_session A) rq s = (Inr v, t)"
  shows "fetched A s t rq v"
proof -
  from attempt_answer [OF assms [unfolded session_request_def]] show ?thesis
  proof (elim disjE exE conjE)
    fix u assume p: "prefix (cn_sent s) (cn_sent u)"
      and r: "seq (upd (\<lambda>s. s\<lparr>cn_logged := False\<rparr>)) (\<lambda>_. seq (login (na_session A))
        (\<lambda>_. attempt (na_session A) rq (\<lambda>_ _. False) (fail_with UncertainOutcome))) u = (Inr v, t)"
    then obtain x where l: "login (na_session A) (u\<lparr>cn_logged := False\<rparr>) = (Inr (), x)"
      and a: "attempt (na_session A) rq (\<lambda>_ _. False) (fail_with UncertainOutcome) x = (Inr v, t)"
      by (auto simp: seq_Inr act_defs split: prod.splits sum.splits)
    have "prefix (cn_sent s) (cn_sent x)"
      using p only_prefix [OF only_login(1) l] by (auto intro: prefix_order.order_trans)
    moreover have "fetched A x t rq v"
      using attempt_answer [OF a] by (auto simp: fetched_def fail_with_def)
    ultimately show ?thesis by (rule fetched_later)
  qed (auto simp: fetched_def)
qed

text \<open>A document that has just been fetched and may be seen: the scope is not empty, and its company
  is one of the scope's units or empty.\<close>

definition doc_fetched :: "'w next_adapter \<Rightarrow> 'w client \<Rightarrow> 'w client \<Rightarrow> jval \<Rightarrow> bool" where
  "doc_fetched A s t doc = (\<exists>rq v. fetched A s t rq v \<and> hr_method rq = ''GET'' \<and> item ''data'' v = Inr doc
     \<and> na_scope A \<noteq> {}
     \<and> (\<exists>c. item_or ''company'' (VStr []) doc = Inr c \<and> (truthy c \<longrightarrow> (\<exists>u \<in> na_scope A. c = VStr u))))"

lemma doc_fetched_later: "prefix (cn_sent s) (cn_sent u) \<Longrightarrow> doc_fetched A u t doc \<Longrightarrow> doc_fetched A s t doc"
  unfolding doc_fetched_def by (blast intro: fetched_later)

lemma scoped_doc_fetched: "scoped_doc A path n s = (Inr doc, t) \<Longrightarrow> doc_fetched A s t doc"
proof -
  assume d: "scoped_doc A path n s = (Inr doc, t)"
  then obtain v where "http_get (na_session A) path [] s = (Inr v, t)" "item ''data'' v = Inr doc"
    by (auto simp: scoped_doc_def seq_Inr pure_def guard_Inr)
  moreover from this(1) have "fetched A s t (api_request (na_session A) ''GET'' path None []) v"
    unfolding http_get_def by (rule session_fetched)
  ultimately show ?thesis
    using doc_allowed_True [OF scoped_doc_Inr [OF d]] unfolding doc_fetched_def by (fastforce simp: api_request_def)
qed

lemma read_invoice_fetched:
  "next_read_invoice A ref s = (Inr i, t) \<Longrightarrow> \<exists>doc. doc_fetched A s t doc \<and> invoice_of doc = Inr i"
  using scoped_doc_fetched by (fastforce simp: next_read_invoice_def seq_Inr pure_def)

lemma read_payment_fetched:
  "next_read_payment A ref s = (Inr p, t) \<Longrightarrow> \<exists>doc. doc_fetched A s t doc \<and> payment_of (reversal_handle ref) doc = Inr p"
  using scoped_doc_fetched by (fastforce simp: next_read_payment_def seq_Inr pure_def)

lemma some_read_Some: "some_read A ref s = (Inr (Some r), t) \<Longrightarrow> next_read_invoice A ref s = (Inr r, t)"
  by (auto simp: some_read_def on_reject_def handle_def seq_def ret_def fail_with_def split: prod.splits sum.splits if_splits)

text \<open>A posting names a document only if it has just been fetched.\<close>

definition posting_fetched :: "'w next_adapter \<Rightarrow> 'w client \<Rightarrow> 'w client \<Rightarrow> remote_posting \<Rightarrow> bool" where
  "posting_fetched A s t q = (rq_reference q = None
     \<or> (\<exists>doc i. doc_fetched A s t doc \<and> invoice_of doc = Inr i \<and> rq_reference q = Some (ri_reference i)))"

lemma posting_simps [simp]: "posting_fetched A s t (rejected_posting n)"
  by (simp add: posting_fetched_def rejected_posting_def)

lemma posted_fetched: "next_read_invoice A ref s = (Inr i, t) \<Longrightarrow> posting_fetched A s t (posted_posting (ri_reference i))"
  using read_invoice_fetched by (fastforce simp: posting_fetched_def posted_posting_def)

lemma posting_later: "prefix (cn_sent s) (cn_sent u) \<Longrightarrow> posting_fetched A u t q \<Longrightarrow> posting_fetched A s t q"
  unfolding posting_fetched_def by (blast intro: doc_fetched_later)

lemma some_read_Inr: "some_read A ref s = (Inr c, u) \<Longrightarrow> prefix (cn_sent s) (cn_sent u)"
  by (rule only_prefix [where P = "\<lambda>_. True" and m = "some_read A ref"])
    (unfold some_read_def on_reject_def next_read_invoice_def scoped_doc_def http_get_def, intro only_rules, simp_all)

lemma submit_fetched:
  assumes "submit_draft A ref s = (Inr q, t)"
  shows "posting_fetched A s t q"
proof -
  let ?m = "seq (http_put (na_session A) (invoice_path (resolve_draft_ref ref)) (docstatus_payload 1)) (\<lambda>_.
      seq (next_read_invoice A ref) (\<lambda>r. ret (posted_posting (ri_reference r))))"
  obtain r u where m: "?m s = (r, u)" by fastforce
  show ?thesis
  proof (cases r)
    case (Inl e)
    with assms m show ?thesis
      by (auto simp: submit_draft_def on_reject_def handle_def look_def fail_with_def ret_def split: if_splits)
  next
    case (Inr q')
    with assms m have q: "?m s = (Inr q, t)" by (simp add: submit_draft_def on_reject_def handle_def)
    then obtain v w i where p: "http_put (na_session A) (invoice_path (resolve_draft_ref ref)) (docstatus_payload 1) s = (Inr v, w)"
      and i: "next_read_invoice A ref w = (Inr i, t)" "q = posted_posting (ri_reference i)"
      by (auto simp: seq_Inr ret_def)
    have "prefix (cn_sent s) (cn_sent w)"
      by (rule only_prefix [where P = "\<lambda>_. True"
          and m = "http_put (na_session A) (invoice_path (resolve_draft_ref ref)) (docstatus_payload 1)"])
        (use p in \<open>simp_all add: http_put_def only_session\<close>)
    from posting_later [OF this posted_fetched [OF i(1)]] i(2) show ?thesis by simp
  qed
qed

lemma post_fetched:
  assumes "next_post_invoice A ref s = (Inr q, t)"
  shows "posting_fetched A s t q"
proof -
  obtain c u where c: "some_read A ref s = (Inr c, u)" and k: "(case c of
       None \<Rightarrow> ret (rejected_posting ''Invoice not found'')
     | Some r \<Rightarrow>
         if ri_status r = ''POSTED'' then ret (posted_posting (ri_reference r))
         else if ri_status r = ''CANCELLED'' then ret (rejected_posting ''Invoice is cancelled'')
         else submit_draft A ref) u = (Inr q, t)"
    using assms by (auto simp: next_post_invoice_def seq_Inr)
  show ?thesis
  proof (cases c)
    case (Some r)
    with c posted_fetched [OF some_read_Some] have "posting_fetched A s u (posted_posting (ri_reference r))" by blast
    with k Some posting_later [OF some_read_Inr [OF c] submit_fetched] show ?thesis
      by (auto simp: ret_def split: if_splits)
  qed (use k in \<open>auto simp: ret_def\<close>)
qed

lemma reconcile_post_fetched:
  assumes "next_reconcile_post A ref s = (Inr q, t)"
  shows "posting_fetched A s t q"
proof -
  obtain c u where c: "some_read A ref s = (Inr c, u)" and k: "(case c of
       None \<Rightarrow> ret (rejected_posting ''Draft not found'')
     | Some r \<Rightarrow>
         if ri_status r = ''POSTED'' then ret (posted_posting (ri_reference r))
         else ret (rejected_posting (''Draft in status '' @ ri_status r))) u = (Inr q, t)"
    using assms by (auto simp: next_reconcile_post_def seq_Inr)
  show ?thesis
  proof (cases c)
    case (Some r)
    with c posted_fetched [OF some_read_Some] have "posting_fetched A s u (posted_posting (ri_reference r))" by blast
    with k Some show ?thesis by (auto simp: ret_def split: if_splits)
  qed (use k in \<open>auto simp: ret_def\<close>)
qed

subsection \<open>What a list was asked for\<close>

text \<open>A filter that lets only documents of the scope's units pass.\<close>

definition company_clause :: "str set \<Rightarrow> json \<Rightarrow> bool" where
  "company_clause scope c = ((\<exists>u \<in> scope. c = clause [''company'', ''='', u])
     \<or> (\<exists>us. set us \<subseteq> scope \<and> c = JArr [JStr ''company'', JStr ''in'', JArr (map JStr us)]))"

definition asked_in_scope :: "'w next_adapter \<Rightarrow> str \<Rightarrow> http_request \<Rightarrow> bool" where
  "asked_in_scope A path rq = (\<exists>params cs. rq = api_request (na_session A) ''GET'' path None params
     \<and> (''filters'', filters_text cs) \<in> set params \<and> list_ex (company_clause (na_scope A)) cs)"

text \<open>Rows that are handed out: none, or those of the answer to such a request.\<close>

definition listed :: "'w next_adapter \<Rightarrow> 'w client \<Rightarrow> 'w client \<Rightarrow> str \<Rightarrow> (jval \<Rightarrow> 'b res) \<Rightarrow> 'b list \<Rightarrow> bool" where
  "listed A s t path f rows = (rows = [] \<or> (\<exists>rq v. fetched A s t rq v \<and> asked_in_scope A path rq
     \<and> bind_res (bind_res (item_or ''data'' (VArr []) v) items) (map_res f) = Inr rows))"

lemma units_clause_scope: "company_clause scope (units_clause scope)"
proof -
  have "set (sorted_list_of_set scope) \<subseteq> scope" by (cases "finite scope") simp_all
  then show ?thesis unfolding company_clause_def units_clause_def by blast
qed

lemma scope_clause_scope: "company_clause scope (scope_clause scope)"
proof (cases "\<exists>u. sorted_list_of_set scope = [u]")
  case True
  then obtain u where u: "sorted_list_of_set scope = [u]" by blast
  then have "u \<in> scope" by (cases "finite scope") (metis list.set_intros(1) set_sorted_list_of_set, simp)
  with u show ?thesis by (auto simp: scope_clause_def company_clause_def)
next
  case False
  then have "scope_clause scope = units_clause scope" by (auto simp: scope_clause_def split: list.splits)
  then show ?thesis by (simp add: units_clause_scope)
qed

lemma listing_fetched:
  assumes "listing A path params s = (Inr d, t)"
  obtains v where "fetched A s t (api_request (na_session A) ''GET'' path None params) v" "item_or ''data'' (VArr []) v = Inr d"
  using assms session_fetched that by (fastforce simp: listing_def http_get_def seq_Inr pure_def)

lemma query_listed:
  assumes "next_query_invoices A st un cu s = (Inr q, t)"
  shows "listed A s t ''/api/resource/Sales Invoice'' (item ''name'') (rl_references q)"
proof (cases "given un \<and> the un \<notin> na_scope A")
  case True
  with assms show ?thesis by (auto simp: next_query_invoices_def ret_def listed_def)
next
  case False
  let ?ps = "[(''fields'', ''['' @ json_string ''name'' @ '']''), (''limit_page_length'', ''1000''),
         (''filters'', filters_text (query_clauses (na_scope A) st un cu))]"
  obtain d where d: "listing A ''/api/resource/Sales Invoice'' ?ps s = (Inr d, t)"
    and names: "bind_res (items d) (map_res (item ''name'')) = Inr (rl_references q)"
    using assms False by (auto simp: next_query_invoices_def seq_Inr pure_def ret_def)
  obtain v where v: "fetched A s t (api_request (na_session A) ''GET'' ''/api/resource/Sales Invoice'' None ?ps) v"
    "item_or ''data'' (VArr []) v = Inr d" by (rule listing_fetched [OF d])
  have "list_ex (company_clause (na_scope A)) (query_clauses (na_scope A) st un cu)"
    using False scope_clause_scope by (auto simp: query_clauses_def company_clause_def)
  then have "asked_in_scope A ''/api/resource/Sales Invoice'' (api_request (na_session A) ''GET'' ''/api/resource/Sales Invoice'' None ?ps)"
    unfolding asked_in_scope_def by (intro exI conjI) (rule refl, simp_all)
  with v names show ?thesis unfolding listed_def by (intro disjI2 exI conjI) (assumption, simp_all)
qed

lemma index_listed:
  assumes "next_evidence_index A s = (Inr ps, t)"
  shows "listed A s t ''/api/resource/Payment Entry'' evidence_pair ps"
proof (cases "na_scope A = {}")
  case True
  with assms show ?thesis by (simp add: next_evidence_index_def ret_def listed_def)
next
  case False
  let ?ps = "[(''fields'', ''['' @ json_string ''name'' @ '','' @ json_string ''reference_no'' @ '']''), (''limit_page_length'', ''1000''),
         (''filters'', filters_text [units_clause (na_scope A)])]"
  obtain d where d: "listing A ''/api/resource/Payment Entry'' ?ps s = (Inr d, t)"
    and names: "bind_res (items d) (map_res evidence_pair) = Inr ps"
    using assms False by (auto simp: next_evidence_index_def seq_Inr pure_def)
  obtain v where v: "fetched A s t (api_request (na_session A) ''GET'' ''/api/resource/Payment Entry'' None ?ps) v"
    "item_or ''data'' (VArr []) v = Inr d" by (rule listing_fetched [OF d])
  have "list_ex (company_clause (na_scope A)) [units_clause (na_scope A)]" using units_clause_scope by (simp add: list_ex_iff)
  then have "asked_in_scope A ''/api/resource/Payment Entry'' (api_request (na_session A) ''GET'' ''/api/resource/Payment Entry'' None ?ps)"
    unfolding asked_in_scope_def
    by (intro exI [of _ ?ps] exI [of _ "[units_clause (na_scope A)]"] conjI) (rule HOL.refl, simp, assumption)
  with v names show ?thesis unfolding listed_def by (intro disjI2 exI conjI) (assumption, simp_all)
qed

text \<open>The last request before a payment is reconciled is the one that reads it.\<close>

lemma picked_Inr:
  "(case name of None \<Rightarrow> reject why | Some (VStr n) \<Rightarrow> f n | Some _ \<Rightarrow> fail_with e) u = (Inr p, t) \<Longrightarrow> \<exists>n. f n u = (Inr p, t)"
  by (cases name) (auto simp: reject_never fail_with_def split: jval.splits)

lemma only_listing: "only (\<lambda>_. True) (listing A path params)"
  unfolding listing_def http_get_def by (intro only_rules) simp_all

lemma reconciled_read:
  "next_reconcile_payment A e s = (Inr p, t) \<Longrightarrow>
   \<exists>n u. prefix (cn_sent s) (cn_sent u) \<and> next_read_payment A n u = (Inr p, t)"
  unfolding next_reconcile_payment_def seq_Inr
  by (elim exE conjE) (drule picked_Inr, drule only_prefix [OF only_listing], auto simp: pure_def)

text \<open>What each answer of the adapter is made of.\<close>

fun handed_out :: "'w next_adapter \<Rightarrow> 'w client \<Rightarrow> 'w client \<Rightarrow> next_answer \<Rightarrow> bool" where
  "handed_out A s t (AInvoice i) = (\<exists>doc. doc_fetched A s t doc \<and> invoice_of doc = Inr i)"
| "handed_out A s t (APayment p) = (\<exists>doc reversal_of. doc_fetched A s t doc \<and> payment_of reversal_of doc = Inr p)"
| "handed_out A s t (APosting q) = posting_fetched A s t q"
| "handed_out A s t (AQuery q) = listed A s t ''/api/resource/Sales Invoice'' (item ''name'') (rl_references q)"
| "handed_out A s t (ADrafts ds) = (\<exists>names. listed A s t ''/api/resource/Sales Invoice'' (item ''name'') names
     \<and> ds = set (map (\<lambda>r. ''DRAFT:'' @ py_str r) names))"
| "handed_out A s t (AIndex ps) = listed A s t ''/api/resource/Payment Entry'' evidence_pair ps"
| "handed_out A s t _ = True"

text \<open>C19. The adapter keeps to its units, whatever the server answers. No operation sends a document
  body that names a company outside the authorized scope. An invoice, a payment, or the reference
  of a posted document is handed out only from the document that the last request of the
  operation has fetched, and only if the scope is not empty and the company of this document,
  when it names one, is a unit of the scope. The names of a query, the drafts and the evidence
  index are empty or the rows of the answer to a request whose filters ask for units of the
  scope alone; that the server applies its filters is trusted, the rows are not checked again.\<close>

theorem next_scoped:
  assumes "next_exec A x s = (r, t)"
  shows "(\<exists>l. cn_sent t = cn_sent s @ l \<and> list_all (\<lambda>(rq, _). body_scoped (na_scope A) rq) l)
    \<and> (\<forall>a. r = Inr a \<longrightarrow> handed_out A s t a)"
proof (intro conjI allI impI)
  have "only (body_scoped (na_scope A)) (next_exec A x)"
    by (cases x; simp only: next_exec.simps as_answer_def)
      (intro only_rules only_create only_pay only_others)+
  then have "adds (body_scoped (na_scope A)) s (snd (next_exec A x s))" by (simp add: only_def along_def)
  with assms show "\<exists>l. cn_sent t = cn_sent s @ l \<and> list_all (\<lambda>(rq, _). body_scoped (na_scope A) rq) l"
    by (simp add: adds_def)
next
  fix a assume a: "r = Inr a"
  have inv: "handed_out A s t (AInvoice i)" if "next_read_invoice A ref s = (Inr i, t)" for ref i
    using read_invoice_fetched [OF that] by simp
  have rpay: "handed_out A s t (APayment p)" if "next_read_payment A ref s = (Inr p, t)" for ref p
    using read_payment_fetched [OF that] by auto
  have posting: "handed_out A s t (APosting q)"
    if "next_post_invoice A ref s = (Inr q, t) \<or> next_reconcile_post A ref s = (Inr q, t)" for ref q
    using that post_fetched reconcile_post_fetched by auto
  have pay: "handed_out A s t (APayment p)" if "next_reconcile_payment A e s = (Inr p, t)" for e p
    using reconciled_read [OF that] read_payment_fetched doc_fetched_later by (metis handed_out.simps(2))
  have drafts: "handed_out A s t (ADrafts ds)" if "next_known_drafts A s = (Inr ds, t)" for ds
    using that query_listed by (fastforce simp: next_known_drafts_def seq_Inr ret_def)
  from assms a show "handed_out A s t a"
    using query_listed index_listed
    by (cases x) (auto simp: as_answer_def seq_Inr ret_def simp del: handed_out.simps(1-3,5) intro: inv rpay posting pay drafts)
qed

section \<open>Writes\<close>

text \<open>A request that changes nothing at the server: a \<^verbatim>\<open>GET\<close>, or the login.\<close>

definition reading :: "'w next_adapter \<Rightarrow> http_request \<Rightarrow> bool" where
  "reading A rq = (hr_method rq = ''GET'' \<or> rq = login_request (ss_config (na_session A)))"

definition writes :: "'w next_adapter \<Rightarrow> 'w client \<Rightarrow> 'w client \<Rightarrow> bool" where
  "writes A s t = (\<not> adds (reading A) s t)"


lemma reads_only [simp]: "only (reading A) m \<Longrightarrow> \<not> writes A s (snd (m s))"
  by (simp add: writes_def only_def along_def)





lemma answer_state [simp]: "snd (as_answer f m s) = snd (m s)"
  by (simp add: as_answer_def seq_def ret_def split: prod.splits sum.splits)

lemma quiet_same [simp]: "\<not> writes A s s"
  using adds_order(1) by (auto simp: writes_def reflp_def)

lemma quiet [simp]: "\<not> writes A s (snd (ret x s))" "\<not> writes A s (snd (reject n s))" "\<not> writes A s (snd (fail_with e s))"
  by (rule reads_only, rule only_basic)+

lemma quiet_guard [simp]: "\<not> writes A s (snd (guard b (reject n) s))"
  by (rule reads_only) (intro only_rules)









section \<open>Witnesses\<close>

text \<open>A server that knows one draft, of the unit U1, and accepts any password.\<close>

definition shop_reply :: json where
  "shop_reply = JObj [(''data'', JObj [(''name'', JStr ''SI-1''), (''company'', JStr ''U1''), (''docstatus'', JInt 0)])]"

definition shop_open :: "unit opener" where
  "shop_open rq w = (case hr_body rq of
       FormBody _ \<Rightarrow> (Answered (compact (JObj [(''message'', JStr ''ok'')])), w)
     | _ \<Rightarrow> (Answered (compact shop_reply), w))"

lemma shop_open_form: "shop_open rq w =
    (Answered (if \<exists>f. hr_body rq = FormBody f then compact (JObj [(''message'', JStr ''ok'')]) else compact shop_reply), w)"
  unfolding shop_open_def by (cases "hr_body rq") (simp_all only: http_body.case http_body.distinct http_body.inject if_True if_False simp_thms ex_simps)

definition shop_session :: "str \<Rightarrow> unit session" where
  "shop_session p = \<lparr>ss_config = demo_config\<lparr>ec_password := p\<rparr>, ss_open = shop_open, ss_float = (\<lambda>_. NotANumber)\<rparr>"

definition shop :: "str \<Rightarrow> unit next_adapter" where
  "shop p = \<lparr>na_session = shop_session p, na_scope = {''U1''}, na_float = (\<lambda>_. Inl ValueError), na_today = ''2024-01-01''\<rparr>"

lemma hush_form: "hush rq = hush rq' \<Longrightarrow> (\<exists>f. hr_body rq = FormBody f) = (\<exists>f. hr_body rq' = FormBody f)"
proof -
  have "(\<exists>f. hr_body (hush rq) = FormBody f) = (\<exists>f. hr_body rq = FormBody f)" for rq
    by (cases "hr_body rq") (simp_all add: hush_def)
  then show "hush rq = hush rq' \<Longrightarrow> ?thesis" by metis
qed

lemma shop_apart: "password_apart (na_session (shop p)) (shop_session q)"
proof -
  have "shop_open rq w = shop_open rq' w" if "hush rq = hush rq'" for rq rq' w
    unfolding shop_open_form hush_form [OF that] by (rule refl)
  then have "\<forall>rq rq' w. hush rq = hush rq' \<longrightarrow> ss_open (shop_session p) rq w = ss_open (shop_session q) rq' w"
    unfolding shop_session_def session.simps by blast
  moreover have "ss_config (shop_session q) = ss_config (shop_session p)\<lparr>ec_password := q\<rparr>"
    by (simp add: shop_session_def)
  moreover have "ss_float (shop_session q) = ss_float (shop_session p)" "na_session (shop p) = shop_session p"
    by (simp_all add: shop_session_def shop_def)
  ultimately show ?thesis unfolding password_apart_def by metis
qed

theorem password_confined_witness:
  "fst (next_run (shop ''old'') [NRead ''SI-1'', NCancel ''SI-1''] (new_client ()))
   = fst (next_run (with_session (shop ''old'') (shop_session ''new'')) [NRead ''SI-1'', NCancel ''SI-1''] (new_client ()))
   \<and> login_request (ss_config (shop_session ''old'')) \<noteq> login_request (ss_config (shop_session ''new''))"
proof
  show "login_request (ss_config (shop_session ''old'')) \<noteq> login_request (ss_config (shop_session ''new''))"
    by (simp add: shop_session_def login_request_def)
qed (rule password_confined [OF shop_apart, THEN conjunct1])

definition shop_invoice :: remote_invoice where
  "shop_invoice = \<lparr>ri_reference = VStr ''SI-1'', ri_status = ''DRAFT'', ri_total = ''0'', ri_currency = VStr ''IDR'',
     ri_open = ''0'', ri_issued = VStr [], ri_due = VStr [],
     ri_payload = VObj [(''company'', VStr ''U1''), (''docstatus'', VInt 0), (''name'', VStr ''SI-1'')]\<rparr>"

lemma shop_reads: "fst (next_exec (shop ''pw'') (NRead ''SI-1'') (new_client ())) = Inr (AInvoice shop_invoice)"
  by code_simp

theorem next_scoped_witness:
  "\<exists>t doc. next_exec (shop ''pw'') (NRead ''SI-1'') (new_client ()) = (Inr (AInvoice shop_invoice), t)
     \<and> doc_fetched (shop ''pw'') (new_client ()) t doc \<and> invoice_of doc = Inr shop_invoice"
proof -
  obtain r t where x: "next_exec (shop ''pw'') (NRead ''SI-1'') (new_client ()) = (r, t)" by fastforce
  with shop_reads have r: "r = Inr (AInvoice shop_invoice)" by simp
  with next_scoped [OF x] have "handed_out (shop ''pw'') (new_client ()) t (AInvoice shop_invoice)" by blast
  with x r show ?thesis by auto
qed



section \<open>A rejection that was an application\<close>

text \<open>A server that submits the draft and whose gateway then gives up: the adapter takes any HTTP
  error of the submission for a rejection, and the reconciliation right after finds the invoice
  posted.\<close>

definition slow_open :: "bool opener" where
  "slow_open rq posted = (case hr_body rq of
       FormBody _ \<Rightarrow> (Answered (compact (JObj [(''message'', JStr ''ok'')])), posted)
     | JsonBody _ \<Rightarrow> (HttpStatus 504 None, True)
     | NoBody \<Rightarrow> (Answered (compact (JObj [(''data'', JObj [(''name'', JStr ''SI-1''), (''company'', JStr ''U1''),
         (''docstatus'', JInt (if posted then 1 else 0))])])), posted))"

definition slow_shop :: "bool next_adapter" where
  "slow_shop = \<lparr>na_session = \<lparr>ss_config = demo_config, ss_open = slow_open, ss_float = (\<lambda>_. NotANumber)\<rparr>,
     na_scope = {''U1''}, na_float = (\<lambda>_. Inl ValueError), na_today = ''2024-01-01''\<rparr>"

lemma rejected_though_posted:
  "fst (next_run slow_shop [NPost ''SI-1'', NReconcilePost ''SI-1''] (new_client False))
   = [Inr (APosting (rejected_posting ''ERPNext HTTP 504: HTTP error (unreadable body)'')),
      Inr (APosting (posted_posting (VStr ''SI-1'')))]"
  by code_simp

end
