(* ===== verification/Spec2Isabelle.thy ===== *)
theory Spec2Isabelle
  imports Domain AuditClaims Lease MutationStore Executor DurableStore ReconQueue ReconEngine
    FixtureClaims Authz FinPolicy UnitSettings FixtureCrm Isolation Reports PaymentClaims PostClaims
    ImportClaims BackupClaims ErpNextClaims
begin

text \<open>
  Verification of the core of an ERP gateway: the services under \<^verbatim>\<open>src/src\<close> that stand
  between the agents and an ERP provider. They decide who may do what, under which financial
  identity an invoice is issued, guarantee that a mutation reaches the provider at most once,
  keep a tamper-evident audit trail, and settle what is uncertain after a failure. Paths below
  are relative to \<^verbatim>\<open>src/src\<close>.

  How the parts interact. A request is authorized (\<open>Authz\<close>) for one operating unit
  (\<open>UnitRegistry\<close>, \<open>UnitSettings\<close>) and gets its financial identity from a catalog, signed
  where trusted issuers are configured (\<open>FinPolicy\<close>). A mutation runs under a fenced lease
  (\<open>Lease\<close>) with an idempotency key, derived where a namespace is supplied, through the executor (\<open>Executor\<close>), which claims the key in a store (\<open>MutationStore\<close>, durable in
  \<open>DurableStore\<close>), writes audit records (\<open>AuditChain\<close>) before and after, and calls the provider.
  The provider is behind a port (\<open>ErpPort\<close>); \<open>FixtureErp\<close> is the deterministic implementation.
  What is left uncertain is queued (\<open>ReconQueue\<close>) and classified against the provider's
  read-back (\<open>ReconEngine\<close>). The reports (\<open>Reports\<close>) read through the same port and the same
  access layer; the CRM (\<open>FixtureCrm\<close>) keeps the units' pipelines apart; \<open>Isolation\<close> is the
  admission policy for everything that bypasses the gateway. On top stand the three workflows:
  an invoice is drafted and previewed by one actor (\<open>DraftFlow\<close>), posted by another who presents
  the preview (\<open>PostFlow\<close>), and paid (\<open>PaymentFlow\<close>); each authorizes its caller, calls the
  provider through the port and keeps what is uncertain until it has been read back.

  The theories, what they model, and what their lemmas show:

    \<^item> \<open>Prelude\<close>, \<open>Decimals\<close>, \<open>Values\<close>: exceptions and results as sums, dictionaries in insertion
      order, strings and the regular expressions of the program; \<^verbatim>\<open>decimal.Decimal\<close> with its
      28-digit context; datetimes, JSON with \<^verbatim>\<open>json.dumps\<close>, and the digest functions as
      arguments.
    \<^item> \<open>Domain\<close> (\<^verbatim>\<open>domain/money.py\<close>, \<^verbatim>\<open>domain/document_state.py\<close>): canonical amounts
      are unique and their payload round-trips.
    \<^item> \<open>AuditChain\<close>, \<open>AuditClaims\<close> (\<^verbatim>\<open>audit/chain.py\<close>): every chain that is appended to
      verifies and secrets are redacted; two verified chains of one head hash hold the same
      entries, or a collision is exhibited, where no event name and no actor has a colon
      (\<open>material_ambiguous\<close> shows that this is needed).
    \<^item> \<open>Lease\<close>, \<open>MutationStore\<close>, \<open>Executor\<close>, \<open>DurableStore\<close> (\<^verbatim>\<open>mutations/*.py\<close>): tokens grow,
      keys do not depend on the order of a payload, a provider call happens at most once per
      key whatever fails, and only behind its guards; a durable claim has one owner until its
      lease expires. The locale \<open>at_most_once\<close> states the argument for any store, and
      \<open>audit_log\<close> that of an append-only log.
    \<^item> \<open>ErpPort\<close>, \<open>FixtureErp\<close>, \<open>FixtureErpProps\<close>, \<open>FixtureClaims\<close> (\<^verbatim>\<open>contracts/erp_port.py\<close>,
      \<^verbatim>\<open>contracts/financial_identity.py\<close>, \<^verbatim>\<open>adapters/fixture/erp.py\<close>): the provider with
      its failure injection; official references are permanent, an evidence pays once, open
      balances add up, a lost answer is resolved by the read-back. The locale
      \<open>readback_port\<close> is the contract of the read-back, interpreted on the provider.
    \<^item> \<open>ReconQueue\<close>, \<open>ReconEngine\<close> (\<^verbatim>\<open>reconciliation/*.py\<close>, \<^verbatim>\<open>contracts/reconciliation.py\<close>):
      the queue refines its state machine, its log replays, terminal items are frozen; a
      classification ends, unless the item was once escalated as ambiguous and the provider does
      not hold it (\<open>absent_after_ambiguous\<close>), agrees with the provider and changes nothing
      there but the marks of uncertain outcomes; the orphan report is exact.
    \<^item> \<open>Authz\<close> (\<^verbatim>\<open>authz/access.py\<close>) and \<open>FinPolicy\<close> (\<^verbatim>\<open>policy/financial_identity.py\<close>): when
      exactly access is granted, who can post, which identity is resolved, and what a
      signature vouches for where trusted issuers are configured (by default none are).
    \<^item> \<open>UnitRegistry\<close>, \<open>UnitSettings\<close> (\<^verbatim>\<open>units/*.py\<close>): the registry's rules over pairs of
      units, the strict catalog parser reads back what is written, settings versions are
      append-only with one active version, and an expected version wins once.
    \<^item> \<open>FixtureCrm\<close> (\<^verbatim>\<open>crm/port.py\<close>, \<^verbatim>\<open>adapters/fixture_crm/__init__.py\<close>): what other units
      do changes no answer under a unit's context but the numbers of new records; cursors list everything once.
    \<^item> \<open>Isolation\<close> (\<^verbatim>\<open>isolation_architecture/*.py\<close>): the admission matrix as a rule.
    \<^item> \<open>Reports\<close> (\<^verbatim>\<open>reports/*\<close>): scopes of the aging report and the owner's roll-up, and the
      exactness of the subtotals.

    \<^item> \<open>Flow\<close>: what the workflows share (actions on a state that may raise, with their logic;
      callers; authorization and the choice of the assignment; the logs).
    \<^item> \<open>PyRepr\<close>, \<open>DraftFlow\<close>, \<open>DraftClaims\<close> (\<^verbatim>\<open>workflows/invoice_draft/workflow.py\<close>): drafts
      and previews. Every command refines \<open>draft_step\<close>: only the entitled owner changes an open
      draft; drafts are well typed; keys are idempotent; the text behind a preview hash decodes
      (locale \<open>self_delimiting\<close>), so a preview that still renders has the lines it was issued with.
    \<^item> \<open>PostFlow\<close>, \<open>PostBooks\<close>, \<open>PostClaims\<close> (\<^verbatim>\<open>workflows/invoice_post/workflow.py\<close>):
      posting. Every command refines \<open>books_step\<close> for any provider that meets the contract
      \<open>posting_port\<close>, as the fixture provider does: what reaches the provider was warranted and
      is one document with the lines that were previewed, a record shows every field of the
      preview and of the resolved identity, records are permanent, and the classification of a
      pending post agrees with the provider.
    \<^item> \<open>PaymentFlow\<close>, \<open>PaymentClaims\<close> (\<^verbatim>\<open>workflows/payments/workflow.py\<close>): payments over any
      provider that meets \<open>payment_port\<close>: guards, the origin of every claim in the commands
      given, the agreement of claims and evidence with the provider's payments, and the truth
      of a reconciliation, which leaves the provider alone.

    \<^item> \<open>CsvReader\<close>, \<open>Imports\<close>, \<open>ImportClaims\<close> (\<^verbatim>\<open>imports/*.py\<close>): the automaton of
      Python's csv reader, which reads back every written table with bounded fields; the dry
      run, equal to an index-wise specification, bounded, and free of formulas; and the
      batches, which are kept. The importer stands alone: it calls none of the other parts.

    \<^item> \<open>RestClient\<close>, \<open>RestClaims\<close>, \<open>ErpNext\<close>, \<open>ErpNextClaims\<close>
      (\<^verbatim>\<open>adapters/erpnext/erpnext_adapter.py\<close>): the provider that speaks to a real server. The
      server is an argument, a function from requests and a world to replies, and an answer may
      be any JSON text. A client records every request with its reply, so the lemmas say what is
      sent: a request is repeated only after a refusal, the password appears only in the login
      form (two runs that differ in it agree elsewhere), no document body names a company
      outside the scope, a document is handed out only after its company has been checked
      against the scope, and only a warranted operation sends anything but a \<^verbatim>\<open>GET\<close>.
    \<^item> \<open>JsonText\<close>, \<open>PyValue\<close>, \<open>Backup\<close>, \<open>BackupClaims\<close> (\<^verbatim>\<open>ops/backup_manifest.py\<close> beside
      \<^verbatim>\<open>src/src\<close>): the parser behind \<^verbatim>\<open>json.loads\<close>, which inverts the writer, and Python's
      coercions on what it returns, both shared with the adapter; manifests round-trip, their
      hash binds their content, and no path of a manifest that was read leaves its directory.

  Conventions. A raise is \<^term>\<open>Inl\<close> of an exception, and a stateful operation returns its state
  even when it raises. Operations that hold a lock are single steps. Characters are code points
  below 256. Clocks, digests, file contents and the environment are arguments. Loops are
  structural; the only bounds are the ones the program has (attempts of the engine, the
  number of pages a client asks for, which \<open>pages_complete\<close> shows to be enough).

  Not modelled: the adapter for a real CRM server (\<^verbatim>\<open>adapters/erpnext_crm\<close>); the servers
  themselves, cookies and the conversion of binary floats, which are arguments of the adapter;
  zip containers and the decoding of UTF-8, which are arguments of the importer; the user
  interface, the other operations and scripts, which are input and output; tests and
  configuration.
\<close>

end
